(* ===== verification/Prelude.thy ===== *)
theory Prelude
  imports Main "HOL-Library.Multiset"
begin

text \<open>
  The shared ground of the development: what every component theory uses and no part of
  the program owns.

  \<^item> identifiers, instants and results: the type names of the model;
  \<^item> tables: a database table is the list of its rows in insertion order, read by primary
    key (\<open>row_get\<close>), edited in place (\<open>row_edit\<close>) and appended to; unique indexes,
    also partial ones, are \<open>unique_on\<close>;
  \<^item> the row a query delivers first when it has no \<^verbatim>\<open>ORDER BY\<close> (\<open>first_row\<close>);
  \<^item> the round-trip contract of an encoding (locale \<open>codec\<close>) and the
    contract of a machine whose every step keeps an invariant (locale \<open>guarded_machine\<close>).
\<close>

section \<open>Collections of facts\<close>

named_theorems table_simps \<open>reading a table after an edit or an insert\<close>
named_theorems inv_intros \<open>an operation keeps an invariant\<close>

section \<open>Identifiers, instants, results\<close>

text \<open>
  A UUID is the number it denotes. An instant is a number of microseconds since the epoch
  (the resolution of Python's datetime); a timedelta is a number of microseconds.
\<close>

type_synonym uuid = nat
type_synonym instant = int
type_synonym bytes = "char list"

abbreviation second :: int where "second \<equiv> 1000000"
abbreviation minute :: int where "minute \<equiv> 60 * second"
abbreviation hour :: int where "hour \<equiv> 60 * minute"
abbreviation day :: int where "day \<equiv> 24 * hour"

text \<open>An error of an HTTP handler: \<^verbatim>\<open>raise HTTPException(status, detail)\<close>.\<close>

datatype http_error = HTTPException nat string

fun http_status :: "http_error \<Rightarrow> nat" where
  "http_status (HTTPException n _) = n"

section \<open>Tables\<close>

definition row_get :: "('r \<Rightarrow> 'k) \<Rightarrow> 'r list \<Rightarrow> 'k \<Rightarrow> 'r option" where
  "row_get k rows i = find (\<lambda>r. k r = i) rows"

definition row_edit :: "('r \<Rightarrow> 'k) \<Rightarrow> 'k \<Rightarrow> ('r \<Rightarrow> 'r) \<Rightarrow> 'r list \<Rightarrow> 'r list" where
  "row_edit k i g rows = map (\<lambda>r. if k r = i then g r else r) rows"

definition unique_on :: "('r \<Rightarrow> bool) \<Rightarrow> ('r \<Rightarrow> 'k) \<Rightarrow> 'r list \<Rightarrow> bool" where
  "unique_on P f rows \<longleftrightarrow> distinct (map f (filter P rows))"

text \<open>
  A query without an order delivers its rows in whatever order the planner finds. Which
  one comes first is the argument \<open>n\<close>: every row can be the first for some \<open>n\<close>, so
  what is proved for all \<open>n\<close> holds for every plan.
\<close>

definition first_row :: "nat \<Rightarrow> 'r list \<Rightarrow> 'r option" where
  "first_row n rows = (if rows = [] then None else Some (rows ! (n mod length rows)))"

lemma row_get_Nil [simp, table_simps]: "row_get k [] i = None"
  by (simp add: row_get_def)

lemma row_get_Cons [simp, table_simps]:
  "row_get k (r # rows) i = (if k r = i then Some r else row_get k rows i)"
  by (simp add: row_get_def)

lemma row_get_SomeD: "row_get k rows i = Some r \<Longrightarrow> r \<in> set rows \<and> k r = i"
  by (auto simp: row_get_def find_Some_iff)

lemma row_get_None_iff: "row_get k rows i = None \<longleftrightarrow> (\<forall>r \<in> set rows. k r \<noteq> i)"
  by (auto simp: row_get_def find_None_iff)

lemma row_get_append [table_simps]:
  "row_get k (xs @ ys) i = (case row_get k xs i of None \<Rightarrow> row_get k ys i | Some r \<Rightarrow> Some r)"
  by (induction xs) auto

lemma row_get_mem: "distinct (map k rows) \<Longrightarrow> r \<in> set rows \<Longrightarrow> row_get k rows (k r) = Some r"
  by (induction rows) auto

lemma row_edit_Nil [simp]: "row_edit k i g [] = []"
  by (simp add: row_edit_def)

lemma row_edit_Cons [simp]:
  "row_edit k i g (r # rows) = (if k r = i then g r else r) # row_edit k i g rows"
  by (simp add: row_edit_def)

lemma row_edit_append [simp]: "row_edit k i g (xs @ ys) = row_edit k i g xs @ row_edit k i g ys"
  by (simp add: row_edit_def)

lemma length_row_edit [simp]: "length (row_edit k i g rows) = length rows"
  by (simp add: row_edit_def)

lemma row_get_row_edit [table_simps]:
  assumes "\<And>r. k (g r) = k r"
  shows "row_get k (row_edit k i g rows) j =
    (if i = j then map_option g (row_get k rows j) else row_get k rows j)"
  by (induction rows) (auto simp: assms)

lemma map_row_edit:
  assumes "\<And>r. f (g r) = f r"
  shows "map f (row_edit k i g rows) = map f rows"
  by (induction rows) (auto simp: assms)

lemma set_row_edit: "set (row_edit k i g rows) = (\<lambda>r. if k r = i then g r else r) ` set rows"
  by (auto simp: row_edit_def)

lemma in_row_editE:
  assumes "r \<in> set (row_edit k i g rows)"
  obtains r0 where "r0 \<in> set rows" "k r0 = i" "r = g r0" | "r \<in> set rows" "k r \<noteq> i"
  using assms by (auto simp: row_edit_def split: if_splits)

lemma row_edit_id: "(\<forall>r \<in> set rows. k r \<noteq> i) \<Longrightarrow> row_edit k i g rows = rows"
  by (induction rows) auto

lemma filter_row_edit_other:
  assumes "\<And>r. k r = i \<Longrightarrow> r \<in> set rows \<Longrightarrow> P (g r) = P r"
  shows "map f (filter P (row_edit k i g rows)) =
    map (\<lambda>r. f (if k r = i then g r else r)) (filter P rows)"
  using assms by (induction rows) auto

lemma list_all_row_edit:
  assumes "\<And>r. P r \<Longrightarrow> P (g r)" "list_all P rows"
  shows "list_all P (row_edit k i g rows)"
  using assms by (induction rows) auto

lemma row_get_edit_None [table_simps]:
  assumes "\<And>r. k (g r) = k r"
  shows "row_get k (row_edit k i g rows) j = None \<longleftrightarrow> row_get k rows j = None"
  using assms by (simp add: row_get_row_edit)

lemma row_edit_const:
  assumes "distinct (map k rows)" "r \<in> set rows"
  shows "row_edit k (k r) g rows = row_edit k (k r) (\<lambda>_. g r) rows"
  using assms by (auto simp: row_edit_def distinct_map inj_on_def)

lemma row_edit_same:
  assumes "distinct (map k rows)" "r \<in> set rows" "g r = r"
  shows "row_edit k (k r) g rows = rows"
  using assms by (auto simp: row_edit_def distinct_map intro!: map_idI dest: inj_onD)

lemma filter_key: "distinct (map k rows) \<Longrightarrow> r \<in> set rows \<Longrightarrow> filter (\<lambda>x. k x = k r) rows = [r]"
  by (induction rows) (auto simp: filter_empty_conv image_iff)

lemma length_filter_or:
  assumes "\<forall>x \<in> set xs. \<not> (P x \<and> Q x)"
  shows "length (filter (\<lambda>x. P x \<or> Q x) xs) = length (filter P xs) + length (filter Q xs)"
  using assms by (induction xs) auto

lemma row_get_map:
  assumes "\<And>r. k (f r) = k r"
  shows "row_get k (map f rows) i = map_option f (row_get k rows i)"
  by (induction rows) (auto simp: assms)

lemma row_get_snoc_mono: "row_get k rows i \<noteq> None \<Longrightarrow> row_get k (rows @ ys) i \<noteq> None"
  by (auto simp: row_get_append)

lemma unique_on_Nil [simp]: "unique_on P f []"
  by (simp add: unique_on_def)

lemma unique_on_snoc [table_simps]:
  "unique_on P f (rows @ [r]) \<longleftrightarrow>
     unique_on P f rows \<and> (P r \<longrightarrow> (\<forall>x \<in> set rows. P x \<longrightarrow> f x \<noteq> f r))"
proof -
  have "(f r \<notin> f ` {x \<in> set rows. P x}) \<longleftrightarrow> (\<forall>x \<in> set rows. P x \<longrightarrow> f x \<noteq> f r)"
    by (auto simp: image_iff)
  then show ?thesis by (simp add: unique_on_def)
qed

lemma unique_onD:
  assumes "unique_on P f rows" "x \<in> set rows" "y \<in> set rows" "P x" "P y" "f x = f y"
  shows "x = y"
  using assms by (auto simp: unique_on_def distinct_map inj_on_def)

lemma unique_on_True: "unique_on (\<lambda>_. True) f rows \<longleftrightarrow> distinct (map f rows)"
  by (simp add: unique_on_def)

lemma first_row_None [simp]: "first_row n rows = None \<longleftrightarrow> rows = []"
  by (simp add: first_row_def)

lemma first_row_SomeD: "first_row n rows = Some r \<Longrightarrow> r \<in> set rows"
  by (auto simp: first_row_def split: if_splits)

lemma first_row_Nil [simp]: "first_row n [] = None"
  by (simp add: first_row_def)

lemma first_row_single [simp]: "first_row n [r] = Some r"
  by (simp add: first_row_def)

lemma first_row_any:
  assumes "r \<in> set rows"
  shows "\<exists>n. first_row n rows = Some r"
proof -
  from assms obtain i where "i < length rows" "rows ! i = r"
    by (auto simp: in_set_conv_nth)
  then have "first_row i rows = Some r"
    by (auto simp: first_row_def)
  then show ?thesis ..
qed

section \<open>Sums over a table\<close>

definition sum_by :: "('r \<Rightarrow> bool) \<Rightarrow> ('r \<Rightarrow> int) \<Rightarrow> 'r list \<Rightarrow> int" where
  "sum_by P f rows = (\<Sum>r \<leftarrow> filter P rows. f r)"

lemma sum_by_Nil [simp]: "sum_by P f [] = 0"
  by (simp add: sum_by_def)

lemma sum_by_Cons [simp]: "sum_by P f (r # rows) = (if P r then f r else 0) + sum_by P f rows"
  by (simp add: sum_by_def)

lemma sum_by_append [simp]: "sum_by P f (xs @ ys) = sum_by P f xs + sum_by P f ys"
  by (induction xs) auto

lemma sum_by_none: "(\<forall>r \<in> set rows. \<not> P r) \<Longrightarrow> sum_by P f rows = 0"
  by (induction rows) auto

lemma sum_by_nonneg: "(\<forall>r \<in> set rows. P r \<longrightarrow> 0 \<le> f r) \<Longrightarrow> 0 \<le> sum_by P f rows"
  by (induction rows) auto

section \<open>Contracts shared by several components\<close>

text \<open>
  What an encoding promises its users: on the values it is meant for, decoding what was
  encoded gives the value back. Several components store a value as text and read it
  again (boarding codes, cached principals, cached trips).
\<close>

locale codec =
  fixes enc :: "'a \<Rightarrow> 'b" and dec :: "'b \<Rightarrow> 'a option" and valid :: "'a \<Rightarrow> bool"
  assumes dec_enc: "valid x \<Longrightarrow> dec (enc x) = Some x"
begin

lemma enc_inj: "valid x \<Longrightarrow> valid y \<Longrightarrow> enc x = enc y \<Longrightarrow> x = y"
  by (metis dec_enc option.inject)

lemma enc_inj_on: "inj_on enc {x. valid x}"
  by (auto intro: inj_onI enc_inj)

lemma dec_wrong: "valid x \<Longrightarrow> dec (enc x) \<noteq> None"
  by (simp add: dec_enc)

end

text \<open>
  What a machine with an invariant promises: each step keeps it. Runs are the reflexive
  transitive closure of its steps.
\<close>

locale guarded_machine =
  fixes step :: "'s \<Rightarrow> 's \<Rightarrow> bool" and inv :: "'s \<Rightarrow> bool"
  assumes step_inv: "step s t \<Longrightarrow> inv s \<Longrightarrow> inv t"
begin

lemma run_inv: "step\<^sup>*\<^sup>* s t \<Longrightarrow> inv s \<Longrightarrow> inv t"
  by (induction rule: rtranclp_induct) (auto intro: step_inv)

lemma run_keeps:
  assumes "step\<^sup>*\<^sup>* s t" "inv s"
    and mono: "\<And>u v. inv u \<Longrightarrow> step u v \<Longrightarrow> P u \<Longrightarrow> P v" and "P s"
  shows "P t"
proof -
  from assms(1) have "inv t \<and> P t"
    by (induction rule: rtranclp_induct) (auto intro: step_inv mono assms(2) assms(4))
  then show ?thesis ..
qed

end

end
