(* ===== verification/PyText.thy ===== *)
theory PyText
  imports Prelude
begin

text \<open>
  What the program uses of Python's text operations: \<^verbatim>\<open>str.split\<close> and
  \<^verbatim>\<open>str.join\<close> on a one-character separator, \<^verbatim>\<open>str(int)\<close>,
  \<^verbatim>\<open>int(str)\<close>, \<^verbatim>\<open>str.upper\<close>, \<^verbatim>\<open>str.lower\<close>,
  \<^verbatim>\<open>str.strip\<close> and \<^verbatim>\<open>round(float(str) * 100)\<close>.
  A Python string is a list of characters below 256; the case conversions and the white space
  are those of ASCII, which is all the program's codes, statuses and addresses use.
  \<^verbatim>\<open>float\<close> is exact: a literal is the decimal number it denotes, so the last rounding
  step agrees with the hardware for every amount with at most two decimals.
\<close>

section \<open>split and join\<close>

fun split_on :: "char \<Rightarrow> string \<Rightarrow> string list" where
  "split_on sep [] = [[]]"
| "split_on sep (c # cs) =
     (if c = sep then [] # split_on sep cs
      else (case split_on sep cs of [] \<Rightarrow> [[c]] | w # ws \<Rightarrow> (c # w) # ws))"

fun join_with :: "char \<Rightarrow> string list \<Rightarrow> string" where
  "join_with sep [] = []"
| "join_with sep [w] = w"
| "join_with sep (w # ws) = w @ sep # join_with sep ws"

lemma split_on_not_Nil [simp]: "split_on sep s \<noteq> []"
  by (cases s) (auto split: list.splits)

lemma split_on_no_sep: "sep \<notin> set s \<Longrightarrow> split_on sep s = [s]"
  by (induction s) auto

lemma split_on_append:
  "sep \<notin> set w \<Longrightarrow> split_on sep (w @ sep # s) = w # split_on sep s"
  by (induction w) auto

lemma split_join:
  assumes "ws \<noteq> []" "\<forall>w \<in> set ws. sep \<notin> set w"
  shows "split_on sep (join_with sep ws) = ws"
  using assms
  by (induction sep ws rule: join_with.induct) (auto simp: split_on_no_sep split_on_append)

lemma join_split: "join_with sep (split_on sep s) = s"
proof (induction s)
  case (Cons c cs)
  show ?case
  proof (cases "split_on sep cs")
    case Nil
    then show ?thesis by simp
  next
    case (Cons w ws)
    then show ?thesis using Cons.IH by (cases ws) auto
  qed
qed simp

lemma split_on_pieces: "w \<in> set (split_on sep s) \<Longrightarrow> sep \<notin> set w"
  by (induction s arbitrary: w) (auto split: list.splits if_splits)

section \<open>Integers\<close>

definition is_digit :: "char \<Rightarrow> bool" where
  "is_digit c \<longleftrightarrow> 48 \<le> (of_char c :: nat) \<and> (of_char c :: nat) \<le> 57"

definition digit_val :: "char \<Rightarrow> nat" where
  "digit_val c = of_char c - 48"

definition digit_char :: "nat \<Rightarrow> char" where
  "digit_char d = char_of (48 + d)"

fun nat_str :: "nat \<Rightarrow> string" where
  "nat_str n = (if n < 10 then [digit_char n] else nat_str (n div 10) @ [digit_char (n mod 10)])"

declare nat_str.simps [simp del]

definition int_str :: "int \<Rightarrow> string" where
  "int_str i = (if i < 0 then CHR ''-'' # nat_str (nat (- i)) else nat_str (nat i))"

text \<open>
  Digits, with single underscores between digits; the flag says whether the last character
  read was a digit.
\<close>

fun scan_digits :: "bool \<Rightarrow> nat \<Rightarrow> string \<Rightarrow> nat option" where
  "scan_digits b acc [] = (if b then Some acc else None)"
| "scan_digits b acc (c # cs) =
     (if is_digit c then scan_digits True (10 * acc + digit_val c) cs
      else if c = CHR ''_'' \<and> b then scan_digits False acc cs
      else None)"

definition is_space :: "char \<Rightarrow> bool" where
  "is_space c \<longleftrightarrow> (let n = (of_char c :: nat) in n = 32 \<or> 9 \<le> n \<and> n \<le> 13 \<or> 28 \<le> n \<and> n \<le> 31)"

definition strip :: "string \<Rightarrow> string" where
  "strip s = rev (dropWhile is_space (rev (dropWhile is_space s)))"

text \<open>The interpreter refuses to convert more than 4300 digits.\<close>

definition max_str_digits :: nat where "max_str_digits = 4300"

definition scan_nat :: "string \<Rightarrow> nat option" where
  "scan_nat s = (if length (filter is_digit s) \<le> max_str_digits then scan_digits False 0 s else None)"

fun signed :: "string \<Rightarrow> bool \<times> string" where
  "signed (c # cs) = (if c = CHR ''-'' then (True, cs) else if c = CHR ''+'' then (False, cs)
     else (False, c # cs))"
| "signed [] = (False, [])"

definition py_int :: "string \<Rightarrow> int option" where
  "py_int s =
     (case signed (strip s) of (neg, ds) \<Rightarrow>
        map_option (\<lambda>n. if neg then - int n else int n) (scan_nat ds))"

lemma of_digit_char: "d < 10 \<Longrightarrow> (of_char (digit_char d) :: nat) = 48 + d"
  by (simp add: digit_char_def)

lemma is_digit_digit_char [simp]: "d < 10 \<Longrightarrow> is_digit (digit_char d)"
  by (simp add: is_digit_def of_digit_char)

lemma digit_val_digit_char [simp]: "d < 10 \<Longrightarrow> digit_val (digit_char d) = d"
  by (simp add: digit_val_def of_digit_char)

lemma scan_digits_append_digit:
  "d < 10 \<Longrightarrow> scan_digits b acc s = Some n \<Longrightarrow>
     scan_digits b acc (s @ [digit_char d]) = Some (10 * n + d)"
  by (induction s arbitrary: b acc) (auto split: if_splits)

lemma nat_str_digits: "c \<in> set (nat_str n) \<Longrightarrow> is_digit c"
  by (induction n rule: nat_str.induct) (subst (asm) (2) nat_str.simps, auto split: if_splits)

lemma nat_str_not_Nil [simp]: "nat_str n \<noteq> []"
  by (subst nat_str.simps) simp

lemma scan_nat_str: "scan_digits False 0 (nat_str n) = Some n"
proof (induction n rule: nat_str.induct)
  case (1 n)
  show ?case
  proof (cases "n < 10")
    case True
    then show ?thesis by (simp add: nat_str.simps)
  next
    case False
    with 1 have "scan_digits False 0 (nat_str (n div 10)) = Some (n div 10)" by simp
    then have "scan_digits False 0 (nat_str (n div 10) @ [digit_char (n mod 10)])
        = Some (10 * (n div 10) + n mod 10)"
      by (intro scan_digits_append_digit) simp_all
    with False show ?thesis by (simp add: nat_str.simps [of n])
  qed
qed

lemma length_nat_str: "n < 10 ^ Suc k \<Longrightarrow> length (nat_str n) \<le> Suc k"
proof (induction k arbitrary: n)
  case 0
  then show ?case by (simp add: nat_str.simps)
next
  case (Suc k)
  show ?case
  proof (cases "n < 10")
    case True
    then show ?thesis by (simp add: nat_str.simps)
  next
    case False
    from Suc.prems have "n div 10 < 10 ^ Suc k" by (simp add: less_mult_imp_div_less)
    then have "length (nat_str (n div 10)) \<le> Suc k" by (rule Suc.IH)
    with False show ?thesis by (simp add: nat_str.simps [of n])
  qed
qed

lemma digit_not_space: "is_digit c \<Longrightarrow> \<not> is_space c"
  by (auto simp: is_digit_def is_space_def Let_def)

lemma strip_id: "(\<forall>c \<in> set s. \<not> is_space c) \<Longrightarrow> strip s = s"
proof -
  assume "\<forall>c \<in> set s. \<not> is_space c"
  then have "dropWhile is_space s = s" "dropWhile is_space (rev s) = rev s"
    by (auto simp: dropWhile_eq_self_iff hd_rev)
  then show ?thesis by (simp add: strip_def)
qed

lemma signed_digits: "c \<in> set s \<Longrightarrow> \<forall>c \<in> set s. is_digit c \<Longrightarrow> signed s = (False, s)"
  by (cases s) (auto simp: is_digit_def)

lemma int_str_chars: "c \<in> set (int_str i) \<Longrightarrow> is_digit c \<or> c = CHR ''-''"
  by (auto simp: int_str_def nat_str_digits split: if_splits)

lemma int_str_no_dot: "CHR ''.'' \<notin> set (int_str i)"
  using int_str_chars [of "CHR ''.''" i] by (auto simp: is_digit_def)

text \<open>\<^verbatim>\<open>int(str(i)) == i\<close> for integers the interpreter can print.\<close>

lemma py_int_int_str:
  assumes "\<bar>i\<bar> < 10 ^ max_str_digits"
  shows "py_int (int_str i) = Some i"
proof -
  define n where "n = nat \<bar>i\<bar>"
  have k: "max_str_digits = Suc 4299" by (simp add: max_str_digits_def)
  have "int n < int (10 ^ max_str_digits)" using assms by (simp add: n_def)
  then have "n < 10 ^ max_str_digits" by (simp only: of_nat_less_iff)
  then have "length (nat_str n) \<le> max_str_digits"
    unfolding k by (rule length_nat_str)
  moreover have all: "\<forall>c \<in> set (nat_str n). is_digit c" by (simp add: nat_str_digits)
  then have "filter is_digit (nat_str n) = nat_str n" by (simp add: filter_id_conv)
  ultimately have scan: "scan_nat (nat_str n) = Some n"
    by (simp add: scan_nat_def scan_nat_str)
  have "\<forall>c \<in> set (int_str i). \<not> is_space c"
    using int_str_chars by (fastforce dest: digit_not_space simp: is_space_def)
  then have st: "strip (int_str i) = int_str i" by (rule strip_id)
  obtain c cs where c: "nat_str n = c # cs" by (cases "nat_str n") auto
  then have "signed (nat_str n) = (False, nat_str n)"
    using signed_digits [of c "nat_str n"] all by simp
  then show ?thesis
    using st scan by (cases "i < 0") (auto simp: py_int_def int_str_def n_def)
qed

section \<open>Case\<close>

definition upper_char :: "char \<Rightarrow> char" where
  "upper_char c = (let n = (of_char c :: nat) in if 97 \<le> n \<and> n \<le> 122 then char_of (n - 32) else c)"

definition lower_char :: "char \<Rightarrow> char" where
  "lower_char c = (let n = (of_char c :: nat) in if 65 \<le> n \<and> n \<le> 90 then char_of (n + 32) else c)"

definition upper :: "string \<Rightarrow> string" where "upper s = map upper_char s"

definition lower :: "string \<Rightarrow> string" where "lower s = map lower_char s"

lemma of_lower_char:
  "(of_char (lower_char c) :: nat) =
     (if 65 \<le> (of_char c :: nat) \<and> (of_char c :: nat) \<le> 90 then of_char c + 32 else of_char c)"
  by (simp add: lower_char_def Let_def)

lemma lower_char_idem: "lower_char (lower_char c) = lower_char c"
  by (auto simp: lower_char_def Let_def)

lemma lower_idem [simp]: "lower (lower s) = lower s"
  by (simp add: lower_def lower_char_idem o_def)

section \<open>Decimal numbers\<close>

text \<open>
  \<^verbatim>\<open>float(text)\<close>: an optional sign and either a number \<open>m * 10 ^ e\<close> or one of the
  special values.
\<close>

datatype pyfloat = Dec int int | Infinity bool | NaN

definition scan_opt :: "string \<Rightarrow> nat option" where
  "scan_opt s = (if s = [] then Some 0 else scan_digits False 0 s)"

definition num_digits :: "string \<Rightarrow> nat" where
  "num_digits s = length (filter is_digit s)"

definition py_exponent :: "string list \<Rightarrow> int option" where
  "py_exponent ws =
     (case ws of
        [] \<Rightarrow> Some 0
      | [w] \<Rightarrow> (case signed w of (neg, ds) \<Rightarrow>
          map_option (\<lambda>n. if neg then - int n else int n) (scan_digits False 0 ds))
      | _ \<Rightarrow> None)"

definition py_mantissa :: "string \<Rightarrow> (nat \<times> nat) option" where
  "py_mantissa w =
     (case split_on CHR ''.'' w of
        [a] \<Rightarrow> map_option (\<lambda>n. (n, 0)) (scan_digits False 0 a)
      | [a, b] \<Rightarrow> (if a = [] \<and> b = [] then None
          else (case (scan_opt a, scan_opt b) of
              (Some x, Some y) \<Rightarrow> Some (x * 10 ^ num_digits b + y, num_digits b)
            | _ \<Rightarrow> None))
      | _ \<Rightarrow> None)"

definition py_float :: "string \<Rightarrow> pyfloat option" where
  "py_float text =
     (case signed (lower (strip text)) of (neg, s) \<Rightarrow>
        if s = ''inf'' \<or> s = ''infinity'' then Some (Infinity neg)
        else if s = ''nan'' then Some NaN
        else (case split_on CHR ''e'' s of
            w # ws \<Rightarrow> (case (py_mantissa w, py_exponent ws) of
                (Some (m, d), Some e) \<Rightarrow> Some (Dec (if neg then - int m else int m) (e - int d))
              | _ \<Rightarrow> None)
          | [] \<Rightarrow> None))"

text \<open>
  The largest finite double is just below this bound; a literal or a product that reaches it
  is infinite.
\<close>

definition float_limit :: int where "float_limit = 2 ^ 1024 - 2 ^ 970"

definition dec_overflows :: "int \<Rightarrow> int \<Rightarrow> bool" where
  "dec_overflows m e =
     (if 0 \<le> e then float_limit \<le> \<bar>m\<bar> * 10 ^ nat e else float_limit * 10 ^ nat (- e) \<le> \<bar>m\<bar>)"

definition round_half_even :: "int \<Rightarrow> int \<Rightarrow> int" where
  "round_half_even m e =
     (if 0 \<le> e then m * 10 ^ nat e
      else let d = 10 ^ nat (- e); q = m div d; r = m mod d
           in if 2 * r < d then q else if d < 2 * r then q + 1 else if even q then q else q + 1)"

datatype py_error = ValueError | TypeError | OverflowError | KeyError | RuntimeError | AttributeError

text \<open>\<^verbatim>\<open>round(x * 100)\<close> of a float.\<close>

definition round_cents :: "pyfloat \<Rightarrow> py_error + int" where
  "round_cents x =
     (case x of
        NaN \<Rightarrow> Inl ValueError
      | Infinity _ \<Rightarrow> Inl OverflowError
      | Dec m e \<Rightarrow> if dec_overflows m (e + 2) then Inl OverflowError
          else Inr (round_half_even m (e + 2)))"

lemma round_half_even_exact: "0 \<le> e \<Longrightarrow> round_half_even m e = m * 10 ^ nat e"
  by (simp add: round_half_even_def)

lemma round_half_even_near:
  assumes "e < 0"
  shows "\<bar>2 * m - 2 * round_half_even m e * 10 ^ nat (- e)\<bar> \<le> 10 ^ nat (- e)"
proof -
  define d :: int where "d = 10 ^ nat (- e)"
  have d: "0 < d" by (simp add: d_def)
  define q r where "q = m div d" and "r = m mod d"
  have m: "m = d * q + r" and "0 \<le> r" "r < d" using d by (simp_all add: q_def r_def)
  then have "\<bar>2 * m - 2 * round_half_even m e * d\<bar> \<le> d"
    using assms
    by (auto simp: round_half_even_def d_def [symmetric] Let_def q_def [symmetric] r_def [symmetric]
        algebra_simps)
  then show ?thesis by (simp add: d_def)
qed

end
