(* ===== verification/Json.thy ===== *)
theory Json
  imports PyText
begin

text \<open>
  JSON values as \<^verbatim>\<open>response.json()\<close> and \<^verbatim>\<open>json.loads\<close> deliver them, with
  the Python operations the program applies to them: \<^verbatim>\<open>dict.get\<close>, truth,
  \<^verbatim>\<open>str\<close>, \<^verbatim>\<open>float\<close>, \<^verbatim>\<open>or\<close>.
  A number with a fraction or an exponent is kept as the text Python prints for it; an array
  or an object nested in a gateway record is only ever tested for truth and printed, so it is
  kept as its truth value and its printed text.
\<close>

datatype jval =
    JNull
  | JBool bool
  | JInt int
  | JFloat string
  | JStr string
  | JOther bool string

type_synonym doc = "(string \<times> jval) list"

definition doc_get :: "doc \<Rightarrow> string \<Rightarrow> jval" where
  "doc_get d k = (case map_of d k of None \<Rightarrow> JNull | Some v \<Rightarrow> v)"

definition doc_get_or :: "doc \<Rightarrow> string \<Rightarrow> jval \<Rightarrow> jval" where
  "doc_get_or d k dflt = (case map_of d k of None \<Rightarrow> dflt | Some v \<Rightarrow> v)"

text \<open>\<^verbatim>\<open>d.setdefault(k, v)\<close>.\<close>

definition doc_setdefault :: "doc \<Rightarrow> string \<Rightarrow> jval \<Rightarrow> doc" where
  "doc_setdefault d k v = (case map_of d k of None \<Rightarrow> d @ [(k, v)] | Some _ \<Rightarrow> d)"

definition zero_float :: "string \<Rightarrow> bool" where
  "zero_float s = (case py_float s of Some (Dec m _) \<Rightarrow> m = 0 | _ \<Rightarrow> False)"

fun truthy :: "jval \<Rightarrow> bool" where
  "truthy JNull = False"
| "truthy (JBool b) = b"
| "truthy (JInt i) = (i \<noteq> 0)"
| "truthy (JFloat s) = (\<not> zero_float s)"
| "truthy (JStr s) = (s \<noteq> [])"
| "truthy (JOther b _) = b"

definition py_or :: "jval \<Rightarrow> jval \<Rightarrow> jval" where
  "py_or a b = (if truthy a then a else b)"

fun py_str :: "jval \<Rightarrow> string" where
  "py_str JNull = ''None''"
| "py_str (JBool b) = (if b then ''True'' else ''False'')"
| "py_str (JInt i) = int_str i"
| "py_str (JFloat s) = s"
| "py_str (JStr s) = s"
| "py_str (JOther _ s) = s"

fun py_float_of :: "jval \<Rightarrow> py_error + pyfloat" where
  "py_float_of JNull = Inl TypeError"
| "py_float_of (JBool b) = Inr (Dec (if b then 1 else 0) 0)"
| "py_float_of (JInt i) = (if dec_overflows i 0 then Inl OverflowError else Inr (Dec i 0))"
| "py_float_of (JFloat s) = (case py_float s of None \<Rightarrow> Inl ValueError | Some x \<Rightarrow> Inr x)"
| "py_float_of (JStr s) = (case py_float s of None \<Rightarrow> Inl ValueError | Some x \<Rightarrow> Inr x)"
| "py_float_of (JOther _ _) = Inl TypeError"

lemma doc_get_setdefault:
  "doc_get (doc_setdefault d k v) j = (if j = k \<and> map_of d k = None then v else doc_get d j)"
  by (auto simp: doc_get_def doc_setdefault_def map_add_def split: option.splits)

lemma map_of_setdefault:
  "map_of (doc_setdefault d k v) j = (if j = k \<and> map_of d k = None then Some v else map_of d j)"
  by (auto simp: doc_setdefault_def map_add_def split: option.splits)

lemma doc_get_eq: "doc_get_or d k JNull = doc_get d k"
  by (simp add: doc_get_def doc_get_or_def)

end
