(* ===== verification/Models.thy ===== *)
theory Models
  imports Complex_Main Json
begin

text \<open>
  The database schema: the enumerations and rows of \<^verbatim>\<open>app/models/\<close>, the database as
  one record of tables, and the constraints a commit enforces (primary keys, unique indexes,
  the partial unique indexes of \<^verbatim>\<open>trips\<close>, foreign keys). Every row carries the
  columns of \<^verbatim>\<open>app/db/base.py\<close> that the program reads: its id and, where a query
  orders by it, its creation instant. Latitudes and longitudes are real numbers.
\<close>

section \<open>Identity (app/models/user.py)\<close>

datatype user_role = Role_student | Role_helper | Role_admin

datatype user_status =
  User_pending_email | User_active | User_pending_approval | User_suspended

datatype helper_status = Helper_pending | Helper_approved | Helper_suspended

record user =
  us_id :: uuid
  us_created_at :: instant
  us_email :: string
  us_password_hash :: string
  us_role :: user_role
  us_name :: string
  us_phone :: "string option"
  us_photo_url :: "string option"
  us_status :: user_status

record student =
  st_id :: uuid
  st_user_id :: uuid
  st_student_id_no :: string
  st_department :: "string option"
  st_batch :: "string option"
  st_default_stop_id :: "uuid option"

record helper =
  hp_id :: uuid
  hp_user_id :: uuid
  hp_approved_by :: "uuid option"
  hp_status :: helper_status
  hp_current_device_id :: "string option"

section \<open>Fleet (app/models/fleet.py)\<close>

datatype bus_status = Bus_active | Bus_inactive | Bus_maintenance

record bus =
  bs_id :: uuid
  bs_reg_no :: string
  bs_nickname :: "string option"
  bs_capacity :: int
  bs_status :: bus_status

record stop =
  sp_id :: uuid
  sp_name :: string
  sp_lat :: real
  sp_lng :: real

datatype route_direction = Dir_inbound | Dir_outbound

record route =
  rt_id :: uuid
  rt_name :: string
  rt_direction :: route_direction
  rt_polyline :: "string option"
  rt_is_active :: bool

record route_stop =
  rs_id :: uuid
  rs_route_id :: uuid
  rs_stop_id :: uuid
  rs_seq :: int
  rs_scheduled_offset_min :: "int option"

datatype trip_status = Trip_scheduled | Trip_live | Trip_completed | Trip_cancelled

record trip =
  tr_id :: uuid
  tr_route_id :: uuid
  tr_bus_id :: uuid
  tr_helper_id :: uuid
  tr_service_date :: int
  tr_scheduled_start :: "instant option"
  tr_actual_start :: "instant option"
  tr_actual_end :: "instant option"
  tr_status :: trip_status

section \<open>Operations (app/models/ops.py)\<close>

record seat_report =
  se_id :: uuid
  se_trip_id :: uuid
  se_helper_id :: uuid
  se_occupied :: int
  se_capacity_snapshot :: int
  se_reported_at :: instant

datatype alert_source = Source_helper | Source_student | Source_system

datatype alert_type =
    Alert_sos | Alert_breakdown | Alert_traffic_delay | Alert_accident | Alert_harassment
  | Alert_overcrowding | Alert_off_route | Alert_over_speed | Alert_gps_blackout | Alert_other

datatype alert_severity = Severity_critical | Severity_warning | Severity_info

datatype alert_status = Alert_open | Alert_acknowledged | Alert_resolved | Alert_dismissed

record alert =
  al_id :: uuid
  al_created_at :: instant
  al_source :: alert_source
  al_raised_by :: "uuid option"
  al_trip_id :: "uuid option"
  al_bus_id :: "uuid option"
  al_type :: alert_type
  al_severity :: alert_severity
  al_message :: "string option"
  al_lat :: "real option"
  al_lng :: "real option"
  al_status :: alert_status
  al_acknowledged_by :: "uuid option"
  al_resolved_note :: "string option"
  al_resolved_at :: "instant option"

section \<open>Commerce (app/models/commerce.py)\<close>

datatype product_type = Product_single | Product_bulk | Product_package

datatype order_status =
  Order_initiated | Order_pending | Order_paid | Order_failed | Order_cancelled | Order_refunded

datatype ticket_status =
  Ticket_active | Ticket_exhausted | Ticket_expired | Ticket_suspended | Ticket_revoked

datatype redemption_flag = Flag_ok | Flag_duplicate_suspect | Flag_invalid

record ticket_product =
  pr_id :: uuid
  pr_type :: product_type
  pr_name :: string
  pr_price_paisa :: int
  pr_ride_count :: "int option"
  pr_validity_days :: int
  pr_route_scope :: "uuid option"
  pr_active :: bool

record order =
  or_id :: uuid
  or_created_at :: instant
  or_student_id :: uuid
  or_product_id :: uuid
  or_amount_paisa :: int
  or_currency :: string
  or_status :: order_status
  or_idempotency_key :: string
  or_tran_id :: string
  or_gateway :: string
  or_gateway_val_id :: jval
  or_gateway_bank_tran_id :: jval
  or_gateway_card_type :: jval
  or_raw_payload :: "doc option"
  or_paid_at :: "instant option"

record ticket =
  tk_id :: uuid
  tk_created_at :: instant
  tk_order_id :: uuid
  tk_student_id :: uuid
  tk_product_id :: uuid
  tk_rides_total :: "int option"
  tk_rides_remaining :: "int option"
  tk_valid_from :: instant
  tk_valid_to :: instant
  tk_qr_private_key :: string
  tk_qr_public_key :: string
  tk_status :: ticket_status

record redemption =
  rd_id :: uuid
  rd_ticket_id :: uuid
  rd_trip_id :: "uuid option"
  rd_helper_id :: uuid
  rd_helper_device_id :: string
  rd_nonce :: string
  rd_passenger_count :: int
  rd_redeemed_at :: instant
  rd_synced_at :: instant
  rd_flag :: redemption_flag

section \<open>The printed values of the enumerations\<close>

fun ticket_status_str :: "ticket_status \<Rightarrow> string" where
  "ticket_status_str Ticket_active = ''active''"
| "ticket_status_str Ticket_exhausted = ''exhausted''"
| "ticket_status_str Ticket_expired = ''expired''"
| "ticket_status_str Ticket_suspended = ''suspended''"
| "ticket_status_str Ticket_revoked = ''revoked''"

fun order_status_str :: "order_status \<Rightarrow> string" where
  "order_status_str Order_initiated = ''initiated''"
| "order_status_str Order_pending = ''pending''"
| "order_status_str Order_paid = ''paid''"
| "order_status_str Order_failed = ''failed''"
| "order_status_str Order_cancelled = ''cancelled''"
| "order_status_str Order_refunded = ''refunded''"

fun user_status_str :: "user_status \<Rightarrow> string" where
  "user_status_str User_pending_email = ''pending_email''"
| "user_status_str User_active = ''active''"
| "user_status_str User_pending_approval = ''pending_approval''"
| "user_status_str User_suspended = ''suspended''"

fun user_role_str :: "user_role \<Rightarrow> string" where
  "user_role_str Role_student = ''student''"
| "user_role_str Role_helper = ''helper''"
| "user_role_str Role_admin = ''admin''"

fun helper_status_str :: "helper_status \<Rightarrow> string" where
  "helper_status_str Helper_pending = ''pending''"
| "helper_status_str Helper_approved = ''approved''"
| "helper_status_str Helper_suspended = ''suspended''"

fun alert_status_str :: "alert_status \<Rightarrow> string" where
  "alert_status_str Alert_open = ''open''"
| "alert_status_str Alert_acknowledged = ''acknowledged''"
| "alert_status_str Alert_resolved = ''resolved''"
| "alert_status_str Alert_dismissed = ''dismissed''"

section \<open>The database\<close>

record database =
  db_users :: "user list"
  db_students :: "student list"
  db_helpers :: "helper list"
  db_buses :: "bus list"
  db_stops :: "stop list"
  db_routes :: "route list"
  db_route_stops :: "route_stop list"
  db_trips :: "trip list"
  db_seat_reports :: "seat_report list"
  db_alerts :: "alert list"
  db_products :: "ticket_product list"
  db_orders :: "order list"
  db_tickets :: "ticket list"
  db_redemptions :: "redemption list"

definition empty_db :: database where
  "empty_db = \<lparr>db_users = [], db_students = [], db_helpers = [], db_buses = [], db_stops = [],
     db_routes = [], db_route_stops = [], db_trips = [], db_seat_reports = [], db_alerts = [],
     db_products = [], db_orders = [], db_tickets = [], db_redemptions = []\<rparr>"

abbreviation get_user where "get_user db \<equiv> row_get us_id (db_users db)"
abbreviation get_student where "get_student db \<equiv> row_get st_id (db_students db)"
abbreviation get_helper where "get_helper db \<equiv> row_get hp_id (db_helpers db)"
abbreviation get_bus where "get_bus db \<equiv> row_get bs_id (db_buses db)"
abbreviation get_stop where "get_stop db \<equiv> row_get sp_id (db_stops db)"
abbreviation get_route where "get_route db \<equiv> row_get rt_id (db_routes db)"
abbreviation get_trip where "get_trip db \<equiv> row_get tr_id (db_trips db)"
abbreviation get_alert where "get_alert db \<equiv> row_get al_id (db_alerts db)"
abbreviation get_product where "get_product db \<equiv> row_get pr_id (db_products db)"
abbreviation get_order where "get_order db \<equiv> row_get or_id (db_orders db)"
abbreviation get_ticket where "get_ticket db \<equiv> row_get tk_id (db_tickets db)"

abbreviation is_live :: "trip \<Rightarrow> bool" where "is_live t \<equiv> tr_status t = Trip_live"

text \<open>The id of an existing row, where a nullable column holds one.\<close>

definition fk_opt :: "('r \<Rightarrow> uuid) \<Rightarrow> 'r list \<Rightarrow> uuid option \<Rightarrow> bool" where
  "fk_opt k rows x = (case x of None \<Rightarrow> True | Some i \<Rightarrow> row_get k rows i \<noteq> None)"

definition identity_ok :: "database \<Rightarrow> bool" where
  "identity_ok db \<longleftrightarrow>
     distinct (map us_id (db_users db)) \<and> distinct (map us_email (db_users db)) \<and>
     distinct (map st_id (db_students db)) \<and> distinct (map st_user_id (db_students db)) \<and>
     distinct (map st_student_id_no (db_students db)) \<and>
     distinct (map hp_id (db_helpers db)) \<and> distinct (map hp_user_id (db_helpers db)) \<and>
     list_all (\<lambda>s. get_user db (st_user_id s) \<noteq> None) (db_students db) \<and>
     list_all (\<lambda>h. get_user db (hp_user_id h) \<noteq> None) (db_helpers db) \<and>
     list_all (\<lambda>h. fk_opt us_id (db_users db) (hp_approved_by h)) (db_helpers db)"

definition fleet_ok :: "database \<Rightarrow> bool" where
  "fleet_ok db \<longleftrightarrow>
     distinct (map bs_id (db_buses db)) \<and> distinct (map bs_reg_no (db_buses db)) \<and>
     distinct (map sp_id (db_stops db)) \<and> distinct (map rt_id (db_routes db)) \<and>
     distinct (map (\<lambda>r. (rt_name r, rt_direction r)) (db_routes db)) \<and>
     distinct (map rs_id (db_route_stops db)) \<and>
     distinct (map (\<lambda>r. (rs_route_id r, rs_seq r)) (db_route_stops db)) \<and>
     distinct (map (\<lambda>r. (rs_route_id r, rs_stop_id r)) (db_route_stops db)) \<and>
     list_all (\<lambda>r. get_route db (rs_route_id r) \<noteq> None \<and> get_stop db (rs_stop_id r) \<noteq> None)
       (db_route_stops db)"

text \<open>The two partial unique indexes: one live trip per bus, one per helper.\<close>

definition trips_ok :: "database \<Rightarrow> bool" where
  "trips_ok db \<longleftrightarrow>
     distinct (map tr_id (db_trips db)) \<and>
     unique_on is_live tr_bus_id (db_trips db) \<and> unique_on is_live tr_helper_id (db_trips db) \<and>
     list_all (\<lambda>t. get_route db (tr_route_id t) \<noteq> None \<and> get_bus db (tr_bus_id t) \<noteq> None \<and>
       get_helper db (tr_helper_id t) \<noteq> None) (db_trips db)"

definition ops_ok :: "database \<Rightarrow> bool" where
  "ops_ok db \<longleftrightarrow>
     distinct (map se_id (db_seat_reports db)) \<and> distinct (map al_id (db_alerts db)) \<and>
     list_all (\<lambda>s. get_trip db (se_trip_id s) \<noteq> None \<and> get_helper db (se_helper_id s) \<noteq> None)
       (db_seat_reports db) \<and>
     list_all (\<lambda>a. fk_opt us_id (db_users db) (al_raised_by a) \<and>
       fk_opt us_id (db_users db) (al_acknowledged_by a) \<and>
       fk_opt tr_id (db_trips db) (al_trip_id a) \<and> fk_opt bs_id (db_buses db) (al_bus_id a))
       (db_alerts db)"

definition orders_ok :: "database \<Rightarrow> bool" where
  "orders_ok db \<longleftrightarrow>
     distinct (map pr_id (db_products db)) \<and>
     list_all (\<lambda>p. fk_opt rt_id (db_routes db) (pr_route_scope p)) (db_products db) \<and>
     distinct (map or_id (db_orders db)) \<and> distinct (map or_idempotency_key (db_orders db)) \<and>
     distinct (map or_tran_id (db_orders db)) \<and>
     list_all (\<lambda>x. get_student db (or_student_id x) \<noteq> None \<and> get_product db (or_product_id x) \<noteq> None)
       (db_orders db)"

definition tickets_ok :: "database \<Rightarrow> bool" where
  "tickets_ok db \<longleftrightarrow>
     distinct (map tk_id (db_tickets db)) \<and> distinct (map tk_order_id (db_tickets db)) \<and>
     list_all (\<lambda>t. get_order db (tk_order_id t) \<noteq> None \<and> get_student db (tk_student_id t) \<noteq> None \<and>
       get_product db (tk_product_id t) \<noteq> None) (db_tickets db)"

definition redemptions_ok :: "database \<Rightarrow> bool" where
  "redemptions_ok db \<longleftrightarrow>
     distinct (map rd_id (db_redemptions db)) \<and>
     distinct (map (\<lambda>r. (rd_helper_device_id r, rd_nonce r)) (db_redemptions db)) \<and>
     list_all (\<lambda>r. length (rd_nonce r) \<le> 64) (db_redemptions db) \<and>
     list_all (\<lambda>r. get_ticket db (rd_ticket_id r) \<noteq> None \<and> fk_opt tr_id (db_trips db) (rd_trip_id r) \<and>
       get_helper db (rd_helper_id r) \<noteq> None) (db_redemptions db)"

definition db_ok :: "database \<Rightarrow> bool" where
  "db_ok db \<longleftrightarrow> identity_ok db \<and> fleet_ok db \<and> trips_ok db \<and> ops_ok db \<and> orders_ok db \<and>
     tickets_ok db \<and> redemptions_ok db"

text \<open>
  \<^verbatim>\<open>await db.commit()\<close> (or a flush): the pending writes go in together, or the
  constraints refuse them with an IntegrityError, or a value does not fit its column and the
  driver raises a DataError first. The bounded column that a client can overflow, because no
  schema bounds it before it is written, is \<^verbatim>\<open>redemptions.nonce\<close>; the values
  of the gateway's own columns and the numbers an administrator types are taken to fit.
\<close>

datatype db_error = IntegrityError | DataError

text \<open>
  How a handler ends without an answer of its own: an HTTPException, or an exception nobody
  catches, raised by the program, by the database or by the cache.
\<close>

datatype handler_error = Http http_error | Uncaught py_error | UncaughtDb db_error | UncaughtCache

definition NONCE_WIDTH :: nat where "NONCE_WIDTH = 64"

definition commit :: "database \<Rightarrow> db_error + database" where
  "commit db = (if db_ok db then Inr db
     else if list_all (\<lambda>r. length (rd_nonce r) \<le> NONCE_WIDTH) (db_redemptions db)
     then Inl IntegrityError else Inl DataError)"

lemmas db_ok_defs = db_ok_def identity_ok_def fleet_ok_def trips_ok_def ops_ok_def orders_ok_def
  tickets_ok_def redemptions_ok_def

lemma commit_InrD [dest!]: "commit db = Inr db' \<Longrightarrow> db' = db \<and> db_ok db"
  by (auto simp: commit_def split: if_splits)

lemma commit_ok [simp]: "db_ok db \<Longrightarrow> commit db = Inr db"
  by (simp add: commit_def)

lemma commit_InlD: "commit db = Inl e \<Longrightarrow> \<not> db_ok db"
  by (auto simp: commit_def)

lemma commit_refused:
  assumes "\<not> db_ok db" "list_all (\<lambda>r. length (rd_nonce r) \<le> 64) (db_redemptions db)"
  shows "commit db = Inl IntegrityError"
  using assms by (simp add: commit_def NONCE_WIDTH_def)

lemma db_ok_nonces: "db_ok db \<Longrightarrow> list_all (\<lambda>r. length (rd_nonce r) \<le> 64) (db_redemptions db)"
  by (simp add: db_ok_def redemptions_ok_def)

text \<open>Writes that leave the boardings alone can only fail on a constraint.\<close>

lemma commit_same_boardings:
  assumes "db_ok db" "db_redemptions db' = db_redemptions db"
  shows "commit db' = (if db_ok db' then Inr db' else Inl IntegrityError)"
  using db_ok_nonces [OF assms(1)] assms(2) by (simp add: commit_def NONCE_WIDTH_def)

lemma empty_db_ok: "db_ok empty_db"
  by (simp add: db_ok_defs empty_db_def)

section \<open>Edits and inserts the constraints accept\<close>

lemma fk_opt_edit [table_simps]:
  assumes "\<And>r. k (g r) = k r"
  shows "fk_opt k (row_edit k i g rows) x = fk_opt k rows x"
  using assms by (simp add: fk_opt_def row_get_edit_None split: option.split)

lemma db_ok_edit_ticket [inv_intros]:
  assumes "\<And>t. tk_id (g t) = tk_id t" "\<And>t. tk_order_id (g t) = tk_order_id t"
    "\<And>t. tk_student_id (g t) = tk_student_id t" "\<And>t. tk_product_id (g t) = tk_product_id t"
    "db_ok db"
  shows "db_ok (db\<lparr>db_tickets := row_edit tk_id i g (db_tickets db)\<rparr>)"
  using assms
  by (simp add: db_ok_defs map_row_edit row_get_edit_None list_all_row_edit)

lemma db_ok_edit_order [inv_intros]:
  assumes "\<And>x. or_id (g x) = or_id x" "\<And>x. or_idempotency_key (g x) = or_idempotency_key x"
    "\<And>x. or_tran_id (g x) = or_tran_id x" "\<And>x. or_student_id (g x) = or_student_id x"
    "\<And>x. or_product_id (g x) = or_product_id x" "db_ok db"
  shows "db_ok (db\<lparr>db_orders := row_edit or_id i g (db_orders db)\<rparr>)"
  using assms
  by (simp add: db_ok_defs map_row_edit row_get_edit_None list_all_row_edit)

lemma db_ok_add_redemption [inv_intros]:
  assumes "db_ok db" "rd_id r \<notin> rd_id ` set (db_redemptions db)"
    "\<forall>x \<in> set (db_redemptions db). rd_helper_device_id x = rd_helper_device_id r \<longrightarrow> rd_nonce x \<noteq> rd_nonce r"
    "length (rd_nonce r) \<le> 64"
    "get_ticket db (rd_ticket_id r) \<noteq> None" "fk_opt tr_id (db_trips db) (rd_trip_id r)"
    "get_helper db (rd_helper_id r) \<noteq> None"
  shows "db_ok (db\<lparr>db_redemptions := db_redemptions db @ [r]\<rparr>)"
  using assms by (auto simp: db_ok_defs)

lemma db_ok_add_alert [inv_intros]:
  assumes "db_ok db" "al_id a \<notin> al_id ` set (db_alerts db)"
    "fk_opt us_id (db_users db) (al_raised_by a)" "fk_opt us_id (db_users db) (al_acknowledged_by a)"
    "fk_opt tr_id (db_trips db) (al_trip_id a)" "fk_opt bs_id (db_buses db) (al_bus_id a)"
  shows "db_ok (db\<lparr>db_alerts := db_alerts db @ [a]\<rparr>)"
  using assms by (simp add: db_ok_defs)

lemma db_ok_add_ticket [inv_intros]:
  assumes "db_ok db" "tk_id t \<notin> tk_id ` set (db_tickets db)"
    "tk_order_id t \<notin> tk_order_id ` set (db_tickets db)" "get_order db (tk_order_id t) \<noteq> None"
    "get_student db (tk_student_id t) \<noteq> None" "get_product db (tk_product_id t) \<noteq> None"
  shows "db_ok (db\<lparr>db_tickets := db_tickets db @ [t]\<rparr>)"
proof -
  have "row_get tk_id (db_tickets db @ [t]) i \<noteq> None" if "get_ticket db i \<noteq> None" for i
    using that by (rule row_get_snoc_mono)
  with assms show ?thesis by (auto simp: db_ok_defs list_all_iff)
qed

lemma db_ok_add_order [inv_intros]:
  assumes "db_ok db" "or_id x \<notin> or_id ` set (db_orders db)"
    "or_idempotency_key x \<notin> or_idempotency_key ` set (db_orders db)"
    "or_tran_id x \<notin> or_tran_id ` set (db_orders db)"
    "get_student db (or_student_id x) \<noteq> None" "get_product db (or_product_id x) \<noteq> None"
  shows "db_ok (db\<lparr>db_orders := db_orders db @ [x]\<rparr>)"
proof -
  have "row_get or_id (db_orders db @ [x]) i \<noteq> None" if "get_order db i \<noteq> None" for i
    using that by (rule row_get_snoc_mono)
  with assms show ?thesis by (auto simp: db_ok_defs list_all_iff)
qed

end
