(* ===== verification/Base64.thy ===== *)
theory Base64
  imports PyText
begin

text \<open>
  \<^verbatim>\<open>base64.urlsafe_b64encode\<close> and \<^verbatim>\<open>base64.urlsafe_b64decode\<close>, as
  \<^verbatim>\<open>_b64\<close> and \<^verbatim>\<open>_unb64\<close> of \<^verbatim>\<open>app/services/boarding.py\<close> use them.
  The decoder is the interpreter's lenient one: a character outside the alphabet is skipped,
  a complete padding ends the input, and the number of data characters decides about errors.
  The round trip is proved and interpreted as an encoding.
\<close>

definition sextet_char :: "nat \<Rightarrow> char" where
  "sextet_char n =
     (if n < 26 then char_of (65 + n)
      else if n < 52 then char_of (71 + n)
      else if n < 62 then char_of (n - 4)
      else if n = 62 then CHR ''-'' else CHR ''_'')"

definition sextet_val :: "char \<Rightarrow> nat option" where
  "sextet_val c =
     (let n = (of_char c :: nat) in
        if 65 \<le> n \<and> n \<le> 90 then Some (n - 65)
        else if 97 \<le> n \<and> n \<le> 122 then Some (n - 71)
        else if 48 \<le> n \<and> n \<le> 57 then Some (n + 4)
        else if c = CHR ''-'' \<or> c = CHR ''+'' then Some 62
        else if c = CHR ''_'' \<or> c = CHR ''/'' then Some 63
        else None)"

fun b64_encode :: "bytes \<Rightarrow> string" where
  "b64_encode [] = []"
| "b64_encode [a] =
     [sextet_char (of_char a div 4), sextet_char (of_char a mod 4 * 16), CHR ''='', CHR ''='']"
| "b64_encode [a, b] =
     [sextet_char (of_char a div 4), sextet_char (of_char a mod 4 * 16 + of_char b div 16),
      sextet_char (of_char b mod 16 * 4), CHR ''='']"
| "b64_encode (a # b # c # bs) =
     [sextet_char (of_char a div 4), sextet_char (of_char a mod 4 * 16 + of_char b div 16),
      sextet_char (of_char b mod 16 * 4 + of_char c div 64), sextet_char (of_char c mod 64)]
     @ b64_encode bs"

text \<open>
  The decoder's state: the position in the group of four, the bits left over from the last
  character, the padding characters seen in this group.
\<close>

fun a2b :: "nat \<Rightarrow> nat \<Rightarrow> nat \<Rightarrow> string \<Rightarrow> bytes option" where
  "a2b q left pads [] = (if q = 0 then Some [] else None)"
| "a2b q left pads (c # cs) =
     (if c = CHR ''='' then
        (if 2 \<le> q then (if 4 \<le> q + Suc pads then Some [] else a2b q left (Suc pads) cs)
         else a2b q left pads cs)
      else (case sextet_val c of
          None \<Rightarrow> a2b q left pads cs
        | Some v \<Rightarrow>
            if q = 0 then a2b 1 v 0 cs
            else if q = 1 then map_option ((#) (char_of (left * 4 + v div 16))) (a2b 2 (v mod 16) 0 cs)
            else if q = 2 then map_option ((#) (char_of (left * 16 + v div 4))) (a2b 3 (v mod 4) 0 cs)
            else map_option ((#) (char_of (left * 64 + v))) (a2b 0 0 0 cs)))"

definition b64_decode :: "string \<Rightarrow> bytes option" where
  "b64_decode s = a2b 0 0 0 s"

lemma of_sextet_char:
  "n < 64 \<Longrightarrow> (of_char (sextet_char n) :: nat) =
     (if n < 26 then 65 + n else if n < 52 then 71 + n else if n < 62 then n - 4
      else if n = 62 then 45 else 95)"
  by (auto simp: sextet_char_def)

lemma sextet_val_char [simp]:
  assumes "n < 64"
  shows "sextet_val (sextet_char n) = Some n"
proof (cases "n < 62")
  case True
  then show ?thesis by (auto simp: sextet_val_def of_sextet_char Let_def)
next
  case False
  with assms have "n = 62 \<or> n = 63" by arith
  then show ?thesis by (auto simp: sextet_val_def sextet_char_def Let_def)
qed

lemma sextet_char_ne [simp]:
  assumes "n < 64"
  shows "sextet_char n \<noteq> CHR ''=''" "sextet_char n \<noteq> CHR ''.''" "CHR ''.'' \<noteq> sextet_char n"
proof -
  have "(of_char (sextet_char n) :: nat) \<noteq> 61" "(of_char (sextet_char n) :: nat) \<noteq> 46"
    using assms by (auto simp: of_sextet_char)
  then show "sextet_char n \<noteq> CHR ''=''" "sextet_char n \<noteq> CHR ''.''"
    by auto
  then show "CHR ''.'' \<noteq> sextet_char n" by metis
qed

lemma byte_pieces [simp]:
  "(of_char a :: nat) div 4 < 64" "(of_char a :: nat) div 16 < 16" "(of_char a :: nat) div 64 < 4"
  "(of_char a :: nat) div 16 div 16 = 0" "(of_char a :: nat) div 64 div 4 = 0"
proof -
  have "(of_char a :: nat) < 256"
    by (metis of_char_mod_256 mod_less_divisor zero_less_numeral)
  then show "(of_char a :: nat) div 4 < 64" "(of_char a :: nat) div 16 < 16"
    "(of_char a :: nat) div 64 < 4" "(of_char a :: nat) div 16 div 16 = 0"
    "(of_char a :: nat) div 64 div 4 = 0"
    by (simp_all add: less_mult_imp_div_less div_mult2_eq [symmetric])
qed

lemma byte_pieces_mod [simp]:
  "(of_char a :: nat) div 16 mod 16 = of_char a div 16"
  "(of_char a :: nat) div 64 mod 4 = of_char a div 64"
  by (simp_all add: mod_less)

lemma sextet_bounds [simp]:
  fixes m n :: nat
  shows "m mod 4 * 16 < 64" "m mod 16 * 4 < 64" "m mod 64 < 64"
    "n < 16 \<Longrightarrow> m mod 4 * 16 + n < 64" "n < 4 \<Longrightarrow> m mod 16 * 4 + n < 64"
proof -
  have "m mod 4 < 4" "m mod 16 < 16" by simp_all
  then show "m mod 4 * 16 < 64" "m mod 16 * 4 < 64" "m mod 64 < 64"
    "n < 16 \<Longrightarrow> m mod 4 * 16 + n < 64" "n < 4 \<Longrightarrow> m mod 16 * 4 + n < 64"
    by linarith+
qed

theorem b64_roundtrip: "b64_decode (b64_encode bs) = Some bs"
  unfolding b64_decode_def
  by (induction bs rule: b64_encode.induct)
    (simp_all del: One_nat_def add: One_nat_def [symmetric])

lemma b64_encode_no_dot: "CHR ''.'' \<notin> set (b64_encode bs)"
  by (induction bs rule: b64_encode.induct) simp_all

lemma length_b64_encode: "length (b64_encode bs) = 4 * ((length bs + 2) div 3)"
  by (induction bs rule: b64_encode.induct) (simp_all, presburger)

interpretation b64: codec b64_encode b64_decode "\<lambda>_. True"
  by unfold_locales (rule b64_roundtrip)

end
