(* ===== verification/Boarding.thy ===== *)
theory Boarding
  imports Base64
begin

text \<open>
  The rotating boarding code of \<^verbatim>\<open>app/services/boarding.py\<close>: its payload, the bytes
  that are signed, building, parsing and verifying a code. Ed25519 is a third-party library
  and enters as two functions: \<open>sign\<close> (\<open>None\<close> where the key is not a private key) and
  \<open>vfy\<close> (\<open>True\<close> exactly where \<^verbatim>\<open>from_public_bytes(key).verify(sig, msg)\<close>
  returns). What the code relies on is \<open>key_pair\<close>.
\<close>

section \<open>The payload\<close>

definition SLICE_SECONDS :: int where "SLICE_SECONDS = 30"

definition SLICE_TOLERANCE :: int where "SLICE_TOLERANCE = 1"

definition MAX_PASSENGERS :: int where "MAX_PASSENGERS = 60"

abbreviation field_sep :: char where "field_sep \<equiv> CHR ''.''"

datatype invalid_qr = InvalidQr string

record qr_payload =
  qp_ticket_id :: string
  qp_passenger_count :: int
  qp_time_slice :: int
  qp_nonce :: string

definition signing_bytes :: "qr_payload \<Rightarrow> bytes" where
  "signing_bytes p =
     join_with field_sep
       [qp_ticket_id p, int_str (qp_passenger_count p), int_str (qp_time_slice p), qp_nonce p]"

text \<open>
  \<^verbatim>\<open>current_slice\<close> of an instant: whole slices since the epoch, rounding down.
\<close>

definition current_slice :: "instant \<Rightarrow> int" where
  "current_slice now = now div (SLICE_SECONDS * second)"

section \<open>Keys\<close>

type_synonym signer = "bytes \<Rightarrow> bytes \<Rightarrow> bytes option"
type_synonym verifier = "bytes \<Rightarrow> bytes \<Rightarrow> bytes \<Rightarrow> bool"

definition key_pair :: "signer \<Rightarrow> verifier \<Rightarrow> bytes \<Rightarrow> bytes \<Rightarrow> bool" where
  "key_pair sign vfy priv pub \<longleftrightarrow> (\<forall>msg. \<exists>sig. sign priv msg = Some sig \<and> vfy pub msg sig)"

text \<open>
  \<^verbatim>\<open>generate_keypair\<close>: the library's fresh raw keys (the argument), encoded.
\<close>

definition generate_keypair :: "bytes \<times> bytes \<Rightarrow> string \<times> string" where
  "generate_keypair raw = (b64_encode (fst raw), b64_encode (snd raw))"

section \<open>Building a code\<close>

definition build_qr :: "signer \<Rightarrow> string \<Rightarrow> qr_payload \<Rightarrow> py_error + string" where
  "build_qr sign private_key_b64 p =
     (case b64_decode private_key_b64 of
        None \<Rightarrow> Inl ValueError
      | Some key \<Rightarrow>
          (case sign key (signing_bytes p) of
             None \<Rightarrow> Inl ValueError
           | Some sig \<Rightarrow> Inr (join_with field_sep
               [qp_ticket_id p, int_str (qp_passenger_count p), int_str (qp_time_slice p),
                qp_nonce p, b64_encode sig])))"

section \<open>Parsing a code\<close>

definition parse_qr :: "string \<Rightarrow> invalid_qr + (qr_payload \<times> bytes)" where
  "parse_qr code =
     (case split_on field_sep code of
        [ticket_id, raw_count, raw_slice, nonce, raw_signature] \<Rightarrow>
          (case (py_int raw_count, py_int raw_slice, b64_decode raw_signature) of
             (Some passengers, Some slice, Some signature) \<Rightarrow>
               (if passengers < 1 then Inl (InvalidQr ''passenger count must be at least 1'')
                else if passengers > MAX_PASSENGERS
                then Inl (InvalidQr (''passenger count above the '' @ int_str MAX_PASSENGERS @ '' limit''))
                else Inr (\<lparr>qp_ticket_id = ticket_id, qp_passenger_count = passengers,
                            qp_time_slice = slice, qp_nonce = nonce\<rparr>, signature))
           | _ \<Rightarrow> Inl (InvalidQr ''malformed code''))
      | _ \<Rightarrow> Inl (InvalidQr ''malformed code''))"

section \<open>Verifying a code\<close>

definition verify_qr :: "verifier \<Rightarrow> string \<Rightarrow> string \<Rightarrow> instant \<Rightarrow> invalid_qr + qr_payload" where
  "verify_qr vfy code public_key_b64 now =
     (case parse_qr code of
        Inl e \<Rightarrow> Inl e
      | Inr (payload, signature) \<Rightarrow>
          (case b64_decode public_key_b64 of
             None \<Rightarrow> Inl (InvalidQr ''signature does not match this ticket'')
           | Some key \<Rightarrow>
               if \<not> vfy key (signing_bytes payload) signature
               then Inl (InvalidQr ''signature does not match this ticket'')
               else if \<bar>current_slice now - qp_time_slice payload\<bar> > SLICE_TOLERANCE
               then Inl (InvalidQr ''code has expired'')
               else Inr payload))"

section \<open>What a parsed and a verified code say\<close>

text \<open>The bounds of every payload the parser accepts, and where its fields came from.\<close>

lemma parse_qr_InrD:
  assumes "parse_qr code = Inr (p, sig)"
  shows "1 \<le> qp_passenger_count p" "qp_passenger_count p \<le> 60"
    "field_sep \<notin> set (qp_nonce p)" "field_sep \<notin> set (qp_ticket_id p)"
    "\<exists>rest. split_on field_sep code = qp_ticket_id p # rest"
proof -
  from assms obtain t c s n g where parts: "split_on field_sep code = [t, c, s, n, g]"
    by (auto simp: parse_qr_def split: list.splits)
  with assms show "1 \<le> qp_passenger_count p" "qp_passenger_count p \<le> 60"
    by (auto simp: parse_qr_def MAX_PASSENGERS_def split: option.splits if_splits)
  from assms parts have "qp_nonce p = n" "qp_ticket_id p = t"
    by (auto simp: parse_qr_def split: option.splits if_splits)
  then show "field_sep \<notin> set (qp_nonce p)" "field_sep \<notin> set (qp_ticket_id p)"
    "\<exists>rest. split_on field_sep code = qp_ticket_id p # rest"
    using parts split_on_pieces [of _ field_sep code] by auto
qed

lemma verify_qr_iff:
  "verify_qr vfy code pk now = Inr p \<longleftrightarrow>
     (\<exists>sig key. parse_qr code = Inr (p, sig) \<and> b64_decode pk = Some key \<and>
        vfy key (signing_bytes p) sig \<and> \<bar>current_slice now - qp_time_slice p\<bar> \<le> SLICE_TOLERANCE)"
  by (auto simp: verify_qr_def split: sum.splits option.splits)

lemma verify_qr_InrD:
  assumes "verify_qr vfy code pk now = Inr p"
  obtains sig key where "parse_qr code = Inr (p, sig)" "b64_decode pk = Some key"
    "vfy key (signing_bytes p) sig" "\<bar>current_slice now - qp_time_slice p\<bar> \<le> 1"
  using assms by (auto simp: verify_qr_iff SLICE_TOLERANCE_def)

lemma verify_qr_count:
  "verify_qr vfy code pk now = Inr p \<Longrightarrow>
     1 \<le> qp_passenger_count p \<and> qp_passenger_count p \<le> MAX_PASSENGERS"
  by (auto simp: verify_qr_iff MAX_PASSENGERS_def dest: parse_qr_InrD(1,2))

section \<open>Codes as an encoding of payload and signature\<close>

definition code_text :: "qr_payload \<times> bytes \<Rightarrow> string" where
  "code_text ps = join_with field_sep
     [qp_ticket_id (fst ps), int_str (qp_passenger_count (fst ps)), int_str (qp_time_slice (fst ps)),
      qp_nonce (fst ps), b64_encode (snd ps)]"

definition payload_ok :: "qr_payload \<Rightarrow> bool" where
  "payload_ok p \<longleftrightarrow> field_sep \<notin> set (qp_ticket_id p) \<and> field_sep \<notin> set (qp_nonce p) \<and>
     1 \<le> qp_passenger_count p \<and> qp_passenger_count p \<le> MAX_PASSENGERS \<and>
     \<bar>qp_time_slice p\<bar> < 10 ^ max_str_digits"

definition right_of :: "'e + 'a \<Rightarrow> 'a option" where
  "right_of x = (case x of Inl _ \<Rightarrow> None | Inr a \<Rightarrow> Some a)"

lemma small_int_prints:
  fixes i :: int
  assumes "0 \<le> i" "i \<le> 60"
  shows "\<bar>i\<bar> < 10 ^ max_str_digits"
proof -
  have "(10 :: int) ^ 2 \<le> 10 ^ max_str_digits"
    by (rule power_increasing) (simp_all add: max_str_digits_def)
  with assms show ?thesis by simp
qed

lemma parse_code_text:
  assumes "payload_ok (fst ps)"
  shows "parse_qr (code_text ps) = Inr ps"
proof -
  obtain p sig where ps: "ps = (p, sig)" by (cases ps)
  have "split_on field_sep (code_text ps)
    = [qp_ticket_id p, int_str (qp_passenger_count p), int_str (qp_time_slice p), qp_nonce p,
       b64_encode sig]"
    unfolding code_text_def ps fst_conv snd_conv
    by (rule split_join) (use assms in \<open>auto simp: ps payload_ok_def int_str_no_dot b64_encode_no_dot\<close>)
  moreover have "py_int (int_str (qp_passenger_count p)) = Some (qp_passenger_count p)"
    "py_int (int_str (qp_time_slice p)) = Some (qp_time_slice p)"
    using assms by (auto simp: ps payload_ok_def MAX_PASSENGERS_def intro!: py_int_int_str small_int_prints)
  ultimately show ?thesis
    using assms by (simp add: parse_qr_def ps payload_ok_def b64_roundtrip)
qed

interpretation qr_code: codec code_text "\<lambda>s. right_of (parse_qr s)" "\<lambda>ps. payload_ok (fst ps)"
  by unfold_locales (simp add: parse_code_text right_of_def)

lemma code_text_signing_bytes: "code_text (p, sig) = signing_bytes p @ field_sep # b64_encode sig"
  by (simp add: code_text_def signing_bytes_def)

lemma build_qr_code_text:
  "build_qr sign pk p = Inr code \<Longrightarrow> \<exists>sig. code = code_text (p, sig)"
  by (auto simp: build_qr_def code_text_def split: option.splits)

lemma signing_bytes_inj:
  assumes "payload_ok p" "payload_ok q" "signing_bytes p = signing_bytes q"
  shows "p = q"
proof -
  have "code_text (p, []) = code_text (q, [])"
    using assms(3) by (simp add: code_text_signing_bytes)
  then show ?thesis
    using qr_code.enc_inj [of "(p, [])" "(q, [])"] assms(1,2) by simp
qed

section \<open>A genuine boarding code\<close>

text \<open>
  A signature scheme that meets the assumption on Ed25519 (it signs by prepending the key)
  and a code signed with it: what the theorems with hypotheses are instantiated with.
\<close>

definition demo_now :: instant where "demo_now = 1700000000 * second"

definition demo_sign :: signer where "demo_sign key msg = Some (key @ msg)"

definition demo_vfy :: verifier where "demo_vfy key msg sig = (sig = key @ msg)"

lemma demo_key_pair: "key_pair demo_sign demo_vfy k k"
  by (simp add: key_pair_def demo_sign_def demo_vfy_def)

definition demo_key :: string where "demo_key = b64_encode ''k''"

lemma demo_key_bytes [simp]: "b64_decode demo_key = Some ''k''"
  unfolding demo_key_def by (rule b64_roundtrip)

definition demo_payload :: qr_payload where
  "demo_payload = \<lparr>qp_ticket_id = ''t101'', qp_passenger_count = 2, qp_time_slice = 56666666,
     qp_nonce = ''n1''\<rparr>"

definition demo_code :: string where
  "demo_code = code_text (demo_payload, ''k'' @ signing_bytes demo_payload)"

lemma small_slice_prints:
  assumes "\<bar>i\<bar> < (1000000000 :: int)"
  shows "\<bar>i\<bar> < 10 ^ max_str_digits"
proof -
  have "(10 :: int) ^ 9 \<le> 10 ^ max_str_digits"
    by (rule power_increasing) (simp_all add: max_str_digits_def)
  with assms show ?thesis by simp
qed

lemma demo_payload_ok: "payload_ok demo_payload"
  unfolding payload_ok_def
  by (intro conjI small_slice_prints) (simp_all add: demo_payload_def MAX_PASSENGERS_def)

lemma demo_parse: "parse_qr demo_code = Inr (demo_payload, ''k'' @ signing_bytes demo_payload)"
  unfolding demo_code_def by (rule parse_code_text) (simp add: demo_payload_ok)

lemma demo_build: "build_qr demo_sign demo_key demo_payload = Inr demo_code"
  by (simp add: build_qr_def b64_roundtrip demo_sign_def demo_code_def code_text_def)

lemma demo_slice: "current_slice demo_now = 56666666"
  by (simp add: current_slice_def demo_now_def SLICE_SECONDS_def)

lemma demo_verify: "verify_qr demo_vfy demo_code demo_key demo_now = Inr demo_payload"
  by (simp add: verify_qr_iff demo_parse b64_roundtrip demo_vfy_def demo_slice SLICE_TOLERANCE_def)
    (simp add: demo_payload_def)

lemma demo_head: "hd (split_on field_sep demo_code) = ''t101''"
  using parse_qr_InrD(5) [OF demo_parse] by (auto simp: demo_payload_def)

lemma demo_code_length: "length demo_code = 47"
  by (simp add: demo_code_def code_text_def demo_payload_def signing_bytes_def int_str_def
      nat_str.simps length_b64_encode)

lemma built_code_verifies:
  assumes "key_pair sign vfy priv pub" "payload_ok p"
  obtains code where "build_qr sign (b64_encode priv) p = Inr code"
    "verify_qr vfy code (b64_encode pub) now =
      (if \<bar>current_slice now - qp_time_slice p\<bar> \<le> 1 then Inr p
       else Inl (InvalidQr ''code has expired''))"
proof -
  obtain sig where sig: "sign priv (signing_bytes p) = Some sig" "vfy pub (signing_bytes p) sig"
    using assms(1) by (auto simp: key_pair_def)
  then have "build_qr sign (b64_encode priv) p = Inr (code_text (p, sig))"
    by (simp add: build_qr_def b64_roundtrip code_text_def)
  moreover have "parse_qr (code_text (p, sig)) = Inr (p, sig)"
    by (rule parse_code_text) (simp add: assms(2))
  ultimately show thesis
    using sig by (intro that [of "code_text (p, sig)"]) (simp_all add: verify_qr_def b64_roundtrip SLICE_TOLERANCE_def)
qed

section \<open>Properties\<close>

text \<open>
  C21. A code built with a ticket's private key is read back as the payload it was built
  from by everyone who holds the public key, exactly while the clock is within one slice of
  the payload's slice, and is refused as expired at every other time. Building never fails.
\<close>

theorem verify_built_code:
  assumes "key_pair sign vfy priv pub" "payload_ok p"
  shows "\<exists>code. build_qr sign (b64_encode priv) p = Inr code \<and>
    verify_qr vfy code (b64_encode pub) now =
      (if \<bar>current_slice now - qp_time_slice p\<bar> \<le> 1 then Inr p
       else Inl (InvalidQr ''code has expired''))"
  using built_code_verifies [OF assms, where now = now] by blast

theorem verify_built_code_witness:
  "\<exists>code. build_qr demo_sign (b64_encode ''k'') demo_payload = Inr code \<and>
    verify_qr demo_vfy code (b64_encode ''k'') demo_now =
      (if \<bar>current_slice demo_now - qp_time_slice demo_payload\<bar> \<le> 1 then Inr demo_payload
       else Inl (InvalidQr ''code has expired''))"
  by (rule verify_built_code [OF demo_key_pair demo_payload_ok])

text \<open>
  Whatever text is scanned, a verified payload asks for 1 to 60 passengers, its ticket id
  is the part of the text before the first dot, some signature in it verifies under the key
  that was asked for, and the moment of verification lies within one slice of 30 seconds
  before or after the slice the payload names.
\<close>

theorem verified_code_bounds:
  assumes "verify_qr vfy code public_key now = Inr p"
  shows "1 \<le> qp_passenger_count p \<and> qp_passenger_count p \<le> 60 \<and>
    hd (split_on field_sep code) = qp_ticket_id p \<and>
    (\<exists>key sig. b64_decode public_key = Some key \<and> vfy key (signing_bytes p) sig) \<and>
    (qp_time_slice p - 1) * 30 * second \<le> now \<and> now < (qp_time_slice p + 2) * 30 * second"
proof -
  from assms obtain sig key where v: "parse_qr code = Inr (p, sig)" "b64_decode public_key = Some key"
    "vfy key (signing_bytes p) sig" "\<bar>current_slice now - qp_time_slice p\<bar> \<le> 1"
    by (rule verify_qr_InrD)
  have "current_slice now * (30 * second) \<le> now" "now < (current_slice now + 1) * (30 * second)"
    by (simp_all add: current_slice_def SLICE_SECONDS_def)
  with v(4) have "(qp_time_slice p - 1) * 30 * second \<le> now \<and> now < (qp_time_slice p + 2) * 30 * second"
    by (simp add: algebra_simps) linarith
  with v parse_qr_InrD [OF v(1)] show ?thesis by auto
qed

theorem verified_code_bounds_witness:
  "1 \<le> qp_passenger_count demo_payload \<and> qp_passenger_count demo_payload \<le> 60 \<and>
    hd (split_on field_sep demo_code) = qp_ticket_id demo_payload \<and>
    (\<exists>key sig. b64_decode demo_key = Some key \<and> demo_vfy key (signing_bytes demo_payload) sig) \<and>
    (qp_time_slice demo_payload - 1) * 30 * second \<le> demo_now \<and>
    demo_now < (qp_time_slice demo_payload + 2) * 30 * second"
  by (rule verified_code_bounds [OF demo_verify])

text \<open>
  The bytes a signature covers determine the payload: no two acceptable payloads are
  signed as the same text, so a signature for one group size, slice, nonce or ticket never
  serves another.
\<close>

theorem signature_covers_one_payload:
  assumes "payload_ok p" "payload_ok q" "p \<noteq> q"
  shows "signing_bytes p \<noteq> signing_bytes q"
  using signing_bytes_inj assms by blast

theorem signature_covers_one_payload_witness:
  "signing_bytes demo_payload \<noteq> signing_bytes (demo_payload\<lparr>qp_passenger_count := 12\<rparr>)"
proof (rule signature_covers_one_payload)
  show "payload_ok (demo_payload\<lparr>qp_passenger_count := 12\<rparr>)"
    using demo_payload_ok by (simp add: payload_ok_def MAX_PASSENGERS_def)
  show "demo_payload \<noteq> demo_payload\<lparr>qp_passenger_count := 12\<rparr>" by (simp add: demo_payload_def)
qed (rule demo_payload_ok)

end
