(* ===== verification/Demo.thy ===== *)
theory Demo
  imports Models Boarding
begin

text \<open>
  One small concrete world in which the theorems with hypotheses are instantiated: a student
  with a paid ten-ride ticket, an approved helper on a live trip and an admin. Its signature
  scheme and boarding code are those at the end of \<^verbatim>\<open>Boarding\<close>. Nothing here models code.
\<close>

definition demo_uuid_of :: "string \<Rightarrow> uuid option" where
  "demo_uuid_of s = (if s = ''t101'' then Some 101 else if s = ''t102'' then Some 102 else None)"

definition demo_user :: "uuid \<Rightarrow> string \<Rightarrow> user_role \<Rightarrow> user" where
  "demo_user i email role = \<lparr>us_id = i, us_created_at = 0, us_email = email,
     us_password_hash = ''hash'', us_role = role, us_name = email, us_phone = None,
     us_photo_url = None, us_status = User_active\<rparr>"

definition demo_student :: student where
  "demo_student = \<lparr>st_id = 11, st_user_id = 1, st_student_id_no = ''2020-1'', st_department = None,
     st_batch = None, st_default_stop_id = None\<rparr>"

definition demo_helper :: helper where
  "demo_helper = \<lparr>hp_id = 21, hp_user_id = 2, hp_approved_by = Some 3,
     hp_status = Helper_approved, hp_current_device_id = Some ''dev-1''\<rparr>"

definition demo_bus :: bus where
  "demo_bus = \<lparr>bs_id = 31, bs_reg_no = ''DHK-1'', bs_nickname = None, bs_capacity = 40,
     bs_status = Bus_active\<rparr>"

definition demo_stop :: "uuid \<Rightarrow> stop" where
  "demo_stop i = \<lparr>sp_id = i, sp_name = ''stop'', sp_lat = 23, sp_lng = 90\<rparr>"

definition demo_route :: route where
  "demo_route = \<lparr>rt_id = 51, rt_name = ''R1'', rt_direction = Dir_outbound, rt_polyline = None,
     rt_is_active = True\<rparr>"

definition demo_route_stop :: "uuid \<Rightarrow> uuid \<Rightarrow> int \<Rightarrow> route_stop" where
  "demo_route_stop i s n = \<lparr>rs_id = i, rs_route_id = 51, rs_stop_id = s, rs_seq = n,
     rs_scheduled_offset_min = None\<rparr>"

definition demo_trip :: trip where
  "demo_trip = \<lparr>tr_id = 71, tr_route_id = 51, tr_bus_id = 31, tr_helper_id = 21,
     tr_service_date = 19675, tr_scheduled_start = None, tr_actual_start = Some demo_now,
     tr_actual_end = None, tr_status = Trip_live\<rparr>"

definition demo_product :: ticket_product where
  "demo_product = \<lparr>pr_id = 81, pr_type = Product_bulk, pr_name = ''ten'', pr_price_paisa = 10000,
     pr_ride_count = Some 10, pr_validity_days = 30, pr_route_scope = None, pr_active = True\<rparr>"

definition demo_order :: "uuid \<Rightarrow> order_status \<Rightarrow> string \<Rightarrow> string \<Rightarrow> order" where
  "demo_order i status key tran = \<lparr>or_id = i, or_created_at = demo_now, or_student_id = 11,
     or_product_id = 81, or_amount_paisa = 10000, or_currency = ''BDT'', or_status = status,
     or_idempotency_key = key, or_tran_id = tran, or_gateway = ''sslcommerz'',
     or_gateway_val_id = JNull, or_gateway_bank_tran_id = JNull, or_gateway_card_type = JNull,
     or_raw_payload = (if status = Order_paid then Some [(''status'', JStr ''VALID''),
       (''amount'', JStr ''100.00''), (''currency'', JStr ''BDT'')] else None),
     or_paid_at = None\<rparr>"

definition demo_ticket :: ticket where
  "demo_ticket = \<lparr>tk_id = 101, tk_created_at = demo_now, tk_order_id = 91, tk_student_id = 11,
     tk_product_id = 81, tk_rides_total = Some 10, tk_rides_remaining = Some 10,
     tk_valid_from = demo_now, tk_valid_to = demo_now + 30 * day,
     tk_qr_private_key = demo_key, tk_qr_public_key = demo_key,
     tk_status = Ticket_active\<rparr>"

definition demo_db :: database where
  "demo_db = \<lparr>
     db_users = [demo_user 1 ''a@x.edu'' Role_student, demo_user 2 ''b@x.edu'' Role_helper,
                 demo_user 3 ''c@x.edu'' Role_admin],
     db_students = [demo_student], db_helpers = [demo_helper], db_buses = [demo_bus],
     db_stops = [demo_stop 41, demo_stop 42], db_routes = [demo_route],
     db_route_stops = [demo_route_stop 61 41 1, demo_route_stop 62 42 2],
     db_trips = [demo_trip], db_seat_reports = [], db_alerts = [], db_products = [demo_product],
     db_orders = [demo_order 91 Order_paid ''key-0001'' ''UT-1'',
                  demo_order 92 Order_pending ''key-0002'' ''UT-2''],
     db_tickets = [demo_ticket], db_redemptions = []\<rparr>"

lemmas demo_defs = demo_db_def demo_user_def demo_student_def demo_helper_def demo_bus_def
  demo_stop_def demo_route_def demo_route_stop_def demo_trip_def demo_product_def demo_order_def
  demo_ticket_def demo_now_def

lemma demo_db_ok: "db_ok demo_db"
  by (simp add: db_ok_defs demo_defs unique_on_def fk_opt_def)


end
