(* ===== verification/Gateway.thy ===== *)
theory Gateway
  imports Demo
begin

text \<open>
  The payment gateway client of \<^verbatim>\<open>app/core/sslcommerz.py\<close>: what is posted to open a
  session, how the three answers are read, and the three judgements on a validation record.
  The HTTP exchange is third-party and enters as its outcome: \<open>None\<close> where it fails or does
  not deliver a JSON object (\<^verbatim>\<open>httpx.HTTPError\<close>, \<^verbatim>\<open>ValueError\<close>), else the object.
\<close>

datatype gateway_error = GatewayError string

definition SUCCESSFUL_STATUSES :: "string list" where
  "SUCCESSFUL_STATUSES = [''VALID'', ''VALIDATED'']"

definition RISK_FLAGGED :: string where "RISK_FLAGGED = ''1''"

section \<open>Opening a session\<close>

text \<open>
  \<^verbatim>\<open>f"{amount_paisa / 100:.2f}"\<close>: the quotient is rounded back to two decimals, which
  gives the amount itself for every amount a database integer can hold.
\<close>

definition two_digits :: "nat \<Rightarrow> string" where
  "two_digits n = [digit_char (n div 10), digit_char (n mod 10)]"

definition money_str :: "int \<Rightarrow> string" where
  "money_str paisa =
     (if paisa < 0 then CHR ''-'' # nat_str (nat (- paisa) div 100) @ ''.'' @ two_digits (nat (- paisa) mod 100)
      else nat_str (nat paisa div 100) @ ''.'' @ two_digits (nat paisa mod 100))"

record gateway_config =
  gc_store_id :: string
  gc_store_password :: string
  gc_live :: bool

definition base_url :: "gateway_config \<Rightarrow> string" where
  "base_url cfg = (if gc_live cfg then ''https://securepay.sslcommerz.com''
     else ''https://sandbox.sslcommerz.com'')"

record checkout_request =
  cr_tran_id :: string
  cr_amount_paisa :: int
  cr_currency :: string
  cr_success_url :: string
  cr_fail_url :: string
  cr_cancel_url :: string
  cr_ipn_url :: "string option"
  cr_customer_name :: string
  cr_customer_email :: string
  cr_customer_phone :: "string option"
  cr_product_name :: string

definition session_payload :: "gateway_config \<Rightarrow> checkout_request \<Rightarrow> (string \<times> string) list" where
  "session_payload cfg r =
     [(''store_id'', gc_store_id cfg), (''store_passwd'', gc_store_password cfg),
      (''total_amount'', money_str (cr_amount_paisa r)), (''currency'', cr_currency r),
      (''tran_id'', cr_tran_id r), (''success_url'', cr_success_url r),
      (''fail_url'', cr_fail_url r), (''cancel_url'', cr_cancel_url r),
      (''shipping_method'', ''NO''), (''product_name'', cr_product_name r),
      (''product_category'', ''transport''), (''product_profile'', ''non-physical-goods''),
      (''cus_name'', cr_customer_name r), (''cus_email'', cr_customer_email r),
      (''cus_phone'', case cr_customer_phone r of None \<Rightarrow> ''N/A''
         | Some p \<Rightarrow> if p = [] then ''N/A'' else p),
      (''cus_add1'', ''N/A''), (''cus_city'', ''Dhaka''), (''cus_country'', ''Bangladesh'')]
     @ (case cr_ipn_url r of None \<Rightarrow> [] | Some u \<Rightarrow> if u = [] then [] else [(''ipn_url'', u)])"

definition create_session ::
  "gateway_config \<Rightarrow> (string \<Rightarrow> (string \<times> string) list \<Rightarrow> doc option) \<Rightarrow> checkout_request \<Rightarrow>
   gateway_error + string" where
  "create_session cfg post r =
     (case post (base_url cfg @ ''/gwprocess/v4/api.php'') (session_payload cfg r) of
        None \<Rightarrow> Inl (GatewayError ''session init failed'')
      | Some body \<Rightarrow>
          if doc_get body ''status'' \<noteq> JStr ''SUCCESS'' \<or> \<not> truthy (doc_get body ''GatewayPageURL'')
          then Inl (GatewayError (''session refused: '' @
            py_str (py_or (doc_get body ''failedreason'') (doc_get body ''status''))))
          else Inr (py_str (doc_get body ''GatewayPageURL'')))"

section \<open>Asking what happened\<close>

text \<open>
  The transaction query: the elements of the answer, none where it has no list of them.
\<close>

definition query_by_tran_id ::
  "(string \<Rightarrow> doc list option option) \<Rightarrow> string \<Rightarrow> gateway_error + doc list" where
  "query_by_tran_id get tran_id =
     (case get tran_id of
        None \<Rightarrow> Inl (GatewayError ''transaction query failed'')
      | Some None \<Rightarrow> Inr []
      | Some (Some elements) \<Rightarrow> Inr elements)"

definition validate :: "(string \<Rightarrow> doc option) \<Rightarrow> string \<Rightarrow> gateway_error + doc" where
  "validate get val_id =
     (case get val_id of None \<Rightarrow> Inl (GatewayError ''validation failed'') | Some d \<Rightarrow> Inr d)"

section \<open>Judging a record\<close>

definition payment_succeeded :: "doc \<Rightarrow> bool" where
  "payment_succeeded validation \<longleftrightarrow>
     upper (py_str (doc_get_or validation ''status'' (JStr []))) \<in> set SUCCESSFUL_STATUSES"

definition amount_matches :: "doc \<Rightarrow> int \<Rightarrow> string \<Rightarrow> py_error + bool" where
  "amount_matches validation expected_paisa expected_currency =
     (let raw_amount = py_or (doc_get validation ''currency_amount'') (doc_get validation ''amount'');
          raw_currency = py_or (doc_get validation ''currency_type'') (doc_get validation ''currency'');
          settled = (case py_float_of raw_amount of Inl e \<Rightarrow> Inl e | Inr x \<Rightarrow> round_cents x)
      in case settled of
           Inl e \<Rightarrow> if e = TypeError \<or> e = ValueError then Inr False else Inl e
         | Inr settled_paisa \<Rightarrow>
             Inr (settled_paisa = expected_paisa \<and>
               upper (if truthy raw_currency then py_str raw_currency else []) = upper expected_currency))"

definition risk_flagged :: "doc \<Rightarrow> bool" where
  "risk_flagged validation \<longleftrightarrow> py_str (doc_get_or validation ''risk_level'' (JStr [])) = RISK_FLAGGED"

section \<open>Amounts survive the trip to the gateway and back\<close>

lemma money_chars: "c \<in> set (money_str p) \<Longrightarrow> is_digit c \<or> c = CHR ''-'' \<or> c = CHR ''.''"
  by (auto simp: money_str_def two_digits_def nat_str_digits split: if_splits)

lemma scan_digits_append:
  "scan_digits b acc xs = Some n \<Longrightarrow> xs \<noteq> [] \<Longrightarrow> scan_digits b acc (xs @ ys) = scan_digits True n ys"
proof (induction xs arbitrary: b acc)
  case (Cons c cs)
  then show ?case by (cases "cs = []") (auto split: if_splits)
qed simp

lemma scan_two_digits: "n < 100 \<Longrightarrow> scan_digits False 0 (two_digits n) = Some n"
  by (simp add: two_digits_def)

lemma lower_digits: "(\<forall>c \<in> set s. is_digit c \<or> c = CHR ''-'' \<or> c = CHR ''.'') \<Longrightarrow> lower s = s"
  unfolding lower_def by (rule map_idI) (auto simp: lower_char_def is_digit_def Let_def)

lemma py_float_money:
  assumes "0 \<le> p"
  shows "py_float (money_str p) = Some (Dec p (- 2))"
proof -
  define a b where "a = nat p div 100" and "b = nat p mod 100"
  have m: "money_str p = nat_str a @ CHR ''.'' # two_digits b"
    using assms by (simp add: money_str_def a_def b_def)
  have b: "b < 100" by (simp add: b_def)
  then have db: "\<forall>c \<in> set (two_digits b). is_digit c" by (simp add: two_digits_def)
  have da: "\<forall>c \<in> set (nat_str a). is_digit c" by (simp add: nat_str_digits)
  have sp: "strip (money_str p) = money_str p"
    by (rule strip_id) (auto dest!: money_chars simp: is_digit_def is_space_def Let_def)
  have lo: "lower (money_str p) = money_str p"
    by (rule lower_digits) (use money_chars in blast)
  obtain c cs where c: "nat_str a = c # cs" by (cases "nat_str a") auto
  then have "is_digit c" using da by simp
  then have sg: "signed (money_str p) = (False, money_str p)"
    by (auto simp: m c is_digit_def)
  have no_e: "split_on CHR ''e'' (money_str p) = [money_str p]"
    by (rule split_on_no_sep) (use money_chars [of "CHR ''e''" p] in \<open>auto simp: is_digit_def\<close>)
  have nodot: "CHR ''.'' \<notin> set (nat_str a)" "CHR ''.'' \<notin> set (two_digits b)"
    using da db by (auto simp: is_digit_def)
  have dot: "split_on CHR ''.'' (money_str p) = [nat_str a, two_digits b]"
    unfolding m by (simp add: split_on_append nodot split_on_no_sep)
  have num: "num_digits (two_digits b) = 2" using db by (simp add: num_digits_def two_digits_def)
  have two: "two_digits b \<noteq> []" by (simp add: two_digits_def)
  have "a * 100 + b = nat p" by (simp add: a_def b_def)
  then have man: "py_mantissa (money_str p) = Some (nat p, 2)"
    by (simp add: py_mantissa_def dot scan_opt_def scan_nat_str scan_two_digits [OF b] num two)
  have "hd (money_str p) = c" by (simp add: m c)
  then have "money_str p \<noteq> ''inf''" "money_str p \<noteq> ''infinity''" "money_str p \<noteq> ''nan''"
    using \<open>is_digit c\<close> by (auto simp: is_digit_def)
  then show ?thesis
    using assms by (simp add: py_float_def sp lo sg no_e man py_exponent_def)
qed

section \<open>Properties\<close>

text \<open>
  The amount check accepts exactly what was asked for: a record that reports, in
  either of its two shapes, the very text the session was opened with and the order's currency
  in any case matches the order, and matches no other order amount.
\<close>

theorem amount_survives_gateway:
  assumes "0 \<le> p" "p < 2 ^ 31"
    and "doc_get v ''currency_amount'' = JStr (money_str p) \<or>
      \<not> truthy (doc_get v ''currency_amount'') \<and> doc_get v ''amount'' = JStr (money_str p)"
    and "py_or (doc_get v ''currency_type'') (doc_get v ''currency'') = JStr c" "c \<noteq> []"
  shows "amount_matches v expected cur = Inr (expected = p \<and> upper c = upper cur)"
proof -
  have "money_str p \<noteq> []" using assms(1) by (simp add: money_str_def)
  then have raw: "py_or (doc_get v ''currency_amount'') (doc_get v ''amount'') = JStr (money_str p)"
    using assms(3) by (auto simp: py_or_def)
  have "\<not> dec_overflows p 0"
  proof -
    have "(2 :: int) ^ 31 \<le> float_limit" by (simp add: float_limit_def)
    with assms(1,2) show ?thesis by (simp add: dec_overflows_def)
  qed
  then have "round_cents (Dec p (- 2)) = Inr p"
    by (simp add: round_cents_def round_half_even_exact)
  then show ?thesis
    using assms(4,5) by (auto simp: amount_matches_def raw py_float_money [OF assms(1)] Let_def)
qed

definition demo_validation :: doc where
  "demo_validation = [(''status'', JStr ''VALID''), (''tran_id'', JStr ''UT-2''),
     (''val_id'', JStr ''v-1''), (''amount'', JStr (money_str 10000)),
     (''currency'', JStr ''bdt''), (''risk_level'', JStr ''0'')]"

theorem amount_survives_gateway_witness:
  "amount_matches demo_validation 10000 ''BDT'' = Inr (10000 = (10000 :: int) \<and> upper ''bdt'' = upper ''BDT'')"
  by (rule amount_survives_gateway [of 10000 demo_validation "''bdt''"])
    (simp_all add: demo_validation_def doc_get_def py_or_def)

text \<open>
  No payment of another amount passes: whenever the check says yes, the gateway's
  figure is a finite decimal number within half a paisa of the order's amount, and the
  currencies agree up to case.
\<close>

theorem amount_matches_means_right_money:
  assumes "amount_matches v expected cur = Inr True"
  shows "\<exists>m e. py_float_of (py_or (doc_get v ''currency_amount'') (doc_get v ''amount'')) = Inr (Dec m e) \<and>
    (if - 2 \<le> e then m * 10 ^ nat (e + 2) = expected
     else \<bar>2 * m - 2 * expected * 10 ^ nat (- e - 2)\<bar> \<le> 10 ^ nat (- e - 2)) \<and>
    upper (let c = py_or (doc_get v ''currency_type'') (doc_get v ''currency'')
      in if truthy c then py_str c else []) = upper cur"
proof -
  obtain x where x: "py_float_of (py_or (doc_get v ''currency_amount'') (doc_get v ''amount'')) = Inr x"
    "round_cents x = Inr expected"
    using assms by (auto simp: amount_matches_def Let_def split: sum.splits if_splits)
  then obtain m e where me: "x = Dec m e" "round_half_even m (e + 2) = expected"
    by (auto simp: round_cents_def split: pyfloat.splits if_splits)
  have "if - 2 \<le> e then m * 10 ^ nat (e + 2) = expected
     else \<bar>2 * m - 2 * expected * 10 ^ nat (- e - 2)\<bar> \<le> 10 ^ nat (- e - 2)"
    using me(2) round_half_even_near [of "e + 2" m] by (auto simp: round_half_even_exact)
  then show ?thesis
    using x(1) me(1) assms by (auto simp: amount_matches_def Let_def split: sum.splits if_splits)
qed

theorem amount_matches_means_right_money_witness:
  "\<exists>m e. py_float_of (py_or (doc_get demo_validation ''currency_amount'') (doc_get demo_validation ''amount''))
      = Inr (Dec m e) \<and>
    (if - 2 \<le> e then m * 10 ^ nat (e + 2) = 10000
     else \<bar>2 * m - 2 * 10000 * 10 ^ nat (- e - 2)\<bar> \<le> 10 ^ nat (- e - 2)) \<and>
    upper (let c = py_or (doc_get demo_validation ''currency_type'') (doc_get demo_validation ''currency'')
      in if truthy c then py_str c else []) = upper ''BDT''"
proof (rule amount_matches_means_right_money)
  have "upper ''bdt'' = upper ''BDT''" by code_simp
  then show "amount_matches demo_validation 10000 ''BDT'' = Inr True"
    by (simp add: amount_matches_def demo_validation_def doc_get_def py_or_def py_float_money
        round_cents_def dec_overflows_def float_limit_def round_half_even_def)
qed

end
