(* ===== verification/Redemption.thy ===== *)
theory Redemption
  imports Demo
begin

text \<open>
  Turning a scanned code into a recorded ride: \<^verbatim>\<open>app/services/redemption.py\<close> and the
  helper and student endpoints of \<^verbatim>\<open>app/api/routes/boarding.py\<close>.

  Parameters: \<open>vfy\<close> is Ed25519 verification; \<open>uuid_of\<close> is the database driver's reading of
  a text as a UUID (\<open>None\<close> where it raises); \<open>plan\<close> says which of several rows an unordered
  query delivers first; \<open>new_id\<close> is the id a fresh row gets; \<open>now\<close> is the server's clock.
  A function that stages writes returns the database with the writes in it; the caller
  commits.

  No row is locked: between reading the ticket and writing it other requests commit. In
  \<open>redeem_amid\<close> and \<open>sync_item_amid\<close> the ticket is the one of \<open>old\<close>, the database when this
  session read it, and \<open>meanwhile\<close> is what the others commit before this one writes. \<open>redeem\<close> and
  \<open>sync_item\<close> are the undisturbed case.
\<close>

datatype redemption_rejected = RedemptionRejected string

definition unknown_ticket :: redemption_rejected where
  "unknown_ticket = RedemptionRejected ''unknown ticket''"

definition ticket_for ::
  "(string \<Rightarrow> uuid option) \<Rightarrow> database \<Rightarrow> string \<Rightarrow> redemption_rejected + ticket" where
  "ticket_for uuid_of db ticket_id =
     (case uuid_of ticket_id of
        None \<Rightarrow> Inl unknown_ticket
      | Some i \<Rightarrow> (case get_ticket db i of None \<Rightarrow> Inl unknown_ticket | Some t \<Rightarrow> Inr t))"

text \<open>A check returns the exception it raises, or \<open>None\<close>.\<close>

definition check_valid_window :: "ticket \<Rightarrow> instant \<Rightarrow> redemption_rejected option" where
  "check_valid_window ticket now =
     (if tk_status ticket = Ticket_revoked then Some (RedemptionRejected ''ticket revoked'')
      else if tk_status ticket = Ticket_suspended
      then Some (RedemptionRejected ''ticket suspended pending review'')
      else if tk_status ticket = Ticket_expired \<or> tk_valid_to ticket < now
      then Some (RedemptionRejected ''ticket expired'')
      else if tk_valid_from ticket > now then Some (RedemptionRejected ''ticket not yet valid'')
      else None)"

definition check_rides_cover_group :: "ticket \<Rightarrow> int \<Rightarrow> redemption_rejected option" where
  "check_rides_cover_group ticket passenger_count =
     (case tk_rides_remaining ticket of
        None \<Rightarrow> None
      | Some left \<Rightarrow>
          if passenger_count > left
          then Some (RedemptionRejected (int_str passenger_count @ '' passengers but '' @
                 int_str left @ '' ride(s) left on this ticket''))
          else None)"

text \<open>The checks of a first sighting.\<close>

definition check_first_sighting :: "ticket \<Rightarrow> int \<Rightarrow> redemption_rejected option" where
  "check_first_sighting ticket passenger_count =
     (if (case tk_rides_remaining ticket of None \<Rightarrow> False | Some left \<Rightarrow> left \<le> 0)
      then Some (RedemptionRejected ''no rides remaining'')
      else check_rides_cover_group ticket passenger_count)"

definition deduct_ride :: "int \<Rightarrow> ticket \<Rightarrow> ticket" where
  "deduct_ride passenger_count ticket =
     (case tk_rides_remaining ticket of
        None \<Rightarrow> ticket
      | Some left \<Rightarrow>
          let rest = max (left - passenger_count) 0 in
          ticket\<lparr>tk_rides_remaining := Some rest,
                 tk_status := (if rest = 0 then Ticket_exhausted else tk_status ticket)\<rparr>)"

definition sightings :: "database \<Rightarrow> string \<Rightarrow> redemption list" where
  "sightings db nonce = filter (\<lambda>r. rd_nonce r = nonce) (db_redemptions db)"

text \<open>The columns of the ticket object that changed since it was read are written to its row.\<close>

definition flush_ticket :: "ticket \<Rightarrow> ticket \<Rightarrow> ticket \<Rightarrow> ticket" where
  "flush_ticket loaded obj row = row\<lparr>
     tk_rides_remaining := (if tk_rides_remaining obj = tk_rides_remaining loaded
       then tk_rides_remaining row else tk_rides_remaining obj),
     tk_status := (if tk_status obj = tk_status loaded then tk_status row else tk_status obj)\<rparr>"

definition stage_redemption ::
  "database \<Rightarrow> ticket \<Rightarrow> redemption \<Rightarrow> database" where
  "stage_redemption db ticket r =
     db\<lparr>db_redemptions := db_redemptions db @ [r],
        db_tickets := (if rd_flag r = Flag_ok
          then row_edit tk_id (tk_id ticket)
            (flush_ticket ticket (deduct_ride (rd_passenger_count r) ticket)) (db_tickets db)
          else db_tickets db)\<rparr>"

definition redeem_amid ::
  "verifier \<Rightarrow> (string \<Rightarrow> uuid option) \<Rightarrow> nat \<Rightarrow> uuid \<Rightarrow> database \<Rightarrow> database \<Rightarrow>
   (database \<Rightarrow> database) \<Rightarrow> string \<Rightarrow> uuid \<Rightarrow> string \<Rightarrow>
   instant \<Rightarrow> uuid option \<Rightarrow> instant \<Rightarrow> redemption_rejected + redemption \<times> database" where
  "redeem_amid vfy uuid_of plan new_id old db meanwhile code helper_id device_id redeemed_at trip_id now =
     (case ticket_for uuid_of old (hd (split_on field_sep code)) of
        Inl e \<Rightarrow> Inl e
      | Inr ticket \<Rightarrow>
     (case verify_qr vfy code (tk_qr_public_key ticket) now of
        Inl (InvalidQr reason) \<Rightarrow> Inl (RedemptionRejected reason)
      | Inr payload \<Rightarrow>
     (case check_valid_window ticket now of
        Some e \<Rightarrow> Inl e
      | None \<Rightarrow>
     (let seen = first_row plan (sightings db (qp_nonce payload));
          row = (\<lambda>flag. \<lparr>rd_id = new_id, rd_ticket_id = tk_id ticket, rd_trip_id = trip_id,
            rd_helper_id = helper_id, rd_helper_device_id = device_id, rd_nonce = qp_nonce payload,
            rd_passenger_count = qp_passenger_count payload, rd_redeemed_at = redeemed_at,
            rd_synced_at = now, rd_flag = flag\<rparr>)
      in case seen of
        Some s \<Rightarrow>
          if rd_helper_device_id s = device_id then Inr (s, meanwhile db)
          else Inr (row Flag_duplicate_suspect, stage_redemption (meanwhile db) ticket (row Flag_duplicate_suspect))
      | None \<Rightarrow>
          (case check_first_sighting ticket (qp_passenger_count payload) of
             Some e \<Rightarrow> Inl e
           | None \<Rightarrow> Inr (row Flag_ok, stage_redemption (meanwhile db) ticket (row Flag_ok)))))))"

definition redeem ::
  "verifier \<Rightarrow> (string \<Rightarrow> uuid option) \<Rightarrow> nat \<Rightarrow> uuid \<Rightarrow> database \<Rightarrow> string \<Rightarrow> uuid \<Rightarrow> string \<Rightarrow>
   instant \<Rightarrow> uuid option \<Rightarrow> instant \<Rightarrow> redemption_rejected + redemption \<times> database" where
  "redeem vfy uuid_of plan new_id db = redeem_amid vfy uuid_of plan new_id db db (\<lambda>d. d)"

section \<open>The helper's sync\<close>

definition CODE_MIN_LEN :: nat where "CODE_MIN_LEN = 8"
definition CODE_MAX_LEN :: nat where "CODE_MAX_LEN = 512"

record redemption_in =
  ri_code :: string
  ri_device_id :: string
  ri_redeemed_at :: instant
  ri_trip_id :: "uuid option"

record redemption_result =
  rr_nonce :: "string option"
  rr_accepted :: bool
  rr_reason :: string
  rr_ticket_id :: "uuid option"
  rr_rides_remaining :: "int option"
  rr_flag :: "redemption_flag option"

definition rejected_result :: "string option \<Rightarrow> string \<Rightarrow> redemption_result" where
  "rejected_result nonce reason = \<lparr>rr_nonce = nonce, rr_accepted = False, rr_reason = reason,
     rr_ticket_id = None, rr_rides_remaining = None, rr_flag = None\<rparr>"

definition scanned_nonce :: "string \<Rightarrow> string option" where
  "scanned_nonce code = (case parse_qr code of Inl _ \<Rightarrow> None | Inr (p, _) \<Rightarrow> Some (qp_nonce p))"

text \<open>What the outside gives to one item: the plan, the fresh id and the clock.\<close>

record item_env =
  ie_plan :: nat
  ie_new_id :: uuid
  ie_now :: instant

definition sync_item_amid ::
  "verifier \<Rightarrow> (string \<Rightarrow> uuid option) \<Rightarrow> uuid \<Rightarrow> item_env \<Rightarrow> database \<Rightarrow>
   (database \<Rightarrow> database) \<Rightarrow> database \<Rightarrow> redemption_in \<Rightarrow>
   (db_error + redemption_result) \<times> database" where
  "sync_item_amid vfy uuid_of helper_id env old meanwhile db item =
     (if \<not> (CODE_MIN_LEN \<le> length (ri_code item) \<and> length (ri_code item) \<le> CODE_MAX_LEN)
      then (Inr (rejected_result None ''malformed code''), db)
      else (case redeem_amid vfy uuid_of (ie_plan env) (ie_new_id env) old db meanwhile (ri_code item) helper_id
               (ri_device_id item) (ri_redeemed_at item) (ri_trip_id item) (ie_now env) of
          Inl (RedemptionRejected reason) \<Rightarrow>
            (Inr (rejected_result (scanned_nonce (ri_code item)) reason), db)
        | Inr (r, staged) \<Rightarrow>
            (case commit staged of
               Inl IntegrityError \<Rightarrow>
                 (Inr \<lparr>rr_nonce = scanned_nonce (ri_code item), rr_accepted = True,
                   rr_reason = ''already recorded'', rr_ticket_id = None,
                   rr_rides_remaining = None, rr_flag = None\<rparr>, meanwhile db)
             | Inl DataError \<Rightarrow> (Inl DataError, meanwhile db)
             | Inr db' \<Rightarrow>
                 (Inr \<lparr>rr_nonce = Some (rd_nonce r), rr_accepted = True, rr_reason = ''recorded'',
                   rr_ticket_id = Some (rd_ticket_id r),
                   rr_rides_remaining = (case get_ticket db' (rd_ticket_id r) of
                     None \<Rightarrow> None | Some t \<Rightarrow> tk_rides_remaining t),
                   rr_flag = Some (rd_flag r)\<rparr>, db'))))"

definition sync_item ::
  "verifier \<Rightarrow> (string \<Rightarrow> uuid option) \<Rightarrow> uuid \<Rightarrow> item_env \<Rightarrow> database \<Rightarrow> redemption_in \<Rightarrow>
   (db_error + redemption_result) \<times> database" where
  "sync_item vfy uuid_of helper_id env db = sync_item_amid vfy uuid_of helper_id env db (\<lambda>d. d) db"

text \<open>
  The batch. An exception the loop does not catch ends the request without an answer; what
  earlier items committed stays.
\<close>

fun sync_redemptions ::
  "verifier \<Rightarrow> (string \<Rightarrow> uuid option) \<Rightarrow> uuid \<Rightarrow> database \<Rightarrow> (item_env \<times> redemption_in) list \<Rightarrow>
   (db_error + redemption_result list) \<times> database" where
  "sync_redemptions vfy uuid_of helper_id db [] = (Inr [], db)"
| "sync_redemptions vfy uuid_of helper_id db ((env, item) # items) =
     (case sync_item vfy uuid_of helper_id env db item of
        (Inl e, db') \<Rightarrow> (Inl e, db')
      | (Inr res, db') \<Rightarrow>
          (case sync_redemptions vfy uuid_of helper_id db' items of
             (Inl e, db'') \<Rightarrow> (Inl e, db'')
           | (Inr results, db'') \<Rightarrow> (Inr (res # results), db'')))"

section \<open>The student's material and the helper's manifest\<close>

definition own_active_ticket :: "database \<Rightarrow> student \<Rightarrow> uuid \<Rightarrow> http_error + ticket" where
  "own_active_ticket db student ticket_id =
     (case get_ticket db ticket_id of
        None \<Rightarrow> Inl (HTTPException 404 ''Ticket not found'')
      | Some t \<Rightarrow>
          if tk_student_id t \<noteq> st_id student then Inl (HTTPException 404 ''Ticket not found'')
          else if tk_status t \<noteq> Ticket_active
          then Inl (HTTPException 409 (''Ticket is '' @ ticket_status_str (tk_status t)))
          else Inr t)"

record qr_material_out =
  qm_ticket_id :: uuid
  qm_qr_private_key :: string
  qm_slice_seconds :: int
  qm_server_time :: instant
  qm_passenger_count :: int
  qm_valid_to :: instant

definition qr_material ::
  "database \<Rightarrow> student \<Rightarrow> uuid \<Rightarrow> instant \<Rightarrow> http_error + qr_material_out" where
  "qr_material db student ticket_id now =
     (case own_active_ticket db student ticket_id of
        Inl e \<Rightarrow> Inl e
      | Inr t \<Rightarrow> Inr \<lparr>qm_ticket_id = tk_id t, qm_qr_private_key = tk_qr_private_key t,
          qm_slice_seconds = SLICE_SECONDS, qm_server_time = now, qm_passenger_count = 1,
          qm_valid_to = tk_valid_to t\<rparr>)"

text \<open>
  The code that \<^verbatim>\<open>qr_image\<close> renders: \<open>uuid_text\<close> prints a UUID, \<open>nonce\<close> is the
  fresh one. Drawing the PNG is the third-party renderer's.
\<close>

definition qr_image_code ::
  "signer \<Rightarrow> (uuid \<Rightarrow> string) \<Rightarrow> string \<Rightarrow> database \<Rightarrow> student \<Rightarrow> uuid \<Rightarrow> instant \<Rightarrow>
   http_error + (py_error + string)" where
  "qr_image_code sign uuid_text nonce db student ticket_id now =
     (case own_active_ticket db student ticket_id of
        Inl e \<Rightarrow> Inl e
      | Inr t \<Rightarrow> Inr (build_qr sign (tk_qr_private_key t)
          \<lparr>qp_ticket_id = uuid_text (tk_id t), qp_passenger_count = 1,
           qp_time_slice = current_slice now, qp_nonce = nonce\<rparr>))"

record manifest_row =
  mf_ticket_id :: uuid
  mf_qr_public_key :: string
  mf_student_name :: string
  mf_student_id_no :: string
  mf_rides_remaining :: "int option"
  mf_valid_to :: instant
  mf_status :: ticket_status

definition manifest_row_of :: "database \<Rightarrow> ticket \<Rightarrow> manifest_row option" where
  "manifest_row_of db t =
     (case get_student db (tk_student_id t) of
        None \<Rightarrow> None
      | Some s \<Rightarrow> (case get_user db (st_user_id s) of
          None \<Rightarrow> None
        | Some u \<Rightarrow> Some \<lparr>mf_ticket_id = tk_id t, mf_qr_public_key = tk_qr_public_key t,
            mf_student_name = us_name u, mf_student_id_no = st_student_id_no s,
            mf_rides_remaining = tk_rides_remaining t, mf_valid_to = tk_valid_to t,
            mf_status = tk_status t\<rparr>))"

definition active_manifest :: "database \<Rightarrow> instant \<Rightarrow> nat \<Rightarrow> manifest_row list" where
  "active_manifest db now limit =
     take limit (sort_key mf_valid_to
       (List.map_filter (manifest_row_of db)
         (filter (\<lambda>t. tk_status t = Ticket_active \<and> now \<le> tk_valid_to t) (db_tickets db))))"


section \<open>Reading the operations\<close>

text \<open>The undisturbed request, spelled out.\<close>

lemma redeem_eq:
  "redeem vfy uuid_of plan new_id db code helper_id device_id redeemed_at trip_id now =
     (case ticket_for uuid_of db (hd (split_on field_sep code)) of
        Inl e \<Rightarrow> Inl e
      | Inr ticket \<Rightarrow>
     (case verify_qr vfy code (tk_qr_public_key ticket) now of
        Inl (InvalidQr reason) \<Rightarrow> Inl (RedemptionRejected reason)
      | Inr payload \<Rightarrow>
     (case check_valid_window ticket now of
        Some e \<Rightarrow> Inl e
      | None \<Rightarrow>
     (let seen = first_row plan (sightings db (qp_nonce payload));
          row = (\<lambda>flag. \<lparr>rd_id = new_id, rd_ticket_id = tk_id ticket, rd_trip_id = trip_id,
            rd_helper_id = helper_id, rd_helper_device_id = device_id, rd_nonce = qp_nonce payload,
            rd_passenger_count = qp_passenger_count payload, rd_redeemed_at = redeemed_at,
            rd_synced_at = now, rd_flag = flag\<rparr>)
      in case seen of
        Some s \<Rightarrow>
          if rd_helper_device_id s = device_id then Inr (s, db)
          else Inr (row Flag_duplicate_suspect, stage_redemption db ticket (row Flag_duplicate_suspect))
      | None \<Rightarrow>
          (case check_first_sighting ticket (qp_passenger_count payload) of
             Some e \<Rightarrow> Inl e
           | None \<Rightarrow> Inr (row Flag_ok, stage_redemption db ticket (row Flag_ok)))))))"
  by (simp add: redeem_def redeem_amid_def)

lemma sync_item_eq:
  "sync_item vfy uuid_of helper_id env db item =
     (if \<not> (CODE_MIN_LEN \<le> length (ri_code item) \<and> length (ri_code item) \<le> CODE_MAX_LEN)
      then (Inr (rejected_result None ''malformed code''), db)
      else (case redeem vfy uuid_of (ie_plan env) (ie_new_id env) db (ri_code item) helper_id
               (ri_device_id item) (ri_redeemed_at item) (ri_trip_id item) (ie_now env) of
          Inl (RedemptionRejected reason) \<Rightarrow>
            (Inr (rejected_result (scanned_nonce (ri_code item)) reason), db)
        | Inr (r, staged) \<Rightarrow>
            (case commit staged of
               Inl IntegrityError \<Rightarrow>
                 (Inr \<lparr>rr_nonce = scanned_nonce (ri_code item), rr_accepted = True,
                   rr_reason = ''already recorded'', rr_ticket_id = None,
                   rr_rides_remaining = None, rr_flag = None\<rparr>, db)
             | Inl DataError \<Rightarrow> (Inl DataError, db)
             | Inr db' \<Rightarrow>
                 (Inr \<lparr>rr_nonce = Some (rd_nonce r), rr_accepted = True, rr_reason = ''recorded'',
                   rr_ticket_id = Some (rd_ticket_id r),
                   rr_rides_remaining = (case get_ticket db' (rd_ticket_id r) of
                     None \<Rightarrow> None | Some t \<Rightarrow> tk_rides_remaining t),
                   rr_flag = Some (rd_flag r)\<rparr>, db'))))"
  by (simp add: sync_item_def sync_item_amid_def redeem_def)

lemma ticket_for_InrD:
  "ticket_for uuid_of db s = Inr t \<Longrightarrow> \<exists>i. uuid_of s = Some i \<and> get_ticket db i = Some t"
  by (auto simp: ticket_for_def split: option.splits)

lemma check_valid_window_None:
  "check_valid_window t now = None \<longleftrightarrow>
     tk_status t \<notin> {Ticket_revoked, Ticket_suspended, Ticket_expired} \<and>
     tk_valid_from t \<le> now \<and> now \<le> tk_valid_to t"
  by (auto simp: check_valid_window_def)

lemma check_first_sighting_None:
  "check_first_sighting t n = None \<longleftrightarrow>
     (case tk_rides_remaining t of None \<Rightarrow> True | Some left \<Rightarrow> 0 < left \<and> n \<le> left)"
  by (auto simp: check_first_sighting_def check_rides_cover_group_def split: option.splits)

lemma tk_id_deduct [simp]: "tk_id (deduct_ride n t) = tk_id t"
  by (simp add: deduct_ride_def Let_def split: option.split)

lemma deduct_ride_frame [simp]:
  "tk_order_id (deduct_ride n t) = tk_order_id t"
  "tk_student_id (deduct_ride n t) = tk_student_id t"
  "tk_product_id (deduct_ride n t) = tk_product_id t"
  "tk_rides_total (deduct_ride n t) = tk_rides_total t"
  "tk_valid_to (deduct_ride n t) = tk_valid_to t"
  "tk_valid_from (deduct_ride n t) = tk_valid_from t"
  "tk_qr_public_key (deduct_ride n t) = tk_qr_public_key t"
  "tk_qr_private_key (deduct_ride n t) = tk_qr_private_key t"
  by (simp_all add: deduct_ride_def Let_def split: option.split)

lemma flush_ticket_frame [simp]:
  "tk_id (flush_ticket a b t) = tk_id t"
  "tk_order_id (flush_ticket a b t) = tk_order_id t"
  "tk_student_id (flush_ticket a b t) = tk_student_id t"
  "tk_product_id (flush_ticket a b t) = tk_product_id t"
  "tk_rides_total (flush_ticket a b t) = tk_rides_total t"
  "tk_valid_from (flush_ticket a b t) = tk_valid_from t"
  "tk_valid_to (flush_ticket a b t) = tk_valid_to t"
  "tk_qr_public_key (flush_ticket a b t) = tk_qr_public_key t"
  "tk_qr_private_key (flush_ticket a b t) = tk_qr_private_key t"
  by (simp_all add: flush_ticket_def)

text \<open>Where the row is still the ticket that was read, the whole of the deduction lands on it.\<close>

lemma flush_ticket_self: "flush_ticket t (deduct_ride n t) t = deduct_ride n t"
  by (cases t) (simp add: flush_ticket_def deduct_ride_def Let_def split: option.split)

lemma stage_fresh:
  assumes "distinct (map tk_id (db_tickets db))" "t \<in> set (db_tickets db)" "rd_flag r = Flag_ok"
  shows "db_tickets (stage_redemption db t r) = row_edit tk_id (tk_id t) (deduct_ride (rd_passenger_count r)) (db_tickets db)"
  using assms(3) row_edit_const [OF assms(1,2), of "flush_ticket t (deduct_ride (rd_passenger_count r) t)"]
    row_edit_const [OF assms(1,2), of "deduct_ride (rd_passenger_count r)"]
  by (simp add: stage_redemption_def flush_ticket_self)

lemma stage_frame:
  "stage_redemption db t r = db\<lparr>db_redemptions := db_redemptions db @ [r], db_tickets := db_tickets (stage_redemption db t r)\<rparr>"
  by (simp add: stage_redemption_def)

lemma stage_redemption_redemptions [simp]:
  "db_redemptions (stage_redemption db t r) = db_redemptions db @ [r]"
  by (simp add: stage_redemption_def)

lemma stage_redemption_orders [simp]: "db_orders (stage_redemption db t r) = db_orders db"
  by (simp add: stage_redemption_def)

lemma sightings_iff: "r \<in> set (sightings db n) \<longleftrightarrow> r \<in> set (db_redemptions db) \<and> rd_nonce r = n"
  by (auto simp: sightings_def)

text \<open>The three ways a code is accepted: this device's own row again, a duplicate, a first sighting.\<close>

lemma redeem_InrE:
  assumes "redeem vfy uuid_of plan new_id db code hid dev ts trip now = Inr (r, db')"
  obtains (resync) "r \<in> set (db_redemptions db)" "rd_helper_device_id r = dev" "db' = db"
      "\<exists>ticket payload. ticket_for uuid_of db (hd (split_on field_sep code)) = Inr ticket \<and>
         verify_qr vfy code (tk_qr_public_key ticket) now = Inr payload \<and>
         check_valid_window ticket now = None \<and> rd_nonce r = qp_nonce payload"
  | (recorded) ticket payload where
      "ticket_for uuid_of db (hd (split_on field_sep code)) = Inr ticket"
      "verify_qr vfy code (tk_qr_public_key ticket) now = Inr payload"
      "check_valid_window ticket now = None"
      "rd_ticket_id r = tk_id ticket" "rd_nonce r = qp_nonce payload" "rd_helper_device_id r = dev"
      "rd_passenger_count r = qp_passenger_count payload"
      "rd_flag r = (if sightings db (qp_nonce payload) = [] then Flag_ok else Flag_duplicate_suspect)"
      "sightings db (qp_nonce payload) = [] \<Longrightarrow>
         check_first_sighting ticket (qp_passenger_count payload) = None"
      "db' = stage_redemption db ticket r"
proof -
  from assms obtain ticket payload where
    t: "ticket_for uuid_of db (hd (split_on field_sep code)) = Inr ticket" and
    v: "verify_qr vfy code (tk_qr_public_key ticket) now = Inr payload" and
    w: "check_valid_window ticket now = None"
    by (auto simp: redeem_eq split: sum.splits option.splits invalid_qr.splits)
  show ?thesis
  proof (cases "first_row plan (sightings db (qp_nonce payload))")
    case None
    then show ?thesis
      using recorded [OF t v w] assms t v w
      by (auto simp: redeem_eq Let_def split: option.splits)
  next
    case (Some s)
    then have s: "s \<in> set (db_redemptions db)" "sightings db (qp_nonce payload) \<noteq> []"
      "rd_nonce s = qp_nonce payload"
      by (auto dest: first_row_SomeD simp: sightings_iff)
    show ?thesis
    proof (cases "rd_helper_device_id s = dev")
      case True
      with Some assms t v w s show ?thesis
        by (intro resync) (auto simp: redeem_eq Let_def)
    next
      case False
      with Some assms t v w s show ?thesis
        by (intro recorded [OF t v w]) (auto simp: redeem_eq Let_def)
    qed
  qed
qed

section \<open>The accounting invariant\<close>

text \<open>
  The rides a ticket was sold with are the rides it has left plus the passengers of its
  first sightings; duplicates never count. A pass without a count has none.
\<close>

definition rides_used :: "database \<Rightarrow> uuid \<Rightarrow> int" where
  "rides_used db i =
     sum_by (\<lambda>r. rd_ticket_id r = i \<and> rd_flag r = Flag_ok) rd_passenger_count (db_redemptions db)"

definition ride_account :: "database \<Rightarrow> ticket \<Rightarrow> bool" where
  "ride_account db t =
     (case (tk_rides_total t, tk_rides_remaining t) of
        (None, None) \<Rightarrow> True
      | (Some sold, Some left) \<Rightarrow> 0 \<le> left \<and> sold = left + rides_used db (tk_id t)
      | _ \<Rightarrow> False)"

definition rides_ok :: "database \<Rightarrow> bool" where
  "rides_ok db \<longleftrightarrow> list_all (ride_account db) (db_tickets db)"

definition counted_once :: "database \<Rightarrow> bool" where
  "counted_once db \<longleftrightarrow> unique_on (\<lambda>r. rd_flag r = Flag_ok) rd_nonce (db_redemptions db)"

definition boarding_inv :: "database \<Rightarrow> bool" where
  "boarding_inv db \<longleftrightarrow> db_ok db \<and> rides_ok db \<and> counted_once db \<and>
     list_all (\<lambda>r. 1 \<le> rd_passenger_count r \<and> rd_passenger_count r \<le> MAX_PASSENGERS) (db_redemptions db)"

lemma db_ok_tickets_distinct: "db_ok db \<Longrightarrow> distinct (map tk_id (db_tickets db))"
  by (simp add: db_ok_def tickets_ok_def)

lemma rides_used_stage:
  "rides_used (stage_redemption db t r) i =
     rides_used db i + (if rd_ticket_id r = i \<and> rd_flag r = Flag_ok then rd_passenger_count r else 0)"
  by (simp add: rides_used_def)

lemma ride_account_deduct:
  assumes "ride_account db t" "check_first_sighting t n = None"
    "rides_used db' (tk_id t) = rides_used db (tk_id t) + n"
  shows "ride_account db' (deduct_ride n t)"
  using assms
  by (auto simp: ride_account_def check_first_sighting_None deduct_ride_def Let_def max_def
      split: option.splits)

lemma ride_account_cong:
  "rides_used db' (tk_id t) = rides_used db (tk_id t) \<Longrightarrow> ride_account db' t = ride_account db t"
  by (simp add: ride_account_def split: option.split)

lemma ride_account_status [simp]: "ride_account db (t\<lparr>tk_status := s\<rparr>) = ride_account db t"
  by (simp add: ride_account_def split: option.split)

lemma rides_ok_stage:
  assumes ok: "rides_ok db" and dist: "distinct (map tk_id (db_tickets db))"
    and mem: "ticket \<in> set (db_tickets db)" and rid: "rd_ticket_id r = tk_id ticket"
    and flag: "rd_flag r = Flag_ok \<Longrightarrow> check_first_sighting ticket (rd_passenger_count r) = None"
  shows "rides_ok (stage_redemption db ticket r)"
proof (cases "rd_flag r = Flag_ok")
  case False
  then have "ride_account (stage_redemption db ticket r) t = ride_account db t" for t
    by (intro ride_account_cong) (simp add: rides_used_stage)
  moreover from False have "db_tickets (stage_redemption db ticket r) = db_tickets db"
    by (simp add: stage_redemption_def)
  ultimately show ?thesis using ok by (simp add: rides_ok_def list_all_iff)
next
  case True
  let ?db = "stage_redemption db ticket r"
  have "ride_account ?db t" if "t \<in> set (db_tickets ?db)" for t
  proof -
    from that True have "t \<in> set (row_edit tk_id (tk_id ticket) (deduct_ride (rd_passenger_count r)) (db_tickets db))"
      by (simp add: stage_fresh [OF dist mem])
    then show ?thesis
    proof (cases rule: in_row_editE)
      case (1 t0)
      then have "t0 = ticket"
        using dist mem by (auto simp: distinct_map inj_on_def)
      moreover have "ride_account db ticket" using ok mem by (simp add: rides_ok_def list_all_iff)
      ultimately show ?thesis
        using 1 True flag rid by (auto intro!: ride_account_deduct simp: rides_used_stage)
    next
      case 2
      then have "ride_account db t" using ok by (simp add: rides_ok_def list_all_iff)
      moreover have "ride_account ?db t = ride_account db t"
        by (rule ride_account_cong) (use 2 rid in \<open>simp add: rides_used_stage\<close>)
      ultimately show ?thesis by simp
    qed
  qed
  then show ?thesis by (simp add: rides_ok_def list_all_iff)
qed

lemma counted_once_stage:
  assumes "counted_once db" "rd_flag r = Flag_ok \<Longrightarrow> sightings db (rd_nonce r) = []"
  shows "counted_once (stage_redemption db ticket r)"
  using assms
  by (auto simp: counted_once_def unique_on_snoc sightings_def filter_empty_conv)

text \<open>Whatever a successful \<open>redeem\<close> stages keeps the accounts, once the commit accepted it.\<close>

lemma redeem_boarding_inv:
  assumes "redeem vfy uuid_of plan new_id db code hid dev ts trip now = Inr (r, db')"
    and inv: "boarding_inv db" and "db_ok db'"
  shows "boarding_inv db'"
  using assms(1)
proof (cases rule: redeem_InrE)
  case resync
  with inv show ?thesis by simp
next
  case (recorded ticket payload)
  from recorded(1) have mem: "ticket \<in> set (db_tickets db)"
    by (auto dest!: ticket_for_InrD row_get_SomeD)
  have "rides_ok db'"
    unfolding recorded(10)
    using inv recorded mem
    by (intro rides_ok_stage)
      (auto simp: boarding_inv_def db_ok_tickets_distinct split: if_splits)
  moreover have "counted_once db'"
    unfolding recorded(10)
    using inv recorded by (intro counted_once_stage) (auto simp: boarding_inv_def split: if_splits)
  moreover have "1 \<le> rd_passenger_count r \<and> rd_passenger_count r \<le> MAX_PASSENGERS"
    using verify_qr_count [OF recorded(2)] recorded(7) by simp
  ultimately show ?thesis
    using inv assms(3) recorded by (simp add: boarding_inv_def)
qed

lemma sync_item_boarding_inv [inv_intros]:
  assumes "boarding_inv db" "sync_item vfy uuid_of hid env db item = (res, db')"
  shows "boarding_inv db'"
  using assms
  by (auto simp: sync_item_eq split: if_splits sum.splits redemption_rejected.splits db_error.splits
      dest: redeem_boarding_inv)

section \<open>Batches\<close>

lemma redeem_checked:
  assumes "redeem vfy uuid_of plan new_id db code hid dev ts trip now = Inr (r, db')"
  shows "\<exists>ticket payload. ticket_for uuid_of db (hd (split_on field_sep code)) = Inr ticket \<and>
    verify_qr vfy code (tk_qr_public_key ticket) now = Inr payload \<and>
    check_valid_window ticket now = None \<and> rd_nonce r = qp_nonce payload"
  using assms by (cases rule: redeem_InrE) auto

lemma redeem_row:
  assumes "redeem vfy uuid_of plan new_id db code hid dev ts trip now = Inr (r, db')"
  shows "r \<in> set (db_redemptions db') \<and> rd_helper_device_id r = dev \<and>
    scanned_nonce code = Some (rd_nonce r)"
proof -
  from redeem_checked [OF assms] have "scanned_nonce code = Some (rd_nonce r)"
    by (auto simp: verify_qr_iff scanned_nonce_def)
  with assms show ?thesis by (cases rule: redeem_InrE) auto
qed

lemma sync_keeps_inv:
  "boarding_inv db \<Longrightarrow> sync_redemptions vfy uuid_of hid db items = (answer, db') \<Longrightarrow>
     boarding_inv db' \<and> (\<forall>results. answer = Inr results \<longrightarrow> length results = length items)"
proof (induction items arbitrary: db db' answer)
  case (Cons x items)
  obtain env item where x: "x = (env, item)" by (cases x)
  obtain res db1 where one: "sync_item vfy uuid_of hid env db item = (res, db1)"
    by (metis surj_pair)
  have inv: "boarding_inv db1" using sync_item_boarding_inv [OF Cons.prems(1) one] .
  obtain rest db2 where more: "sync_redemptions vfy uuid_of hid db1 items = (rest, db2)"
    by (metis surj_pair)
  from Cons.IH [OF inv more] show ?case
    using Cons.prems(2) inv by (auto simp: x one more split: sum.splits)
qed auto

lemma sync_append:
  "sync_redemptions vfy uuid_of hid db (xs @ ys) =
     (case sync_redemptions vfy uuid_of hid db xs of
        (Inl e, db1) \<Rightarrow> (Inl e, db1)
      | (Inr rs, db1) \<Rightarrow>
          (case sync_redemptions vfy uuid_of hid db1 ys of
             (Inl e, db2) \<Rightarrow> (Inl e, db2)
           | (Inr qs, db2) \<Rightarrow> (Inr (rs @ qs), db2)))"
  by (induction xs arbitrary: db) (auto split: prod.splits sum.splits)

lemma refused_item_writes_nothing:
  "sync_item vfy uuid_of hid env db item = (Inr res, db') \<Longrightarrow> \<not> rr_accepted res \<Longrightarrow> db' = db"
  by (auto simp: sync_item_eq split: if_splits sum.splits redemption_rejected.splits db_error.splits)

text \<open>A row of this device and nonce makes every further report of them write nothing.\<close>

lemma known_row_writes_nothing:
  assumes "r \<in> set (db_redemptions db)" "rd_helper_device_id r = ri_device_id item"
    and nonce: "scanned_nonce (ri_code item) = Some (rd_nonce r)"
  shows "snd (sync_item vfy uuid_of hid env db item) = db"
proof (cases "redeem vfy uuid_of (ie_plan env) (ie_new_id env) db (ri_code item) hid
    (ri_device_id item) (ri_redeemed_at item) (ri_trip_id item) (ie_now env)")
  case (Inl e)
  then show ?thesis by (cases e) (simp add: sync_item_eq)
next
  case (Inr rd)
  obtain q staged where rd: "rd = (q, staged)" by (cases rd)
  note red = Inr [unfolded rd]
  from red show ?thesis
  proof (cases rule: redeem_InrE)
    case resync
    with red show ?thesis
      by (auto simp: sync_item_eq split: sum.splits db_error.splits)
  next
    case (recorded ticket payload)
    then have "(rd_helper_device_id q, rd_nonce q) = (rd_helper_device_id r, rd_nonce r)"
      using redeem_row [OF red] nonce assms(2) by simp
    then have "\<not> distinct (map (\<lambda>r. (rd_helper_device_id r, rd_nonce r)) (db_redemptions staged))"
      using recorded(10) assms(1) by (auto simp: image_iff intro!: bexI [of _ r])
    then have "\<not> db_ok staged" by (simp add: db_ok_def redemptions_ok_def)
    with red show ?thesis
      by (auto simp: sync_item_eq split: sum.split db_error.split)
  qed
qed

section \<open>A boarding in the concrete world\<close>

definition demo_redemption :: redemption where
  "demo_redemption = \<lparr>rd_id = 1001, rd_ticket_id = 101, rd_trip_id = Some 71, rd_helper_id = 21,
     rd_helper_device_id = ''dev-1'', rd_nonce = ''n1'', rd_passenger_count = 2,
     rd_redeemed_at = demo_now, rd_synced_at = demo_now, rd_flag = Flag_ok\<rparr>"

definition demo_boarded :: database where
  "demo_boarded = demo_db\<lparr>db_redemptions := [demo_redemption],
     db_tickets := [demo_ticket\<lparr>tk_rides_remaining := Some 8\<rparr>]\<rparr>"

definition demo_item :: redemption_in where
  "demo_item = \<lparr>ri_code = demo_code, ri_device_id = ''dev-1'', ri_redeemed_at = demo_now,
     ri_trip_id = Some 71\<rparr>"

definition demo_env :: item_env where
  "demo_env = \<lparr>ie_plan = 0, ie_new_id = 1001, ie_now = demo_now\<rparr>"

definition demo_result :: redemption_result where
  "demo_result = \<lparr>rr_nonce = Some ''n1'', rr_accepted = True, rr_reason = ''recorded'',
     rr_ticket_id = Some 101, rr_rides_remaining = Some 8, rr_flag = Some Flag_ok\<rparr>"

lemma demo_redeem_steps:
  "ticket_for demo_uuid_of demo_db (hd (split_on field_sep demo_code)) = Inr demo_ticket"
  "verify_qr demo_vfy demo_code (tk_qr_public_key demo_ticket) demo_now = Inr demo_payload"
  "check_valid_window demo_ticket demo_now = None"
  "check_first_sighting demo_ticket (qp_passenger_count demo_payload) = None"
  "sightings demo_db n = []"
proof -
  show "ticket_for demo_uuid_of demo_db (hd (split_on field_sep demo_code)) = Inr demo_ticket"
    by (simp add: ticket_for_def demo_head demo_uuid_of_def demo_defs)
  have k: "tk_qr_public_key demo_ticket = demo_key" by (simp add: demo_ticket_def)
  show "verify_qr demo_vfy demo_code (tk_qr_public_key demo_ticket) demo_now = Inr demo_payload"
    unfolding k by (rule demo_verify)
qed (simp_all add: check_valid_window_def demo_ticket_def check_first_sighting_def
    check_rides_cover_group_def sightings_def demo_db_def demo_payload_def)

lemma demo_redeem_trip:
  "redeem demo_vfy demo_uuid_of 0 1001 demo_db demo_code 21 ''dev-1'' demo_now trip demo_now
     = (let r = demo_redemption\<lparr>rd_trip_id := trip\<rparr> in Inr (r, stage_redemption demo_db demo_ticket r))"
  unfolding redeem_eq demo_redeem_steps sum.case
  by (simp add: demo_redeem_steps(4,5) demo_redemption_def Let_def)
    (simp add: demo_ticket_def demo_payload_def)

lemma demo_redeem:
  "redeem demo_vfy demo_uuid_of 0 1001 demo_db demo_code 21 ''dev-1'' demo_now (Some 71) demo_now
     = Inr (demo_redemption, demo_boarded)"
  unfolding demo_redeem_trip Let_def
  by (simp add: stage_redemption_def flush_ticket_def deduct_ride_def demo_redemption_def demo_boarded_def
      demo_db_def demo_ticket_def)

lemma demo_boarded_ok: "db_ok demo_boarded"
  by (simp add: db_ok_defs demo_boarded_def demo_redemption_def demo_defs unique_on_def fk_opt_def)

lemma demo_sync_item:
  "sync_item demo_vfy demo_uuid_of 21 demo_env demo_db demo_item = (Inr demo_result, demo_boarded)"
  using demo_redeem
  by (simp add: sync_item_eq demo_item_def demo_env_def demo_code_length CODE_MIN_LEN_def
      CODE_MAX_LEN_def demo_boarded_ok)
    (simp add: demo_result_def demo_boarded_def demo_redemption_def demo_defs)

lemma demo_inv: "boarding_inv demo_db"
  by (simp add: boarding_inv_def demo_db_ok rides_ok_def counted_once_def)
    (simp add: ride_account_def rides_used_def demo_defs)

section \<open>Properties\<close>

text \<open>
  C18. A batch of any length keeps the books: after it every ticket still satisfies
  rides sold = rides left + passengers of its first sightings with none negative, no nonce is
  counted twice, every row has 1 to 60 passengers, the constraints hold, and when the request
  is answered every submitted item has exactly one answer.
\<close>

theorem sync_keeps_accounts:
  assumes "boarding_inv db" "sync_redemptions vfy uuid_of hid db items = (answer, db')"
  shows "boarding_inv db' \<and> (\<forall>results. answer = Inr results \<longrightarrow> length results = length items)"
  using assms by (rule sync_keeps_inv)

theorem sync_keeps_accounts_witness:
  "boarding_inv demo_boarded \<and> length [demo_result] = length [(demo_env, demo_item)]"
  using sync_keeps_accounts [OF demo_inv, of demo_vfy demo_uuid_of 21 "[(demo_env, demo_item)]"]
  by (simp add: demo_sync_item)

text \<open>
  C26. A refused item costs only itself: taking it out of the batch changes neither the
  answers to the other items nor the database the batch ends with.
\<close>

theorem refused_item_is_isolated:
  assumes "sync_redemptions vfy uuid_of hid db xs = (Inr rs, db1)"
    and "sync_item vfy uuid_of hid env db1 item = (Inr res, db2)" and "\<not> rr_accepted res"
    and "sync_redemptions vfy uuid_of hid db (xs @ ys) = (Inr (rs @ qs), db3)"
  shows "sync_redemptions vfy uuid_of hid db (xs @ (env, item) # ys) = (Inr (rs @ res # qs), db3)"
  using assms refused_item_writes_nothing [OF assms(2,3)]
  by (auto simp: sync_append split: prod.splits sum.splits)

theorem refused_item_is_isolated_witness:
  "sync_redemptions demo_vfy demo_uuid_of 21 demo_db
     ([(demo_env, demo_item)] @ (demo_env, demo_item\<lparr>ri_code := ''poster''\<rparr>) # [])
   = (Inr ([demo_result] @ rejected_result None ''malformed code'' # []), demo_boarded)"
  by (rule refused_item_is_isolated)
    (auto simp: demo_sync_item, simp_all add: sync_item_eq CODE_MIN_LEN_def rejected_result_def)

text \<open>
  Reporting again a boarding that was answered with its row writes nothing, at whatever later time, in
  whatever order the rows are delivered and under whatever fresh id: a retried outbox never
  charges twice.
\<close>

theorem recorded_item_is_final:
  assumes "sync_item vfy uuid_of hid env db item = (Inr res, db')" "rr_flag res = Some flag"
  shows "snd (sync_item vfy uuid_of hid env' db' item) = db'"
proof -
  from assms obtain r where
    "redeem vfy uuid_of (ie_plan env) (ie_new_id env) db (ri_code item) hid
      (ri_device_id item) (ri_redeemed_at item) (ri_trip_id item) (ie_now env) = Inr (r, db')"
    by (auto simp: sync_item_eq rejected_result_def split: if_splits sum.splits
        redemption_rejected.splits db_error.splits)
  from redeem_row [OF this] show ?thesis by (auto intro: known_row_writes_nothing)
qed

theorem recorded_item_is_final_witness:
  "snd (sync_item demo_vfy demo_uuid_of 21 \<lparr>ie_plan = 7, ie_new_id = 1002, ie_now = demo_now + second\<rparr>
     demo_boarded demo_item) = demo_boarded"
  by (rule recorded_item_is_final [OF demo_sync_item]) (simp add: demo_result_def)



text \<open>
  Nothing is recorded for a bad ticket: an accepted code names an existing ticket,
  verifies under that ticket's own public key at the server's clock, and at that moment the
  ticket is inside its validity window and neither revoked, suspended nor expired.
\<close>

theorem boarding_needs_good_ticket:
  assumes "redeem vfy uuid_of plan new_id db code hid dev ts trip now = Inr (r, db')"
  shows "\<exists>i t p. uuid_of (hd (split_on field_sep code)) = Some i \<and> get_ticket db i = Some t \<and>
    verify_qr vfy code (tk_qr_public_key t) now = Inr p \<and>
    tk_status t \<in> {Ticket_active, Ticket_exhausted} \<and> tk_valid_from t \<le> now \<and> now \<le> tk_valid_to t"
proof -
  from redeem_checked [OF assms] obtain t p where
    "ticket_for uuid_of db (hd (split_on field_sep code)) = Inr t" and
    v: "verify_qr vfy code (tk_qr_public_key t) now = Inr p" and
    w: "check_valid_window t now = None" by blast
  then obtain i where "uuid_of (hd (split_on field_sep code)) = Some i" "get_ticket db i = Some t"
    by (auto dest: ticket_for_InrD)
  then show ?thesis
    using v w by (cases "tk_status t") (auto simp: check_valid_window_None)
qed

theorem boarding_needs_good_ticket_witness:
  "\<exists>i t p. demo_uuid_of (hd (split_on field_sep demo_code)) = Some i \<and> get_ticket demo_db i = Some t \<and>
    verify_qr demo_vfy demo_code (tk_qr_public_key t) demo_now = Inr p \<and>
    tk_status t \<in> {Ticket_active, Ticket_exhausted} \<and> tk_valid_from t \<le> demo_now \<and>
    demo_now \<le> tk_valid_to t"
  by (rule boarding_needs_good_ticket [OF demo_redeem])

lemma db_ok_stage:
  assumes "db_ok db" "rd_id r \<notin> rd_id ` set (db_redemptions db)" "sightings db (rd_nonce r) = []"
    "length (rd_nonce r) \<le> 64"
    "get_ticket db (rd_ticket_id r) = Some t" "fk_opt tr_id (db_trips db) (rd_trip_id r)"
    "get_helper db (rd_helper_id r) \<noteq> None"
  shows "db_ok (stage_redemption db t r)"
proof -
  let ?db = "db\<lparr>db_redemptions := db_redemptions db @ [r]\<rparr>"
  have ok: "db_ok ?db"
    using assms by (intro db_ok_add_redemption) (auto simp: sightings_def filter_empty_conv)
  then have "db_ok (?db\<lparr>db_tickets := row_edit tk_id (tk_id t) (flush_ticket t x) (db_tickets ?db)\<rparr>)" for x
    by (rule db_ok_edit_ticket [rotated 4]) simp_all
  with ok show ?thesis by (simp add: stage_redemption_def)
qed

text \<open>
  An honest passenger boards: a code freshly built with the ticket's own key, for an
  active in-date ticket with enough rides and a nonce never seen before, reported by a known
  helper for a known trip within a slice of its making, is accepted, recorded as clean and
  answered with the rides that are left.
\<close>

theorem fresh_code_boards:
  assumes "db_ok db" "key_pair sign vfy priv pub" "payload_ok p"
    and code: "build_qr sign (b64_encode priv) p = Inr (ri_code item)"
    and slice: "\<bar>current_slice (ie_now env) - qp_time_slice p\<bar> \<le> 1"
    and len: "CODE_MIN_LEN \<le> length (ri_code item)" "length (ri_code item) \<le> CODE_MAX_LEN"
    and t: "uuid_of (qp_ticket_id p) = Some i" "get_ticket db i = Some t"
      "tk_qr_public_key t = b64_encode pub" "tk_status t = Ticket_active"
      "tk_valid_from t \<le> ie_now env" "ie_now env \<le> tk_valid_to t"
    and rides: "\<And>left. tk_rides_remaining t = Some left \<Longrightarrow> qp_passenger_count p \<le> left"
    and width: "length (qp_nonce p) \<le> NONCE_WIDTH"
    and new: "sightings db (qp_nonce p) = []" "ie_new_id env \<notin> rd_id ` set (db_redemptions db)"
    and fk: "fk_opt tr_id (db_trips db) (ri_trip_id item)" "get_helper db hid \<noteq> None"
  shows "fst (sync_item vfy uuid_of hid env db item) = Inr
    \<lparr>rr_nonce = Some (qp_nonce p), rr_accepted = True, rr_reason = ''recorded'',
     rr_ticket_id = Some i,
     rr_rides_remaining = map_option (\<lambda>left. left - qp_passenger_count p) (tk_rides_remaining t),
     rr_flag = Some Flag_ok\<rparr>"
proof -
  have v: "verify_qr vfy (ri_code item) (tk_qr_public_key t) (ie_now env) = Inr p"
    using built_code_verifies [OF assms(2,3), where now = "ie_now env"] code slice t(3) by auto
  have tid: "tk_id t = i" using t(2) by (auto dest: row_get_SomeD)
  have head: "ticket_for uuid_of db (hd (split_on field_sep (ri_code item))) = Inr t"
    using v t by (auto simp: verify_qr_iff ticket_for_def dest!: parse_qr_InrD(5))
  have n: "1 \<le> qp_passenger_count p" using verify_qr_count [OF v] by simp
  have first: "check_first_sighting t (qp_passenger_count p) = None"
    using rides n by (force simp: check_first_sighting_None split: option.split)
  have win: "check_valid_window t (ie_now env) = None" using t by (simp add: check_valid_window_None)
  define r where "r = \<lparr>rd_id = ie_new_id env, rd_ticket_id = tk_id t, rd_trip_id = ri_trip_id item,
    rd_helper_id = hid, rd_helper_device_id = ri_device_id item, rd_nonce = qp_nonce p,
    rd_passenger_count = qp_passenger_count p, rd_redeemed_at = ri_redeemed_at item,
    rd_synced_at = ie_now env, rd_flag = Flag_ok\<rparr>"
  have red: "redeem vfy uuid_of (ie_plan env) (ie_new_id env) db (ri_code item) hid
      (ri_device_id item) (ri_redeemed_at item) (ri_trip_id item) (ie_now env)
      = Inr (r, stage_redemption db t r)"
    by (simp add: redeem_eq head v win new(1) first r_def)
  have "db_ok (stage_redemption db t r)"
    using assms(1) new t(2) fk tid width [unfolded NONCE_WIDTH_def] by (intro db_ok_stage) (simp_all add: r_def)
  moreover have "get_ticket (stage_redemption db t r) i = Some (deduct_ride (qp_passenger_count p) t)"
    using t(2) tid by (simp add: stage_redemption_def r_def row_get_row_edit flush_ticket_self)
  ultimately show ?thesis
    using red len n rides
    by (auto simp: sync_item_eq tid deduct_ride_def r_def split: option.split)
qed

theorem fresh_code_boards_witness:
  "fst (sync_item demo_vfy demo_uuid_of 21 demo_env demo_db demo_item) = Inr
    \<lparr>rr_nonce = Some (qp_nonce demo_payload), rr_accepted = True, rr_reason = ''recorded'',
     rr_ticket_id = Some 101,
     rr_rides_remaining = map_option (\<lambda>left. left - qp_passenger_count demo_payload)
       (tk_rides_remaining demo_ticket),
     rr_flag = Some Flag_ok\<rparr>"
proof (rule fresh_code_boards [OF demo_db_ok demo_key_pair demo_payload_ok])
  show "build_qr demo_sign (b64_encode ''k'') demo_payload = Inr (ri_code demo_item)"
    using demo_build by (simp add: demo_item_def demo_key_def)
  show "\<bar>current_slice (ie_now demo_env) - qp_time_slice demo_payload\<bar> \<le> 1"
    by (simp add: demo_env_def demo_slice) (simp add: demo_payload_def)
  show "get_ticket demo_db 101 = Some demo_ticket" by (simp add: demo_db_def, simp add: demo_ticket_def)
  show "tk_qr_public_key demo_ticket = b64_encode ''k''" by (simp add: demo_ticket_def demo_key_def)
qed (simp_all add: demo_item_def demo_env_def demo_code_length CODE_MIN_LEN_def CODE_MAX_LEN_def
    NONCE_WIDTH_def demo_payload_def demo_uuid_of_def demo_defs sightings_def fk_opt_def)

section \<open>What the code does with late, reused and misattributed reports\<close>

text \<open>
  A boarding that is synced late is lost: an item whose code names a slice that ended
  a full slice or more before the server's clock is refused and writes nothing, whatever the
  ticket and the moment of the scan, although the endpoint is for boardings accepted
  ``online or hours ago''.
\<close>

theorem late_sync_refused:
  assumes "parse_qr (ri_code item) = Inr (p, sig)"
    and late: "(qp_time_slice p + 2) * 30 * second \<le> ie_now env"
  shows "\<exists>res. sync_item vfy uuid_of hid env db item = (Inr res, db) \<and> \<not> rr_accepted res"
proof -
  have "\<not> \<bar>current_slice (ie_now env) - qp_time_slice p\<bar> \<le> SLICE_TOLERANCE"
  proof -
    have "qp_time_slice p + 2 \<le> current_slice (ie_now env)"
      using zdiv_mono1 [OF late, of "30 * second"]
      by (simp add: current_slice_def SLICE_SECONDS_def algebra_simps)
    then show ?thesis by (simp add: SLICE_TOLERANCE_def)
  qed
  then have "verify_qr vfy (ri_code item) k (ie_now env) \<noteq> Inr q" for k q
    using assms(1) by (auto simp: verify_qr_iff)
  then have "redeem vfy uuid_of plan nid db (ri_code item) hid dev ts trip (ie_now env) \<noteq> Inr x"
    for plan nid dev ts trip x
    by (cases x) (auto dest!: redeem_checked)
  then show ?thesis
    by (auto simp: sync_item_eq rejected_result_def split: sum.split redemption_rejected.split)
qed

theorem late_sync_refused_witness:
  "\<exists>res. sync_item demo_vfy demo_uuid_of 21 (demo_env\<lparr>ie_now := demo_now + hour\<rparr>) demo_db demo_item
     = (Inr res, demo_db) \<and> \<not> rr_accepted res"
  by (rule late_sync_refused [where p = demo_payload and sig = "''k'' @ signing_bytes demo_payload"])
    (simp_all add: demo_item_def demo_parse, simp add: demo_payload_def demo_env_def demo_now_def)

text \<open>
  The nonce is looked up across all tickets: once this device has a row with a
  nonce, every genuine code with that nonce, of any good ticket, is answered as recorded,
  while nothing is recorded and no ride is taken, however many passengers it is signed for.
\<close>

theorem reused_nonce_boards_free:
  assumes "db_ok db" "ticket_for uuid_of db (hd (split_on field_sep (ri_code item))) = Inr t"
    and "verify_qr vfy (ri_code item) (tk_qr_public_key t) (ie_now env) = Inr p"
    and "check_valid_window t (ie_now env) = None"
    and seen: "sightings db (qp_nonce p) = [r]" "rd_helper_device_id r = ri_device_id item"
    and len: "CODE_MIN_LEN \<le> length (ri_code item)" "length (ri_code item) \<le> CODE_MAX_LEN"
  shows "\<exists>res. sync_item vfy uuid_of hid env db item = (Inr res, db) \<and> rr_accepted res \<and>
    rr_reason res = ''recorded'' \<and> rr_ticket_id res = Some (rd_ticket_id r)"
  using assms by (simp add: sync_item_eq redeem_eq)

definition other_ticket :: ticket where
  "other_ticket = demo_ticket\<lparr>tk_id := 102, tk_order_id := 92, tk_rides_total := Some 1,
     tk_rides_remaining := Some 1\<rparr>"

definition other_payload :: qr_payload where
  "other_payload = \<lparr>qp_ticket_id = ''t102'', qp_passenger_count = 40, qp_time_slice = 56666666,
     qp_nonce = ''n1''\<rparr>"

definition other_code :: string where
  "other_code = code_text (other_payload, ''k'' @ signing_bytes other_payload)"

definition two_tickets :: database where
  "two_tickets = demo_boarded\<lparr>db_tickets := db_tickets demo_boarded @ [other_ticket]\<rparr>"

lemma other_parse: "parse_qr other_code = Inr (other_payload, ''k'' @ signing_bytes other_payload)"
proof -
  have "\<bar>qp_time_slice other_payload\<bar> < 10 ^ max_str_digits"
    by (rule small_slice_prints) (simp add: other_payload_def)
  then show ?thesis
    unfolding other_code_def
    by (intro parse_code_text) (simp add: payload_ok_def, simp add: other_payload_def MAX_PASSENGERS_def)
qed

text \<open>Forty passengers on a one-ride ticket.\<close>

theorem reused_nonce_boards_free_witness:
  "let item = \<lparr>ri_code = other_code, ri_device_id = ''dev-1'', ri_redeemed_at = demo_now,
      ri_trip_id = Some 71\<rparr>
   in \<exists>res. sync_item demo_vfy demo_uuid_of 21 demo_env two_tickets item = (Inr res, two_tickets) \<and>
      rr_accepted res \<and> rr_reason res = ''recorded'' \<and>
      rr_ticket_id res = Some (rd_ticket_id demo_redemption)"
  unfolding Let_def
proof (rule reused_nonce_boards_free [where t = other_ticket and p = other_payload], simp_all)
  show "db_ok two_tickets"
    by (simp add: db_ok_defs two_tickets_def other_ticket_def demo_boarded_def demo_redemption_def
        demo_defs unique_on_def fk_opt_def)
  show "ticket_for demo_uuid_of two_tickets (hd (split_on field_sep other_code)) = Inr other_ticket"
    using parse_qr_InrD(5) [OF other_parse]
    by (auto simp: other_payload_def ticket_for_def demo_uuid_of_def two_tickets_def
        other_ticket_def demo_boarded_def demo_ticket_def)
  show "verify_qr demo_vfy other_code (tk_qr_public_key other_ticket) (ie_now demo_env) = Inr other_payload"
    by (simp add: verify_qr_iff other_parse other_ticket_def demo_ticket_def demo_vfy_def
        demo_env_def demo_slice SLICE_TOLERANCE_def) (simp add: other_payload_def)
  show "length other_code \<le> CODE_MAX_LEN" "CODE_MIN_LEN \<le> length other_code"
    by (simp_all add: other_code_def code_text_def other_payload_def signing_bytes_def int_str_def
        nat_str.simps length_b64_encode CODE_MAX_LEN_def CODE_MIN_LEN_def)
qed (simp_all add: check_valid_window_def other_ticket_def demo_ticket_def demo_env_def
    sightings_def two_tickets_def demo_boarded_def demo_redemption_def other_payload_def)

text \<open>
  A boarding reported for a trip the database does not know is dropped and answered
  as already recorded: the foreign key refuses the row, the handler takes every
  IntegrityError for this device's earlier report, and the device removes it from its queue.
\<close>

theorem unknown_trip_is_lost:
  assumes "redeem vfy uuid_of (ie_plan env) (ie_new_id env) db (ri_code item) hid
      (ri_device_id item) (ri_redeemed_at item) (Some i) (ie_now env) = Inr (r, staged)"
    and item: "ri_trip_id item = Some i" "get_trip db i = None" "sightings db (rd_nonce r) = []"
    and "db_ok db" "length (rd_nonce r) \<le> NONCE_WIDTH"
    and len: "CODE_MIN_LEN \<le> length (ri_code item)" "length (ri_code item) \<le> CODE_MAX_LEN"
  shows "(\<exists>res. sync_item vfy uuid_of hid env db item = (Inr res, db) \<and> rr_accepted res \<and>
      rr_reason res = ''already recorded'') \<and>
    (\<forall>x \<in> set (db_redemptions db). rd_nonce x \<noteq> rd_nonce r)"
proof -
  have none: "\<forall>x \<in> set (db_redemptions db). rd_nonce x \<noteq> rd_nonce r"
    using item(3) by (auto simp: sightings_def filter_empty_conv)
  from assms(1) have "\<not> db_ok staged"
  proof (cases rule: redeem_InrE)
    case resync
    with none show ?thesis by auto
  next
    case (recorded t p)
    have "rd_trip_id r = Some i"
      using assms(1) none recorded by (auto simp: redeem_eq Let_def split: option.splits if_splits
        dest: first_row_SomeD simp: sightings_iff)
    then show ?thesis
      using item(2) recorded(10) by (simp add: db_ok_defs fk_opt_def stage_redemption_def)
  qed
  moreover have "db_redemptions staged = db_redemptions db @ [r]"
    using assms(1)
  proof (cases rule: redeem_InrE)
    case resync
    with none show ?thesis by auto
  qed simp
  then have "list_all (\<lambda>r. length (rd_nonce r) \<le> 64) (db_redemptions staged)"
    using db_ok_nonces [OF assms(5)] assms(6) by (simp add: NONCE_WIDTH_def)
  ultimately have "commit staged = Inl IntegrityError" by (rule commit_refused)
  with assms(1) item len none show ?thesis by (simp add: sync_item_eq)
qed

theorem unknown_trip_is_lost_witness:
  "let item = demo_item\<lparr>ri_trip_id := Some 999\<rparr>
   in (\<exists>res. sync_item demo_vfy demo_uuid_of 21 demo_env demo_db item = (Inr res, demo_db) \<and>
        rr_accepted res \<and> rr_reason res = ''already recorded'') \<and>
      (\<forall>x \<in> set (db_redemptions demo_db). rd_nonce x \<noteq> rd_nonce demo_redemption)"
proof -
  let ?r = "demo_redemption\<lparr>rd_trip_id := Some 999\<rparr>"
  have "redeem demo_vfy demo_uuid_of 0 1001 demo_db demo_code 21 ''dev-1'' demo_now (Some 999) demo_now
      = Inr (?r, stage_redemption demo_db demo_ticket ?r)"
    unfolding demo_redeem_trip Let_def by simp
  then show ?thesis
    using unknown_trip_is_lost [of demo_vfy demo_uuid_of demo_env demo_db "demo_item\<lparr>ri_trip_id := Some 999\<rparr>" 21 999 ?r
        "stage_redemption demo_db demo_ticket ?r"]
    by (simp add: demo_item_def demo_env_def demo_code_length CODE_MIN_LEN_def CODE_MAX_LEN_def
        sightings_def demo_db_ok NONCE_WIDTH_def)
      (simp add: demo_db_def demo_trip_def demo_redemption_def)
qed

text \<open>
  One code can still block a whole outbox: a genuine code whose nonce is longer than
  its column ends the request with an uncaught database error, so the device gets no answer
  for any item, nothing after it is recorded, and resending the same batch fails at the same
  place for as long as the code verifies.
\<close>

theorem long_nonce_aborts_batch:
  assumes "redeem vfy uuid_of (ie_plan env) (ie_new_id env) db1 (ri_code item) hid
      (ri_device_id item) (ri_redeemed_at item) (ri_trip_id item) (ie_now env) = Inr (r, staged)"
    and long: "NONCE_WIDTH < length (rd_nonce r)" and "db_ok db1"
    and len: "CODE_MIN_LEN \<le> length (ri_code item)" "length (ri_code item) \<le> CODE_MAX_LEN"
    and before: "sync_redemptions vfy uuid_of hid db xs = (Inr rs, db1)"
  shows "sync_redemptions vfy uuid_of hid db (xs @ (env, item) # ys) = (Inl DataError, db1)"
proof -
  have "r \<notin> set (db_redemptions db1)"
    using db_ok_nonces [OF assms(3)] long by (auto simp: list_all_iff NONCE_WIDTH_def)
  then have "r \<in> set (db_redemptions staged)"
    using redeem_row [OF assms(1)] by simp
  then have "commit staged = Inl DataError"
    using long by (auto simp: commit_def list_all_iff not_le dest!: db_ok_nonces)
      (force simp: NONCE_WIDTH_def)+
  then have "sync_item vfy uuid_of hid env db1 item = (Inl DataError, db1)"
    using assms(1) len by (simp add: sync_item_eq)
  then show ?thesis using before by (simp add: sync_append)
qed

definition long_payload :: qr_payload where
  "long_payload = demo_payload\<lparr>qp_nonce := replicate 65 CHR ''n''\<rparr>"

definition long_code :: string where
  "long_code = code_text (long_payload, ''k'' @ signing_bytes long_payload)"

theorem long_nonce_aborts_batch_witness:
  "sync_redemptions demo_vfy demo_uuid_of 21 demo_db
     ([] @ (demo_env, demo_item\<lparr>ri_code := long_code\<rparr>) # [(demo_env, demo_item)])
     = (Inl DataError, demo_db)"
proof -
  have slice: "\<bar>qp_time_slice long_payload\<bar> < 10 ^ max_str_digits"
    by (rule small_slice_prints) (simp add: long_payload_def demo_payload_def)
  have parse: "parse_qr long_code = Inr (long_payload, ''k'' @ signing_bytes long_payload)"
    unfolding long_code_def using slice
    by (intro parse_code_text) (simp add: payload_ok_def, simp add: long_payload_def demo_payload_def MAX_PASSENGERS_def)
  have v: "verify_qr demo_vfy long_code (tk_qr_public_key demo_ticket) demo_now = Inr long_payload"
    by (simp add: verify_qr_iff parse demo_ticket_def demo_vfy_def demo_slice SLICE_TOLERANCE_def)
      (simp add: long_payload_def demo_payload_def)
  have t: "ticket_for demo_uuid_of demo_db (hd (split_on field_sep long_code)) = Inr demo_ticket"
    using parse_qr_InrD(5) [OF parse]
    by (auto simp: ticket_for_def demo_uuid_of_def long_payload_def demo_payload_def demo_defs)
  define r where "r = demo_redemption\<lparr>rd_nonce := qp_nonce long_payload\<rparr>"
  have one: "check_first_sighting demo_ticket (qp_passenger_count long_payload) = None"
    using demo_redeem_steps(4) by (simp add: long_payload_def)
  have r: "rd_nonce r = qp_nonce long_payload"
    "redeem demo_vfy demo_uuid_of 0 1001 demo_db long_code 21 ''dev-1'' demo_now (Some 71) demo_now
      = Inr (r, stage_redemption demo_db demo_ticket r)"
    unfolding redeem_eq t sum.case v demo_redeem_steps option.case
    by (simp_all add: one demo_redeem_steps(5) r_def demo_redemption_def Let_def)
      (simp_all add: demo_ticket_def long_payload_def demo_payload_def)
  show ?thesis
  proof (rule long_nonce_aborts_batch)
    show "redeem demo_vfy demo_uuid_of (ie_plan demo_env) (ie_new_id demo_env) demo_db
        (ri_code (demo_item\<lparr>ri_code := long_code\<rparr>)) 21 (ri_device_id (demo_item\<lparr>ri_code := long_code\<rparr>))
        (ri_redeemed_at (demo_item\<lparr>ri_code := long_code\<rparr>)) (ri_trip_id (demo_item\<lparr>ri_code := long_code\<rparr>))
        (ie_now demo_env) = Inr (r, stage_redemption demo_db demo_ticket r)"
      using r(2) by (simp add: demo_env_def demo_item_def)
    have "length long_code = 194"
      by (simp add: long_code_def code_text_def long_payload_def demo_payload_def signing_bytes_def
          int_str_def nat_str.simps length_b64_encode)
    then show "CODE_MIN_LEN \<le> length (ri_code (demo_item\<lparr>ri_code := long_code\<rparr>))"
      "length (ri_code (demo_item\<lparr>ri_code := long_code\<rparr>)) \<le> CODE_MAX_LEN"
      by (simp_all add: CODE_MIN_LEN_def CODE_MAX_LEN_def)
  qed (simp_all add: r(1) long_payload_def NONCE_WIDTH_def demo_db_ok)
qed

section \<open>Boardings that meet\<close>

text \<open>What a boarding stages among others' commits: nothing, or its row and what it computed from the ticket it had read.\<close>

lemma redeem_amid_cases:
  assumes "redeem_amid vfy uuid_of plan new_id old db meanwhile code hid dev ts trip now = Inr (r, db')"
  shows "(r \<in> set (db_redemptions db) \<and> db' = meanwhile db) \<or>
    (\<exists>t. t \<in> set (db_tickets old) \<and> rd_ticket_id r = tk_id t \<and> 1 \<le> rd_passenger_count r \<and>
       (rd_flag r = Flag_ok \<longrightarrow> check_first_sighting t (rd_passenger_count r) = None) \<and>
       db' = stage_redemption (meanwhile db) t r)"
proof -
  from assms obtain t payload where t: "ticket_for uuid_of old (hd (split_on field_sep code)) = Inr t"
    "verify_qr vfy code (tk_qr_public_key t) now = Inr payload" "check_valid_window t now = None"
    by (auto simp: redeem_amid_def split: sum.splits option.splits invalid_qr.splits)
  have mem: "t \<in> set (db_tickets old)" using t(1) by (auto dest!: ticket_for_InrD row_get_SomeD)
  show ?thesis
  proof (cases "first_row plan (sightings db (qp_nonce payload))")
    case None
    with assms t mem verify_qr_count [OF t(2)] show ?thesis
      by (auto simp: redeem_amid_def Let_def split: option.splits)
  next
    case (Some q)
    then have "q \<in> set (db_redemptions db)" by (auto dest: first_row_SomeD simp: sightings_iff)
    with Some assms t mem verify_qr_count [OF t(2)] show ?thesis
      by (auto simp: redeem_amid_def Let_def split: if_splits)
  qed
qed

text \<open>
  Two boardings of one ticket that meet lose rides: no row is locked, so both read the same
  rides left, both are clean, and the later commit writes what it computed from its own reading.
  Both groups travel, only the second is taken off, and a ticket can carry more than it was sold for.
\<close>

theorem concurrent_boardings_lose_rides:
  assumes inv: "boarding_inv db" and t: "get_ticket db i = Some t" "tk_rides_remaining t = Some left"
    and one: "redeem vfy uuid_of plan id1 db code1 h1 dev1 ts1 trip1 now1 = Inr (r1, db1)"
      "rd_flag r1 = Flag_ok" "rd_ticket_id r1 = i" "r1 \<notin> set (db_redemptions db)"
    and two: "redeem_amid vfy uuid_of plan' id2 db db (\<lambda>_. db1) code2 h2 dev2 ts2 trip2 now2 = Inr (r2, db2)"
      "rd_flag r2 = Flag_ok" "rd_ticket_id r2 = i" "r2 \<notin> set (db_redemptions db)"
  shows "rides_used db2 i = rides_used db i + rd_passenger_count r1 + rd_passenger_count r2 \<and>
    (\<exists>t'. get_ticket db2 i = Some t' \<and> tk_rides_remaining t' = Some (left - rd_passenger_count r2)) \<and>
    (left < rd_passenger_count r1 + rd_passenger_count r2 \<longrightarrow>
       (\<exists>sold. tk_rides_total t = Some sold \<and> sold < rides_used db2 i))"
proof -
  have dist: "distinct (map tk_id (db_tickets db))" using inv by (simp add: boarding_inv_def db_ok_tickets_distinct)
  have tm: "t \<in> set (db_tickets db)" "tk_id t = i" using t(1) by (auto dest: row_get_SomeD)
  have same: "u = t" if "u \<in> set (db_tickets db)" "tk_id u = i" for u
    using dist tm that by (auto simp: distinct_map inj_on_def)
  obtain u where u: "u \<in> set (db_tickets db)" "tk_id u = i" "db1 = stage_redemption db u r1"
      "1 \<le> rd_passenger_count r1" "check_first_sighting u (rd_passenger_count r1) = None"
    using redeem_amid_cases [OF one(1) [unfolded redeem_def]] one(2-4) by auto
  obtain v where v: "v \<in> set (db_tickets db)" "tk_id v = i" "db2 = stage_redemption db1 v r2"
      "1 \<le> rd_passenger_count r2" "check_first_sighting v (rd_passenger_count r2) = None"
    using redeem_amid_cases [OF two(1)] two(2-4) by auto
  note uv = same [OF u(1,2)] same [OF v(1,2)]
  have used: "rides_used db2 i = rides_used db i + rd_passenger_count r1 + rd_passenger_count r2"
    using one(2,3) two(2,3) by (simp add: v(3) u(3) rides_used_stage)
  have "get_ticket db1 i = Some (deduct_ride (rd_passenger_count r1) t)"
    using t(1) tm one(2) by (simp add: u(3) uv stage_redemption_def row_get_row_edit flush_ticket_self)
  then have "get_ticket db2 i = Some (flush_ticket t (deduct_ride (rd_passenger_count r2) t) (deduct_ride (rd_passenger_count r1) t))"
    using tm two(2) by (simp add: v(3) uv stage_redemption_def row_get_row_edit)
  moreover have "tk_rides_remaining (flush_ticket t (deduct_ride (rd_passenger_count r2) t) x) = Some (left - rd_passenger_count r2)" for x
    using t(2) v(4,5) by (simp add: flush_ticket_def deduct_ride_def uv check_first_sighting_None)
  moreover have "ride_account db t" using inv tm(1) by (simp add: boarding_inv_def rides_ok_def list_all_iff)
  then obtain sold where "tk_rides_total t = Some sold" "sold = left + rides_used db i"
    using t(2) tm(2) by (auto simp: ride_account_def split: option.splits)
  ultimately show ?thesis using used by auto
qed

section \<open>Properties of the student's material and the manifest\<close>

text \<open>
  The signing key of a ticket is handed out to its owner only, and only while the
  ticket is active; asking for someone else's ticket is answered exactly like asking for one
  that does not exist.
\<close>

theorem qr_material_only_to_owner:
  "case qr_material db student i now of
     Inr m \<Rightarrow> (\<exists>t. get_ticket db i = Some t \<and> tk_student_id t = st_id student \<and>
        tk_status t = Ticket_active \<and> qm_ticket_id m = tk_id t \<and>
        qm_qr_private_key m = tk_qr_private_key t \<and> qm_server_time m = now)
   | Inl e \<Rightarrow>
       if \<exists>t. get_ticket db i = Some t \<and> tk_student_id t = st_id student
       then http_status e = 409 else e = HTTPException 404 ''Ticket not found''"
  by (auto simp: qr_material_def own_active_ticket_def split: option.split)

lemma sorted_manifest: "sorted (map mf_valid_to (active_manifest db now limit))"
  by (simp add: active_manifest_def take_map [symmetric] sorted_wrt_take)

text \<open>
  The helper's manifest has at most \<open>limit\<close> rows, the soonest to expire first; each
  row is an active ticket that has not expired, with its own public key, rides and holder;
  and with room for all of them every such ticket whose holder exists is in it.
\<close>

theorem manifest_lists_active_tickets:
  assumes "db_ok db"
  shows "sorted (map mf_valid_to (active_manifest db now limit)) \<and>
    length (active_manifest db now limit) \<le> limit \<and>
    (\<forall>m \<in> set (active_manifest db now limit). \<exists>t \<in> set (db_tickets db).
       manifest_row_of db t = Some m \<and> mf_status m = Ticket_active \<and> now \<le> mf_valid_to m) \<and>
    (length (db_tickets db) \<le> limit \<longrightarrow>
       (\<forall>t \<in> set (db_tickets db). tk_status t = Ticket_active \<longrightarrow> now \<le> tk_valid_to t \<longrightarrow>
          (\<exists>m \<in> set (active_manifest db now limit). manifest_row_of db t = Some m)))"
proof (intro conjI impI ballI)
  let ?rows = "filter (\<lambda>t. tk_status t = Ticket_active \<and> now \<le> tk_valid_to t) (db_tickets db)"
  show "sorted (map mf_valid_to (active_manifest db now limit))" by (rule sorted_manifest)
  show "length (active_manifest db now limit) \<le> limit" by (simp add: active_manifest_def)
  fix m assume "m \<in> set (active_manifest db now limit)"
  then have "m \<in> set (List.map_filter (manifest_row_of db) ?rows)"
    by (auto simp: active_manifest_def dest: in_set_takeD)
  then obtain t where t: "t \<in> set ?rows" "manifest_row_of db t = Some m"
    by (auto simp: List.map_filter_def)
  then have "mf_status m = tk_status t" "mf_valid_to m = tk_valid_to t"
    by (auto simp: manifest_row_of_def split: option.splits)
  with t show "\<exists>t \<in> set (db_tickets db).
      manifest_row_of db t = Some m \<and> mf_status m = Ticket_active \<and> now \<le> mf_valid_to m" by auto
next
  fix t assume all: "length (db_tickets db) \<le> limit" and t: "t \<in> set (db_tickets db)"
    "tk_status t = Ticket_active" "now \<le> tk_valid_to t"
  let ?rows = "filter (\<lambda>t. tk_status t = Ticket_active \<and> now \<le> tk_valid_to t) (db_tickets db)"
  from assms t(1) obtain s where s: "get_student db (tk_student_id t) = Some s"
    by (auto simp: db_ok_def tickets_ok_def list_all_iff)
  then have "s \<in> set (db_students db)" by (auto dest: row_get_SomeD)
  with assms obtain u where "get_user db (st_user_id s) = Some u"
    by (auto simp: db_ok_def identity_ok_def list_all_iff)
  with s obtain m where m: "manifest_row_of db t = Some m" by (simp add: manifest_row_of_def)
  with t have "m \<in> set (List.map_filter (manifest_row_of db) ?rows)"
    by (auto simp: List.map_filter_def image_iff intro!: bexI [of _ t])
  moreover have "length (List.map_filter (manifest_row_of db) ?rows) \<le> length (db_tickets db)"
    by (simp add: List.map_filter_def)
  ultimately show "\<exists>m \<in> set (active_manifest db now limit). manifest_row_of db t = Some m"
    using m all by (simp add: active_manifest_def)
qed

theorem manifest_lists_active_tickets_witness:
  "sorted (map mf_valid_to (active_manifest demo_db demo_now 5)) \<and>
   length (active_manifest demo_db demo_now 5) \<le> 5 \<and>
   (\<exists>m \<in> set (active_manifest demo_db demo_now 5). manifest_row_of demo_db demo_ticket = Some m)"
proof -
  have "demo_ticket \<in> set (db_tickets demo_db)" "length (db_tickets demo_db) \<le> 5"
    "tk_status demo_ticket = Ticket_active" "demo_now \<le> tk_valid_to demo_ticket"
    by (simp_all add: demo_db_def demo_ticket_def demo_now_def)
  then show ?thesis
    using manifest_lists_active_tickets [OF demo_db_ok, of demo_now 5] by blast
qed

end
