(* ===== verification/Settlement.thy ===== *)
theory Settlement
  imports Gateway Redemption
begin

text \<open>
  Deciding what a gateway record means for an order: \<^verbatim>\<open>app/services/settlement.py\<close>.
  The functions change the caller's order object and stage a ticket; nothing is committed
  here. \<open>flush_order\<close> is what the caller's commit then writes: of an object, exactly the
  columns whose value differs from the one that was read.
\<close>

definition PAID :: string where "PAID = ''paid''"
definition FAILED :: string where "FAILED = ''failed''"
definition AMOUNT_MISMATCH :: string where "AMOUNT_MISMATCH = ''amount_mismatch''"
definition UNDER_REVIEW :: string where "UNDER_REVIEW = ''under_review''"

lemmas outcomes = PAID_def FAILED_def AMOUNT_MISMATCH_def UNDER_REVIEW_def

text \<open>
  What the outside gives to one settlement: a fresh key pair, a fresh id and the two readings
  of the clock.
\<close>

record issue_env =
  is_raw_keys :: "bytes \<times> bytes"
  is_new_id :: uuid
  is_paid_at :: instant
  is_now :: instant

text \<open>The last instant a datetime can hold.\<close>

definition datetime_max :: instant where "datetime_max = 253402300799999999"

definition issue_ticket :: "issue_env \<Rightarrow> database \<Rightarrow> order \<Rightarrow> py_error + ticket" where
  "issue_ticket env db order =
     (case get_product db (or_product_id order) of
        None \<Rightarrow> Inl RuntimeError
      | Some product \<Rightarrow>
          let now = is_now env; valid_to = now + pr_validity_days product * day;
              (private_key, public_key) = generate_keypair (is_raw_keys env) in
          if valid_to > datetime_max then Inl OverflowError
          else Inr \<lparr>tk_id = is_new_id env, tk_created_at = now, tk_order_id = or_id order,
            tk_student_id = or_student_id order, tk_product_id = pr_id product,
            tk_rides_total = pr_ride_count product, tk_rides_remaining = pr_ride_count product,
            tk_valid_from = now, tk_valid_to = valid_to,
            tk_qr_private_key = private_key, tk_qr_public_key = public_key,
            tk_status = Ticket_active\<rparr>)"

text \<open>The outcome, the order as changed, and the ticket staged with it.\<close>

definition apply_validation ::
  "issue_env \<Rightarrow> database \<Rightarrow> order \<Rightarrow> doc \<Rightarrow> py_error + string \<times> order \<times> ticket option" where
  "apply_validation env db order0 validation =
     (let order = order0\<lparr>or_raw_payload := Some validation,
            or_gateway_val_id := py_or (doc_get validation ''val_id'') (or_gateway_val_id order0),
            or_gateway_bank_tran_id := doc_get validation ''bank_tran_id'',
            or_gateway_card_type := doc_get validation ''card_type''\<rparr>
      in
      if \<not> payment_succeeded validation
      then Inr (FAILED, order\<lparr>or_status := Order_failed\<rparr>, None)
      else
      (case amount_matches validation (or_amount_paisa order) (or_currency order) of
         Inl e \<Rightarrow> Inl e
       | Inr False \<Rightarrow> Inr (AMOUNT_MISMATCH, order\<lparr>or_status := Order_failed\<rparr>, None)
       | Inr True \<Rightarrow>
           if risk_flagged validation
           then Inr (UNDER_REVIEW, order\<lparr>or_status := Order_pending\<rparr>, None)
           else
           (case issue_ticket env db order of
              Inl e \<Rightarrow> Inl e
            | Inr t \<Rightarrow>
                Inr (PAID, order\<lparr>or_status := Order_paid, or_paid_at := Some (is_paid_at env)\<rparr>, Some t))))"

section \<open>What a commit of the order object writes\<close>

definition flush_order :: "order \<Rightarrow> order \<Rightarrow> order \<Rightarrow> order" where
  "flush_order loaded obj row = row\<lparr>
     or_status := (if or_status obj = or_status loaded then or_status row else or_status obj),
     or_raw_payload := (if or_raw_payload obj = or_raw_payload loaded then or_raw_payload row else or_raw_payload obj),
     or_gateway_val_id := (if or_gateway_val_id obj = or_gateway_val_id loaded
       then or_gateway_val_id row else or_gateway_val_id obj),
     or_gateway_bank_tran_id := (if or_gateway_bank_tran_id obj = or_gateway_bank_tran_id loaded
       then or_gateway_bank_tran_id row else or_gateway_bank_tran_id obj),
     or_gateway_card_type := (if or_gateway_card_type obj = or_gateway_card_type loaded
       then or_gateway_card_type row else or_gateway_card_type obj),
     or_paid_at := (if or_paid_at obj = or_paid_at loaded then or_paid_at row else or_paid_at obj)\<rparr>"

definition flush_settled :: "order \<Rightarrow> order \<Rightarrow> ticket option \<Rightarrow> database \<Rightarrow> database" where
  "flush_settled loaded obj staged db = db\<lparr>
     db_orders := row_edit or_id (or_id loaded) (flush_order loaded obj) (db_orders db),
     db_tickets := db_tickets db @ (case staged of None \<Rightarrow> [] | Some t \<Rightarrow> [t])\<rparr>"

lemma flush_order_frame [simp]:
  "or_id (flush_order loaded obj row) = or_id row"
  "or_idempotency_key (flush_order loaded obj row) = or_idempotency_key row"
  "or_tran_id (flush_order loaded obj row) = or_tran_id row"
  "or_student_id (flush_order loaded obj row) = or_student_id row"
  "or_product_id (flush_order loaded obj row) = or_product_id row"
  "or_amount_paisa (flush_order loaded obj row) = or_amount_paisa row"
  "or_currency (flush_order loaded obj row) = or_currency row"
  "or_created_at (flush_order loaded obj row) = or_created_at row"
  by (simp_all add: flush_order_def)

section \<open>Reading a decision\<close>

lemma issue_ticket_InrD:
  assumes "issue_ticket env db order = Inr t"
  obtains p where "get_product db (or_product_id order) = Some p"
    "t = \<lparr>tk_id = is_new_id env, tk_created_at = is_now env, tk_order_id = or_id order,
      tk_student_id = or_student_id order, tk_product_id = pr_id p,
      tk_rides_total = pr_ride_count p, tk_rides_remaining = pr_ride_count p,
      tk_valid_from = is_now env, tk_valid_to = is_now env + pr_validity_days p * day,
      tk_qr_private_key = b64_encode (fst (is_raw_keys env)),
      tk_qr_public_key = b64_encode (snd (is_raw_keys env)), tk_status = Ticket_active\<rparr>"
  using assms
  by (auto simp: issue_ticket_def generate_keypair_def Let_def split: option.splits if_splits)

lemma apply_validation_keeps:
  assumes "apply_validation env db order v = Inr (out, order', staged)"
  shows "or_id order' = or_id order" "or_tran_id order' = or_tran_id order"
    "or_student_id order' = or_student_id order" "or_product_id order' = or_product_id order"
    "or_amount_paisa order' = or_amount_paisa order" "or_raw_payload order' = Some v"
  using assms
  by (auto simp: apply_validation_def Let_def split: if_splits sum.splits bool.splits)

lemma apply_validation_staged:
  assumes "apply_validation env db order v = Inr (out, order', staged)"
  shows "staged \<noteq> None \<longleftrightarrow> out = PAID"
    "out = PAID \<Longrightarrow> payment_succeeded v \<and> \<not> risk_flagged v \<and>
       amount_matches v (or_amount_paisa order) (or_currency order) = Inr True"
    "staged = Some t \<Longrightarrow> tk_order_id t = or_id order \<and> tk_student_id t = or_student_id order \<and>
       tk_rides_total t = tk_rides_remaining t \<and> tk_id t = is_new_id env"
  using assms
  by (auto simp: apply_validation_def Let_def outcomes split: if_splits sum.splits bool.splits
      elim!: issue_ticket_InrD)

section \<open>The books of the shop\<close>

text \<open>
  Good money for an order: a successful record of the order's own amount and currency that
  is not held for review. The books are in order when an order is paid exactly if it has a
  ticket, every ticket is its order's (student and product), and every ticketed order holds
  the record of its good money; and no product sells a negative number of rides.
\<close>

definition good_money :: "order \<Rightarrow> doc \<Rightarrow> bool" where
  "good_money order v \<longleftrightarrow> payment_succeeded v \<and>
     amount_matches v (or_amount_paisa order) (or_currency order) = Inr True \<and> \<not> risk_flagged v"

definition paid_has_ticket :: "database \<Rightarrow> bool" where
  "paid_has_ticket db \<longleftrightarrow> (\<forall>x \<in> set (db_orders db). or_status x = Order_paid \<longrightarrow>
     (\<exists>t \<in> set (db_tickets db). tk_order_id t = or_id x))"

definition ticket_is_paid :: "database \<Rightarrow> bool" where
  "ticket_is_paid db \<longleftrightarrow> (\<forall>t \<in> set (db_tickets db). \<exists>x \<in> set (db_orders db).
     or_id x = tk_order_id t \<and> or_status x = Order_paid \<and> or_student_id x = tk_student_id t \<and>
     or_product_id x = tk_product_id t \<and> (\<exists>v. or_raw_payload x = Some v \<and> good_money x v))"

definition products_ok :: "database \<Rightarrow> bool" where
  "products_ok db \<longleftrightarrow>
     (\<forall>p \<in> set (db_products db). \<forall>n. pr_ride_count p = Some n \<longrightarrow> 0 \<le> n)"

definition commerce_inv :: "database \<Rightarrow> bool" where
  "commerce_inv db \<longleftrightarrow>
     boarding_inv db \<and> paid_has_ticket db \<and> ticket_is_paid db \<and> products_ok db"

lemma flush_order_self:
  assumes "or_id obj = or_id loaded" "or_created_at obj = or_created_at loaded"
    "or_student_id obj = or_student_id loaded" "or_product_id obj = or_product_id loaded"
    "or_amount_paisa obj = or_amount_paisa loaded" "or_currency obj = or_currency loaded"
    "or_idempotency_key obj = or_idempotency_key loaded" "or_tran_id obj = or_tran_id loaded"
    "or_gateway obj = or_gateway loaded"
  shows "flush_order loaded obj loaded = obj"
  using assms by (cases loaded; cases obj) (simp add: flush_order_def)

text \<open>The columns a settlement never changes.\<close>

definition same_order :: "order \<Rightarrow> order \<Rightarrow> bool" where
  "same_order x y \<longleftrightarrow> or_id x = or_id y \<and> or_created_at x = or_created_at y \<and>
     or_student_id x = or_student_id y \<and> or_product_id x = or_product_id y \<and>
     or_amount_paisa x = or_amount_paisa y \<and> or_currency x = or_currency y \<and>
     or_idempotency_key x = or_idempotency_key y \<and> or_tran_id x = or_tran_id y \<and>
     or_gateway x = or_gateway y"

lemma same_order_status [simp]: "same_order (x\<lparr>or_status := s\<rparr>) x"
  by (simp add: same_order_def)

lemma apply_validation_same:
  "apply_validation env db order v = Inr (out, order', staged) \<Longrightarrow> same_order order' order"
  by (auto simp: apply_validation_def same_order_def Let_def
      split: if_splits sum.splits bool.splits)

lemma flush_settled_orders:
  assumes "distinct (map or_id (db_orders db))" "order \<in> set (db_orders db)" "same_order obj order"
  shows "set (db_orders (flush_settled order obj staged db)) =
    insert obj {x \<in> set (db_orders db). or_id x \<noteq> or_id order}"
proof -
  have "flush_order order obj order = obj"
    using assms(3) by (intro flush_order_self) (simp_all add: same_order_def)
  then have "row_edit or_id (or_id order) (flush_order order obj) (db_orders db) =
      row_edit or_id (or_id order) (\<lambda>_. obj) (db_orders db)"
    using row_edit_const [OF assms(1,2), of "flush_order order obj"] by simp
  then show ?thesis
    using assms by (auto simp: flush_settled_def set_row_edit image_iff)
qed

lemma flush_settled_frame [simp]:
  "db_redemptions (flush_settled order obj staged db) = db_redemptions db"
  "db_products (flush_settled order obj staged db) = db_products db"
  "db_tickets (flush_settled order obj None db) = db_tickets db"
  "db_tickets (flush_settled order obj (Some t) db) = db_tickets db @ [t]"
  by (simp_all add: flush_settled_def)

lemma unused_ticket_rides:
  assumes "db_ok db" "tk_id t \<notin> tk_id ` set (db_tickets db)"
  shows "rides_used db (tk_id t) = 0"
  unfolding rides_used_def
proof (rule sum_by_none, intro ballI)
  fix r assume "r \<in> set (db_redemptions db)"
  with assms(1) have "get_ticket db (rd_ticket_id r) \<noteq> None"
    by (simp add: db_ok_def redemptions_ok_def list_all_iff)
  then have "rd_ticket_id r \<in> tk_id ` set (db_tickets db)" by (force dest: row_get_SomeD)
  with assms(2) show "\<not> (rd_ticket_id r = tk_id t \<and> rd_flag r = Flag_ok)" by auto
qed

text \<open>
  One settled order keeps the books: either nothing is staged and the order is not paid, or
  its own ticket is staged with good money on record.
\<close>

lemma flush_settled_inv:
  assumes inv: "commerce_inv db" and ok: "db_ok (flush_settled order obj staged db)"
    and order: "order \<in> set (db_orders db)" "or_status order \<noteq> Order_paid" "same_order obj order"
    and none: "staged = None \<Longrightarrow> or_status obj \<noteq> Order_paid"
    and some: "\<And>t. staged = Some t \<Longrightarrow> or_status obj = Order_paid \<and>
      (\<exists>v. or_raw_payload obj = Some v \<and> good_money obj v) \<and>
      tk_order_id t = or_id order \<and> tk_student_id t = or_student_id order \<and>
      tk_product_id t = or_product_id order \<and> tk_rides_total t = tk_rides_remaining t \<and>
      (\<forall>n. tk_rides_remaining t = Some n \<longrightarrow> 0 \<le> n)"
  shows "commerce_inv (flush_settled order obj staged db)"
proof -
  let ?db = "flush_settled order obj staged db"
  have dbok: "db_ok db" using inv by (simp add: commerce_inv_def boarding_inv_def)
  then have orders: "set (db_orders ?db) = insert obj {x \<in> set (db_orders db). or_id x \<noteq> or_id order}"
    by (intro flush_settled_orders order) (simp add: db_ok_def orders_ok_def)
  have uniq: "x = order" if "x \<in> set (db_orders db)" "or_id x = or_id order" for x
    using that order(1) dbok by (auto simp: db_ok_def orders_ok_def distinct_map dest: inj_onD)
  have unticketed: "tk_order_id t \<noteq> or_id order" if t: "t \<in> set (db_tickets db)" for t
  proof
    assume "tk_order_id t = or_id order"
    with inv t obtain x where "x \<in> set (db_orders db)" "or_id x = or_id order" "or_status x = Order_paid"
      by (auto simp: commerce_inv_def ticket_is_paid_def)
    with uniq order(2) show False by auto
  qed
  have acc: "ride_account ?db = ride_account db"
    by (intro ext ride_account_cong) (simp add: rides_used_def)
  have "rides_ok ?db"
  proof (cases staged)
    case None
    then show ?thesis
      unfolding rides_ok_def acc using inv by (simp add: rides_ok_def commerce_inv_def boarding_inv_def)
  next
    case (Some t)
    then have "tk_id t \<notin> tk_id ` set (db_tickets db)"
      using ok by (simp add: db_ok_def tickets_ok_def)
    then have "ride_account db t"
      using some [OF Some] unused_ticket_rides [OF dbok, of t]
      by (auto simp: ride_account_def split: option.splits)
    then show ?thesis
      unfolding rides_ok_def acc using inv by (simp add: Some rides_ok_def commerce_inv_def boarding_inv_def)
  qed
  then have "boarding_inv ?db"
    using inv ok by (simp add: commerce_inv_def boarding_inv_def counted_once_def)
  moreover have "paid_has_ticket ?db"
    using inv none some orders order(3)
    by (cases staged) (auto simp: commerce_inv_def paid_has_ticket_def same_order_def)
  moreover have "ticket_is_paid ?db"
    unfolding ticket_is_paid_def orders
  proof
    fix t assume "t \<in> set (db_tickets ?db)"
    then consider (old) "t \<in> set (db_tickets db)" | (new) "staged = Some t" by (cases staged) auto
    then show "\<exists>x \<in> insert obj {x \<in> set (db_orders db). or_id x \<noteq> or_id order}.
        or_id x = tk_order_id t \<and> or_status x = Order_paid \<and> or_student_id x = tk_student_id t \<and>
        or_product_id x = tk_product_id t \<and> (\<exists>v. or_raw_payload x = Some v \<and> good_money x v)"
    proof cases
      case old
      with inv obtain x where x: "x \<in> set (db_orders db)" "or_id x = tk_order_id t"
        "or_status x = Order_paid" "or_student_id x = tk_student_id t"
        "or_product_id x = tk_product_id t" "\<exists>v. or_raw_payload x = Some v \<and> good_money x v"
        by (auto simp: commerce_inv_def ticket_is_paid_def)
      with unticketed [OF old] show ?thesis by auto
    next
      case new
      with some order(3) show ?thesis by (auto simp: same_order_def)
    qed
  qed
  moreover have "products_ok ?db" using inv by (simp add: commerce_inv_def products_ok_def)
  ultimately show ?thesis by (simp add: commerce_inv_def)
qed

lemma apply_validation_inv:
  assumes inv: "commerce_inv db" and order: "order \<in> set (db_orders db)" "or_status order \<noteq> Order_paid"
    and app: "apply_validation env db order v = Inr (out, order', staged)"
    and ok: "db_ok (flush_settled order order' staged db)"
  shows "commerce_inv (flush_settled order order' staged db)"
proof (rule flush_settled_inv [OF inv ok order apply_validation_same [OF app]])
  show "or_status order' \<noteq> Order_paid" if "staged = None"
    using app that by (auto simp: apply_validation_def Let_def split: if_splits sum.splits bool.splits)
next
  fix t assume t: "staged = Some t"
  with app have good: "or_status order' = Order_paid" "or_raw_payload order' = Some v" "good_money order' v"
    by (auto simp: apply_validation_def good_money_def Let_def split: if_splits sum.splits bool.splits)
  from app t obtain o1 where iss: "issue_ticket env db o1 = Inr t" "or_id o1 = or_id order"
    "or_student_id o1 = or_student_id order" "or_product_id o1 = or_product_id order"
    by (auto simp: apply_validation_def Let_def split: if_splits sum.splits bool.splits)
  from iss(1) show "or_status order' = Order_paid \<and>
      (\<exists>v. or_raw_payload order' = Some v \<and> good_money order' v) \<and>
      tk_order_id t = or_id order \<and> tk_student_id t = or_student_id order \<and>
      tk_product_id t = or_product_id order \<and> tk_rides_total t = tk_rides_remaining t \<and>
      (\<forall>n. tk_rides_remaining t = Some n \<longrightarrow> 0 \<le> n)"
  proof (rule issue_ticket_InrD)
    fix p assume p: "get_product db (or_product_id o1) = Some p"
      "t = \<lparr>tk_id = is_new_id env, tk_created_at = is_now env, tk_order_id = or_id o1,
      tk_student_id = or_student_id o1, tk_product_id = pr_id p,
      tk_rides_total = pr_ride_count p, tk_rides_remaining = pr_ride_count p,
      tk_valid_from = is_now env, tk_valid_to = is_now env + pr_validity_days p * day,
      tk_qr_private_key = b64_encode (fst (is_raw_keys env)),
      tk_qr_public_key = b64_encode (snd (is_raw_keys env)), tk_status = Ticket_active\<rparr>"
    then have "p \<in> set (db_products db)" "pr_id p = or_product_id o1" by (auto dest: row_get_SomeD)
    then show ?thesis
      using p good inv iss by (auto simp: commerce_inv_def products_ok_def)
  qed
qed

section \<open>Properties\<close>

text \<open>
  A decision that is reached issues a ticket exactly for good money: the order becomes
  paid and gets its ticket if and only if the record reports success, of exactly the order's
  amount and currency, and no risk; risky money leaves it pending, anything else failed. The
  ticket is the order's: its student and product, the product's rides, and validity from now
  for the product's days.
\<close>

theorem settlement_decides_by_money:
  assumes "apply_validation env db order v = Inr (out, order', staged)"
  shows "(staged \<noteq> None \<longleftrightarrow> good_money order v) \<and> (out = PAID \<longleftrightarrow> good_money order v) \<and>
    or_status order' = (if good_money order v then Order_paid
      else if payment_succeeded v \<and> amount_matches v (or_amount_paisa order) (or_currency order) = Inr True
      then Order_pending else Order_failed) \<and>
    or_raw_payload order' = Some v \<and> same_order order' order \<and>
    (\<forall>t. staged = Some t \<longrightarrow> (\<exists>p. get_product db (or_product_id order) = Some p \<and>
       tk_order_id t = or_id order \<and> tk_student_id t = or_student_id order \<and> tk_product_id t = pr_id p \<and>
       tk_rides_total t = pr_ride_count p \<and> tk_rides_remaining t = pr_ride_count p \<and>
       tk_valid_to t = tk_valid_from t + pr_validity_days p * day \<and> tk_status t = Ticket_active))"
proof -
  have "(staged \<noteq> None \<longleftrightarrow> good_money order v) \<and> (out = PAID \<longleftrightarrow> good_money order v) \<and>
    or_status order' = (if good_money order v then Order_paid
      else if payment_succeeded v \<and> amount_matches v (or_amount_paisa order) (or_currency order) = Inr True
      then Order_pending else Order_failed) \<and> or_raw_payload order' = Some v"
    using assms by (auto simp: apply_validation_def good_money_def outcomes Let_def
        split: if_splits sum.splits bool.splits)
  moreover have "\<exists>p. get_product db (or_product_id order) = Some p \<and>
       tk_order_id t = or_id order \<and> tk_student_id t = or_student_id order \<and> tk_product_id t = pr_id p \<and>
       tk_rides_total t = pr_ride_count p \<and> tk_rides_remaining t = pr_ride_count p \<and>
       tk_valid_to t = tk_valid_from t + pr_validity_days p * day \<and> tk_status t = Ticket_active"
    if "staged = Some t" for t
    using assms that by (auto simp: apply_validation_def Let_def
        split: if_splits sum.splits bool.splits elim!: issue_ticket_InrD)
  ultimately show ?thesis using apply_validation_same [OF assms] by blast
qed

definition demo_ienv :: issue_env where
  "demo_ienv = \<lparr>is_raw_keys = (''p'', ''q''), is_new_id = 102, is_paid_at = demo_now, is_now = demo_now\<rparr>"

definition demo_settled :: order where
  "demo_settled = (demo_order 92 Order_pending ''key-0002'' ''UT-2'')\<lparr>or_status := Order_paid,
     or_gateway_val_id := JStr ''v-1'', or_raw_payload := Some demo_validation,
     or_paid_at := Some demo_now\<rparr>"

definition demo_new_ticket :: ticket where
  "demo_new_ticket = \<lparr>tk_id = 102, tk_created_at = demo_now, tk_order_id = 92, tk_student_id = 11,
     tk_product_id = 81, tk_rides_total = Some 10, tk_rides_remaining = Some 10,
     tk_valid_from = demo_now, tk_valid_to = demo_now + 30 * day,
     tk_qr_private_key = b64_encode ''p'', tk_qr_public_key = b64_encode ''q'',
     tk_status = Ticket_active\<rparr>"

lemma demo_good_money:
  "payment_succeeded demo_validation" "amount_matches demo_validation 10000 ''BDT'' = Inr True"
  "\<not> risk_flagged demo_validation"
proof -
  have "upper ''VALID'' = ''VALID''" "upper ''bdt'' = upper ''BDT''" by code_simp+
  then show "payment_succeeded demo_validation" "amount_matches demo_validation 10000 ''BDT'' = Inr True"
    "\<not> risk_flagged demo_validation"
    by (simp_all add: payment_succeeded_def amount_matches_def risk_flagged_def demo_validation_def
        doc_get_def doc_get_or_def py_or_def py_float_money SUCCESSFUL_STATUSES_def RISK_FLAGGED_def
        round_cents_def dec_overflows_def float_limit_def round_half_even_def)
qed

lemma demo_apply:
  "apply_validation demo_ienv demo_db (demo_order 92 Order_pending ''key-0002'' ''UT-2'') demo_validation
     = Inr (PAID, demo_settled, Some demo_new_ticket)"
proof -
  have p: "get_product demo_db 81 = Some demo_product" by (simp add: demo_db_def demo_product_def)
  have v: "doc_get demo_validation ''val_id'' = JStr ''v-1''"
    "doc_get demo_validation ''bank_tran_id'' = JNull" "doc_get demo_validation ''card_type'' = JNull"
    by (simp_all add: demo_validation_def doc_get_def)
  show ?thesis
    unfolding apply_validation_def Let_def
    by (simp add: demo_good_money demo_order_def issue_ticket_def p)
      (simp add: demo_product_def demo_ienv_def demo_now_def datetime_max_def generate_keypair_def
        demo_settled_def demo_order_def demo_new_ticket_def v py_or_def)
qed

theorem settlement_decides_by_money_witness:
  "let order = demo_order 92 Order_pending ''key-0002'' ''UT-2'' in
   (Some demo_new_ticket \<noteq> None \<longleftrightarrow> good_money order demo_validation) \<and>
   (PAID = PAID \<longleftrightarrow> good_money order demo_validation) \<and>
    or_status demo_settled = (if good_money order demo_validation then Order_paid
      else if payment_succeeded demo_validation \<and>
        amount_matches demo_validation (or_amount_paisa order) (or_currency order) = Inr True
      then Order_pending else Order_failed) \<and>
    or_raw_payload demo_settled = Some demo_validation \<and> same_order demo_settled order \<and>
    (\<forall>t. Some demo_new_ticket = Some t \<longrightarrow> (\<exists>p. get_product demo_db (or_product_id order) = Some p \<and>
       tk_order_id t = or_id order \<and> tk_student_id t = or_student_id order \<and> tk_product_id t = pr_id p \<and>
       tk_rides_total t = pr_ride_count p \<and> tk_rides_remaining t = pr_ride_count p \<and>
       tk_valid_to t = tk_valid_from t + pr_validity_days p * day \<and> tk_status t = Ticket_active))"
  unfolding Let_def by (rule settlement_decides_by_money [OF demo_apply])

lemma demo_commerce_inv: "commerce_inv demo_db"
proof -
  have "upper ''VALID'' = ''VALID''" by code_simp
  moreover have "money_str 10000 = ''100.00''"
    by (simp add: money_str_def two_digits_def nat_str.simps digit_char_def)
      (simp add: char_of_def bit_iff_odd)
  ultimately have f: "py_float ''100.00'' = Some (Dec 10000 (- 2))" and u: "upper ''VALID'' = ''VALID''"
    using py_float_money [of 10000] by simp_all
  have r: "round_cents (Dec 10000 (- 2)) = Inr 10000"
    by (simp add: round_cents_def dec_overflows_def float_limit_def round_half_even_def)
  let ?o = "demo_order 91 Order_paid ''key-0001'' ''UT-1''"
  let ?v = "[(''status'', JStr ''VALID''), (''amount'', JStr ''100.00''), (''currency'', JStr ''BDT'')]"
  have "good_money ?o ?v"
    unfolding good_money_def
  proof (intro conjI)
    show "payment_succeeded ?v" by (simp add: payment_succeeded_def doc_get_or_def u SUCCESSFUL_STATUSES_def)
    show "amount_matches ?v (or_amount_paisa ?o) (or_currency ?o) = Inr True"
      by (simp add: amount_matches_def doc_get_def py_or_def f r demo_order_def)
    show "\<not> risk_flagged ?v" by (simp add: risk_flagged_def doc_get_or_def RISK_FLAGGED_def)
  qed
  then show ?thesis
    using demo_inv
    by (simp add: commerce_inv_def paid_has_ticket_def ticket_is_paid_def products_ok_def
        demo_db_def demo_order_def demo_ticket_def demo_product_def)
qed

end
