(* ===== verification/Shop.thy ===== *)
theory Shop
  imports Settlement
begin

text \<open>
  Buying a ticket: \<^verbatim>\<open>app/api/routes/shop.py\<close> and the queries of
  \<^verbatim>\<open>app/repositories/commerce.py\<close> it uses.

  A handler that waits for the gateway between reading an order and writing it lets other
  transactions commit in between: \<open>env\<close> (and \<open>env1\<close>, \<open>env2\<close>) is what they do to the
  database, the identity where nothing happens. \<open>now\<close> and the fresh ids and references are
  arguments.
\<close>

section \<open>Queries\<close>

definition order_by_idempotency_key :: "database \<Rightarrow> string \<Rightarrow> order option" where
  "order_by_idempotency_key db key = find (\<lambda>x. or_idempotency_key x = key) (db_orders db)"

definition order_by_tran_id :: "database \<Rightarrow> string \<Rightarrow> order option" where
  "order_by_tran_id db tran_id = find (\<lambda>x. or_tran_id x = tran_id) (db_orders db)"

definition list_products :: "database \<Rightarrow> bool \<Rightarrow> ticket_product list" where
  "list_products db active_only =
     sort_key pr_price_paisa (filter (\<lambda>p. active_only \<longrightarrow> pr_active p) (db_products db))"

definition orders_for_student :: "database \<Rightarrow> uuid \<Rightarrow> order list" where
  "orders_for_student db i =
     sort_key (\<lambda>x. - or_created_at x) (filter (\<lambda>x. or_student_id x = i) (db_orders db))"

definition tickets_for_student :: "database \<Rightarrow> uuid \<Rightarrow> ticket list" where
  "tickets_for_student db i =
     sort_key (\<lambda>t. - tk_created_at t) (filter (\<lambda>t. tk_student_id t = i) (db_tickets db))"

text \<open>The three listings of the routes.\<close>

definition list_products_route :: "database \<Rightarrow> ticket_product list" where
  "list_products_route db = list_products db True"

definition list_orders :: "database \<Rightarrow> student \<Rightarrow> order list" where
  "list_orders db student = orders_for_student db (st_id student)"

definition list_tickets :: "database \<Rightarrow> student \<Rightarrow> ticket list" where
  "list_tickets db student = tickets_for_student db (st_id student)"

section \<open>The addresses handed to the gateway\<close>

definition rstrip_slash :: "string \<Rightarrow> string" where
  "rstrip_slash s = rev (dropWhile (\<lambda>c. c = CHR ''/'') (rev s))"

definition return_url :: "string \<Rightarrow> string" where
  "return_url public_base_url = rstrip_slash public_base_url @ ''/api/v1/shop/payments/return''"

definition contains_text :: "string \<Rightarrow> string \<Rightarrow> bool" where
  "contains_text w s \<longleftrightarrow> (\<exists>i \<in> set [0..<Suc (length s)]. take (length w) (drop i s) = w)"

definition ipn_url :: "string \<Rightarrow> string option" where
  "ipn_url public_base_url =
     (let base = rstrip_slash public_base_url in
      if contains_text ''localhost'' base \<or> contains_text ''127.0.0.1'' base then None
      else Some (base @ ''/api/v1/shop/payments/ipn''))"

section \<open>Purchase\<close>

record order_create =
  oc_product_id :: uuid
  oc_idempotency_key :: string

record checkout_out =
  co_order_id :: uuid
  co_tran_id :: string
  co_amount_paisa :: int
  co_currency :: string
  co_status :: order_status
  co_checkout_url :: string

definition checkout_request ::
  "string \<Rightarrow> order \<Rightarrow> user \<Rightarrow> ticket_product \<Rightarrow> checkout_request" where
  "checkout_request public_base_url order user product =
     \<lparr>cr_tran_id = or_tran_id order, cr_amount_paisa = or_amount_paisa order,
      cr_currency = or_currency order, cr_success_url = return_url public_base_url,
      cr_fail_url = return_url public_base_url, cr_cancel_url = return_url public_base_url,
      cr_ipn_url = ipn_url public_base_url, cr_customer_name = us_name user,
      cr_customer_email = us_email user, cr_customer_phone = us_phone user,
      cr_product_name = pr_name product\<rparr>"

definition open_checkout ::
  "string \<Rightarrow> (checkout_request \<Rightarrow> gateway_error + string) \<Rightarrow> (database \<Rightarrow> database) \<Rightarrow>
   database \<Rightarrow> order \<Rightarrow> student \<Rightarrow> (handler_error + checkout_out) \<times> database" where
  "open_checkout public_base_url gateway env db order student =
     (case (get_product db (or_product_id order), get_user db (st_user_id student)) of
        (Some product, Some user) \<Rightarrow>
          (case gateway (checkout_request public_base_url order user product) of
             Inl _ \<Rightarrow> (Inl (Http (HTTPException 502 ''Payment gateway unavailable, try again'')), env db)
           | Inr checkout_url \<Rightarrow>
               let pending = order\<lparr>or_status := Order_pending\<rparr> in
               (case commit (flush_settled order pending None (env db)) of
                  Inl e \<Rightarrow> (Inl (UncaughtDb e), env db)
                | Inr db' \<Rightarrow> (Inr \<lparr>co_order_id = or_id order, co_tran_id = or_tran_id order,
                    co_amount_paisa = or_amount_paisa order, co_currency = or_currency order,
                    co_status = Order_pending, co_checkout_url = checkout_url\<rparr>, db')))
      | _ \<Rightarrow> (Inl (Http (HTTPException 409 ''Order references missing records'')), db))"

definition new_order :: "uuid \<Rightarrow> string \<Rightarrow> instant \<Rightarrow> student \<Rightarrow> ticket_product \<Rightarrow> string \<Rightarrow> order" where
  "new_order new_id hex20 now student product key =
     \<lparr>or_id = new_id, or_created_at = now, or_student_id = st_id student,
      or_product_id = pr_id product, or_amount_paisa = pr_price_paisa product,
      or_currency = ''BDT'', or_status = Order_initiated, or_idempotency_key = key,
      or_tran_id = ''UT-'' @ hex20, or_gateway = ''sslcommerz'', or_gateway_val_id = JNull,
      or_gateway_bank_tran_id = JNull, or_gateway_card_type = JNull, or_raw_payload = None,
      or_paid_at = None\<rparr>"

definition create_order ::
  "string \<Rightarrow> (checkout_request \<Rightarrow> gateway_error + string) \<Rightarrow> (database \<Rightarrow> database) \<Rightarrow>
   (database \<Rightarrow> database) \<Rightarrow> uuid \<Rightarrow> string \<Rightarrow> instant \<Rightarrow> database \<Rightarrow> student \<Rightarrow> order_create \<Rightarrow>
   (handler_error + checkout_out) \<times> database" where
  "create_order public_base_url gateway env1 env2 new_id hex20 now db student payload =
     (let key = oc_idempotency_key payload; checkout = open_checkout public_base_url gateway env2 in
      case order_by_idempotency_key db key of
        Some existing \<Rightarrow>
          if or_student_id existing \<noteq> st_id student
          then (Inl (Http (HTTPException 409 ''Idempotency key already used'')), db)
          else if or_status existing = Order_paid
          then (Inl (Http (HTTPException 409 ''Order already paid'')), db)
          else checkout db existing student
      | None \<Rightarrow>
          (case get_product db (oc_product_id payload) of
             None \<Rightarrow> (Inl (Http (HTTPException 404 ''Product not available'')), db)
           | Some product \<Rightarrow>
               if \<not> pr_active product
               then (Inl (Http (HTTPException 404 ''Product not available'')), db)
               else
                 let order = new_order new_id hex20 now student product key; db1 = env1 db in
                 (case commit (db1\<lparr>db_orders := db_orders db1 @ [order]\<rparr>) of
                    Inl DataError \<Rightarrow> (Inl (UncaughtDb DataError), db1)
                  | Inl IntegrityError \<Rightarrow>
                      (case order_by_idempotency_key db1 key of
                         None \<Rightarrow> (Inl (Uncaught AttributeError), db1)
                       | Some winner \<Rightarrow> checkout db1 winner student)
                  | Inr db2 \<Rightarrow> checkout db2 order student)))"

section \<open>Settlement\<close>

type_synonym form = "(string \<times> string) list"

definition field :: "form \<Rightarrow> string \<Rightarrow> string" where
  "field fm k = (case map_of fm k of None \<Rightarrow> [] | Some v \<Rightarrow> v)"

datatype settlement_error =
  SettlementError nat string | SettleUncaught py_error | SettleUncaughtDb db_error

definition settle ::
  "(string \<Rightarrow> doc option) \<Rightarrow> (database \<Rightarrow> database) \<Rightarrow> issue_env \<Rightarrow> database \<Rightarrow> form \<Rightarrow>
   (settlement_error + order \<times> string) \<times> database" where
  "settle gateway env ienv db fm =
     (let tran_id = field fm ''tran_id'' in
      if tran_id = [] then (Inl (SettlementError 400 ''Missing tran_id''), db)
      else
      (case order_by_tran_id db tran_id of
         None \<Rightarrow> (Inl (SettlementError 404 ''Unknown transaction''), db)
       | Some order \<Rightarrow>
           if or_status order = Order_paid then (Inr (order, ''paid''), db)
           else
             let gateway_status = upper (field fm ''status''); db1 = env db in
             if gateway_status = ''FAILED'' \<or> gateway_status = ''CANCELLED''
             then
               let closed = order\<lparr>or_status :=
                     (if gateway_status = ''CANCELLED'' then Order_cancelled else Order_failed)\<rparr> in
               (case commit (flush_settled order closed None db1) of
                  Inl e \<Rightarrow> (Inl (SettleUncaughtDb e), db1)
                | Inr db2 \<Rightarrow> (Inr (closed, order_status_str (or_status closed)), db2))
             else
               let val_id = field fm ''val_id'' in
               if val_id = [] then (Inl (SettlementError 400 ''Missing val_id''), db)
               else
               (case validate gateway val_id of
                  Inl _ \<Rightarrow>
                    (Inl (SettlementError 502 ''Could not confirm payment, check your wallet later''), db1)
                | Inr answer \<Rightarrow>
                    let validation = doc_setdefault answer ''val_id'' (JStr val_id) in
                    (case apply_validation ienv db1 order validation of
                       Inl e \<Rightarrow> (Inl (SettleUncaught e), db1)
                     | Inr (outcome, settled, staged) \<Rightarrow>
                         (case commit (flush_settled order settled staged db1) of
                            Inl e \<Rightarrow>
                              if outcome = AMOUNT_MISMATCH \<or> e \<noteq> IntegrityError
                              then (Inl (SettleUncaughtDb e), db1)
                              else (Inr (order, PAID), db1)
                          | Inr db2 \<Rightarrow>
                              if outcome = AMOUNT_MISMATCH
                              then (Inl (SettlementError 400 ''Payment amount mismatch''), db2)
                              else (Inr (settled, outcome), db2))))))"

datatype return_answer = Redirect303 string | SettledBody string string

definition finish :: "string \<Rightarrow> (uuid \<Rightarrow> string) \<Rightarrow> order \<Rightarrow> string \<Rightarrow> return_answer" where
  "finish checkout_return_url uuid_text order outcome =
     (if checkout_return_url \<noteq> []
      then Redirect303 (rstrip_slash checkout_return_url @ ''?order='' @ uuid_text (or_id order) @
        ''&status='' @ outcome)
      else SettledBody (uuid_text (or_id order)) outcome)"

definition handler_error_of :: "settlement_error \<Rightarrow> handler_error" where
  "handler_error_of e = (case e of SettlementError n d \<Rightarrow> Http (HTTPException n d)
     | SettleUncaught p \<Rightarrow> Uncaught p | SettleUncaughtDb d \<Rightarrow> UncaughtDb d)"

definition handle_return ::
  "string \<Rightarrow> (uuid \<Rightarrow> string) \<Rightarrow> (string \<Rightarrow> doc option) \<Rightarrow> (database \<Rightarrow> database) \<Rightarrow> issue_env \<Rightarrow>
   database \<Rightarrow> form \<Rightarrow> (handler_error + return_answer) \<times> database" where
  "handle_return checkout_return_url uuid_text gateway env ienv db fm =
     (case settle gateway env ienv db fm of
        (Inl e, db') \<Rightarrow> (Inl (handler_error_of e), db')
      | (Inr (order, outcome), db') \<Rightarrow>
          (Inr (finish checkout_return_url uuid_text order outcome), db'))"

text \<open>The notification is answered with its outcome unless a retry can help.\<close>

definition payment_ipn ::
  "(string \<Rightarrow> doc option) \<Rightarrow> (database \<Rightarrow> database) \<Rightarrow> issue_env \<Rightarrow> database \<Rightarrow> form \<Rightarrow>
   (handler_error + string) \<times> database" where
  "payment_ipn gateway env ienv db fm =
     (case settle gateway env ienv db fm of
        (Inl (SettlementError n d), db') \<Rightarrow>
          if 500 \<le> n then (Inl (Http (HTTPException n d)), db') else (Inr ''rejected'', db')
      | (Inl e, db') \<Rightarrow> (Inl (handler_error_of e), db')
      | (Inr (_, outcome), db') \<Rightarrow> (Inr outcome, db'))"

section \<open>Reading the handlers\<close>

lemma order_by_tran_id_SomeD:
  "order_by_tran_id db s = Some x \<Longrightarrow> x \<in> set (db_orders db) \<and> or_tran_id x = s"
  by (auto simp: order_by_tran_id_def find_Some_iff)

lemma order_by_key_SomeD:
  "order_by_idempotency_key db s = Some x \<Longrightarrow> x \<in> set (db_orders db) \<and> or_idempotency_key x = s"
  by (auto simp: order_by_idempotency_key_def find_Some_iff)

lemma order_by_tran_id_mem:
  "db_ok db \<Longrightarrow> x \<in> set (db_orders db) \<Longrightarrow> order_by_tran_id db (or_tran_id x) = Some x"
  unfolding order_by_tran_id_def
  using row_get_mem [of or_tran_id "db_orders db" x]
  by (simp add: db_ok_def orders_ok_def row_get_def)

text \<open>
  The ways a settlement ends. Only one of them stages a decision, and it does so for the
  order that was looked up, on the answer the gateway gave for the submitted handle.
\<close>

lemma settle_cases:
  assumes "settle gateway env ienv db fm = (res, db')"
  obtains
    (idle) "db' = db \<or> db' = env db" "\<And>x. res = Inr (x, PAID) \<Longrightarrow> or_status x = Order_paid"
  | (closed) x s where "order_by_tran_id db (field fm ''tran_id'') = Some x" "or_status x \<noteq> Order_paid"
      "s = Order_cancelled \<or> s = Order_failed" "res = Inr (x\<lparr>or_status := s\<rparr>, order_status_str s)"
      "db' = flush_settled x (x\<lparr>or_status := s\<rparr>) None (env db)" "db_ok db'"
  | (lost) x answer out settled staged where
      "order_by_tran_id db (field fm ''tran_id'') = Some x" "or_status x \<noteq> Order_paid"
      "gateway (field fm ''val_id'') = Some answer"
      "apply_validation ienv (env db) x
         (doc_setdefault answer ''val_id'' (JStr (field fm ''val_id''))) = Inr (out, settled, staged)"
      "\<not> db_ok (flush_settled x settled staged (env db))" "res = Inr (x, PAID)" "db' = env db"
  | (decided) x answer out settled staged where
      "order_by_tran_id db (field fm ''tran_id'') = Some x" "or_status x \<noteq> Order_paid"
      "gateway (field fm ''val_id'') = Some answer"
      "apply_validation ienv (env db) x
         (doc_setdefault answer ''val_id'' (JStr (field fm ''val_id''))) = Inr (out, settled, staged)"
      "db' = flush_settled x settled staged (env db)" "db_ok db'"
      "res = (if out = AMOUNT_MISMATCH then Inl (SettlementError 400 ''Payment amount mismatch'')
         else Inr (settled, out))"
proof (cases "order_by_tran_id db (field fm ''tran_id'')")
  case None
  show thesis
    by (rule idle) (use assms None in \<open>auto simp: settle_def Let_def split: if_splits\<close>)
next
  case (Some x)
  let ?gs = "upper (field fm ''status'')"
  consider "field fm ''tran_id'' = [] \<or> or_status x = Order_paid"
    | "field fm ''tran_id'' \<noteq> []" "or_status x \<noteq> Order_paid" "?gs = ''FAILED'' \<or> ?gs = ''CANCELLED''"
    | "field fm ''tran_id'' \<noteq> []" "or_status x \<noteq> Order_paid"
      "\<not> (?gs = ''FAILED'' \<or> ?gs = ''CANCELLED'')"
    by blast
  then show thesis
  proof cases
    case 1
    then have eq: "settle gateway env ienv db fm =
      (if field fm ''tran_id'' = [] then (Inl (SettlementError 400 ''Missing tran_id''), db)
       else (Inr (x, ''paid''), db))"
      using Some by (cases "field fm ''tran_id'' = []") (simp_all add: settle_def Let_def)
    show thesis
    proof (rule idle)
      show "db' = db \<or> db' = env db" using assms [unfolded eq] by (simp split: if_splits)
      show "or_status y = Order_paid" if "res = Inr (y, PAID)" for y
        using assms [unfolded eq] that 1 by (simp split: if_splits)
    qed
  next
    case 2
    define s where "s = (if ?gs = ''CANCELLED'' then Order_cancelled else Order_failed)"
    have eq: "settle gateway env ienv db fm =
      (case commit (flush_settled x (x\<lparr>or_status := s\<rparr>) None (env db)) of
         Inl e \<Rightarrow> (Inl (SettleUncaughtDb e), env db)
       | Inr db2 \<Rightarrow> (Inr (x\<lparr>or_status := s\<rparr>, order_status_str s), db2))"
      using 2 Some by (simp add: settle_def Let_def s_def split: sum.split)
    show thesis
    proof (cases "commit (flush_settled x (x\<lparr>or_status := s\<rparr>) None (env db))")
      case (Inl e)
      show thesis by (rule idle) (use assms eq Inl in auto)
    next
      case (Inr d)
      show thesis
        by (rule closed [OF Some 2(2), of s]) (use assms eq Inr in \<open>auto simp: s_def\<close>)
    qed
  next
    case 3
    show thesis
    proof (cases "field fm ''val_id'' = [] \<or> gateway (field fm ''val_id'') = None")
      case True
      then have eq: "settle gateway env ienv db fm =
        (if field fm ''val_id'' = [] then (Inl (SettlementError 400 ''Missing val_id''), db)
         else (Inl (SettlementError 502 ''Could not confirm payment, check your wallet later''), env db))"
        using 3 Some
        by (cases "field fm ''val_id'' = []") (simp_all add: settle_def Let_def validate_def)
      show thesis by (rule idle) (use assms eq in \<open>auto split: if_splits\<close>)
    next
      case False
      then obtain answer where a: "gateway (field fm ''val_id'') = Some answer" by auto
      let ?v = "doc_setdefault answer ''val_id'' (JStr (field fm ''val_id''))"
      have eq: "settle gateway env ienv db fm =
        (case apply_validation ienv (env db) x ?v of
           Inl e \<Rightarrow> (Inl (SettleUncaught e), env db)
         | Inr (outcome, settled, staged) \<Rightarrow>
             (case commit (flush_settled x settled staged (env db)) of
                Inl e \<Rightarrow>
                  if outcome = AMOUNT_MISMATCH \<or> e \<noteq> IntegrityError
                  then (Inl (SettleUncaughtDb e), env db)
                  else (Inr (x, PAID), env db)
              | Inr db2 \<Rightarrow>
                  if outcome = AMOUNT_MISMATCH
                  then (Inl (SettlementError 400 ''Payment amount mismatch''), db2)
                  else (Inr (settled, outcome), db2)))"
        using 3 Some False a by (simp add: settle_def Let_def validate_def)
      show thesis
      proof (cases "apply_validation ienv (env db) x ?v")
        case (Inl e)
        show thesis by (rule idle) (use assms eq Inl in auto)
      next
        case (Inr dec)
        obtain out settled staged where dec: "dec = (out, settled, staged)" by (cases dec)
        note app = Inr [unfolded dec]
        show thesis
        proof (cases "commit (flush_settled x settled staged (env db))")
          case (Inr d)
          show thesis
            by (rule decided [OF Some 3(2) a app]) (use assms eq app Inr in \<open>auto split: if_splits\<close>)
        next
          case (Inl e)
          show thesis
          proof (cases "out = AMOUNT_MISMATCH \<or> e \<noteq> IntegrityError")
            case True
            show thesis by (rule idle) (use assms eq app Inl True in auto)
          next
            case False
            show thesis
              by (rule lost [OF Some 3(2) a app])
                (use assms eq app Inl False in \<open>auto dest: commit_InlD\<close>)
          qed
        qed
      qed
    qed
  qed
qed

text \<open>Settling with nobody in between keeps the books.\<close>

lemma settle_commerce_inv [inv_intros]:
  assumes "commerce_inv db" "settle gateway (\<lambda>d. d) ienv db fm = (res, db')"
  shows "commerce_inv db'"
  using assms(2)
proof (cases rule: settle_cases)
  case idle
  with assms(1) show ?thesis by auto
next
  case (closed x s)
  then have x: "x \<in> set (db_orders db)" by (auto dest: order_by_tran_id_SomeD)
  show ?thesis
    unfolding closed(5)
    by (rule flush_settled_inv [OF assms(1) _ x closed(2)]) (use closed in auto)
next
  case lost
  with assms(1) show ?thesis by simp
next
  case (decided x answer out settled staged)
  then have x: "x \<in> set (db_orders db)" by (auto dest: order_by_tran_id_SomeD)
  show ?thesis
    unfolding decided(5)
    by (rule apply_validation_inv [OF assms(1) x decided(2)]) (use decided in auto)
qed

section \<open>Properties\<close>

text \<open>
  C19. No ticket without verified money, whatever else happens meanwhile: if settling a
  report adds a ticket, the gateway itself answered for the submitted handle with a
  successful, unsuspicious record of exactly the amount and currency of the order that
  carries the submitted reference, and the ticket belongs to that order and its student. A
  forged report cannot choose the price, the outcome or the owner.
\<close>

theorem no_ticket_without_money:
  assumes "settle gateway env ienv db fm = (res, db')"
    and "t \<in> set (db_tickets db')" "t \<notin> set (db_tickets db)" "t \<notin> set (db_tickets (env db))"
  shows "\<exists>order answer. order_by_tran_id db (field fm ''tran_id'') = Some order \<and>
    gateway (field fm ''val_id'') = Some answer \<and>
    good_money order (doc_setdefault answer ''val_id'' (JStr (field fm ''val_id''))) \<and>
    tk_order_id t = or_id order \<and> tk_student_id t = or_student_id order \<and>
    tk_rides_remaining t = tk_rides_total t"
  using assms(1)
proof (cases rule: settle_cases)
  case (decided x answer out settled staged)
  with assms have "staged = Some t" by (cases staged) (auto simp: flush_settled_def)
  with decided have "good_money x (doc_setdefault answer ''val_id'' (JStr (field fm ''val_id'')))"
    "tk_order_id t = or_id x" "tk_student_id t = or_student_id x" "tk_rides_remaining t = tk_rides_total t"
    using apply_validation_staged [OF decided(4)] by (auto simp: good_money_def)
  with decided show ?thesis by blast
qed (use assms in auto)

definition demo_form :: form where
  "demo_form = [(''tran_id'', ''UT-2''), (''val_id'', ''v-1''), (''status'', ''VALID'')]"

definition demo_gateway :: "string \<Rightarrow> doc option" where
  "demo_gateway val_id = (if val_id = ''v-1'' then Some demo_validation else None)"

definition demo_paid :: database where
  "demo_paid = demo_db\<lparr>
     db_orders := [demo_order 91 Order_paid ''key-0001'' ''UT-1'', demo_settled],
     db_tickets := [demo_ticket, demo_new_ticket]\<rparr>"

lemma demo_pending: "order_by_tran_id demo_db ''UT-2'' = Some (demo_order 92 Order_pending ''key-0002'' ''UT-2'')"
  by (simp add: order_by_tran_id_def demo_db_def) (simp add: demo_order_def)

lemma demo_paid_ok: "db_ok demo_paid"
  by (simp add: db_ok_defs demo_paid_def demo_settled_def demo_new_ticket_def demo_defs
      unique_on_def fk_opt_def)

lemma demo_flush:
  "flush_settled (demo_order 92 Order_pending ''key-0002'' ''UT-2'') demo_settled (Some demo_new_ticket) demo_db
     = demo_paid"
  by (simp add: flush_settled_def demo_paid_def demo_db_def)
    (simp add: flush_order_def demo_settled_def demo_order_def)

lemma demo_settle:
  "settle demo_gateway (\<lambda>d. d) demo_ienv demo_db demo_form = (Inr (demo_settled, PAID), demo_paid)"
proof -
  have f: "field demo_form ''tran_id'' = ''UT-2''" "field demo_form ''val_id'' = ''v-1''"
    "field demo_form ''status'' = ''VALID''"
    by (simp_all add: field_def demo_form_def)
  have u: "upper ''VALID'' = ''VALID''" by code_simp
  have v: "doc_setdefault demo_validation ''val_id'' (JStr ''v-1'') = demo_validation"
    by (simp add: doc_setdefault_def demo_validation_def)
  have st: "or_status (demo_order 92 Order_pending k s) \<noteq> Order_paid" for k s
    by (simp add: demo_order_def)
  show ?thesis
    by (simp add: settle_def Let_def f demo_pending st u validate_def demo_gateway_def v demo_apply
        demo_flush demo_paid_ok) (simp add: outcomes)
qed

theorem no_ticket_without_money_witness:
  "\<exists>order answer. order_by_tran_id demo_db (field demo_form ''tran_id'') = Some order \<and>
    demo_gateway (field demo_form ''val_id'') = Some answer \<and>
    good_money order (doc_setdefault answer ''val_id'' (JStr (field demo_form ''val_id''))) \<and>
    tk_order_id demo_new_ticket = or_id order \<and> tk_student_id demo_new_ticket = or_student_id order \<and>
    tk_rides_remaining demo_new_ticket = tk_rides_total demo_new_ticket"
  by (rule no_ticket_without_money [OF demo_settle])
    (simp_all add: demo_paid_def demo_db_def demo_ticket_def demo_new_ticket_def)

text \<open>
  C24. Money that arrived becomes a ticket: when the gateway confirms good money for an
  unpaid order's amount, nobody writes in between, the product still exists, its validity fits
  the calendar and the ids are fresh, the report is answered as paid and the order is paid
  with its ticket in the database. The record's own \<^verbatim>\<open>tran_id\<close> plays no part.
\<close>

theorem confirmed_payment_gets_ticket:
  assumes "db_ok db" "order_by_tran_id db (field fm ''tran_id'') = Some order"
    and "field fm ''tran_id'' \<noteq> []" "field fm ''val_id'' \<noteq> []" "or_status order \<noteq> Order_paid"
    and "upper (field fm ''status'') \<noteq> ''FAILED''" "upper (field fm ''status'') \<noteq> ''CANCELLED''"
    and answer: "gateway (field fm ''val_id'') = Some answer"
      "good_money order (doc_setdefault answer ''val_id'' (JStr (field fm ''val_id'')))"
    and product: "get_product db (or_product_id order) = Some p"
      "is_now ienv + pr_validity_days p * day \<le> datetime_max"
    and fresh: "is_new_id ienv \<notin> tk_id ` set (db_tickets db)"
      "or_id order \<notin> tk_order_id ` set (db_tickets db)"
  shows "\<exists>order' t. fst (settle gateway (\<lambda>d. d) ienv db fm) = Inr (order', PAID) \<and>
    or_id order' = or_id order \<and> or_status order' = Order_paid \<and>
    order' \<in> set (db_orders (snd (settle gateway (\<lambda>d. d) ienv db fm))) \<and>
    t \<in> set (db_tickets (snd (settle gateway (\<lambda>d. d) ienv db fm))) \<and>
    tk_order_id t = or_id order \<and> tk_status t = Ticket_active \<and> tk_rides_remaining t = pr_ride_count p"
proof -
  let ?v = "doc_setdefault answer ''val_id'' (JStr (field fm ''val_id''))"
  have x: "order \<in> set (db_orders db)" using assms(2) by (auto dest: order_by_tran_id_SomeD)
  have pid: "pr_id p = or_product_id order" using product(1) by (auto dest: row_get_SomeD)
  obtain order' t where app: "apply_validation ienv db order ?v = Inr (PAID, order', Some t)"
    and o': "or_status order' = Order_paid"
    and t: "tk_id t = is_new_id ienv" "tk_order_id t = or_id order" "tk_student_id t = or_student_id order"
      "tk_product_id t = pr_id p" "tk_status t = Ticket_active" "tk_rides_remaining t = pr_ride_count p"
    using answer(2) product
    by (auto simp: apply_validation_def good_money_def issue_ticket_def generate_keypair_def Let_def)
  note same = apply_validation_same [OF app]
  have ok1: "db_ok (db\<lparr>db_orders := row_edit or_id (or_id order) (flush_order order order') (db_orders db)\<rparr>)"
    by (rule db_ok_edit_order) (simp_all add: assms(1))
  have ok: "db_ok (flush_settled order order' (Some t) db)"
  proof -
    have "get_order db (or_id order) \<noteq> None" using x by (auto simp: row_get_None_iff)
    moreover have "get_student db (or_student_id order) \<noteq> None"
      using assms(1) x by (auto simp: db_ok_def orders_ok_def list_all_iff)
    ultimately have "db_ok ((db\<lparr>db_orders := row_edit or_id (or_id order) (flush_order order order') (db_orders db)\<rparr>)
        \<lparr>db_tickets := db_tickets db @ [t]\<rparr>)"
      using db_ok_add_ticket [OF ok1, of t] t fresh pid product(1) by (simp add: row_get_edit_None)
    then show ?thesis by (simp add: flush_settled_def)
  qed
  have "settle gateway (\<lambda>d. d) ienv db fm = (Inr (order', PAID), flush_settled order order' (Some t) db)"
    using assms(2-7) answer(1) app ok
    by (simp add: settle_def Let_def validate_def) (simp add: outcomes)
  moreover have "order' \<in> set (db_orders (flush_settled order order' (Some t) db))"
    using assms(1) x same by (subst flush_settled_orders) (simp_all add: db_ok_def orders_ok_def)
  ultimately show ?thesis
    using o' t same by (intro exI [of _ order'] exI [of _ t]) (simp add: same_order_def)
qed

theorem confirmed_payment_gets_ticket_witness:
  "let order = demo_order 92 Order_pending ''key-0002'' ''UT-2'' in
   \<exists>order' t. fst (settle demo_gateway (\<lambda>d. d) demo_ienv demo_db demo_form) = Inr (order', PAID) \<and>
    or_id order' = or_id order \<and> or_status order' = Order_paid \<and>
    order' \<in> set (db_orders (snd (settle demo_gateway (\<lambda>d. d) demo_ienv demo_db demo_form))) \<and>
    t \<in> set (db_tickets (snd (settle demo_gateway (\<lambda>d. d) demo_ienv demo_db demo_form))) \<and>
    tk_order_id t = or_id order \<and> tk_status t = Ticket_active \<and>
    tk_rides_remaining t = pr_ride_count demo_product"
  unfolding Let_def
proof (rule confirmed_payment_gets_ticket [OF demo_db_ok])
  have f: "field demo_form ''tran_id'' = ''UT-2''" "field demo_form ''val_id'' = ''v-1''"
    "field demo_form ''status'' = ''VALID''"
    by (simp_all add: field_def demo_form_def)
  have u: "upper ''VALID'' = ''VALID''" by code_simp
  show "order_by_tran_id demo_db (field demo_form ''tran_id'') = Some (demo_order 92 Order_pending ''key-0002'' ''UT-2'')"
    by (simp add: f demo_pending)
  show "field demo_form ''tran_id'' \<noteq> []" "field demo_form ''val_id'' \<noteq> []" by (simp_all add: f)
  show "upper (field demo_form ''status'') \<noteq> ''FAILED''" "upper (field demo_form ''status'') \<noteq> ''CANCELLED''"
    by (simp_all add: f u)
  show "demo_gateway (field demo_form ''val_id'') = Some demo_validation" by (simp add: f demo_gateway_def)
  have "doc_setdefault demo_validation ''val_id'' (JStr ''v-1'') = demo_validation"
    by (simp add: doc_setdefault_def demo_validation_def)
  then show "good_money (demo_order 92 Order_pending ''key-0002'' ''UT-2'')
      (doc_setdefault demo_validation ''val_id'' (JStr (field demo_form ''val_id'')))"
    using demo_good_money by (simp add: f good_money_def demo_order_def)
qed (simp_all add: demo_order_def demo_db_def demo_product_def demo_ienv_def demo_ticket_def
    demo_now_def datetime_max_def)

text \<open>
  Reports of one payment that race produce one ticket: if another report issued the
  order's ticket while this one was asking the gateway, this one's ticket is refused by the
  database, it writes nothing, and it is answered as paid.
\<close>

theorem racing_report_issues_no_second_ticket:
  assumes "order_by_tran_id db (field fm ''tran_id'') = Some order"
    and "field fm ''tran_id'' \<noteq> []" "field fm ''val_id'' \<noteq> []" "or_status order \<noteq> Order_paid"
    and "upper (field fm ''status'') \<noteq> ''FAILED''" "upper (field fm ''status'') \<noteq> ''CANCELLED''"
    and answer: "gateway (field fm ''val_id'') = Some answer"
      "apply_validation ienv (env db) order
         (doc_setdefault answer ''val_id'' (JStr (field fm ''val_id''))) = Inr (PAID, order', staged)"
    and won: "t \<in> set (db_tickets (env db))" "tk_order_id t = or_id order" and "db_ok (env db)"
  shows "settle gateway env ienv db fm = (Inr (order, PAID), env db)"
proof -
  obtain t' where t': "staged = Some t'" "tk_order_id t' = or_id order"
    using apply_validation_staged [OF answer(2)] by auto
  then have "\<not> distinct (map tk_order_id (db_tickets (flush_settled order order' staged (env db))))"
    using won by (auto simp: image_iff intro!: bexI [of _ t])
  then have "\<not> db_ok (flush_settled order order' staged (env db))" by (simp add: db_ok_def tickets_ok_def)
  then have "commit (flush_settled order order' staged (env db)) = Inl IntegrityError"
    using commit_same_boardings [OF assms(11), of "flush_settled order order' staged (env db)"] by simp
  then show ?thesis
    using assms(1-6) answer by (simp add: settle_def Let_def validate_def) (simp add: outcomes)
qed

theorem racing_report_issues_no_second_ticket_witness:
  "settle demo_gateway (\<lambda>_. demo_paid) (demo_ienv\<lparr>is_new_id := 103\<rparr>) demo_db demo_form
     = (Inr (demo_order 92 Order_pending ''key-0002'' ''UT-2'', PAID), demo_paid)"
proof (rule racing_report_issues_no_second_ticket)
  have f: "field demo_form ''tran_id'' = ''UT-2''" "field demo_form ''val_id'' = ''v-1''"
    "field demo_form ''status'' = ''VALID''"
    by (simp_all add: field_def demo_form_def)
  have u: "upper ''VALID'' = ''VALID''" by code_simp
  have v: "doc_setdefault demo_validation ''val_id'' (JStr ''v-1'') = demo_validation"
    by (simp add: doc_setdefault_def demo_validation_def)
  show "order_by_tran_id demo_db (field demo_form ''tran_id'') = Some (demo_order 92 Order_pending ''key-0002'' ''UT-2'')"
    by (simp add: f demo_pending)
  show "upper (field demo_form ''status'') \<noteq> ''FAILED''" "upper (field demo_form ''status'') \<noteq> ''CANCELLED''"
    "field demo_form ''tran_id'' \<noteq> []" "field demo_form ''val_id'' \<noteq> []"
    by (simp_all add: f u)
  show "demo_gateway (field demo_form ''val_id'') = Some demo_validation" by (simp add: f demo_gateway_def)
  have p: "get_product demo_paid 81 = Some demo_product"
    by (simp add: demo_paid_def demo_db_def demo_product_def)
  show "apply_validation (demo_ienv\<lparr>is_new_id := 103\<rparr>) demo_paid (demo_order 92 Order_pending ''key-0002'' ''UT-2'')
      (doc_setdefault demo_validation ''val_id'' (JStr (field demo_form ''val_id'')))
      = Inr (PAID, demo_settled, Some (demo_new_ticket\<lparr>tk_id := 103\<rparr>))"
    unfolding apply_validation_def Let_def f v
    by (simp add: demo_good_money demo_order_def issue_ticket_def p)
      (simp add: demo_product_def demo_ienv_def demo_now_def datetime_max_def generate_keypair_def
        demo_settled_def demo_order_def demo_new_ticket_def demo_validation_def doc_get_def py_or_def)
  show "demo_new_ticket \<in> set (db_tickets demo_paid)" by (simp add: demo_paid_def)
qed (simp_all add: demo_order_def demo_new_ticket_def demo_paid_ok)

section \<open>Orders\<close>

lemma open_checkout_cases:
  assumes "open_checkout url gateway env db order student = (res, db')"
  obtains (failed) e where "res = Inl e" "db' = db \<or> db' = env db"
  | (opened) out where "res = Inr out" "co_order_id out = or_id order" "co_tran_id out = or_tran_id order"
      "co_amount_paisa out = or_amount_paisa order"
      "db' = flush_settled order (order\<lparr>or_status := Order_pending\<rparr>) None (env db)" "db_ok db'"
proof (cases "(get_product db (or_product_id order), get_user db (st_user_id student))")
  case (Pair a b)
  show thesis
  proof (cases "\<exists>p u. a = Some p \<and> b = Some u")
    case False
    show thesis
      by (rule failed) (use assms Pair False in \<open>auto simp: open_checkout_def split: option.splits\<close>)
  next
    case True
    then obtain p u where "a = Some p" "b = Some u" by blast
    with assms Pair have eq: "(res, db') = (case gateway (checkout_request url order u p) of
        Inl _ \<Rightarrow> (Inl (Http (HTTPException 502 ''Payment gateway unavailable, try again'')), env db)
      | Inr checkout_url \<Rightarrow>
          let pending = order\<lparr>or_status := Order_pending\<rparr> in
          (case commit (flush_settled order pending None (env db)) of
             Inl e \<Rightarrow> (Inl (UncaughtDb e), env db)
           | Inr db' \<Rightarrow> (Inr \<lparr>co_order_id = or_id order, co_tran_id = or_tran_id order,
               co_amount_paisa = or_amount_paisa order, co_currency = or_currency order,
               co_status = Order_pending, co_checkout_url = checkout_url\<rparr>, db')))"
      by (simp add: open_checkout_def)
    show thesis
    proof (cases "gateway (checkout_request url order u p)")
      case (Inl e)
      show thesis by (rule failed) (use eq Inl in auto)
    next
      case (Inr link)
      show thesis
      proof (cases "commit (flush_settled order (order\<lparr>or_status := Order_pending\<rparr>) None (env db))")
        case (Inl e)
        show thesis by (rule failed) (use eq Inl \<open>gateway _ = Inr link\<close> in \<open>auto simp: Let_def\<close>)
      next
        case (Inr d)
        then show thesis using eq \<open>gateway _ = Inr link\<close> by (intro opened) (auto simp: Let_def)
      qed
    qed
  qed
qed

lemma open_checkout_commerce_inv:
  assumes "commerce_inv db" "open_checkout url gateway (\<lambda>d. d) db order student = (res, db')"
    and "order \<in> set (db_orders db)" "or_status order \<noteq> Order_paid"
  shows "commerce_inv db'"
  using assms(2)
proof (cases rule: open_checkout_cases)
  case failed
  with assms(1) show ?thesis by auto
next
  case opened
  show ?thesis
    unfolding opened(5)
    by (rule flush_settled_inv [OF assms(1) _ assms(3,4)]) (use opened in auto)
qed

lemma add_order_inv:
  assumes "commerce_inv db" "db_ok (db\<lparr>db_orders := db_orders db @ [x]\<rparr>)" "or_status x \<noteq> Order_paid"
  shows "commerce_inv (db\<lparr>db_orders := db_orders db @ [x]\<rparr>)"
proof -
  let ?db = "db\<lparr>db_orders := db_orders db @ [x]\<rparr>"
  have "ride_account ?db = ride_account db"
    by (intro ext ride_account_cong) (simp add: rides_used_def)
  with assms show ?thesis
    by (auto simp: commerce_inv_def boarding_inv_def rides_ok_def counted_once_def
        paid_has_ticket_def ticket_is_paid_def products_ok_def)
qed

lemma create_order_commerce_inv [inv_intros]:
  assumes inv: "commerce_inv db"
    and "create_order url gateway (\<lambda>d. d) (\<lambda>d. d) new_id hex20 now db student payload = (res, db')"
  shows "commerce_inv db'"
proof (cases "order_by_idempotency_key db (oc_idempotency_key payload)")
  case (Some x)
  then have x: "x \<in> set (db_orders db)" by (auto dest: order_by_key_SomeD)
  with assms Some show ?thesis
    by (auto simp: create_order_def Let_def split: if_splits intro: open_checkout_commerce_inv)
next
  case None
  show ?thesis
  proof (cases "\<exists>p. get_product db (oc_product_id payload) = Some p \<and> pr_active p")
    case False
    with assms None show ?thesis
      by (auto simp: create_order_def Let_def split: option.splits if_splits)
  next
    case True
    then obtain p where p: "get_product db (oc_product_id payload) = Some p" "pr_active p" by blast
    let ?x = "new_order new_id hex20 now student p (oc_idempotency_key payload)"
    let ?db = "db\<lparr>db_orders := db_orders db @ [?x]\<rparr>"
    show ?thesis
    proof (cases "db_ok ?db")
      case True
      then have "commerce_inv ?db" by (intro add_order_inv inv) (simp_all add: new_order_def)
      moreover have "open_checkout url gateway (\<lambda>d. d) ?db ?x student = (res, db')"
        using assms(2) None p True by (simp add: create_order_def Let_def)
      ultimately show ?thesis
        by (rule open_checkout_commerce_inv) (simp_all add: new_order_def)
    next
      case False
      with assms None p show ?thesis
        by (auto simp: create_order_def Let_def split: sum.splits db_error.splits)
    qed
  qed
qed

text \<open>
  An idempotency key buys once: with nobody in between, a successful order request
  leaves exactly one order with the submitted key, the caller's own; if the key was known the
  number of orders is unchanged and the checkout is for the amount agreed then; if it was new
  one order was added for an active product at its price.
\<close>

theorem order_request_is_idempotent:
  assumes "create_order url gateway (\<lambda>d. d) (\<lambda>d. d) new_id hex20 now db student payload = (Inr out, db')"
    and "db_ok db"
  shows "\<exists>order. filter (\<lambda>x. or_idempotency_key x = oc_idempotency_key payload) (db_orders db') = [order] \<and>
    or_id order = co_order_id out \<and> or_student_id order = st_id student \<and>
    or_status order = Order_pending \<and> or_amount_paisa order = co_amount_paisa out \<and>
    (case order_by_idempotency_key db (oc_idempotency_key payload) of
       Some existing \<Rightarrow> length (db_orders db') = length (db_orders db) \<and>
         or_id order = or_id existing \<and> or_amount_paisa order = or_amount_paisa existing
     | None \<Rightarrow> length (db_orders db') = length (db_orders db) + 1 \<and>
         (\<exists>p. get_product db (oc_product_id payload) = Some p \<and> pr_active p \<and>
            or_product_id order = pr_id p \<and> or_amount_paisa order = pr_price_paisa p))"
proof -
  let ?key = "oc_idempotency_key payload"
  have one: "filter (\<lambda>x. or_idempotency_key x = ?key) (db_orders d') = [o1]"
    if "db_ok d'" "o1 \<in> set (db_orders d')" "or_idempotency_key o1 = ?key" for d' o1
    using filter_key [of or_idempotency_key "db_orders d'" o1] that by (simp add: db_ok_def orders_ok_def)
  have pend: "db_ok d' \<Longrightarrow> x \<in> set (db_orders d) \<Longrightarrow> db_ok d \<Longrightarrow>
      d' = flush_settled x (x\<lparr>or_status := Order_pending\<rparr>) None d \<Longrightarrow>
      x\<lparr>or_status := Order_pending\<rparr> \<in> set (db_orders d') \<and> length (db_orders d') = length (db_orders d)"
    for d d' x
    by (simp add: flush_settled_orders db_ok_def orders_ok_def) (simp add: flush_settled_def)
  show ?thesis
  proof (cases "order_by_idempotency_key db ?key")
    case (Some x)
    then have x: "x \<in> set (db_orders db)" "or_idempotency_key x = ?key"
      by (auto dest: order_by_key_SomeD)
    have mine: "or_student_id x = st_id student"
      and "open_checkout url gateway (\<lambda>d. d) db x student = (Inr out, db')"
      using assms(1) Some by (auto simp: create_order_def Let_def split: if_splits)
    from this(2) show ?thesis
    proof (cases rule: open_checkout_cases)
      case opened
      with pend [OF _ x(1) assms(2)] one [of db' "x\<lparr>or_status := Order_pending\<rparr>"] x mine Some
      show ?thesis by simp
    qed simp
  next
    case None
    then obtain p where p: "get_product db (oc_product_id payload) = Some p" "pr_active p"
      using assms(1) by (auto simp: create_order_def Let_def split: option.splits if_splits)
    let ?x = "new_order new_id hex20 now student p ?key"
    let ?db = "db\<lparr>db_orders := db_orders db @ [?x]\<rparr>"
    have ok: "db_ok ?db" and
      open1: "open_checkout url gateway (\<lambda>d. d) ?db ?x student = (Inr out, db')"
      using assms(1) None p by (auto simp: create_order_def Let_def split: sum.splits db_error.splits)
    from open1 show ?thesis
    proof (cases rule: open_checkout_cases)
      case opened
      with pend [of db' ?x ?db] one [of db' "?x\<lparr>or_status := Order_pending\<rparr>"] ok None p
      show ?thesis by (simp add: new_order_def)
    qed simp
  qed
qed

definition demo_checkout :: "checkout_request \<Rightarrow> gateway_error + string" where
  "demo_checkout r = Inr ''https://pay.example/1''"

theorem order_request_is_idempotent_witness:
  "let db = demo_db; payload = \<lparr>oc_product_id = 81, oc_idempotency_key = ''key-0002''\<rparr>;
       out = \<lparr>co_order_id = 92, co_tran_id = ''UT-2'', co_amount_paisa = 10000, co_currency = ''BDT'',
         co_status = Order_pending, co_checkout_url = ''https://pay.example/1''\<rparr> in
   \<exists>order. filter (\<lambda>x. or_idempotency_key x = oc_idempotency_key payload) (db_orders db) = [order] \<and>
    or_id order = co_order_id out \<and> or_student_id order = st_id demo_student \<and>
    or_status order = Order_pending \<and> or_amount_paisa order = co_amount_paisa out \<and>
    (case order_by_idempotency_key db (oc_idempotency_key payload) of
       Some existing \<Rightarrow> length (db_orders db) = length (db_orders db) \<and>
         or_id order = or_id existing \<and> or_amount_paisa order = or_amount_paisa existing
     | None \<Rightarrow> length (db_orders db) = length (db_orders db) + 1 \<and>
         (\<exists>p. get_product db (oc_product_id payload) = Some p \<and> pr_active p \<and>
            or_product_id order = pr_id p \<and> or_amount_paisa order = pr_price_paisa p))"
  unfolding Let_def
proof (rule order_request_is_idempotent [OF _ demo_db_ok])
  let ?x = "demo_order 92 Order_pending ''key-0002'' ''UT-2''"
  have key: "order_by_idempotency_key demo_db ''key-0002'' = Some ?x"
    by (simp add: order_by_idempotency_key_def demo_db_def) (simp add: demo_order_def)
  have flush: "flush_settled ?x (?x\<lparr>or_status := Order_pending\<rparr>) None demo_db = demo_db"
    by (simp add: flush_settled_def demo_db_def) (simp add: flush_order_def demo_order_def)
  have p: "get_product demo_db 81 = Some demo_product" by (simp add: demo_db_def demo_product_def)
  have u: "get_user demo_db 1 = Some (demo_user 1 ''a@x.edu'' Role_student)"
    by (simp add: demo_db_def demo_user_def)
  have "open_checkout '''' demo_checkout (\<lambda>d. d) demo_db ?x demo_student =
    (Inr \<lparr>co_order_id = 92, co_tran_id = ''UT-2'', co_amount_paisa = 10000, co_currency = ''BDT'',
       co_status = Order_pending, co_checkout_url = ''https://pay.example/1''\<rparr>, demo_db)"
    unfolding open_checkout_def flush
    by (simp add: demo_order_def demo_student_def p u [simplified] demo_checkout_def demo_db_ok
        flush [unfolded demo_order_def, simplified])
  then show "create_order '''' demo_checkout (\<lambda>d. d) (\<lambda>d. d) 93 ''x'' demo_now demo_db demo_student
      \<lparr>oc_product_id = 81, oc_idempotency_key = ''key-0002''\<rparr> =
    (Inr \<lparr>co_order_id = 92, co_tran_id = ''UT-2'', co_amount_paisa = 10000, co_currency = ''BDT'',
       co_status = Order_pending, co_checkout_url = ''https://pay.example/1''\<rparr>, demo_db)"
    by (simp add: create_order_def Let_def key) (simp add: demo_order_def demo_student_def)
qed

section \<open>What the code does with one payment reported twice, and with late reports\<close>

text \<open>A second unpaid order of the same price.\<close>

definition demo_two_orders :: database where
  "demo_two_orders = demo_paid\<lparr>db_orders := db_orders demo_paid @
     [demo_order 93 Order_pending ''key-0003'' ''UT-3'']\<rparr>"

definition second_form :: form where
  "second_form = [(''tran_id'', ''UT-3''), (''val_id'', ''v-1''), (''status'', ''VALID'')]"

text \<open>
  One payment buys as many orders as cost the same: the gateway's record for payment
  \<open>v-1\<close> says it paid reference \<open>UT-2\<close>, which already has its ticket; reporting the
  same \<open>v-1\<close> for the unpaid order \<open>UT-3\<close> is answered as paid and issues a second ticket,
  because the record's reference is never compared with the order's.
\<close>

theorem one_payment_buys_two_orders:
  "doc_get demo_validation ''tran_id'' = JStr ''UT-2'' \<and>
   db_ok demo_two_orders \<and> commerce_inv demo_two_orders \<and>
   map tk_order_id (db_tickets demo_two_orders) = [91, 92] \<and>
   (\<exists>order db'. settle demo_gateway (\<lambda>d. d) (demo_ienv\<lparr>is_new_id := 103\<rparr>) demo_two_orders second_form
      = (Inr (order, PAID), db') \<and> or_tran_id order = ''UT-3'' \<and>
      map tk_order_id (db_tickets db') = [91, 92, 93])"
proof (intro conjI)
  show "doc_get demo_validation ''tran_id'' = JStr ''UT-2''"
    by (simp add: demo_validation_def doc_get_def)
  show ok: "db_ok demo_two_orders"
    by (simp add: db_ok_defs demo_two_orders_def demo_paid_def demo_settled_def demo_new_ticket_def
        demo_defs unique_on_def fk_opt_def)
  show "map tk_order_id (db_tickets demo_two_orders) = [91, 92]"
    by (simp add: demo_two_orders_def demo_paid_def demo_ticket_def demo_new_ticket_def)
  have "commerce_inv demo_paid" by (rule settle_commerce_inv [OF demo_commerce_inv demo_settle])
  then show "commerce_inv demo_two_orders"
    using ok add_order_inv [of demo_paid "demo_order 93 Order_pending ''key-0003'' ''UT-3''"]
    by (simp add: demo_two_orders_def demo_order_def)
  let ?x = "demo_order 93 Order_pending ''key-0003'' ''UT-3''"
  have f: "field second_form ''tran_id'' = ''UT-3''" "field second_form ''val_id'' = ''v-1''"
    "field second_form ''status'' = ''VALID''"
    by (simp_all add: field_def second_form_def)
  have u: "upper ''VALID'' = ''VALID''" by code_simp
  have v: "doc_setdefault demo_validation ''val_id'' (JStr ''v-1'') = demo_validation"
    by (simp add: doc_setdefault_def demo_validation_def)
  have x: "order_by_tran_id demo_two_orders ''UT-3'' = Some ?x"
    by (simp add: order_by_tran_id_def demo_two_orders_def demo_paid_def)
      (simp add: demo_order_def demo_settled_def)
  have st: "or_status ?x \<noteq> Order_paid" by (simp add: demo_order_def)
  have p: "get_product demo_two_orders 81 = Some demo_product"
    by (simp add: demo_two_orders_def demo_paid_def demo_db_def demo_product_def)
  obtain x' where app: "apply_validation (demo_ienv\<lparr>is_new_id := 103\<rparr>) demo_two_orders ?x demo_validation
      = Inr (PAID, x', Some (demo_new_ticket\<lparr>tk_id := 103, tk_order_id := 93\<rparr>))"
    unfolding apply_validation_def Let_def
    by (simp add: demo_good_money demo_order_def issue_ticket_def p)
      (simp add: demo_product_def demo_ienv_def demo_now_def datetime_max_def generate_keypair_def
        demo_new_ticket_def)
  let ?db = "flush_settled ?x x' (Some (demo_new_ticket\<lparr>tk_id := 103, tk_order_id := 93\<rparr>)) demo_two_orders"
  have "db_ok (demo_two_orders\<lparr>db_orders := row_edit or_id 93 (flush_order ?x x') (db_orders demo_two_orders)\<rparr>)"
    by (rule db_ok_edit_order) (simp_all add: ok)
  then have "db_ok ((demo_two_orders\<lparr>db_orders := row_edit or_id 93 (flush_order ?x x') (db_orders demo_two_orders)\<rparr>)
      \<lparr>db_tickets := db_tickets demo_two_orders @ [demo_new_ticket\<lparr>tk_id := 103, tk_order_id := 93\<rparr>]\<rparr>)"
    by (rule db_ok_add_ticket [of "demo_two_orders\<lparr>db_orders := row_edit or_id 93 (flush_order ?x x') (db_orders demo_two_orders)\<rparr>", simplified])
      (simp_all add: row_get_edit_None demo_two_orders_def demo_paid_def demo_ticket_def demo_new_ticket_def
        demo_order_def demo_settled_def demo_db_def demo_student_def demo_product_def)
  then have "db_ok ?db" by (simp add: flush_settled_def demo_order_def)
  then have "settle demo_gateway (\<lambda>d. d) (demo_ienv\<lparr>is_new_id := 103\<rparr>) demo_two_orders second_form
      = (Inr (x', PAID), ?db)"
    by (simp add: settle_def Let_def f x st u validate_def demo_gateway_def v app) (simp add: outcomes)
  moreover have "or_tran_id x' = ''UT-3''"
    using apply_validation_keeps(2) [OF app] by (simp add: demo_order_def)
  moreover have "map tk_order_id (db_tickets ?db) = [91, 92, 93]"
    by (simp add: demo_two_orders_def demo_paid_def demo_ticket_def demo_new_ticket_def)
  ultimately show "\<exists>order db'. settle demo_gateway (\<lambda>d. d) (demo_ienv\<lparr>is_new_id := 103\<rparr>) demo_two_orders
      second_form = (Inr (order, PAID), db') \<and> or_tran_id order = ''UT-3'' \<and>
      map tk_order_id (db_tickets db') = [91, 92, 93]" by (intro exI conjI)
qed

text \<open>
  A late failure report un-pays an order: a report of a failed attempt that read the
  order before the successful one committed writes its status over the paid order, which
  keeps its ticket; with the gateway's record already stored, nothing looks at it again.
\<close>

theorem late_failure_report_unpays:
  "\<exists>order db'. settle demo_gateway (\<lambda>_. demo_paid) demo_ienv demo_db
      [(''tran_id'', ''UT-2''), (''status'', ''FAILED'')] = (Inr (order, ''failed''), db') \<and>
    (\<exists>x \<in> set (db_orders db'). or_id x = 92 \<and> or_status x = Order_failed \<and> or_raw_payload x \<noteq> None \<and>
      (\<exists>t \<in> set (db_tickets db'). tk_order_id t = or_id x \<and> tk_status t = Ticket_active)) \<and>
    \<not> commerce_inv db'"
proof -
  let ?x = "demo_order 92 Order_pending ''key-0002'' ''UT-2''"
  let ?db = "flush_settled ?x (?x\<lparr>or_status := Order_failed\<rparr>) None demo_paid"
  let ?y = "demo_settled\<lparr>or_status := Order_failed\<rparr>"
  have u: "upper ''FAILED'' = ''FAILED''" by code_simp
  have ok: "db_ok ?db"
    using db_ok_edit_order [of "flush_order ?x (?x\<lparr>or_status := Order_failed\<rparr>)" demo_paid 92] demo_paid_ok
    by (simp add: flush_settled_def demo_order_def)
  have st: "or_status ?x \<noteq> Order_paid" by (simp add: demo_order_def)
  have s: "settle demo_gateway (\<lambda>_. demo_paid) demo_ienv demo_db
      [(''tran_id'', ''UT-2''), (''status'', ''FAILED'')]
      = (Inr (?x\<lparr>or_status := Order_failed\<rparr>, ''failed''), ?db)"
    using ok by (simp add: settle_def Let_def field_def demo_pending st u)
  have y: "?y \<in> set (db_orders ?db)" "demo_new_ticket \<in> set (db_tickets ?db)"
    by (simp_all add: flush_settled_def demo_paid_def)
      (simp add: flush_order_def demo_settled_def demo_order_def)
  have inj: "inj_on or_id (set (db_orders ?db))"
    using ok by (simp add: db_ok_def orders_ok_def distinct_map)
  have "or_id ?y = 92" by (simp add: demo_settled_def demo_order_def)
  then have uniq: "x = ?y" if "x \<in> set (db_orders ?db)" "or_id x = 92" for x
    using inj_onD [OF inj _ that(1) y(1)] that(2) by simp
  have "\<not> ticket_is_paid ?db"
  proof
    assume "ticket_is_paid ?db"
    then obtain x where "x \<in> set (db_orders ?db)" "or_id x = 92" "or_status x = Order_paid"
      using y(2) by (auto simp: ticket_is_paid_def demo_new_ticket_def)
    with uniq have "?y = x" by simp
    then have "or_status ?y = Order_paid" using \<open>or_status x = Order_paid\<close> by (simp only:)
    then show False by simp
  qed
  then have "\<not> commerce_inv ?db" by (simp add: commerce_inv_def)
  moreover have "\<exists>x \<in> set (db_orders ?db). or_id x = 92 \<and> or_status x = Order_failed \<and>
      or_raw_payload x \<noteq> None \<and>
      (\<exists>t \<in> set (db_tickets ?db). tk_order_id t = or_id x \<and> tk_status t = Ticket_active)"
    by (rule bexI [OF _ y(1)], intro conjI bexI [OF _ y(2)])
      (simp_all add: demo_settled_def demo_order_def demo_new_ticket_def)
  ultimately show ?thesis using s by (intro exI conjI)
qed

definition demo_student2 :: student where
  "demo_student2 = demo_student\<lparr>st_id := 12, st_user_id := 4, st_student_id_no := ''2020-2''\<rparr>"

definition demo_two_students :: database where
  "demo_two_students = demo_db\<lparr>
     db_users := db_users demo_db @ [demo_user 4 ''d@x.edu'' Role_student],
     db_students := [demo_student, demo_student2]\<rparr>"

text \<open>
  A raced key opens another student's order: a student whose request loses the race for
  a key gets a checkout for the winner's order without the ownership check that the same
  request would meet a moment later, when it is refused.
\<close>

theorem raced_key_opens_foreign_order:
  "let payload = \<lparr>oc_product_id = 81, oc_idempotency_key = ''key-0002''\<rparr>;
       before = demo_two_students\<lparr>db_orders := [demo_order 91 Order_paid ''key-0001'' ''UT-1'']\<rparr> in
   (\<exists>out db'. create_order ''x'' demo_checkout (\<lambda>_. demo_two_students) (\<lambda>d. d) 94 ''x'' demo_now before
      demo_student2 payload = (Inr out, db') \<and> co_order_id out = 92 \<and>
      (\<forall>x \<in> set (db_orders demo_two_students). or_id x = 92 \<longrightarrow> or_student_id x \<noteq> st_id demo_student2)) \<and>
   create_order ''x'' demo_checkout (\<lambda>d. d) (\<lambda>d. d) 94 ''x'' demo_now demo_two_students demo_student2 payload
     = (Inl (Http (HTTPException 409 ''Idempotency key already used'')), demo_two_students)"
proof -
  let ?x = "demo_order 92 Order_pending ''key-0002'' ''UT-2''"
  let ?before = "demo_two_students\<lparr>db_orders := [demo_order 91 Order_paid ''key-0001'' ''UT-1'']\<rparr>"
  have k0: "order_by_idempotency_key ?before ''key-0002'' = None"
    by (simp add: order_by_idempotency_key_def demo_order_def)
  have k1: "order_by_idempotency_key demo_two_students ''key-0002'' = Some ?x"
    by (simp add: order_by_idempotency_key_def demo_two_students_def demo_db_def) (simp add: demo_order_def)
  have p: "get_product ?before 81 = Some demo_product" "get_product demo_two_students 81 = Some demo_product"
    by (simp_all add: demo_two_students_def demo_db_def demo_product_def)
  have pa: "pr_active demo_product" by (simp add: demo_product_def)
  have u: "get_user demo_two_students (st_user_id demo_student2) = Some (demo_user 4 ''d@x.edu'' Role_student)"
    by (simp add: demo_two_students_def demo_db_def demo_user_def demo_student2_def demo_student_def)
  have ok: "db_ok demo_two_students"
    by (simp add: db_ok_defs demo_two_students_def demo_student2_def demo_defs unique_on_def fk_opt_def)
  let ?new = "new_order 94 ''x'' demo_now demo_student2 demo_product ''key-0002''"
  have "\<not> db_ok (demo_two_students\<lparr>db_orders := db_orders demo_two_students @ [?new]\<rparr>)"
    by (simp add: db_ok_def orders_ok_def new_order_def)
      (simp add: demo_two_students_def demo_db_def demo_order_def)
  then have dup: "commit (demo_two_students\<lparr>db_orders := db_orders demo_two_students @ [?new]\<rparr>)
      = Inl IntegrityError"
    using commit_same_boardings [OF ok] by simp
  have flush: "flush_settled ?x (?x\<lparr>or_status := Order_pending\<rparr>) None demo_two_students = demo_two_students"
    by (simp add: flush_settled_def demo_two_students_def demo_db_def)
      (simp add: flush_order_def demo_order_def)
  have pid: "or_product_id ?x = 81" "or_student_id ?x = 11" by (simp_all add: demo_order_def)
  have checkout: "\<exists>out. open_checkout ''x'' demo_checkout (\<lambda>d. d) demo_two_students ?x demo_student2
      = (Inr out, demo_two_students) \<and> co_order_id out = or_id ?x"
    unfolding open_checkout_def flush by (simp add: pid p u demo_checkout_def ok flush Let_def)
  have id: "or_id ?x = 92" "st_id demo_student2 = 12"
    by (simp_all add: demo_order_def demo_student2_def)
  have "create_order ''x'' demo_checkout (\<lambda>_. demo_two_students) (\<lambda>d. d) 94 ''x'' demo_now ?before demo_student2
      \<lparr>oc_product_id = 81, oc_idempotency_key = ''key-0002''\<rparr>
      = open_checkout ''x'' demo_checkout (\<lambda>d. d) demo_two_students ?x demo_student2"
    by (simp add: create_order_def k0 p pa dup k1 Let_def)
  moreover have "create_order ''x'' demo_checkout (\<lambda>d. d) (\<lambda>d. d) 94 ''x'' demo_now demo_two_students demo_student2
      \<lparr>oc_product_id = 81, oc_idempotency_key = ''key-0002''\<rparr>
      = (Inl (Http (HTTPException 409 ''Idempotency key already used'')), demo_two_students)"
    by (simp add: create_order_def k1 Let_def pid id)
  moreover have "\<forall>x \<in> set (db_orders demo_two_students). or_id x = 92 \<longrightarrow> or_student_id x \<noteq> st_id demo_student2"
    by (simp add: demo_two_students_def demo_db_def demo_order_def id)
  ultimately show ?thesis using checkout by (auto simp: Let_def id)
qed

end
