(* ===== verification/Reconciler.thy ===== *)
theory Reconciler
  imports Shop
begin

text \<open>
  Finding money nobody reported: \<^verbatim>\<open>app/worker/payment_reconciler.py\<close>. One pass reads
  its batch, asks the gateway about each order and commits everything at the end; \<open>env\<close> is
  what other transactions commit in between. \<open>query\<close> is the gateway's answer to a
  transaction query (see \<^verbatim>\<open>Gateway\<close>); \<open>ienv i\<close> is what the outside gives to the
  settlement of the i-th order. The model writes at the commit; the session may already send the earlier
  writes of a pass with a later product lookup, and a refusal there ends the pass with the exception instead of
  the tally, with the same database left. The endless loop
  \<^verbatim>\<open>run\<close> repeats the pass every 15 minutes and logs what it raises.
\<close>

definition GRACE :: int where "GRACE = 10 * minute"
definition ABANDON_H :: int where "ABANDON_H = 24"
definition RECONCILE_BATCH :: nat where "RECONCILE_BATCH = 50"

definition never_confirmed :: "order \<Rightarrow> bool" where
  "never_confirmed x \<longleftrightarrow> or_raw_payload x = None"

definition unsettled_order :: "instant \<Rightarrow> order \<Rightarrow> bool" where
  "unsettled_order cutoff x \<longleftrightarrow> or_created_at x < cutoff \<and>
     (or_status x = Order_initiated \<or> or_status x = Order_pending \<or>
      (or_status x = Order_failed \<or> or_status x = Order_cancelled) \<and> never_confirmed x)"

definition unsettled :: "database \<Rightarrow> instant \<Rightarrow> order list" where
  "unsettled db cutoff =
     take RECONCILE_BATCH (sort_key or_created_at (filter (unsettled_order cutoff) (db_orders db)))"

definition successful_element :: "doc list \<Rightarrow> doc option" where
  "successful_element elements =
     find (\<lambda>e. payment_succeeded e \<and> truthy (doc_get e ''val_id'')) elements"

record tally =
  ta_checked :: nat
  ta_settled :: nat
  ta_abandoned :: nat
  ta_mismatch :: nat
  ta_still_open :: nat

definition empty_tally :: tally where
  "empty_tally = \<lparr>ta_checked = 0, ta_settled = 0, ta_abandoned = 0, ta_mismatch = 0, ta_still_open = 0\<rparr>"

text \<open>One order: the tally after it, the order object after it and the ticket staged for it.\<close>

definition reconcile_order ::
  "(string \<Rightarrow> gateway_error + doc list) \<Rightarrow> issue_env \<Rightarrow> instant \<Rightarrow> database \<Rightarrow> tally \<Rightarrow> order \<Rightarrow>
   py_error + tally \<times> order \<times> ticket option" where
  "reconcile_order query ienv now db tally0 order =
     (let tally = tally0\<lparr>ta_checked := ta_checked tally0 + 1\<rparr> in
      case query (or_tran_id order) of
        Inl _ \<Rightarrow> Inr (tally\<lparr>ta_still_open := ta_still_open tally + 1\<rparr>, order, None)
      | Inr elements \<Rightarrow>
          (case successful_element elements of
             None \<Rightarrow>
               if now - or_created_at order \<ge> ABANDON_H * hour
               then Inr (tally\<lparr>ta_abandoned := ta_abandoned tally + 1\<rparr>,
                 (if or_status order \<noteq> Order_cancelled then order\<lparr>or_status := Order_failed\<rparr> else order),
                 None)
               else Inr (tally\<lparr>ta_still_open := ta_still_open tally + 1\<rparr>, order, None)
           | Some paid \<Rightarrow>
               (case apply_validation ienv db order paid of
                  Inl e \<Rightarrow> Inl e
                | Inr (outcome, order', staged) \<Rightarrow>
                    Inr ((if outcome = PAID then tally\<lparr>ta_settled := ta_settled tally + 1\<rparr>
                          else if outcome = AMOUNT_MISMATCH
                          then tally\<lparr>ta_mismatch := ta_mismatch tally + 1\<rparr> else tally),
                      order', staged))))"

type_synonym order_write = "order \<times> order \<times> ticket option"

fun reconcile_orders ::
  "(string \<Rightarrow> gateway_error + doc list) \<Rightarrow> (nat \<Rightarrow> issue_env) \<Rightarrow> instant \<Rightarrow> database \<Rightarrow> tally \<Rightarrow> nat \<Rightarrow>
   order list \<Rightarrow> py_error + tally \<times> order_write list" where
  "reconcile_orders query ienv now db tally i [] = Inr (tally, [])"
| "reconcile_orders query ienv now db tally i (order # orders) =
     (case reconcile_order query (ienv i) now db tally order of
        Inl e \<Rightarrow> Inl e
      | Inr (tally', order', staged) \<Rightarrow>
          (case reconcile_orders query ienv now db tally' (Suc i) orders of
             Inl e \<Rightarrow> Inl e
           | Inr (tally'', writes) \<Rightarrow> Inr (tally'', (order, order', staged) # writes)))"

definition flush_writes :: "order_write list \<Rightarrow> database \<Rightarrow> database" where
  "flush_writes writes db = fold (\<lambda>(loaded, obj, staged) d. flush_settled loaded obj staged d) writes db"

definition reconcile_once ::
  "(string \<Rightarrow> gateway_error + doc list) \<Rightarrow> (database \<Rightarrow> database) \<Rightarrow> (nat \<Rightarrow> issue_env) \<Rightarrow> instant \<Rightarrow>
   database \<Rightarrow> (handler_error + tally) \<times> database" where
  "reconcile_once query env ienv now db =
     (case reconcile_orders query ienv now db empty_tally 0 (unsettled db (now - GRACE)) of
        Inl e \<Rightarrow> (Inl (Uncaught e), env db)
      | Inr (tally, writes) \<Rightarrow>
          (case commit (flush_writes writes (env db)) of
             Inl IntegrityError \<Rightarrow> (Inr tally, env db)
           | Inl DataError \<Rightarrow> (Inl (UncaughtDb DataError), env db)
           | Inr db' \<Rightarrow> (Inr tally, db')))"

section \<open>One pass as a list of writes\<close>

text \<open>What is known of one write: how it follows from the gateway's answer about its order.\<close>

definition write_ok :: "(string \<Rightarrow> gateway_error + doc list) \<Rightarrow> database \<Rightarrow> order_write \<Rightarrow> bool" where
  "write_ok query db w = (case w of (loaded, obj, staged) \<Rightarrow>
     (staged = None \<and> (obj = loaded \<or> (\<exists>s. s \<noteq> Order_paid \<and> obj = loaded\<lparr>or_status := s\<rparr>)) \<and>
        (\<forall>elements. query (or_tran_id loaded) = Inr elements \<longrightarrow> successful_element elements = None)) \<or>
     (\<exists>ienv elements e out. query (or_tran_id loaded) = Inr elements \<and> successful_element elements = Some e \<and>
        apply_validation ienv db loaded e = Inr (out, obj, staged)))"

lemma reconcile_order_write:
  "reconcile_order query ienv now db tally order = Inr (tally', order', staged) \<Longrightarrow>
     write_ok query db (order, order', staged)"
  by (auto simp: reconcile_order_def write_ok_def Let_def split: sum.splits option.splits if_splits)

lemma reconcile_orders_writes:
  "reconcile_orders query ienv now db tally i orders = Inr (tally', writes) \<Longrightarrow>
     map fst writes = orders \<and> (\<forall>w \<in> set writes. write_ok query db w)"
  by (induction orders arbitrary: tally i writes)
    (auto split: sum.splits dest!: reconcile_order_write)

lemma write_ok_same: "write_ok query db (loaded, obj, staged) \<Longrightarrow> same_order obj loaded"
  by (auto simp: write_ok_def dest: apply_validation_same) (simp_all add: same_order_def)

lemma unsettled_mem:
  "x \<in> set (unsettled db cutoff) \<Longrightarrow> x \<in> set (db_orders db) \<and> unsettled_order cutoff x"
  by (auto simp: unsettled_def dest!: in_set_takeD)

lemma unsettled_not_paid: "unsettled_order cutoff x \<Longrightarrow> or_status x \<noteq> Order_paid"
  by (auto simp: unsettled_order_def)

lemma unsettled_distinct:
  assumes "db_ok db"
  shows "distinct (map or_id (unsettled db cutoff))"
proof -
  have "inj_on or_id (set (db_orders db))" "distinct (db_orders db)"
    using assms by (auto simp: db_ok_def orders_ok_def distinct_map)
  then show ?thesis
    by (auto simp: unsettled_def distinct_map dest!: in_set_takeD intro!: distinct_take inj_onI dest: inj_onD)
qed

lemma flush_writes_Nil [simp]: "flush_writes [] db = db"
  by (simp add: flush_writes_def)

lemma flush_writes_Cons [simp]:
  "flush_writes ((loaded, obj, staged) # ws) db = flush_writes ws (flush_settled loaded obj staged db)"
  by (simp add: flush_writes_def)

section \<open>The pass keeps the books\<close>

lemma flush_settled_db_ok:
  assumes inv: "commerce_inv db" and order: "order \<in> set (db_orders db)" "or_status order \<noteq> Order_paid"
    and same: "same_order obj order"
    and some: "\<And>t. staged = Some t \<Longrightarrow> tk_id t \<notin> tk_id ` set (db_tickets db) \<and>
      tk_order_id t = or_id order \<and> tk_student_id t = or_student_id order \<and>
      get_product db (tk_product_id t) \<noteq> None"
  shows "db_ok (flush_settled order obj staged db)"
proof -
  have ok: "db_ok db" using inv by (simp add: commerce_inv_def boarding_inv_def)
  let ?db = "db\<lparr>db_orders := row_edit or_id (or_id order) (flush_order order obj) (db_orders db)\<rparr>"
  have ok1: "db_ok ?db" by (rule db_ok_edit_order) (simp_all add: ok)
  show ?thesis
  proof (cases staged)
    case None
    with ok1 show ?thesis by (simp add: flush_settled_def)
  next
    case (Some t)
    have unticketed: "tk_order_id t' \<noteq> or_id order" if "t' \<in> set (db_tickets db)" for t'
    proof
      assume "tk_order_id t' = or_id order"
      with inv that obtain x where "x \<in> set (db_orders db)" "or_id x = or_id order" "or_status x = Order_paid"
        by (auto simp: commerce_inv_def ticket_is_paid_def)
      moreover have "inj_on or_id (set (db_orders db))"
        using ok by (simp add: db_ok_def orders_ok_def distinct_map)
      ultimately show False using order by (metis inj_onD)
    qed
    have "get_order db (or_id order) \<noteq> None" using order(1) by (auto simp: row_get_None_iff)
    moreover have "get_student db (or_student_id order) \<noteq> None"
      using ok order(1) by (auto simp: db_ok_def orders_ok_def list_all_iff)
    moreover have "tk_order_id t \<notin> tk_order_id ` set (db_tickets db)"
      using some [OF Some] unticketed by (metis imageE)
    ultimately have "db_ok (?db\<lparr>db_tickets := db_tickets ?db @ [t]\<rparr>)"
      using some [OF Some]
      by (intro db_ok_add_ticket [OF ok1]) (auto simp: row_get_edit_None)
    then show ?thesis by (simp add: flush_settled_def Some)
  qed
qed

fun staged_of :: "order_write list \<Rightarrow> ticket list" where
  "staged_of [] = []"
| "staged_of ((_, _, None) # ws) = staged_of ws"
| "staged_of ((_, _, Some t) # ws) = t # staged_of ws"

lemma staged_of_iff: "t \<in> set (staged_of ws) \<longleftrightarrow> (\<exists>a b. (a, b, Some t) \<in> set ws)"
  by (induction ws rule: staged_of.induct) auto

lemma flush_writes_tickets: "db_tickets (flush_writes ws db) = db_tickets db @ staged_of ws"
  by (induction ws arbitrary: db rule: staged_of.induct) simp_all

lemma flush_writes_frame [simp]:
  "db_redemptions (flush_writes ws db) = db_redemptions db"
  "db_products (flush_writes ws db) = db_products db"
proof (induction ws arbitrary: db)
  case (Cons w ws)
  { case 1 show ?case using Cons by (cases w) simp }
  { case 2 show ?case using Cons by (cases w) simp }
qed simp_all

lemma issue_ticket_products:
  "db_products d0 = db_products db \<Longrightarrow> issue_ticket ienv d0 = issue_ticket ienv db"
  by (intro ext) (simp add: issue_ticket_def)

lemma flush_writes_inv:
  assumes "commerce_inv db" "distinct (map tk_id (db_tickets (flush_writes ws db)))"
    and "distinct (map (or_id \<circ> fst) ws)"
    and "\<forall>w \<in> set ws. fst w \<in> set (db_orders db) \<and> or_status (fst w) \<noteq> Order_paid \<and> write_ok query d0 w"
    and "db_products d0 = db_products db"
  shows "commerce_inv (flush_writes ws db)"
  using assms
proof (induction ws arbitrary: db)
  case (Cons w ws)
  obtain loaded obj staged where w: "w = (loaded, obj, staged)" by (cases w)
  let ?db = "flush_settled loaded obj staged db"
  have l: "loaded \<in> set (db_orders db)" "or_status loaded \<noteq> Order_paid" "write_ok query d0 (loaded, obj, staged)"
    using Cons.prems(4) by (simp_all add: w)
  note same = write_ok_same [OF l(3)]
  have final: "distinct (map tk_id (db_tickets (flush_writes ws ?db)))" using Cons.prems(2) by (simp add: w)
  have new: "tk_id t \<notin> tk_id ` set (db_tickets db)" if "staged = Some t" for t
    using final that by (simp add: flush_writes_tickets)
  have decided: "\<exists>ienv e out. apply_validation ienv d0 loaded e = Inr (out, obj, staged)"
    if "staged = Some t" for t
    using l(3) that by (auto simp: write_ok_def)
  have staged: "tk_order_id t = or_id loaded \<and> tk_student_id t = or_student_id loaded \<and>
      tk_product_id t = or_product_id loaded \<and> get_product db (tk_product_id t) \<noteq> None" if t: "staged = Some t" for t
  proof -
    obtain ienv e out where a: "apply_validation ienv d0 loaded e = Inr (out, obj, Some t)"
      using decided [OF t] t by auto
    then obtain o1 where "issue_ticket ienv d0 o1 = Inr t" "or_id o1 = or_id loaded"
      "or_student_id o1 = or_student_id loaded" "or_product_id o1 = or_product_id loaded"
      by (auto simp: apply_validation_def Let_def split: if_splits sum.splits bool.splits)
    moreover have "get_product d0 i = Some p \<Longrightarrow> pr_id p = i" for i p by (auto dest: row_get_SomeD)
    ultimately show ?thesis
      using Cons.prems(5) by (auto elim!: issue_ticket_InrD)
  qed
  have ok: "db_ok ?db"
    by (rule flush_settled_db_ok [OF Cons.prems(1) l(1,2) same]) (use new staged in auto)
  have inv: "commerce_inv ?db"
  proof (cases "\<exists>ienv e out. apply_validation ienv db loaded e = Inr (out, obj, staged)")
    case True
    then show ?thesis using apply_validation_inv [OF Cons.prems(1) l(1,2)] ok by blast
  next
    case False
    have app_same: "apply_validation ienv d0 loaded e = apply_validation ienv db loaded e" for ienv e
      unfolding apply_validation_def issue_ticket_products [OF Cons.prems(5)] ..
    have "staged = None" "or_status obj \<noteq> Order_paid"
      using l(2,3) False by (auto simp: write_ok_def app_same)
    then show ?thesis
      by (intro flush_settled_inv [OF Cons.prems(1) ok l(1,2) same]) simp_all
  qed
  have orders: "set (db_orders ?db) = insert obj {x \<in> set (db_orders db). or_id x \<noteq> or_id loaded}"
    using Cons.prems(1) l(1) same
    by (intro flush_settled_orders) (auto simp: commerce_inv_def boarding_inv_def db_ok_def orders_ok_def)
  have "\<forall>v \<in> set ws. fst v \<in> set (db_orders ?db) \<and> or_status (fst v) \<noteq> Order_paid \<and> write_ok query d0 v"
    using Cons.prems(3,4) unfolding orders by (auto simp: w image_iff)
  then show ?case
    using Cons.IH [OF inv final] Cons.prems(3,5) by (simp add: w)
qed simp

lemma reconcile_orders_mem:
  assumes "reconcile_orders query ienv now db tly i orders = Inr (tly', ws)" "(loaded, obj, st) \<in> set ws"
  shows "loaded \<in> set orders \<and> write_ok query db (loaded, obj, st)"
proof -
  have "fst (loaded, obj, st) \<in> set (map fst ws)" using assms(2) by (simp only: set_map imageI)
  then show ?thesis using reconcile_orders_writes [OF assms(1)] assms(2) by auto
qed

text \<open>A pass's writes are made on unpaid orders of the database, each order once.\<close>

lemma pass_inv:
  assumes "commerce_inv db"
    and rec: "reconcile_orders query ienv now db empty_tally 0 (unsettled db (now - GRACE)) = Inr (tly, ws)"
    and "distinct (map tk_id (db_tickets (flush_writes ws db)))"
  shows "commerce_inv (flush_writes ws db)"
proof -
  from reconcile_orders_writes [OF rec] have
    fst: "map fst ws = unsettled db (now - GRACE)" and ok: "\<forall>w \<in> set ws. write_ok query db w" by auto
  have "distinct (map (or_id \<circ> fst) ws)"
    using unsettled_distinct [of db "now - GRACE"] assms(1) fst
    by (simp add: commerce_inv_def boarding_inv_def flip: map_map)
  moreover have "\<forall>w \<in> set ws. fst w \<in> set (db_orders db) \<and> or_status (fst w) \<noteq> Order_paid"
  proof
    fix w assume "w \<in> set ws"
    then have "fst w \<in> set (unsettled db (now - GRACE))" by (simp flip: fst)
    then show "fst w \<in> set (db_orders db) \<and> or_status (fst w) \<noteq> Order_paid"
      by (auto dest!: unsettled_mem unsettled_not_paid)
  qed
  ultimately show ?thesis
    using ok by (intro flush_writes_inv [OF assms(1,3), of query db]) auto
qed

lemma reconcile_commerce_inv [inv_intros]:
  assumes "commerce_inv db" "reconcile_once query (\<lambda>d. d) ienv now db = (res, db')"
  shows "commerce_inv db'"
proof (cases "reconcile_orders query ienv now db empty_tally 0 (unsettled db (now - GRACE))")
  case (Inl e)
  with assms show ?thesis by (simp add: reconcile_once_def)
next
  case (Inr r)
  obtain tly ws where r: "r = (tly, ws)" by (cases r)
  note rec = Inr [unfolded r]
  show ?thesis
  proof (cases "db_ok (flush_writes ws db)")
    case False
    with assms rec show ?thesis
      by (auto simp: reconcile_once_def split: sum.splits db_error.splits)
  next
    case True
    then have "commerce_inv (flush_writes ws db)"
      by (intro pass_inv [OF assms(1) rec]) (simp add: db_ok_def tickets_ok_def)
    with assms rec True show ?thesis by (simp add: reconcile_once_def)
  qed
qed

lemma staged_ids:
  assumes "reconcile_orders query ienv now db tly0 i orders = Inr (tly, ws)" "inj (is_new_id \<circ> ienv)"
  shows "distinct (map tk_id (staged_of ws)) \<and>
    tk_id ` set (staged_of ws) \<subseteq> (is_new_id \<circ> ienv) ` {i..}"
  using assms(1)
proof (induction orders arbitrary: tly0 i ws)
  case (Cons x orders)
  from Cons.prems obtain tly1 x' st ws' where
    one: "reconcile_order query (ienv i) now db tly0 x = Inr (tly1, x', st)" and
    rest: "reconcile_orders query ienv now db tly1 (Suc i) orders = Inr (tly, ws')" and
    ws: "ws = (x, x', st) # ws'"
    by (auto split: sum.splits)
  note IH = Cons.IH [OF rest]
  have "tk_id t = is_new_id (ienv i)" if "st = Some t" for t
    using one that by (auto simp: reconcile_order_def Let_def split: sum.splits option.splits if_splits
        dest: apply_validation_staged(3))
  moreover have "is_new_id (ienv i) \<notin> (is_new_id \<circ> ienv) ` {Suc i..}"
    using injD [OF assms(2)] by fastforce
  moreover have "(is_new_id \<circ> ienv) ` {Suc i..} \<subseteq> (is_new_id \<circ> ienv) ` {i..}" by auto
  ultimately show ?case
    using IH by (cases st) (auto simp: ws)
qed simp

section \<open>Properties\<close>

text \<open>
  The reconciler hands out no ticket that was not paid for: every ticket a pass adds
  belongs to an order of its batch for whose own reference the gateway listed a successful
  payment with a handle, of exactly the order's amount and currency and without a risk flag,
  whatever other transactions did in between.
\<close>

theorem reconciler_issues_only_for_money:
  assumes "reconcile_once query env ienv now db = (res, db')"
    and "t \<in> set (db_tickets db')" "t \<notin> set (db_tickets (env db))"
  shows "\<exists>order \<in> set (unsettled db (now - GRACE)). \<exists>elements. \<exists>e \<in> set elements.
    query (or_tran_id order) = Inr elements \<and> truthy (doc_get e ''val_id'') \<and> good_money order e \<and>
    tk_order_id t = or_id order \<and> tk_student_id t = or_student_id order"
proof -
  obtain tly ws where rec: "reconcile_orders query ienv now db empty_tally 0 (unsettled db (now - GRACE)) = Inr (tly, ws)"
    and db': "db' = flush_writes ws (env db)"
    using assms by (auto simp: reconcile_once_def split: sum.splits db_error.splits)
  then have "t \<in> set (staged_of ws)"
    using assms(2,3) by (simp add: flush_writes_tickets)
  then obtain loaded obj where w: "(loaded, obj, Some t) \<in> set ws"
    by (auto simp: staged_of_iff)
  then have "write_ok query db (loaded, obj, Some t)" and mem: "loaded \<in> set (unsettled db (now - GRACE))"
    using reconcile_orders_mem [OF rec w] by auto
  then obtain ie elements e out where *: "query (or_tran_id loaded) = Inr elements"
    "successful_element elements = Some e" "apply_validation ie db loaded e = Inr (out, obj, Some t)"
    by (auto simp: write_ok_def)
  then have "e \<in> set elements" "truthy (doc_get e ''val_id'')"
    by (auto simp: successful_element_def find_Some_iff)
  then show ?thesis
    using mem * apply_validation_staged [OF *(3)] by (auto simp: good_money_def)
qed

lemma demo_element:
  "successful_element [[(''status'', JStr ''FAILED'')], demo_validation] = Some demo_validation"
proof -
  have "upper ''FAILED'' = ''FAILED''" by code_simp
  then show ?thesis
    using demo_good_money(1)
    by (simp add: successful_element_def payment_succeeded_def doc_get_or_def SUCCESSFUL_STATUSES_def)
      (simp add: demo_validation_def doc_get_def)
qed

text \<open>The gateway knows of one declined and one successful attempt for \<open>UT-2\<close>, and of nothing else.\<close>

definition demo_query :: "string \<Rightarrow> gateway_error + doc list" where
  "demo_query tran_id = (if tran_id = ''UT-2''
     then Inr [[(''status'', JStr ''FAILED'')], demo_validation] else Inr [])"

definition demo_tally :: tally where "demo_tally = empty_tally\<lparr>ta_checked := 1, ta_settled := 1\<rparr>"

lemma demo_unsettled:
  "unsettled demo_db (demo_now + hour - GRACE) = [demo_order 92 Order_pending ''key-0002'' ''UT-2'']"
  by (simp add: unsettled_def unsettled_order_def demo_db_def RECONCILE_BATCH_def GRACE_def)
    (simp add: demo_order_def)

lemma demo_reconcile:
  "reconcile_once demo_query (\<lambda>d. d) (\<lambda>_. demo_ienv) (demo_now + hour) demo_db = (Inr demo_tally, demo_paid)"
proof -
  have t: "or_tran_id (demo_order 92 Order_pending ''key-0002'' ''UT-2'') = ''UT-2''"
    by (simp add: demo_order_def)
  show ?thesis
    unfolding reconcile_once_def demo_unsettled
    by (simp add: reconcile_order_def t demo_query_def demo_element
        demo_apply demo_flush demo_paid_ok Let_def) (simp add: demo_tally_def empty_tally_def)
qed

theorem reconciler_issues_only_for_money_witness:
  "\<exists>order \<in> set (unsettled demo_db (demo_now + hour - GRACE)). \<exists>elements. \<exists>e \<in> set elements.
    demo_query (or_tran_id order) = Inr elements \<and> truthy (doc_get e ''val_id'') \<and> good_money order e \<and>
    tk_order_id demo_new_ticket = or_id order \<and> tk_student_id demo_new_ticket = or_student_id order"
  by (rule reconciler_issues_only_for_money [OF demo_reconcile])
    (simp_all add: demo_paid_def demo_db_def demo_new_ticket_def demo_ticket_def)

text \<open>
  C27. A payment nobody reported is found: if the books are in order, fresh ids are fresh
  and nobody writes in between, then after a pass that is not cut short by an exception every
  order of its batch for which the gateway lists a successful attempt with good money is paid
  and has its ticket.
\<close>

theorem reconciler_finds_lost_money:
  assumes inv: "commerce_inv db"
    and rec: "reconcile_orders query ienv now db empty_tally 0 (unsettled db (now - GRACE)) = Inr (tly, ws)"
    and fresh: "inj (is_new_id \<circ> ienv)" "\<And>i. is_new_id (ienv i) \<notin> tk_id ` set (db_tickets db)"
    and order: "order \<in> set (unsettled db (now - GRACE))" "query (or_tran_id order) = Inr elements"
      "successful_element elements = Some e" "good_money order e"
  shows "fst (reconcile_once query (\<lambda>d. d) ienv now db) = Inr tly \<and>
    (\<exists>t \<in> set (db_tickets (snd (reconcile_once query (\<lambda>d. d) ienv now db))). tk_order_id t = or_id order) \<and>
    commerce_inv (snd (reconcile_once query (\<lambda>d. d) ienv now db))"
proof -
  have "distinct (map tk_id (db_tickets db))"
    using inv by (simp add: commerce_inv_def boarding_inv_def db_ok_tickets_distinct)
  moreover from staged_ids [OF rec fresh(1)] have new: "distinct (map tk_id (staged_of ws))"
    "tk_id ` set (staged_of ws) \<subseteq> range (is_new_id \<circ> ienv)" by auto
  moreover have "tk_id ` set (db_tickets db) \<inter> tk_id ` set (staged_of ws) = {}"
  proof (rule equals0I)
    fix x assume x: "x \<in> tk_id ` set (db_tickets db) \<inter> tk_id ` set (staged_of ws)"
    then have "x \<in> range (is_new_id \<circ> ienv)" using new(2) by (rule subsetD [rotated, OF IntD2])
    then obtain i where "x = is_new_id (ienv i)" by auto
    with x fresh(2) [of i] show False by simp
  qed
  ultimately have "distinct (map tk_id (db_tickets (flush_writes ws db)))"
    by (simp add: flush_writes_tickets)
  then have inv': "commerce_inv (flush_writes ws db)" by (rule pass_inv [OF inv rec])
  then have "db_ok (flush_writes ws db)" by (simp add: commerce_inv_def boarding_inv_def)
  then have once: "reconcile_once query (\<lambda>d. d) ienv now db = (Inr tly, flush_writes ws db)"
    using rec by (simp add: reconcile_once_def)
  have "map fst ws = unsettled db (now - GRACE)" using reconcile_orders_writes [OF rec] by simp
  then have "order \<in> fst ` set ws" using order(1) by (metis list.set_map)
  then obtain obj st where w: "(order, obj, st) \<in> set ws" by auto
  then have "write_ok query db (order, obj, st)" using reconcile_orders_mem [OF rec w] by simp
  then obtain ie out where app: "apply_validation ie db order e = Inr (out, obj, st)"
    using order(2,3) by (auto simp: write_ok_def)
  then have "out = PAID"
    using order(4) by (auto simp: apply_validation_def good_money_def Let_def split: sum.splits)
  with apply_validation_staged [OF app] obtain t where "st = Some t" "tk_order_id t = or_id order" by auto
  with w have "t \<in> set (db_tickets (flush_writes ws db))"
    by (auto simp: flush_writes_tickets staged_of_iff)
  with once inv' \<open>tk_order_id t = or_id order\<close> show ?thesis by auto
qed

theorem reconciler_finds_lost_money_witness:
  "fst (reconcile_once demo_query (\<lambda>d. d) (\<lambda>i. demo_ienv\<lparr>is_new_id := 102 + i\<rparr>) (demo_now + hour) demo_db)
     = Inr demo_tally \<and>
   (\<exists>t \<in> set (db_tickets (snd (reconcile_once demo_query (\<lambda>d. d) (\<lambda>i. demo_ienv\<lparr>is_new_id := 102 + i\<rparr>)
      (demo_now + hour) demo_db))). tk_order_id t = or_id (demo_order 92 Order_pending ''key-0002'' ''UT-2'')) \<and>
   commerce_inv (snd (reconcile_once demo_query (\<lambda>d. d) (\<lambda>i. demo_ienv\<lparr>is_new_id := 102 + i\<rparr>)
      (demo_now + hour) demo_db))"
proof (rule reconciler_finds_lost_money [OF demo_commerce_inv])
  have t: "or_tran_id (demo_order 92 Order_pending ''key-0002'' ''UT-2'') = ''UT-2''"
    by (simp add: demo_order_def)
  have e: "demo_ienv\<lparr>is_new_id := 102\<rparr> = demo_ienv" by (simp add: demo_ienv_def)
  show "reconcile_orders demo_query (\<lambda>i. demo_ienv\<lparr>is_new_id := 102 + i\<rparr>) (demo_now + hour) demo_db
      empty_tally 0 (unsettled demo_db (demo_now + hour - GRACE)) =
    Inr (demo_tally, [(demo_order 92 Order_pending ''key-0002'' ''UT-2'', demo_settled, Some demo_new_ticket)])"
    unfolding demo_unsettled
    by (simp add: reconcile_order_def t demo_query_def demo_element e demo_apply Let_def)
      (simp add: demo_tally_def empty_tally_def)
  show "inj (is_new_id \<circ> (\<lambda>i. demo_ienv\<lparr>is_new_id := 102 + i\<rparr>))" by (rule injI) simp
  show "is_new_id (demo_ienv\<lparr>is_new_id := 102 + i\<rparr>) \<notin> tk_id ` set (db_tickets demo_db)" for i
    by (simp add: demo_db_def demo_ticket_def)
  show "demo_order 92 Order_pending ''key-0002'' ''UT-2'' \<in> set (unsettled demo_db (demo_now + hour - GRACE))"
    unfolding demo_unsettled by simp
  show "demo_query (or_tran_id (demo_order 92 Order_pending ''key-0002'' ''UT-2'')) =
      Inr [[(''status'', JStr ''FAILED'')], demo_validation]"
    by (simp add: t demo_query_def)
  show "good_money (demo_order 92 Order_pending ''key-0002'' ''UT-2'') demo_validation"
    using demo_good_money by (simp add: good_money_def demo_order_def)
qed (rule demo_element)

section \<open>What one order can do to the others\<close>

text \<open>
  One late report undoes a whole pass: if, while the pass was asking the gateway, a
  ticket appeared for any one of the orders it is about to settle, none of its settlements is
  written, the other paid orders stay without their tickets, and the tally still reports every
  one of them as settled.
\<close>

theorem one_late_report_undoes_the_pass:
  assumes "reconcile_orders query ienv now db empty_tally 0 (unsettled db (now - GRACE)) = Inr (tly, ws)"
    and "(loaded, obj, Some t) \<in> set ws"
    and "t' \<in> set (db_tickets (env db))" "tk_order_id t' = or_id loaded" "db_ok (env db)"
  shows "reconcile_once query env ienv now db = (Inr tly, env db)"
proof -
  have "write_ok query db (loaded, obj, Some t)"
    using reconcile_orders_mem [OF assms(1,2)] by simp
  then have "tk_order_id t = or_id loaded"
    by (auto simp: write_ok_def dest: apply_validation_staged(3))
  moreover have "t \<in> set (staged_of ws)" using assms(2) by (auto simp: staged_of_iff)
  ultimately have "or_id loaded \<in> tk_order_id ` set (staged_of ws)"
    "or_id loaded \<in> tk_order_id ` set (db_tickets (env db))"
    using assms(3,4) by force+
  then have "\<not> distinct (map tk_order_id (db_tickets (env db)) @ map tk_order_id (staged_of ws))"
    by auto
  then have "\<not> distinct (map tk_order_id (db_tickets (flush_writes ws (env db))))"
    by (simp add: flush_writes_tickets)
  then have "\<not> db_ok (flush_writes ws (env db))"
    unfolding db_ok_def tickets_ok_def by blast
  then have "commit (flush_writes ws (env db)) = Inl IntegrityError"
    using commit_same_boardings [OF assms(5), of "flush_writes ws (env db)"] by simp
  then show ?thesis using assms(1) by (simp add: reconcile_once_def)
qed

theorem one_late_report_undoes_the_pass_witness:
  "reconcile_once demo_query (\<lambda>_. demo_paid) (\<lambda>_. demo_ienv) (demo_now + hour) demo_db
     = (Inr demo_tally, demo_paid)"
proof (rule one_late_report_undoes_the_pass)
  have t: "or_tran_id (demo_order 92 Order_pending ''key-0002'' ''UT-2'') = ''UT-2''"
    by (simp add: demo_order_def)
  show "reconcile_orders demo_query (\<lambda>_. demo_ienv) (demo_now + hour) demo_db
      empty_tally 0 (unsettled demo_db (demo_now + hour - GRACE)) =
    Inr (demo_tally, [(demo_order 92 Order_pending ''key-0002'' ''UT-2'', demo_settled, Some demo_new_ticket)])"
    unfolding demo_unsettled
    by (simp add: reconcile_order_def t demo_query_def demo_element demo_apply Let_def)
      (simp add: demo_tally_def empty_tally_def)
  show "demo_new_ticket \<in> set (db_tickets demo_paid)" by (simp add: demo_paid_def)
  show "tk_order_id demo_new_ticket = or_id (demo_order 92 Order_pending ''key-0002'' ''UT-2'')"
    by (simp add: demo_new_ticket_def demo_order_def)
qed (simp_all add: demo_paid_ok)

lemma take_sorted_small:
  fixes f :: "'x \<Rightarrow> int"
  assumes many: "n \<le> length (filter P xs)"
    and older: "\<And>x y. x \<in> set xs \<Longrightarrow> y \<in> set xs \<Longrightarrow> P x \<Longrightarrow> \<not> P y \<Longrightarrow> f x < f y"
  shows "\<forall>y \<in> set (take n (sort_key f xs)). P y"
proof (rule ccontr)
  let ?s = "sort_key f xs"
  assume "\<not> (\<forall>y \<in> set (take n ?s). P y)"
  then obtain i where i: "i < n" "i < length ?s" "\<not> P (?s ! i)"
    by (auto simp: in_set_conv_nth)
  have "\<not> P (?s ! j)" if "i \<le> j" "j < length ?s" for j
  proof
    assume "P (?s ! j)"
    then have "f (?s ! j) < f (?s ! i)"
      using older [of "?s ! j" "?s ! i"] i that nth_mem [of j ?s] nth_mem [of i ?s] by simp
    moreover have "f (?s ! i) \<le> f (?s ! j)"
      using sorted_nth_mono [OF sorted_sort_key [of f xs] that(1)] that i by simp
    ultimately show False by simp
  qed
  then have "filter P (drop i ?s) = []" by (auto simp: filter_empty_conv in_set_conv_nth)
  then have "filter P ?s = filter P (take i ?s)"
    by (metis append_Nil2 append_take_drop_id filter_append)
  then have "length (filter P ?s) \<le> i" by (metis length_filter_le length_take min.bounded_iff)
  moreover have "length (filter P ?s) = length (filter P xs)"
    by (metis mset_filter mset_sort size_mset)
  ultimately show False using many i by simp
qed

lemma flush_nothing: "flush_settled x x None db = db"
proof -
  have "flush_order x x r = r" for r by (cases r) (simp add: flush_order_def)
  then have "row_edit or_id (or_id x) (flush_order x x) (db_orders db) = db_orders db"
    unfolding row_edit_def by (intro map_idI) simp
  then show ?thesis by (simp add: flush_settled_def)
qed

text \<open>
  Abandoned checkouts can block the reconciler for good: fifty orders that were closed
  without a gateway record and are older than all others fill every batch, asking about them
  closes nothing, and so no pass ever reaches a newer order, however surely it was paid.
\<close>

theorem abandoned_orders_starve_the_rest:
  assumes ok: "db_ok db"
    and dead: "\<And>x. dead x \<Longrightarrow> (or_status x = Order_failed \<or> or_status x = Order_cancelled) \<and>
      never_confirmed x \<and> or_created_at x + ABANDON_H * hour \<le> now"
    and many: "50 \<le> length (filter dead (db_orders db))"
    and older: "\<And>x y. x \<in> set (db_orders db) \<Longrightarrow> y \<in> set (db_orders db) \<Longrightarrow> dead x \<Longrightarrow> \<not> dead y \<Longrightarrow>
      or_created_at x < or_created_at y"
    and silent: "\<And>x. x \<in> set (db_orders db) \<Longrightarrow> dead x \<Longrightarrow> query (or_tran_id x) = Inr []"
  shows "(\<forall>x \<in> set (unsettled db (now - GRACE)). dead x) \<and>
    snd (reconcile_once query (\<lambda>d. d) ienv now db) = db"
proof -
  let ?U = "unsettled_order (now - GRACE)"
  have U: "?U x" if "dead x" for x
    using dead [OF that] by (auto simp: unsettled_order_def GRACE_def ABANDON_H_def)
  then have "filter (\<lambda>x. ?U x \<and> dead x) (db_orders db) = filter dead (db_orders db)"
    by (intro filter_cong) auto
  then have all: "\<forall>x \<in> set (unsettled db (now - GRACE)). dead x"
    unfolding unsettled_def RECONCILE_BATCH_def
    using many older by (intro take_sorted_small) auto
  have same: "reconcile_order query (ienv i) now db tly x = Inr (tly', x', st) \<Longrightarrow> x' = x \<and> st = None"
    and ans: "\<exists>tly'. reconcile_order query (ienv i) now db tly x = Inr (tly', x, None)"
    if "x \<in> set (unsettled db (now - GRACE))" for x i tly tly' x' st
    using dead [of x] silent [of x] all that
    by (auto simp: reconcile_order_def successful_element_def Let_def dest!: unsettled_mem)
  have "\<exists>tly' ws. reconcile_orders query ienv now db tly i orders = Inr (tly', ws) \<and>
      ws = map (\<lambda>x. (x, x, None)) orders"
    if "set orders \<subseteq> set (unsettled db (now - GRACE))" for orders tly i
    using that
  proof (induction orders arbitrary: tly i)
    case (Cons x orders)
    then have "x \<in> set (unsettled db (now - GRACE))" by simp
    from ans [OF this, of i tly] obtain tly1
      where "reconcile_order query (ienv i) now db tly x = Inr (tly1, x, None)" by blast
    with Cons.IH [of tly1 "Suc i"] Cons.prems show ?case by auto
  qed simp
  then obtain tly' where rec: "reconcile_orders query ienv now db empty_tally 0 (unsettled db (now - GRACE))
      = Inr (tly', map (\<lambda>x. (x, x, None)) (unsettled db (now - GRACE)))" by blast
  have "flush_writes (map (\<lambda>x. (x, x, None)) orders) db = db" for orders
    by (induction orders) (simp_all add: flush_nothing)
  then have "snd (reconcile_once query (\<lambda>d. d) ienv now db) = db"
    using ok by (simp add: reconcile_once_def rec)
  with all show ?thesis by simp
qed

text \<open>Fifty checkouts abandoned long ago and one paid order nobody reported.\<close>

definition dead_order :: "nat \<Rightarrow> order" where
  "dead_order i = (demo_order (200 + i) Order_failed (CHR ''d'' # replicate i CHR ''d'')
     (CHR ''D'' # replicate i CHR ''D''))\<lparr>or_created_at := 0\<rparr>"

definition starved_db :: database where
  "starved_db = demo_db\<lparr>db_tickets := [],
     db_orders := map dead_order [0..<50] @ [demo_order 92 Order_pending ''key-0002'' ''UT-2'']\<rparr>"

lemma dead_order_simps [simp]:
  "or_id (dead_order i) = 200 + i" "or_created_at (dead_order i) = 0"
  "or_status (dead_order i) = Order_failed" "or_raw_payload (dead_order i) = None"
  "or_student_id (dead_order i) = 11" "or_product_id (dead_order i) = 81"
  "or_idempotency_key (dead_order i) = CHR ''d'' # replicate i CHR ''d''"
  "or_tran_id (dead_order i) = CHR ''D'' # replicate i CHR ''D''"
  by (simp_all add: dead_order_def demo_order_def)

lemma starved_db_ok: "db_ok starved_db"
proof -
  have inj: "inj_on (\<lambda>i. c # replicate i c) S" for c :: char and S
    by (rule inj_onI) (metis length_replicate list.inject)
  have "orders_ok starved_db"
    unfolding orders_ok_def starved_db_def
    by (simp add: demo_db_def demo_product_def demo_student_def o_def fk_opt_def list_all_iff)
      (auto simp: demo_order_def distinct_map inj inj_on_def)
  moreover have "identity_ok starved_db" "fleet_ok starved_db" "trips_ok starved_db" "ops_ok starved_db"
    "tickets_ok starved_db" "redemptions_ok starved_db"
    using demo_db_ok by (simp_all add: db_ok_defs starved_db_def) (simp_all add: demo_db_def)
  ultimately show ?thesis by (simp add: db_ok_def)
qed

theorem abandoned_orders_starve_the_rest_witness:
  "list_all (\<lambda>x. or_created_at x = 0 \<and> or_status x = Order_failed \<and> or_raw_payload x = None)
     (unsettled starved_db (demo_now + hour - GRACE)) \<and>
   snd (reconcile_once demo_query (\<lambda>d. d) (\<lambda>_. demo_ienv) (demo_now + hour) starved_db) = starved_db"
proof -
  let ?dead = "\<lambda>x. or_created_at x = 0 \<and> or_status x = Order_failed \<and> or_raw_payload x = None"
  have "filter ?dead (db_orders starved_db) = map dead_order [0..<50]"
    by (simp add: starved_db_def demo_order_def o_def filter_map)
  then have many: "50 \<le> length (filter ?dead (db_orders starved_db))" by simp
  have "(\<forall>x \<in> set (unsettled starved_db (demo_now + hour - GRACE)). ?dead x) \<and>
      snd (reconcile_once demo_query (\<lambda>d. d) (\<lambda>_. demo_ienv) (demo_now + hour) starved_db) = starved_db"
    by (rule abandoned_orders_starve_the_rest [OF starved_db_ok _ many])
      (auto simp: never_confirmed_def ABANDON_H_def demo_now_def starved_db_def demo_order_def demo_query_def)
  then show ?thesis by (simp add: list_all_iff)
qed

end
