(* ===== verification/FraudSweep.thy ===== *)
theory FraudSweep
  imports Redemption
begin

text \<open>
  Acting on reused boarding codes: \<^verbatim>\<open>app/worker/fraud_sweep.py\<close>. The grouped query
  has no order, so the order in which its rows arrive is a parameter \<open>arrange\<close> (a
  permutation); \<open>new_id k\<close> is the id of the k-th alert of the pass. The endless loop
  \<^verbatim>\<open>run\<close> repeats \<open>sweep_once\<close> every ten minutes and logs what it raises.
\<close>

definition DEVICE_THRESHOLD :: nat where "DEVICE_THRESHOLD = 2"
definition BATCH :: nat where "BATCH = 100"

definition devices_of :: "database \<Rightarrow> string \<Rightarrow> uuid \<Rightarrow> nat" where
  "devices_of db nonce ticket_id =
     length (remdups (map rd_helper_device_id
       (filter (\<lambda>r. rd_nonce r = nonce \<and> rd_ticket_id r = ticket_id) (db_redemptions db))))"

definition on_active_ticket :: "database \<Rightarrow> redemption \<Rightarrow> bool" where
  "on_active_ticket db r =
     (case get_ticket db (rd_ticket_id r) of None \<Rightarrow> False | Some t \<Rightarrow> tk_status t = Ticket_active)"

type_synonym reused_code = "string \<times> uuid \<times> nat"

definition reused_codes :: "database \<Rightarrow> reused_code list" where
  "reused_codes db =
     filter (\<lambda>(_, _, devices). DEVICE_THRESHOLD \<le> devices)
       (map (\<lambda>(nonce, ticket_id). (nonce, ticket_id, devices_of db nonce ticket_id))
         (remdups (map (\<lambda>r. (rd_nonce r, rd_ticket_id r))
           (filter (on_active_ticket db) (db_redemptions db)))))"

definition unhandled_duplicates ::
  "(reused_code list \<Rightarrow> reused_code list) \<Rightarrow> database \<Rightarrow> reused_code list" where
  "unhandled_duplicates arrange db = take BATCH (arrange (reused_codes db))"

record sweep_tally =
  sw_flagged :: nat
  sw_suspended :: nat

definition reuse_alert :: "(uuid \<Rightarrow> string) \<Rightarrow> uuid \<Rightarrow> instant \<Rightarrow> nat \<Rightarrow> uuid \<Rightarrow> alert" where
  "reuse_alert uuid_text i now devices ticket_id =
     \<lparr>al_id = i, al_created_at = now, al_source = Source_system, al_raised_by = None,
      al_trip_id = None, al_bus_id = None, al_type = Alert_other, al_severity = Severity_warning,
      al_message = Some (''Boarding code reused on '' @ int_str (int devices) @
        '' devices for ticket '' @ uuid_text ticket_id @ ''. Ticket suspended pending review.''),
      al_lat = None, al_lng = None, al_status = Alert_open, al_acknowledged_by = None,
      al_resolved_note = None, al_resolved_at = None\<rparr>"

definition sweep_row ::
  "(uuid \<Rightarrow> string) \<Rightarrow> (nat \<Rightarrow> uuid) \<Rightarrow> instant \<Rightarrow> sweep_tally \<times> database \<Rightarrow> reused_code \<Rightarrow>
   sweep_tally \<times> database" where
  "sweep_row uuid_text new_id now s row =
     (case (s, row) of ((tally0, db), (nonce, ticket_id, devices)) \<Rightarrow>
        let tally = tally0\<lparr>sw_flagged := sw_flagged tally0 + 1\<rparr> in
        (case get_ticket db ticket_id of
           None \<Rightarrow> (tally, db)
         | Some ticket \<Rightarrow>
             if tk_status ticket \<noteq> Ticket_active then (tally, db)
             else (tally\<lparr>sw_suspended := sw_suspended tally + 1\<rparr>,
               db\<lparr>db_tickets := row_edit tk_id ticket_id (\<lambda>t. t\<lparr>tk_status := Ticket_suspended\<rparr>)
                    (db_tickets db),
                  db_alerts := db_alerts db @
                    [reuse_alert uuid_text (new_id (sw_suspended tally)) now devices ticket_id]\<rparr>)))"

definition sweep_once ::
  "(reused_code list \<Rightarrow> reused_code list) \<Rightarrow> (uuid \<Rightarrow> string) \<Rightarrow> (nat \<Rightarrow> uuid) \<Rightarrow> instant \<Rightarrow>
   database \<Rightarrow> db_error + sweep_tally \<times> database" where
  "sweep_once arrange uuid_text new_id now db =
     (case fold (\<lambda>row s. sweep_row uuid_text new_id now s row) (unhandled_duplicates arrange db)
             (\<lparr>sw_flagged = 0, sw_suspended = 0\<rparr>, db) of
        (tally, staged) \<Rightarrow>
          if sw_suspended tally > 0
          then (case commit staged of Inl e \<Rightarrow> Inl e | Inr db' \<Rightarrow> Inr (tally, db'))
          else Inr (tally, db))"

section \<open>What a pass touches\<close>

text \<open>
  One row after another: the state so far differs from the start only in tickets that were
  active and are suspended now, one alert for each.
\<close>

definition swept :: "database \<Rightarrow> uuid list \<Rightarrow> sweep_tally \<times> database \<Rightarrow> bool" where
  "swept db ids s \<longleftrightarrow>
     db_tickets (snd s) = map (\<lambda>t. if tk_id t \<in> set ids \<and> tk_status t = Ticket_active
       then t\<lparr>tk_status := Ticket_suspended\<rparr> else t) (db_tickets db) \<and>
     sw_suspended (fst s) =
       length (filter (\<lambda>t. tk_id t \<in> set ids \<and> tk_status t = Ticket_active) (db_tickets db)) \<and>
     (\<exists>new. db_alerts (snd s) = db_alerts db @ new \<and> length new = sw_suspended (fst s)) \<and>
     snd s = db\<lparr>db_tickets := db_tickets (snd s), db_alerts := db_alerts (snd s)\<rparr>"

lemma swept_start: "swept db [] (\<lparr>sw_flagged = 0, sw_suspended = 0\<rparr>, db)"
  by (simp add: swept_def)

lemma swept_row:
  assumes "distinct (map tk_id (db_tickets db))" "swept db ids s"
  shows "swept db (ids @ [ticket_id]) (sweep_row uuid_text new_id now s (nonce, ticket_id, devices))"
proof -
  obtain tally cur where s: "s = (tally, cur)" by (cases s)
  let ?f = "\<lambda>t. if tk_id t \<in> set ids \<and> tk_status t = Ticket_active
    then t\<lparr>tk_status := Ticket_suspended\<rparr> else t"
  from assms(2) have tks: "db_tickets cur = map ?f (db_tickets db)"
    and rest: "cur = db\<lparr>db_tickets := db_tickets cur, db_alerts := db_alerts cur\<rparr>"
    and num: "sw_suspended tally =
      length (filter (\<lambda>t. tk_id t \<in> set ids \<and> tk_status t = Ticket_active) (db_tickets db))"
    and al: "\<exists>new. db_alerts cur = db_alerts db @ new \<and> length new = sw_suspended tally"
    unfolding swept_def s fst_conv snd_conv by blast+
  have get: "get_ticket cur ticket_id = map_option ?f (get_ticket db ticket_id)"
    unfolding tks by (rule row_get_map) simp
  have other: "t \<in> set (db_tickets db) \<Longrightarrow> tk_id t = ticket_id \<Longrightarrow> get_ticket db ticket_id = Some t" for t
    using row_get_mem [OF assms(1)] by blast
  show ?thesis
  proof (cases "\<exists>t. get_ticket cur ticket_id = Some t \<and> tk_status t = Ticket_active")
    case True
    then have step: "sweep_row uuid_text new_id now s (nonce, ticket_id, devices) =
      (tally\<lparr>sw_flagged := sw_flagged tally + 1, sw_suspended := sw_suspended tally + 1\<rparr>,
       cur\<lparr>db_tickets := row_edit tk_id ticket_id (\<lambda>t. t\<lparr>tk_status := Ticket_suspended\<rparr>) (db_tickets cur),
          db_alerts := db_alerts cur @ [reuse_alert uuid_text (new_id (sw_suspended tally)) now devices ticket_id]\<rparr>)"
      by (auto simp: sweep_row_def s Let_def)
    from True get obtain t0 where t0: "get_ticket db ticket_id = Some t0" "tk_status t0 = Ticket_active"
      by (auto split: if_splits)
    have "row_edit tk_id ticket_id (\<lambda>t. t\<lparr>tk_status := Ticket_suspended\<rparr>) (db_tickets cur) =
      map (\<lambda>t. if tk_id t \<in> set (ids @ [ticket_id]) \<and> tk_status t = Ticket_active
        then t\<lparr>tk_status := Ticket_suspended\<rparr> else t) (db_tickets db)"
      unfolding tks row_edit_def using t0 other by auto
    moreover have "length (filter (\<lambda>t. tk_id t \<in> set (ids @ [ticket_id]) \<and> tk_status t = Ticket_active)
        (db_tickets db)) = Suc (sw_suspended tally)"
    proof -
      have mem: "t0 \<in> set (db_tickets db)" "tk_id t0 = ticket_id"
        using t0(1) by (auto dest: row_get_SomeD)
      have "filter (\<lambda>t. tk_id t = ticket_id \<and> tk_status t = Ticket_active) (db_tickets db) = [t0]"
        using filter_key [OF assms(1) mem(1)] mem(2) t0(2) by (simp flip: filter_filter)
      moreover have new: "ticket_id \<notin> set ids" using True get t0 mem by (auto split: if_splits)
      moreover have "filter (\<lambda>t. tk_id t \<in> set (ids @ [ticket_id]) \<and> tk_status t = Ticket_active) (db_tickets db)
        = filter (\<lambda>t. (tk_id t \<in> set ids \<and> tk_status t = Ticket_active) \<or>
            (tk_id t = ticket_id \<and> tk_status t = Ticket_active)) (db_tickets db)"
        by (intro filter_cong) auto
      ultimately show ?thesis using num new by (simp add: length_filter_or)
    qed
    ultimately show ?thesis
      unfolding step using al by (subst rest) (auto simp: swept_def)
  next
    case False
    then have step: "sweep_row uuid_text new_id now s (nonce, ticket_id, devices) =
      (tally\<lparr>sw_flagged := sw_flagged tally + 1\<rparr>, cur)"
      by (auto simp: sweep_row_def s Let_def split: option.split)
    have "db_tickets cur = map (\<lambda>t. if tk_id t \<in> set (ids @ [ticket_id]) \<and> tk_status t = Ticket_active
        then t\<lparr>tk_status := Ticket_suspended\<rparr> else t) (db_tickets db)"
      unfolding tks using False get other by (auto split: if_splits)
    moreover have "filter (\<lambda>t. tk_id t \<in> set (ids @ [ticket_id]) \<and> tk_status t = Ticket_active) (db_tickets db)
      = filter (\<lambda>t. tk_id t \<in> set ids \<and> tk_status t = Ticket_active) (db_tickets db)"
      using False get other by (intro filter_cong) (auto split: if_splits)
    ultimately show ?thesis
      unfolding step using al rest num by (simp add: swept_def)
  qed
qed

lemma swept_rows:
  assumes "distinct (map tk_id (db_tickets db))" "swept db ids s"
  shows "swept db (ids @ map (\<lambda>(_, i, _). i) rows)
    (fold (\<lambda>row s. sweep_row uuid_text new_id now s row) rows s)"
  using assms(2)
proof (induction rows arbitrary: ids s)
  case (Cons row rows)
  obtain n i d where row: "row = (n, i, d)" by (cases row)
  from Cons.IH [OF swept_row [OF assms(1) Cons.prems, of i uuid_text new_id now n d]]
  show ?case by (simp add: row)
qed simp

text \<open>The tickets a pass looks at, and when a ticket is among them.\<close>

definition reused_tickets :: "database \<Rightarrow> uuid set" where
  "reused_tickets db = {i. \<exists>t. get_ticket db i = Some t \<and> tk_status t = Ticket_active \<and>
     (\<exists>r \<in> set (db_redemptions db). \<exists>q \<in> set (db_redemptions db).
        rd_ticket_id r = i \<and> rd_ticket_id q = i \<and> rd_nonce r = rd_nonce q \<and>
        rd_helper_device_id r \<noteq> rd_helper_device_id q)}"

lemma two_distinct:
  "2 \<le> length (remdups xs) \<longleftrightarrow> (\<exists>x \<in> set xs. \<exists>y \<in> set xs. x \<noteq> y)"
proof
  assume "2 \<le> length (remdups xs)"
  then obtain x y zs where "remdups xs = x # y # zs"
    by (cases "remdups xs" rule: remdups_adj.cases) auto
  moreover from this have "x \<noteq> y" by (metis distinct_length_2_or_more distinct_remdups)
  moreover have "set (remdups xs) = set xs" by simp
  ultimately show "\<exists>x \<in> set xs. \<exists>y \<in> set xs. x \<noteq> y"
    by (metis list.set_intros(1,2))
next
  assume "\<exists>x \<in> set xs. \<exists>y \<in> set xs. x \<noteq> y"
  then obtain x y where "{x, y} \<subseteq> set xs" "x \<noteq> y" by auto
  then have "card {x, y} \<le> card (set xs)" by (intro card_mono) auto
  with \<open>x \<noteq> y\<close> show "2 \<le> length (remdups xs)" by (simp add: length_remdups_card_conv)
qed

lemma reused_codes_iff:
  "(n, i, d) \<in> set (reused_codes db) \<longleftrightarrow>
     d = devices_of db n i \<and> 2 \<le> d \<and>
     (\<exists>r \<in> set (db_redemptions db). on_active_ticket db r \<and> rd_nonce r = n \<and> rd_ticket_id r = i)"
  by (auto simp: reused_codes_def DEVICE_THRESHOLD_def image_iff)

lemma reused_tickets_codes: "reused_tickets db = (\<lambda>(_, i, _). i) ` set (reused_codes db)"
proof (intro set_eqI iffI)
  fix i assume "i \<in> reused_tickets db"
  then obtain t r q where *: "get_ticket db i = Some t" "tk_status t = Ticket_active"
    "r \<in> set (db_redemptions db)" "q \<in> set (db_redemptions db)" "rd_ticket_id r = i"
    "rd_ticket_id q = i" "rd_nonce r = rd_nonce q" "rd_helper_device_id r \<noteq> rd_helper_device_id q"
    by (auto simp: reused_tickets_def)
  then have "2 \<le> devices_of db (rd_nonce r) i"
    by (auto simp: devices_of_def two_distinct)
  with * have "(rd_nonce r, i, devices_of db (rd_nonce r) i) \<in> set (reused_codes db)"
    unfolding reused_codes_iff by (intro conjI bexI [of _ r]) (simp_all add: on_active_ticket_def)
  then show "i \<in> (\<lambda>(_, i, _). i) ` set (reused_codes db)" by force
next
  fix i assume "i \<in> (\<lambda>(_, i, _). i) ` set (reused_codes db)"
  then obtain n d where "(n, i, d) \<in> set (reused_codes db)" by auto
  then have two: "2 \<le> devices_of db n i" and act: "\<exists>t. get_ticket db i = Some t \<and> tk_status t = Ticket_active"
    by (auto simp: reused_codes_iff on_active_ticket_def split: option.splits)
  from two obtain r q where w: "r \<in> set (db_redemptions db)" "q \<in> set (db_redemptions db)"
    "rd_ticket_id r = i" "rd_ticket_id q = i" "rd_nonce r = n" "rd_nonce q = n"
    "rd_helper_device_id r \<noteq> rd_helper_device_id q"
    unfolding devices_of_def two_distinct by auto
  from act obtain t where "get_ticket db i = Some t" "tk_status t = Ticket_active" by blast
  with w show "i \<in> reused_tickets db"
    unfolding reused_tickets_def mem_Collect_eq
    by (intro exI [of _ t] conjI bexI [of _ r] bexI [of _ q]) simp_all
qed

text \<open>What a pass that returns has done, in terms of the tickets it looked at.\<close>

lemma sweep_once_effect:
  assumes "sweep_once arrange uuid_text new_id now db = Inr (tally, db')"
    and ok: "db_ok db" and perm: "\<And>xs. mset (arrange xs) = mset xs"
  obtains ids where "set ids \<subseteq> reused_tickets db"
    "length (reused_codes db) \<le> BATCH \<Longrightarrow> set ids = reused_tickets db" "swept db ids (tally, db')"
proof -
  let ?rows = "unhandled_duplicates arrange db"
  let ?ids = "map (\<lambda>(_, i, _). i) ?rows"
  have same: "set (arrange xs) = set xs" "length (arrange xs) = length xs" for xs
    using perm [of xs] by (metis set_mset_mset, metis size_mset)
  have sub: "set ?rows \<subseteq> set (reused_codes db)"
    using same(1) [of "reused_codes db"] by (auto simp: unhandled_duplicates_def dest: in_set_takeD)
  obtain tly staged where fold: "fold (\<lambda>row s. sweep_row uuid_text new_id now s row) ?rows
      (\<lparr>sw_flagged = 0, sw_suspended = 0\<rparr>, db) = (tly, staged)" by (metis surj_pair)
  have sw: "swept db ?ids (tly, staged)"
    using swept_rows [OF db_ok_tickets_distinct [OF ok] swept_start, of ?rows uuid_text new_id now]
    by (simp add: fold)
  have "swept db ?ids (tally, db')"
  proof (cases "0 < sw_suspended tly")
    case True
    with assms(1) fold sw show ?thesis by (auto simp: sweep_once_def split: sum.splits)
  next
    case False
    with assms(1) fold have eq: "tally = tly" "db' = db" by (auto simp: sweep_once_def)
    from False sw have "sw_suspended tly = 0"
      "filter (\<lambda>t. tk_id t \<in> set ?ids \<and> tk_status t = Ticket_active) (db_tickets db) = []"
      by (simp_all add: swept_def)
    moreover from this(2) have "map (\<lambda>t. if tk_id t \<in> set ?ids \<and> tk_status t = Ticket_active
        then t\<lparr>tk_status := Ticket_suspended\<rparr> else t) (db_tickets db) = db_tickets db"
      by (intro map_idI) (auto simp: filter_empty_conv)
    ultimately show ?thesis by (simp add: eq swept_def)
  qed
  moreover have "set ?ids \<subseteq> reused_tickets db"
    using sub by (force simp: reused_tickets_codes)
  moreover have "set ?ids = reused_tickets db" if "length (reused_codes db) \<le> BATCH"
    using that same [of "reused_codes db"] by (simp add: unhandled_duplicates_def reused_tickets_codes)
  ultimately show thesis by (intro that)
qed

section \<open>Properties\<close>

lemma swept_get:
  assumes "swept db ids (tally, db')"
  shows "get_ticket db' i = map_option (\<lambda>t. if i \<in> set ids \<and> tk_status t = Ticket_active
    then t\<lparr>tk_status := Ticket_suspended\<rparr> else t) (get_ticket db i)"
proof -
  have "get_ticket db' i = map_option (\<lambda>t. if tk_id t \<in> set ids \<and> tk_status t = Ticket_active
    then t\<lparr>tk_status := Ticket_suspended\<rparr> else t) (get_ticket db i)"
    using assms row_get_map [of tk_id "\<lambda>t. if tk_id t \<in> set ids \<and> tk_status t = Ticket_active
      then t\<lparr>tk_status := Ticket_suspended\<rparr> else t" "db_tickets db" i]
    by (simp add: swept_def)
  then show ?thesis by (cases "get_ticket db i") (auto dest: row_get_SomeD)
qed

lemma swept_frame:
  assumes "swept db ids (tally, db')"
  shows "db_redemptions db' = db_redemptions db" "db_orders db' = db_orders db"
    "db_products db' = db_products db" "db_students db' = db_students db"
proof -
  have eq: "db' = db\<lparr>db_tickets := db_tickets db', db_alerts := db_alerts db'\<rparr>"
    using assms unfolding swept_def fst_conv snd_conv by blast
  show "db_redemptions db' = db_redemptions db" "db_orders db' = db_orders db"
    "db_products db' = db_products db" "db_students db' = db_students db"
    by (subst eq, simp)+
qed

text \<open>
  The alerts of the pass so far: one for each ticket it suspended, in order, each with the number of
  devices of the code that gave the ticket away.
\<close>

definition alerted ::
  "(uuid \<Rightarrow> string) \<Rightarrow> (nat \<Rightarrow> uuid) \<Rightarrow> instant \<Rightarrow> database \<Rightarrow> reused_code list \<Rightarrow> (uuid \<times> nat) list \<Rightarrow>
   sweep_tally \<times> database \<Rightarrow> bool" where
  "alerted uuid_text new_id now db rows hits s \<longleftrightarrow>
     distinct (map fst hits) \<and> sw_suspended (fst s) = length hits \<and>
     set (map fst hits) = {i. (\<exists>n d. (n, i, d) \<in> set rows) \<and>
       (\<exists>t. get_ticket db i = Some t \<and> tk_status t = Ticket_active)} \<and>
     (\<forall>(i, d) \<in> set hits. \<exists>n. (n, i, d) \<in> set rows) \<and>
     db_alerts (snd s) = db_alerts db @
       map (\<lambda>(k, i, d). reuse_alert uuid_text (new_id k) now d i) (enumerate 0 hits)"

lemma alerted_row:
  assumes "swept db (map (\<lambda>(_, i, _). i) rows) s" "alerted uuid_text new_id now db rows hits s"
  shows "\<exists>hits. alerted uuid_text new_id now db (rows @ [(nonce, i, d)]) hits
    (sweep_row uuid_text new_id now s (nonce, i, d))"
proof -
  obtain tally cur where s: "s = (tally, cur)" by (cases s)
  have get: "get_ticket cur i = map_option (\<lambda>t. if (\<exists>n d. (n, i, d) \<in> set rows) \<and> tk_status t = Ticket_active
      then t\<lparr>tk_status := Ticket_suspended\<rparr> else t) (get_ticket db i)"
    using swept_get [OF assms(1) [unfolded s], of i] by (cases "get_ticket db i") (auto simp: image_iff)
  note h = assms(2) [unfolded alerted_def s fst_conv snd_conv]
  show ?thesis
  proof (cases "\<exists>t. get_ticket cur i = Some t \<and> tk_status t = Ticket_active")
    case True
    then obtain t where t: "get_ticket cur i = Some t" "tk_status t = Ticket_active" by blast
    obtain t0 where t0: "get_ticket db i = Some t0" using t(1) unfolding get by (cases "get_ticket db i") simp_all
    with t have "t = (if (\<exists>n d. (n, i, d) \<in> set rows) \<and> tk_status t0 = Ticket_active
        then t0\<lparr>tk_status := Ticket_suspended\<rparr> else t0)" unfolding get by simp
    with t(2) t0
    have new: "\<exists>t. get_ticket db i = Some t \<and> tk_status t = Ticket_active" "\<not> (\<exists>n d. (n, i, d) \<in> set rows)"
      by (cases "(\<exists>n d. (n, i, d) \<in> set rows) \<and> tk_status t0 = Ticket_active"; simp)+
    then have "i \<notin> set (map fst hits)" using h by auto
    with True h new show ?thesis
      by (intro exI [of _ "hits @ [(i, d)]"]) (auto simp: alerted_def s sweep_row_def Let_def enumerate_append_eq)
  next
    case False
    with get have "(\<exists>n d. (n, i, d) \<in> set rows) \<or> \<not> (\<exists>t. get_ticket db i = Some t \<and> tk_status t = Ticket_active)"
      by (auto split: if_splits)
    with False h show ?thesis
      by (intro exI [of _ hits]) (auto simp: alerted_def s sweep_row_def Let_def split: option.split)
  qed
qed

lemma alerted_rows:
  assumes "distinct (map tk_id (db_tickets db))" "swept db (map (\<lambda>(_, i, _). i) done) s"
    and "alerted uuid_text new_id now db done hits s"
  shows "\<exists>hits. alerted uuid_text new_id now db (done @ rows) hits
    (fold (\<lambda>row s. sweep_row uuid_text new_id now s row) rows s)"
  using assms(2,3)
proof (induction rows arbitrary: "done" hits s)
  case (Cons row rows)
  obtain n i d where row: "row = (n, i, d)" by (cases row)
  obtain hits' where h: "alerted uuid_text new_id now db (done @ [row]) hits' (sweep_row uuid_text new_id now s row)"
    using alerted_row [OF Cons.prems, of n i d] unfolding row by blast
  have "swept db (map (\<lambda>(_, i, _). i) (done @ [row])) (sweep_row uuid_text new_id now s row)"
    using swept_row [OF assms(1) Cons.prems(1), of i uuid_text new_id now n d] by (simp add: row)
  from Cons.IH [OF this h] show ?case by simp
qed auto

lemma commit_swept:
  "(if 0 < sw_suspended tly then (case commit staged of Inl e \<Rightarrow> Inl e | Inr d \<Rightarrow> Inr (tly, d)) else Inr (tly, db)) =
     Inr (tally, db') \<Longrightarrow> tally = tly \<and> (sw_suspended tly = 0 \<and> db' = db \<or> db' = staged)"
  by (auto split: if_splits sum.splits)

text \<open>
  C28. A pass that returns changes tickets and alerts only. It suspends the tickets of a set that
  is, with at most a hundred reused codes waiting, exactly the active tickets with one code accepted on
  two or more devices, and otherwise part of those; every other column and every other ticket stays. It
  keeps every alert and adds one for each ticket suspended, about that ticket and with the number of
  devices of one of its reused codes.
\<close>

theorem sweep_suspends_reused_tickets:
  assumes "sweep_once arrange uuid_text new_id now db = Inr (tally, db')"
    and "db_ok db" and "\<And>xs. mset (arrange xs) = mset xs"
  shows "\<exists>hits. distinct (map fst hits) \<and> sw_suspended tally = length hits \<and>
    set (map fst hits) \<subseteq> reused_tickets db \<and>
    (length (reused_codes db) \<le> 100 \<longrightarrow> set (map fst hits) = reused_tickets db) \<and>
    (\<forall>(i, d) \<in> set hits. 2 \<le> d \<and> (\<exists>n. d = devices_of db n i)) \<and>
    db' = db\<lparr>
      db_tickets := map (\<lambda>t. if tk_id t \<in> set (map fst hits) then t\<lparr>tk_status := Ticket_suspended\<rparr> else t) (db_tickets db),
      db_alerts := db_alerts db @ map (\<lambda>(k, i, d). reuse_alert uuid_text (new_id k) now d i) (enumerate 0 hits)\<rparr>"
proof -
  let ?rows = "unhandled_duplicates arrange db"
  obtain tly staged where fold: "fold (\<lambda>row s. sweep_row uuid_text new_id now s row) ?rows
      (\<lparr>sw_flagged = 0, sw_suspended = 0\<rparr>, db) = (tly, staged)" by (metis surj_pair)
  have dist: "distinct (map tk_id (db_tickets db))" by (rule db_ok_tickets_distinct [OF assms(2)])
  have sw: "swept db (map (\<lambda>(_, i, _). i) ?rows) (tly, staged)"
    using swept_rows [OF dist swept_start, of ?rows uuid_text new_id now] by (simp add: fold)
  have "alerted uuid_text new_id now db [] [] (\<lparr>sw_flagged = 0, sw_suspended = 0\<rparr>, db)" by (simp add: alerted_def)
  from alerted_rows [OF dist _ this, of ?rows] obtain hits where
    al: "alerted uuid_text new_id now db ?rows hits (tly, staged)" by (auto simp: fold swept_start)
  note hs = al [unfolded alerted_def fst_conv snd_conv]
  have same: "set (arrange xs) = set xs" "length (arrange xs) = length xs" for xs
    using assms(3) [of xs] by (metis set_mset_mset, metis size_mset)
  have sub: "set ?rows \<subseteq> set (reused_codes db)"
    using same(1) [of "reused_codes db"] by (auto simp: unhandled_duplicates_def dest: in_set_takeD)
  have reused: "(\<exists>n d. (n, i, d) \<in> set (reused_codes db)) \<longleftrightarrow> i \<in> reused_tickets db" for i
    by (force simp: reused_tickets_codes)
  have act: "i \<in> reused_tickets db \<Longrightarrow> \<exists>t. get_ticket db i = Some t \<and> tk_status t = Ticket_active" for i
    by (auto simp: reused_tickets_def)
  have ids: "set (map fst hits) = {i. \<exists>n d. (n, i, d) \<in> set ?rows}"
    using hs sub reused act by blast
  have all: "{i. \<exists>n d. (n, i, d) \<in> set ?rows} = reused_tickets db" if "length (reused_codes db) \<le> 100"
    using that same [of "reused_codes db"] reused by (auto simp: unhandled_duplicates_def BATCH_def)
  have tickets: "db_tickets staged =
      map (\<lambda>t. if tk_id t \<in> set (map fst hits) then t\<lparr>tk_status := Ticket_suspended\<rparr> else t) (db_tickets db)"
  proof -
    have row: "tk_id t \<in> (\<lambda>(_, i, _). i) ` set ?rows \<longleftrightarrow> tk_id t \<in> set (map fst hits)" for t
      unfolding ids by force
    have active: "tk_status t = Ticket_active" if "t \<in> set (db_tickets db)" "tk_id t \<in> set (map fst hits)" for t
      using that hs row_get_mem [OF dist that(1)] by auto
    have "db_tickets staged = map (\<lambda>t. if tk_id t \<in> set (map (\<lambda>(_, i, _). i) ?rows) \<and> tk_status t = Ticket_active
        then t\<lparr>tk_status := Ticket_suspended\<rparr> else t) (db_tickets db)"
      using sw unfolding swept_def snd_conv by blast
    also have "\<dots> = map (\<lambda>t. if tk_id t \<in> set (map fst hits) then t\<lparr>tk_status := Ticket_suspended\<rparr> else t) (db_tickets db)"
    proof (rule map_cong [OF refl])
      fix t assume "t \<in> set (db_tickets db)"
      with active [of t] row [of t]
      show "(if tk_id t \<in> set (map (\<lambda>(_, i, _). i) ?rows) \<and> tk_status t = Ticket_active
          then t\<lparr>tk_status := Ticket_suspended\<rparr> else t) =
        (if tk_id t \<in> set (map fst hits) then t\<lparr>tk_status := Ticket_suspended\<rparr> else t)"
        unfolding set_map by presburger
    qed
    finally show ?thesis .
  qed
  have "(if 0 < sw_suspended tly then (case commit staged of Inl e \<Rightarrow> Inl e | Inr d \<Rightarrow> Inr (tly, d)) else Inr (tly, db)) =
      Inr (tally, db')"
    using assms(1) unfolding sweep_once_def fold prod.case .
  from commit_swept [OF this] have finish: "tally = tly" "sw_suspended tly = 0 \<and> db' = db \<or> db' = staged" by simp_all
  have final: "db' = staged"
  proof (cases "sw_suspended tly = 0")
    case True
    then have "hits = []" using hs by simp
    then have "db_tickets staged = db_tickets db" "db_alerts staged = db_alerts db" using tickets hs by simp_all
    then show ?thesis using finish(2) sw unfolding swept_def snd_conv by auto
  qed (use finish(2) in auto)
  have "staged = db\<lparr>db_tickets := db_tickets staged, db_alerts := db_alerts staged\<rparr>"
    using sw unfolding swept_def snd_conv by blast
  with hs tickets have whole: "staged = db\<lparr>
      db_tickets := map (\<lambda>t. if tk_id t \<in> set (map fst hits) then t\<lparr>tk_status := Ticket_suspended\<rparr> else t) (db_tickets db),
      db_alerts := db_alerts db @ map (\<lambda>(k, i, d). reuse_alert uuid_text (new_id k) now d i) (enumerate 0 hits)\<rparr>"
    by simp
  have devices: "2 \<le> d \<and> (\<exists>n. d = devices_of db n i)" if "(i, d) \<in> set hits" for i d
    using that hs sub by (fastforce simp: reused_codes_iff)
  have "set (map fst hits) \<subseteq> reused_tickets db" unfolding ids using sub reused by blast
  moreover have "\<forall>(i, d) \<in> set hits. 2 \<le> d \<and> (\<exists>n. d = devices_of db n i)" using devices by blast
  moreover have "length (reused_codes db) \<le> 100 \<longrightarrow> set (map fst hits) = reused_tickets db" using all ids by simp
  moreover have "distinct (map fst hits)" "sw_suspended tally = length hits" using hs finish(1) by simp_all
  ultimately show ?thesis using whole unfolding final by blast
qed

definition demo_reuse :: database where
  "demo_reuse = demo_boarded\<lparr>db_redemptions := [demo_redemption, demo_redemption\<lparr>rd_id := 1002,
     rd_helper_device_id := ''dev-2'', rd_flag := Flag_duplicate_suspect\<rparr>]\<rparr>"

definition demo_swept :: database where
  "demo_swept = demo_reuse\<lparr>
     db_tickets := [demo_ticket\<lparr>tk_rides_remaining := Some 8, tk_status := Ticket_suspended\<rparr>],
     db_alerts := [reuse_alert (\<lambda>_. ''t101'') 501 demo_now 2 101]\<rparr>"

lemma demo_reuse_ok: "db_ok demo_reuse"
  by (simp add: db_ok_defs demo_reuse_def demo_boarded_def demo_redemption_def demo_defs
      unique_on_def fk_opt_def)

lemma demo_swept_ok: "db_ok demo_swept"
  by (simp add: db_ok_defs demo_swept_def reuse_alert_def demo_reuse_def demo_boarded_def
      demo_redemption_def demo_defs unique_on_def fk_opt_def)

lemma demo_sweep:
  "sweep_once (\<lambda>xs. xs) (\<lambda>_. ''t101'') (\<lambda>k. 501 + k) demo_now demo_reuse
     = Inr (\<lparr>sw_flagged = 1, sw_suspended = 1\<rparr>, demo_swept)"
proof -
  have r: "db_redemptions demo_reuse = [demo_redemption, demo_redemption\<lparr>rd_id := 1002,
     rd_helper_device_id := ''dev-2'', rd_flag := Flag_duplicate_suspect\<rparr>]"
    and t: "db_tickets demo_reuse = [demo_ticket\<lparr>tk_rides_remaining := Some 8\<rparr>]"
    by (simp_all add: demo_reuse_def demo_boarded_def)
  have d: "devices_of demo_reuse ''n1'' 101 = 2"
    by (simp add: devices_of_def r demo_redemption_def)
  have "unhandled_duplicates (\<lambda>xs. xs) demo_reuse = [(''n1'', 101, 2)]"
    by (simp add: unhandled_duplicates_def reused_codes_def BATCH_def DEVICE_THRESHOLD_def r
        on_active_ticket_def t demo_redemption_def demo_ticket_def d)
  then have "fold (\<lambda>row s. sweep_row (\<lambda>_. ''t101'') (\<lambda>k. 501 + k) demo_now s row)
      (unhandled_duplicates (\<lambda>xs. xs) demo_reuse) (\<lparr>sw_flagged = 0, sw_suspended = 0\<rparr>, demo_reuse)
      = (\<lparr>sw_flagged = 1, sw_suspended = 1\<rparr>, demo_swept)"
    by (simp add: sweep_row_def t demo_ticket_def)
      (simp add: demo_swept_def demo_reuse_def demo_boarded_def demo_ticket_def demo_db_def)
  then show ?thesis by (simp add: sweep_once_def demo_swept_ok)
qed

theorem sweep_suspends_reused_tickets_witness:
  "\<exists>hits. length hits = 1 \<and> set (map fst hits) \<subseteq> reused_tickets demo_reuse \<and>
    db_alerts demo_swept = map (\<lambda>(k, i, d). reuse_alert (\<lambda>_. ''t101'') (501 + k) demo_now d i) (enumerate 0 hits)"
proof -
  obtain hits where "sw_suspended \<lparr>sw_flagged = 1, sw_suspended = 1\<rparr> = length hits"
    "set (map fst hits) \<subseteq> reused_tickets demo_reuse"
    and d: "demo_swept = demo_reuse\<lparr>
      db_tickets := map (\<lambda>t. if tk_id t \<in> set (map fst hits) then t\<lparr>tk_status := Ticket_suspended\<rparr> else t) (db_tickets demo_reuse),
      db_alerts := db_alerts demo_reuse @ map (\<lambda>(k, i, d). reuse_alert (\<lambda>_. ''t101'') (501 + k) demo_now d i) (enumerate 0 hits)\<rparr>"
    using sweep_suspends_reused_tickets [OF demo_sweep demo_reuse_ok] by blast
  moreover have "db_alerts demo_reuse = []" by (simp add: demo_reuse_def demo_boarded_def demo_db_def)
  moreover from d have "db_alerts demo_swept = db_alerts demo_reuse @
      map (\<lambda>(k, i, d). reuse_alert (\<lambda>_. ''t101'') (501 + k) demo_now d i) (enumerate 0 hits)" by (rule ssubst) simp
  ultimately show ?thesis by (intro exI [of _ hits]) simp
qed

lemma no_reuse_no_rows:
  assumes "reused_tickets db = {}" "\<And>xs. mset (arrange xs) = mset xs"
  shows "unhandled_duplicates arrange db = []"
proof -
  have "reused_codes db = []" using assms(1) by (auto simp: reused_tickets_codes)
  then show ?thesis using assms(2) [of "[]"] by (simp add: unhandled_duplicates_def)
qed

text \<open>
  The sweep does not repeat itself: after a pass that had at most a hundred reused
  codes to handle, the next pass on the same boardings suspends nothing, alerts nobody and
  leaves the database as it is.
\<close>

theorem second_sweep_is_quiet:
  assumes "sweep_once arrange uuid_text new_id now db = Inr (tally, db')"
    and "db_ok db" and perm: "\<And>xs. mset (arrange xs) = mset xs"
    and "length (reused_codes db) \<le> 100"
  shows "sweep_once arrange uuid_text new_id' later db' =
    Inr (\<lparr>sw_flagged = 0, sw_suspended = 0\<rparr>, db')"
proof -
  obtain ids where ids: "set ids = reused_tickets db" "swept db ids (tally, db')"
    using sweep_once_effect [OF assms(1-3)] assms(4) unfolding BATCH_def by metis
  have "reused_tickets db' = {}"
    using ids(1) unfolding reused_tickets_def swept_get [OF ids(2)] swept_frame(1) [OF ids(2)]
    by (auto split: if_splits)
  then show ?thesis by (simp add: sweep_once_def no_reuse_no_rows [OF _ perm])
qed

theorem second_sweep_is_quiet_witness:
  "sweep_once (\<lambda>xs. xs) (\<lambda>_. ''t101'') (\<lambda>k. 601 + k) (demo_now + 10 * minute) demo_swept =
    Inr (\<lparr>sw_flagged = 0, sw_suspended = 0\<rparr>, demo_swept)"
proof (rule second_sweep_is_quiet [OF demo_sweep demo_reuse_ok])
  have "length (reused_codes demo_reuse) \<le> length (db_redemptions demo_reuse)"
    unfolding reused_codes_def
    by (rule order_trans [OF length_filter_le], simp, rule order_trans [OF length_remdups_leq], simp)
  then show "length (reused_codes demo_reuse) \<le> 100" by (simp add: demo_reuse_def)
qed simp

text \<open>
  A ticket that is no longer active escapes the sweep: a ticket whose first scan used
  its last ride (a single-ride ticket always, whose status is then \<open>exhausted\<close>) is neither
  suspended nor alerted about, however many devices accepted its code.
\<close>

theorem sweep_ignores_spent_tickets:
  assumes "sweep_once arrange uuid_text new_id now db = Inr (tally, db')"
    and "db_ok db" and "\<And>xs. mset (arrange xs) = mset xs"
    and "get_ticket db i = Some t" "tk_status t \<noteq> Ticket_active"
  shows "get_ticket db' i = Some t \<and> i \<notin> reused_tickets db"
proof -
  obtain ids where "swept db ids (tally, db')" using sweep_once_effect [OF assms(1-3)] by metis
  with assms(4,5) show ?thesis by (auto simp: swept_get reused_tickets_def)
qed

definition demo_spent :: database where
  "demo_spent = demo_reuse\<lparr>db_tickets := [demo_ticket\<lparr>tk_rides_total := Some 2,
     tk_rides_remaining := Some 0, tk_status := Ticket_exhausted\<rparr>]\<rparr>"

theorem sweep_ignores_spent_tickets_witness:
  "get_ticket demo_spent 101 = Some (demo_ticket\<lparr>tk_rides_total := Some 2,
     tk_rides_remaining := Some 0, tk_status := Ticket_exhausted\<rparr>) \<and> 101 \<notin> reused_tickets demo_spent"
proof (rule sweep_ignores_spent_tickets)
  show "db_ok demo_spent"
    by (simp add: db_ok_defs demo_spent_def demo_reuse_def demo_boarded_def demo_redemption_def
        demo_defs unique_on_def fk_opt_def)
  show "sweep_once (\<lambda>xs. xs) (\<lambda>_. ''t101'') (\<lambda>k. k) demo_now demo_spent
      = Inr (\<lparr>sw_flagged = 0, sw_suspended = 0\<rparr>, demo_spent)"
    by (simp add: sweep_once_def unhandled_duplicates_def reused_codes_def on_active_ticket_def
        demo_spent_def demo_reuse_def demo_redemption_def demo_ticket_def)
qed (simp_all add: demo_spent_def demo_ticket_def)

section \<open>The sweep keeps the accounts\<close>

lemma sweep_boarding_inv [inv_intros]:
  assumes "sweep_once arrange uuid_text new_id now db = Inr (tally, db')"
    and "boarding_inv db" and "\<And>xs. mset (arrange xs) = mset xs"
  shows "boarding_inv db'"
proof -
  have ok: "db_ok db" using assms(2) by (simp add: boarding_inv_def)
  obtain ids where sw: "swept db ids (tally, db')"
    using sweep_once_effect [OF assms(1) ok assms(3)] by metis
  have "db_ok db'"
    using assms(1) ok by (auto simp: sweep_once_def split: sum.splits prod.splits if_splits)
  moreover have same: "ride_account db' = ride_account db"
    by (intro ext ride_account_cong) (simp add: rides_used_def swept_frame(1) [OF sw])
  have "db_tickets db' = map (\<lambda>t. if tk_id t \<in> set ids \<and> tk_status t = Ticket_active
      then t\<lparr>tk_status := Ticket_suspended\<rparr> else t) (db_tickets db)"
    using sw by (simp add: swept_def)
  then have "rides_ok db'"
    using assms(2) unfolding rides_ok_def same boarding_inv_def by (auto simp: list_all_iff)
  ultimately show ?thesis
    using assms(2) swept_frame(1) [OF sw] by (simp add: boarding_inv_def counted_once_def)
qed

end
