(* ===== verification/Catalog.thy ===== *)
theory Catalog
  imports Shop "HOL-Library.List_Lexorder"
begin

text \<open>
  What an operator configures: products, stops and routes (\<^verbatim>\<open>app/api/routes/admin_catalog.py\<close>),
  the buses (\<^verbatim>\<open>app/api/routes/admin.py\<close>), the fleet's queries
  (\<^verbatim>\<open>app/repositories/fleet.py\<close>) and the read-only routes
  (\<^verbatim>\<open>app/api/routes/fleet.py\<close>), with the bounds of the request schemas
  (\<^verbatim>\<open>app/schemas/\<close>). Text is ordered by the database's collation, the
  argument \<open>collate\<close>; the handlers get bodies the schemas accepted.
\<close>

section \<open>Partial edits\<close>

text \<open>
  A field of a PATCH body: left out, sent as null, or sent with a value. A null for a column
  that is not nullable passes the schemas and is refused by the commit.
\<close>

datatype 'a patch = Unset | Null | Set 'a

fun patched :: "'a patch \<Rightarrow> 'a \<Rightarrow> 'a option" where
  "patched Unset old = Some old"
| "patched Null old = None"
| "patched (Set v) old = Some v"

fun patched_opt :: "'a patch \<Rightarrow> 'a option \<Rightarrow> 'a option" where
  "patched_opt Unset old = old"
| "patched_opt Null old = None"
| "patched_opt (Set v) old = Some v"

fun patch_ok :: "('a \<Rightarrow> bool) \<Rightarrow> 'a patch \<Rightarrow> bool" where
  "patch_ok P (Set v) = P v"
| "patch_ok P _ = True"

definition text_ok :: "nat \<Rightarrow> string \<Rightarrow> bool" where
  "text_ok n s \<longleftrightarrow> 1 \<le> length s \<and> length s \<le> n"

section \<open>Products\<close>

record product_create =
  pc_type :: product_type
  pc_name :: string
  pc_price_paisa :: int
  pc_ride_count :: "int option"
  pc_validity_days :: int
  pc_route_scope :: "uuid option"
  pc_active :: bool

definition product_create_ok :: "product_create \<Rightarrow> bool" where
  "product_create_ok b \<longleftrightarrow> text_ok 120 (pc_name b) \<and> 0 \<le> pc_price_paisa b \<and>
     (case pc_ride_count b of None \<Rightarrow> True | Some n \<Rightarrow> 1 \<le> n) \<and> 1 \<le> pc_validity_days b"

record product_update =
  pu_name :: "string patch"
  pu_price_paisa :: "int patch"
  pu_ride_count :: "int patch"
  pu_validity_days :: "int patch"
  pu_route_scope :: "uuid patch"
  pu_active :: "bool patch"

definition product_update_ok :: "product_update \<Rightarrow> bool" where
  "product_update_ok b \<longleftrightarrow> patch_ok (text_ok 120) (pu_name b) \<and>
     patch_ok (\<lambda>n. 0 \<le> n) (pu_price_paisa b) \<and> patch_ok (\<lambda>n. 1 \<le> n) (pu_ride_count b) \<and>
     patch_ok (\<lambda>n. 1 \<le> n) (pu_validity_days b)"

definition admin_list_products :: "database \<Rightarrow> bool \<Rightarrow> ticket_product list" where
  "admin_list_products db include_inactive = list_products db (\<not> include_inactive)"

definition create_product ::
  "uuid \<Rightarrow> database \<Rightarrow> product_create \<Rightarrow> (handler_error + ticket_product) \<times> database" where
  "create_product new_id db body =
     (if \<exists>r. pc_route_scope body = Some r \<and> get_route db r = None
      then (Inl (Http (HTTPException 404 ''Unknown route for route_scope'')), db)
      else
        let product = \<lparr>pr_id = new_id, pr_type = pc_type body, pr_name = pc_name body,
              pr_price_paisa = pc_price_paisa body, pr_ride_count = pc_ride_count body,
              pr_validity_days = pc_validity_days body, pr_route_scope = pc_route_scope body,
              pr_active = pc_active body\<rparr> in
        (case commit (db\<lparr>db_products := db_products db @ [product]\<rparr>) of
           Inl e \<Rightarrow> (Inl (UncaughtDb e), db)
         | Inr db' \<Rightarrow> (Inr product, db')))"

definition patched_product :: "product_update \<Rightarrow> ticket_product \<Rightarrow> ticket_product option" where
  "patched_product body p =
     (case (patched (pu_name body) (pr_name p), patched (pu_price_paisa body) (pr_price_paisa p),
        patched (pu_validity_days body) (pr_validity_days p), patched (pu_active body) (pr_active p)) of
        (Some name, Some price, Some days, Some active) \<Rightarrow>
          Some (p\<lparr>pr_name := name, pr_price_paisa := price,
            pr_ride_count := patched_opt (pu_ride_count body) (pr_ride_count p),
            pr_validity_days := days,
            pr_route_scope := patched_opt (pu_route_scope body) (pr_route_scope p),
            pr_active := active\<rparr>)
      | _ \<Rightarrow> None)"

definition update_product ::
  "database \<Rightarrow> uuid \<Rightarrow> product_update \<Rightarrow> (handler_error + ticket_product) \<times> database" where
  "update_product db product_id body =
     (case get_product db product_id of
        None \<Rightarrow> (Inl (Http (HTTPException 404 ''Unknown product'')), db)
      | Some product \<Rightarrow>
          if \<exists>r. pu_route_scope body = Set r \<and> get_route db r = None
          then (Inl (Http (HTTPException 404 ''Unknown route for route_scope'')), db)
          else (case patched_product body product of
              None \<Rightarrow> (Inl (UncaughtDb IntegrityError), db)
            | Some product' \<Rightarrow>
                (case commit (db\<lparr>db_products :=
                    row_edit pr_id product_id (\<lambda>_. product') (db_products db)\<rparr>) of
                   Inl e \<Rightarrow> (Inl (UncaughtDb e), db)
                 | Inr db' \<Rightarrow> (Inr product', db'))))"

section \<open>Stops\<close>

record stop_create =
  sc_name :: string
  sc_lat :: real
  sc_lng :: real

definition stop_create_ok :: "stop_create \<Rightarrow> bool" where
  "stop_create_ok b \<longleftrightarrow> text_ok 120 (sc_name b) \<and> -90 \<le> sc_lat b \<and> sc_lat b \<le> 90 \<and>
     -180 \<le> sc_lng b \<and> sc_lng b \<le> 180"

record stop_update =
  su_name :: "string patch"
  su_lat :: "real patch"
  su_lng :: "real patch"

definition stop_update_ok :: "stop_update \<Rightarrow> bool" where
  "stop_update_ok b \<longleftrightarrow> patch_ok (text_ok 120) (su_name b) \<and>
     patch_ok (\<lambda>x. -90 \<le> x \<and> x \<le> 90) (su_lat b) \<and> patch_ok (\<lambda>x. -180 \<le> x \<and> x \<le> 180) (su_lng b)"

definition create_stop :: "uuid \<Rightarrow> database \<Rightarrow> stop_create \<Rightarrow> (handler_error + stop) \<times> database" where
  "create_stop new_id db body =
     (let stop = \<lparr>sp_id = new_id, sp_name = sc_name body, sp_lat = sc_lat body, sp_lng = sc_lng body\<rparr> in
      case commit (db\<lparr>db_stops := db_stops db @ [stop]\<rparr>) of
        Inl e \<Rightarrow> (Inl (UncaughtDb e), db)
      | Inr db' \<Rightarrow> (Inr stop, db'))"

definition patched_stop :: "stop_update \<Rightarrow> stop \<Rightarrow> stop option" where
  "patched_stop body s =
     (case (patched (su_name body) (sp_name s), patched (su_lat body) (sp_lat s),
        patched (su_lng body) (sp_lng s)) of
        (Some name, Some lat, Some lng) \<Rightarrow> Some (s\<lparr>sp_name := name, sp_lat := lat, sp_lng := lng\<rparr>)
      | _ \<Rightarrow> None)"

definition update_stop :: "database \<Rightarrow> uuid \<Rightarrow> stop_update \<Rightarrow> (handler_error + stop) \<times> database" where
  "update_stop db stop_id body =
     (case get_stop db stop_id of
        None \<Rightarrow> (Inl (Http (HTTPException 404 ''Unknown stop'')), db)
      | Some stop \<Rightarrow>
          (case patched_stop body stop of
             None \<Rightarrow> (Inl (UncaughtDb IntegrityError), db)
           | Some stop' \<Rightarrow>
               (case commit (db\<lparr>db_stops := row_edit sp_id stop_id (\<lambda>_. stop') (db_stops db)\<rparr>) of
                  Inl e \<Rightarrow> (Inl (UncaughtDb e), db)
                | Inr db' \<Rightarrow> (Inr stop', db'))))"

definition routes_using_stop :: "database \<Rightarrow> uuid \<Rightarrow> nat" where
  "routes_using_stop db stop_id = length (filter (\<lambda>rs. rs_stop_id rs = stop_id) (db_route_stops db))"

definition delete_stop :: "database \<Rightarrow> uuid \<Rightarrow> (handler_error + unit) \<times> database" where
  "delete_stop db stop_id =
     (case get_stop db stop_id of
        None \<Rightarrow> (Inl (Http (HTTPException 404 ''Unknown stop'')), db)
      | Some stop \<Rightarrow>
          let in_use = routes_using_stop db stop_id in
          if in_use \<noteq> 0
          then (Inl (Http (HTTPException 409 (''Stop is used by '' @ int_str (int in_use) @
            '' route(s); remove it from them first''))), db)
          else (case commit (db\<lparr>db_stops := filter (\<lambda>s. sp_id s \<noteq> stop_id) (db_stops db)\<rparr>) of
              Inl e \<Rightarrow> (Inl (UncaughtDb e), db)
            | Inr db' \<Rightarrow> (Inr (), db')))"

section \<open>Routes\<close>

fun comma_join :: "string list \<Rightarrow> string" where
  "comma_join [] = []"
| "comma_join [w] = w"
| "comma_join (w # ws) = w @ '', '' @ comma_join ws"

fun direction_str :: "route_direction \<Rightarrow> string" where
  "direction_str Dir_inbound = ''inbound''"
| "direction_str Dir_outbound = ''outbound''"

record route_create =
  rc_name :: string
  rc_direction :: route_direction
  rc_polyline :: "string option"
  rc_is_active :: bool

record route_update =
  ru_name :: "string patch"
  ru_direction :: "route_direction patch"
  ru_polyline :: "string patch"
  ru_is_active :: "bool patch"

record route_stop_in =
  ro_stop_id :: uuid
  ro_scheduled_offset_min :: "int option"

text \<open>The body of a replacement: 1 to 200 stops, no negative offset.\<close>

definition route_stops_replace_ok :: "route_stop_in list \<Rightarrow> bool" where
  "route_stops_replace_ok stops \<longleftrightarrow> 1 \<le> length stops \<and> length stops \<le> 200 \<and>
     list_all (\<lambda>s. case ro_scheduled_offset_min s of None \<Rightarrow> True | Some n \<Rightarrow> 0 \<le> n) stops"

record route_stop_out =
  rso_seq :: int
  rso_scheduled_offset_min :: "int option"
  rso_stop :: stop

record route_detail_out =
  rdo_id :: uuid
  rdo_name :: string
  rdo_direction :: route_direction
  rdo_is_active :: bool
  rdo_polyline :: "string option"
  rdo_stops :: "route_stop_out list"

text \<open>The relationship \<^verbatim>\<open>Route.stops\<close>, ordered by \<^verbatim>\<open>seq\<close>, and each row's stop.\<close>

definition stops_of_route :: "database \<Rightarrow> uuid \<Rightarrow> route_stop list" where
  "stops_of_route db route_id =
     sort_key rs_seq (filter (\<lambda>rs. rs_route_id rs = route_id) (db_route_stops db))"

definition route_stop_out_of :: "database \<Rightarrow> route_stop \<Rightarrow> route_stop_out option" where
  "route_stop_out_of db rs = map_option (\<lambda>s. \<lparr>rso_seq = rs_seq rs,
     rso_scheduled_offset_min = rs_scheduled_offset_min rs, rso_stop = s\<rparr>) (get_stop db (rs_stop_id rs))"

definition route_detail_of :: "database \<Rightarrow> route \<Rightarrow> route_detail_out" where
  "route_detail_of db route = \<lparr>rdo_id = rt_id route, rdo_name = rt_name route,
     rdo_direction = rt_direction route, rdo_is_active = rt_is_active route,
     rdo_polyline = rt_polyline route,
     rdo_stops = List.map_filter (route_stop_out_of db) (stops_of_route db (rt_id route))\<rparr>"

definition route_detail :: "database \<Rightarrow> uuid \<Rightarrow> http_error + route_detail_out" where
  "route_detail db route_id =
     (case get_route db route_id of
        None \<Rightarrow> Inl (HTTPException 404 ''Unknown route'')
      | Some route \<Rightarrow> Inr (route_detail_of db route))"

definition create_route :: "uuid \<Rightarrow> database \<Rightarrow> route_create \<Rightarrow> (handler_error + route) \<times> database" where
  "create_route new_id db body =
     (let route = \<lparr>rt_id = new_id, rt_name = rc_name body, rt_direction = rc_direction body,
            rt_polyline = rc_polyline body, rt_is_active = rc_is_active body\<rparr> in
      case commit (db\<lparr>db_routes := db_routes db @ [route]\<rparr>) of
        Inl IntegrityError \<Rightarrow> (Inl (Http (HTTPException 409 (''A '' @ direction_str (rc_direction body) @
          '' route named '' @ [char_of (39::nat)] @ rc_name body @ [char_of (39::nat)] @ '' already exists''))), db)
      | Inl DataError \<Rightarrow> (Inl (UncaughtDb DataError), db)
      | Inr db' \<Rightarrow> (Inr route, db'))"

definition patched_route :: "route_update \<Rightarrow> route \<Rightarrow> route option" where
  "patched_route body r =
     (case (patched (ru_name body) (rt_name r), patched (ru_direction body) (rt_direction r),
        patched (ru_is_active body) (rt_is_active r)) of
        (Some name, Some dir, Some active) \<Rightarrow> Some (r\<lparr>rt_name := name, rt_direction := dir,
          rt_polyline := patched_opt (ru_polyline body) (rt_polyline r), rt_is_active := active\<rparr>)
      | _ \<Rightarrow> None)"

definition update_route :: "database \<Rightarrow> uuid \<Rightarrow> route_update \<Rightarrow> (handler_error + route) \<times> database" where
  "update_route db route_id body =
     (let taken = Inl (Http (HTTPException 409 ''Another route already has that name and direction'')) in
      case get_route db route_id of
        None \<Rightarrow> (Inl (Http (HTTPException 404 ''Unknown route'')), db)
      | Some route \<Rightarrow>
          (case patched_route body route of
             None \<Rightarrow> (taken, db)
           | Some route' \<Rightarrow>
               (case commit (db\<lparr>db_routes := row_edit rt_id route_id (\<lambda>_. route') (db_routes db)\<rparr>) of
                  Inl IntegrityError \<Rightarrow> (taken, db)
                | Inl DataError \<Rightarrow> (Inl (UncaughtDb DataError), db)
                | Inr db' \<Rightarrow> (Inr route', db'))))"

definition existing_stop_ids :: "database \<Rightarrow> uuid list \<Rightarrow> uuid set" where
  "existing_stop_ids db ids = set (filter (\<lambda>i. i \<in> set ids) (map sp_id (db_stops db)))"

definition clear_route_stops :: "database \<Rightarrow> uuid \<Rightarrow> database" where
  "clear_route_stops db route_id =
     db\<lparr>db_route_stops := filter (\<lambda>rs. rs_route_id rs \<noteq> route_id) (db_route_stops db)\<rparr>"

text \<open>The rows of the submitted list, numbered from 1; \<open>new_id n\<close> is the nth fresh id.\<close>

definition numbered_stops :: "(nat \<Rightarrow> uuid) \<Rightarrow> uuid \<Rightarrow> route_stop_in list \<Rightarrow> route_stop list" where
  "numbered_stops new_id route_id stops =
     map (\<lambda>(n, item). \<lparr>rs_id = new_id n, rs_route_id = route_id, rs_stop_id = ro_stop_id item,
       rs_seq = int n, rs_scheduled_offset_min = ro_scheduled_offset_min item\<rparr>)
       (enumerate 1 stops)"

definition replace_route_stops ::
  "(uuid \<Rightarrow> string) \<Rightarrow> (nat \<Rightarrow> uuid) \<Rightarrow> database \<Rightarrow> uuid \<Rightarrow> route_stop_in list \<Rightarrow>
   (handler_error + route_detail_out) \<times> database" where
  "replace_route_stops uuid_text new_id db route_id stops =
     (let stop_ids = map ro_stop_id stops; known = existing_stop_ids db stop_ids;
          missing = filter (\<lambda>i. i \<notin> known) stop_ids in
      if get_route db route_id = None
      then (Inl (Http (HTTPException 404 ''Unknown route'')), db)
      else if length (remdups stop_ids) \<noteq> length stop_ids
      then (Inl (Http (HTTPException 400 ''A stop is listed more than once'')), db)
      else if missing \<noteq> []
      then (Inl (Http (HTTPException 404 (''Unknown stop(s): '' @
        comma_join (map uuid_text missing)))), db)
      else
        let cleared = clear_route_stops db route_id in
        (case commit (cleared\<lparr>db_route_stops := db_route_stops cleared @
            numbered_stops new_id route_id stops\<rparr>) of
           Inl e \<Rightarrow> (Inl (UncaughtDb e), db)
         | Inr db' \<Rightarrow>
             (case route_detail db' route_id of
                Inl e \<Rightarrow> (Inl (Http e), db')
              | Inr out \<Rightarrow> (Inr out, db'))))"

section \<open>Buses\<close>

record bus_create =
  bc_reg_no :: string
  bc_nickname :: "string option"
  bc_capacity :: int
  bc_status :: bus_status

definition bus_create_ok :: "bus_create \<Rightarrow> bool" where
  "bus_create_ok b \<longleftrightarrow> text_ok 32 (bc_reg_no b) \<and> 1 \<le> bc_capacity b \<and> bc_capacity b \<le> 200 \<and>
     (case bc_nickname b of None \<Rightarrow> True | Some s \<Rightarrow> length s \<le> 64)"

record bus_update =
  bu_reg_no :: "string patch"
  bu_nickname :: "string patch"
  bu_capacity :: "int patch"
  bu_status :: "bus_status patch"

definition new_bus :: "uuid \<Rightarrow> bus_create \<Rightarrow> bus" where
  "new_bus i b = \<lparr>bs_id = i, bs_reg_no = bc_reg_no b, bs_nickname = bc_nickname b,
     bs_capacity = bc_capacity b, bs_status = bc_status b\<rparr>"

definition bus_by_reg_no :: "database \<Rightarrow> string \<Rightarrow> bus option" where
  "bus_by_reg_no db reg_no = find (\<lambda>b. bs_reg_no b = reg_no) (db_buses db)"

definition create_bus ::
  "(database \<Rightarrow> database) \<Rightarrow> uuid \<Rightarrow> database \<Rightarrow> bus_create \<Rightarrow> (handler_error + bus) \<times> database" where
  "create_bus env new_id db body =
     (let taken = Inl (Http (HTTPException 409 (''Bus with reg_no '' @ [char_of (39::nat)] @
            bc_reg_no body @ [char_of (39::nat)] @ '' already exists''))) in
      case bus_by_reg_no db (bc_reg_no body) of
        Some _ \<Rightarrow> (taken, db)
      | None \<Rightarrow>
          let db1 = env db in
          (case commit (db1\<lparr>db_buses := db_buses db1 @ [new_bus new_id body]\<rparr>) of
             Inl IntegrityError \<Rightarrow> (taken, db1)
           | Inl DataError \<Rightarrow> (Inl (UncaughtDb DataError), db1)
           | Inr db' \<Rightarrow> (Inr (new_bus new_id body), db')))"

definition patched_bus :: "bus_update \<Rightarrow> bus \<Rightarrow> bus option" where
  "patched_bus body b =
     (case (patched (bu_reg_no body) (bs_reg_no b), patched (bu_capacity body) (bs_capacity b),
        patched (bu_status body) (bs_status b)) of
        (Some reg_no, Some capacity, Some status) \<Rightarrow> Some (b\<lparr>bs_reg_no := reg_no,
          bs_nickname := patched_opt (bu_nickname body) (bs_nickname b), bs_capacity := capacity,
          bs_status := status\<rparr>)
      | _ \<Rightarrow> None)"

definition update_bus :: "database \<Rightarrow> uuid \<Rightarrow> bus_update \<Rightarrow> (handler_error + bus) \<times> database" where
  "update_bus db bus_id body =
     (let taken = Inl (Http (HTTPException 409 ''Another bus already has that registration'')) in
      case get_bus db bus_id of
        None \<Rightarrow> (Inl (Http (HTTPException 404 ''Unknown bus'')), db)
      | Some bus \<Rightarrow>
          (case patched_bus body bus of
             None \<Rightarrow> (taken, db)
           | Some bus' \<Rightarrow>
               (case commit (db\<lparr>db_buses := row_edit bs_id bus_id (\<lambda>_. bus') (db_buses db)\<rparr>) of
                  Inl IntegrityError \<Rightarrow> (taken, db)
                | Inl DataError \<Rightarrow> (Inl (UncaughtDb DataError), db)
                | Inr db' \<Rightarrow> (Inr bus', db'))))"

text \<open>
  The batch. \<open>sorted_text\<close> is Python's \<^verbatim>\<open>', '.join(sorted(s))\<close>, by code point.
\<close>

definition sorted_text :: "string list \<Rightarrow> string" where
  "sorted_text xs = comma_join (sort_key (map (of_char :: char \<Rightarrow> nat)) (remdups xs))"

definition repeated :: "string list \<Rightarrow> string list" where
  "repeated xs = map (\<lambda>i. xs ! i) (filter (\<lambda>i. xs ! i \<in> set (take i xs)) [0..<length xs])"

definition existing_reg_nos :: "database \<Rightarrow> string list \<Rightarrow> string list" where
  "existing_reg_nos db reg_nos = filter (\<lambda>s. s \<in> set reg_nos) (map bs_reg_no (db_buses db))"

definition create_bus_list ::
  "(nat \<Rightarrow> uuid) \<Rightarrow> database \<Rightarrow> bus_create list \<Rightarrow> (handler_error + bus list) \<times> database" where
  "create_bus_list new_id db buses =
     (let seen = map bc_reg_no buses; duplicates = repeated seen; existing = existing_reg_nos db seen;
          new_buses = map (\<lambda>(n, b). new_bus (new_id n) b) (enumerate 0 buses) in
      if buses = [] then (Inl (Http (HTTPException 400 ''Bus list cannot be empty'')), db)
      else if duplicates \<noteq> []
      then (Inl (Http (HTTPException 400 (''Duplicate reg_no in payload: '' @ sorted_text duplicates))), db)
      else if existing \<noteq> []
      then (Inl (Http (HTTPException 409 (''Buses already exist with reg_no: '' @ sorted_text existing))), db)
      else (case commit (db\<lparr>db_buses := db_buses db @ new_buses\<rparr>) of
          Inl e \<Rightarrow> (Inl (UncaughtDb e), db)
        | Inr db' \<Rightarrow> (Inr new_buses, db')))"

section \<open>What the apps read\<close>

definition list_buses :: "(string \<Rightarrow> nat) \<Rightarrow> database \<Rightarrow> bus_status option \<Rightarrow> bus list" where
  "list_buses collate db status = sort_key (\<lambda>b. collate (bs_reg_no b))
     (filter (\<lambda>b. case status of None \<Rightarrow> True | Some s \<Rightarrow> bs_status b = s) (db_buses db))"

definition list_fleet_buses :: "(string \<Rightarrow> nat) \<Rightarrow> database \<Rightarrow> bus_status option \<Rightarrow> bus list" where
  "list_fleet_buses collate db bus_status = list_buses collate db bus_status"

definition list_buses_route :: "(string \<Rightarrow> nat) \<Rightarrow> database \<Rightarrow> bool \<Rightarrow> bus list" where
  "list_buses_route collate db only_active =
     list_buses collate db (if only_active then Some Bus_active else None)"

fun direction_rank :: "route_direction \<Rightarrow> nat" where
  "direction_rank Dir_inbound = 0"
| "direction_rank Dir_outbound = 1"

definition list_routes :: "(string \<Rightarrow> nat) \<Rightarrow> database \<Rightarrow> bool \<Rightarrow> route list" where
  "list_routes collate db only_active =
     sort_key (\<lambda>r. collate (rt_name r)) (sort_key (\<lambda>r. direction_rank (rt_direction r))
       (filter (\<lambda>r. only_active \<longrightarrow> rt_is_active r) (db_routes db)))"

definition list_route_shapes :: "(string \<Rightarrow> nat) \<Rightarrow> database \<Rightarrow> bool \<Rightarrow> route_detail_out list" where
  "list_route_shapes collate db only_active =
     map (route_detail_of db) (list_routes collate db only_active)"

definition get_route_route :: "database \<Rightarrow> uuid \<Rightarrow> http_error + route_detail_out" where
  "get_route_route db route_id =
     (case get_route db route_id of
        None \<Rightarrow> Inl (HTTPException 404 ''Unknown route'')
      | Some route \<Rightarrow> Inr (route_detail_of db route))"

definition list_stops :: "(string \<Rightarrow> nat) \<Rightarrow> database \<Rightarrow> stop list" where
  "list_stops collate db = sort_key (\<lambda>s. collate (sp_name s)) (db_stops db)"

section \<open>Replacing a route's stops\<close>

lemma length_numbered [simp]: "length (numbered_stops new_id route_id stops) = length stops"
  by (simp add: numbered_stops_def)

lemma numbered_nth:
  assumes "i < length stops"
  shows "numbered_stops new_id route_id stops ! i = \<lparr>rs_id = new_id (Suc i), rs_route_id = route_id,
    rs_stop_id = ro_stop_id (stops ! i), rs_seq = int (Suc i),
    rs_scheduled_offset_min = ro_scheduled_offset_min (stops ! i)\<rparr>"
  using assms by (simp add: numbered_stops_def nth_enumerate_eq)

lemma numbered_stop_ids [simp]: "map rs_stop_id (numbered_stops new_id route_id stops) = map ro_stop_id stops"
  by (rule nth_equalityI) (simp_all add: numbered_nth)

lemma numbered_ids [simp]:
  "map rs_id (numbered_stops new_id route_id stops) = map new_id [1..<Suc (length stops)]"
  by (rule nth_equalityI) (simp_all add: numbered_nth nth_append del: upt_Suc)

lemma numbered_seqs [simp]:
  "map rs_seq (numbered_stops new_id route_id stops) = map int [1..<Suc (length stops)]"
  by (rule nth_equalityI) (simp_all add: numbered_nth nth_append del: upt_Suc)

lemma numbered_route: "r \<in> set (numbered_stops new_id route_id stops) \<Longrightarrow> rs_route_id r = route_id"
  by (auto simp: numbered_stops_def)

lemma distinct_map_pair:
  assumes "distinct (map g xs)"
  shows "distinct (map (\<lambda>x. (f x, g x)) xs)"
  using assms by (auto simp: distinct_map inj_on_def)

lemma filter_none [simp]:
  "filter (\<lambda>rs. rs_route_id rs = route_id) (filter (\<lambda>rs. rs_route_id rs \<noteq> route_id) rows) = []"
  by (simp add: filter_empty_conv)

lemma numbered_of_route [simp]:
  "filter (\<lambda>rs. rs_route_id rs = r) (numbered_stops new_id route_id stops) =
     (if r = route_id then numbered_stops new_id route_id stops else [])"
  by (auto simp: filter_id_conv filter_empty_conv dest: numbered_route)

lemma distinct_kept:
  assumes "distinct (map f rows)" "distinct (map f new)"
    and "\<And>x y. x \<in> set rows \<Longrightarrow> P x \<Longrightarrow> y \<in> set new \<Longrightarrow> f x \<noteq> f y"
  shows "distinct (map f (filter P rows @ new))"
  using assms by (fastforce simp: distinct_map inj_on_def)

lemma length_remdups_iff: "length (remdups (map f xs)) = length xs \<longleftrightarrow> distinct (map f xs)"
  by (metis distinct_remdups length_remdups_eq distinct_remdups_id length_map)

lemma db_ok_set_route_stops [inv_intros]:
  assumes "db_ok db" "distinct (map rs_id rows)" "distinct (map (\<lambda>r. (rs_route_id r, rs_seq r)) rows)"
    "distinct (map (\<lambda>r. (rs_route_id r, rs_stop_id r)) rows)"
    "\<forall>r \<in> set rows. get_route db (rs_route_id r) \<noteq> None \<and> get_stop db (rs_stop_id r) \<noteq> None"
  shows "db_ok (db\<lparr>db_route_stops := rows\<rparr>)"
  using assms by (simp add: db_ok_def identity_ok_def fleet_ok_def trips_ok_def ops_ok_def orders_ok_def
      tickets_ok_def redemptions_ok_def list_all_iff)

lemma replaced_ok:
  assumes ok: "db_ok db" and "get_route db route_id \<noteq> None" "distinct (map ro_stop_id stops)"
    and known: "\<forall>s \<in> set stops. get_stop db (ro_stop_id s) \<noteq> None"
    and ids: "inj new_id" "\<forall>n. new_id n \<notin> rs_id ` set (db_route_stops db)"
  shows "db_ok (db\<lparr>db_route_stops := filter (\<lambda>rs. rs_route_id rs \<noteq> route_id) (db_route_stops db) @
    numbered_stops new_id route_id stops\<rparr>)"
proof -
  let ?new = "numbered_stops new_id route_id stops"
  let ?keep = "\<lambda>rs. rs_route_id rs \<noteq> route_id"
  have d: "distinct (map rs_id ?new)" "distinct (map rs_seq ?new)" "distinct (map rs_stop_id ?new)"
    using assms(3) ids(1) by (simp_all add: distinct_map inj_on_def inj_def del: upt_Suc)
  have "distinct (map rs_id (filter ?keep (db_route_stops db) @ ?new))"
  proof (rule distinct_kept)
    fix x y assume "x \<in> set (db_route_stops db)" "y \<in> set ?new"
    then obtain n where "rs_id y = new_id n" by (auto simp: numbered_stops_def)
    moreover have "rs_id x \<in> rs_id ` set (db_route_stops db)"
      using \<open>x \<in> set (db_route_stops db)\<close> by simp
    ultimately show "rs_id x \<noteq> rs_id y" using ids(2) by metis
  qed (use ok d in \<open>simp_all add: db_ok_def fleet_ok_def\<close>)
  moreover have "distinct (map (\<lambda>r. (rs_route_id r, rs_seq r)) (filter ?keep (db_route_stops db) @ ?new))"
    by (rule distinct_kept) (use ok d in \<open>auto simp: db_ok_def fleet_ok_def intro!: distinct_map_pair dest: numbered_route\<close>)
  moreover have "distinct (map (\<lambda>r. (rs_route_id r, rs_stop_id r)) (filter ?keep (db_route_stops db) @ ?new))"
    by (rule distinct_kept) (use ok d in \<open>auto simp: db_ok_def fleet_ok_def intro!: distinct_map_pair dest: numbered_route\<close>)
  moreover have "\<forall>r \<in> set ?new. get_route db (rs_route_id r) \<noteq> None \<and> get_stop db (rs_stop_id r) \<noteq> None"
    using assms(2) known by (auto simp: numbered_stops_def in_set_enumerate_eq)
  moreover have "\<forall>r \<in> set (filter ?keep (db_route_stops db)).
      get_route db (rs_route_id r) \<noteq> None \<and> get_stop db (rs_stop_id r) \<noteq> None"
    using ok by (simp add: db_ok_def fleet_ok_def list_all_iff)
  ultimately show ?thesis
    using ok by (intro db_ok_set_route_stops) (simp_all only: set_append ball_Un simp_thms)
qed

lemma existing_stop_ids_iff:
  "i \<in> existing_stop_ids db ids \<longleftrightarrow> i \<in> set ids \<and> get_stop db i \<noteq> None"
  by (auto simp: existing_stop_ids_def row_get_None_iff dest: row_get_SomeD)

lemma map_filter_all:
  assumes "\<And>x. x \<in> set xs \<Longrightarrow> \<exists>y. f x = Some y \<and> g y = h x"
  shows "map g (List.map_filter f xs) = map h xs"
  using assms by (induction xs) (fastforce simp: List.map_filter_simps)+

lemma detail_lists_stops:
  assumes "db_ok db" "get_route db route_id = Some route"
  shows "map (\<lambda>s. (rso_seq s, sp_id (rso_stop s), rso_scheduled_offset_min s)) (rdo_stops (route_detail_of db route)) =
    map (\<lambda>rs. (rs_seq rs, rs_stop_id rs, rs_scheduled_offset_min rs)) (stops_of_route db route_id)"
proof -
  have "rt_id route = route_id" using row_get_SomeD [OF assms(2)] by simp
  moreover have "\<exists>y. route_stop_out_of db rs = Some y \<and>
      (rso_seq y, sp_id (rso_stop y), rso_scheduled_offset_min y) =
        (rs_seq rs, rs_stop_id rs, rs_scheduled_offset_min rs)"
    if "rs \<in> set (stops_of_route db route_id)" for rs
  proof -
    from that have "rs \<in> set (db_route_stops db)" by (simp add: stops_of_route_def)
    with assms(1) obtain s where "get_stop db (rs_stop_id rs) = Some s"
      by (auto simp: db_ok_def fleet_ok_def list_all_iff)
    then show ?thesis by (auto simp: route_stop_out_of_def dest: row_get_SomeD)
  qed
  ultimately show ?thesis by (simp add: route_detail_of_def map_filter_all)
qed

lemma replaced_stops:
  assumes "db' = db\<lparr>db_route_stops := filter (\<lambda>rs. rs_route_id rs \<noteq> route_id) (db_route_stops db) @
    numbered_stops new_id route_id stops\<rparr>"
  shows "stops_of_route db' r =
    (if r = route_id then numbered_stops new_id route_id stops else stops_of_route db r)"
proof -
  have "sort_key rs_seq (numbered_stops new_id route_id stops) = numbered_stops new_id route_id stops"
    by (rule sort_key_id_if_sorted) (simp add: sorted_map sorted_wrt_upt del: upt_Suc)
  moreover have "filter (\<lambda>rs. rs_route_id rs = r \<and> rs_route_id rs \<noteq> route_id) (db_route_stops db) =
      (if r = route_id then [] else filter (\<lambda>rs. rs_route_id rs = r) (db_route_stops db))"
    by (auto intro!: filter_cong simp: filter_empty_conv)
  ultimately show ?thesis using assms by (auto simp: stops_of_route_def conj_commute)
qed

text \<open>
  Saving a route's stop list does exactly what was submitted or nothing: on success the
  answer and the table both hold the submitted stops in the submitted order, numbered from 1
  without gaps, and no other route and no other table has changed; otherwise the database is as
  before and the route is unknown, a stop is listed twice or a stop does not exist.
\<close>

theorem replaced_route_has_listed_stops:
  assumes "replace_route_stops uuid_text new_id db route_id stops = (answer, db')"
    and "db_ok db" "inj new_id" "\<And>n. new_id n \<notin> rs_id ` set (db_route_stops db)"
  shows "db_ok db' \<and> (case answer of
     Inr out \<Rightarrow>
       map (\<lambda>s. (rso_seq s, sp_id (rso_stop s), rso_scheduled_offset_min s)) (rdo_stops out) =
         map (\<lambda>(n, item). (int n, ro_stop_id item, ro_scheduled_offset_min item)) (enumerate 1 stops) \<and>
       map (\<lambda>rs. (rs_seq rs, rs_stop_id rs)) (stops_of_route db' route_id) =
         map (\<lambda>(n, item). (int n, ro_stop_id item)) (enumerate 1 stops) \<and>
       (\<forall>r. r \<noteq> route_id \<longrightarrow> stops_of_route db' r = stops_of_route db r) \<and>
       db' = db\<lparr>db_route_stops := db_route_stops db'\<rparr>
   | Inl e \<Rightarrow> db' = db \<and> (get_route db route_id = None \<or> \<not> distinct (map ro_stop_id stops) \<or>
       (\<exists>s \<in> set stops. get_stop db (ro_stop_id s) = None)))"
proof (cases "get_route db route_id = None \<or> \<not> distinct (map ro_stop_id stops) \<or>
    (\<exists>s \<in> set stops. get_stop db (ro_stop_id s) = None)")
  case True
  have "db' = db \<and> (\<exists>e. answer = Inl e)"
  proof (cases "\<exists>s \<in> set stops. get_stop db (ro_stop_id s) = None")
    case bad: True
    then have "filter (\<lambda>i. i \<notin> existing_stop_ids db (map ro_stop_id stops)) (map ro_stop_id stops) \<noteq> []"
      by (auto simp: filter_empty_conv existing_stop_ids_iff)
    with assms(1) show ?thesis by (auto simp: replace_route_stops_def Let_def split: if_splits)
  next
    case False
    with True assms(1) show ?thesis by (auto simp: replace_route_stops_def Let_def length_remdups_iff
        split: if_splits)
  qed
  with True assms(2) show ?thesis by auto
next
  case False
  define new where "new = db\<lparr>db_route_stops := filter (\<lambda>rs. rs_route_id rs \<noteq> route_id) (db_route_stops db) @
    numbered_stops new_id route_id stops\<rparr>"
  have ok: "db_ok new" unfolding new_def by (rule replaced_ok) (use assms(2-4) False in auto)
  have "filter (\<lambda>i. i \<notin> existing_stop_ids db (map ro_stop_id stops)) (map ro_stop_id stops) = []"
    using False by (auto simp: filter_empty_conv existing_stop_ids_iff)
  moreover obtain route where route: "get_route db route_id = Some route" using False by auto
  then have route': "get_route new route_id = Some route" by (simp add: new_def)
  ultimately have "answer = Inr (route_detail_of new route)" "db' = new"
    using assms(1) False ok
    by (auto simp: replace_route_stops_def Let_def clear_route_stops_def new_def [symmetric]
        route_detail_def length_remdups_iff)
  moreover have "stops_of_route new r =
      (if r = route_id then numbered_stops new_id route_id stops else stops_of_route db r)" for r
    by (rule replaced_stops) (simp add: new_def)
  ultimately show ?thesis
    using ok detail_lists_stops [OF ok route'] by (simp add: new_def numbered_stops_def comp_def split_beta)
qed

lemma fresh_demo_ids: "(\<lambda>n. 500 + n) n \<notin> rs_id ` set (db_route_stops demo_db)"
  by (simp add: demo_defs)

theorem replaced_route_has_listed_stops_witness:
  "let (answer, db') = replace_route_stops (\<lambda>_. ''u'') (\<lambda>n. 500 + n) demo_db 51
      [\<lparr>ro_stop_id = 42, ro_scheduled_offset_min = None\<rparr>, \<lparr>ro_stop_id = 41, ro_scheduled_offset_min = Some 7\<rparr>]
   in (\<exists>out. answer = Inr out) \<and> db_ok db' \<and>
      map (\<lambda>rs. (rs_seq rs, rs_stop_id rs)) (stops_of_route db' 51) = [(1, 42), (2, 41)]"
proof -
  let ?stops = "[\<lparr>ro_stop_id = 42, ro_scheduled_offset_min = None\<rparr>,
    \<lparr>ro_stop_id = 41, ro_scheduled_offset_min = Some 7\<rparr>]"
  obtain answer db' where r: "replace_route_stops (\<lambda>_. ''u'') (\<lambda>n. 500 + n) demo_db 51 ?stops = (answer, db')"
    by (metis surj_pair)
  note t = replaced_route_has_listed_stops [OF r demo_db_ok _ fresh_demo_ids]
  have "inj (\<lambda>n::nat. 500 + n)" by (simp add: inj_def)
  note t = t [OF this]
  have good: "get_route demo_db 51 \<noteq> None" "distinct (map ro_stop_id ?stops)"
    "\<not> (\<exists>s \<in> set ?stops. get_stop demo_db (ro_stop_id s) = None)"
    by (simp_all add: demo_defs)
  obtain out where out: "answer = Inr out"
  proof (cases answer)
    case (Inl e)
    then show ?thesis using conjunct2 [OF t] good by (simp only: sum.case) blast
  qed
  have "map (\<lambda>rs. (rs_seq rs, rs_stop_id rs)) (stops_of_route db' 51) =
      map (\<lambda>(n, item). (int n, ro_stop_id item)) (enumerate 1 ?stops)"
    using conjunct2 [OF t] unfolding out by (simp only: sum.case)
  also have "\<dots> = [(1, 42), (2, 41)]" by simp
  finally show ?thesis unfolding r Let_def prod.case using out conjunct1 [OF t] by blast
qed

section \<open>Adding buses\<close>

lemma distinct_take: "(\<forall>i < length xs. xs ! i \<notin> set (take i xs)) \<longleftrightarrow> distinct xs"
  by (induction xs rule: rev_induct) (auto simp: nth_append less_Suc_eq)

lemma repeated_Nil: "repeated xs = [] \<longleftrightarrow> distinct xs"
  by (simp add: repeated_def filter_empty_conv Ball_def flip: distinct_take)

lemma new_buses_ids:
  "map bs_id (map (\<lambda>(n, b). new_bus (new_id n) b) (enumerate 0 buses)) = map new_id [0..<length buses]"
  by (rule nth_equalityI) (simp_all add: nth_enumerate_eq new_bus_def)

lemma new_buses_regs:
  "map bs_reg_no (map (\<lambda>(n, b). new_bus (new_id n) b) (enumerate 0 buses)) = map bc_reg_no buses"
  by (rule nth_equalityI) (simp_all add: nth_enumerate_eq new_bus_def)

lemma db_ok_set_buses [inv_intros]:
  assumes "distinct (map bs_id rows)" "distinct (map bs_reg_no rows)"
    "\<And>i. get_bus db i \<noteq> None \<Longrightarrow> row_get bs_id rows i \<noteq> None" "db_ok db"
  shows "db_ok (db\<lparr>db_buses := rows\<rparr>)"
proof -
  have "fk_opt bs_id rows x" if "fk_opt bs_id (db_buses db) x" for x
    using that assms(3) by (auto simp: fk_opt_def split: option.splits)
  with assms show ?thesis
    by (auto simp: db_ok_def identity_ok_def fleet_ok_def trips_ok_def ops_ok_def orders_ok_def
        tickets_ok_def redemptions_ok_def list_all_iff)
qed

lemma new_buses_ok:
  assumes ok: "db_ok db" and "distinct (map bc_reg_no buses)"
    and fresh: "\<forall>b \<in> set buses. bc_reg_no b \<notin> bs_reg_no ` set (db_buses db)"
    and ids: "inj new_id" "\<forall>n. new_id n \<notin> bs_id ` set (db_buses db)"
  shows "db_ok (db\<lparr>db_buses := db_buses db @ map (\<lambda>(n, b). new_bus (new_id n) b) (enumerate 0 buses)\<rparr>)"
proof -
  let ?new = "map (\<lambda>(n, b). new_bus (new_id n) b) (enumerate 0 buses)"
  have "distinct (map new_id [0..<length buses])" using ids(1) by (simp add: distinct_map inj_on_def inj_def)
  moreover have "set (map bs_id (db_buses db)) \<inter> set (map new_id [0..<length buses]) = {}"
  proof (rule equals0I)
    fix i assume a: "i \<in> set (map bs_id (db_buses db)) \<inter> set (map new_id [0..<length buses])"
    from IntD2 [OF a] obtain n where "i = new_id n" unfolding set_map by (rule imageE)
    with IntD1 [OF a] ids(2) show False unfolding set_map by simp
  qed
  ultimately have "distinct (map bs_id (db_buses db @ ?new))"
    using ok unfolding map_append new_buses_ids distinct_append by (simp add: db_ok_def fleet_ok_def)
  moreover have "set (map bs_reg_no (db_buses db)) \<inter> set (map bc_reg_no buses) = {}"
  proof (rule equals0I)
    fix s assume a: "s \<in> set (map bs_reg_no (db_buses db)) \<inter> set (map bc_reg_no buses)"
    from IntD2 [OF a] obtain b where "b \<in> set buses" "s = bc_reg_no b" unfolding set_map by (elim imageE)
    with IntD1 [OF a] fresh show False unfolding set_map by simp
  qed
  then have "distinct (map bs_reg_no (db_buses db @ ?new))"
    using ok assms(2) unfolding map_append new_buses_regs distinct_append by (simp add: db_ok_def fleet_ok_def)
  moreover have "row_get bs_id (db_buses db @ ?new) i \<noteq> None" if "get_bus db i \<noteq> None" for i
    using that by (rule row_get_snoc_mono)
  ultimately show ?thesis
    by (rule db_ok_set_buses [OF _ _ _ ok])
qed

text \<open>
  A batch of buses is added as a whole or not at all: on success the fleet is the old
  one followed by exactly the submitted buses in order; otherwise nothing has changed and the
  batch is empty, names a registration twice or names one the fleet already has.
\<close>

theorem bus_batch_all_or_nothing:
  assumes "create_bus_list new_id db buses = (answer, db')"
    and "db_ok db" "inj new_id" "\<And>n. new_id n \<notin> bs_id ` set (db_buses db)"
  shows "db_ok db' \<and> (case answer of
     Inr new \<Rightarrow> db' = db\<lparr>db_buses := db_buses db @ new\<rparr> \<and>
       map (\<lambda>b. (bs_reg_no b, bs_capacity b, bs_status b)) new =
         map (\<lambda>b. (bc_reg_no b, bc_capacity b, bc_status b)) buses
   | Inl e \<Rightarrow> db' = db \<and> (buses = [] \<or> \<not> distinct (map bc_reg_no buses) \<or>
       (\<exists>b \<in> set buses. bc_reg_no b \<in> bs_reg_no ` set (db_buses db))))"
proof (cases "buses = [] \<or> \<not> distinct (map bc_reg_no buses) \<or>
    (\<exists>b \<in> set buses. bc_reg_no b \<in> bs_reg_no ` set (db_buses db))")
  case True
  have "existing_reg_nos db (map bc_reg_no buses) \<noteq> []"
    if "\<exists>b \<in> set buses. bc_reg_no b \<in> bs_reg_no ` set (db_buses db)"
    using that by (force simp: existing_reg_nos_def filter_empty_conv)
  with True assms(1) have "db' = db \<and> (\<exists>e. answer = Inl e)"
    by (auto simp: create_bus_list_def Let_def repeated_Nil split: if_splits)
  with True assms(2) show ?thesis by (elim conjE exE) simp
next
  case False
  then have "existing_reg_nos db (map bc_reg_no buses) = []"
    by (force simp: existing_reg_nos_def filter_empty_conv)
  moreover note ok = new_buses_ok [OF assms(2), of buses new_id]
  moreover have "map (\<lambda>b. (bs_reg_no b, bs_capacity b, bs_status b))
      (map (\<lambda>(n, b). new_bus (new_id n) b) (enumerate 0 buses)) =
      map (\<lambda>b. (bc_reg_no b, bc_capacity b, bc_status b)) buses"
    by (rule nth_equalityI) (simp_all add: nth_enumerate_eq new_bus_def)
  ultimately show ?thesis
    using assms False by (auto simp: create_bus_list_def Let_def repeated_Nil)
qed

theorem bus_batch_all_or_nothing_witness:
  "\<exists>new db'. create_bus_list (\<lambda>n. 500 + n) demo_db
      [\<lparr>bc_reg_no = ''DHA-1'', bc_nickname = None, bc_capacity = 40, bc_status = Bus_active\<rparr>] = (Inr new, db') \<and>
    db_ok db' \<and> db' = demo_db\<lparr>db_buses := db_buses demo_db @ new\<rparr> \<and> map bs_reg_no new = [''DHA-1'']"
proof -
  let ?b = "[\<lparr>bc_reg_no = ''DHA-1'', bc_nickname = None, bc_capacity = 40, bc_status = Bus_active\<rparr>]"
  obtain answer db' where r: "create_bus_list (\<lambda>n. 500 + n) demo_db ?b = (answer, db')"
    by (metis surj_pair)
  have "inj (\<lambda>n::nat. 500 + n)" by (simp add: inj_def)
  moreover have "500 + n \<notin> bs_id ` set (db_buses demo_db)" for n :: nat by (simp add: demo_defs)
  ultimately have t: "db_ok db' \<and> (case answer of
     Inr new \<Rightarrow> db' = demo_db\<lparr>db_buses := db_buses demo_db @ new\<rparr> \<and>
       map (\<lambda>b. (bs_reg_no b, bs_capacity b, bs_status b)) new =
         map (\<lambda>b. (bc_reg_no b, bc_capacity b, bc_status b)) ?b
   | Inl e \<Rightarrow> db' = demo_db \<and> (?b = [] \<or> \<not> distinct (map bc_reg_no ?b) \<or>
       (\<exists>b \<in> set ?b. bc_reg_no b \<in> bs_reg_no ` set (db_buses demo_db))))"
    by (rule bus_batch_all_or_nothing [OF r demo_db_ok])
  have "\<not> (\<exists>b \<in> set ?b. bc_reg_no b \<in> bs_reg_no ` set (db_buses demo_db))"
    by (simp add: demo_defs)
  with t obtain new where "answer = Inr new" by (cases answer) auto
  with t r show ?thesis by auto
qed

end
