(* ===== verification/Commerce.thy ===== *)
theory Commerce
  imports Reconciler FraudSweep Catalog
begin

text \<open>
  The components of the shop together: the boardings a helper's phone syncs, the fraud sweep,
  purchases, payment reports, the reconciler and the catalogue all work on the one database.

  Two machines. A \<open>commerce_step\<close> is one of these operations run to its end with nobody else
  committing, whatever its arguments, the gateway's answers and its own answer; its runs are serial.
  An \<open>amid_step\<close> is an operation in a crowd: at each point where the code waits between a read and a
  write, the others commit whatever they like as long as it is what operations of the shop do
  (\<open>others\<close>, the rely), and the operation itself stays within the same bounds (its guarantee).
  The contract of the prelude's \<open>guarded_machine\<close> is proved for both, so what one operation keeps,
  every run keeps. The books (money and rides) are kept by serial runs only; that tickets and boardings are never
  lost holds in the crowd too.
\<close>

section \<open>One operation alone on the database\<close>

inductive commerce_step ::
  "verifier \<Rightarrow> (string \<Rightarrow> uuid option) \<Rightarrow> database \<Rightarrow> database \<Rightarrow> bool"
  for vfy uuid_of where
  board: "sync_item vfy uuid_of helper_id env db item = (answer, db') \<Longrightarrow>
    commerce_step vfy uuid_of db db'"
| sweep: "sweep_once arrange uuid_text new_id now db = Inr (tally, db') \<Longrightarrow>
    (\<And>xs. mset (arrange xs) = mset xs) \<Longrightarrow> commerce_step vfy uuid_of db db'"
| buy: "create_order url gateway (\<lambda>d. d) (\<lambda>d. d) new_id hex20 now db student payload = (out, db') \<Longrightarrow>
    commerce_step vfy uuid_of db db'"
| report: "settle validation (\<lambda>d. d) ienv db fm = (res, db') \<Longrightarrow>
    commerce_step vfy uuid_of db db'"
| reconcile: "reconcile_once query (\<lambda>d. d) ienvs now db = (res, db') \<Longrightarrow>
    commerce_step vfy uuid_of db db'"
| offer: "create_product new_id db body = (out, db') \<Longrightarrow> product_create_ok body \<Longrightarrow>
    commerce_step vfy uuid_of db db'"
| reprice: "update_product db product_id patch = (out, db') \<Longrightarrow> product_update_ok patch \<Longrightarrow>
    commerce_step vfy uuid_of db db'"

inductive_cases commerce_stepE: "commerce_step vfy uuid_of db db'"

section \<open>Operations that leave the orders alone\<close>

text \<open>What a ticket says of its order; boardings and sweeps change other columns only.\<close>

definition ticket_terms :: "ticket \<Rightarrow> uuid \<times> uuid \<times> uuid \<times> uuid" where
  "ticket_terms t = (tk_id t, tk_order_id t, tk_student_id t, tk_product_id t)"

lemma same_terms_inv:
  assumes inv: "commerce_inv db" "boarding_inv db'"
    and same: "db_orders db' = db_orders db" "db_products db' = db_products db"
      "map ticket_terms (db_tickets db') = map ticket_terms (db_tickets db)"
  shows "commerce_inv db'"
proof -
  have set_eq: "ticket_terms ` set (db_tickets db') = ticket_terms ` set (db_tickets db)"
    using arg_cong [OF same(3), of set] by simp
  have "paid_has_ticket db'"
    unfolding paid_has_ticket_def same(1)
  proof (intro ballI impI)
    fix x assume "x \<in> set (db_orders db)" "or_status x = Order_paid"
    then obtain t where "t \<in> set (db_tickets db)" "tk_order_id t = or_id x"
      using inv(1) by (auto simp: commerce_inv_def paid_has_ticket_def)
    moreover from this(1) have "ticket_terms t \<in> ticket_terms ` set (db_tickets db')" unfolding set_eq by simp
    ultimately show "\<exists>t \<in> set (db_tickets db'). tk_order_id t = or_id x"
      by (auto simp: ticket_terms_def)
  qed
  moreover have "ticket_is_paid db'"
    unfolding ticket_is_paid_def same(1)
  proof
    fix t assume "t \<in> set (db_tickets db')"
    then have "ticket_terms t \<in> ticket_terms ` set (db_tickets db)" by (simp flip: set_eq)
    then obtain t0 where t0: "t0 \<in> set (db_tickets db)" "ticket_terms t = ticket_terms t0" by auto
    from inv(1) t0(1) obtain x where "x \<in> set (db_orders db)" "or_id x = tk_order_id t0"
      "or_status x = Order_paid" "or_student_id x = tk_student_id t0" "or_product_id x = tk_product_id t0"
      "\<exists>v. or_raw_payload x = Some v \<and> good_money x v"
      unfolding commerce_inv_def ticket_is_paid_def by blast
    with t0(2) show "\<exists>x \<in> set (db_orders db). or_id x = tk_order_id t \<and> or_status x = Order_paid \<and>
        or_student_id x = tk_student_id t \<and> or_product_id x = tk_product_id t \<and>
        (\<exists>v. or_raw_payload x = Some v \<and> good_money x v)"
      by (auto simp: ticket_terms_def)
  qed
  moreover have "products_ok db'" using inv(1) same(2) by (simp add: commerce_inv_def products_ok_def)
  ultimately show ?thesis using inv(2) by (simp add: commerce_inv_def)
qed

lemma terms_stage [simp]:
  "map ticket_terms (db_tickets (stage_redemption db t r)) = map ticket_terms (db_tickets db)"
  by (simp add: stage_redemption_def ticket_terms_def map_row_edit)

lemma products_stage [simp]: "db_products (stage_redemption db t r) = db_products db"
  by (simp add: stage_redemption_def)

lemma redeem_terms:
  assumes "redeem vfy uuid_of plan new_id db code hid dev ts trip now = Inr (r, db')"
  shows "db_orders db' = db_orders db \<and> db_products db' = db_products db \<and>
    map ticket_terms (db_tickets db') = map ticket_terms (db_tickets db)"
  using assms by (cases rule: redeem_InrE) auto

lemma sync_item_terms:
  assumes "sync_item vfy uuid_of hid env db item = (res, db')"
  shows "db_orders db' = db_orders db \<and> db_products db' = db_products db \<and>
    map ticket_terms (db_tickets db') = map ticket_terms (db_tickets db)"
  using assms
  by (auto simp: sync_item_eq split: if_splits sum.splits redemption_rejected.splits db_error.splits
      dest: redeem_terms)

lemma sync_item_commerce_inv [inv_intros]:
  assumes "commerce_inv db" "sync_item vfy uuid_of hid env db item = (res, db')"
  shows "commerce_inv db'"
proof -
  have "boarding_inv db'"
    using assms by (auto simp: commerce_inv_def intro: sync_item_boarding_inv)
  with assms sync_item_terms [OF assms(2)] show ?thesis by (auto intro: same_terms_inv)
qed

lemma sweep_terms:
  assumes "swept db ids (tally, db')"
  shows "map ticket_terms (db_tickets db') = map ticket_terms (db_tickets db)"
  using assms by (simp add: swept_def ticket_terms_def)

lemma sweep_commerce_inv [inv_intros]:
  assumes "commerce_inv db" "sweep_once arrange uuid_text new_id now db = Inr (tally, db')"
    and perm: "\<And>xs. mset (arrange xs) = mset xs"
  shows "commerce_inv db'"
proof -
  have b: "boarding_inv db" and ok: "db_ok db" using assms(1) by (simp_all add: commerce_inv_def boarding_inv_def)
  obtain ids where sw: "swept db ids (tally, db')"
    using sweep_once_effect [OF assms(2) ok perm] by metis
  show ?thesis
    by (rule same_terms_inv [OF assms(1) sweep_boarding_inv [OF assms(2) b perm]
        swept_frame(2) [OF sw] swept_frame(3) [OF sw] sweep_terms [OF sw]])
qed

section \<open>The catalogue\<close>

lemma set_products_inv:
  assumes inv: "commerce_inv db" and ok: "db_ok (db\<lparr>db_products := ps\<rparr>)"
    and rides: "\<And>p n. p \<in> set ps \<Longrightarrow> pr_ride_count p = Some n \<Longrightarrow> 0 \<le> n"
  shows "commerce_inv (db\<lparr>db_products := ps\<rparr>)"
proof -
  have "ride_account (db\<lparr>db_products := ps\<rparr>) = ride_account db"
    by (intro ext ride_account_cong) (simp add: rides_used_def)
  with inv ok rides show ?thesis
    by (auto simp: commerce_inv_def boarding_inv_def rides_ok_def counted_once_def
        paid_has_ticket_def ticket_is_paid_def products_ok_def)
qed

lemma create_product_commerce_inv [inv_intros]:
  assumes "commerce_inv db" "create_product new_id db body = (out, db')" "product_create_ok body"
  shows "commerce_inv db'"
proof (cases "db' = db")
  case False
  then obtain p where p: "db' = db\<lparr>db_products := db_products db @ [p]\<rparr>" "db_ok db'"
    "pr_ride_count p = pc_ride_count body"
    using assms(2) by (auto simp: create_product_def Let_def split: if_splits sum.splits)
  have "0 \<le> n" if "q \<in> set (db_products db @ [p])" "pr_ride_count q = Some n" for q n
    using that assms(1,3) p(3) by (auto simp: commerce_inv_def products_ok_def product_create_ok_def)
  then show ?thesis using assms(1) p(2) unfolding p(1) by (rule set_products_inv [rotated 2])
qed (use assms(1) in simp)

lemma patched_product_rides:
  assumes "patched_product body p = Some q" "product_update_ok body" "\<And>n. pr_ride_count p = Some n \<Longrightarrow> 0 \<le> n"
    "pr_ride_count q = Some n"
  shows "0 \<le> n"
proof -
  have "pr_ride_count q = patched_opt (pu_ride_count body) (pr_ride_count p)"
    using assms(1) by (auto simp: patched_product_def split: option.splits)
  with assms(2-4) show ?thesis by (cases "pu_ride_count body") (auto simp: product_update_ok_def)
qed

lemma update_product_commerce_inv [inv_intros]:
  assumes "commerce_inv db" "update_product db i body = (out, db')" "product_update_ok body"
  shows "commerce_inv db'"
proof (cases "db' = db")
  case False
  then obtain p q where p: "get_product db i = Some p" "patched_product body p = Some q"
    "db' = db\<lparr>db_products := row_edit pr_id i (\<lambda>_. q) (db_products db)\<rparr>" "db_ok db'"
    using assms(2) by (auto simp: update_product_def split: if_splits option.splits sum.splits)
  have rides: "0 \<le> n" if "r \<in> set (db_products db)" "pr_ride_count r = Some n" for r n
    using that assms(1) by (auto simp: commerce_inv_def products_ok_def)
  have "p \<in> set (db_products db)" using row_get_SomeD [OF p(1)] by simp
  then have "0 \<le> n" if "pr_ride_count q = Some n" for n
    using patched_product_rides [OF p(2) assms(3) _ that] rides by blast
  with rides have "0 \<le> n"
    if "r \<in> set (row_edit pr_id i (\<lambda>_. q) (db_products db))" "pr_ride_count r = Some n" for r n
    using that by (auto elim!: in_row_editE)
  then show ?thesis using assms(1) p(4) unfolding p(3) by (rule set_products_inv [rotated 2])
qed (use assms(1) in simp)

section \<open>Every run keeps the books\<close>

lemma commerce_step_inv: "commerce_step vfy uuid_of db db' \<Longrightarrow> commerce_inv db \<Longrightarrow> commerce_inv db'"
proof (induction rule: commerce_step.induct)
  case (sweep arrange uuid_text new_id now db tally db')
  show ?case by (rule sweep_commerce_inv [OF sweep(3,1,2)])
qed (auto intro: inv_intros)

interpretation shop_machine: guarded_machine "commerce_step vfy uuid_of" commerce_inv
  for vfy uuid_of
  by unfold_locales (rule commerce_step_inv)

text \<open>The columns of a ticket that no operation ever changes.\<close>

definition ticket_core ::
  "ticket \<Rightarrow> (uuid \<times> uuid \<times> uuid \<times> uuid) \<times> int option \<times> instant \<times> instant \<times> instant \<times> string \<times> string" where
  "ticket_core t = (ticket_terms t, tk_rides_total t, tk_created_at t, tk_valid_from t, tk_valid_to t,
     tk_qr_private_key t, tk_qr_public_key t)"

lemma ticket_core_flush [simp]: "ticket_core (flush_ticket a b t) = ticket_core t"
  by (simp add: ticket_core_def ticket_terms_def flush_ticket_def)

lemma ticket_core_status [simp]: "ticket_core (t\<lparr>tk_status := s\<rparr>) = ticket_core t"
  by (simp add: ticket_core_def ticket_terms_def)

text \<open>Tickets are only added, boardings are only appended.\<close>

definition grows :: "database \<Rightarrow> database \<Rightarrow> bool" where
  "grows db db' \<longleftrightarrow>
     (\<exists>ts. map ticket_core (db_tickets db') = map ticket_core (db_tickets db) @ ts) \<and>
     (\<exists>rs. db_redemptions db' = db_redemptions db @ rs)"

lemma grows_refl [simp, intro]: "grows db db"
  by (simp add: grows_def)

lemma grows_trans: "grows a b \<Longrightarrow> grows b c \<Longrightarrow> grows a c"
  by (auto simp: grows_def)

lemma grows_stage: "grows db (stage_redemption db t r)"
  by (simp add: grows_def stage_redemption_def map_row_edit)

section \<open>The same operations in a crowd\<close>

text \<open>
  What every commit keeps, whoever else commits meanwhile: the constraints, products with sensible
  ride counts, and on every ticket rides left between none and what it was sold with.
\<close>

definition rides_in_bounds :: "ticket \<Rightarrow> bool" where
  "rides_in_bounds t = (case (tk_rides_total t, tk_rides_remaining t) of
     (None, None) \<Rightarrow> True | (Some sold, Some left) \<Rightarrow> 0 \<le> left \<and> left \<le> sold | _ \<Rightarrow> False)"

lemma rides_in_bounds_status [simp]: "rides_in_bounds (t\<lparr>tk_status := s\<rparr>) = rides_in_bounds t"
  by (simp add: rides_in_bounds_def)

definition sound :: "database \<Rightarrow> bool" where
  "sound db \<longleftrightarrow> db_ok db \<and> products_ok db \<and> list_all rides_in_bounds (db_tickets db)"

text \<open>The rely: what others commit keeps the database sound and takes no ticket and no boarding away.\<close>

definition others :: "(database \<Rightarrow> database) \<Rightarrow> bool" where
  "others env \<longleftrightarrow> (\<forall>db. sound db \<longrightarrow> sound (env db) \<and> grows db (env db))"

text \<open>
  An operation in a crowd. The ticket of a boarding was read off an \<open>old\<close> database; the
  sweep and the catalogue are one short transaction each.
\<close>

inductive amid_step :: "verifier \<Rightarrow> (string \<Rightarrow> uuid option) \<Rightarrow> database \<Rightarrow> database \<Rightarrow> bool"
  for vfy uuid_of where
  board: "sync_item_amid vfy uuid_of helper_id env old meanwhile db item = (answer, db') \<Longrightarrow>
    sound old \<Longrightarrow> grows old db \<Longrightarrow> others meanwhile \<Longrightarrow> amid_step vfy uuid_of db db'"
| sweep: "sweep_once arrange uuid_text new_id now db = Inr (tally, db') \<Longrightarrow>
    (\<And>xs. mset (arrange xs) = mset xs) \<Longrightarrow> amid_step vfy uuid_of db db'"
| buy: "create_order url gateway env1 env2 new_id hex20 now db student payload = (out, db') \<Longrightarrow>
    others env1 \<Longrightarrow> others env2 \<Longrightarrow> amid_step vfy uuid_of db db'"
| report: "settle validation env ienv db fm = (res, db') \<Longrightarrow> others env \<Longrightarrow> amid_step vfy uuid_of db db'"
| reconcile: "reconcile_once query env ienvs now db = (res, db') \<Longrightarrow> others env \<Longrightarrow> amid_step vfy uuid_of db db'"
| offer: "create_product new_id db body = (out, db') \<Longrightarrow> product_create_ok body \<Longrightarrow> amid_step vfy uuid_of db db'"
| reprice: "update_product db product_id patch = (out, db') \<Longrightarrow> product_update_ok patch \<Longrightarrow> amid_step vfy uuid_of db db'"

inductive_cases amid_stepE: "amid_step vfy uuid_of db db'"

text \<open>The guarantee of a step, and how it composes.\<close>

abbreviation fair :: "database \<Rightarrow> database \<Rightarrow> bool" where
  "fair db db' \<equiv> sound db' \<and> grows db db'"

lemma fair_refl: "sound db \<Longrightarrow> fair db db" by simp

lemma fair_trans: "fair a b \<Longrightarrow> fair b c \<Longrightarrow> fair a c" by (blast intro: grows_trans)

lemma others_fair: "others env \<Longrightarrow> sound db \<Longrightarrow> fair db (env db)" by (simp add: others_def)

lemma fair_flush:
  assumes "sound db" "db_ok (flush_settled x obj staged db)" "\<And>t. staged = Some t \<Longrightarrow> rides_in_bounds t"
  shows "fair db (flush_settled x obj staged db)"
  using assms by (cases staged) (auto simp: sound_def products_ok_def grows_def)

lemma sold_in_bounds:
  assumes "apply_validation ienv db x v = Inr (out, x', Some t)" "sound db"
  shows "rides_in_bounds t"
proof -
  obtain y where "issue_ticket ienv db y = Inr t"
    using assms(1) by (auto simp: apply_validation_def Let_def split: if_splits sum.splits bool.splits)
  then obtain p where p: "get_product db (or_product_id y) = Some p"
    "tk_rides_total t = pr_ride_count p" "tk_rides_remaining t = pr_ride_count p"
    by (auto elim!: issue_ticket_InrD)
  have "p \<in> set (db_products db)" using row_get_SomeD [OF p(1)] by simp
  with p assms(2) show ?thesis by (auto simp: rides_in_bounds_def sound_def products_ok_def split: option.split)
qed

lemma report_fair:
  assumes "settle validation env ienv db fm = (res, db')" "others env" "sound db"
  shows "fair db db'"
proof -
  note e = others_fair [OF assms(2,3)]
  from assms(1) show ?thesis
  proof (cases rule: settle_cases)
    case (closed x s)
    have "fair (env db) db'" unfolding closed(5) by (rule fair_flush) (use e closed in simp_all)
    with e show ?thesis by (rule fair_trans)
  next
    case (decided x answer out settled staged)
    have "fair (env db) db'"
      unfolding decided(5) by (rule fair_flush) (use e decided in \<open>auto intro: sold_in_bounds\<close>)
    with e show ?thesis by (rule fair_trans)
  qed (use e assms(3) in auto)
qed

lemma checkout_fair:
  assumes "open_checkout url gateway env db x student = (res, db')" "others env" "sound db"
  shows "fair db db'"
proof -
  note e = others_fair [OF assms(2,3)]
  from assms(1) show ?thesis
  proof (cases rule: open_checkout_cases)
    case opened
    have "fair (env db) db'" unfolding opened(5) by (rule fair_flush) (use e opened in simp_all)
    with e show ?thesis by (rule fair_trans)
  qed (use e assms(3) in auto)
qed

lemma buy_fair:
  assumes "create_order url gateway env1 env2 new_id hex20 now db student payload = (out, db')"
    and "others env1" "others env2" "sound db"
  shows "fair db db'"
proof -
  note e = others_fair [OF assms(2,4)]
  have new: "fair (env1 db) d" if "open_checkout url gateway env2 ((env1 db)\<lparr>db_orders := os\<rparr>) x student = (r, d)"
    "db_ok ((env1 db)\<lparr>db_orders := os\<rparr>)" for os x r d
  proof -
    have "sound ((env1 db)\<lparr>db_orders := os\<rparr>)" using that(2) e by (simp add: sound_def products_ok_def)
    from checkout_fair [OF that(1) assms(3) this] show ?thesis by (simp add: grows_def)
  qed
  have known: "fair d d'" if "open_checkout url gateway env2 d x student = (r, d')" "sound d" for d x r d'
    by (rule checkout_fair [OF that(1) assms(3) that(2)])
  show ?thesis
    using assms(1,4) e known [of "env1 db"] known [of db] new
    by (auto simp: create_order_def Let_def split: if_splits option.splits sum.splits db_error.splits
        intro: grows_trans)
qed

lemma reconcile_fair:
  assumes "reconcile_once query env ienvs now db = (res, db')" "others env" "sound db"
  shows "fair db db'"
proof -
  note e = others_fair [OF assms(2,3)]
  show ?thesis
  proof (cases "reconcile_orders query ienvs now db empty_tally 0 (unsettled db (now - GRACE))")
    case (Inl x)
    with assms(1) e show ?thesis by (simp add: reconcile_once_def)
  next
    case (Inr x)
    obtain tly ws where x: "x = (tly, ws)" by (cases x)
    have "rides_in_bounds t" if t: "t \<in> set (staged_of ws)" for t
    proof -
      obtain a b where w: "(a, b, Some t) \<in> set ws" using t by (auto simp: staged_of_iff)
      with reconcile_orders_mem [OF Inr [unfolded x] this] show ?thesis
        using assms(3) by (auto simp: write_ok_def intro: sold_in_bounds)
    qed
    then have "fair (env db) (flush_writes ws (env db))" if "db_ok (flush_writes ws (env db))"
      using e that by (auto simp: sound_def products_ok_def list_all_iff flush_writes_tickets grows_def)
    with assms(1) e Inr x show ?thesis
      by (auto simp: reconcile_once_def split: sum.splits db_error.splits intro: grows_trans)
  qed
qed

text \<open>A boarding writes what it computed from the ticket it had read: the rides of the same ticket, within its bounds.\<close>

lemma deducted_in_bounds:
  assumes "rides_in_bounds t" "rides_in_bounds row" "tk_rides_total row = tk_rides_total t" "1 \<le> n"
  shows "rides_in_bounds (flush_ticket t (deduct_ride n t) row)"
  using assms
  by (auto simp: rides_in_bounds_def flush_ticket_def deduct_ride_def Let_def split: option.splits)

lemma stage_fair:
  assumes "sound db" "sound old" "grows old db" "t \<in> set (db_tickets old)" "1 \<le> rd_passenger_count r"
    and "db_ok (stage_redemption db t r)"
  shows "fair db (stage_redemption db t r)"
proof -
  let ?new = "flush_ticket t (deduct_ride (rd_passenger_count r) t)"
  have dist: "distinct (map tk_id (db_tickets db))" using assms(1) by (simp add: sound_def db_ok_tickets_distinct)
  obtain ts where "map ticket_core (db_tickets db) = map ticket_core (db_tickets old) @ ts"
    using assms(3) by (auto simp: grows_def)
  then have "ticket_core t \<in> set (map ticket_core (db_tickets db))" using assms(4) by simp
  then obtain u where u: "u \<in> set (db_tickets db)" "ticket_core u = ticket_core t" by auto
  have "rides_in_bounds t" using assms(2,4) by (simp add: sound_def list_all_iff)
  then have "rides_in_bounds (?new row)" if "row \<in> set (db_tickets db)" "tk_id row = tk_id t" for row
  proof -
    have "row = u" using that u dist by (auto simp: distinct_map inj_on_def ticket_core_def ticket_terms_def)
    with that u assms(1,5) \<open>rides_in_bounds t\<close> show ?thesis
      by (intro deducted_in_bounds) (auto simp: sound_def list_all_iff ticket_core_def)
  qed
  then have "list_all rides_in_bounds (row_edit tk_id (tk_id t) ?new (db_tickets db))"
    using assms(1) by (auto simp: sound_def list_all_iff elim!: in_row_editE)
  with assms(1,6) show ?thesis
    by (auto simp: sound_def products_ok_def stage_redemption_def grows_def map_row_edit)
qed

lemma board_fair:
  assumes "sync_item_amid vfy uuid_of hid env old meanwhile db item = (answer, db')"
    and "sound old" "grows old db" "others meanwhile" "sound db"
  shows "fair db db'"
proof -
  note m = others_fair [OF assms(4,5)]
  have grown: "grows old (meanwhile db)" using assms(3) m by (blast intro: grows_trans)
  consider "db' = db" | "db' = meanwhile db"
    | t r where "t \<in> set (db_tickets old)" "1 \<le> rd_passenger_count r" "db' = stage_redemption (meanwhile db) t r" "db_ok db'"
  proof -
    have "db' = db \<or> db' = meanwhile db \<or> (\<exists>r. redeem_amid vfy uuid_of (ie_plan env) (ie_new_id env) old db meanwhile
        (ri_code item) hid (ri_device_id item) (ri_redeemed_at item) (ri_trip_id item) (ie_now env) = Inr (r, db') \<and> db_ok db')"
      using assms(1)
      by (auto simp: sync_item_amid_def split: if_splits sum.splits redemption_rejected.splits db_error.splits)
    then show thesis using that redeem_amid_cases by blast
  qed
  then show ?thesis
  proof cases
    case (3 t r)
    have "fair (meanwhile db) db'"
      unfolding 3(3) by (rule stage_fair [OF _ assms(2) grown 3(1,2)]) (use m 3 in simp_all)
    with m show ?thesis by (rule fair_trans)
  qed (use m assms(5) in auto)
qed

lemma sweep_fair:
  assumes "sweep_once arrange uuid_text new_id now db = Inr (tally, db')" "sound db"
    and "\<And>xs. mset (arrange xs) = mset xs"
  shows "fair db db'"
proof -
  have ok: "db_ok db" using assms(2) by (simp add: sound_def)
  obtain ids where sw: "swept db ids (tally, db')"
    using sweep_once_effect [OF assms(1) ok assms(3)] by metis
  have t: "db_tickets db' = map (\<lambda>t. if tk_id t \<in> set ids \<and> tk_status t = Ticket_active
      then t\<lparr>tk_status := Ticket_suspended\<rparr> else t) (db_tickets db)"
    using sw by (simp add: swept_def)
  have "db_ok db'"
    using assms(1) ok by (auto simp: sweep_once_def split: sum.splits prod.splits if_splits)
  moreover have "list_all rides_in_bounds (db_tickets db')"
    using assms(2) unfolding t by (auto simp: sound_def list_all_iff)
  moreover have "map ticket_core (db_tickets db') = map ticket_core (db_tickets db)" by (simp add: t)
  ultimately show ?thesis
    using assms(2) swept_frame(1,3) [OF sw] by (simp add: sound_def products_ok_def grows_def)
qed

lemma offer_fair:
  assumes "create_product new_id db body = (out, db')" "product_create_ok body" "sound db"
  shows "fair db db'"
  using assms
  by (auto simp: create_product_def Let_def sound_def products_ok_def product_create_ok_def grows_def
      split: if_splits sum.splits)

lemma reprice_fair:
  assumes "update_product db i patch = (out, db')" "product_update_ok patch" "sound db"
  shows "fair db db'"
proof (cases "db' = db")
  case False
  then obtain p q where p: "get_product db i = Some p" "patched_product patch p = Some q"
    "db' = db\<lparr>db_products := row_edit pr_id i (\<lambda>_. q) (db_products db)\<rparr>" "db_ok db'"
    using assms(1) by (auto simp: update_product_def split: if_splits option.splits sum.splits)
  have rides: "0 \<le> n" if "r \<in> set (db_products db)" "pr_ride_count r = Some n" for r n
    using that assms(3) by (auto simp: sound_def products_ok_def)
  have "p \<in> set (db_products db)" using row_get_SomeD [OF p(1)] by simp
  then have "0 \<le> n" if "pr_ride_count q = Some n" for n
    using patched_product_rides [OF p(2) assms(2) _ that] rides by blast
  with rides assms(3) p(4) show ?thesis
    unfolding p(3) by (auto simp: sound_def products_ok_def grows_def elim!: in_row_editE)
qed (use assms(3) in simp)

lemma amid_step_fair:
  assumes "amid_step vfy uuid_of db db'" "sound db"
  shows "fair db db'"
  using assms(1)
proof (cases rule: amid_step.cases)
  case board
  from board_fair [OF board assms(2)] show ?thesis .
next
  case (sweep arrange uuid_text new_id now tally)
  then show ?thesis using assms(2) by (intro sweep_fair)
next
  case buy
  from buy_fair [OF buy assms(2)] show ?thesis .
next
  case report
  from report_fair [OF report assms(2)] show ?thesis .
next
  case reconcile
  from reconcile_fair [OF reconcile assms(2)] show ?thesis .
next
  case offer
  from offer_fair [OF offer assms(2)] show ?thesis .
next
  case reprice
  from reprice_fair [OF reprice assms(2)] show ?thesis .
qed

interpretation crowd: guarded_machine "amid_step vfy uuid_of" sound
  for vfy uuid_of
  by unfold_locales (simp add: amid_step_fair)

lemma crowd_run_fair:
  assumes "(amid_step vfy uuid_of)\<^sup>*\<^sup>* db db'" "sound db"
  shows "fair db db'"
proof -
  have "grows db db'"
    by (rule crowd.run_keeps [OF assms, where P = "grows db"]) (auto intro: grows_trans dest: amid_step_fair)
  with crowd.run_inv [OF assms] show ?thesis by simp
qed

text \<open>The machine meets its own rely: whoever commits only by running it counts as others.\<close>

lemma runs_are_others: "(\<And>db. sound db \<Longrightarrow> (amid_step vfy uuid_of)\<^sup>*\<^sup>* db (env db)) \<Longrightarrow> others env"
  unfolding others_def using crowd_run_fair by blast

lemma others_id: "others (\<lambda>d. d)" by (simp add: others_def)

text \<open>A serial step is a step in a crowd that does nothing.\<close>

lemma serial_step_amid: "commerce_step vfy uuid_of db db' \<Longrightarrow> sound db \<Longrightarrow> amid_step vfy uuid_of db db'"
proof (induction rule: commerce_step.induct)
  case (board helper_id env db item answer db')
  then show ?case
    using amid_step.board [of vfy uuid_of helper_id env db "\<lambda>d. d" db item] others_id by (simp add: sync_item_def)
qed (blast intro: amid_step.intros others_id)+

lemma rides_used_nonneg: "boarding_inv db \<Longrightarrow> 0 \<le> rides_used db i"
  by (force simp: rides_used_def boarding_inv_def list_all_iff intro!: sum_by_nonneg)

lemma serial_sound:
  assumes "commerce_inv db"
  shows "sound db"
proof -
  have b: "boarding_inv db" using assms by (simp add: commerce_inv_def)
  have "rides_in_bounds t" if "ride_account db t" for t
    using that rides_used_nonneg [OF b, of "tk_id t"] by (auto simp: ride_account_def rides_in_bounds_def split: option.splits)
  with b assms show ?thesis
    by (auto simp: commerce_inv_def boarding_inv_def sound_def rides_ok_def list_all_iff)
qed

lemma grows_run:
  assumes "(commerce_step vfy uuid_of)\<^sup>*\<^sup>* db db'" "commerce_inv db"
  shows "grows db db'"
  by (rule shop_machine.run_keeps [OF assms, where P = "grows db"])
    (auto intro: grows_trans dest!: serial_step_amid amid_step_fair intro: serial_sound)

text \<open>What is left is what was sold less what was used, and use only grows.\<close>

lemma rides_used_grows:
  assumes "db_redemptions db' = db_redemptions db @ rs" "boarding_inv db'"
  shows "rides_used db i \<le> rides_used db' i"
proof -
  have "0 \<le> rd_passenger_count r" if "r \<in> set rs" for r
  proof -
    have "r \<in> set (db_redemptions db')" using that assms(1) by simp
    then have "1 \<le> rd_passenger_count r" using assms(2) by (simp add: boarding_inv_def list_all_iff)
    then show ?thesis by simp
  qed
  then show ?thesis using assms(1) by (simp add: rides_used_def sum_by_nonneg)
qed

lemma rides_left_shrink:
  assumes "ride_account db t" "ride_account db' t'" "ticket_core t' = ticket_core t"
    "rides_used db (tk_id t) \<le> rides_used db' (tk_id t)"
  shows "case (tk_rides_remaining t, tk_rides_remaining t') of
      (Some n, Some n') \<Rightarrow> 0 \<le> n' \<and> n' \<le> n | (None, None) \<Rightarrow> True | _ \<Rightarrow> False"
  using assms
  by (auto simp: ride_account_def ticket_core_def ticket_terms_def split: option.splits)

lemma ride_account_le:
  "ride_account db t \<Longrightarrow> tk_rides_total t = Some n \<Longrightarrow> rides_used db (tk_id t) \<le> n"
  by (auto simp: ride_account_def split: option.splits)

section \<open>Properties\<close>

text \<open>
  C1. The books of any serial run: however many boardings, sweeps, purchases, payment reports,
  reconciler passes and catalogue edits follow one another, in whatever order and whatever the gateway answers
  each of them, as long as none is disturbed by another's commit between its reads and its writes. Starting from
  books in order, every ticket belongs to a
  paid order of the same student and product for which the gateway's own record shows the exact
  money, no two tickets share an order, and a ticket sold with \<open>n\<close> rides has never carried
  more than \<open>n\<close> passengers. (Operations that do meet break the books: \<open>concurrent_boardings_lose_rides\<close>,
  \<open>late_failure_report_unpays\<close>.)
\<close>

theorem no_run_oversells:
  assumes "(commerce_step vfy uuid_of)\<^sup>*\<^sup>* db db'" "commerce_inv db"
  shows "distinct (map tk_order_id (db_tickets db')) \<and>
    (\<forall>t \<in> set (db_tickets db').
      (case tk_rides_total t of None \<Rightarrow> True | Some n \<Rightarrow> 0 \<le> rides_used db' (tk_id t) \<and> rides_used db' (tk_id t) \<le> n) \<and>
      (\<exists>x \<in> set (db_orders db'). or_id x = tk_order_id t \<and> or_status x = Order_paid \<and>
         or_student_id x = tk_student_id t \<and> or_product_id x = tk_product_id t \<and>
         (\<exists>v. or_raw_payload x = Some v \<and> payment_succeeded v \<and> \<not> risk_flagged v \<and>
            amount_matches v (or_amount_paisa x) (or_currency x) = Inr True)))"
proof -
  have inv: "commerce_inv db'" using assms by (rule shop_machine.run_inv)
  then have b: "boarding_inv db'" and ok: "db_ok db'" and acc: "list_all (ride_account db') (db_tickets db')"
    by (simp_all add: commerce_inv_def boarding_inv_def rides_ok_def)
  note rides_used_nonneg [OF b]
  then have "case tk_rides_total t of None \<Rightarrow> True
      | Some n \<Rightarrow> 0 \<le> rides_used db' (tk_id t) \<and> rides_used db' (tk_id t) \<le> n"
    if "t \<in> set (db_tickets db')" for t
    using that acc by (auto simp: list_all_iff dest: ride_account_le split: option.split)
  then show ?thesis
    using inv ok by (fastforce simp: commerce_inv_def ticket_is_paid_def good_money_def db_ok_def tickets_ok_def)
qed

lemma demo_run: "(commerce_step demo_vfy demo_uuid_of)\<^sup>*\<^sup>* demo_db demo_boarded"
  by (rule r_into_rtranclp, rule commerce_step.board [OF demo_sync_item])

theorem no_run_oversells_witness:
  "distinct (map tk_order_id (db_tickets demo_boarded)) \<and>
   (\<exists>t \<in> set (db_tickets demo_boarded). tk_rides_total t = Some 10 \<and> rides_used demo_boarded (tk_id t) \<le> 10)"
proof -
  note all = no_run_oversells [OF demo_run demo_commerce_inv]
  obtain t where t: "t \<in> set (db_tickets demo_boarded)" "tk_rides_total t = Some 10"
    by (simp add: demo_boarded_def demo_defs)
  with conjunct2 [OF all] have "rides_used demo_boarded (tk_id t) \<le> 10" by fastforce
  with t conjunct1 [OF all] show ?thesis by blast
qed

text \<open>A serial run's rides left only go down.\<close>

theorem serial_rides_go_down:
  assumes "(commerce_step vfy uuid_of)\<^sup>*\<^sup>* db db'" "commerce_inv db"
    and "t \<in> set (db_tickets db)"
  shows "\<exists>t' \<in> set (db_tickets db'). ticket_core t' = ticket_core t \<and>
      (case (tk_rides_remaining t, tk_rides_remaining t') of
         (Some n, Some n') \<Rightarrow> 0 \<le> n' \<and> n' \<le> n | (None, None) \<Rightarrow> True | _ \<Rightarrow> False)"
proof -
  have inv: "commerce_inv db'" using assms(1,2) by (rule shop_machine.run_inv)
  obtain ts rs where g: "map ticket_core (db_tickets db') = map ticket_core (db_tickets db) @ ts"
    "db_redemptions db' = db_redemptions db @ rs"
    using grows_run [OF assms(1,2)] by (auto simp: grows_def)
  have "ticket_core t \<in> set (map ticket_core (db_tickets db'))" using assms(3) by (simp add: g(1))
  then obtain t' where t': "t' \<in> set (db_tickets db')" "ticket_core t' = ticket_core t" by auto
  have "ride_account db t" "ride_account db' t'"
    using assms(2,3) inv t'(1) by (auto simp: commerce_inv_def boarding_inv_def rides_ok_def list_all_iff)
  moreover have "rides_used db (tk_id t) \<le> rides_used db' (tk_id t)"
    using inv by (intro rides_used_grows [OF g(2)]) (simp add: commerce_inv_def)
  ultimately have "case (tk_rides_remaining t, tk_rides_remaining t') of
      (Some n, Some n') \<Rightarrow> 0 \<le> n' \<and> n' \<le> n | (None, None) \<Rightarrow> True | _ \<Rightarrow> False"
    using t'(2) by (intro rides_left_shrink)
  with t' show ?thesis by auto
qed

text \<open>
  C2. A ticket is never lost, however requests interleave: through any run of operations, with
  other operations' commits landing between the reads and the writes of each boarding, purchase, report of payment and
  pass of the reconciler (a sweep and a catalogue edit are one transaction each), every ticket stays in the table with its
  order, owner, product, rides sold, dates and both its keys, an unlimited ticket stays unlimited and a counted one has between none and
  all of its rides left, and no boarding is ever forgotten. (How many rides are left is right in serial
  runs only: \<open>concurrent_boardings_lose_rides\<close>.)
\<close>

theorem tickets_are_never_lost:
  assumes "(amid_step vfy uuid_of)\<^sup>*\<^sup>* db db'" "sound db"
    and "t \<in> set (db_tickets db)"
  shows "(\<exists>t' \<in> set (db_tickets db'). ticket_core t' = ticket_core t \<and>
      (case (tk_rides_total t, tk_rides_remaining t') of
         (Some sold, Some left) \<Rightarrow> 0 \<le> left \<and> left \<le> sold | (None, None) \<Rightarrow> True | _ \<Rightarrow> False)) \<and>
    set (db_redemptions db) \<subseteq> set (db_redemptions db')"
proof -
  have f: "fair db db'" using assms(1,2) by (rule crowd_run_fair)
  then obtain ts rs where g: "map ticket_core (db_tickets db') = map ticket_core (db_tickets db) @ ts"
    "db_redemptions db' = db_redemptions db @ rs"
    by (auto simp: grows_def)
  have "ticket_core t \<in> set (map ticket_core (db_tickets db'))" using assms(3) by (simp add: g(1))
  then obtain t' where t': "t' \<in> set (db_tickets db')" "ticket_core t' = ticket_core t" by auto
  moreover from t'(2) have "tk_rides_total t' = tk_rides_total t" by (simp add: ticket_core_def)
  moreover have "rides_in_bounds t'" using f t'(1) by (simp add: sound_def list_all_iff)
  ultimately show ?thesis using g(2) by (auto simp: rides_in_bounds_def)
qed

text \<open>A boarding during which a report of payment settles another order.\<close>

definition demo_meanwhile :: "database \<Rightarrow> database" where
  "demo_meanwhile db = (if db = demo_db then demo_paid else db)"

definition demo_crowd :: database where
  "demo_crowd = demo_paid\<lparr>db_redemptions := [demo_redemption],
     db_tickets := [demo_ticket\<lparr>tk_rides_remaining := Some 8\<rparr>, demo_new_ticket]\<rparr>"

lemma demo_others: "others demo_meanwhile"
proof (rule runs_are_others)
  fix db
  have "amid_step demo_vfy demo_uuid_of demo_db demo_paid"
    using amid_step.report [OF demo_settle others_id] .
  then show "(amid_step demo_vfy demo_uuid_of)\<^sup>*\<^sup>* db (demo_meanwhile db)" by (auto simp: demo_meanwhile_def)
qed

lemma demo_amid:
  "sync_item_amid demo_vfy demo_uuid_of 21 demo_env demo_db demo_meanwhile demo_db demo_item = (Inr demo_result, demo_crowd)"
proof -
  have "redeem_amid demo_vfy demo_uuid_of 0 1001 demo_db demo_db demo_meanwhile demo_code 21 ''dev-1'' demo_now (Some 71) demo_now
      = Inr (demo_redemption, stage_redemption demo_paid demo_ticket demo_redemption)"
    unfolding redeem_amid_def demo_redeem_steps sum.case
    by (simp add: demo_redeem_steps(4,5) demo_redemption_def demo_meanwhile_def Let_def)
      (simp add: demo_ticket_def demo_payload_def)
  moreover have "stage_redemption demo_paid demo_ticket demo_redemption = demo_crowd"
    by (simp add: stage_redemption_def flush_ticket_def deduct_ride_def demo_redemption_def demo_crowd_def
        demo_paid_def demo_db_def demo_ticket_def demo_new_ticket_def)
  moreover have "db_ok demo_crowd"
    by (simp add: db_ok_defs demo_crowd_def demo_paid_def demo_settled_def demo_new_ticket_def demo_redemption_def
        demo_defs unique_on_def fk_opt_def)
  ultimately show ?thesis
    by (simp add: sync_item_amid_def demo_item_def demo_env_def demo_code_length CODE_MIN_LEN_def CODE_MAX_LEN_def)
      (simp add: demo_result_def demo_crowd_def demo_redemption_def demo_defs)
qed

theorem tickets_are_never_lost_witness:
  "\<exists>t' \<in> set (db_tickets demo_crowd). ticket_core t' = ticket_core demo_ticket \<and>
     (\<exists>n'. tk_rides_remaining t' = Some n' \<and> 0 \<le> n' \<and> n' \<le> 10)"
proof -
  have sound: "sound demo_db" by (rule serial_sound [OF demo_commerce_inv])
  have run: "(amid_step demo_vfy demo_uuid_of)\<^sup>*\<^sup>* demo_db demo_crowd"
    by (rule r_into_rtranclp, rule amid_step.board [OF demo_amid sound grows_refl demo_others])
  have "demo_ticket \<in> set (db_tickets demo_db)" "tk_rides_total demo_ticket = Some 10"
    by (simp_all add: demo_db_def demo_ticket_def)
  with tickets_are_never_lost [OF run sound this(1)] show ?thesis
    by (fastforce split: option.splits)
qed

end
