(* ===== verification/RedisStore.thy ===== *)
theory RedisStore
  imports Models
begin

text \<open>
  The Redis the program talks to (\<^verbatim>\<open>app/core/redis.py\<close>): keys with a value and an
  expiry, one stream and the published messages. A cached text is kept as the JSON object
  \<^verbatim>\<open>json.loads\<close> reads from it, \<open>None\<close> where it reads none; \<open>RBoard\<close> is an
  object with a list of objects under \<^verbatim>\<open>arrivals\<close> beside its scalar fields, the
  shape of the cached arrival board. Every
  operation can also fail because the server does not answer; the callers take that as a flag.
  The theory ends with the contract of a cache in front of a table (\<open>cache_aside\<close>).
\<close>

section \<open>The store\<close>

datatype redis_value =
    RDoc "doc option"
  | RHash "(string \<times> string) list"
  | RBoard doc "doc list"

datatype message = Plain string | Doc doc

record redis =
  re_data :: "string \<Rightarrow> (redis_value \<times> instant option) option"
  re_stream :: "(string \<times> string) list list"
  re_published :: "(string \<times> message) list"

definition redis_get :: "redis \<Rightarrow> instant \<Rightarrow> string \<Rightarrow> redis_value option" where
  "redis_get r now k =
     (case re_data r k of
        None \<Rightarrow> None
      | Some (v, None) \<Rightarrow> Some v
      | Some (v, Some e) \<Rightarrow> if now < e then Some v else None)"

definition redis_set :: "string \<Rightarrow> redis_value \<Rightarrow> instant option \<Rightarrow> redis \<Rightarrow> redis" where
  "redis_set k v e r = r\<lparr>re_data := (re_data r)(k := Some (v, e))\<rparr>"

definition redis_delete :: "string \<Rightarrow> redis \<Rightarrow> redis" where
  "redis_delete k r = r\<lparr>re_data := (re_data r)(k := None)\<rparr>"

text \<open>\<^verbatim>\<open>HSET\<close> overwrites the given fields and keeps the others; the key's expiry stays.\<close>

definition redis_hgetall :: "redis \<Rightarrow> instant \<Rightarrow> string \<Rightarrow> (string \<times> string) list" where
  "redis_hgetall r now k = (case redis_get r now k of Some (RHash fs) \<Rightarrow> fs | _ \<Rightarrow> [])"

definition redis_hset :: "instant \<Rightarrow> string \<Rightarrow> (string \<times> string) list \<Rightarrow> redis \<Rightarrow> redis" where
  "redis_hset now k fs r =
     redis_set k (RHash (fs @ filter (\<lambda>(n, _). n \<notin> fst ` set fs) (redis_hgetall r now k)))
       (case redis_get r now k of None \<Rightarrow> None | Some _ \<Rightarrow> (case re_data r k of Some (_, e) \<Rightarrow> e | None \<Rightarrow> None)) r"

definition redis_expire :: "instant \<Rightarrow> string \<Rightarrow> int \<Rightarrow> redis \<Rightarrow> redis" where
  "redis_expire now k seconds r =
     (case redis_get r now k of
        None \<Rightarrow> r
      | Some v \<Rightarrow> redis_set k v (Some (now + seconds * second)) r)"

definition redis_xadd :: "(string \<times> string) list \<Rightarrow> redis \<Rightarrow> redis" where
  "redis_xadd fs r = r\<lparr>re_stream := re_stream r @ [fs]\<rparr>"

definition redis_publish :: "string \<Rightarrow> message \<Rightarrow> redis \<Rightarrow> redis" where
  "redis_publish channel m r = r\<lparr>re_published := re_published r @ [(channel, m)]\<rparr>"

section \<open>The keyspace\<close>

definition bus_pos_key :: "string \<Rightarrow> string" where "bus_pos_key bus_id = ''bus:'' @ bus_id @ '':pos''"
definition fleet_channel :: string where "fleet_channel = ''fleet:ch''"
definition bus_seats_key :: "string \<Rightarrow> string" where "bus_seats_key bus_id = ''bus:'' @ bus_id @ '':seats''"
definition SEATS_TTL_S :: int where "SEATS_TTL_S = 900"
definition alerts_channel :: string where "alerts_channel = ''alerts:ch''"
definition helper_trip_key :: "string \<Rightarrow> string" where
  "helper_trip_key helper_id = ''helper:'' @ helper_id @ '':trip''"
definition ACTIVE_TRIP_TTL_S :: int where "ACTIVE_TRIP_TTL_S = 16 * 60 * 60"
definition trip_eta_key :: "string \<Rightarrow> string" where "trip_eta_key trip_id = ''trip:'' @ trip_id @ '':eta''"
definition trip_progress_key :: "string \<Rightarrow> string" where
  "trip_progress_key trip_id = ''trip:'' @ trip_id @ '':progress''"
definition ETA_TTL_S :: int where "ETA_TTL_S = 30 * 60"

lemma helper_trip_key_inject [simp]: "helper_trip_key a = helper_trip_key b \<longleftrightarrow> a = b"
  by (simp add: helper_trip_key_def)

lemma bus_pos_key_inject [simp]: "bus_pos_key a = bus_pos_key b \<longleftrightarrow> a = b"
  by (simp add: bus_pos_key_def)

lemma bus_key_kinds [simp]:
  "helper_trip_key a \<noteq> bus_pos_key b" "bus_pos_key b \<noteq> helper_trip_key a"
  "helper_trip_key a \<noteq> bus_seats_key b" "bus_seats_key b \<noteq> helper_trip_key a"
  by (simp_all add: helper_trip_key_def bus_pos_key_def bus_seats_key_def)

section \<open>Reading after writing\<close>

lemma redis_get_set [simp]:
  "redis_get (redis_set k v e r) now j =
     (if j = k then (case e of None \<Rightarrow> Some v | Some t \<Rightarrow> if now < t then Some v else None)
      else redis_get r now j)"
  by (simp add: redis_get_def redis_set_def split: option.split)

lemma redis_get_delete [simp]:
  "redis_get (redis_delete k r) now j = (if j = k then None else redis_get r now j)"
  by (simp add: redis_get_def redis_delete_def)

lemma redis_get_hset_other [simp]: "j \<noteq> k \<Longrightarrow> redis_get (redis_hset t k fs r) now j = redis_get r now j"
  by (simp add: redis_hset_def)

lemma redis_get_expire_other [simp]: "j \<noteq> k \<Longrightarrow> redis_get (redis_expire t k n r) now j = redis_get r now j"
  by (simp add: redis_expire_def split: option.split)

lemma redis_get_xadd [simp]: "redis_get (redis_xadd fs r) now j = redis_get r now j"
  by (simp add: redis_get_def redis_xadd_def)

lemma redis_get_publish [simp]: "redis_get (redis_publish c m r) now j = redis_get r now j"
  by (simp add: redis_get_def redis_publish_def)

lemma redis_stream [simp]:
  "re_stream (redis_set k v e r) = re_stream r" "re_stream (redis_delete k r) = re_stream r"
  "re_stream (redis_hset t k fs r) = re_stream r" "re_stream (redis_publish c m r) = re_stream r"
  "re_stream (redis_xadd fs r) = re_stream r @ [fs]"
  "re_stream (redis_expire t k n r) = re_stream r"
  by (simp_all add: redis_set_def redis_delete_def redis_hset_def redis_publish_def redis_xadd_def
      redis_expire_def split: option.split)

lemma redis_expires: "redis_get r now k = Some v \<Longrightarrow> now' \<le> now \<Longrightarrow> redis_get r now' k = Some v"
  by (auto simp: redis_get_def split: option.splits if_splits)

section \<open>A cache in front of a table\<close>

text \<open>
  A cache is coherent with its source when whatever it answers is what the source would
  answer. A cache that is asked first and filled on a miss is then invisible: asking it gives
  the source's answer, and it stays coherent.
\<close>

definition coherent :: "('c \<Rightarrow> 'k \<Rightarrow> 'v option) \<Rightarrow> ('d \<Rightarrow> 'k \<Rightarrow> 'v option) \<Rightarrow> 'd \<Rightarrow> 'c \<Rightarrow> bool" where
  "coherent lookup source d c \<longleftrightarrow> (\<forall>k v. lookup c k = Some v \<longrightarrow> source d k = Some v)"

locale cache_aside =
  fixes lookup :: "'c \<Rightarrow> 'k \<Rightarrow> 'v option" and source :: "'d \<Rightarrow> 'k \<Rightarrow> 'v option"
    and fill :: "'k \<Rightarrow> 'v \<Rightarrow> 'c \<Rightarrow> 'c" and drop_key :: "'k \<Rightarrow> 'c \<Rightarrow> 'c"
  assumes lookup_fill: "lookup (fill k v c) j = (if j = k then Some v else lookup c j)"
    and lookup_drop: "lookup (drop_key k c) j = (if j = k then None else lookup c j)"
begin

lemma hit: "coherent lookup source d c \<Longrightarrow> lookup c k = Some v \<Longrightarrow> source d k = Some v"
  by (simp add: coherent_def)

lemma fill_coherent: "coherent lookup source d c \<Longrightarrow> source d k = Some v \<Longrightarrow> coherent lookup source d (fill k v c)"
  by (simp add: coherent_def lookup_fill)

lemma drop_coherent: "coherent lookup source d c \<Longrightarrow> coherent lookup source d (drop_key k c)"
  by (simp add: coherent_def lookup_drop)

text \<open>After a write that changes the source for one key, dropping or filling that key is enough.\<close>

lemma write_drop:
  assumes "coherent lookup source d c" "\<And>j. j \<noteq> k \<Longrightarrow> source d' j = source d j"
  shows "coherent lookup source d' (drop_key k c)"
  using assms by (auto simp: coherent_def lookup_drop)

lemma write_fill:
  assumes "coherent lookup source d c" "\<And>j. j \<noteq> k \<Longrightarrow> source d' j = source d j" "source d' k = Some v"
  shows "coherent lookup source d' (fill k v c)"
  using assms by (auto simp: coherent_def lookup_fill)

end

end
