(* ===== verification/Trips.thy ===== *)
theory Trips
  imports RedisStore Demo
begin

text \<open>
  The trip a helper is on: \<^verbatim>\<open>app/services/trip.py\<close>. The row in the database is the
  truth and the two partial unique indexes decide races; the cached copy is an optimisation.
  Redis operations that may fail take a flag \<open>up\<close>; \<open>env\<close> is what other
  transactions commit before the insert reaches the database.
\<close>

datatype trip_error =
    TripConflictError string
  | TripNotFoundError string
  | InvalidTripTargetError string
  | MultipleResultsFound

section \<open>The cached shape\<close>

record active_trip =
  at_trip_id :: uuid
  at_bus_id :: uuid
  at_route_id :: uuid

definition to_json :: "(uuid \<Rightarrow> string) \<Rightarrow> active_trip \<Rightarrow> doc" where
  "to_json uuid_text a = [(''trip_id'', JStr (uuid_text (at_trip_id a))),
     (''bus_id'', JStr (uuid_text (at_bus_id a))), (''route_id'', JStr (uuid_text (at_route_id a)))]"

text \<open>\<^verbatim>\<open>uuid.UUID(d[key])\<close>.\<close>

definition doc_uuid :: "(string \<Rightarrow> uuid option) \<Rightarrow> doc \<Rightarrow> string \<Rightarrow> py_error + uuid" where
  "doc_uuid uuid_of d k =
     (case map_of d k of
        None \<Rightarrow> Inl KeyError
      | Some (JStr s) \<Rightarrow> (case uuid_of s of None \<Rightarrow> Inl ValueError | Some i \<Rightarrow> Inr i)
      | Some JNull \<Rightarrow> Inl TypeError
      | Some _ \<Rightarrow> Inl AttributeError)"

definition from_json :: "(string \<Rightarrow> uuid option) \<Rightarrow> doc \<Rightarrow> py_error + active_trip" where
  "from_json uuid_of d =
     (case doc_uuid uuid_of d ''trip_id'' of
        Inl e \<Rightarrow> Inl e
      | Inr t \<Rightarrow>
          (case doc_uuid uuid_of d ''bus_id'' of
             Inl e \<Rightarrow> Inl e
           | Inr b \<Rightarrow>
               (case doc_uuid uuid_of d ''route_id'' of
                  Inl e \<Rightarrow> Inl e
                | Inr r \<Rightarrow> Inr \<lparr>at_trip_id = t, at_bus_id = b, at_route_id = r\<rparr>)))"

definition from_model :: "trip \<Rightarrow> active_trip" where
  "from_model t = \<lparr>at_trip_id = tr_id t, at_bus_id = tr_bus_id t, at_route_id = tr_route_id t\<rparr>"

section \<open>The trip in the database\<close>

definition live_trip_from_db :: "database \<Rightarrow> uuid \<Rightarrow> trip_error + trip option" where
  "live_trip_from_db db helper_id =
     (case filter (\<lambda>t. tr_helper_id t = helper_id \<and> is_live t) (db_trips db) of
        [] \<Rightarrow> Inr None
      | [t] \<Rightarrow> Inr (Some t)
      | _ \<Rightarrow> Inl MultipleResultsFound)"

definition new_trip :: "uuid \<Rightarrow> int \<Rightarrow> instant \<Rightarrow> uuid \<Rightarrow> uuid \<Rightarrow> uuid \<Rightarrow> trip" where
  "new_trip new_id service_date now helper_id bus_id route_id =
     \<lparr>tr_id = new_id, tr_route_id = route_id, tr_bus_id = bus_id, tr_helper_id = helper_id,
      tr_service_date = service_date, tr_scheduled_start = None, tr_actual_start = Some now,
      tr_actual_end = None, tr_status = Trip_live\<rparr>"

text \<open>The insert writes no text, so only a constraint can refuse it.\<close>

definition start_trip ::
  "(database \<Rightarrow> database) \<Rightarrow> uuid \<Rightarrow> int \<Rightarrow> instant \<Rightarrow> database \<Rightarrow> uuid \<Rightarrow> uuid \<Rightarrow> uuid \<Rightarrow>
   (trip_error + trip) \<times> database" where
  "start_trip env new_id service_date now db helper_id bus_id route_id =
     (case get_bus db bus_id of
        None \<Rightarrow> (Inl (InvalidTripTargetError ''Bus is unknown or not in service''), db)
      | Some bus \<Rightarrow>
          if bs_status bus \<noteq> Bus_active
          then (Inl (InvalidTripTargetError ''Bus is unknown or not in service''), db)
          else (case get_route db route_id of
              None \<Rightarrow> (Inl (InvalidTripTargetError ''Route is unknown or not active''), db)
            | Some route \<Rightarrow>
                if \<not> rt_is_active route
                then (Inl (InvalidTripTargetError ''Route is unknown or not active''), db)
                else
                  let trip = new_trip new_id service_date now helper_id bus_id route_id; db1 = env db in
                  (case commit (db1\<lparr>db_trips := db_trips db1 @ [trip]\<rparr>) of
                     Inl _ \<Rightarrow> (Inl (TripConflictError ''Bus or helper is already on a live trip''), db1)
                   | Inr db' \<Rightarrow> (Inr trip, db'))))"

definition finish_trip :: "instant \<Rightarrow> trip \<Rightarrow> trip" where
  "finish_trip now t = t\<lparr>tr_status := Trip_completed, tr_actual_end := Some now\<rparr>"

definition end_trip :: "instant \<Rightarrow> database \<Rightarrow> uuid \<Rightarrow> (trip_error + trip) \<times> database" where
  "end_trip now db helper_id =
     (case live_trip_from_db db helper_id of
        Inl e \<Rightarrow> (Inl e, db)
      | Inr None \<Rightarrow> (Inl (TripNotFoundError ''No live trip for this helper''), db)
      | Inr (Some trip) \<Rightarrow>
          (Inr (finish_trip now trip),
           db\<lparr>db_trips := row_edit tr_id (tr_id trip) (finish_trip now) (db_trips db)\<rparr>))"

text \<open>The just-finished trip of this helper on this bus, for an outbox that still drains.\<close>

definition GPS_DRAIN_GRACE :: int where "GPS_DRAIN_GRACE = 12 * hour"

definition drains :: "instant \<Rightarrow> uuid \<Rightarrow> uuid \<Rightarrow> trip \<Rightarrow> bool" where
  "drains now helper_id bus_id t \<longleftrightarrow> tr_helper_id t = helper_id \<and> tr_bus_id t = bus_id \<and>
     tr_status t = Trip_completed \<and>
     (case tr_actual_end t of None \<Rightarrow> False | Some e \<Rightarrow> now - GPS_DRAIN_GRACE \<le> e)"

definition recently_ended_trip :: "instant \<Rightarrow> database \<Rightarrow> uuid \<Rightarrow> uuid \<Rightarrow> trip option" where
  "recently_ended_trip now db helper_id bus_id =
     (case sort_key (\<lambda>t. - (case tr_actual_end t of None \<Rightarrow> 0 | Some e \<Rightarrow> e))
             (filter (drains now helper_id bus_id) (db_trips db)) of
        [] \<Rightarrow> None
      | t # _ \<Rightarrow> Some t)"

section \<open>The cached copy\<close>

definition cache_active ::
  "bool \<Rightarrow> (uuid \<Rightarrow> string) \<Rightarrow> instant \<Rightarrow> uuid \<Rightarrow> active_trip \<Rightarrow> redis \<Rightarrow> redis" where
  "cache_active up uuid_text now helper_id a r =
     (if up then redis_set (helper_trip_key (uuid_text helper_id)) (RDoc (Some (to_json uuid_text a)))
        (Some (now + ACTIVE_TRIP_TTL_S * second)) r
      else r)"

definition cache_active_trip :: "bool \<Rightarrow> (uuid \<Rightarrow> string) \<Rightarrow> instant \<Rightarrow> trip \<Rightarrow> redis \<Rightarrow> redis" where
  "cache_active_trip up uuid_text now t r = cache_active up uuid_text now (tr_helper_id t) (from_model t) r"

text \<open>Dropping the key has no handler around it: a failure reaches the caller.\<close>

definition clear_active_trip :: "bool \<Rightarrow> (uuid \<Rightarrow> string) \<Rightarrow> uuid \<Rightarrow> redis \<Rightarrow> (handler_error + unit) \<times> redis" where
  "clear_active_trip up uuid_text helper_id r =
     (if up then (Inr (), redis_delete (helper_trip_key (uuid_text helper_id)) r) else (Inl UncaughtCache, r))"

text \<open>What the cache answers: nothing for a missing, expired or unreadable entry.\<close>

definition cached_trip :: "(string \<Rightarrow> uuid option) \<Rightarrow> (uuid \<Rightarrow> string) \<Rightarrow> instant \<Rightarrow> redis \<Rightarrow> uuid \<Rightarrow> active_trip option" where
  "cached_trip uuid_of uuid_text now r helper_id =
     (case redis_get r now (helper_trip_key (uuid_text helper_id)) of
        Some (RDoc (Some d)) \<Rightarrow> (case from_json uuid_of d of Inl _ \<Rightarrow> None | Inr a \<Rightarrow> Some a)
      | _ \<Rightarrow> None)"

definition get_active_trip ::
  "(string \<Rightarrow> uuid option) \<Rightarrow> (uuid \<Rightarrow> string) \<Rightarrow> bool \<Rightarrow> bool \<Rightarrow> instant \<Rightarrow> database \<Rightarrow> redis \<Rightarrow> uuid \<Rightarrow>
   (trip_error + active_trip option) \<times> redis" where
  "get_active_trip uuid_of uuid_text up_get up_set now db r helper_id =
     (case (if up_get then cached_trip uuid_of uuid_text now r helper_id else None) of
        Some a \<Rightarrow> (Inr (Some a), r)
      | None \<Rightarrow>
          (case live_trip_from_db db helper_id of
             Inl e \<Rightarrow> (Inl e, r)
           | Inr None \<Rightarrow> (Inr None, r)
           | Inr (Some trip) \<Rightarrow>
               (Inr (Some (from_model trip)), cache_active up_set uuid_text now helper_id (from_model trip) r)))"

section \<open>The contract of the cached copy\<close>

text \<open>The abstract view: the trip the helper is on, read from the database alone.\<close>

definition live_trip :: "database \<Rightarrow> uuid \<Rightarrow> active_trip option" where
  "live_trip db helper_id =
     map_option from_model (find (\<lambda>t. tr_helper_id t = helper_id \<and> is_live t) (db_trips db))"

lemma from_json_to_json:
  assumes "\<And>i. uuid_of (uuid_text i) = Some i"
  shows "from_json uuid_of (to_json uuid_text a) = Inr a"
  using assms by (simp add: from_json_def to_json_def doc_uuid_def)

lemma cached_trip_fill:
  assumes "\<And>i. uuid_of (uuid_text i) = Some i"
  shows "cached_trip uuid_of uuid_text now (cache_active True uuid_text now h a r) h' =
    (if h' = h then Some a else cached_trip uuid_of uuid_text now r h')"
proof -
  have "uuid_text h' = uuid_text h \<longleftrightarrow> h' = h" by (metis assms option.inject)
  then show ?thesis
    by (simp add: cached_trip_def cache_active_def ACTIVE_TRIP_TTL_S_def from_json_to_json [OF assms])
qed

lemma cached_trip_drop:
  assumes "\<And>i. uuid_of (uuid_text i) = Some i"
  shows "cached_trip uuid_of uuid_text now (redis_delete (helper_trip_key (uuid_text h)) r) h' =
    (if h' = h then None else cached_trip uuid_of uuid_text now r h')"
proof -
  have "uuid_text h' = uuid_text h \<longleftrightarrow> h' = h" by (metis assms option.inject)
  then show ?thesis by (simp add: cached_trip_def)
qed

lemma unique_filter:
  assumes "unique_on P f xs"
  shows "filter (\<lambda>x. f x = k \<and> P x) xs = (case find (\<lambda>x. f x = k \<and> P x) xs of None \<Rightarrow> [] | Some x \<Rightarrow> [x])"
  using assms
proof (induction xs)
  case (Cons y ys)
  then have ys: "unique_on P f ys" by (simp add: unique_on_def split: if_splits)
  show ?case
  proof (cases "f y = k \<and> P y")
    case True
    then have "\<forall>x \<in> set ys. \<not> (f x = k \<and> P x)" using Cons.prems by (fastforce simp: unique_on_def image_iff)
    with True show ?thesis by (simp add: filter_empty_conv)
  qed (use Cons.IH [OF ys] in auto)
qed simp

lemma live_trip_from_db_find:
  assumes "unique_on is_live tr_helper_id (db_trips db)"
  shows "live_trip_from_db db h = Inr (find (\<lambda>t. tr_helper_id t = h \<and> is_live t) (db_trips db))"
  unfolding live_trip_from_db_def unique_filter [OF assms] by (simp split: option.split)

lemma db_ok_live: "db_ok db \<Longrightarrow> unique_on is_live tr_helper_id (db_trips db)"
  by (simp add: db_ok_def trips_ok_def)

lemma cached_trip_time:
  "cached_trip uuid_of uuid_text now r h = Some a \<Longrightarrow> now' \<le> now \<Longrightarrow> cached_trip uuid_of uuid_text now' r h = Some a"
  by (auto simp: cached_trip_def dest: redis_expires split: option.splits)

text \<open>Time only takes entries away, so a coherent cache stays coherent.\<close>

lemma coherent_later:
  "coherent (cached_trip uuid_of uuid_text now) live_trip db r \<Longrightarrow> now \<le> now' \<Longrightarrow>
     coherent (cached_trip uuid_of uuid_text now') live_trip db r"
  unfolding coherent_def using cached_trip_time by blast

text \<open>The texts of ids as the \<^verbatim>\<open>uuid\<close> module prints and reads them.\<close>

locale uuid_strings = codec uuid_text uuid_of "\<lambda>_. True"
  for uuid_text :: "uuid \<Rightarrow> string" and uuid_of :: "string \<Rightarrow> uuid option"

sublocale uuid_strings \<subseteq> trip_cache: cache_aside "cached_trip uuid_of uuid_text now" live_trip
    "cache_active True uuid_text now" "\<lambda>h. redis_delete (helper_trip_key (uuid_text h))" for now
  by unfold_locales (rule cached_trip_fill cached_trip_drop; simp add: dec_enc)+

context uuid_strings
begin

lemma get_active_live:
  assumes "coherent (cached_trip uuid_of uuid_text now) live_trip db r" "db_ok db"
  shows "fst (get_active_trip uuid_of uuid_text up1 up2 now db r h) = Inr (live_trip db h)"
proof (cases "if up1 then cached_trip uuid_of uuid_text now r h else None")
  case None
  then show ?thesis
    using db_ok_live [OF assms(2)]
    by (simp add: get_active_trip_def live_trip_from_db_find live_trip_def split: option.split)
next
  case (Some a)
  then have "cached_trip uuid_of uuid_text now r h = Some a" by (cases up1) auto
  with assms(1) have "live_trip db h = Some a" by (rule trip_cache.hit)
  with Some show ?thesis by (simp add: get_active_trip_def)
qed

lemma get_active_coherent:
  assumes "coherent (cached_trip uuid_of uuid_text now) live_trip db r" "db_ok db"
  shows "coherent (cached_trip uuid_of uuid_text now) live_trip db (snd (get_active_trip uuid_of uuid_text up1 up2 now db r h))"
proof -
  have "coherent (cached_trip uuid_of uuid_text now) live_trip db (cache_active up2 uuid_text now h (from_model t) r)"
    if "find (\<lambda>t. tr_helper_id t = h \<and> is_live t) (db_trips db) = Some t" for t
    using that assms(1)
    by (cases up2) (auto intro: trip_cache.fill_coherent simp: live_trip_def, simp add: cache_active_def)
  with assms(1) show ?thesis
    using db_ok_live [OF assms(2)]
    by (auto simp: get_active_trip_def live_trip_from_db_find split: option.split)
qed

lemma start_coherent:
  assumes "coherent (cached_trip uuid_of uuid_text now) live_trip db r"
    and "db' = db\<lparr>db_trips := db_trips db @ [t]\<rparr>" "db_ok db'" "is_live t"
  shows "coherent (cached_trip uuid_of uuid_text now) live_trip db' (cache_active_trip up uuid_text now t r)"
proof -
  have none: "find (\<lambda>x. tr_helper_id x = tr_helper_id t \<and> is_live x) (db_trips db) = None"
    using assms(2-4) by (auto simp: db_ok_def trips_ok_def unique_on_snoc find_None_iff)
  have find_snoc: "find P (xs @ [x]) = (case find P xs of None \<Rightarrow> if P x then Some x else None | Some y \<Rightarrow> Some y)"
    for P and xs :: "trip list" and x by (induction xs) auto
  have other: "live_trip db' j = live_trip db j" if "j \<noteq> tr_helper_id t" for j
    using that assms(2) by (simp add: live_trip_def find_snoc split: option.split)
  have own: "live_trip db' (tr_helper_id t) = Some (from_model t)"
    using assms(2,4) none by (simp add: live_trip_def find_snoc)
  show ?thesis
  proof (cases up)
    case True
    with trip_cache.write_fill [OF assms(1), of "tr_helper_id t" db' "from_model t"] other own
    show ?thesis by (simp add: cache_active_trip_def)
  next
    case False
    have "coherent (cached_trip uuid_of uuid_text now) live_trip db' r"
      unfolding coherent_def
    proof (intro allI impI)
      fix j a assume c: "cached_trip uuid_of uuid_text now r j = Some a"
      have src: "live_trip db j = Some a" using assms(1) c by (rule trip_cache.hit)
      then have "j \<noteq> tr_helper_id t" using none by (auto simp: live_trip_def)
      with src other show "live_trip db' j = Some a" by simp
    qed
    with False show ?thesis by (simp add: cache_active_trip_def cache_active_def)
  qed
qed

lemma end_coherent:
  assumes "coherent (cached_trip uuid_of uuid_text now) live_trip db r"
    and ok: "db_ok db" and t: "t \<in> set (db_trips db)" "is_live t"
  shows "coherent (cached_trip uuid_of uuid_text now) live_trip
    (db\<lparr>db_trips := row_edit tr_id (tr_id t) (finish_trip later) (db_trips db)\<rparr>)
    (redis_delete (helper_trip_key (uuid_text (tr_helper_id t))) r)"
proof (rule trip_cache.write_drop [OF assms(1)])
  fix j assume j: "j \<noteq> tr_helper_id t"
  have "find (\<lambda>x. tr_helper_id x = j \<and> is_live x) (row_edit tr_id (tr_id t) (finish_trip later) rows) =
      find (\<lambda>x. tr_helper_id x = j \<and> is_live x) rows"
    if "\<forall>x \<in> set rows. tr_id x = tr_id t \<longrightarrow> x = t" for rows
    using that j by (induction rows) (auto simp: finish_trip_def)
  moreover have "\<forall>x \<in> set (db_trips db). tr_id x = tr_id t \<longrightarrow> x = t"
    using ok t(1) by (auto simp: db_ok_def trips_ok_def distinct_map inj_on_def)
  ultimately show "live_trip (db\<lparr>db_trips := row_edit tr_id (tr_id t) (finish_trip later) (db_trips db)\<rparr>) j = live_trip db j"
    by (simp add: live_trip_def)
qed

end

text \<open>An instance: unary texts.\<close>

definition unary_text :: "uuid \<Rightarrow> string" where "unary_text i = replicate (Suc i) (CHR ''1'')"
definition unary_of :: "string \<Rightarrow> uuid option" where "unary_of s = Some (length s - 1)"

lemma unary: "unary_of (unary_text i) = Some i"
  by (simp add: unary_of_def unary_text_def)

interpretation unary: uuid_strings unary_text unary_of
  by unfold_locales (simp add: unary)

section \<open>Properties\<close>

lemma strings: "(\<And>i. uuid_of (uuid_text i) = Some i) \<Longrightarrow> uuid_strings uuid_text uuid_of"
  by unfold_locales simp

lemma get_active_is_live:
  assumes "\<And>i. uuid_of (uuid_text i) = Some i"
    and "coherent (cached_trip uuid_of uuid_text now) live_trip db r" "db_ok db"
  shows "fst (get_active_trip uuid_of uuid_text up_get up_set now db r helper_id) = Inr (live_trip db helper_id)"
  by (rule uuid_strings.get_active_live [OF strings [of uuid_of uuid_text, OF assms(1)] assms(2,3)])

text \<open>
  C16. The cached trip is invisible: while the cache answers only what the database would
  say, asking it gives the helper's live trip exactly as the database has it, whether Redis
  answers or not, and filling it keeps that so.
\<close>

theorem active_trip_is_the_live_one:
  assumes "\<And>i. uuid_of (uuid_text i) = Some i"
    and "coherent (cached_trip uuid_of uuid_text now) live_trip db r" "db_ok db"
    and "get_active_trip uuid_of uuid_text up_get up_set now db r helper_id = (answer, r')"
  shows "answer = Inr (live_trip db helper_id) \<and>
    coherent (cached_trip uuid_of uuid_text now) live_trip db r'"
proof -
  note s = strings [of uuid_of uuid_text, OF assms(1)]
  show ?thesis
    using uuid_strings.get_active_live [OF s assms(2,3), of up_get up_set helper_id]
      uuid_strings.get_active_coherent [OF s assms(2,3), of up_get up_set helper_id] assms(4) by simp
qed

definition empty_redis :: redis where
  "empty_redis = \<lparr>re_data = (\<lambda>_. None), re_stream = [], re_published = []\<rparr>"

lemma empty_coherent: "coherent (cached_trip uuid_of uuid_text now) live_trip db empty_redis"
  by (simp add: coherent_def cached_trip_def redis_get_def empty_redis_def)

theorem active_trip_is_the_live_one_witness:
  "fst (get_active_trip unary_of unary_text True True demo_now demo_db empty_redis 21) =
     Inr (Some \<lparr>at_trip_id = 71, at_bus_id = 31, at_route_id = 51\<rparr>)"
proof -
  obtain answer r' where g: "get_active_trip unary_of unary_text True True demo_now demo_db empty_redis 21 = (answer, r')"
    by (metis surj_pair)
  have "answer = Inr (live_trip demo_db 21)"
    using active_trip_is_the_live_one [OF unary empty_coherent demo_db_ok g] by simp
  with g show ?thesis by (simp add: live_trip_def from_model_def demo_defs)
qed

end
