(* ===== verification/HelperApi.thy ===== *)
theory HelperApi
  imports Trips
begin

text \<open>
  What the helper's app does on the road: \<^verbatim>\<open>app/api/routes/helper.py\<close> over
  \<^verbatim>\<open>app/services/trip.py\<close> and \<^verbatim>\<open>app/services/ops.py\<close>. A handler
  takes the database and Redis and gives both back with its answer; \<open>up1\<close>, \<open>up2\<close>,
  ... say whether Redis answers at each of its calls. The texts of ids, instants and numbers
  come from Python's own printing and are arguments.
\<close>

section \<open>Seat reports and alerts (app/services/ops.py)\<close>

fun severity_for :: "alert_type \<Rightarrow> alert_severity" where
  "severity_for Alert_sos = Severity_critical"
| "severity_for Alert_accident = Severity_critical"
| "severity_for Alert_harassment = Severity_critical"
| "severity_for Alert_breakdown = Severity_critical"
| "severity_for Alert_traffic_delay = Severity_warning"
| "severity_for Alert_overcrowding = Severity_warning"
| "severity_for Alert_off_route = Severity_warning"
| "severity_for Alert_over_speed = Severity_warning"
| "severity_for Alert_gps_blackout = Severity_warning"
| "severity_for Alert_other = Severity_info"

definition report_seats ::
  "uuid \<Rightarrow> instant \<Rightarrow> database \<Rightarrow> uuid \<Rightarrow> uuid \<Rightarrow> bus \<Rightarrow> int \<Rightarrow> instant option \<Rightarrow>
   db_error + seat_report \<times> database" where
  "report_seats new_id now db trip_id helper_id bus occupied reported_at =
     (let report = \<lparr>se_id = new_id, se_trip_id = trip_id, se_helper_id = helper_id, se_occupied = occupied,
            se_capacity_snapshot = bs_capacity bus,
            se_reported_at = (case reported_at of None \<Rightarrow> now | Some t \<Rightarrow> t)\<rparr> in
      case commit (db\<lparr>db_seat_reports := db_seat_reports db @ [report]\<rparr>) of
        Inl e \<Rightarrow> Inl e
      | Inr db' \<Rightarrow> Inr (report, db'))"

definition publish_seats ::
  "bool \<Rightarrow> (uuid \<Rightarrow> string) \<Rightarrow> (instant \<Rightarrow> string) \<Rightarrow> instant \<Rightarrow> redis \<Rightarrow> bus \<Rightarrow> uuid \<Rightarrow> int \<Rightarrow> instant \<Rightarrow>
   (handler_error + unit) \<times> redis" where
  "publish_seats up uuid_text iso_text now r bus trip_id occupied reported_at =
     (let key = bus_seats_key (uuid_text (bs_id bus)) in
      if up
      then (Inr (), redis_expire now key SEATS_TTL_S (redis_hset now key
             [(''occupied'', int_str occupied), (''capacity'', int_str (bs_capacity bus)),
              (''trip_id'', uuid_text trip_id), (''ts'', iso_text reported_at)] r))
      else (Inl UncaughtCache, r))"

definition new_alert ::
  "uuid \<Rightarrow> instant \<Rightarrow> alert_source \<Rightarrow> alert_type \<Rightarrow> uuid option \<Rightarrow> uuid option \<Rightarrow> uuid option \<Rightarrow>
   string option \<Rightarrow> real option \<Rightarrow> real option \<Rightarrow> alert" where
  "new_alert new_id now source alert_type raised_by trip_id bus_id message lat lng =
     \<lparr>al_id = new_id, al_created_at = now, al_source = source, al_raised_by = raised_by,
      al_trip_id = trip_id, al_bus_id = bus_id, al_type = alert_type,
      al_severity = severity_for alert_type, al_message = message, al_lat = lat, al_lng = lng,
      al_status = Alert_open, al_acknowledged_by = None, al_resolved_note = None, al_resolved_at = None\<rparr>"

definition raise_alert ::
  "uuid \<Rightarrow> instant \<Rightarrow> database \<Rightarrow> alert_source \<Rightarrow> alert_type \<Rightarrow> uuid option \<Rightarrow> uuid option \<Rightarrow> uuid option \<Rightarrow>
   string option \<Rightarrow> real option \<Rightarrow> real option \<Rightarrow> db_error + alert \<times> database" where
  "raise_alert new_id now db source alert_type raised_by trip_id bus_id message lat lng =
     (let alert = new_alert new_id now source alert_type raised_by trip_id bus_id message lat lng in
      case commit (db\<lparr>db_alerts := db_alerts db @ [alert]\<rparr>) of
        Inl e \<Rightarrow> Inl e
      | Inr db' \<Rightarrow> Inr (alert, db'))"

fun alert_type_str :: "alert_type \<Rightarrow> string" where
  "alert_type_str Alert_sos = ''sos''"
| "alert_type_str Alert_breakdown = ''breakdown''"
| "alert_type_str Alert_traffic_delay = ''traffic_delay''"
| "alert_type_str Alert_accident = ''accident''"
| "alert_type_str Alert_harassment = ''harassment''"
| "alert_type_str Alert_overcrowding = ''overcrowding''"
| "alert_type_str Alert_off_route = ''off_route''"
| "alert_type_str Alert_over_speed = ''over_speed''"
| "alert_type_str Alert_gps_blackout = ''gps_blackout''"
| "alert_type_str Alert_other = ''other''"

fun severity_str :: "alert_severity \<Rightarrow> string" where
  "severity_str Severity_critical = ''critical''"
| "severity_str Severity_warning = ''warning''"
| "severity_str Severity_info = ''info''"

text \<open>Publishing swallows every failure: the row is already in the database.\<close>

definition publish_alert ::
  "bool \<Rightarrow> (uuid \<Rightarrow> string) \<Rightarrow> (real \<Rightarrow> string) \<Rightarrow> redis \<Rightarrow> alert \<Rightarrow> uuid option \<Rightarrow> uuid option \<Rightarrow>
   real option \<Rightarrow> real option \<Rightarrow> redis" where
  "publish_alert up uuid_text float_text r alert bus_id trip_id lat lng =
     (let text = (\<lambda>x. case x of None \<Rightarrow> JNull | Some i \<Rightarrow> JStr (uuid_text i));
          num = (\<lambda>x. case x of None \<Rightarrow> JNull | Some v \<Rightarrow> JFloat (float_text v)) in
      if up
      then redis_publish alerts_channel (Doc [(''id'', JStr (uuid_text (al_id alert))),
             (''type'', JStr (alert_type_str (al_type alert))),
             (''severity'', JStr (severity_str (al_severity alert))),
             (''bus_id'', text bus_id), (''trip_id'', text trip_id),
             (''lat'', num lat), (''lng'', num lng)]) r
      else r)"

section \<open>The trip's start and end\<close>

fun trip_http :: "trip_error \<Rightarrow> handler_error" where
  "trip_http (InvalidTripTargetError s) = Http (HTTPException 400 s)"
| "trip_http (TripConflictError s) = Http (HTTPException 409 s)"
| "trip_http (TripNotFoundError s) = Http (HTTPException 409 s)"
| "trip_http MultipleResultsFound = Uncaught RuntimeError"

definition start_trip_route ::
  "(database \<Rightarrow> database) \<Rightarrow> bool \<Rightarrow> (uuid \<Rightarrow> string) \<Rightarrow> uuid \<Rightarrow> int \<Rightarrow> instant \<Rightarrow> database \<Rightarrow> redis \<Rightarrow>
   uuid \<Rightarrow> uuid \<Rightarrow> uuid \<Rightarrow> (handler_error + trip) \<times> database \<times> redis" where
  "start_trip_route env up uuid_text new_id service_date now db r helper_id bus_id route_id =
     (case start_trip env new_id service_date now db helper_id bus_id route_id of
        (Inl e, db') \<Rightarrow> (Inl (trip_http e), db', r)
      | (Inr trip, db') \<Rightarrow> (Inr trip, db', cache_active_trip up uuid_text now trip r))"

definition end_trip_route ::
  "bool \<Rightarrow> (uuid \<Rightarrow> string) \<Rightarrow> instant \<Rightarrow> database \<Rightarrow> redis \<Rightarrow> uuid \<Rightarrow>
   (handler_error + trip) \<times> database \<times> redis" where
  "end_trip_route up uuid_text now db r helper_id =
     (case end_trip now db helper_id of
        (Inl e, db') \<Rightarrow> (Inl (trip_http e), db', r)
      | (Inr trip, staged) \<Rightarrow>
          (case commit staged of
             Inl e \<Rightarrow> (Inl (UncaughtDb e), db, r)
           | Inr db' \<Rightarrow>
               (case clear_active_trip up uuid_text helper_id r of
                  (Inl e, r') \<Rightarrow> (Inl e, db', r')
                | (Inr _, r') \<Rightarrow> (Inr trip, db', r'))))"

definition get_active_trip_route ::
  "(string \<Rightarrow> uuid option) \<Rightarrow> (uuid \<Rightarrow> string) \<Rightarrow> bool \<Rightarrow> bool \<Rightarrow> instant \<Rightarrow> database \<Rightarrow> redis \<Rightarrow> uuid \<Rightarrow>
   (handler_error + active_trip option) \<times> redis" where
  "get_active_trip_route uuid_of uuid_text up1 up2 now db r helper_id =
     (case get_active_trip uuid_of uuid_text up1 up2 now db r helper_id of
        (Inl e, r') \<Rightarrow> (Inl (trip_http e), r')
      | (Inr a, r') \<Rightarrow> (Inr a, r'))"

section \<open>Seats and alerts from the bus\<close>

definition seat_report_ok :: "int \<Rightarrow> bool" where
  "seat_report_ok occupied \<longleftrightarrow> 0 \<le> occupied \<and> occupied \<le> 200"

record seat_state_out =
  so_trip_id :: uuid
  so_occupied :: int
  so_capacity :: int
  so_free :: int
  so_reported_at :: instant

definition report_seats_route ::
  "(string \<Rightarrow> uuid option) \<Rightarrow> (uuid \<Rightarrow> string) \<Rightarrow> (instant \<Rightarrow> string) \<Rightarrow> bool \<Rightarrow> bool \<Rightarrow> bool \<Rightarrow> uuid \<Rightarrow>
   instant \<Rightarrow> database \<Rightarrow> redis \<Rightarrow> uuid \<Rightarrow> int \<Rightarrow> instant option \<Rightarrow>
   (handler_error + seat_state_out) \<times> database \<times> redis" where
  "report_seats_route uuid_of uuid_text iso_text up1 up2 up3 new_id now db r0 helper_id occupied reported_at =
     (case get_active_trip uuid_of uuid_text up1 up2 now db r0 helper_id of
        (Inl e, r) \<Rightarrow> (Inl (trip_http e), db, r)
      | (Inr None, r) \<Rightarrow> (Inl (Http (HTTPException 409 ''Start a trip before reporting seats'')), db, r)
      | (Inr (Some active), r) \<Rightarrow>
          (case get_bus db (at_bus_id active) of
             None \<Rightarrow> (Inl (Http (HTTPException 404 ''Unknown bus'')), db, r)
           | Some bus \<Rightarrow>
               (case report_seats new_id now db (at_trip_id active) helper_id bus occupied reported_at of
                  Inl e \<Rightarrow> (Inl (UncaughtDb e), db, r)
                | Inr (report, db') \<Rightarrow>
                    (case publish_seats up3 uuid_text iso_text now r bus (at_trip_id active)
                        (se_occupied report) (se_reported_at report) of
                       (Inl e, r') \<Rightarrow> (Inl e, db', r')
                     | (Inr _, r') \<Rightarrow>
                         (Inr \<lparr>so_trip_id = at_trip_id active, so_occupied = se_occupied report,
                            so_capacity = se_capacity_snapshot report,
                            so_free = max (se_capacity_snapshot report - se_occupied report) 0,
                            so_reported_at = se_reported_at report\<rparr>, db', r')))))"

definition raise_alert_route ::
  "(string \<Rightarrow> uuid option) \<Rightarrow> (uuid \<Rightarrow> string) \<Rightarrow> (real \<Rightarrow> string) \<Rightarrow> bool \<Rightarrow> bool \<Rightarrow> bool \<Rightarrow> uuid \<Rightarrow>
   instant \<Rightarrow> database \<Rightarrow> redis \<Rightarrow> uuid \<Rightarrow> uuid \<Rightarrow> alert_type \<Rightarrow> string option \<Rightarrow> real option \<Rightarrow> real option \<Rightarrow>
   (handler_error + alert) \<times> database \<times> redis" where
  "raise_alert_route uuid_of uuid_text float_text up1 up2 up3 new_id now db r0 helper_id user_id
       alert_type message lat lng =
     (case get_active_trip uuid_of uuid_text up1 up2 now db r0 helper_id of
        (Inl e, r) \<Rightarrow> (Inl (trip_http e), db, r)
      | (Inr active, r) \<Rightarrow>
          (let trip_id = map_option at_trip_id active; bus_id = map_option at_bus_id active in
           case raise_alert new_id now db Source_helper alert_type (Some user_id) trip_id bus_id message lat lng of
             Inl e \<Rightarrow> (Inl (UncaughtDb e), db, r)
           | Inr (alert, db') \<Rightarrow>
               (Inr alert, db', publish_alert up3 uuid_text float_text r alert bus_id trip_id lat lng)))"

section \<open>Positions\<close>

record gps_point =
  gp_lat :: real
  gp_lng :: real
  gp_ts :: instant
  gp_speed :: "real option"
  gp_heading :: "real option"
  gp_accuracy :: "real option"

record gps_accepted =
  ga_accepted :: nat
  ga_bus_id :: uuid
  ga_trip_id :: uuid

text \<open>\<^verbatim>\<open>max(points, key=lambda p: p.ts)\<close>: the first of the latest points.\<close>

fun newest_point :: "gps_point list \<Rightarrow> gps_point option" where
  "newest_point [] = None"
| "newest_point (p # ps) = Some (foldl (\<lambda>best q. if gp_ts q > gp_ts best then q else best) p ps)"

definition opt_text :: "(real \<Rightarrow> string) \<Rightarrow> real option \<Rightarrow> string" where
  "opt_text float_text x = (case x of None \<Rightarrow> '''' | Some v \<Rightarrow> float_text v)"

definition stream_fields ::
  "(uuid \<Rightarrow> string) \<Rightarrow> (real \<Rightarrow> string) \<Rightarrow> (instant \<Rightarrow> string) \<Rightarrow> uuid \<Rightarrow> uuid \<Rightarrow> uuid \<Rightarrow> gps_point \<Rightarrow>
   (string \<times> string) list" where
  "stream_fields uuid_text float_text iso_text bus_id helper_id trip_id p =
     [(''bus_id'', uuid_text bus_id), (''helper_id'', uuid_text helper_id), (''trip_id'', uuid_text trip_id),
      (''ts'', iso_text (gp_ts p)), (''lat'', float_text (gp_lat p)), (''lng'', float_text (gp_lng p)),
      (''speed'', opt_text float_text (gp_speed p)), (''heading'', opt_text float_text (gp_heading p)),
      (''accuracy'', opt_text float_text (gp_accuracy p))]"

definition position_fields ::
  "(uuid \<Rightarrow> string) \<Rightarrow> (real \<Rightarrow> string) \<Rightarrow> (instant \<Rightarrow> string) \<Rightarrow> instant \<Rightarrow> uuid \<Rightarrow> gps_point \<Rightarrow>
   (string \<times> string) list" where
  "position_fields uuid_text float_text iso_text now trip_id p =
     [(''lat'', float_text (gp_lat p)), (''lng'', float_text (gp_lng p)),
      (''speed'', opt_text float_text (gp_speed p)), (''heading'', opt_text float_text (gp_heading p)),
      (''ts'', iso_text (gp_ts p)), (''trip_id'', uuid_text trip_id), (''ingested_at'', iso_text now)]"

text \<open>The pipeline: the live position and its announcement when the trip is live, then every point.\<close>

definition gps_pipeline ::
  "(uuid \<Rightarrow> string) \<Rightarrow> (real \<Rightarrow> string) \<Rightarrow> (instant \<Rightarrow> string) \<Rightarrow> instant \<Rightarrow> bool \<Rightarrow> uuid \<Rightarrow> uuid \<Rightarrow> uuid \<Rightarrow>
   gps_point list \<Rightarrow> redis \<Rightarrow> redis" where
  "gps_pipeline uuid_text float_text iso_text now live bus_id helper_id trip_id points r0 =
     (let key = bus_pos_key (uuid_text bus_id);
          r = (case (live, newest_point points) of
             (True, Some newest) \<Rightarrow>
               redis_publish fleet_channel (Plain (uuid_text bus_id @ '':'' @ float_text (gp_lat newest) @ '','' @
                   float_text (gp_lng newest)))
                 (redis_expire now key 60
                   (redis_hset now key (position_fields uuid_text float_text iso_text now trip_id newest) r0))
           | _ \<Rightarrow> r0) in
      foldl (\<lambda>r p. redis_xadd (stream_fields uuid_text float_text iso_text bus_id helper_id trip_id p) r) r points)"

text \<open>The dash of two messages, in UTF-8.\<close>

definition dash :: string where "dash = map char_of [226::nat, 128, 148]"

definition ingest_gps ::
  "(string \<Rightarrow> uuid option) \<Rightarrow> (uuid \<Rightarrow> string) \<Rightarrow> (real \<Rightarrow> string) \<Rightarrow> (instant \<Rightarrow> string) \<Rightarrow>
   bool \<Rightarrow> bool \<Rightarrow> bool \<Rightarrow> instant \<Rightarrow> database \<Rightarrow> redis \<Rightarrow> uuid \<Rightarrow> uuid \<Rightarrow> gps_point list \<Rightarrow>
   (handler_error + gps_accepted) \<times> redis" where
  "ingest_gps uuid_of uuid_text float_text iso_text up1 up2 up3 now db r0 helper_id batch_bus_id points =
     (let finish = (\<lambda>live bus_id trip_id r.
        if up3
        then (Inr \<lparr>ga_accepted = length points, ga_bus_id = bus_id, ga_trip_id = trip_id\<rparr>,
              gps_pipeline uuid_text float_text iso_text now live bus_id helper_id trip_id points r)
        else (Inl UncaughtCache, r)) in
      case get_active_trip uuid_of uuid_text up1 up2 now db r0 helper_id of
        (Inl e, r) \<Rightarrow> (Inl (trip_http e), r)
      | (Inr (Some active), r) \<Rightarrow>
          if batch_bus_id \<noteq> at_bus_id active
          then (Inl (Http (HTTPException 409
                 (''Live trip is on a different bus '' @ dash @ '' end the trip before switching''))), r)
          else finish True (at_bus_id active) (at_trip_id active) r
      | (Inr None, r) \<Rightarrow>
          (case recently_ended_trip now db helper_id batch_bus_id of
             None \<Rightarrow>
               if get_bus db batch_bus_id = None then (Inl (Http (HTTPException 404 ''Unknown bus'')), r)
               else (Inl (Http (HTTPException 409
                   (''No live trip on this bus '' @ dash @ '' start a trip before sending positions''))), r)
           | Some late \<Rightarrow> finish False (tr_bus_id late) (tr_id late) r))"

section \<open>Trips start and end\<close>

lemma db_ok_add_trip [inv_intros]:
  assumes "db_ok db" "tr_id t \<notin> tr_id ` set (db_trips db)"
    "is_live t \<Longrightarrow> \<forall>x \<in> set (db_trips db). is_live x \<longrightarrow> tr_bus_id x \<noteq> tr_bus_id t \<and> tr_helper_id x \<noteq> tr_helper_id t"
    "get_route db (tr_route_id t) \<noteq> None" "get_bus db (tr_bus_id t) \<noteq> None"
    "get_helper db (tr_helper_id t) \<noteq> None"
  shows "db_ok (db\<lparr>db_trips := db_trips db @ [t]\<rparr>)"
proof -
  have "fk_opt tr_id (db_trips db @ [t]) x" if "fk_opt tr_id (db_trips db) x" for x
    using that by (auto simp: fk_opt_def row_get_append split: option.splits)
  moreover have "row_get tr_id (db_trips db @ [t]) i \<noteq> None" if "get_trip db i \<noteq> None" for i
    using that by (rule row_get_snoc_mono)
  ultimately show ?thesis
    using assms by (auto simp: db_ok_def identity_ok_def fleet_ok_def trips_ok_def ops_ok_def orders_ok_def
        tickets_ok_def redemptions_ok_def list_all_iff unique_on_snoc)
qed

lemma unique_on_row_edit_off:
  assumes "unique_on P f rows" "\<And>r. \<not> P (g r)"
  shows "unique_on P f (row_edit k i g rows)"
proof -
  have sub: "set (filter P (row_edit k i g rs)) \<subseteq> set (filter P rs)" for rs
    using assms(2) by (induction rs) auto
  show ?thesis
    using assms(1)
  proof (induction rows)
    case (Cons r rs)
    then have IH: "unique_on P f (row_edit k i g rs)" by (simp add: unique_on_def split: if_splits)
    show ?case
    proof (cases "k r = i \<or> \<not> P r")
      case True
      with IH assms(2) show ?thesis by (auto simp: unique_on_def)
    next
      case False
      then have "f r \<notin> f ` set (filter P rs)" using Cons.prems by (simp add: unique_on_def)
      then have "f r \<notin> f ` set (filter P (row_edit k i g rs))" using sub [of rs] by blast
      with False IH show ?thesis by (simp add: unique_on_def)
    qed
  qed simp
qed

lemma db_ok_finish_trip [inv_intros]:
  assumes "db_ok db"
  shows "db_ok (db\<lparr>db_trips := row_edit tr_id i (finish_trip now) (db_trips db)\<rparr>)"
  using assms
  by (simp add: db_ok_defs map_row_edit row_get_edit_None list_all_row_edit fk_opt_edit finish_trip_def
      unique_on_row_edit_off)

lemma finish_ends_live:
  assumes "db_ok db" "t \<in> set (db_trips db)" "is_live t"
  shows "live_trip (db\<lparr>db_trips := row_edit tr_id (tr_id t) (finish_trip now) (db_trips db)\<rparr>) (tr_helper_id t) = None"
proof -
  let ?rows = "row_edit tr_id (tr_id t) (finish_trip now) (db_trips db)"
  have "x = t" if "x \<in> set (db_trips db)" "is_live x" "tr_helper_id x = tr_helper_id t" for x
    using unique_onD [OF db_ok_live [OF assms(1)] that(1) assms(2) that(2) assms(3) that(3)] .
  then have "\<forall>x \<in> set ?rows. \<not> (tr_helper_id x = tr_helper_id t \<and> is_live x)"
    by (auto simp: finish_trip_def elim!: in_row_editE)
  then show ?thesis by (auto simp: live_trip_def find_None_iff)
qed

lemma start_when_free:
  assumes "db_ok db" "get_trip db new_id = None" "get_helper db helper_id \<noteq> None"
    and "get_bus db bus_id = Some b" "bs_status b = Bus_active" "get_route db route_id = Some x" "rt_is_active x"
    and "\<not> (\<exists>t \<in> set (db_trips db). is_live t \<and> (tr_bus_id t = bus_id \<or> tr_helper_id t = helper_id))"
    and "t = new_trip new_id service_date now helper_id bus_id route_id"
  shows "start_trip_route (\<lambda>d. d) up uuid_text new_id service_date now db r helper_id bus_id route_id =
      (Inr t, db\<lparr>db_trips := db_trips db @ [t]\<rparr>, cache_active_trip up uuid_text now t r)"
    and "db_ok (db\<lparr>db_trips := db_trips db @ [t]\<rparr>)"
proof -
  show ok: "db_ok (db\<lparr>db_trips := db_trips db @ [t]\<rparr>)"
    using assms by (intro db_ok_add_trip) (auto simp: row_get_None_iff new_trip_def)
  then show "start_trip_route (\<lambda>d. d) up uuid_text new_id service_date now db r helper_id bus_id route_id =
      (Inr t, db\<lparr>db_trips := db_trips db @ [t]\<rparr>, cache_active_trip up uuid_text now t r)"
    using assms(4-7,9) by (simp add: start_trip_route_def start_trip_def Let_def)
qed

lemma start_when_busy:
  assumes "db_ok db" "get_bus db bus_id = Some b" "bs_status b = Bus_active" "get_route db route_id = Some x" "rt_is_active x"
    and "t \<in> set (db_trips db)" "is_live t" "tr_bus_id t = bus_id \<or> tr_helper_id t = helper_id"
  shows "start_trip_route (\<lambda>d. d) up uuid_text new_id service_date now db r helper_id bus_id route_id =
    (Inl (Http (HTTPException 409 ''Bus or helper is already on a live trip'')), db, r)"
proof -
  let ?new = "db\<lparr>db_trips := db_trips db @ [new_trip new_id service_date now helper_id bus_id route_id]\<rparr>"
  have "\<not> db_ok ?new" using assms(6-8) by (auto simp: db_ok_def trips_ok_def unique_on_snoc new_trip_def)
  then have "commit ?new = Inl IntegrityError" using commit_same_boardings [OF assms(1), of ?new] by simp
  with assms(2-5) show ?thesis by (simp add: start_trip_route_def start_trip_def Let_def)
qed

text \<open>
  C17. Starting a trip works exactly when the bus and the route are in service and neither
  the bus nor the helper is on a live trip: then one live trip of that helper, bus and route is
  added, the constraints hold, and the cached copies stay true; otherwise the helper is told
  (400 or 409) and nothing changes.
\<close>

theorem trip_starts_exactly_when_free:
  assumes "start_trip_route (\<lambda>d. d) up uuid_text new_id service_date now db r helper_id bus_id route_id =
      (answer, db', r')"
    and "db_ok db" "get_trip db new_id = None" "get_helper db helper_id \<noteq> None"
    and "\<And>i. uuid_of (uuid_text i) = Some i"
    and "coherent (cached_trip uuid_of uuid_text now) live_trip db r"
  shows "coherent (cached_trip uuid_of uuid_text now) live_trip db' r' \<and> db_ok db' \<and>
    (if (\<exists>b. get_bus db bus_id = Some b \<and> bs_status b = Bus_active) \<and>
        (\<exists>x. get_route db route_id = Some x \<and> rt_is_active x) \<and>
        \<not> (\<exists>t \<in> set (db_trips db). is_live t \<and> (tr_bus_id t = bus_id \<or> tr_helper_id t = helper_id))
     then (\<exists>t. answer = Inr t \<and> db' = db\<lparr>db_trips := db_trips db @ [t]\<rparr> \<and> is_live t \<and> tr_id t = new_id \<and>
        tr_helper_id t = helper_id \<and> tr_bus_id t = bus_id \<and> tr_route_id t = route_id)
     else db' = db \<and> r' = r \<and> (\<exists>n s. answer = Inl (Http (HTTPException n s)) \<and> n \<in> {400, 409}))"
proof -
  let ?t = "new_trip new_id service_date now helper_id bus_id route_id"
  let ?new = "db\<lparr>db_trips := db_trips db @ [?t]\<rparr>"
  have t: "is_live ?t" "tr_id ?t = new_id" "tr_helper_id ?t = helper_id" "tr_bus_id ?t = bus_id"
    "tr_route_id ?t = route_id" by (simp_all add: new_trip_def)
  show ?thesis
  proof (cases "(\<exists>b. get_bus db bus_id = Some b \<and> bs_status b = Bus_active) \<and>
      (\<exists>x. get_route db route_id = Some x \<and> rt_is_active x)")
    case False
    then have "db' = db \<and> r' = r \<and> (\<exists>n s. answer = Inl (Http (HTTPException n s)) \<and> n \<in> {400, 409})"
      using assms(1) by (auto simp: start_trip_route_def start_trip_def split: option.splits if_splits)
    with False assms(2,6) show ?thesis by auto
  next
    case True
    then obtain b x where bx: "get_bus db bus_id = Some b" "bs_status b = Bus_active"
      "get_route db route_id = Some x" "rt_is_active x" by blast
    show ?thesis
    proof (cases "\<exists>t \<in> set (db_trips db). is_live t \<and> (tr_bus_id t = bus_id \<or> tr_helper_id t = helper_id)")
      case busy: True
      then obtain t where "t \<in> set (db_trips db)" "is_live t" "tr_bus_id t = bus_id \<or> tr_helper_id t = helper_id" by blast
      with start_when_busy [OF assms(2) bx] assms(1)
      have "answer = Inl (Http (HTTPException 409 ''Bus or helper is already on a live trip''))" "db' = db" "r' = r" by auto
      with busy assms(2,6) show ?thesis by auto
    next
      case free: False
      note f = start_when_free [OF assms(2-4) bx free refl]
      with assms(1) have a: "answer = Inr ?t" "db' = ?new" "r' = cache_active_trip up uuid_text now ?t r" by simp_all
      have "coherent (cached_trip uuid_of uuid_text now) live_trip db' r'"
        unfolding a
        by (rule uuid_strings.start_coherent [OF strings [of uuid_of uuid_text, OF assms(5)] assms(6) refl f(2) t(1)])
      with a f(2) bx free t show ?thesis by auto
    qed
  qed
qed

definition idle_db :: database where
  "idle_db = demo_db\<lparr>db_trips := []\<rparr>"

lemma idle_db_ok: "db_ok idle_db"
  by (simp add: db_ok_defs idle_db_def demo_defs unique_on_def fk_opt_def)

theorem trip_starts_exactly_when_free_witness:
  "\<exists>t db' r'. start_trip_route (\<lambda>d. d) True unary_text 71 19675 demo_now idle_db empty_redis 21 31 51 = (Inr t, db', r') \<and>
     db_ok db' \<and> is_live t \<and> live_trip db' 21 = Some \<lparr>at_trip_id = 71, at_bus_id = 31, at_route_id = 51\<rparr>"
proof -
  obtain answer db' r' where s: "start_trip_route (\<lambda>d. d) True unary_text 71 19675 demo_now idle_db empty_redis 21 31 51
      = (answer, db', r')" by (metis surj_pair)
  have pre: "get_trip idle_db 71 = None" "get_helper idle_db 21 \<noteq> None" "db_trips idle_db = []"
    "get_bus idle_db 31 = Some demo_bus" "get_route idle_db 51 = Some demo_route"
    "bs_status demo_bus = Bus_active" "rt_is_active demo_route"
    by (simp_all add: idle_db_def demo_defs)
  from trip_starts_exactly_when_free [OF s idle_db_ok pre(1,2) unary empty_coherent] pre(3-)
  obtain t where "answer = Inr t" "db' = idle_db\<lparr>db_trips := [t]\<rparr>" "is_live t" "tr_id t = 71" "tr_helper_id t = 21"
    "tr_bus_id t = 31" "tr_route_id t = 51" "db_ok db'" by auto
  with s show ?thesis by (simp add: live_trip_def from_model_def)
qed

text \<open>
  Ending a trip with Redis there takes the helper off the road for good: the trip is
  completed with its end time, the helper has no live trip, neither the database nor the cache
  names one, and the constraints hold.
\<close>

theorem ended_trip_is_over:
  assumes "end_trip_route True uuid_text now db r helper_id = (answer, db', r')"
    and "db_ok db" "\<And>i. uuid_of (uuid_text i) = Some i"
    and "coherent (cached_trip uuid_of uuid_text now) live_trip db r"
  shows "coherent (cached_trip uuid_of uuid_text now) live_trip db' r' \<and> db_ok db' \<and>
    (case live_trip db helper_id of
       None \<Rightarrow> answer = Inl (Http (HTTPException 409 ''No live trip for this helper'')) \<and> db' = db \<and> r' = r
     | Some a \<Rightarrow> (\<exists>t. answer = Inr t \<and> tr_id t = at_trip_id a \<and> tr_status t = Trip_completed \<and>
         tr_actual_end t = Some now \<and> t \<in> set (db_trips db')) \<and>
         live_trip db' helper_id = None \<and> cached_trip uuid_of uuid_text now r' helper_id = None)"
proof (cases "find (\<lambda>t. tr_helper_id t = helper_id \<and> is_live t) (db_trips db)")
  case None
  with assms show ?thesis
    by (simp add: end_trip_route_def end_trip_def live_trip_from_db_find [OF db_ok_live] live_trip_def)
next
  case (Some t)
  then have t: "t \<in> set (db_trips db)" "tr_helper_id t = helper_id" "is_live t"
    by (auto simp: find_Some_iff)
  let ?new = "db\<lparr>db_trips := row_edit tr_id (tr_id t) (finish_trip now) (db_trips db)\<rparr>"
  have ok: "db_ok ?new" using assms(2) by (rule db_ok_finish_trip)
  note s = strings [of uuid_of uuid_text, OF assms(3)]
  have a: "answer = Inr (finish_trip now t)" "db' = ?new"
      "r' = redis_delete (helper_trip_key (uuid_text helper_id)) r"
    using assms(1) Some ok
    by (simp_all add: end_trip_route_def end_trip_def live_trip_from_db_find [OF db_ok_live [OF assms(2)]]
        clear_active_trip_def)
  have "coherent (cached_trip uuid_of uuid_text now) live_trip db' r'"
    unfolding a using uuid_strings.end_coherent [OF s assms(4,2) t(1,3)] by (simp add: t(2))
  moreover have "live_trip db' helper_id = None"
    using finish_ends_live [OF assms(2) t(1,3)] t(2) a(2) by simp
  moreover have "cached_trip uuid_of uuid_text now r' helper_id = None"
    by (simp add: a(3) cached_trip_def)
  moreover have "finish_trip now t \<in> set (db_trips ?new)" using t(1) by (auto simp: set_row_edit)
  ultimately show ?thesis
    using ok Some by (auto simp: a live_trip_def from_model_def finish_trip_def)
qed

theorem ended_trip_is_over_witness:
  "\<exists>t db' r'. end_trip_route True unary_text demo_now demo_db empty_redis 21 = (Inr t, db', r') \<and>
     tr_status t = Trip_completed \<and> live_trip db' 21 = None"
proof -
  obtain answer db' r' where e: "end_trip_route True unary_text demo_now demo_db empty_redis 21 = (answer, db', r')"
    by (metis surj_pair)
  have "live_trip demo_db 21 = Some \<lparr>at_trip_id = 71, at_bus_id = 31, at_route_id = 51\<rparr>"
    by (simp add: live_trip_def from_model_def demo_defs)
  with ended_trip_is_over [OF e demo_db_ok unary empty_coherent] e show ?thesis by auto
qed

section \<open>Positions\<close>

lemma xadd_all:
  "re_stream (foldl (\<lambda>r p. redis_xadd (f p) r) r ps) = re_stream r @ map f ps"
  "re_data (foldl (\<lambda>r p. redis_xadd (f p) r) r ps) = re_data r"
  "re_published (foldl (\<lambda>r p. redis_xadd (f p) r) r ps) = re_published r"
  by (induction ps arbitrary: r) (simp_all add: redis_xadd_def)

lemma pipeline_stream:
  "re_stream (gps_pipeline uuid_text float_text iso_text now live bus_id helper_id trip_id ps r) =
     re_stream r @ map (stream_fields uuid_text float_text iso_text bus_id helper_id trip_id) ps"
  by (simp add: gps_pipeline_def xadd_all Let_def split: bool.split option.split)

lemma pipeline_late:
  "re_data (gps_pipeline uuid_text float_text iso_text now False bus_id helper_id trip_id ps r) = re_data r"
  "re_published (gps_pipeline uuid_text float_text iso_text now False bus_id helper_id trip_id ps r) = re_published r"
  by (simp_all add: gps_pipeline_def xadd_all Let_def)

lemma pipeline_other_key:
  assumes "k \<noteq> bus_pos_key (uuid_text bus_id)"
  shows "redis_get (gps_pipeline uuid_text float_text iso_text now live bus_id helper_id trip_id ps r) t k = redis_get r t k"
proof -
  have "redis_get (foldl (\<lambda>r p. redis_xadd (f p) r) q ps) t k = redis_get q t k" for f q
    by (induction ps arbitrary: q) simp_all
  with assms show ?thesis by (auto simp: gps_pipeline_def Let_def split: bool.split option.split)
qed

lemma recently_ended_drains: "recently_ended_trip now db h b = Some t \<Longrightarrow> t \<in> set (db_trips db) \<and> drains now h b t"
proof -
  assume "recently_ended_trip now db h b = Some t"
  then obtain ts where "sort_key (\<lambda>t. - (case tr_actual_end t of None \<Rightarrow> 0 | Some e \<Rightarrow> e))
      (filter (drains now h b) (db_trips db)) = t # ts"
    by (auto simp: recently_ended_trip_def split: list.splits)
  then have "t \<in> set (filter (drains now h b) (db_trips db))"
    by (metis list.set_intros(1) set_sort)
  then show ?thesis by simp
qed

lemma find_SomeD: "find P xs = Some x \<Longrightarrow> x \<in> set xs \<and> P x"
  by (induction xs) (auto split: if_splits)

lemma live_trip_SomeD:
  assumes "live_trip db h = Some a"
  obtains t where "t \<in> set (db_trips db)" "is_live t" "tr_helper_id t = h" "a = from_model t"
  using assms by (auto simp: live_trip_def dest!: find_SomeD)

lemma get_active_stream [simp]:
  "re_stream (snd (get_active_trip uuid_of uuid_text up1 up2 now db r h)) = re_stream r"
  by (auto simp: get_active_trip_def cache_active_def split: option.split sum.split)

text \<open>
  C15. While the cached trips agree with the database, a phone can only report the bus its helper drives or has just driven: every accepted
  batch is filed under a trip of this helper on the named bus that is live or ended at most 12
  hours ago; exactly its points are appended to the stream, under that trip, in order; and a
  batch of a finished trip leaves every live position and every announcement alone. (A deletion that Redis missed when a trip
  ended leaves the cache behind: \<open>failed_clear_keeps_trip_on_map\<close>.)
\<close>

theorem gps_filed_under_own_trip:
  assumes "ingest_gps uuid_of uuid_text float_text iso_text up1 up2 up3 now db r helper_id bus_id points = (Inr out, r')"
    and "db_ok db" "\<And>i. uuid_of (uuid_text i) = Some i"
    and "coherent (cached_trip uuid_of uuid_text now) live_trip db r"
  shows "\<exists>t \<in> set (db_trips db). tr_id t = ga_trip_id out \<and> tr_helper_id t = helper_id \<and> tr_bus_id t = bus_id \<and>
    ga_bus_id out = bus_id \<and> ga_accepted out = length points \<and>
    re_stream r' = re_stream r @ map (stream_fields uuid_text float_text iso_text bus_id helper_id (tr_id t)) points \<and>
    (is_live t \<or> drains now helper_id bus_id t \<and> re_published r' = re_published r \<and>
       (\<forall>b. redis_get r' now (bus_pos_key b) = redis_get r now (bus_pos_key b)))"
proof -
  obtain r1 where g: "get_active_trip uuid_of uuid_text up1 up2 now db r helper_id = (Inr (live_trip db helper_id), r1)"
    using get_active_is_live [OF assms(3,4,2)] by (metis prod.collapse)
  have r1: "re_stream r1 = re_stream r" "re_published r1 = re_published r"
      "redis_get r1 now (bus_pos_key b) = redis_get r now (bus_pos_key b)" for b
    using arg_cong [OF g, of snd] by (auto simp: get_active_trip_def cache_active_def redis_set_def redis_get_def
        split: option.splits sum.splits if_splits)
  show ?thesis
  proof (cases "live_trip db helper_id")
    case (Some a)
    then obtain t where t: "t \<in> set (db_trips db)" "is_live t" "tr_helper_id t = helper_id" "a = from_model t"
      by (rule live_trip_SomeD)
    with assms(1) g Some show ?thesis
      by (intro bexI [of _ t]) (auto simp: ingest_gps_def from_model_def pipeline_stream r1 split: if_splits)
  next
    case None
    then obtain t where t: "recently_ended_trip now db helper_id bus_id = Some t"
      using assms(1) g by (auto simp: ingest_gps_def split: option.splits if_splits)
    note d = recently_ended_drains [OF t]
    then have "tr_bus_id t = bus_id" "tr_helper_id t = helper_id" by (auto simp: drains_def)
    with assms(1) g None t d show ?thesis
      by (intro bexI [of _ t])
        (auto simp: ingest_gps_def pipeline_stream pipeline_late r1 redis_get_def [of "gps_pipeline _ _ _ _ _ _ _ _ _ _"]
          simp flip: redis_get_def split: if_splits)
  qed
qed

definition demo_point :: gps_point where
  "demo_point = \<lparr>gp_lat = 23, gp_lng = 90, gp_ts = demo_now, gp_speed = None, gp_heading = None, gp_accuracy = None\<rparr>"

theorem gps_filed_under_own_trip_witness:
  "\<exists>out r'. ingest_gps unary_of unary_text (\<lambda>_. ''x'') (\<lambda>_. ''t'') True True True demo_now demo_db empty_redis 21 31 [demo_point]
      = (Inr out, r') \<and> ga_trip_id out = 71 \<and> length (re_stream r') = 1"
proof -
  have live: "live_trip demo_db 21 = Some \<lparr>at_trip_id = 71, at_bus_id = 31, at_route_id = 51\<rparr>"
    by (simp add: live_trip_def from_model_def demo_defs)
  obtain r1 where "get_active_trip unary_of unary_text True True demo_now demo_db empty_redis 21
      = (Inr (live_trip demo_db 21), r1)"
    using get_active_is_live [OF unary empty_coherent demo_db_ok] by (metis prod.collapse)
  then obtain out r' where i: "ingest_gps unary_of unary_text (\<lambda>_. ''x'') (\<lambda>_. ''t'') True True True demo_now demo_db
      empty_redis 21 31 [demo_point] = (Inr out, r')" and out: "ga_trip_id out = 71"
    by (simp add: ingest_gps_def live)
  from gps_filed_under_own_trip [OF i demo_db_ok unary empty_coherent]
  have "length (re_stream r') = 1" by (auto simp: empty_redis_def)
  with i out show ?thesis by blast
qed

section \<open>Alerts\<close>

lemma live_trip_fk:
  assumes "db_ok db" "live_trip db h = Some a"
  shows "get_trip db (at_trip_id a) \<noteq> None \<and> get_bus db (at_bus_id a) \<noteq> None"
proof -
  obtain t where t: "t \<in> set (db_trips db)" "a = from_model t"
    using assms(2) by (rule live_trip_SomeD)
  moreover have "get_trip db (tr_id t) = Some t"
    using t(1) assms(1) by (intro row_get_mem) (simp_all add: db_ok_def trips_ok_def)
  ultimately show ?thesis
    using assms(1) by (auto simp: from_model_def db_ok_def trips_ok_def list_all_iff)
qed

text \<open>
  An alert from a bus is never refused and never lost: with or without a live trip, and
  whether or not Redis answers, the row is committed open, attributed to its raiser and to the
  live trip and bus if there is one, and its severity is the server's own for its type.
\<close>

theorem alert_is_always_recorded:
  assumes "raise_alert_route uuid_of uuid_text float_text up1 up2 up3 new_id now db r helper_id user_id
      ty msg lat lng = (answer, db', r')"
    and "db_ok db" "\<And>i. uuid_of (uuid_text i) = Some i"
    and "coherent (cached_trip uuid_of uuid_text now) live_trip db r"
    and "get_alert db new_id = None" "get_user db user_id \<noteq> None"
  shows "\<exists>a. answer = Inr a \<and> db' = db\<lparr>db_alerts := db_alerts db @ [a]\<rparr> \<and> db_ok db' \<and>
    al_status a = Alert_open \<and> al_raised_by a = Some user_id \<and> al_type a = ty \<and>
    al_severity a = severity_for ty \<and> al_message a = msg \<and>
    al_trip_id a = map_option at_trip_id (live_trip db helper_id) \<and>
    al_bus_id a = map_option at_bus_id (live_trip db helper_id)"
proof -
  let ?live = "live_trip db helper_id"
  obtain r1 where g: "get_active_trip uuid_of uuid_text up1 up2 now db r helper_id = (Inr ?live, r1)"
    using get_active_is_live [OF assms(3,4,2)] by (metis prod.collapse)
  define a where "a = new_alert new_id now Source_helper ty (Some user_id)
    (map_option at_trip_id ?live) (map_option at_bus_id ?live) msg lat lng"
  have fk: "fk_opt tr_id (db_trips db) (map_option at_trip_id ?live)"
    "fk_opt bs_id (db_buses db) (map_option at_bus_id ?live)"
    using live_trip_fk [OF assms(2)] by (cases ?live; simp add: fk_opt_def)+
  have ok: "db_ok (db\<lparr>db_alerts := db_alerts db @ [a]\<rparr>)"
    using assms(2,5,6) fk
    by (intro db_ok_add_alert) (auto simp: a_def new_alert_def fk_opt_def row_get_None_iff)
  have "answer = Inr a" "db' = db\<lparr>db_alerts := db_alerts db @ [a]\<rparr>"
    using assms(1) g ok by (simp_all add: raise_alert_route_def raise_alert_def Let_def a_def [symmetric])
  with ok show ?thesis by (auto simp: a_def new_alert_def)
qed

theorem alert_is_always_recorded_witness:
  "\<exists>a db' r'. raise_alert_route unary_of unary_text (\<lambda>_. ''x'') False False False 201 demo_now demo_db empty_redis 21 2
      Alert_sos None None None = (Inr a, db', r') \<and> al_severity a = Severity_critical \<and> al_bus_id a = Some 31"
proof -
  obtain answer db' r' where e: "raise_alert_route unary_of unary_text (\<lambda>_. ''x'') False False False 201 demo_now demo_db
      empty_redis 21 2 Alert_sos None None None = (answer, db', r')" by (metis prod_cases3)
  have "live_trip demo_db 21 = Some \<lparr>at_trip_id = 71, at_bus_id = 31, at_route_id = 51\<rparr>"
    "get_alert demo_db 201 = None" "get_user demo_db 2 \<noteq> None"
    by (simp_all add: live_trip_def from_model_def demo_defs)
  with alert_is_always_recorded [OF e demo_db_ok unary empty_coherent] e show ?thesis by auto
qed

section \<open>Seats\<close>

text \<open>
  A seat report is answered with the bus's own capacity, never a negative number of free
  seats, and is recorded under the helper's live trip; without a live trip it is refused with
  409 and nothing is written.
\<close>

theorem seat_report_needs_live_trip:
  assumes "report_seats_route uuid_of uuid_text iso_text up1 up2 up3 new_id now db r helper_id occupied taken_at = (answer, db', r')"
    and "db_ok db" "\<And>i. uuid_of (uuid_text i) = Some i"
    and "coherent (cached_trip uuid_of uuid_text now) live_trip db r"
  shows "(live_trip db helper_id = None \<longrightarrow> db' = db \<and>
      answer = Inl (Http (HTTPException 409 ''Start a trip before reporting seats''))) \<and>
    (\<forall>out. answer = Inr out \<longrightarrow> (\<exists>a b s. live_trip db helper_id = Some a \<and> get_bus db (at_bus_id a) = Some b \<and>
       so_trip_id out = at_trip_id a \<and> so_capacity out = bs_capacity b \<and>
       so_occupied out = occupied \<and> 0 \<le> so_free out \<and>
       so_free out = max (bs_capacity b - occupied) 0 \<and>
       db' = db\<lparr>db_seat_reports := db_seat_reports db @ [s]\<rparr> \<and> db_ok db' \<and>
       se_trip_id s = at_trip_id a \<and> se_helper_id s = helper_id \<and> se_occupied s = occupied))"
proof -
  let ?live = "live_trip db helper_id"
  obtain r1 where g: "get_active_trip uuid_of uuid_text up1 up2 now db r helper_id = (Inr ?live, r1)"
    using get_active_is_live [OF assms(3,4,2)] by (metis prod.collapse)
  show ?thesis
  proof (cases ?live)
    case None
    with g assms(1) show ?thesis by (auto simp: report_seats_route_def)
  next
    case (Some a)
    with g assms(1) show ?thesis
      by (auto simp: report_seats_route_def report_seats_def Let_def split: option.splits sum.splits prod.splits)
  qed
qed

theorem seat_report_needs_live_trip_witness:
  "fst (report_seats_route unary_of unary_text (\<lambda>_. ''t'') True True True 301 demo_now idle_db empty_redis 21 12 None)
     = Inl (Http (HTTPException 409 ''Start a trip before reporting seats''))"
proof -
  obtain answer db' r' where e: "report_seats_route unary_of unary_text (\<lambda>_. ''t'') True True True 301 demo_now idle_db
      empty_redis 21 12 None = (answer, db', r')" by (metis prod_cases3)
  have "live_trip idle_db 21 = None" by (simp add: live_trip_def idle_db_def)
  with seat_report_needs_live_trip [OF e idle_db_ok unary empty_coherent] e show ?thesis by simp
qed

section \<open>A failed clean-up\<close>

text \<open>
  The key of an ended trip is dropped without a handler around it. When Redis is away for
  that one call the helper gets an error for a trip that has ended, and the cached copy lives
  on: for up to 16 hours every batch is still filed as live and moves the bus on the map.
\<close>

theorem failed_clear_keeps_trip_on_map:
  assumes "live_trip db helper_id = Some a" "db_ok db"
    and "cached_trip uuid_of uuid_text later r helper_id = Some a" "up1"
  shows "\<exists>db'. end_trip_route False uuid_text now db r helper_id = (Inl UncaughtCache, db', r) \<and>
    live_trip db' helper_id = None \<and>
    fst (ingest_gps uuid_of uuid_text float_text iso_text up1 up2 True later db' r helper_id (at_bus_id a) points)
      = Inr \<lparr>ga_accepted = length points, ga_bus_id = at_bus_id a, ga_trip_id = at_trip_id a\<rparr>"
proof -
  obtain t where t: "find (\<lambda>t. tr_helper_id t = helper_id \<and> is_live t) (db_trips db) = Some t"
    using assms(1) by (auto simp: live_trip_def)
  then have t': "t \<in> set (db_trips db)" "tr_helper_id t = helper_id" "is_live t" by (auto dest: find_SomeD)
  let ?db = "db\<lparr>db_trips := row_edit tr_id (tr_id t) (finish_trip now) (db_trips db)\<rparr>"
  have "db_ok ?db" using assms(2) by (rule db_ok_finish_trip)
  then have "end_trip_route False uuid_text now db r helper_id = (Inl UncaughtCache, ?db, r)"
    using t by (simp add: end_trip_route_def end_trip_def live_trip_from_db_find [OF db_ok_live [OF assms(2)]]
        clear_active_trip_def)
  moreover have "live_trip ?db helper_id = None"
    using finish_ends_live [OF assms(2) t'(1,3)] t'(2) by simp
  moreover have "get_active_trip uuid_of uuid_text up1 up2 later ?db r helper_id = (Inr (Some a), r)"
    using assms(3,4) by (simp add: get_active_trip_def)
  ultimately show ?thesis by (auto simp: ingest_gps_def)
qed

end
