(* ===== verification/FleetView.thy ===== *)
theory FleetView
  imports HelperApi
begin

text \<open>
  Reading a bus off its cached texts: \<^verbatim>\<open>app/services/fleet_view.py\<close>. What arrives from
  Redis are strings a phone once sent, so every decoder is total and answers \<open>None\<close> for
  what it cannot read. \<open>iso_of\<close> is \<^verbatim>\<open>datetime.fromisoformat\<close>, with an instant
  that carries no offset read as UTC, as \<^verbatim>\<open>age_seconds\<close> and
  \<^verbatim>\<open>minutes_until\<close> do; numbers are Python's own (\<open>pyfloat\<close>).
\<close>

datatype gps_freshness = Gps_live | Gps_stale | Gps_lost

definition LIVE_MAX_AGE_S :: int where "LIVE_MAX_AGE_S = 60"

record position =
  ps_lat :: pyfloat
  ps_lng :: pyfloat
  ps_ts :: instant
  ps_heading :: "pyfloat option"
  ps_speed_kmh :: "pyfloat option"
  ps_ingested_at :: "instant option"

definition classify :: "int option \<Rightarrow> gps_freshness" where
  "classify age_s = (case age_s of None \<Rightarrow> Gps_lost | Some a \<Rightarrow> if a \<le> LIVE_MAX_AGE_S then Gps_live else Gps_stale)"

definition opt_float :: "string option \<Rightarrow> pyfloat option" where
  "opt_float value = (case value of None \<Rightarrow> None | Some s \<Rightarrow> if s = [] then None else py_float s)"

text \<open>\<^verbatim>\<open>round(value * 3.6, 1)\<close>: metres per second as km/h with one decimal.\<close>

definition ms_to_kmh :: "pyfloat option \<Rightarrow> pyfloat option" where
  "ms_to_kmh value = map_option (\<lambda>x. case x of
       Dec m e \<Rightarrow> if dec_overflows (m * 36) (e - 1) then Infinity (m < 0) else Dec (round_half_even (m * 36) e) (- 1)
     | y \<Rightarrow> y) value"

text \<open>An absent or empty \<^verbatim>\<open>ingested_at\<close> is a fix that predates the field.\<close>

definition received_at :: "(string \<Rightarrow> instant option) \<Rightarrow> string option \<Rightarrow> instant option option" where
  "received_at iso_of text =
     (case text of None \<Rightarrow> Some None | Some s \<Rightarrow> if s = [] then Some None else map_option Some (iso_of s))"

definition parse_position :: "(string \<Rightarrow> instant option) \<Rightarrow> (string \<times> string) list option \<Rightarrow> position option" where
  "parse_position iso_of raw =
     (case raw of
        None \<Rightarrow> None
      | Some fs \<Rightarrow>
          let field = map_of fs in
          (case (field ''lat'', field ''lng'', field ''ts'') of
             (Some lat, Some lng, Some ts) \<Rightarrow>
               (case (py_float lat, py_float lng, iso_of ts, received_at iso_of (field ''ingested_at'')) of
                  (Some x, Some y, Some t, Some received) \<Rightarrow>
                    Some \<lparr>ps_lat = x, ps_lng = y, ps_ts = t, ps_heading = opt_float (field ''heading''),
                      ps_speed_kmh = ms_to_kmh (opt_float (field ''speed'')), ps_ingested_at = received\<rparr>
                | _ \<Rightarrow> None)
           | _ \<Rightarrow> None))"

definition parse_seats :: "(string \<times> string) list option \<Rightarrow> int option \<times> int option" where
  "parse_seats raw =
     (case raw of
        None \<Rightarrow> (None, None)
      | Some fs \<Rightarrow>
          (case (map_of fs ''occupied'', map_of fs ''capacity'') of
             (Some o', Some c) \<Rightarrow>
               (case (py_int o', py_int c) of
                  (Some x, Some y) \<Rightarrow> (Some x, Some y)
                | _ \<Rightarrow> (None, None))
           | _ \<Rightarrow> (None, None)))"

text \<open>\<^verbatim>\<open>round(seconds / 60)\<close> of a duration: to the nearest minute, ties to the even one.\<close>

definition to_even :: "int \<Rightarrow> int \<Rightarrow> int" where
  "to_even q rest =
     (if 2 * rest < minute then q else if minute < 2 * rest then q + 1 else if even q then q else q + 1)"

definition round_minutes :: "int \<Rightarrow> int" where
  "round_minutes d = to_even (d div minute) (d mod minute)"

definition minutes_until :: "instant \<Rightarrow> instant \<Rightarrow> int" where
  "minutes_until eta now = max (round_minutes (eta - now)) 0"

definition next_stop_minutes :: "(string \<Rightarrow> instant option) \<Rightarrow> redis_value option \<Rightarrow> instant \<Rightarrow> int option" where
  "next_stop_minutes iso_of raw now =
     (case raw of
        Some (RBoard _ (first # _)) \<Rightarrow>
          (case doc_get first ''eta'' of
             JStr s \<Rightarrow> map_option (\<lambda>eta. minutes_until eta now) (iso_of s)
           | _ \<Rightarrow> None)
      | _ \<Rightarrow> None)"

definition age_seconds :: "instant option \<Rightarrow> instant \<Rightarrow> int option" where
  "age_seconds fix_ts now = map_option (\<lambda>t. max ((now - t) div second) 0) fix_ts"

section \<open>What the decoders promise\<close>

lemma to_even_near: "0 \<le> rest \<Longrightarrow> rest < minute \<Longrightarrow> 2 * \<bar>(q * minute + rest) - to_even q rest * minute\<bar> \<le> minute"
  by (auto simp: to_even_def)

lemma to_even_mono: "q < q' \<or> q = q' \<and> rest \<le> rest' \<Longrightarrow> to_even q rest \<le> to_even q' rest'"
  by (auto simp: to_even_def)

lemma round_minutes_near: "2 * \<bar>d - round_minutes d * minute\<bar> \<le> minute"
  using to_even_near [of "d mod minute" "d div minute"]
  by (simp add: round_minutes_def del: minus_mod_eq_div_mult)

lemma round_minutes_mono:
  assumes "d \<le> e"
  shows "round_minutes d \<le> round_minutes e"
proof -
  have "d div minute \<le> e div minute" using assms by (intro zdiv_mono1) simp_all
  moreover have "d div minute = e div minute \<Longrightarrow> d mod minute \<le> e mod minute"
    using assms mult_div_mod_eq [of minute d] mult_div_mod_eq [of minute e] by linarith
  ultimately show ?thesis unfolding round_minutes_def by (intro to_even_mono) linarith
qed

lemma minutes_until_past [simp]: "eta \<le> now \<Longrightarrow> minutes_until eta now = 0"
proof -
  assume "eta \<le> now"
  then have "round_minutes (eta - now) \<le> round_minutes 0" by (intro round_minutes_mono) simp
  then show ?thesis by (simp add: minutes_until_def round_minutes_def to_even_def)
qed

lemma minutes_until_mono: "eta \<le> eta' \<Longrightarrow> now' \<le> now \<Longrightarrow> minutes_until eta now \<le> minutes_until eta' now'"
  using round_minutes_mono [of "eta - now" "eta' - now'"] by (simp add: minutes_until_def)

lemma minutes_until_near:
  assumes "now \<le> eta"
  shows "2 * \<bar>(eta - now) - minutes_until eta now * minute\<bar> \<le> minute"
proof -
  have "0 \<le> round_minutes (eta - now)"
    using round_minutes_mono [of 0 "eta - now"] assms by (simp add: round_minutes_def to_even_def)
  then show ?thesis using round_minutes_near [of "eta - now"] by (simp add: minutes_until_def)
qed

lemma age_seconds_range:
  "age_seconds (Some t) now = Some a \<Longrightarrow> t \<le> now \<Longrightarrow> 0 \<le> a \<and> a * second \<le> now - t \<and> now - t < (a + 1) * second"
  by (auto simp: age_seconds_def)

lemma classify_lost [simp]: "classify None = Gps_lost"
  by (simp add: classify_def)

lemma parse_position_empty [simp]: "parse_position iso_of None = None" "parse_position iso_of (Some []) = None"
  by (simp_all add: parse_position_def Let_def)

text \<open>Reading back the fields the helper endpoint wrote.\<close>

lemma parse_written_position:
  assumes "py_float (float_text (gp_lat p)) = Some x" "py_float (float_text (gp_lng p)) = Some y"
    and "iso_of (iso_text (gp_ts p)) = Some t" "iso_of (iso_text now) = Some now" "iso_text now \<noteq> []"
    and "map_of fs = map_of (position_fields uuid_text float_text iso_text now trip_id p @ others)"
  shows "\<exists>h v. parse_position iso_of (Some fs) =
    Some \<lparr>ps_lat = x, ps_lng = y, ps_ts = t, ps_heading = h, ps_speed_kmh = v, ps_ingested_at = Some now\<rparr>"
proof -
  have "map_of fs ''lat'' = Some (float_text (gp_lat p))" "map_of fs ''lng'' = Some (float_text (gp_lng p))"
    "map_of fs ''ts'' = Some (iso_text (gp_ts p))" "map_of fs ''ingested_at'' = Some (iso_text now)"
    using assms(6) by (simp_all add: position_fields_def)
  with assms(1-5) show ?thesis by (simp add: parse_position_def received_at_def Let_def)
qed

lemma parse_written_seats:
  assumes "map_of fs ''occupied'' = Some (int_str o')" "map_of fs ''capacity'' = Some (int_str c)"
    and "py_int (int_str o') = Some o'" "py_int (int_str c) = Some c"
  shows "parse_seats (Some fs) = (Some o', Some c)"
  using assms by (simp add: parse_seats_def)

end
