(* ===== verification/Tokens.thy ===== *)
theory Tokens
  imports Trips "HOL-Library.Countable"
begin

text \<open>
  Tokens and their revocation: \<^verbatim>\<open>app/core/security.py\<close> and
  \<^verbatim>\<open>app/core/revocation.py\<close>. Claims are the JSON object inside a token. The JWT
  library signs and checks: \<open>jwt_encode\<close> and \<open>jwt_decode now\<close> are arguments,
  with what PyJWT documents as the contract \<open>jwt_library\<close>.
\<close>

section \<open>Tokens (app/core/security.py)\<close>

datatype token_error = InvalidTokenError string

definition EMAIL_VERIFY_TTL :: int where "EMAIL_VERIFY_TTL = 2 * day"
definition PASSWORD_RESET_TTL :: int where "PASSWORD_RESET_TTL = 1 * hour"

definition token_claims :: "string \<Rightarrow> instant \<Rightarrow> string \<Rightarrow> user_role \<Rightarrow> string \<Rightarrow> int \<Rightarrow> doc" where
  "token_claims jti now sub role token_type ttl =
     [(''sub'', JStr sub), (''role'', JStr (user_role_str role)), (''type'', JStr token_type),
      (''jti'', JStr jti), (''iat'', JInt (now div second)), (''exp'', JInt ((now + ttl) div second))]"

definition create_token ::
  "(doc \<Rightarrow> string) \<Rightarrow> string \<Rightarrow> instant \<Rightarrow> string \<Rightarrow> user_role \<Rightarrow> string \<Rightarrow> int \<Rightarrow> string" where
  "create_token jwt_encode jti now sub role token_type ttl =
     jwt_encode (token_claims jti now sub role token_type ttl)"

definition create_access_token :: "(doc \<Rightarrow> string) \<Rightarrow> string \<Rightarrow> instant \<Rightarrow> int \<Rightarrow> string \<Rightarrow> user_role \<Rightarrow> string" where
  "create_access_token jwt_encode jti now ttl_min sub role =
     create_token jwt_encode jti now sub role ''access'' (ttl_min * minute)"

definition create_refresh_token :: "(doc \<Rightarrow> string) \<Rightarrow> string \<Rightarrow> instant \<Rightarrow> int \<Rightarrow> string \<Rightarrow> user_role \<Rightarrow> string" where
  "create_refresh_token jwt_encode jti now ttl_days sub role =
     create_token jwt_encode jti now sub role ''refresh'' (ttl_days * day)"

definition create_email_verify_token :: "(doc \<Rightarrow> string) \<Rightarrow> string \<Rightarrow> instant \<Rightarrow> string \<Rightarrow> user_role \<Rightarrow> string" where
  "create_email_verify_token jwt_encode jti now sub role =
     create_token jwt_encode jti now sub role ''email_verify'' EMAIL_VERIFY_TTL"

definition create_password_reset_token :: "(doc \<Rightarrow> string) \<Rightarrow> string \<Rightarrow> instant \<Rightarrow> string \<Rightarrow> user_role \<Rightarrow> string" where
  "create_password_reset_token jwt_encode jti now sub role =
     create_token jwt_encode jti now sub role ''password_reset'' PASSWORD_RESET_TTL"

definition decode_token :: "(instant \<Rightarrow> string \<Rightarrow> doc option) \<Rightarrow> instant \<Rightarrow> string \<Rightarrow> string \<Rightarrow> token_error + doc" where
  "decode_token jwt_decode now token expected_type =
     (case jwt_decode now token of
        None \<Rightarrow> Inl (InvalidTokenError ''invalid'')
      | Some payload \<Rightarrow>
          if doc_get payload ''type'' \<noteq> JStr expected_type
          then Inl (InvalidTokenError (''expected '' @ expected_type @ '' token''))
          else if \<not> truthy (doc_get payload ''jti'')
          then Inl (InvalidTokenError ''token has no jti and cannot be revoked'')
          else Inr payload)"

section \<open>Revocation (app/core/revocation.py)\<close>

definition ROTATION_GRACE_S :: int where "ROTATION_GRACE_S = 60"

definition revoked_key :: "jval \<Rightarrow> string" where "revoked_key jti = ''auth:revoked:'' @ py_str jti"
definition rotated_key :: "jval \<Rightarrow> string" where "rotated_key jti = ''auth:rotated:'' @ py_str jti"

text \<open>
  \<^verbatim>\<open>SET key value NX EX\<close>: whether the key was free, and the store after it.
\<close>

definition redis_set_nx :: "instant \<Rightarrow> string \<Rightarrow> redis_value \<Rightarrow> int \<Rightarrow> redis \<Rightarrow> bool \<times> redis" where
  "redis_set_nx now k v seconds r =
     (case redis_get r now k of
        None \<Rightarrow> (True, redis_set k v (Some (now + seconds * second)) r)
      | Some _ \<Rightarrow> (False, r))"

text \<open>
  The winner's pair, or nothing when this caller won; \<open>Inl\<close> when Redis fails.
\<close>

definition claim_rotation ::
  "bool \<Rightarrow> bool \<Rightarrow> instant \<Rightarrow> jval \<Rightarrow> doc \<Rightarrow> redis \<Rightarrow> (handler_error + redis_value option) \<times> redis" where
  "claim_rotation up1 up2 now jti pair_json r =
     (if \<not> up1 then (Inl UncaughtCache, r)
      else (case redis_set_nx now (rotated_key jti) (RDoc (Some pair_json)) ROTATION_GRACE_S r of
          (True, r') \<Rightarrow> (Inr None, r')
        | (False, r') \<Rightarrow>
            if \<not> up2 then (Inl UncaughtCache, r') else (Inr (redis_get r' now (rotated_key jti)), r')))"

definition recall_rotation :: "bool \<Rightarrow> instant \<Rightarrow> jval \<Rightarrow> redis \<Rightarrow> redis_value option" where
  "recall_rotation up now jti r = (if up then redis_get r now (rotated_key jti) else None)"

text \<open>The library lets only an integer \<^verbatim>\<open>exp\<close> through.\<close>

definition ttl_seconds :: "instant \<Rightarrow> doc \<Rightarrow> int" where
  "ttl_seconds now claims =
     max ((case doc_get_or claims ''exp'' (JInt 0) of JInt e \<Rightarrow> e | _ \<Rightarrow> 0) - now div second) 1"

definition revoke :: "bool \<Rightarrow> instant \<Rightarrow> doc \<Rightarrow> redis \<Rightarrow> redis" where
  "revoke up now claims r =
     (let jti = doc_get claims ''jti'' in
      if \<not> truthy jti then r
      else if up
      then redis_set (revoked_key jti) (RDoc None) (Some (now + ttl_seconds now claims * second)) r
      else r)"

definition is_revoked :: "bool \<Rightarrow> instant \<Rightarrow> jval \<Rightarrow> redis \<Rightarrow> bool" where
  "is_revoked up now jti r = (if up then redis_get r now (revoked_key jti) \<noteq> None else False)"

definition is_revoked_strict :: "bool \<Rightarrow> instant \<Rightarrow> jval \<Rightarrow> redis \<Rightarrow> bool" where
  "is_revoked_strict up now jti r = (if up then redis_get r now (revoked_key jti) \<noteq> None else True)"

section \<open>What the library promises\<close>

text \<open>
  A token that was signed here is read back once it is issued and while it has not expired,
  and nothing expired is ever accepted; when it is read decides only whether, not what.
\<close>

definition token_alive :: "instant \<Rightarrow> doc \<Rightarrow> bool" where
  "token_alive now claims = (case doc_get claims ''exp'' of JInt e \<Rightarrow> now < e * second | _ \<Rightarrow> False)"

definition token_issued :: "instant \<Rightarrow> doc \<Rightarrow> bool" where
  "token_issued now claims =
     (case (doc_get claims ''iat'', doc_get claims ''sub'') of (JInt i, JStr _) \<Rightarrow> i * second \<le> now | _ \<Rightarrow> False)"

locale jwt_library =
  fixes jwt_encode :: "doc \<Rightarrow> string" and jwt_decode :: "instant \<Rightarrow> string \<Rightarrow> doc option"
  assumes decode_encode: "token_alive now c \<Longrightarrow> token_issued now c \<Longrightarrow> jwt_decode now (jwt_encode c) = Some c"
    and decoded_alive: "jwt_decode now s = Some c \<Longrightarrow> token_alive now c"
    and decode_stable: "jwt_decode now s = Some c \<Longrightarrow> jwt_decode later s = Some c' \<Longrightarrow> c = c'"
begin

lemma decode_created:
  assumes "token_alive now (token_claims jti t sub role ty ttl)" "t \<le> now" "jti \<noteq> []"
  shows "decode_token jwt_decode now (create_token jwt_encode jti t sub role ty ttl) ty' =
    (if ty' = ty then Inr (token_claims jti t sub role ty ttl)
     else Inl (InvalidTokenError (''expected '' @ ty' @ '' token'')))"
proof -
  have "token_issued now (token_claims jti t sub role ty ttl)"
    using assms(2) by (simp add: token_issued_def token_claims_def doc_get_def)
  with decode_encode [OF assms(1)] assms(3) show ?thesis
    by (simp add: decode_token_def create_token_def token_claims_def doc_get_def)
qed

end

text \<open>Once revoked, a token stays on the list for as long as it could still be accepted.\<close>

lemma revoked_while_alive:
  assumes "token_alive t c" "truthy (doc_get c ''jti'')"
  shows "redis_get (revoke True now c r) t (revoked_key (doc_get c ''jti'')) \<noteq> None"
proof -
  obtain e where e: "doc_get c ''exp'' = JInt e" "t < e * second"
    using assms(1) by (auto simp: token_alive_def split: jval.splits)
  then have "doc_get_or c ''exp'' (JInt 0) = JInt e"
    by (auto simp: doc_get_def doc_get_or_def split: option.splits)
  moreover have "e * second \<le> now + (e - now div second) * second"
    by (simp add: algebra_simps)
  moreover have "(e - now div second) * second \<le> max (e - now div second) 1 * second"
    by (intro mult_right_mono) simp_all
  ultimately have "t < now + ttl_seconds now c * second"
    using e(2) by (simp add: ttl_seconds_def)
  with assms(2) show ?thesis by (simp add: revoke_def)
qed

lemma redis_get_revoke_other:
  "k \<noteq> revoked_key (doc_get c ''jti'') \<Longrightarrow> redis_get (revoke up now c r) t k = redis_get r t k"
  by (simp add: revoke_def Let_def)

lemma token_keys [simp]:
  "rotated_key a \<noteq> revoked_key b" "revoked_key b \<noteq> rotated_key a"
  by (simp_all add: rotated_key_def revoked_key_def)

section \<open>An instance\<close>

instance jval :: countable by countable_datatype

text \<open>Signing as counting: a set of claims is signed as its number, in unary.\<close>

definition count_encode :: "doc \<Rightarrow> string" where "count_encode c = unary_text (to_nat c)"

definition count_decode :: "instant \<Rightarrow> string \<Rightarrow> doc option" where
  "count_decode now s = (let c = from_nat (length s - 1) in if token_alive now c then Some c else None)"

interpretation count_jwt: jwt_library count_encode count_decode
  by unfold_locales (auto simp: count_encode_def count_decode_def unary_text_def Let_def split: if_splits)

definition demo_claims :: doc where
  "demo_claims = token_claims ''j1'' demo_now (unary_text 1) Role_student ''refresh'' (30 * day)"

lemma demo_alive: "token_alive demo_now demo_claims"
  by (simp add: token_alive_def demo_claims_def token_claims_def doc_get_def demo_now_def)

lemma demo_decoded: "count_decode demo_now (count_encode demo_claims) = Some demo_claims"
  using demo_alive
  by (rule count_jwt.decode_encode)
    (simp add: token_issued_def demo_claims_def token_claims_def doc_get_def demo_now_def)

end
