(* ===== verification/Authz.thy ===== *)
theory Authz
  imports Tokens
begin

text \<open>
  Who the caller is and what they may do: \<^verbatim>\<open>app/core/authz.py\<close>,
  \<^verbatim>\<open>app/repositories/users.py\<close> and \<^verbatim>\<open>app/api/deps.py\<close>. A principal is
  a snapshot of the account in the database, cached in Redis under the user's id; the guards
  decide on the snapshot alone.
\<close>

section \<open>The principal\<close>

record principal =
  pp_user_id :: uuid
  pp_role :: user_role
  pp_status :: user_status
  pp_helper_id :: "uuid option"
  pp_helper_status :: "helper_status option"

definition PRINCIPAL_TTL_S :: int where "PRINCIPAL_TTL_S = 300"

definition principal_key :: "string \<Rightarrow> string" where "principal_key user_id = ''authz:principal:'' @ user_id"

definition is_active :: "principal \<Rightarrow> bool" where "is_active p \<longleftrightarrow> pp_status p = User_active"

definition is_approved_helper :: "principal \<Rightarrow> bool" where
  "is_approved_helper p \<longleftrightarrow> pp_role p = Role_helper \<and> pp_helper_status p = Some Helper_approved"

definition principal_to_json :: "(uuid \<Rightarrow> string) \<Rightarrow> principal \<Rightarrow> doc" where
  "principal_to_json uuid_text p =
     [(''user_id'', JStr (uuid_text (pp_user_id p))), (''role'', JStr (user_role_str (pp_role p))),
      (''status'', JStr (user_status_str (pp_status p))),
      (''helper_id'', case pp_helper_id p of None \<Rightarrow> JNull | Some i \<Rightarrow> JStr (uuid_text i)),
      (''helper_status'', case pp_helper_status p of None \<Rightarrow> JNull | Some s \<Rightarrow> JStr (helper_status_str s))]"

text \<open>The enumerations from their values; any other value raises.\<close>

definition user_role_of :: "jval \<Rightarrow> user_role option" where
  "user_role_of v = find (\<lambda>x. v = JStr (user_role_str x)) [Role_student, Role_helper, Role_admin]"

definition user_status_of :: "jval \<Rightarrow> user_status option" where
  "user_status_of v = find (\<lambda>x. v = JStr (user_status_str x))
     [User_pending_email, User_active, User_pending_approval, User_suspended]"

definition helper_status_of :: "jval \<Rightarrow> helper_status option" where
  "helper_status_of v = find (\<lambda>x. v = JStr (helper_status_str x))
     [Helper_pending, Helper_approved, Helper_suspended]"

text \<open>A field that may be null: absent raises, empty counts as null.\<close>

definition opt_field :: "(jval \<Rightarrow> 'a option) \<Rightarrow> doc \<Rightarrow> string \<Rightarrow> 'a option option" where
  "opt_field parse d k =
     (case map_of d k of
        None \<Rightarrow> None
      | Some v \<Rightarrow> if truthy v then (case parse v of None \<Rightarrow> None | Some x \<Rightarrow> Some (Some x)) else Some None)"

definition jval_uuid :: "(string \<Rightarrow> uuid option) \<Rightarrow> jval \<Rightarrow> uuid option" where
  "jval_uuid uuid_of v = (case v of JStr s \<Rightarrow> uuid_of s | _ \<Rightarrow> None)"

text \<open>\<open>None\<close> where \<^verbatim>\<open>from_json\<close> raises; its only caller swallows every exception.\<close>

definition principal_from_json :: "(string \<Rightarrow> uuid option) \<Rightarrow> doc \<Rightarrow> principal option" where
  "principal_from_json uuid_of d =
     (case (jval_uuid uuid_of (doc_get d ''user_id''), user_role_of (doc_get d ''role''),
        user_status_of (doc_get d ''status''), opt_field (jval_uuid uuid_of) d ''helper_id'',
        opt_field helper_status_of d ''helper_status'') of
        (Some i, Some role, Some status, Some h, Some hs) \<Rightarrow>
          Some \<lparr>pp_user_id = i, pp_role = role, pp_status = status, pp_helper_id = h, pp_helper_status = hs\<rparr>
      | _ \<Rightarrow> None)"

section \<open>Queries (app/repositories/users.py)\<close>

definition user_by_email :: "database \<Rightarrow> string \<Rightarrow> user option" where
  "user_by_email db email = find (\<lambda>u. us_email u = lower email) (db_users db)"

definition student_by_user_id :: "database \<Rightarrow> uuid \<Rightarrow> student option" where
  "student_by_user_id db i = find (\<lambda>s. st_user_id s = i) (db_students db)"

definition student_id_taken :: "database \<Rightarrow> string \<Rightarrow> bool" where
  "student_id_taken db no \<longleftrightarrow> (\<exists>s \<in> set (db_students db). st_student_id_no s = no)"

definition helper_by_user_id :: "database \<Rightarrow> uuid \<Rightarrow> helper option" where
  "helper_by_user_id db i = find (\<lambda>h. hp_user_id h = i) (db_helpers db)"

definition helpers_with_users :: "database \<Rightarrow> helper_status option \<Rightarrow> (user \<times> helper) list" where
  "helpers_with_users db status =
     sort_key (\<lambda>(u, _). us_created_at u) (List.map_filter (\<lambda>h. map_option (\<lambda>u. (u, h)) (get_user db (hp_user_id h)))
       (filter (\<lambda>h. case status of None \<Rightarrow> True | Some s \<Rightarrow> hp_status h = s) (db_helpers db)))"

section \<open>The snapshot and its cache (app/core/authz.py)\<close>

definition load_principal :: "database \<Rightarrow> uuid \<Rightarrow> principal option" where
  "load_principal db i =
     map_option (\<lambda>u. let h = helper_by_user_id db i in
       \<lparr>pp_user_id = us_id u, pp_role = us_role u, pp_status = us_status u,
        pp_helper_id = map_option hp_id h, pp_helper_status = map_option hp_status h\<rparr>)
       (get_user db i)"

definition cached_principal ::
  "(string \<Rightarrow> uuid option) \<Rightarrow> (uuid \<Rightarrow> string) \<Rightarrow> instant \<Rightarrow> redis \<Rightarrow> uuid \<Rightarrow> principal option" where
  "cached_principal uuid_of uuid_text now r i =
     (case redis_get r now (principal_key (uuid_text i)) of
        Some (RDoc (Some d)) \<Rightarrow> principal_from_json uuid_of d
      | _ \<Rightarrow> None)"

definition cache_principal :: "(uuid \<Rightarrow> string) \<Rightarrow> instant \<Rightarrow> uuid \<Rightarrow> principal \<Rightarrow> redis \<Rightarrow> redis" where
  "cache_principal uuid_text now i p r =
     redis_set (principal_key (uuid_text i)) (RDoc (Some (principal_to_json uuid_text p)))
       (Some (now + PRINCIPAL_TTL_S * second)) r"

definition get_principal_cached ::
  "(string \<Rightarrow> uuid option) \<Rightarrow> (uuid \<Rightarrow> string) \<Rightarrow> bool \<Rightarrow> bool \<Rightarrow> instant \<Rightarrow> database \<Rightarrow> redis \<Rightarrow> uuid \<Rightarrow>
   principal option \<times> redis" where
  "get_principal_cached uuid_of uuid_text up_get up_set now db r i =
     (case (if up_get then cached_principal uuid_of uuid_text now r i else None) of
        Some p \<Rightarrow> (Some p, r)
      | None \<Rightarrow>
          (case load_principal db i of
             None \<Rightarrow> (None, r)
           | Some p \<Rightarrow> (Some p, if up_set then cache_principal uuid_text now i p r else r)))"

definition invalidate_principal :: "bool \<Rightarrow> (uuid \<Rightarrow> string) \<Rightarrow> uuid \<Rightarrow> redis \<Rightarrow> redis" where
  "invalidate_principal up uuid_text i r = (if up then redis_delete (principal_key (uuid_text i)) r else r)"

text \<open>
  The users a flush touched, by the rows it wrote, and the end of the request, which drops
  the cached snapshot of each.
\<close>

definition touched_principals :: "user list \<Rightarrow> helper list \<Rightarrow> uuid list" where
  "touched_principals users helpers = remdups (map us_id users @ map hp_user_id helpers)"

definition flush_principal_invalidations :: "bool \<Rightarrow> (uuid \<Rightarrow> string) \<Rightarrow> uuid list \<Rightarrow> redis \<Rightarrow> redis" where
  "flush_principal_invalidations up uuid_text touched r =
     fold (\<lambda>i r. invalidate_principal up uuid_text i r) touched r"

section \<open>The guards (app/api/deps.py)\<close>

definition credentials_exc :: http_error where
  "credentials_exc = HTTPException 401 ''Invalid or expired token''"

definition get_access_claims ::
  "(instant \<Rightarrow> string \<Rightarrow> doc option) \<Rightarrow> bool \<Rightarrow> instant \<Rightarrow> redis \<Rightarrow> string \<Rightarrow> http_error + doc" where
  "get_access_claims jwt_decode up now r token =
     (case decode_token jwt_decode now token ''access'' of
        Inl _ \<Rightarrow> Inl credentials_exc
      | Inr claims \<Rightarrow>
          if is_revoked up now (doc_get claims ''jti'') r then Inl credentials_exc else Inr claims)"

definition get_principal ::
  "(string \<Rightarrow> uuid option) \<Rightarrow> (uuid \<Rightarrow> string) \<Rightarrow> bool \<Rightarrow> bool \<Rightarrow> instant \<Rightarrow> database \<Rightarrow> redis \<Rightarrow> doc \<Rightarrow>
   (handler_error + principal) \<times> redis" where
  "get_principal uuid_of uuid_text up_get up_set now db r claims =
     (case doc_uuid uuid_of claims ''sub'' of
        Inl e \<Rightarrow> (Inl (if e = KeyError \<or> e = ValueError then Http credentials_exc else Uncaught e), r)
      | Inr user_id \<Rightarrow>
          (case get_principal_cached uuid_of uuid_text up_get up_set now db r user_id of
             (None, r') \<Rightarrow> (Inl (Http credentials_exc), r')
           | (Some p, r') \<Rightarrow>
               if pp_status p = User_suspended then (Inl (Http credentials_exc), r') else (Inr p, r')))"

definition guard :: "user_role list \<Rightarrow> bool \<Rightarrow> bool \<Rightarrow> principal \<Rightarrow> http_error + principal" where
  "guard roles approved_helper active_only p =
     (if active_only \<and> \<not> is_active p then Inl (HTTPException 403 ''Account is not active'')
      else if roles \<noteq> [] \<and> pp_role p \<notin> set roles then Inl (HTTPException 403 ''Insufficient role'')
      else if approved_helper \<and> \<not> is_approved_helper p
      then Inl (HTTPException 403 ''Helper account not approved'')
      else Inr p)"

definition require_admin :: "principal \<Rightarrow> http_error + principal" where
  "require_admin = guard [Role_admin] False True"
definition require_student :: "principal \<Rightarrow> http_error + principal" where
  "require_student = guard [Role_student] False True"
definition require_approved_helper :: "principal \<Rightarrow> http_error + principal" where
  "require_approved_helper = guard [Role_helper] True True"
definition require_authenticated :: "principal \<Rightarrow> http_error + principal" where
  "require_authenticated = guard [] False True"

definition get_current_user :: "database \<Rightarrow> principal \<Rightarrow> http_error + user" where
  "get_current_user db p = (case get_user db (pp_user_id p) of None \<Rightarrow> Inl credentials_exc | Some u \<Rightarrow> Inr u)"

definition get_current_student :: "database \<Rightarrow> principal \<Rightarrow> http_error + student" where
  "get_current_student db p =
     (case student_by_user_id db (pp_user_id p) of
        None \<Rightarrow> Inl (HTTPException 409 ''Account has no student profile'')
      | Some s \<Rightarrow> Inr s)"

text \<open>The whole front door of a guarded route: token, revocation, snapshot, guard.\<close>

definition authorize ::
  "(instant \<Rightarrow> string \<Rightarrow> doc option) \<Rightarrow> (string \<Rightarrow> uuid option) \<Rightarrow> (uuid \<Rightarrow> string) \<Rightarrow> bool \<Rightarrow> bool \<Rightarrow> bool \<Rightarrow>
   (principal \<Rightarrow> http_error + principal) \<Rightarrow> instant \<Rightarrow> database \<Rightarrow> redis \<Rightarrow> string \<Rightarrow>
   (handler_error + principal) \<times> redis" where
  "authorize jwt_decode uuid_of uuid_text up1 up2 up3 check now db r token =
     (case get_access_claims jwt_decode up1 now r token of
        Inl e \<Rightarrow> (Inl (Http e), r)
      | Inr claims \<Rightarrow>
          (case get_principal uuid_of uuid_text up2 up3 now db r claims of
             (Inl e, r') \<Rightarrow> (Inl e, r')
           | (Inr p, r') \<Rightarrow> (case check p of Inl e \<Rightarrow> (Inl (Http e), r') | Inr q \<Rightarrow> (Inr q, r'))))"

section \<open>The contract of the cached snapshot\<close>

lemma user_role_of_str [simp]: "user_role_of (JStr (user_role_str x)) = Some x"
  by (cases x) (simp_all add: user_role_of_def)

lemma user_status_of_str [simp]: "user_status_of (JStr (user_status_str x)) = Some x"
  by (cases x) (simp_all add: user_status_of_def)

lemma helper_status_of_str [simp]: "helper_status_of (JStr (helper_status_str x)) = Some x"
  by (cases x) (simp_all add: helper_status_of_def)

lemma helper_status_nonempty [simp]: "helper_status_str x \<noteq> []"
  by (cases x) simp_all

text \<open>A printed id is never empty.\<close>

locale uuid_texts = uuid_strings +
  assumes text_nonempty: "uuid_text i \<noteq> []"
begin

lemma principal_round_trip: "principal_from_json uuid_of (principal_to_json uuid_text p) = Some p"
proof -
  have u: "uuid_of (uuid_text i) = Some i" for i by (simp add: dec_enc)
  show ?thesis
    by (cases "pp_helper_id p"; cases "pp_helper_status p")
      (simp_all add: principal_from_json_def principal_to_json_def doc_get_def opt_field_def jval_uuid_def
        u text_nonempty)
qed

lemma text_inject [simp]: "uuid_text i = uuid_text j \<longleftrightarrow> i = j"
  by (auto intro: enc_inj)

lemma cached_principal_fill:
  "cached_principal uuid_of uuid_text now (cache_principal uuid_text now i p r) j =
     (if j = i then Some p else cached_principal uuid_of uuid_text now r j)"
  by (simp add: cached_principal_def cache_principal_def principal_key_def PRINCIPAL_TTL_S_def
      principal_round_trip)

lemma cached_principal_drop:
  "cached_principal uuid_of uuid_text now (invalidate_principal True uuid_text i r) j =
     (if j = i then None else cached_principal uuid_of uuid_text now r j)"
  by (simp add: cached_principal_def invalidate_principal_def principal_key_def)

end

sublocale uuid_texts \<subseteq> principal_cache: cache_aside "cached_principal uuid_of uuid_text now" load_principal
    "cache_principal uuid_text now" "invalidate_principal True uuid_text" for now
  by unfold_locales (rule cached_principal_fill cached_principal_drop)+

context uuid_texts
begin

lemma principal_fresh:
  assumes "coherent (cached_principal uuid_of uuid_text now) load_principal db r"
  shows "fst (get_principal_cached uuid_of uuid_text up1 up2 now db r i) = load_principal db i"
proof (cases "if up1 then cached_principal uuid_of uuid_text now r i else None")
  case None
  then show ?thesis by (simp add: get_principal_cached_def split: option.split)
next
  case (Some p)
  then have "cached_principal uuid_of uuid_text now r i = Some p" by (cases up1) auto
  with assms have "load_principal db i = Some p" by (rule principal_cache.hit)
  with Some show ?thesis by (simp add: get_principal_cached_def)
qed

lemma principal_kept:
  assumes "coherent (cached_principal uuid_of uuid_text now) load_principal db r"
  shows "coherent (cached_principal uuid_of uuid_text now) load_principal db
    (snd (get_principal_cached uuid_of uuid_text up1 up2 now db r i))"
  using assms by (auto simp: get_principal_cached_def intro: principal_cache.fill_coherent split: option.split)

end

interpretation unary_texts: uuid_texts unary_text unary_of
  by unfold_locales (simp add: unary_text_def)

lemma texts:
  "(\<And>i. uuid_of (uuid_text i) = Some i) \<Longrightarrow> (\<And>i. uuid_text i \<noteq> []) \<Longrightarrow> uuid_texts uuid_text uuid_of"
  by unfold_locales simp_all

lemma guard_InrD:
  assumes "guard roles approved active p = Inr q"
  shows "q = p \<and> (active \<longrightarrow> pp_status p = User_active) \<and> (roles \<noteq> [] \<longrightarrow> pp_role p \<in> set roles) \<and>
    (approved \<longrightarrow> pp_role p = Role_helper \<and> pp_helper_status p = Some Helper_approved)"
  using assms by (auto simp: guard_def is_active_def is_approved_helper_def split: if_splits)

lemma load_principal_SomeD:
  assumes "load_principal db i = Some p"
  obtains u where "get_user db i = Some u" "us_id u = i" "pp_user_id p = i" "pp_role p = us_role u"
    "pp_status p = us_status u" "pp_helper_id p = map_option hp_id (helper_by_user_id db i)"
    "pp_helper_status p = map_option hp_status (helper_by_user_id db i)"
proof -
  from assms obtain u where u: "get_user db i = Some u" by (auto simp: load_principal_def)
  then have "us_id u = i" by (auto dest: row_get_SomeD)
  with u assms show ?thesis by (intro that [of u]) (auto simp: load_principal_def Let_def)
qed

lemma authorize_fresh:
  assumes "authorize jwt_decode uuid_of uuid_text up1 up2 up3 check now db r token = (Inr p, r')"
    and "uuid_texts uuid_text uuid_of"
    and "coherent (cached_principal uuid_of uuid_text now) load_principal db r"
  shows "\<exists>claims i q. jwt_decode now token = Some claims \<and> doc_get claims ''type'' = JStr ''access'' \<and>
    \<not> is_revoked up1 now (doc_get claims ''jti'') r \<and> doc_uuid uuid_of claims ''sub'' = Inr i \<and>
    load_principal db i = Some q \<and> pp_status q \<noteq> User_suspended \<and> check q = Inr p"
proof -
  obtain claims where c: "get_access_claims jwt_decode up1 now r token = Inr claims"
    using assms(1) by (auto simp: authorize_def split: sum.splits)
  obtain q where q: "get_principal uuid_of uuid_text up2 up3 now db r claims = (Inr q, r')" "check q = Inr p"
    using assms(1) c by (auto simp: authorize_def split: sum.splits prod.splits)
  then obtain i where i: "doc_uuid uuid_of claims ''sub'' = Inr i"
    and g: "fst (get_principal_cached uuid_of uuid_text up2 up3 now db r i) = Some q" "pp_status q \<noteq> User_suspended"
    by (auto simp: get_principal_def split: sum.splits prod.splits option.splits if_splits)
  have "load_principal db i = Some q"
    using g(1) uuid_texts.principal_fresh [OF assms(2,3), of up2 up3 i] by simp
  moreover have "jwt_decode now token = Some claims \<and> doc_get claims ''type'' = JStr ''access'' \<and>
      \<not> is_revoked up1 now (doc_get claims ''jti'') r"
    using c by (auto simp: get_access_claims_def decode_token_def split: option.splits if_splits sum.splits)
  ultimately show ?thesis using i g(2) q(2) by blast
qed

section \<open>Properties\<close>

text \<open>
  C4. Authorization is the database's word and never the token's, wherever the snapshots in the cache
  agree with the database: whoever passes a guard then
  presented an unexpired access token, not revoked as far as Redis answered the question (the check fails open), and is an
  account whose row today has an
  allowed role and is active, with an approved helper row where the guard asks for one. The
  role written in the token plays no part, and an outage of the cache changes nothing but the revocation check. (How far a snapshot can lag
  is C6.)
\<close>

theorem guards_read_the_database:
  assumes "authorize jwt_decode uuid_of uuid_text up1 up2 up3 (guard roles approved True) now db r token = (Inr p, r')"
    and "\<And>i. uuid_of (uuid_text i) = Some i" "\<And>i. uuid_text i \<noteq> []"
    and "coherent (cached_principal uuid_of uuid_text now) load_principal db r"
  shows "\<exists>claims u. jwt_decode now token = Some claims \<and> doc_get claims ''type'' = JStr ''access'' \<and>
    (up1 \<longrightarrow> redis_get r now (revoked_key (doc_get claims ''jti'')) = None) \<and>
    doc_uuid uuid_of claims ''sub'' = Inr (us_id u) \<and> get_user db (us_id u) = Some u \<and> pp_user_id p = us_id u \<and>
    us_status u = User_active \<and> (roles \<noteq> [] \<longrightarrow> us_role u \<in> set roles) \<and>
    (approved \<longrightarrow> us_role u = Role_helper \<and>
       (\<exists>h \<in> set (db_helpers db). hp_user_id h = us_id u \<and> hp_status h = Helper_approved \<and>
          pp_helper_id p = Some (hp_id h)))"
proof -
  obtain claims i q where a: "jwt_decode now token = Some claims" "doc_get claims ''type'' = JStr ''access''"
    "\<not> is_revoked up1 now (doc_get claims ''jti'') r" "doc_uuid uuid_of claims ''sub'' = Inr i"
    "load_principal db i = Some q" "guard roles approved True q = Inr p"
    using authorize_fresh [OF assms(1) texts [of uuid_of uuid_text, OF assms(2,3)] assms(4)] by blast
  note g = guard_InrD [OF a(6)]
  obtain u where u: "get_user db i = Some u" "us_id u = i" "pp_user_id q = i" "pp_role q = us_role u"
    "pp_status q = us_status u" "pp_helper_id q = map_option hp_id (helper_by_user_id db i)"
    "pp_helper_status q = map_option hp_status (helper_by_user_id db i)"
    using a(5) by (rule load_principal_SomeD)
  have "\<exists>h \<in> set (db_helpers db). hp_user_id h = i \<and> hp_status h = Helper_approved \<and> pp_helper_id p = Some (hp_id h)"
    if approved
  proof -
    from that g u(7) obtain h where "helper_by_user_id db i = Some h" "hp_status h = Helper_approved"
      by auto
    with g u(6) show ?thesis
      by (auto simp: helper_by_user_id_def find_Some_iff intro!: bexI [of _ h])
  qed
  with a g u show ?thesis
    by (intro exI [of _ claims] exI [of _ u]) (auto simp: is_revoked_def split: if_splits)
qed

definition access_claims :: "uuid \<Rightarrow> user_role \<Rightarrow> doc" where
  "access_claims i role = token_claims ''j2'' demo_now (unary_text i) role ''access'' (15 * minute)"

lemma principals_empty: "coherent (cached_principal uuid_of uuid_text now) load_principal db empty_redis"
  by (simp add: coherent_def cached_principal_def redis_get_def empty_redis_def)

lemma access_decodes: "count_decode demo_now (count_encode (access_claims i role)) = Some (access_claims i role)"
  by (rule count_jwt.decode_encode)
    (simp_all add: token_alive_def token_issued_def access_claims_def token_claims_def doc_get_def demo_now_def)

text \<open>A token that calls its holder an admin still opens only what the holder's row allows.\<close>

theorem guards_read_the_database_witness:
  "\<exists>p r'. authorize count_decode unary_of unary_text True True True require_approved_helper demo_now demo_db empty_redis
      (count_encode (access_claims 2 Role_admin)) = (Inr p, r') \<and>
    (\<exists>h \<in> set (db_helpers demo_db). hp_user_id h = 2 \<and> hp_status h = Helper_approved \<and> pp_helper_id p = Some (hp_id h))"
proof -
  let ?token = "count_encode (access_claims 2 Role_admin)"
  have sub: "doc_uuid unary_of (access_claims 2 Role_admin) ''sub'' = Inr 2"
    by (simp add: doc_uuid_def access_claims_def token_claims_def unary)
  have load: "load_principal demo_db 2 = Some \<lparr>pp_user_id = 2, pp_role = Role_helper, pp_status = User_active,
      pp_helper_id = Some 21, pp_helper_status = Some Helper_approved\<rparr>"
    by (simp add: load_principal_def helper_by_user_id_def demo_defs)
  have "get_access_claims count_decode True demo_now empty_redis ?token = Inr (access_claims 2 Role_admin)"
    unfolding get_access_claims_def decode_token_def access_decodes
    by (simp add: is_revoked_def redis_get_def empty_redis_def)
      (simp add: access_claims_def token_claims_def doc_get_def)
  moreover have "get_principal unary_of unary_text True True demo_now demo_db empty_redis (access_claims 2 Role_admin) =
      (case get_principal_cached unary_of unary_text True True demo_now demo_db empty_redis 2 of
         (None, r') \<Rightarrow> (Inl (Http credentials_exc), r')
       | (Some p, r') \<Rightarrow> if pp_status p = User_suspended then (Inl (Http credentials_exc), r') else (Inr p, r'))"
    by (simp add: get_principal_def sub)
  ultimately obtain p r' where a: "authorize count_decode unary_of unary_text True True True
      (guard [Role_helper] True True) demo_now demo_db empty_redis ?token = (Inr p, r')"
    by (simp add: authorize_def get_principal_cached_def cached_principal_def redis_get_def empty_redis_def load
        guard_def is_active_def is_approved_helper_def)
  from guards_read_the_database [OF a unary unary_texts.text_nonempty principals_empty]
  obtain claims and u :: user where c: "count_decode demo_now ?token = Some claims" "doc_uuid unary_of claims ''sub'' = Inr (us_id u)"
    "\<exists>h \<in> set (db_helpers demo_db). hp_user_id h = us_id u \<and> hp_status h = Helper_approved \<and> pp_helper_id p = Some (hp_id h)"
    by blast
  from c(1) have "claims = access_claims 2 Role_admin" by (simp add: access_decodes)
  with c(2) have "us_id u = 2" by (simp add: sub)
  with a c(3) show ?thesis unfolding require_approved_helper_def by metis
qed

end
