(* ===== verification/LiveTrack.thy ===== *)
theory LiveTrack
  imports FleetView Authz
begin

text \<open>
  The live map: \<^verbatim>\<open>app/services/live_track.py\<close> and the socket
  \<^verbatim>\<open>/ws/track/{route_id}\<close> over it, the dashboard's
  \<^verbatim>\<open>/track/live\<close>, the console's \<^verbatim>\<open>/admin/fleet\<close>, the joins they
  read (\<^verbatim>\<open>app/repositories/fleet.py\<close>) and \<^verbatim>\<open>/bus-track\<close>. The three
  maps assemble their buses in three places of the code, and here in three definitions. The
  database returns live trips by their start, nulls last; where two starts are equal it may
  return either first, and the model keeps the order of the rows.
\<close>

section \<open>Live trips and what runs them (app/repositories/fleet.py)\<close>

definition by_start :: "trip list \<Rightarrow> trip list" where
  "by_start ts = sort_key (\<lambda>t. the (tr_actual_start t)) (filter (\<lambda>t. tr_actual_start t \<noteq> None) ts)
     @ filter (\<lambda>t. tr_actual_start t = None) ts"

record live_trip_ref =
  lt_trip_id :: uuid
  lt_bus_id :: uuid
  lt_reg_no :: string
  lt_nickname :: "string option"
  lt_capacity :: int

definition trip_ref :: "trip \<Rightarrow> bus \<Rightarrow> live_trip_ref" where
  "trip_ref t b = \<lparr>lt_trip_id = tr_id t, lt_bus_id = bs_id b, lt_reg_no = bs_reg_no b,
     lt_nickname = bs_nickname b, lt_capacity = bs_capacity b\<rparr>"

definition route_exists :: "database \<Rightarrow> uuid \<Rightarrow> bool" where
  "route_exists db route_id \<longleftrightarrow> get_route db route_id \<noteq> None"

definition live_trips_on_route :: "database \<Rightarrow> uuid \<Rightarrow> live_trip_ref list" where
  "live_trips_on_route db route_id =
     List.map_filter (\<lambda>t. map_option (trip_ref t) (get_bus db (tr_bus_id t)))
       (by_start (filter (\<lambda>t. tr_route_id t = route_id \<and> is_live t) (db_trips db)))"

definition live_trip_columns :: "database \<Rightarrow> (live_trip_ref \<times> route) list" where
  "live_trip_columns db =
     List.map_filter (\<lambda>t. case (get_bus db (tr_bus_id t), get_route db (tr_route_id t)) of
         (Some b, Some x) \<Rightarrow> Some (trip_ref t b, x)
       | _ \<Rightarrow> None)
       (by_start (filter is_live (db_trips db)))"

definition live_trips_with_context :: "database \<Rightarrow> (trip \<times> bus \<times> route \<times> helper \<times> user) list" where
  "live_trips_with_context db =
     List.map_filter (\<lambda>t. case (get_bus db (tr_bus_id t), get_route db (tr_route_id t), get_helper db (tr_helper_id t)) of
         (Some b, Some x, Some h) \<Rightarrow> map_option (\<lambda>u. (t, b, x, h, u)) (get_user db (hp_user_id h))
       | _ \<Rightarrow> None)
       (by_start (filter is_live (db_trips db)))"

section \<open>One pipeline of reads\<close>

type_synonym bus_reads = "(string \<times> string) list option \<times> (string \<times> string) list option \<times> redis_value option"

definition read_bus :: "bool \<Rightarrow> (uuid \<Rightarrow> string) \<Rightarrow> instant \<Rightarrow> redis \<Rightarrow> uuid \<Rightarrow> uuid \<Rightarrow> bus_reads" where
  "read_bus up uuid_text now r bus_id trip_id =
     (if up
      then (Some (redis_hgetall r now (bus_pos_key (uuid_text bus_id))),
            Some (redis_hgetall r now (bus_seats_key (uuid_text bus_id))),
            redis_get r now (trip_eta_key (uuid_text trip_id)))
      else (None, None, None))"

definition read_redis :: "bool \<Rightarrow> (uuid \<Rightarrow> string) \<Rightarrow> instant \<Rightarrow> redis \<Rightarrow> live_trip_ref list \<Rightarrow> bus_reads list" where
  "read_redis up uuid_text now r refs = map (\<lambda>x. read_bus up uuid_text now r (lt_bus_id x) (lt_trip_id x)) refs"

section \<open>The frame of one route (app/services/live_track.py)\<close>

record track_bus_frame =
  tb_trip_id :: uuid
  tb_bus_id :: uuid
  tb_reg_no :: string
  tb_nickname :: "string option"
  tb_lat :: "pyfloat option"
  tb_lng :: "pyfloat option"
  tb_heading :: "pyfloat option"
  tb_speed_kmh :: "pyfloat option"
  tb_fix_ts :: "instant option"
  tb_fix_age_s :: "int option"
  tb_freshness :: gps_freshness
  tb_occupied :: "int option"
  tb_capacity :: "int option"
  tb_next_stop_eta_minutes :: "int option"

record track_frame =
  tf_route_id :: uuid
  tf_generated_at :: instant
  tf_total :: nat
  tf_live :: nat
  tf_stale :: nat
  tf_lost :: nat
  tf_buses :: "track_bus_frame list"

text \<open>The tally is counted while the buses are built: live, stale, lost.\<close>

fun tally_add :: "nat \<times> nat \<times> nat \<Rightarrow> gps_freshness \<Rightarrow> nat \<times> nat \<times> nat" where
  "tally_add (a, b, c) Gps_live = (a + 1, b, c)"
| "tally_add (a, b, c) Gps_stale = (a, b + 1, c)"
| "tally_add (a, b, c) Gps_lost = (a, b, c + 1)"

definition position_age :: "position option \<Rightarrow> instant \<Rightarrow> int option" where
  "position_age p now =
     age_seconds (map_option (\<lambda>q. case ps_ingested_at q of Some i \<Rightarrow> i | None \<Rightarrow> ps_ts q) p) now"

definition bus_frame ::
  "(string \<Rightarrow> instant option) \<Rightarrow> instant \<Rightarrow> live_trip_ref \<Rightarrow> bus_reads \<Rightarrow> track_bus_frame" where
  "bus_frame iso_of now ref reads =
     (case reads of (raw_pos, raw_seats, raw_eta) \<Rightarrow>
        let position = parse_position iso_of raw_pos; age = position_age position now;
            (occupied, capacity) = parse_seats raw_seats in
        \<lparr>tb_trip_id = lt_trip_id ref, tb_bus_id = lt_bus_id ref, tb_reg_no = lt_reg_no ref,
         tb_nickname = lt_nickname ref, tb_lat = map_option ps_lat position, tb_lng = map_option ps_lng position,
         tb_heading = (case position of None \<Rightarrow> None | Some p \<Rightarrow> ps_heading p),
         tb_speed_kmh = (case position of None \<Rightarrow> None | Some p \<Rightarrow> ps_speed_kmh p),
         tb_fix_ts = map_option ps_ts position, tb_fix_age_s = age, tb_freshness = classify age,
         tb_occupied = occupied,
         tb_capacity = (case capacity of Some c \<Rightarrow> Some c | None \<Rightarrow> Some (lt_capacity ref)),
         tb_next_stop_eta_minutes = next_stop_minutes iso_of raw_eta now\<rparr>)"

definition assemble_frame ::
  "(string \<Rightarrow> instant option) \<Rightarrow> uuid \<Rightarrow> live_trip_ref list \<Rightarrow> bus_reads list \<Rightarrow> instant \<Rightarrow> track_frame" where
  "assemble_frame iso_of route_id refs reads now =
     (let buses = map2 (bus_frame iso_of now) refs reads;
          (live, stale, lost) = foldl tally_add (0, 0, 0) (map tb_freshness buses) in
      \<lparr>tf_route_id = route_id, tf_generated_at = now, tf_total = length buses, tf_live = live, tf_stale = stale,
       tf_lost = lost, tf_buses = buses\<rparr>)"

definition build_frame ::
  "(string \<Rightarrow> instant option) \<Rightarrow> bool \<Rightarrow> (uuid \<Rightarrow> string) \<Rightarrow> database \<Rightarrow> redis \<Rightarrow> uuid \<Rightarrow> instant \<Rightarrow>
   live_trip_ref list option \<Rightarrow> track_frame" where
  "build_frame iso_of up uuid_text db r route_id now refs =
     (let roster = (case refs of None \<Rightarrow> live_trips_on_route db route_id | Some xs \<Rightarrow> xs) in
      assemble_frame iso_of route_id roster (read_redis up uuid_text now r roster) now)"

text \<open>The shared roster: per route the monotonic instant it was stored at and what was read.\<close>

type_synonym roster_entries = "uuid \<Rightarrow> (int \<times> live_trip_ref list) option"

definition roster_get ::
  "int \<Rightarrow> int \<Rightarrow> int \<Rightarrow> database \<Rightarrow> uuid \<Rightarrow> roster_entries \<Rightarrow> live_trip_ref list \<times> roster_entries" where
  "roster_get ttl asked stored db route_id entries =
     (let fetch = (let refs = live_trips_on_route db route_id in (refs, entries(route_id \<mapsto> (stored, refs)))) in
      case entries route_id of
        Some (at_time, refs) \<Rightarrow> if asked - at_time < ttl then (refs, entries) else fetch
      | None \<Rightarrow> fetch)"

section \<open>The socket (app/api/routes/ws_track.py)\<close>

definition WS_UNAUTHORIZED :: nat where "WS_UNAUTHORIZED = 4401"
definition WS_ROUTE_NOT_FOUND :: nat where "WS_ROUTE_NOT_FOUND = 4404"

definition authenticate ::
  "(instant \<Rightarrow> string \<Rightarrow> doc option) \<Rightarrow> (string \<Rightarrow> uuid option) \<Rightarrow> (uuid \<Rightarrow> string) \<Rightarrow> bool \<Rightarrow> bool \<Rightarrow> bool \<Rightarrow>
   instant \<Rightarrow> database \<Rightarrow> redis \<Rightarrow> string option \<Rightarrow> (py_error + principal option) \<times> redis" where
  "authenticate jwt_decode uuid_of uuid_text up1 up2 up3 now db r token =
     (case token of
        None \<Rightarrow> (Inr None, r)
      | Some t \<Rightarrow>
          if t = [] then (Inr None, r)
          else (case decode_token jwt_decode now t ''access'' of
              Inl _ \<Rightarrow> (Inr None, r)
            | Inr claims \<Rightarrow>
                if is_revoked up1 now (doc_get claims ''jti'') r then (Inr None, r)
                else (case doc_uuid uuid_of claims ''sub'' of
                    Inl e \<Rightarrow> (if e = KeyError \<or> e = ValueError then (Inr None, r) else (Inl e, r))
                  | Inr user_id \<Rightarrow>
                      (case get_principal_cached uuid_of uuid_text up2 up3 now db r user_id of
                         (None, r') \<Rightarrow> (Inr None, r')
                       | (Some p, r') \<Rightarrow> if pp_status p \<noteq> User_active then (Inr None, r') else (Inr (Some p), r')))))"

text \<open>The handshake: refused with a close code, or accepted and streaming.\<close>

datatype handshake = Closed nat | Accepted

definition track_route ::
  "(instant \<Rightarrow> string \<Rightarrow> doc option) \<Rightarrow> (string \<Rightarrow> uuid option) \<Rightarrow> (uuid \<Rightarrow> string) \<Rightarrow> bool \<Rightarrow> bool \<Rightarrow> bool \<Rightarrow>
   instant \<Rightarrow> database \<Rightarrow> redis \<Rightarrow> string option \<Rightarrow> uuid \<Rightarrow> (py_error + handshake) \<times> redis" where
  "track_route jwt_decode uuid_of uuid_text up1 up2 up3 now db r token route_id =
     (case authenticate jwt_decode uuid_of uuid_text up1 up2 up3 now db r token of
        (Inl e, r') \<Rightarrow> (Inl e, r')
      | (Inr None, r') \<Rightarrow> (Inr (Closed WS_UNAUTHORIZED), r')
      | (Inr (Some _), r') \<Rightarrow>
          if \<not> route_exists db route_id then (Inr (Closed WS_ROUTE_NOT_FOUND), r') else (Inr Accepted, r'))"

text \<open>
  One turn of the stream: what the clocks, the database and Redis hold when it runs, and
  what ends its wait: nothing for the whole interval, a message, or the client leaving.
\<close>

datatype wake = Interval_over | Client_message | Client_left

record tick =
  ti_now :: instant
  ti_asked :: int
  ti_stored :: int
  ti_db :: database
  ti_redis :: redis
  ti_up :: bool
  ti_wake :: wake

fun ws_stream ::
  "(string \<Rightarrow> instant option) \<Rightarrow> (uuid \<Rightarrow> string) \<Rightarrow> int \<Rightarrow> uuid \<Rightarrow> roster_entries \<Rightarrow> tick list \<Rightarrow>
   track_frame list \<times> roster_entries" where
  "ws_stream iso_of uuid_text ttl route_id entries [] = ([], entries)"
| "ws_stream iso_of uuid_text ttl route_id entries (t # ts) =
     (let (refs, entries') = roster_get ttl (ti_asked t) (ti_stored t) (ti_db t) route_id entries;
          frame = build_frame iso_of (ti_up t) uuid_text (ti_db t) (ti_redis t) route_id (ti_now t) (Some refs) in
      if ti_wake t = Client_left then ([frame], entries')
      else (let (frames, final) = ws_stream iso_of uuid_text ttl route_id entries' ts in (frame # frames, final)))"


section \<open>The dashboard (app/api/routes/tracking.py)\<close>

record live_fleet_bus = track_bus_frame +
  lf_route_id :: uuid
  lf_route_name :: string
  lf_route_direction :: route_direction

record live_fleet_out =
  lo_generated_at :: instant
  lo_total :: nat
  lo_live :: nat
  lo_stale :: nat
  lo_lost :: nat
  lo_buses :: "live_fleet_bus list"

definition live_fleet_row ::
  "(string \<Rightarrow> instant option) \<Rightarrow> instant \<Rightarrow> live_trip_ref \<times> route \<Rightarrow> bus_reads \<Rightarrow> live_fleet_bus" where
  "live_fleet_row iso_of now row reads =
     (case (row, reads) of ((ref, x), (raw_pos, raw_seats, raw_eta)) \<Rightarrow>
        let position = parse_position iso_of raw_pos;
            age = position_age position now;
            (occupied, seat_capacity) = parse_seats raw_seats in
        \<lparr>tb_trip_id = lt_trip_id ref, tb_bus_id = lt_bus_id ref, tb_reg_no = lt_reg_no ref,
         tb_nickname = lt_nickname ref, tb_lat = map_option ps_lat position, tb_lng = map_option ps_lng position,
         tb_heading = (case position of None \<Rightarrow> None | Some p \<Rightarrow> ps_heading p),
         tb_speed_kmh = (case position of None \<Rightarrow> None | Some p \<Rightarrow> ps_speed_kmh p),
         tb_fix_ts = map_option ps_ts position, tb_fix_age_s = age, tb_freshness = classify age,
         tb_occupied = occupied,
         tb_capacity = (case seat_capacity of Some c \<Rightarrow> Some c | None \<Rightarrow> Some (lt_capacity ref)),
         tb_next_stop_eta_minutes = next_stop_minutes iso_of raw_eta now,
         lf_route_id = rt_id x, lf_route_name = rt_name x, lf_route_direction = rt_direction x\<rparr>)"

definition live_fleet ::
  "(string \<Rightarrow> instant option) \<Rightarrow> bool \<Rightarrow> (uuid \<Rightarrow> string) \<Rightarrow> instant \<Rightarrow> database \<Rightarrow> redis \<Rightarrow> live_fleet_out" where
  "live_fleet iso_of up uuid_text now db r =
     (let rows = live_trip_columns db in
      if rows = []
      then \<lparr>lo_generated_at = now, lo_total = 0, lo_live = 0, lo_stale = 0, lo_lost = 0, lo_buses = []\<rparr>
      else
        let reads = map (\<lambda>(x, _). read_bus up uuid_text now r (lt_bus_id x) (lt_trip_id x)) rows;
            buses = map2 (live_fleet_row iso_of now) rows reads;
            (live, stale, lost) = foldl tally_add (0, 0, 0) (map tb_freshness buses) in
        \<lparr>lo_generated_at = now, lo_total = length buses, lo_live = live, lo_stale = stale, lo_lost = lost,
         lo_buses = buses\<rparr>)"

section \<open>The console (app/api/routes/admin.py)\<close>

record fleet_bus_out =
  fb_trip_id :: uuid
  fb_bus_id :: uuid
  fb_reg_no :: string
  fb_nickname :: "string option"
  fb_route_id :: uuid
  fb_route_name :: string
  fb_route_direction :: route_direction
  fb_helper_id :: uuid
  fb_helper_name :: string
  fb_started_at :: "instant option"
  fb_lat :: "pyfloat option"
  fb_lng :: "pyfloat option"
  fb_heading :: "pyfloat option"
  fb_speed_kmh :: "pyfloat option"
  fb_fix_ts :: "instant option"
  fb_fix_age_s :: "int option"
  fb_freshness :: gps_freshness
  fb_occupied :: "int option"
  fb_capacity :: "int option"
  fb_next_stop_eta_minutes :: "int option"

record fleet_out =
  fo_generated_at :: instant
  fo_total :: nat
  fo_live :: nat
  fo_stale :: nat
  fo_lost :: nat
  fo_buses :: "fleet_bus_out list"

definition fleet_bus_row ::
  "(string \<Rightarrow> instant option) \<Rightarrow> instant \<Rightarrow> trip \<times> bus \<times> route \<times> helper \<times> user \<Rightarrow> bus_reads \<Rightarrow> fleet_bus_out" where
  "fleet_bus_row iso_of now row reads =
     (case (row, reads) of ((t, b, x, h, u), (raw_pos, raw_seats, raw_eta)) \<Rightarrow>
        let position = parse_position iso_of raw_pos;
            age = position_age position now;
            (occupied, capacity) = parse_seats raw_seats in
        \<lparr>fb_trip_id = tr_id t, fb_bus_id = bs_id b, fb_reg_no = bs_reg_no b, fb_nickname = bs_nickname b,
         fb_route_id = rt_id x, fb_route_name = rt_name x, fb_route_direction = rt_direction x,
         fb_helper_id = hp_id h, fb_helper_name = us_name u, fb_started_at = tr_actual_start t,
         fb_lat = map_option ps_lat position, fb_lng = map_option ps_lng position,
         fb_heading = (case position of None \<Rightarrow> None | Some p \<Rightarrow> ps_heading p),
         fb_speed_kmh = (case position of None \<Rightarrow> None | Some p \<Rightarrow> ps_speed_kmh p),
         fb_fix_ts = map_option ps_ts position, fb_fix_age_s = age, fb_freshness = classify age,
         fb_occupied = occupied,
         fb_capacity = (case capacity of Some c \<Rightarrow> Some c | None \<Rightarrow> Some (bs_capacity b)),
         fb_next_stop_eta_minutes = next_stop_minutes iso_of raw_eta now\<rparr>)"

definition admin_live_fleet ::
  "(string \<Rightarrow> instant option) \<Rightarrow> bool \<Rightarrow> (uuid \<Rightarrow> string) \<Rightarrow> instant \<Rightarrow> database \<Rightarrow> redis \<Rightarrow> fleet_out" where
  "admin_live_fleet iso_of up uuid_text now db r =
     (let rows = live_trips_with_context db in
      if rows = []
      then \<lparr>fo_generated_at = now, fo_total = 0, fo_live = 0, fo_stale = 0, fo_lost = 0, fo_buses = []\<rparr>
      else
        let cached = map (\<lambda>(t, b, _). read_bus up uuid_text now r (bs_id b) (tr_id t)) rows;
            buses = map2 (fleet_bus_row iso_of now) rows cached;
            (live, stale, lost) = foldl tally_add (0, 0, 0) (map fb_freshness buses) in
        \<lparr>fo_generated_at = now, fo_total = length buses, fo_live = live, fo_stale = stale, fo_lost = lost,
         fo_buses = buses\<rparr>)"

section \<open>One bus by its id (app/api/routes/bus_track.py)\<close>

record bus_location_out =
  bl_bus_id :: string
  bl_lat :: "string option"
  bl_lng :: "string option"
  bl_ts :: "string option"

definition get_bus_current_location ::
  "bool \<Rightarrow> instant \<Rightarrow> redis \<Rightarrow> string \<Rightarrow> handler_error + bus_location_out" where
  "get_bus_current_location up now r bus_id =
     (if \<not> up then Inl UncaughtCache
      else let pos = redis_hgetall r now (bus_pos_key bus_id) in
        if pos = [] then Inl (Http (HTTPException 404 ''Bus location not found''))
        else Inr \<lparr>bl_bus_id = bus_id, bl_lat = map_of pos ''lat'', bl_lng = map_of pos ''lng'', bl_ts = map_of pos ''ts''\<rparr>)"

section \<open>Counts\<close>

lemma tally_counts:
  "foldl tally_add (a, b, c) fs =
     (a + length (filter (\<lambda>f. f = Gps_live) fs), b + length (filter (\<lambda>f. f = Gps_stale) fs),
      c + length (filter (\<lambda>f. f = Gps_lost) fs))"
proof (induction fs arbitrary: a b c)
  case (Cons f fs)
  then show ?case by (cases f) simp_all
qed simp

lemma length_three: "length (filter (\<lambda>f. f = Gps_live) fs) + length (filter (\<lambda>f. f = Gps_stale) fs)
    + length (filter (\<lambda>f. f = Gps_lost) fs) = length fs"
proof (induction fs)
  case (Cons f fs)
  then show ?case by (cases f) simp_all
qed simp

lemma zip_map_self: "zip xs (map f xs) = map (\<lambda>x. (x, f x)) xs"
  by (induction xs) simp_all

text \<open>A frame entry by entry.\<close>

definition bus_now ::
  "(string \<Rightarrow> instant option) \<Rightarrow> bool \<Rightarrow> (uuid \<Rightarrow> string) \<Rightarrow> instant \<Rightarrow> redis \<Rightarrow> live_trip_ref \<Rightarrow> track_bus_frame" where
  "bus_now iso_of up uuid_text now r ref =
     bus_frame iso_of now ref (read_bus up uuid_text now r (lt_bus_id ref) (lt_trip_id ref))"

lemma frame_buses:
  "tf_buses (build_frame iso_of up uuid_text db r route_id now (Some refs)) = map (bus_now iso_of up uuid_text now r) refs"
  by (simp add: build_frame_def assemble_frame_def read_redis_def zip_map_self bus_now_def Let_def split: prod.split)

lemma frame_none: "build_frame iso_of up uuid_text db r route_id now None =
    build_frame iso_of up uuid_text db r route_id now (Some (live_trips_on_route db route_id))"
  by (simp add: build_frame_def)

lemma frame_counts:
  assumes "f = build_frame iso_of up uuid_text db r route_id now refs"
  shows "tf_total f = length (tf_buses f) \<and> tf_live f + tf_stale f + tf_lost f = tf_total f \<and>
    tf_live f = length (filter (\<lambda>b. tb_freshness b = Gps_live) (tf_buses f)) \<and>
    tf_stale f = length (filter (\<lambda>b. tb_freshness b = Gps_stale) (tf_buses f)) \<and>
    tf_lost f = length (filter (\<lambda>b. tb_freshness b = Gps_lost) (tf_buses f))"
  using length_three [of "map tb_freshness (tf_buses f)"]
  by (simp add: assms build_frame_def assemble_frame_def tally_counts Let_def filter_map comp_def)

lemma lost_when_down: "tb_freshness (bus_now iso_of False uuid_text now r ref) = Gps_lost"
  by (simp add: bus_now_def bus_frame_def read_bus_def position_age_def age_seconds_def parse_seats_def Let_def)

section \<open>The three maps agree\<close>

lemma filter_by_start: "filter P (by_start ts) = by_start (filter P ts)"
  by (simp add: by_start_def filter_sort conj_commute)

lemma set_by_start [simp]: "set (by_start ts) = set ts"
  by (auto simp: by_start_def)

lemma live_joins:
  assumes "db_ok db" "t \<in> set (db_trips db)"
  obtains b x h u where "get_bus db (tr_bus_id t) = Some b" "get_route db (tr_route_id t) = Some x"
    "get_helper db (tr_helper_id t) = Some h" "get_user db (hp_user_id h) = Some u"
    "bs_id b = tr_bus_id t" "rt_id x = tr_route_id t"
proof -
  have "get_bus db (tr_bus_id t) \<noteq> None" "get_route db (tr_route_id t) \<noteq> None" "get_helper db (tr_helper_id t) \<noteq> None"
    using assms by (auto simp: db_ok_def trips_ok_def list_all_iff)
  then obtain b x h where r: "get_bus db (tr_bus_id t) = Some b" "get_route db (tr_route_id t) = Some x"
    "get_helper db (tr_helper_id t) = Some h" by auto
  then have "h \<in> set (db_helpers db)" by (auto dest: row_get_SomeD)
  then have "get_user db (hp_user_id h) \<noteq> None"
    using assms(1) by (auto simp: db_ok_def identity_ok_def list_all_iff)
  then obtain u where "get_user db (hp_user_id h) = Some u" by auto
  with r show ?thesis by (intro that) (auto dest: row_get_SomeD)
qed

lemma map_filter_total: "(\<And>x. x \<in> set xs \<Longrightarrow> f x = Some (g x)) \<Longrightarrow> List.map_filter f xs = map g xs"
  by (induction xs) (simp_all add: map_filter_simps)

text \<open>What each map draws of a live trip of a consistent database.\<close>

definition ref_of :: "database \<Rightarrow> trip \<Rightarrow> live_trip_ref" where
  "ref_of db t = trip_ref t (the (get_bus db (tr_bus_id t)))"

lemma roster_rows:
  assumes "db_ok db"
  shows "live_trips_on_route db route_id =
    map (ref_of db) (by_start (filter (\<lambda>t. tr_route_id t = route_id \<and> is_live t) (db_trips db)))"
  unfolding live_trips_on_route_def
  by (rule map_filter_total) (auto simp: ref_of_def elim!: live_joins [OF assms])

lemma column_rows:
  assumes "db_ok db"
  shows "live_trip_columns db =
    map (\<lambda>t. (ref_of db t, the (get_route db (tr_route_id t)))) (by_start (filter is_live (db_trips db)))"
  unfolding live_trip_columns_def
  by (rule map_filter_total) (auto simp: ref_of_def elim!: live_joins [OF assms])

lemma context_rows:
  assumes "db_ok db"
  shows "live_trips_with_context db =
    map (\<lambda>t. let h = the (get_helper db (tr_helper_id t)) in
        (t, the (get_bus db (tr_bus_id t)), the (get_route db (tr_route_id t)), h, the (get_user db (hp_user_id h))))
      (by_start (filter is_live (db_trips db)))"
  unfolding live_trips_with_context_def Let_def
  by (rule map_filter_total) (auto elim!: live_joins [OF assms])

definition console_view :: "fleet_bus_out \<Rightarrow> track_bus_frame" where
  "console_view b = \<lparr>tb_trip_id = fb_trip_id b, tb_bus_id = fb_bus_id b, tb_reg_no = fb_reg_no b,
     tb_nickname = fb_nickname b, tb_lat = fb_lat b, tb_lng = fb_lng b, tb_heading = fb_heading b,
     tb_speed_kmh = fb_speed_kmh b, tb_fix_ts = fb_fix_ts b, tb_fix_age_s = fb_fix_age_s b,
     tb_freshness = fb_freshness b, tb_occupied = fb_occupied b, tb_capacity = fb_capacity b,
     tb_next_stop_eta_minutes = fb_next_stop_eta_minutes b\<rparr>"

lemma row_views:
  "track_bus_frame.truncate (live_fleet_row iso_of now (ref, x) reads) = bus_frame iso_of now ref reads"
  "lf_route_id (live_fleet_row iso_of now (ref, x) reads) = rt_id x"
  "console_view (fleet_bus_row iso_of now (t, b, x, h, u) reads) = bus_frame iso_of now (trip_ref t b) reads"
  "fb_route_id (fleet_bus_row iso_of now (t, b, x, h, u) reads) = rt_id x"
  by (simp_all add: live_fleet_row_def bus_frame_def fleet_bus_row_def console_view_def trip_ref_def
      track_bus_frame.defs Let_def split: prod.split option.split)


definition drawn ::
  "(string \<Rightarrow> instant option) \<Rightarrow> bool \<Rightarrow> (uuid \<Rightarrow> string) \<Rightarrow> instant \<Rightarrow> database \<Rightarrow> redis \<Rightarrow> trip \<Rightarrow> track_bus_frame" where
  "drawn iso_of up uuid_text now db r t = bus_now iso_of up uuid_text now r (ref_of db t)"

abbreviation running :: "database \<Rightarrow> trip list" where
  "running db \<equiv> by_start (filter is_live (db_trips db))"

lemma map2_map_both: "map2 f (map g xs) (map h xs) = map (\<lambda>x. f (g x) (h x)) xs"
  by (induction xs) simp_all

lemma dashboard_buses:
  assumes "db_ok db"
  shows "lo_buses (live_fleet iso_of up uuid_text now db r) =
    map (\<lambda>t. live_fleet_row iso_of now (ref_of db t, the (get_route db (tr_route_id t)))
        (read_bus up uuid_text now r (lt_bus_id (ref_of db t)) (lt_trip_id (ref_of db t)))) (running db)"
  by (simp add: live_fleet_def column_rows [OF assms] map2_map_both comp_def Let_def split: prod.split)

lemma console_buses:
  assumes "db_ok db"
  shows "fo_buses (admin_live_fleet iso_of up uuid_text now db r) =
    map (\<lambda>t. let b = the (get_bus db (tr_bus_id t)); h = the (get_helper db (tr_helper_id t)) in
        fleet_bus_row iso_of now (t, b, the (get_route db (tr_route_id t)), h, the (get_user db (hp_user_id h)))
          (read_bus up uuid_text now r (bs_id b) (tr_id t))) (running db)"
  by (simp add: admin_live_fleet_def context_rows [OF assms] map2_map_both comp_def Let_def split: prod.split)

lemma dashboard_counts:
  assumes "l = live_fleet iso_of up uuid_text now db r"
  shows "lo_total l = length (lo_buses l) \<and> foldl tally_add (0, 0, 0) (map tb_freshness (lo_buses l)) = (lo_live l, lo_stale l, lo_lost l)"
  by (auto simp: assms live_fleet_def Let_def split: prod.split)

lemma console_counts:
  assumes "c = admin_live_fleet iso_of up uuid_text now db r"
  shows "fo_total c = length (fo_buses c) \<and> foldl tally_add (0, 0, 0) (map fb_freshness (fo_buses c)) = (fo_live c, fo_stale c, fo_lost c)"
  by (auto simp: assms admin_live_fleet_def Let_def split: prod.split)

lemma dashboard_view:
  assumes "db_ok db"
  shows "map (\<lambda>b. (lf_route_id b, track_bus_frame.truncate b)) (lo_buses (live_fleet iso_of up uuid_text now db r)) =
    map (\<lambda>t. (tr_route_id t, drawn iso_of up uuid_text now db r t)) (running db)"
  unfolding dashboard_buses [OF assms] map_map comp_def row_views
  by (rule map_cong) (auto simp: drawn_def bus_now_def elim!: live_joins [OF assms])

lemma console_view_buses:
  assumes "db_ok db"
  shows "map (\<lambda>b. (fb_route_id b, console_view b)) (fo_buses (admin_live_fleet iso_of up uuid_text now db r)) =
    map (\<lambda>t. (tr_route_id t, drawn iso_of up uuid_text now db r t)) (running db)"
  unfolding console_buses [OF assms] map_map comp_def Let_def row_views
  by (rule map_cong) (auto simp: drawn_def bus_now_def ref_of_def trip_ref_def elim!: live_joins [OF assms])

lemma route_view:
  assumes "db_ok db"
  shows "tf_buses (build_frame iso_of up uuid_text db r route_id now None) =
    map (drawn iso_of up uuid_text now db r) (filter (\<lambda>t. tr_route_id t = route_id) (running db))"
  by (simp add: frame_none frame_buses roster_rows [OF assms] drawn_def [abs_def] comp_def filter_by_start conj_commute)

lemma same_freshness:
  "map (\<lambda>b. (f b, track_bus_frame.truncate b)) xs = map (\<lambda>b. (g b, console_view b)) ys \<Longrightarrow>
   map tb_freshness xs = map fb_freshness ys"
proof -
  assume eq: "map (\<lambda>b. (f b, track_bus_frame.truncate b)) xs = map (\<lambda>b. (g b, console_view b)) ys"
  have "map (\<lambda>p. tb_freshness (snd p)) (map (\<lambda>b. (f b, track_bus_frame.truncate b)) xs) = map tb_freshness xs"
    by (simp add: comp_def track_bus_frame.defs)
  moreover have "map (\<lambda>p. tb_freshness (snd p)) (map (\<lambda>b. (g b, console_view b)) ys) = map fb_freshness ys"
    by (simp add: comp_def console_view_def)
  ultimately show ?thesis by (simp only: eq)
qed

lemma console_dashboard_agree:
  assumes "db_ok db"
  shows "map (\<lambda>b. (lf_route_id b, track_bus_frame.truncate b)) (lo_buses (live_fleet iso_of up uuid_text now db r)) =
      map (\<lambda>b. (fb_route_id b, console_view b)) (fo_buses (admin_live_fleet iso_of up uuid_text now db r))
    \<and> lo_total (live_fleet iso_of up uuid_text now db r) = fo_total (admin_live_fleet iso_of up uuid_text now db r)
    \<and> lo_live (live_fleet iso_of up uuid_text now db r) = fo_live (admin_live_fleet iso_of up uuid_text now db r)
    \<and> lo_stale (live_fleet iso_of up uuid_text now db r) = fo_stale (admin_live_fleet iso_of up uuid_text now db r)
    \<and> lo_lost (live_fleet iso_of up uuid_text now db r) = fo_lost (admin_live_fleet iso_of up uuid_text now db r)"
proof -
  let ?l = "live_fleet iso_of up uuid_text now db r" and ?c = "admin_live_fleet iso_of up uuid_text now db r"
  have eq: "map (\<lambda>b. (lf_route_id b, track_bus_frame.truncate b)) (lo_buses ?l) =
      map (\<lambda>b. (fb_route_id b, console_view b)) (fo_buses ?c)"
    by (simp only: dashboard_view [OF assms] console_view_buses [OF assms])
  have "length (lo_buses ?l) = length (fo_buses ?c)" using arg_cong [OF eq, of length] by simp
  then have "lo_total ?l = fo_total ?c \<and> lo_live ?l = fo_live ?c \<and> lo_stale ?l = fo_stale ?c \<and> lo_lost ?l = fo_lost ?c"
    using dashboard_counts [OF refl, of iso_of up uuid_text now db r] console_counts [OF refl, of iso_of up uuid_text now db r]
    by (simp add: same_freshness [OF eq])
  with eq show ?thesis by blast
qed

text \<open>What the shared roster hands out: the route's trips now, or at a moment the entry is still good for.\<close>

lemma roster_seen:
  assumes "roster_get ttl asked stored db route_id entries = (refs, entries')"
    and "\<And>t trips. entries route_id = Some (t, trips) \<Longrightarrow> t \<le> asked \<and> trips = live_trips_on_route (past t) route_id"
  shows "\<exists>seen. (seen = db \<or> (\<exists>t. asked - ttl < t \<and> t \<le> asked \<and> seen = past t)) \<and> refs = live_trips_on_route seen route_id"
proof (cases "entries route_id")
  case None
  with assms(1) show ?thesis by (auto simp: roster_get_def Let_def)
next
  case (Some e)
  obtain t trips where e: "e = (t, trips)" by (cases e)
  show ?thesis
  proof (cases "asked - t < ttl")
    case True
    with assms(1) Some e have "refs = trips" by (simp add: roster_get_def)
    moreover from assms(2) [of t trips] Some e have "t \<le> asked" "trips = live_trips_on_route (past t) route_id"
      by simp_all
    ultimately have "asked - ttl < t \<and> t \<le> asked" "refs = live_trips_on_route (past t) route_id"
      using True by simp_all
    then show ?thesis by blast
  next
    case False
    with assms(1) Some e show ?thesis by (auto simp: roster_get_def Let_def)
  qed
qed

lemma roster_frame_trips:
  "map tb_trip_id (tf_buses (build_frame iso_of up uuid_text db r route_id now (Some refs))) = map lt_trip_id refs"
proof -
  have "map tb_trip_id (map2 (bus_frame iso_of now) refs (map f refs)) = map lt_trip_id refs" for f
    by (induction refs) (auto simp: bus_frame_def Let_def split: prod.split)
  then show ?thesis
    by (simp add: build_frame_def assemble_frame_def read_redis_def Let_def split: prod.split)
qed

text \<open>
  C32. The live maps never contradict each other beyond the age of the shared roster. Over the same
  database, Redis and instant, and whether or not Redis answers, the console's
  \<^verbatim>\<open>/admin/fleet\<close> and the dashboard's \<^verbatim>\<open>/track/live\<close> draw the same buses on the
  same routes with the same position, freshness, seats and minutes, in the same order and with the same
  counts. The frame a route's socket pushes draws the trips the route had at some moment less than the
  roster's time to live ago, or now; where the route's live trips have not changed since that moment, it is
  exactly the dashboard's buses of that route. (\<open>past t\<close> is the database when the clock read \<open>t\<close>;
  an entry of the roster holds what was read when it was stored.)
\<close>

theorem three_maps_agree:
  assumes "db_ok db"
    and "\<And>t trips. entries route_id = Some (t, trips) \<Longrightarrow> t \<le> asked \<and> trips = live_trips_on_route (past t) route_id"
    and "roster_get ttl asked stored db route_id entries = (refs, entries')"
  shows "map (\<lambda>b. (lf_route_id b, track_bus_frame.truncate b)) (lo_buses (live_fleet iso_of up uuid_text now db r)) =
      map (\<lambda>b. (fb_route_id b, console_view b)) (fo_buses (admin_live_fleet iso_of up uuid_text now db r))
    \<and> lo_total (live_fleet iso_of up uuid_text now db r) = fo_total (admin_live_fleet iso_of up uuid_text now db r)
    \<and> lo_live (live_fleet iso_of up uuid_text now db r) = fo_live (admin_live_fleet iso_of up uuid_text now db r)
    \<and> lo_stale (live_fleet iso_of up uuid_text now db r) = fo_stale (admin_live_fleet iso_of up uuid_text now db r)
    \<and> lo_lost (live_fleet iso_of up uuid_text now db r) = fo_lost (admin_live_fleet iso_of up uuid_text now db r)
    \<and> (\<exists>seen. (seen = db \<or> (\<exists>t. asked - ttl < t \<and> t \<le> asked \<and> seen = past t)) \<and>
        map tb_trip_id (tf_buses (build_frame iso_of up uuid_text db r route_id now (Some refs))) =
          map lt_trip_id (live_trips_on_route seen route_id) \<and>
        (live_trips_on_route seen route_id = live_trips_on_route db route_id \<longrightarrow>
          tf_buses (build_frame iso_of up uuid_text db r route_id now (Some refs)) =
            map track_bus_frame.truncate
              (filter (\<lambda>b. lf_route_id b = route_id) (lo_buses (live_fleet iso_of up uuid_text now db r)))))"
proof -
  let ?l = "live_fleet iso_of up uuid_text now db r"
  note d = dashboard_view [OF assms(1), of iso_of up uuid_text now r]
  have "map snd (filter (\<lambda>p. fst p = route_id) (map (\<lambda>b. (lf_route_id b, track_bus_frame.truncate b)) (lo_buses ?l))) =
      map (drawn iso_of up uuid_text now db r) (filter (\<lambda>t. tr_route_id t = route_id) (running db))"
    unfolding d by (simp add: filter_map comp_def)
  then have "map track_bus_frame.truncate (filter (\<lambda>b. lf_route_id b = route_id) (lo_buses ?l)) =
      tf_buses (build_frame iso_of up uuid_text db r route_id now None)"
    by (simp add: filter_map comp_def route_view [OF assms(1)])
  moreover have "build_frame iso_of up uuid_text db r route_id now None =
      build_frame iso_of up uuid_text db r route_id now (Some (live_trips_on_route db route_id))"
    by (simp add: build_frame_def)
  moreover obtain seen where "seen = db \<or> (\<exists>t. asked - ttl < t \<and> t \<le> asked \<and> seen = past t)"
      "refs = live_trips_on_route seen route_id"
    using roster_seen [OF assms(3), of past] assms(2) by blast
  ultimately show ?thesis
    using console_dashboard_agree [OF assms(1), of iso_of up uuid_text now r]
      roster_frame_trips [of iso_of up uuid_text db r route_id now refs] by metis
qed

text \<open>A roster read two seconds ago, when the trip was already running.\<close>

theorem three_maps_agree_witness:
  "length (fo_buses (admin_live_fleet (\<lambda>_. None) True unary_text demo_now demo_db empty_redis)) = 1 \<and>
   tf_buses (build_frame (\<lambda>_. None) True unary_text demo_db empty_redis 51 demo_now
       (Some (fst (roster_get 5 100 100 demo_db 51 [51 \<mapsto> (98::int, live_trips_on_route demo_db 51)])))) =
     map console_view (fo_buses (admin_live_fleet (\<lambda>_. None) True unary_text demo_now demo_db empty_redis))"
proof -
  let ?entries = "[51 \<mapsto> (98::int, live_trips_on_route demo_db 51)]"
  obtain refs entries' where g: "roster_get 5 100 100 demo_db 51 ?entries = (refs, entries')" by fastforce
  have "t \<le> 100 \<and> trips = live_trips_on_route demo_db 51" if "?entries 51 = Some (t, trips)" for t trips
    using that by simp
  note all = three_maps_agree [OF demo_db_ok this g, of "\<lambda>_. None" True unary_text demo_now empty_redis]
  have "running demo_db = [demo_trip]" "tr_route_id demo_trip = 51"
    by (simp_all add: by_start_def demo_defs)
  then have "map (\<lambda>b. (lf_route_id b, track_bus_frame.truncate b)) (lo_buses (live_fleet (\<lambda>_. None) True unary_text demo_now demo_db empty_redis))
      = [(51, drawn (\<lambda>_. None) True unary_text demo_now demo_db empty_redis demo_trip)]"
    using dashboard_view [OF demo_db_ok, of "\<lambda>_. None" True unary_text demo_now empty_redis] by simp
  with all show ?thesis by (auto simp: map_eq_Cons_conv g)
qed

section \<open>The socket's door is the API's\<close>

text \<open>
  C33. The socket checks its token as the HTTP guard checks its own: for the same token,
  database and Redis, \<^verbatim>\<open>authenticate\<close> admits exactly whom
  \<^verbatim>\<open>require_authenticated\<close> admits, as the same principal, turns every refusal of the
  guard into its own refusal, and leaves the same snapshot cached.
\<close>

theorem socket_door_is_the_http_guard:
  assumes "token \<noteq> []"
  shows "authenticate jwt_decode uuid_of uuid_text up1 up2 up3 now db r (Some token) =
    (case authorize jwt_decode uuid_of uuid_text up1 up2 up3 require_authenticated now db r token of
       (Inr p, r') \<Rightarrow> (Inr (Some p), r')
     | (Inl (Uncaught e), r') \<Rightarrow> (Inl e, r')
     | (Inl _, r') \<Rightarrow> (Inr None, r'))"
  using assms
  by (auto simp: authenticate_def authorize_def get_access_claims_def get_principal_def require_authenticated_def
      guard_def is_active_def split: sum.split prod.split option.split user_status.splits)


theorem socket_door_is_the_http_guard_witness:
  "\<exists>p r'. authenticate count_decode unary_of unary_text True True True demo_now demo_db empty_redis
      (Some (count_encode (access_claims 2 Role_admin))) = (Inr (Some p), r') \<and> pp_user_id p = 2"
proof -
  let ?token = "count_encode (access_claims 2 Role_admin)"
  have ne: "?token \<noteq> []" by (simp add: count_encode_def unary_text_def)
  have sub: "doc_uuid unary_of (access_claims 2 Role_admin) ''sub'' = Inr 2"
    by (simp add: doc_uuid_def access_claims_def token_claims_def unary)
  have load: "load_principal demo_db 2 = Some \<lparr>pp_user_id = 2, pp_role = Role_helper, pp_status = User_active,
      pp_helper_id = Some 21, pp_helper_status = Some Helper_approved\<rparr>"
    by (simp add: load_principal_def helper_by_user_id_def demo_defs)
  have claims: "get_access_claims count_decode True demo_now empty_redis ?token = Inr (access_claims 2 Role_admin)"
    unfolding get_access_claims_def decode_token_def access_decodes
    by (simp add: is_revoked_def redis_get_def empty_redis_def)
      (simp add: access_claims_def token_claims_def doc_get_def)
  obtain r' where "get_principal_cached unary_of unary_text True True demo_now demo_db empty_redis 2
      = (Some \<lparr>pp_user_id = 2, pp_role = Role_helper, pp_status = User_active,
          pp_helper_id = Some 21, pp_helper_status = Some Helper_approved\<rparr>, r')"
    using load by (simp add: get_principal_cached_def cached_principal_def redis_get_def empty_redis_def)
  with claims sub have "authorize count_decode unary_of unary_text True True True require_authenticated demo_now demo_db empty_redis ?token
      = (Inr \<lparr>pp_user_id = 2, pp_role = Role_helper, pp_status = User_active,
          pp_helper_id = Some 21, pp_helper_status = Some Helper_approved\<rparr>, r')"
    by (simp add: authorize_def get_principal_def require_authenticated_def guard_def is_active_def)
  with socket_door_is_the_http_guard [OF ne, of count_decode unary_of unary_text True True True demo_now demo_db empty_redis]
  show ?thesis by simp
qed

section \<open>How long a position lives\<close>

lemma newest_fold:
  "foldl (\<lambda>best q. if gp_ts q > gp_ts best then q else best) p ps \<in> insert p (set ps) \<and>
   (\<forall>q \<in> insert p (set ps). gp_ts q \<le> gp_ts (foldl (\<lambda>best q. if gp_ts q > gp_ts best then q else best) p ps))"
proof (induction ps arbitrary: p)
  case (Cons q ps)
  show ?case
    using Cons.IH [of "if gp_ts q > gp_ts p then q else p"] by (auto split: if_splits)
qed simp

lemma newest_point_SomeD: "newest_point ps = Some p \<Longrightarrow> p \<in> set ps \<and> (\<forall>q \<in> set ps. gp_ts q \<le> gp_ts p)"
  using newest_fold by (cases ps) (auto simp del: foldl_Cons)

lemma newest_point_ex: "ps \<noteq> [] \<Longrightarrow> \<exists>p. newest_point ps = Some p"
  by (cases ps) simp_all

text \<open>The value a live batch leaves under the bus's key, with its expiry.\<close>

lemma pipeline_position:
  assumes "newest_point points = Some p"
  shows "\<exists>others. re_data (gps_pipeline uuid_text float_text iso_text now True bus_id helper_id trip_id points r)
      (bus_pos_key (uuid_text bus_id)) =
    Some (RHash (position_fields uuid_text float_text iso_text now trip_id p @ others), Some (now + 60 * second))"
  using assms
  by (auto simp: gps_pipeline_def xadd_all Let_def redis_publish_def redis_expire_def redis_hset_def redis_set_def
      redis_get_def split: option.splits)

lemma pipeline_other_data:
  assumes "k \<noteq> bus_pos_key (uuid_text bus_id)"
  shows "re_data (gps_pipeline uuid_text float_text iso_text now live bus_id helper_id trip_id ps r) k = re_data r k"
  using assms
  by (auto simp: gps_pipeline_def xadd_all Let_def redis_publish_def redis_expire_def redis_hset_def redis_set_def
      split: bool.split option.split)

text \<open>Every position in Redis says when it was received and goes a minute later.\<close>

definition positions_dated :: "(instant \<Rightarrow> string) \<Rightarrow> redis \<Rightarrow> bool" where
  "positions_dated iso_text r \<longleftrightarrow>
     (\<forall>b v e. re_data r (bus_pos_key b) = Some (v, e) \<longrightarrow>
        (\<exists>t fs. v = RHash fs \<and> e = Some (t + 60 * second) \<and> map_of fs ''ingested_at'' = Some (iso_text t)))"

lemma positions_datedD:
  assumes "positions_dated iso_text r" "re_data r (bus_pos_key b) = Some (v, e)"
  obtains t fs where "v = RHash fs" "e = Some (t + 60 * second)" "map_of fs ''ingested_at'' = Some (iso_text t)"
  using assms unfolding positions_dated_def by blast

lemma pipeline_dated:
  assumes "positions_dated iso_text r"
  shows "positions_dated iso_text (gps_pipeline uuid_text float_text iso_text now live bus_id helper_id trip_id points r)"
proof (cases "live \<and> points \<noteq> []")
  case True
  then obtain p where p: "newest_point points = Some p" using newest_point_ex by blast
  obtain others where d: "re_data (gps_pipeline uuid_text float_text iso_text now True bus_id helper_id trip_id points r)
      (bus_pos_key (uuid_text bus_id)) =
      Some (RHash (position_fields uuid_text float_text iso_text now trip_id p @ others), Some (now + 60 * second))"
    using pipeline_position [OF p] by blast
  have "map_of (position_fields uuid_text float_text iso_text now trip_id p) ''ingested_at'' = Some (iso_text now)"
    by (simp add: position_fields_def)
  with d assms True show ?thesis
    unfolding positions_dated_def
    by (intro allI impI; rename_tac b v e; case_tac "b = uuid_text bus_id")
      (auto simp: pipeline_other_data map_add_def)
next
  case False
  then have "re_data (gps_pipeline uuid_text float_text iso_text now live bus_id helper_id trip_id points r) = re_data r"
    by (cases live) (auto simp: gps_pipeline_def xadd_all Let_def)
  with assms show ?thesis by (simp add: positions_dated_def)
qed

text \<open>Reading a dated position: live for its minute, lost after it, and never stale.\<close>

lemma dated_never_stale:
  assumes "positions_dated iso_text r" "\<And>t. iso_of (iso_text t) = Some t" "\<And>t. iso_text t \<noteq> []"
  shows "tb_freshness (bus_now iso_of up uuid_text now r ref) \<noteq> Gps_stale"
proof (cases "up \<and> redis_hgetall r now (bus_pos_key (uuid_text (lt_bus_id ref))) \<noteq> []")
  case True
  then obtain fs e where d: "re_data r (bus_pos_key (uuid_text (lt_bus_id ref))) = Some (RHash fs, e)"
    "case e of None \<Rightarrow> True | Some x \<Rightarrow> now < x" "redis_hgetall r now (bus_pos_key (uuid_text (lt_bus_id ref))) = fs"
    by (auto simp: redis_hgetall_def redis_get_def split: option.splits redis_value.splits if_splits)
  obtain t where t: "e = Some (t + 60 * second)" "map_of fs ''ingested_at'' = Some (iso_text t)"
    using assms(1) d(1) by (rule positions_datedD) simp
  show ?thesis
  proof (cases "parse_position iso_of (Some fs)")
    case None
    with True d(3) show ?thesis
      by (simp add: bus_now_def bus_frame_def read_bus_def position_age_def age_seconds_def Let_def split: prod.split)
  next
    case (Some p)
    then have "ps_ingested_at p = Some t"
      using t(2) assms(2,3)
      by (auto simp: parse_position_def received_at_def Let_def split: option.splits)
    moreover have "(now - t) div second \<le> 60" using d(2) t(1) by simp
    ultimately show ?thesis
      using True Some d(3)
      by (simp add: bus_now_def bus_frame_def read_bus_def position_age_def age_seconds_def classify_def
          LIVE_MAX_AGE_S_def Let_def split: prod.split)
  qed
next
  case False
  then show ?thesis
    by (cases up) (simp_all add: bus_now_def bus_frame_def read_bus_def position_age_def age_seconds_def Let_def
        split: prod.split)
qed


text \<open>The keys the rest of the program writes are none of the positions'.\<close>

lemma other_writes_keep_positions:
  "re_data (redis_set (helper_trip_key i) v e r) (bus_pos_key b) = re_data r (bus_pos_key b)"
  "re_data (redis_delete (helper_trip_key i) r) (bus_pos_key b) = re_data r (bus_pos_key b)"
  by (simp_all add: redis_set_def redis_delete_def)

lemma seats_keep_positions:
  "re_data (snd (publish_seats up uuid_text iso_text now r bus trip_id n t)) (bus_pos_key b) = re_data r (bus_pos_key b)"
proof -
  have "bus_pos_key b \<noteq> bus_seats_key (uuid_text (bs_id bus))"
  proof
    assume "bus_pos_key b = bus_seats_key (uuid_text (bs_id bus))"
    then have "last (bus_pos_key b) = last (bus_seats_key (uuid_text (bs_id bus)))"
      and "last (butlast (bus_pos_key b)) = last (butlast (bus_seats_key (uuid_text (bs_id bus))))" by simp_all
    then show False by (simp add: bus_pos_key_def bus_seats_key_def butlast_append)
  qed
  then show ?thesis
    by (simp add: publish_seats_def redis_expire_def redis_hset_def redis_set_def Let_def split: option.split)
qed

lemma active_keeps_positions:
  "re_data (snd (get_active_trip uuid_of uuid_text up1 up2 now db r h)) (bus_pos_key b) = re_data r (bus_pos_key b)"
  by (auto simp: get_active_trip_def cache_active_def other_writes_keep_positions split: option.split sum.split)

text \<open>
  What can happen to Redis as the map sees it: a batch is ingested, a position is evicted or
  runs out, or something else is written.
\<close>

inductive map_step ::
  "(string \<Rightarrow> uuid option) \<Rightarrow> (uuid \<Rightarrow> string) \<Rightarrow> (real \<Rightarrow> string) \<Rightarrow> (instant \<Rightarrow> string) \<Rightarrow> redis \<Rightarrow> redis \<Rightarrow> bool"
  for uuid_of uuid_text float_text iso_text where
  batch: "ingest_gps uuid_of uuid_text float_text iso_text up1 up2 up3 now db r helper_id bus_id points = (answer, r') \<Longrightarrow>
    map_step uuid_of uuid_text float_text iso_text r r'"
| seats: "publish_seats up uuid_text iso_text now r bus trip_id n t = (answer, r') \<Longrightarrow>
    map_step uuid_of uuid_text float_text iso_text r r'"
| elsewhere: "(\<And>b. re_data r' (bus_pos_key b) = re_data r (bus_pos_key b) \<or> re_data r' (bus_pos_key b) = None) \<Longrightarrow>
    map_step uuid_of uuid_text float_text iso_text r r'"

lemma dated_by_keys:
  assumes "positions_dated iso_text r"
    and "\<And>b. re_data r' (bus_pos_key b) = re_data r (bus_pos_key b) \<or> re_data r' (bus_pos_key b) = None"
  shows "positions_dated iso_text r'"
  using assms unfolding positions_dated_def by (metis option.distinct(1))

lemma ingest_dated:
  assumes "ingest_gps uuid_of uuid_text float_text iso_text up1 up2 up3 now db r helper_id bus_id points = (answer, r')"
    and "positions_dated iso_text r"
  shows "positions_dated iso_text r'"
proof -
  define r1 where "r1 = snd (get_active_trip uuid_of uuid_text up1 up2 now db r helper_id)"
  have "positions_dated iso_text r1"
    using assms(2) by (rule dated_by_keys) (simp add: r1_def active_keeps_positions)
  moreover have "r' = r1 \<or> (\<exists>live b t. r' = gps_pipeline uuid_text float_text iso_text now live b helper_id t points r1)"
    using assms(1)
    by (auto simp: ingest_gps_def r1_def Let_def split: prod.splits sum.splits option.splits if_splits)
  ultimately show ?thesis using pipeline_dated by metis
qed

lemma map_step_dated:
  "map_step uuid_of uuid_text float_text iso_text r r' \<Longrightarrow> positions_dated iso_text r \<Longrightarrow> positions_dated iso_text r'"
proof (induction rule: map_step.induct)
  case batch
  then show ?case by (rule ingest_dated)
next
  case (seats up now r bus trip_id n t answer r')
  have "re_data r' (bus_pos_key b) = re_data r (bus_pos_key b)" for b
    using arg_cong [OF seats.hyps, of snd] seats_keep_positions [of up uuid_text iso_text now r bus trip_id n t b] by (simp only: snd_conv)
  then show ?case by (rule dated_by_keys [OF seats.prems, OF disjI1])
next
  case (elsewhere r' r)
  from elsewhere.prems elsewhere.hyps show ?case by (rule dated_by_keys)
qed

interpretation map_machine: guarded_machine "map_step uuid_of uuid_text float_text iso_text" "positions_dated iso_text"
  for uuid_of uuid_text float_text iso_text
  by unfold_locales (rule map_step_dated)

text \<open>
  A position is on the map for exactly one minute. After an accepted batch of the live
  trip, every frame of the next sixty seconds shows the bus at the newest fix of the batch, live,
  aged by the server's clock whatever the phone's said; from the sixtieth second on, until
  something else arrives, the bus is lost and has no position.
\<close>

theorem position_lives_one_minute:
  assumes "ingest_gps uuid_of uuid_text float_text iso_text up1 up2 up3 now db r helper_id bus_id points = (Inr out, r')"
    and "live_trip db helper_id = Some a" "points \<noteq> []" "db_ok db"
    and "\<And>i. uuid_of (uuid_text i) = Some i" "\<And>t. iso_of (iso_text t) = Some t" "\<And>t. iso_text t \<noteq> []"
    and "coherent (cached_trip uuid_of uuid_text now) live_trip db r"
    and "list_all (\<lambda>q. py_float (float_text (gp_lat q)) \<noteq> None \<and> py_float (float_text (gp_lng q)) \<noteq> None) points"
    and "lt_bus_id ref = bus_id" "now \<le> later"
  shows "\<exists>p \<in> set points. (\<forall>q \<in> set points. gp_ts q \<le> gp_ts p) \<and>
    (let b = bus_now iso_of True uuid_text later r' ref in
     if later < now + 60 * second
     then tb_lat b = py_float (float_text (gp_lat p)) \<and> tb_lng b = py_float (float_text (gp_lng p)) \<and>
       tb_lat b \<noteq> None \<and> tb_fix_ts b = Some (gp_ts p) \<and> tb_fix_age_s b = Some ((later - now) div second) \<and>
       tb_freshness b = Gps_live
     else tb_lat b = None \<and> tb_lng b = None \<and> tb_freshness b = Gps_lost)"
proof -
  obtain p where p: "newest_point points = Some p" using newest_point_ex [OF assms(3)] by blast
  note np = newest_point_SomeD [OF p]
  obtain r1 where g: "get_active_trip uuid_of uuid_text up1 up2 now db r helper_id = (Inr (Some a), r1)"
    using get_active_is_live [OF assms(5,8,4)] assms(2) by (metis prod.collapse)
  with assms(1) have r': "r' = gps_pipeline uuid_text float_text iso_text now True bus_id helper_id (at_trip_id a) points r1"
    by (auto simp: ingest_gps_def split: if_splits)
  obtain others where d: "re_data r' (bus_pos_key (uuid_text bus_id)) =
      Some (RHash (position_fields uuid_text float_text iso_text now (at_trip_id a) p @ others), Some (now + 60 * second))"
    using pipeline_position [OF p] r' by blast
  let ?fs = "position_fields uuid_text float_text iso_text now (at_trip_id a) p @ others"
  have h: "redis_hgetall r' later (bus_pos_key (uuid_text bus_id)) = (if later < now + 60 * second then ?fs else [])"
    by (simp add: redis_hgetall_def redis_get_def d)
  obtain x y where xy: "py_float (float_text (gp_lat p)) = Some x" "py_float (float_text (gp_lng p)) = Some y"
    using assms(9) np by (fastforce simp: list_all_iff)
  obtain hd v where pos: "parse_position iso_of (Some ?fs) = Some \<lparr>ps_lat = x, ps_lng = y, ps_ts = gp_ts p,
      ps_heading = hd, ps_speed_kmh = v, ps_ingested_at = Some now\<rparr>"
    using parse_written_position [where float_text = float_text and iso_of = iso_of and iso_text = iso_text,
        OF xy assms(6,6,7) refl] by blast
  show ?thesis
  proof (intro bexI conjI)
    show "p \<in> set points" "\<forall>q \<in> set points. gp_ts q \<le> gp_ts p" using np by simp_all
    have "(later - now) div second \<le> 60" if "later < now + 60 * second" using that by simp
    then show "let b = bus_now iso_of True uuid_text later r' ref in
       if later < now + 60 * second
       then tb_lat b = py_float (float_text (gp_lat p)) \<and> tb_lng b = py_float (float_text (gp_lng p)) \<and>
         tb_lat b \<noteq> None \<and> tb_fix_ts b = Some (gp_ts p) \<and> tb_fix_age_s b = Some ((later - now) div second) \<and>
         tb_freshness b = Gps_live
       else tb_lat b = None \<and> tb_lng b = None \<and> tb_freshness b = Gps_lost"
      using pos xy assms(10,11)
      by (auto simp: bus_now_def bus_frame_def read_bus_def h position_age_def age_seconds_def classify_def
          LIVE_MAX_AGE_S_def Let_def split: prod.split)
  qed
qed


definition tally_iso_text :: "instant \<Rightarrow> string" where "tally_iso_text t = unary_text (int_encode t)"
definition tally_iso_of :: "string \<Rightarrow> instant option" where "tally_iso_of s = map_option int_decode (unary_of s)"

lemma tally_iso: "tally_iso_of (tally_iso_text t) = Some t" "tally_iso_text t \<noteq> []"
  by (simp_all add: tally_iso_of_def tally_iso_text_def unary) (simp add: unary_text_def)

lemma py_float_one: "py_float ''1'' = Some (Dec 1 0)"
  by code_simp

lemma demo_live: "live_trip demo_db 21 = Some \<lparr>at_trip_id = 71, at_bus_id = 31, at_route_id = 51\<rparr>"
  by (simp add: live_trip_def from_model_def demo_defs)

lemma demo_ingest:
  "\<exists>out r'. ingest_gps unary_of unary_text (\<lambda>_. ''1'') tally_iso_text True True True demo_now demo_db empty_redis 21 31
      [demo_point] = (Inr out, r')"
proof -
  obtain r1 where "get_active_trip unary_of unary_text True True demo_now demo_db empty_redis 21 = (Inr (live_trip demo_db 21), r1)"
    using get_active_is_live [OF unary empty_coherent demo_db_ok] by (metis prod.collapse)
  then show ?thesis by (simp add: ingest_gps_def demo_live)
qed

theorem position_lives_one_minute_witness:
  "\<exists>r'. tb_freshness (bus_now tally_iso_of True unary_text (demo_now + 59 * second) r' (trip_ref demo_trip demo_bus)) = Gps_live \<and>
     tb_fix_age_s (bus_now tally_iso_of True unary_text (demo_now + 59 * second) r' (trip_ref demo_trip demo_bus)) = Some 59 \<and>
     tb_freshness (bus_now tally_iso_of True unary_text (demo_now + 60 * second) r' (trip_ref demo_trip demo_bus)) = Gps_lost"
proof -
  obtain out r' where i: "ingest_gps unary_of unary_text (\<lambda>_. ''1'') tally_iso_text True True True demo_now demo_db
      empty_redis 21 31 [demo_point] = (Inr out, r')" using demo_ingest by blast
  have f: "list_all (\<lambda>q. py_float ((\<lambda>_. ''1'') (gp_lat q)) \<noteq> None \<and> py_float ((\<lambda>_. ''1'') (gp_lng q)) \<noteq> None) [demo_point]"
    using py_float_one by simp
  have b: "lt_bus_id (trip_ref demo_trip demo_bus) = 31" by (simp add: trip_ref_def demo_defs)
  note all = position_lives_one_minute [OF i demo_live _ demo_db_ok unary tally_iso empty_coherent f b]
  from all [of "demo_now + 59 * second"] all [of "demo_now + 60 * second"] show ?thesis
    by (intro exI [of _ r']) (simp add: Let_def)
qed

text \<open>
  Amber is never shown: in whatever way Redis came to be what it is, no map of any database
  and instant has a stale bus. The key outlives its fix by exactly the sixty seconds a fix counts
  as live, so what is not live is already lost.
\<close>

theorem no_position_ever_reads_stale:
  assumes "(map_step uuid_of uuid_text float_text iso_text)\<^sup>*\<^sup>* empty_redis r"
    and "\<And>t. iso_of (iso_text t) = Some t" "\<And>t. iso_text t \<noteq> []"
  shows "tf_stale (build_frame iso_of up uuid_text db r route_id now refs) = 0 \<and>
    (db_ok db \<longrightarrow> lo_stale (live_fleet iso_of up uuid_text now db r) = 0 \<and>
       fo_stale (admin_live_fleet iso_of up uuid_text now db r) = 0)"
proof -
  have "positions_dated iso_text empty_redis" by (simp add: positions_dated_def empty_redis_def)
  then have d: "positions_dated iso_text r" using assms(1) by (blast intro: map_machine.run_inv)
  note never = dated_never_stale [OF d assms(2,3)]
  have f: "tf_stale (build_frame iso_of up uuid_text db r route_id now (Some xs)) = 0" for xs
    using frame_counts [OF refl, of iso_of up uuid_text db r route_id now "Some xs"] never
    by (simp add: frame_buses filter_map comp_def)
  moreover have "lo_stale (live_fleet iso_of up uuid_text now db r) = 0" if ok: "db_ok db"
  proof -
    let ?l = "live_fleet iso_of up uuid_text now db r"
    have "map tb_freshness (lo_buses ?l) = map (\<lambda>p. tb_freshness (snd p)) (map (\<lambda>b. (lf_route_id b, track_bus_frame.truncate b)) (lo_buses ?l))"
      by (simp add: comp_def track_bus_frame.defs)
    also have "\<dots> = map (\<lambda>t. tb_freshness (drawn iso_of up uuid_text now db r t)) (running db)"
      by (simp add: dashboard_view [OF ok] comp_def)
    finally have "Gps_stale \<notin> set (map tb_freshness (lo_buses ?l))"
      using never by (auto simp: drawn_def dest: sym)
    then have "filter (\<lambda>f. f = Gps_stale) (map tb_freshness (lo_buses ?l)) = []"
      unfolding filter_empty_conv by blast
    then show ?thesis using dashboard_counts [OF refl, of iso_of up uuid_text now db r] by (simp add: tally_counts)
  qed
  ultimately show ?thesis
    using console_dashboard_agree [of db iso_of up uuid_text now r] frame_none [of iso_of up uuid_text db r route_id now]
    by (cases refs) simp_all
qed

section \<open>How old a roster can be\<close>

text \<open>
  \<open>hist m\<close> is the database at the monotonic instant \<open>m\<close>; every entry of the shared roster
  is what the database said when it was stored.
\<close>

definition roster_true :: "(int \<Rightarrow> database) \<Rightarrow> roster_entries \<Rightarrow> bool" where
  "roster_true hist entries \<longleftrightarrow>
     (\<forall>i m refs. entries i = Some (m, refs) \<longrightarrow> refs = live_trips_on_route (hist m) i)"

lemma roster_get_true:
  assumes "roster_true hist entries" "roster_get ttl asked stored (hist stored) i entries = (refs, entries')" "asked \<le> stored" "0 < ttl"
  shows "roster_true hist entries' \<and> (\<exists>m. asked - ttl < m \<and> refs = live_trips_on_route (hist m) i)"
proof (cases "\<exists>m xs. entries i = Some (m, xs) \<and> asked - m < ttl")
  case True
  then obtain m xs where e: "entries i = Some (m, xs)" "asked - m < ttl" by blast
  with assms(2) have "refs = xs" "entries' = entries" by (simp_all add: roster_get_def Let_def)
  with e assms(1) show ?thesis by (auto simp: roster_true_def intro!: exI [of _ m])
next
  case False
  then have r: "refs = live_trips_on_route (hist stored) i" "entries' = entries(i \<mapsto> (stored, refs))"
    using assms(2) by (auto simp: roster_get_def Let_def split: option.splits if_splits)
  then have "roster_true hist entries'" using assms(1) by (simp add: roster_true_def)
  with r assms(3,4) show ?thesis by (intro conjI exI [of _ stored]) auto
qed

text \<open>
  A route's stream is bounded in what it misses: every frame is drawn from the roster the
  database gave less than \<open>ttl\<close> before the frame was asked for, shared cache and all.
\<close>

theorem frames_use_a_recent_roster:
  assumes "roster_true hist entries" "0 < ttl"
    and "list_all (\<lambda>t. ti_asked t \<le> ti_stored t \<and> ti_db t = hist (ti_stored t)) ticks"
    and "ws_stream iso_of uuid_text ttl route_id entries ticks = (frames, entries')"
  shows "list_all2 (\<lambda>f t. \<exists>m. ti_asked t - ttl < m \<and>
      f = build_frame iso_of (ti_up t) uuid_text (ti_db t) (ti_redis t) route_id (ti_now t)
        (Some (live_trips_on_route (hist m) route_id))) frames (take (length frames) ticks)"
  using assms(1,3,4)
proof (induction ticks arbitrary: entries frames entries')
  case (Cons t ts)
  obtain refs e1 where g: "roster_get ttl (ti_asked t) (ti_stored t) (ti_db t) route_id entries = (refs, e1)" by fastforce
  have h: "ti_asked t \<le> ti_stored t" "ti_db t = hist (ti_stored t)" using Cons.prems(2) by simp_all
  obtain m where m: "roster_true hist e1" "ti_asked t - ttl < m" "refs = live_trips_on_route (hist m) route_id"
    using roster_get_true [OF Cons.prems(1) g [unfolded h(2)] h(1) assms(2)] by blast
  let ?f = "build_frame iso_of (ti_up t) uuid_text (ti_db t) (ti_redis t) route_id (ti_now t) (Some refs)"
  obtain fs e2 where s: "ws_stream iso_of uuid_text ttl route_id e1 ts = (fs, e2)" by fastforce
  note IH = Cons.IH [OF m(1) _ s]
  have "frames = [?f] \<or> frames = ?f # fs"
    using Cons.prems(3) g s by (auto simp: Let_def split: if_splits)
  then show ?case using IH Cons.prems(2) m(2,3) by auto
qed simp

end
