(* ===== verification/Eta.thy ===== *)
theory Eta
  imports Models "HOL-Library.Sublist"
begin

text \<open>
  When the bus gets here: \<^verbatim>\<open>app/services/eta.py\<close>. Distances, speeds and coordinates
  are real numbers (the code's floats without their rounding); instants and durations are whole
  microseconds, and where the code turns a float into one it rounds half to even, as Python does.
\<close>

section \<open>Constants and shapes\<close>

definition ROAD_FACTOR :: real where "ROAD_FACTOR = 13 / 10"
definition MIN_USABLE_KMH :: real where "MIN_USABLE_KMH = 3"
definition MAX_PLAUSIBLE_KMH :: real where "MAX_PLAUSIBLE_KMH = 80"
definition SPEED_HORIZON_STOPS :: nat where "SPEED_HORIZON_STOPS = 2"
definition MAX_HORIZON :: int where "MAX_HORIZON = 3 * hour"
definition STALE_FIX_S :: int where "STALE_FIX_S = 5 * 60"
definition EARTH_RADIUS_KM :: real where "EARTH_RADIUS_KM = 63710088 / 10000"

record point =
  pt_lat :: real
  pt_lng :: real

record gps_fix =
  fx_lat :: real
  fx_lng :: real
  fx_ts :: instant

record route_point =
  rp_stop_id :: string
  rp_seq :: int
  rp_lat :: real
  rp_lng :: real
  rp_scheduled_offset_min :: "int option"

record progress =
  pg_seq :: int
  pg_at :: instant

record arrival =
  ar_stop_id :: string
  ar_seq :: int
  ar_eta :: instant
  ar_basis :: string
  ar_distance_km :: real

definition fix_point :: "gps_fix \<Rightarrow> point" where "fix_point f = \<lparr>pt_lat = fx_lat f, pt_lng = fx_lng f\<rparr>"
definition stop_point :: "route_point \<Rightarrow> point" where "stop_point p = \<lparr>pt_lat = rp_lat p, pt_lng = rp_lng p\<rparr>"

text \<open>\<^verbatim>\<open>round(x)\<close>: to the nearest integer, ties to the even one.\<close>

definition py_round :: "real \<Rightarrow> int" where
  "py_round x = (let n = \<lfloor>x\<rfloor>; r = x - of_int n in
     if r < 1 / 2 then n else if 1 / 2 < r then n + 1 else if even n then n else n + 1)"

section \<open>Distance and speed\<close>

definition radians :: "real \<Rightarrow> real" where "radians x = x * pi / 180"

definition haversine_h :: "point \<Rightarrow> point \<Rightarrow> real" where
  "haversine_h a b =
     (let lat1 = radians (pt_lat a); lng1 = radians (pt_lng a);
          lat2 = radians (pt_lat b); lng2 = radians (pt_lng b);
          dlat = lat2 - lat1; dlng = lng2 - lng1
      in sin (dlat / 2) ^ 2 + cos lat1 * cos lat2 * sin (dlng / 2) ^ 2)"

definition haversine_km :: "point \<Rightarrow> point \<Rightarrow> real" where
  "haversine_km a b = 2 * EARTH_RADIUS_KM * arcsin (sqrt (haversine_h a b))"

definition path_km :: "gps_fix list \<Rightarrow> real" where
  "path_km fs = (\<Sum>(a, b) \<leftarrow> zip fs (tl fs). haversine_km (fix_point a) (fix_point b))"

definition rolling_speed_kmh :: "gps_fix list \<Rightarrow> instant \<Rightarrow> real option" where
  "rolling_speed_kmh fixes now =
     (if length fixes < 2 then None
      else
        let ordered = sort_key fx_ts fixes; newest = last ordered in
        if now - fx_ts newest > STALE_FIX_S * second then None
        else
          let elapsed_h = of_int (fx_ts newest - fx_ts (hd ordered)) / of_int second / 3600 in
          if elapsed_h \<le> 0 then None
          else
            let speed = path_km ordered / elapsed_h in
            if speed < MIN_USABLE_KMH \<or> speed > MAX_PLAUSIBLE_KMH then None else Some speed)"

section \<open>Progress\<close>

definition ARRIVAL_RADIUS_KM :: real where "ARRIVAL_RADIUS_KM = 15 / 100"

definition reached_seq :: "progress option \<Rightarrow> int" where
  "reached_seq p = (case p of None \<Rightarrow> 0 | Some q \<Rightarrow> pg_seq q)"

definition visit :: "real \<Rightarrow> gps_fix \<Rightarrow> progress option \<Rightarrow> route_point \<Rightarrow> progress option" where
  "visit radius f best p =
     (if rp_seq p \<le> reached_seq best then best
      else if haversine_km (fix_point f) (stop_point p) \<le> radius
      then Some \<lparr>pg_seq = rp_seq p, pg_at = fx_ts f\<rparr>
      else best)"

definition advance_progress :: "real \<Rightarrow> route_point list \<Rightarrow> gps_fix list \<Rightarrow> progress option \<Rightarrow> progress option" where
  "advance_progress radius points fixes previous =
     (let best = foldl (\<lambda>best f. foldl (visit radius f) best points) previous (sort_key fx_ts fixes) in
      if best \<noteq> None \<and> reached_seq best = reached_seq previous then previous else best)"

definition schedule_delay :: "route_point list \<Rightarrow> progress option \<Rightarrow> instant \<Rightarrow> int" where
  "schedule_delay points progress actual_start =
     (case progress of
        None \<Rightarrow> 0
      | Some g \<Rightarrow>
          if pg_seq g \<le> 0 then 0
          else (case find (\<lambda>p. rp_seq p = pg_seq g) points of
              None \<Rightarrow> 0
            | Some p \<Rightarrow>
                (case rp_scheduled_offset_min p of
                   None \<Rightarrow> 0
                 | Some m \<Rightarrow> pg_at g - actual_start - m * minute)))"

definition remaining :: "route_point list \<Rightarrow> int \<Rightarrow> route_point list" where
  "remaining points reached = sort_key rp_seq (filter (\<lambda>p. rp_seq p > reached) points)"

section \<open>Arrivals\<close>

text \<open>The cumulative road distance to each stop, in order; the dictionary keeps the last entry of a number.\<close>

fun road_distances :: "real \<Rightarrow> point \<Rightarrow> route_point list \<Rightarrow> (int \<times> real) list" where
  "road_distances running cursor [] = []"
| "road_distances running cursor (p # ps) =
     (let running' = running + haversine_km cursor (stop_point p) * ROAD_FACTOR
      in (rp_seq p, running') # road_distances running' (stop_point p) ps)"

definition distance_map :: "point option \<Rightarrow> route_point list \<Rightarrow> int \<rightharpoonup> real" where
  "distance_map position ps = (case position of None \<Rightarrow> Map.empty | Some c \<Rightarrow> map_of (rev (road_distances 0 c ps)))"

definition hours :: "real \<Rightarrow> int" where "hours x = py_round (x * 3600 * of_int second)"

definition raw_eta ::
  "(int \<rightharpoonup> real) \<Rightarrow> real option \<Rightarrow> instant \<Rightarrow> int \<Rightarrow> instant \<Rightarrow> nat \<Rightarrow> route_point \<Rightarrow> (instant \<times> string) option" where
  "raw_eta distances speed_kmh actual_start delay now index p =
     (case (speed_kmh, distances (rp_seq p)) of
        (Some v, Some d) \<Rightarrow>
          if v \<noteq> 0 \<and> index < SPEED_HORIZON_STOPS then Some (now + hours (d / v), ''live'')
          else map_option (\<lambda>m. (actual_start + m * minute + delay, ''scheduled'')) (rp_scheduled_offset_min p)
      | _ \<Rightarrow> map_option (\<lambda>m. (actual_start + m * minute + delay, ''scheduled'')) (rp_scheduled_offset_min p))"

definition arrival_at ::
  "(int \<rightharpoonup> real) \<Rightarrow> real option \<Rightarrow> instant \<Rightarrow> int \<Rightarrow> instant \<Rightarrow> nat \<times> route_point \<Rightarrow> arrival option" where
  "arrival_at distances speed_kmh actual_start delay now ip =
     (case ip of (index, p) \<Rightarrow>
        (case raw_eta distances speed_kmh actual_start delay now index p of
           None \<Rightarrow> None
         | Some (t, basis) \<Rightarrow>
             let eta = (if t < now then now else t) in
             if eta - now > MAX_HORIZON then None
             else Some \<lparr>ar_stop_id = rp_stop_id p, ar_seq = rp_seq p, ar_eta = eta, ar_basis = basis,
               ar_distance_km = of_int (py_round ((case distances (rp_seq p) of None \<Rightarrow> 0 | Some d \<Rightarrow> d) * 100)) / 100\<rparr>))"

fun monotonic_from :: "instant option \<Rightarrow> arrival list \<Rightarrow> arrival list" where
  "monotonic_from latest [] = []"
| "monotonic_from latest (a # rest) =
     (let eta = (case latest of None \<Rightarrow> ar_eta a | Some t \<Rightarrow> if ar_eta a \<ge> t then ar_eta a else t)
      in a\<lparr>ar_eta := eta\<rparr> # monotonic_from (Some eta) rest)"

definition monotonic :: "arrival list \<Rightarrow> arrival list" where "monotonic = monotonic_from None"

definition estimate_arrivals ::
  "route_point list \<Rightarrow> point option \<Rightarrow> progress option \<Rightarrow> instant \<Rightarrow> real option \<Rightarrow> instant \<Rightarrow> arrival list" where
  "estimate_arrivals points position progress actual_start speed_kmh now =
     (let ahead = remaining points (reached_seq progress);
          delay = schedule_delay points progress actual_start in
      monotonic (List.map_filter (arrival_at (distance_map position ahead) speed_kmh actual_start delay now)
        (enumerate 0 ahead)))"

section \<open>The distance is one\<close>

lemma haversine_h_self [simp]: "haversine_h a a = 0"
  by (simp add: haversine_h_def Let_def)

lemma haversine_km_self [simp]: "haversine_km a a = 0"
  by (simp add: haversine_km_def)

definition on_earth :: "point \<Rightarrow> bool" where "on_earth a \<longleftrightarrow> \<bar>pt_lat a\<bar> \<le> 90"

lemma cos_latitude: "on_earth a \<Longrightarrow> 0 \<le> cos (radians (pt_lat a))"
proof (rule cos_ge_zero)
  assume "on_earth a"
  then have "- 90 \<le> pt_lat a" "pt_lat a \<le> 90" by (auto simp: on_earth_def)
  then have "- 90 * pi \<le> pt_lat a * pi" "pt_lat a * pi \<le> 90 * pi"
    using pi_ge_zero by (auto intro: mult_right_mono simp del: mult_minus_left)
  then show "- (pi / 2) \<le> radians (pt_lat a)" "radians (pt_lat a) \<le> pi / 2"
    by (simp_all add: radians_def)
qed

lemma sin_half_sq: "sin (t / 2) ^ 2 = (1 - cos t) / (2 :: real)"
proof -
  have "cos (2 * s) = 1 - 2 * sin s ^ 2" for s :: real by (rule cos_double_sin)
  from this [of "t / 2"] show ?thesis by (simp add: field_simps)
qed

lemma half_angle_sum:
  fixes p c d e q :: real
  shows "p \<le> c \<Longrightarrow> c = (d + e) / 2 \<Longrightarrow> q = (1 - d) / 2 \<Longrightarrow> e \<le> 1 \<Longrightarrow> q + p \<le> 1"
  by simp

lemma haversine_h_bounds:
  assumes "on_earth a" "on_earth b"
  shows "0 \<le> haversine_h a b" "haversine_h a b \<le> 1"
proof -
  let ?x = "radians (pt_lat a)" and ?y = "radians (pt_lat b)" and ?z = "(radians (pt_lng b) - radians (pt_lng a)) / 2"
  have c: "0 \<le> cos ?x * cos ?y" using assms by (simp add: cos_latitude)
  have h: "haversine_h a b = sin ((?y - ?x) / 2) ^ 2 + cos ?x * cos ?y * sin ?z ^ 2"
    by (simp add: haversine_h_def Let_def)
  with c show "0 \<le> haversine_h a b" by simp
  have "sin ?z ^ 2 \<le> 1" using abs_sin_le_one [of ?z] by (simp add: abs_le_square_iff [symmetric, of _ 1, simplified])
  then have "cos ?x * cos ?y * sin ?z ^ 2 \<le> cos ?x * cos ?y" using c by (simp add: mult_left_le)
  moreover have "cos ?x * cos ?y = (cos (?y - ?x) + cos (?y + ?x)) / 2"
    by (simp add: cos_diff cos_add)
  moreover have "sin ((?y - ?x) / 2) ^ 2 = (1 - cos (?y - ?x)) / 2" by (rule sin_half_sq)
  moreover have "cos (?y + ?x) \<le> 1" by (rule cos_le_one)
  ultimately show "haversine_h a b \<le> 1" unfolding h by (rule half_angle_sum)
qed

lemma haversine_h_sym: "haversine_h a b = haversine_h b a"
proof -
  have s: "sin ((x - y) / 2) ^ 2 = sin ((y - x) / 2) ^ 2" for x y :: real
  proof -
    have "sin ((x - y) / 2) = - sin ((y - x) / 2)" by (metis minus_diff_eq minus_divide_left sin_minus)
    then show ?thesis by simp
  qed
  show ?thesis
    unfolding haversine_h_def Let_def
    by (simp add: s [of "radians (pt_lat a)" "radians (pt_lat b)"] s [of "radians (pt_lng a)" "radians (pt_lng b)"] mult.commute)
qed


section \<open>Progress, against what it should be\<close>

text \<open>The furthest stop any fix came within the radius of, and the earliest fix that did.\<close>

definition near :: "real \<Rightarrow> gps_fix \<Rightarrow> route_point \<Rightarrow> bool" where
  "near radius f p \<longleftrightarrow> haversine_km (fix_point f) (stop_point p) \<le> radius"

definition passed :: "real \<Rightarrow> route_point list \<Rightarrow> gps_fix set \<Rightarrow> int \<Rightarrow> int set" where
  "passed radius points fs s = {rp_seq p | p f. p \<in> set points \<and> f \<in> fs \<and> near radius f p \<and> s < rp_seq p}"

definition times_at :: "real \<Rightarrow> route_point list \<Rightarrow> gps_fix set \<Rightarrow> int \<Rightarrow> instant set" where
  "times_at radius points fs s = {fx_ts f | p f. p \<in> set points \<and> f \<in> fs \<and> near radius f p \<and> rp_seq p = s}"

definition furthest :: "real \<Rightarrow> route_point list \<Rightarrow> gps_fix set \<Rightarrow> progress option \<Rightarrow> progress option" where
  "furthest radius points fs previous =
     (let S = passed radius points fs (reached_seq previous) in
      if S = {} then previous
      else Some \<lparr>pg_seq = Max S, pg_at = Min (times_at radius points fs (Max S))\<rparr>)"

lemma passed_empty [simp]: "passed r ps {} s = {}" by (simp add: passed_def)

lemma passed_insert: "passed r ps (insert f F) s = passed r ps F s \<union> passed r ps {f} s"
  by (auto simp: passed_def)

lemma times_at_insert: "times_at r ps (insert f F) s = times_at r ps F s \<union> times_at r ps {f} s"
  by (auto simp: times_at_def)

lemma finite_passed [simp]: "finite (passed r ps F s)"
  by (rule finite_subset [of _ "rp_seq ` set ps"]) (auto simp: passed_def)

lemma finite_times_at [simp]: "finite F \<Longrightarrow> finite (times_at r ps F s)"
  by (rule finite_subset [of _ "fx_ts ` F"]) (auto simp: times_at_def)

lemma passed_one_Cons:
  "passed r (p # ps) {f} s = (if near r f p \<and> s < rp_seq p then {rp_seq p} else {}) \<union> passed r ps {f} s"
  by (auto simp: passed_def)

lemma passed_beyond: "x \<in> passed r ps F s \<Longrightarrow> s < x"
  by (auto simp: passed_def)

lemma passed_mono_seq:
  assumes "s \<le> t"
  shows "passed r ps F t = {x \<in> passed r ps F s. t < x}"
proof -
  have "t < x \<and> s < x \<longleftrightarrow> t < x" for x using assms by auto
  then show ?thesis unfolding passed_def by blast
qed

lemma times_at_passed: "x \<in> passed r ps F s \<Longrightarrow> times_at r ps F x \<noteq> {}"
  by (auto simp: passed_def times_at_def)

lemma times_at_not_passed: "s < x \<Longrightarrow> x \<notin> passed r ps F s \<Longrightarrow> times_at r ps F x = {}"
  by (auto simp: passed_def times_at_def)

lemma visit_near:
  "visit r f b p = (if near r f p \<and> reached_seq b < rp_seq p then Some \<lparr>pg_seq = rp_seq p, pg_at = fx_ts f\<rparr> else b)"
  by (auto simp: visit_def near_def)

lemma one_fix:
  "foldl (visit r f) b ps =
     (let S = passed r ps {f} (reached_seq b) in if S = {} then b else Some \<lparr>pg_seq = Max S, pg_at = fx_ts f\<rparr>)"
proof (induction ps arbitrary: b)
  case Nil
  then show ?case by (simp add: passed_def)
next
  case (Cons p ps)
  show ?case
  proof (cases "near r f p \<and> reached_seq b < rp_seq p")
    case True
    let ?S = "passed r ps {f} (reached_seq b)" and ?T = "passed r ps {f} (rp_seq p)"
    have T: "?T = {x \<in> ?S. rp_seq p < x}" using True by (intro passed_mono_seq) simp
    have "Max (insert (rp_seq p) ?S) = (if ?T = {} then rp_seq p else Max ?T)"
    proof (cases "?T = {}")
      case True
      with T have "\<forall>x \<in> ?S. x \<le> rp_seq p" by force
      with True show ?thesis by (auto intro: Max_eqI)
    next
      case False
      then have m: "Max ?T \<in> ?T" by (rule Max_in [OF finite_passed])
      have "x \<le> Max ?T" if "x \<in> insert (rp_seq p) ?S" for x
      proof (cases "rp_seq p < x")
        case True
        with that T show ?thesis by (intro Max_ge) auto
      next
        case False
        with m T show ?thesis by simp
      qed
      with m T False show ?thesis by (auto intro: Max_eqI)
    qed
    with True Cons.IH [of "Some \<lparr>pg_seq = rp_seq p, pg_at = fx_ts f\<rparr>"] show ?thesis
      by (simp add: visit_near passed_one_Cons reached_seq_def Let_def)
  next
    case False
    then have "visit r f b p = b" "passed r (p # ps) {f} (reached_seq b) = passed r ps {f} (reached_seq b)"
      by (auto simp: visit_near passed_one_Cons)
    with Cons.IH [of b] show ?thesis by simp
  qed
qed

lemma furthest_seq:
  "passed r ps F (reached_seq prev) \<noteq> {} \<Longrightarrow>
   reached_seq (furthest r ps F prev) = Max (passed r ps F (reached_seq prev))"
  by (simp add: furthest_def reached_seq_def Let_def)

lemma furthest_none: "passed r ps F (reached_seq prev) = {} \<Longrightarrow> furthest r ps F prev = prev"
  by (simp add: furthest_def Let_def)

lemma furthest_some:
  "passed r ps F (reached_seq prev) = S \<Longrightarrow> S \<noteq> {} \<Longrightarrow> Max S = m \<Longrightarrow> times_at r ps F m = T \<Longrightarrow> Min T = t \<Longrightarrow>
   furthest r ps F prev = Some \<lparr>pg_seq = m, pg_at = t\<rparr>"
  by (simp add: furthest_def Let_def)

lemma passed_le_Max: "x \<in> passed r ps F s \<Longrightarrow> x \<le> Max (passed r ps F s)"
  by simp

lemma one_fix_none: "passed r ps {f} (reached_seq b) = {} \<Longrightarrow> foldl (visit r f) b ps = b"
  by (simp add: one_fix)

lemma one_fix_some:
  "passed r ps {f} (reached_seq b) = S \<Longrightarrow> S \<noteq> {} \<Longrightarrow>
   foldl (visit r f) b ps = Some \<lparr>pg_seq = Max S, pg_at = fx_ts f\<rparr>"
  by (simp add: one_fix Let_def)

lemma furthest_step:
  assumes later: "\<forall>g \<in> F. fx_ts g \<le> fx_ts f" and fin: "finite F"
  shows "foldl (visit r f) (furthest r ps F prev) ps = furthest r ps (insert f F) prev"
proof (cases "passed r ps F (reached_seq prev) = {}")
  case True
  let ?G = "passed r ps {f} (reached_seq prev)"
  have all: "passed r ps (insert f F) (reached_seq prev) = ?G" using True by (subst passed_insert) simp
  show ?thesis
  proof (cases "?G = {}")
    case True
    with all \<open>passed r ps F (reached_seq prev) = {}\<close> show ?thesis by (simp add: furthest_none one_fix)
  next
    case False
    then have g: "Max ?G \<in> ?G" by (intro Max_in) simp_all
    have "times_at r ps F (Max ?G) = {}"
      using True passed_beyond [OF g] by (intro times_at_not_passed [of "reached_seq prev"]) auto
    moreover have "times_at r ps {f} (Max ?G) = {fx_ts f}" using g by (auto simp: passed_def times_at_def)
    ultimately have "times_at r ps (insert f F) (Max ?G) = {fx_ts f}" by (subst times_at_insert) simp
    from one_fix_some [OF refl False] furthest_some [OF all False refl this]
    show ?thesis by (simp add: furthest_none [OF True])
  qed
next
  case False
  let ?s = "reached_seq prev" let ?S = "passed r ps F ?s" and ?G = "passed r ps {f} ?s" let ?m = "Max ?S"
  have m: "?m \<in> ?S" using False by (intro Max_in) simp_all
  then have sm: "?s < ?m" by (auto simp: passed_def)
  have T: "passed r ps {f} ?m = {x \<in> ?G. ?m < x}" using sm by (intro passed_mono_seq) simp
  show ?thesis
  proof (cases "passed r ps {f} ?m = {}")
    case True
    with T have "\<forall>x \<in> ?G. x \<le> ?m" by force
    with m have M: "Max (?S \<union> ?G) = ?m" by (auto intro!: Max_eqI)
    have "Min (times_at r ps F ?m \<union> times_at r ps {f} ?m) = Min (times_at r ps F ?m)"
    proof -
      have ne: "times_at r ps F ?m \<noteq> {}" using m by (rule times_at_passed)
      have mi: "Min (times_at r ps F ?m) \<in> times_at r ps F ?m" using ne fin by (intro Min_in) simp_all
      have "Min (times_at r ps F ?m) \<le> t" if "t \<in> times_at r ps {f} ?m" for t
        using mi later that by (auto simp: times_at_def)
      then show ?thesis using mi fin by (intro Min_eqI) auto
    qed
    from furthest_some [OF passed_insert _ M times_at_insert this] False
    have "furthest r ps (insert f F) prev = furthest r ps F prev"
      using furthest_some [OF refl False refl refl refl] by simp
    then show ?thesis using True by (simp only: one_fix_none furthest_seq [OF False])
  next
    case nonempty: False
    let ?n = "Max (passed r ps {f} ?m)"
    have n: "?n \<in> passed r ps {f} ?m" using nonempty by (intro Max_in) simp_all
    with T have mn: "?m < ?n" "?n \<in> ?G" by auto
    have "x \<le> ?n" if "x \<in> ?S \<union> ?G" for x
    proof (cases "?m < x")
      case True
      with that have "x \<in> ?G" by (metis Un_iff leD passed_le_Max)
      with True T show ?thesis by (intro Max_ge) auto
    qed (use mn in simp)
    with mn have M: "Max (?S \<union> ?G) = ?n" by (auto intro!: Max_eqI)
    have "?n \<notin> ?S" using mn by (metis leD passed_le_Max)
    then have "times_at r ps F ?n = {}" using sm mn by (intro times_at_not_passed [of ?s]) simp_all
    moreover have "times_at r ps {f} ?n = {fx_ts f}" using n by (auto simp: passed_def times_at_def)
    ultimately have "times_at r ps (insert f F) ?n = {fx_ts f}" by (subst times_at_insert) simp
    from furthest_some [OF passed_insert _ M this] False
    have "furthest r ps (insert f F) prev = Some \<lparr>pg_seq = ?n, pg_at = fx_ts f\<rparr>" by simp
    moreover have "foldl (visit r f) (furthest r ps F prev) ps = Some \<lparr>pg_seq = ?n, pg_at = fx_ts f\<rparr>"
      by (rule one_fix_some [OF _ nonempty]) (simp only: furthest_seq [OF False])
    ultimately show ?thesis by simp
  qed
qed

lemma whole_window:
  "sorted (map fx_ts fs) \<Longrightarrow> foldl (\<lambda>b f. foldl (visit r f) b ps) prev fs = furthest r ps (set fs) prev"
proof (induction fs rule: rev_induct)
  case Nil
  then show ?case by (simp add: furthest_none)
next
  case (snoc f fs)
  then show ?case
    using furthest_step [of "set fs" f r ps prev] by (simp add: sorted_append)
qed

lemma furthest_ahead:
  "furthest r ps F prev = prev \<or> reached_seq prev < reached_seq (furthest r ps F prev)"
proof (cases "passed r ps F (reached_seq prev) = {}")
  case False
  then have "Max (passed r ps F (reached_seq prev)) \<in> passed r ps F (reached_seq prev)" by (intro Max_in) simp_all
  from passed_beyond [OF this] False show ?thesis by (simp add: furthest_seq)
qed (simp add: furthest_none)

lemma progress_is_furthest:
  "advance_progress r points fixes previous = furthest r points (set fixes) previous"
  using furthest_ahead [of r points "set fixes" previous]
  by (auto simp: advance_progress_def whole_window Let_def)

text \<open>
  C12. \<^verbatim>\<open>advance_progress\<close> is its specification: over the whole window of fixes, in whatever
  order they were stored, the trip's progress becomes the highest-numbered stop beyond the previous
  one that any fix came within the radius of, stamped with the earliest fix that did; when there
  is none the previous progress is returned unchanged.
\<close>

theorem progress_is_the_furthest_stop:
  "advance_progress r points fixes previous = furthest r points (set fixes) previous"
  by (rule progress_is_furthest)

text \<open>Running the engine again over fixes it has already seen changes nothing.\<close>

lemma furthest_again:
  "furthest r ps F (furthest r ps F prev) = furthest r ps F prev"
proof (cases "passed r ps F (reached_seq prev) = {}")
  case False
  have "x \<le> Max (passed r ps F (reached_seq prev))" if "x \<in> passed r ps F (reached_seq (furthest r ps F prev))" for x
  proof -
    have "reached_seq prev \<le> reached_seq (furthest r ps F prev)" using furthest_ahead [of r ps F prev] by auto
    with that have "x \<in> passed r ps F (reached_seq prev)" using passed_mono_seq by blast
    then show ?thesis by (rule passed_le_Max)
  qed
  then have "passed r ps F (reached_seq (furthest r ps F prev)) = {}"
    using False passed_beyond by (force simp: furthest_seq)
  then show ?thesis by (rule furthest_none)
qed (simp add: furthest_none)

section \<open>The board\<close>

text \<open>Pushing the later stops out: every entry's time becomes the largest so far.\<close>

lemma monotonic_from_same:
  "map (\<lambda>a. (ar_stop_id a, ar_seq a, ar_basis a)) (monotonic_from l as) =
   map (\<lambda>a. (ar_stop_id a, ar_seq a, ar_basis a)) as"
  by (induction as arbitrary: l) (simp_all add: Let_def)

lemma monotonic_from_sorted:
  "sorted (map ar_eta (monotonic_from l as)) \<and> (\<forall>a \<in> set (monotonic_from l as). \<forall>t. l = Some t \<longrightarrow> t \<le> ar_eta a)"
proof (induction as arbitrary: l)
  case (Cons a as)
  let ?e = "case l of None \<Rightarrow> ar_eta a | Some t \<Rightarrow> if ar_eta a \<ge> t then ar_eta a else t"
  have "\<forall>t. l = Some t \<longrightarrow> t \<le> ?e" by (simp split: option.splits)
  with Cons.IH [of "Some ?e"] show ?case by (auto simp: Let_def)
qed simp

lemma monotonic_from_within:
  "(\<forall>a \<in> set as. lo \<le> ar_eta a \<and> ar_eta a \<le> hi) \<Longrightarrow> (\<forall>t. l = Some t \<longrightarrow> lo \<le> t \<and> t \<le> hi) \<Longrightarrow>
   b \<in> set (monotonic_from l as) \<Longrightarrow> lo \<le> ar_eta b \<and> ar_eta b \<le> hi"
proof (induction as arbitrary: l)
  case (Cons a as)
  let ?e = "case l of None \<Rightarrow> ar_eta a | Some t \<Rightarrow> if ar_eta a \<ge> t then ar_eta a else t"
  have "lo \<le> ?e \<and> ?e \<le> hi" using Cons.prems by (simp split: option.splits)
  with Cons.prems Cons.IH [of "Some ?e"] show ?case by (auto simp: Let_def)
qed simp

lemma monotonic_from_later:
  "i < length as \<Longrightarrow> ar_eta (as ! i) \<le> ar_eta (monotonic_from l as ! i)"
  by (induction as arbitrary: l i) (auto simp: Let_def nth_Cons split: option.splits nat.splits)

lemma length_monotonic_from [simp]: "length (monotonic_from l as) = length as"
  by (induction as arbitrary: l) (simp_all add: Let_def)

lemma subseq_map_filter:
  "(\<And>x y. f x = Some y \<Longrightarrow> g y = h x) \<Longrightarrow> subseq (map g (List.map_filter f xs)) (map h xs)"
  by (induction xs) (auto simp: map_filter_simps split: option.splits)

lemma arrival_at_within:
  assumes "arrival_at D v start delay now ip = Some a"
  shows "now \<le> ar_eta a \<and> ar_eta a \<le> now + MAX_HORIZON \<and> ar_stop_id a = rp_stop_id (snd ip) \<and> ar_seq a = rp_seq (snd ip)"
  using assms by (auto simp: arrival_at_def Let_def MAX_HORIZON_def split: prod.splits option.splits if_splits)

lemma set_map_filter: "y \<in> set (List.map_filter f xs) \<longleftrightarrow> (\<exists>x \<in> set xs. f x = Some y)"
  by (induction xs) (auto simp: map_filter_simps split: option.splits)

lemma board_facts:
  "subseq (map (\<lambda>a. (ar_stop_id a, ar_seq a)) (estimate_arrivals points position progress start speed now))
     (map (\<lambda>p. (rp_stop_id p, rp_seq p)) (remaining points (reached_seq progress)))
   \<and> sorted (map rp_seq (remaining points (reached_seq progress)))
   \<and> mset (remaining points (reached_seq progress)) = filter_mset (\<lambda>p. reached_seq progress < rp_seq p) (mset points)
   \<and> sorted (map ar_eta (estimate_arrivals points position progress start speed now))
   \<and> list_all (\<lambda>a. now \<le> ar_eta a \<and> ar_eta a \<le> now + MAX_HORIZON)
       (estimate_arrivals points position progress start speed now)"
proof -
  let ?ahead = "remaining points (reached_seq progress)"
  let ?f = "arrival_at (distance_map position ?ahead) speed start (schedule_delay points progress start) now"
  let ?raw = "List.map_filter ?f (enumerate 0 ?ahead)"
  have e: "estimate_arrivals points position progress start speed now = monotonic_from None ?raw"
    by (simp add: estimate_arrivals_def monotonic_def Let_def)
  have "subseq (map (\<lambda>a. (ar_stop_id a, ar_seq a)) ?raw) (map (\<lambda>ip. (rp_stop_id (snd ip), rp_seq (snd ip))) (enumerate 0 ?ahead))"
    by (rule subseq_map_filter) (simp add: arrival_at_within)
  moreover have "map (\<lambda>ip. (rp_stop_id (snd ip), rp_seq (snd ip))) (enumerate 0 ?ahead) = map (\<lambda>p. (rp_stop_id p, rp_seq p)) ?ahead"
    by (metis (no_types, lifting) comp_apply map_eq_conv map_map map_snd_enumerate)
  moreover have "map (\<lambda>a. (ar_stop_id a, ar_seq a)) (monotonic_from None ?raw) = map (\<lambda>a. (ar_stop_id a, ar_seq a)) ?raw"
    using arg_cong [OF monotonic_from_same [of None ?raw], of "map (\<lambda>(i, s, b). (i, s))"] by (simp add: comp_def)
  moreover have "now \<le> ar_eta a \<and> ar_eta a \<le> now + MAX_HORIZON" if "a \<in> set (monotonic_from None ?raw)" for a
    using that by (rule monotonic_from_within [rotated 2]) (use arrival_at_within in \<open>auto simp: set_map_filter\<close>)
  ultimately show ?thesis
    by (simp add: e monotonic_from_sorted list_all_iff remaining_def)
qed


text \<open>
  C13. The board \<^verbatim>\<open>estimate_arrivals\<close> writes is one a student can read: its entries are stops
  beyond the trip's progress, each at most once and in the order of the route; their times never
  decrease along it; and every time lies between now and three hours from now, whatever the speed,
  the timetable, the measured delay and the recorded progress say.
\<close>

theorem board_is_readable:
  "subseq (map (\<lambda>a. (ar_stop_id a, ar_seq a)) (estimate_arrivals points position progress start speed now))
     (map (\<lambda>p. (rp_stop_id p, rp_seq p)) (remaining points (reached_seq progress)))
   \<and> sorted (map rp_seq (remaining points (reached_seq progress)))
   \<and> mset (remaining points (reached_seq progress)) = filter_mset (\<lambda>p. reached_seq progress < rp_seq p) (mset points)
   \<and> sorted (map ar_eta (estimate_arrivals points position progress start speed now))
   \<and> list_all (\<lambda>a. now \<le> ar_eta a \<and> ar_eta a \<le> now + MAX_HORIZON)
       (estimate_arrivals points position progress start speed now)"
  by (rule board_facts)

section \<open>The speed\<close>

text \<open>Due north, the distance is the arc; a bus that did not move has covered none.\<close>

lemma haversine_km_north:
  assumes "pt_lng a = pt_lng b" "pt_lat a \<le> pt_lat b" "pt_lat b - pt_lat a \<le> 180"
  shows "haversine_km a b = EARTH_RADIUS_KM * radians (pt_lat b - pt_lat a)"
proof -
  let ?t = "radians (pt_lat b - pt_lat a) / 2"
  have "0 \<le> pt_lat b - pt_lat a" using assms by simp
  then have t: "0 \<le> ?t" "?t \<le> pi / 2"
    using assms mult_right_mono [OF assms(3) pi_ge_zero] by (simp_all add: radians_def field_simps)
  have "haversine_h a b = sin ?t ^ 2"
    using assms(1) by (simp add: haversine_h_def Let_def radians_def diff_divide_distrib [symmetric] left_diff_distrib [symmetric])
  moreover have "0 \<le> sin ?t" using t by (intro sin_ge_zero) simp_all
  ultimately show ?thesis using t by (simp add: haversine_km_def arcsin_sin real_sqrt_abs)
qed

lemma zip_tl_in: "(a, b) \<in> set (zip fs (tl fs)) \<Longrightarrow> a \<in> set fs \<and> b \<in> set fs"
  by (cases fs) (auto elim!: in_set_zipE)

lemma path_km_still:
  assumes "\<forall>f \<in> set fs. fix_point f = p"
  shows "path_km fs = 0"
proof -
  have "haversine_km (fix_point a) (fix_point b) = 0" if "(a, b) \<in> set (zip fs (tl fs))" for a b
    using zip_tl_in [OF that] assms by simp
  then have "map (\<lambda>(a, b). haversine_km (fix_point a) (fix_point b)) (zip fs (tl fs)) = map (\<lambda>_. 0) (zip fs (tl fs))"
    by (intro map_cong) auto
  then show ?thesis unfolding path_km_def by (simp only: sum_list_triv)
qed

lemma path_km_nonneg: "list_all (\<lambda>f. on_earth (fix_point f)) fs \<Longrightarrow> 0 \<le> path_km fs"
  unfolding path_km_def
  by (intro sum_list_nonneg)
     (auto simp: list_all_iff haversine_km_def EARTH_RADIUS_KM_def dest!: zip_tl_in intro!: mult_nonneg_nonneg arcsin_nonneg haversine_h_bounds)

text \<open>Stored in any order, fixes of different instants give the same speed.\<close>

lemma speed_any_order:
  assumes "mset fs = mset gs" "distinct (map fx_ts fs)"
  shows "rolling_speed_kmh fs now = rolling_speed_kmh gs now"
proof -
  have "inj_on fx_ts (set fs)" using assms(2) by (simp add: distinct_map)
  then have "sort_key fx_ts fs = sort_key fx_ts gs"
    using assms(1) by (intro sort_key_inj_key_eq) simp_all
  moreover have "length fs = length gs" using assms(1) by (rule mset_eq_length)
  ultimately show ?thesis by (simp add: rolling_speed_kmh_def)
qed

lemma standing_bus_has_no_speed:
  assumes "\<forall>f \<in> set fs. fix_point f = p"
  shows "rolling_speed_kmh fs now = None"
proof -
  have "path_km (sort_key fx_ts fs) = 0" using assms by (intro path_km_still [of _ p]) simp
  then show ?thesis by (simp add: rolling_speed_kmh_def Let_def MIN_USABLE_KMH_def)
qed

text \<open>
  A speed the engine uses is one a bus can have: when \<^verbatim>\<open>rolling_speed_kmh\<close> answers, the
  answer is between 3 and 80 km/h, there were at least two fixes, the newest is at most five minutes
  old, and speed times the time from the oldest fix to the newest is the length of the path through
  all of them (standing time included).
\<close>

theorem speed_is_plausible:
  assumes "rolling_speed_kmh fixes now = Some v"
  shows "3 \<le> v \<and> v \<le> 80 \<and> 2 \<le> length fixes
    \<and> now - fx_ts (last (sort_key fx_ts fixes)) \<le> 5 * minute
    \<and> fx_ts (hd (sort_key fx_ts fixes)) < fx_ts (last (sort_key fx_ts fixes))
    \<and> v * of_int (fx_ts (last (sort_key fx_ts fixes)) - fx_ts (hd (sort_key fx_ts fixes)))
        = path_km (sort_key fx_ts fixes) * of_int hour"
proof -
  let ?o = "sort_key fx_ts fixes" let ?d = "fx_ts (last ?o) - fx_ts (hd ?o)"
  have r: "2 \<le> length fixes" "now - fx_ts (last ?o) \<le> 5 * minute" "0 < ?d" "3 \<le> v" "v \<le> 80"
    "v = path_km ?o / (of_int ?d / of_int second / 3600)"
    using assms
    by (auto simp: rolling_speed_kmh_def Let_def MIN_USABLE_KMH_def MAX_PLAUSIBLE_KMH_def STALE_FIX_S_def split: if_splits)
  have "v * of_int ?d = path_km ?o * of_int hour" using r(3) unfolding r(6) by (simp del: of_int_diff)
  with r(1-5) show ?thesis by simp
qed

text \<open>A bus that drove two degrees and a bit due north in four hours.\<close>

definition northbound :: "gps_fix list" where
  "northbound = [\<lparr>fx_lat = 9 / 5, fx_lng = 90, fx_ts = 4 * hour\<rparr>, \<lparr>fx_lat = 0, fx_lng = 90, fx_ts = 0\<rparr>]"

lemma northbound_speed: "rolling_speed_kmh northbound (4 * hour) = Some (63710088 * pi / 4000000)"
proof -
  have o: "sort_key fx_ts northbound = rev northbound" by (simp add: northbound_def)
  have "path_km (rev northbound) = EARTH_RADIUS_KM * radians (9 / 5)"
    by (simp add: path_km_def northbound_def fix_point_def haversine_km_north)
  moreover have "3 \<le> 63710088 * pi / 4000000" "63710088 * pi / 4000000 \<le> 80"
    using pi_ge_two pi_less_4 by simp_all
  ultimately show ?thesis
    unfolding rolling_speed_kmh_def o
    by (simp add: northbound_def Let_def EARTH_RADIUS_KM_def radians_def STALE_FIX_S_def MIN_USABLE_KMH_def
        MAX_PLAUSIBLE_KMH_def)
qed

theorem speed_is_plausible_witness:
  "3 \<le> 63710088 * pi / 4000000 \<and> 63710088 * pi / 4000000 \<le> 80"
  using speed_is_plausible [OF northbound_speed] by simp

end
