(* ===== verification/EtaEngine.thy ===== *)
theory EtaEngine
  imports LiveTrack Eta Catalog
begin

text \<open>
  The job that keeps arrival times fresh, and those who read them:
  \<^verbatim>\<open>app/worker/eta_engine.py\<close> and the arrival endpoints of
  \<^verbatim>\<open>app/api/routes/tracking.py\<close>. What Elasticsearch answers to the search for a trip's
  recent fixes is an argument: nothing when it fails, or the sources of the hits. Coordinates a
  geo point holds are finite numbers.
\<close>

section \<open>Numbers out of JSON\<close>

definition dec_val :: "pyfloat \<Rightarrow> real option" where
  "dec_val x = (case x of Dec m e \<Rightarrow> Some (of_int m * 10 powi e) | _ \<Rightarrow> None)"

text \<open>\<^verbatim>\<open>int(value)\<close>: a float is cut towards zero.\<close>

definition py_int_of :: "jval \<Rightarrow> py_error + int" where
  "py_int_of v =
     (case v of
        JInt i \<Rightarrow> Inr i
      | JBool b \<Rightarrow> Inr (if b then 1 else 0)
      | JStr s \<Rightarrow> (case py_int s of None \<Rightarrow> Inl ValueError | Some i \<Rightarrow> Inr i)
      | JFloat s \<Rightarrow>
          (case py_float s of
             Some (Dec m e) \<Rightarrow> Inr (if 0 \<le> e then m * 10 ^ nat e else sgn m * (\<bar>m\<bar> div 10 ^ nat (- e)))
           | Some (Infinity _) \<Rightarrow> Inl OverflowError
           | _ \<Rightarrow> Inl ValueError)
      | _ \<Rightarrow> Inl TypeError)"

section \<open>What a pass gathers (app/worker/eta_engine.py)\<close>

definition SPEED_WINDOW_S :: int where "SPEED_WINDOW_S = 5 * 60"
definition FIX_LIMIT :: nat where "FIX_LIMIT = 200"

record es_source =
  so_fields :: doc
  so_location :: "doc option"

definition fix_of_source :: "(string \<Rightarrow> instant option) \<Rightarrow> es_source \<Rightarrow> py_error + gps_fix option" where
  "fix_of_source iso_of s =
     (let location = (case so_location s of None \<Rightarrow> [] | Some l \<Rightarrow> l) in
      case (py_float_of (doc_get location ''lat''), py_float_of (doc_get location ''lon'')) of
        (Inl e, _) \<Rightarrow> if e = OverflowError then Inl e else Inr None
      | (Inr _, Inl e) \<Rightarrow> if e = OverflowError then Inl e else Inr None
      | (Inr x, Inr y) \<Rightarrow>
          Inr (case (dec_val x, dec_val y, doc_get (so_fields s) ''ts'') of
             (Some lat, Some lng, JStr t) \<Rightarrow> map_option (\<lambda>ts. \<lparr>fx_lat = lat, fx_lng = lng, fx_ts = ts\<rparr>) (iso_of t)
           | _ \<Rightarrow> None))"

fun fixes_of_sources :: "(string \<Rightarrow> instant option) \<Rightarrow> es_source list \<Rightarrow> py_error + gps_fix list" where
  "fixes_of_sources iso_of [] = Inr []"
| "fixes_of_sources iso_of (s # rest) =
     (case fix_of_source iso_of s of
        Inl e \<Rightarrow> Inl e
      | Inr f \<Rightarrow>
          (case fixes_of_sources iso_of rest of
             Inl e \<Rightarrow> Inl e
           | Inr fs \<Rightarrow> Inr ((case f of None \<Rightarrow> fs | Some x \<Rightarrow> x # fs))))"

definition recent_fixes :: "(string \<Rightarrow> instant option) \<Rightarrow> es_source list option \<Rightarrow> py_error + gps_fix list" where
  "recent_fixes iso_of hits = (case hits of None \<Rightarrow> Inr [] | Some ss \<Rightarrow> fixes_of_sources iso_of ss)"

definition route_point_of :: "(uuid \<Rightarrow> string) \<Rightarrow> database \<Rightarrow> route_stop \<Rightarrow> route_point option" where
  "route_point_of uuid_text db rs =
     map_option (\<lambda>s. \<lparr>rp_stop_id = uuid_text (rs_stop_id rs), rp_seq = rs_seq rs, rp_lat = sp_lat s, rp_lng = sp_lng s,
       rp_scheduled_offset_min = rs_scheduled_offset_min rs\<rparr>) (get_stop db (rs_stop_id rs))"

definition route_points :: "(uuid \<Rightarrow> string) \<Rightarrow> database \<Rightarrow> trip \<Rightarrow> route_point list" where
  "route_points uuid_text db t = List.map_filter (route_point_of uuid_text db) (stops_of_route db (tr_route_id t))"

text \<open>Progress, kept in Redis between passes.\<close>

definition load_progress ::
  "(string \<Rightarrow> instant option) \<Rightarrow> bool \<Rightarrow> instant \<Rightarrow> redis \<Rightarrow> string \<Rightarrow> py_error + progress option" where
  "load_progress iso_of up now r trip_id =
     (case (if up then redis_get r now (trip_progress_key trip_id) else None) of
        Some (RDoc (Some d)) \<Rightarrow>
          (case py_int_of (doc_get d ''seq'') of
             Inl e \<Rightarrow> if e = OverflowError then Inl e else Inr None
           | Inr s \<Rightarrow>
               (case doc_get d ''at'' of
                  JStr t \<Rightarrow> Inr (map_option (\<lambda>a. \<lparr>pg_seq = s, pg_at = a\<rparr>) (iso_of t))
                | _ \<Rightarrow> Inr None))
      | _ \<Rightarrow> Inr None)"

definition progress_doc :: "(instant \<Rightarrow> string) \<Rightarrow> progress \<Rightarrow> doc" where
  "progress_doc iso_text p = [(''seq'', JInt (pg_seq p)), (''at'', JStr (iso_text (pg_at p)))]"

definition save_progress :: "(instant \<Rightarrow> string) \<Rightarrow> bool \<Rightarrow> instant \<Rightarrow> string \<Rightarrow> progress \<Rightarrow> redis \<Rightarrow> redis" where
  "save_progress iso_text up now trip_id p r =
     (if up then redis_set (trip_progress_key trip_id) (RDoc (Some (progress_doc iso_text p)))
        (Some (now + ETA_TTL_S * second)) r
      else r)"

text \<open>The board as it is cached.\<close>

definition arrival_doc :: "(instant \<Rightarrow> string) \<Rightarrow> (real \<Rightarrow> string) \<Rightarrow> instant \<Rightarrow> arrival \<Rightarrow> doc" where
  "arrival_doc iso_text float_text now a =
     [(''stop_id'', JStr (ar_stop_id a)), (''seq'', JInt (ar_seq a)), (''eta'', JStr (iso_text (ar_eta a))),
      (''eta_minutes'', JInt (max (round_minutes (ar_eta a - now)) 0)), (''basis'', JStr (ar_basis a)),
      (''distance_km'', JFloat (float_text (ar_distance_km a)))]"

definition board_value ::
  "(uuid \<Rightarrow> string) \<Rightarrow> (instant \<Rightarrow> string) \<Rightarrow> (real \<Rightarrow> string) \<Rightarrow> instant \<Rightarrow> trip \<Rightarrow> arrival list \<Rightarrow> redis_value" where
  "board_value uuid_text iso_text float_text now t arrivals =
     RBoard [(''trip_id'', JStr (uuid_text (tr_id t))), (''route_id'', JStr (uuid_text (tr_route_id t))),
        (''bus_id'', JStr (uuid_text (tr_bus_id t))), (''computed_at'', JStr (iso_text now))]
       (map (arrival_doc iso_text float_text now) arrivals)"

text \<open>
  One trip: \<open>up1\<close>, \<open>up2\<close>, \<open>up3\<close> say whether Redis answers when the progress is
  read, when it is saved and when the board is written.
\<close>

definition trip_arrivals ::
  "route_point list \<Rightarrow> gps_fix list \<Rightarrow> progress option \<Rightarrow> instant \<Rightarrow> instant \<Rightarrow> progress option \<times> arrival list" where
  "trip_arrivals points fixes loaded actual_start now =
     (let progress = (if fixes = [] then loaded else advance_progress ARRIVAL_RADIUS_KM points fixes loaded) in
      (progress, estimate_arrivals points (if fixes = [] then None else Some (fix_point (last fixes))) progress
         actual_start (rolling_speed_kmh fixes now) now))"

definition carry_progress ::
  "(instant \<Rightarrow> string) \<Rightarrow> bool \<Rightarrow> instant \<Rightarrow> string \<Rightarrow> progress option \<Rightarrow> progress option \<Rightarrow> redis \<Rightarrow> redis" where
  "carry_progress iso_text up now trip_id loaded advanced r =
     (case advanced of
        None \<Rightarrow> r
      | Some p \<Rightarrow> if advanced = loaded then r else save_progress iso_text up now trip_id p r)"

definition compute_for_trip ::
  "(string \<Rightarrow> instant option) \<Rightarrow> (instant \<Rightarrow> string) \<Rightarrow> (uuid \<Rightarrow> string) \<Rightarrow> (real \<Rightarrow> string) \<Rightarrow> bool \<Rightarrow> bool \<Rightarrow> bool \<Rightarrow>
   database \<Rightarrow> redis \<Rightarrow> es_source list option \<Rightarrow> trip \<Rightarrow> instant \<Rightarrow> (py_error + nat) \<times> redis" where
  "compute_for_trip iso_of iso_text uuid_text float_text up1 up2 up3 db r hits t now =
     (let trip_id = uuid_text (tr_id t); points = route_points uuid_text db t in
      case (if points = [] then None else tr_actual_start t) of
        None \<Rightarrow> (Inr 0, r)
      | Some actual_start \<Rightarrow>
          (case recent_fixes iso_of hits of
             Inl e \<Rightarrow> (Inl e, r)
           | Inr fixes \<Rightarrow>
               (case load_progress iso_of up1 now r trip_id of
                  Inl e \<Rightarrow> (Inl e, r)
                | Inr loaded \<Rightarrow>
                    let (progress, arrivals) = trip_arrivals points fixes loaded actual_start now;
                        r1 = carry_progress iso_text up2 now trip_id loaded progress r in
                    if arrivals = [] \<or> \<not> up3 then (Inr 0, r1)
                    else (Inr (length arrivals),
                      redis_set (trip_eta_key trip_id) (board_value uuid_text iso_text float_text now t arrivals)
                        (Some (now + ETA_TTL_S * second)) r1))))"

text \<open>One pass over the fleet: a trip that raises costs no other trip its estimate.\<close>

record eta_tally =
  et_trips :: nat
  et_estimated :: nat
  et_arrivals :: nat

definition count_trip :: "py_error + nat \<Rightarrow> eta_tally \<Rightarrow> eta_tally" where
  "count_trip answer tally =
     (let counted = tally\<lparr>et_trips := et_trips tally + 1\<rparr> in
      case answer of
        Inl _ \<Rightarrow> counted
      | Inr written \<Rightarrow>
          if written = 0 then counted
          else counted\<lparr>et_estimated := et_estimated tally + 1, et_arrivals := et_arrivals tally + written\<rparr>)"

definition eta_step ::
  "(trip \<Rightarrow> redis \<Rightarrow> (py_error + nat) \<times> redis) \<Rightarrow> eta_tally \<times> redis \<Rightarrow> trip \<Rightarrow> eta_tally \<times> redis" where
  "eta_step compute state t =
     (case state of (tally, r) \<Rightarrow>
        (case compute t r of (answer, r') \<Rightarrow> (count_trip answer tally, r')))"

definition compute_once ::
  "(trip \<Rightarrow> redis \<Rightarrow> (py_error + nat) \<times> redis) \<Rightarrow> trip list \<Rightarrow> redis \<Rightarrow> eta_tally \<times> redis" where
  "compute_once compute trips r = foldl (eta_step compute) (\<lparr>et_trips = 0, et_estimated = 0, et_arrivals = 0\<rparr>, r) trips"

definition live_trips :: "database \<Rightarrow> trip list" where
  "live_trips db = filter is_live (db_trips db)"

section \<open>Reading the board (app/api/routes/tracking.py)\<close>

definition cached_eta :: "bool \<Rightarrow> instant \<Rightarrow> redis \<Rightarrow> string \<Rightarrow> redis_value option" where
  "cached_eta up now r trip_id =
     (case (if up then redis_get r now (trip_eta_key trip_id) else None) of
        Some (RDoc None) \<Rightarrow> None
      | Some (RHash _) \<Rightarrow> None
      | v \<Rightarrow> v)"

record arrival_out =
  ao_stop_id :: uuid
  ao_seq :: int
  ao_eta :: instant
  ao_eta_minutes :: int
  ao_basis :: string
  ao_distance_km :: pyfloat

record trip_eta_out =
  te_trip_id :: uuid
  te_route_id :: uuid
  te_bus_id :: uuid
  te_computed_at :: instant
  te_arrivals :: "arrival_out list"

text \<open>What the response model makes of the cached object: it fits, or the request ends in a 500.\<close>

definition uuid_field :: "(string \<Rightarrow> uuid option) \<Rightarrow> doc \<Rightarrow> string \<Rightarrow> uuid option" where
  "uuid_field uuid_of d k = (case doc_get d k of JStr s \<Rightarrow> uuid_of s | _ \<Rightarrow> None)"

definition instant_field :: "(string \<Rightarrow> instant option) \<Rightarrow> doc \<Rightarrow> string \<Rightarrow> instant option" where
  "instant_field iso_of d k = (case doc_get d k of JStr s \<Rightarrow> iso_of s | _ \<Rightarrow> None)"

definition arrival_out_of ::
  "(string \<Rightarrow> uuid option) \<Rightarrow> (string \<Rightarrow> instant option) \<Rightarrow> doc \<Rightarrow> arrival_out option" where
  "arrival_out_of uuid_of iso_of d =
     (case (uuid_field uuid_of d ''stop_id'', doc_get d ''seq'', instant_field iso_of d ''eta'', doc_get d ''eta_minutes'',
         doc_get d ''basis'', py_float_of (doc_get d ''distance_km'')) of
        (Some s, JInt n, Some t, JInt m, JStr b, Inr x) \<Rightarrow>
          Some \<lparr>ao_stop_id = s, ao_seq = n, ao_eta = t, ao_eta_minutes = m, ao_basis = b, ao_distance_km = x\<rparr>
      | _ \<Rightarrow> None)"

definition trip_eta_of ::
  "(string \<Rightarrow> uuid option) \<Rightarrow> (string \<Rightarrow> instant option) \<Rightarrow> redis_value \<Rightarrow> trip_eta_out option" where
  "trip_eta_of uuid_of iso_of v =
     (case v of
        RBoard d arrivals \<Rightarrow>
          (case (uuid_field uuid_of d ''trip_id'', uuid_field uuid_of d ''route_id'', uuid_field uuid_of d ''bus_id'',
              instant_field iso_of d ''computed_at'', those (map (arrival_out_of uuid_of iso_of) arrivals)) of
             (Some t, Some x, Some b, Some c, Some as) \<Rightarrow>
               Some \<lparr>te_trip_id = t, te_route_id = x, te_bus_id = b, te_computed_at = c, te_arrivals = as\<rparr>
           | _ \<Rightarrow> None)
      | _ \<Rightarrow> None)"

definition restate_minutes :: "instant \<Rightarrow> trip_eta_out \<Rightarrow> trip_eta_out" where
  "restate_minutes now out =
     out\<lparr>te_arrivals := map (\<lambda>a. a\<lparr>ao_eta_minutes := minutes_until (ao_eta a) now\<rparr>) (te_arrivals out)\<rparr>"

definition trip_eta ::
  "(string \<Rightarrow> uuid option) \<Rightarrow> (string \<Rightarrow> instant option) \<Rightarrow> (uuid \<Rightarrow> string) \<Rightarrow> bool \<Rightarrow> instant \<Rightarrow> redis \<Rightarrow> uuid \<Rightarrow>
   handler_error + trip_eta_out" where
  "trip_eta uuid_of iso_of uuid_text up now r trip_id =
     (case cached_eta up now r (uuid_text trip_id) of
        None \<Rightarrow> Inl (Http (HTTPException 404 ''No arrival estimate for this trip yet''))
      | Some v \<Rightarrow>
          (case trip_eta_of uuid_of iso_of v of
             None \<Rightarrow> Inl (Uncaught ValueError)
           | Some out \<Rightarrow> Inr (restate_minutes now out)))"

text \<open>Live trips whose route includes the stop; the rows come in the order of the table.\<close>

definition live_trips_serving_stop :: "database \<Rightarrow> uuid \<Rightarrow> (uuid \<times> uuid \<times> uuid \<times> string) list" where
  "live_trips_serving_stop db stop_id =
     concat (map (\<lambda>t. case get_route db (tr_route_id t) of
         None \<Rightarrow> []
       | Some x \<Rightarrow> map (\<lambda>_. (tr_id t, tr_route_id t, tr_bus_id t, rt_name x))
           (filter (\<lambda>rs. rs_route_id rs = rt_id x \<and> rs_stop_id rs = stop_id) (db_route_stops db)))
       (filter is_live (db_trips db)))"

record bus_arrival_out = arrival_out +
  bo_trip_id :: uuid
  bo_route_id :: uuid
  bo_route_name :: string
  bo_bus_id :: uuid

record stop_arrivals_out =
  sa_stop_id :: uuid
  sa_stop_name :: string
  sa_as_of :: instant
  sa_arrivals :: "bus_arrival_out list"

definition bus_arrival_of ::
  "(string \<Rightarrow> instant option) \<Rightarrow> instant \<Rightarrow> uuid \<Rightarrow> uuid \<times> uuid \<times> uuid \<times> string \<Rightarrow> doc \<Rightarrow> bus_arrival_out option" where
  "bus_arrival_of iso_of now stop_id candidate item =
     (case candidate of (trip_id, route_id, bus_id, route_name) \<Rightarrow>
        (case (doc_get item ''seq'', instant_field iso_of item ''eta'', doc_get item ''basis'',
            py_float_of (doc_get item ''distance_km'')) of
           (JInt n, Some eta, JStr b, Inr x) \<Rightarrow>
             Some \<lparr>ao_stop_id = stop_id, ao_seq = n, ao_eta = eta, ao_eta_minutes = minutes_until eta now, ao_basis = b,
               ao_distance_km = x, bo_trip_id = trip_id, bo_route_id = route_id, bo_route_name = route_name,
               bo_bus_id = bus_id\<rparr>
         | _ \<Rightarrow> None))"

text \<open>The first entry for the stop on one trip's board; an entry that cannot be read ends the request.\<close>

definition arrival_on_board ::
  "(string \<Rightarrow> instant option) \<Rightarrow> (uuid \<Rightarrow> string) \<Rightarrow> bool \<Rightarrow> instant \<Rightarrow> redis \<Rightarrow> uuid \<Rightarrow> uuid \<times> uuid \<times> uuid \<times> string \<Rightarrow>
   py_error + bus_arrival_out option" where
  "arrival_on_board iso_of uuid_text up now r stop_id candidate =
     (case cached_eta up now r (uuid_text (fst candidate)) of
        Some (RBoard _ items) \<Rightarrow>
          (case find (\<lambda>item. doc_get item ''stop_id'' = JStr (uuid_text stop_id)) items of
             None \<Rightarrow> Inr None
           | Some item \<Rightarrow>
               (case bus_arrival_of iso_of now stop_id candidate item of
                  None \<Rightarrow> Inl ValueError
                | Some a \<Rightarrow> Inr (Some a)))
      | _ \<Rightarrow> Inr None)"

fun all_arrivals ::
  "(uuid \<times> uuid \<times> uuid \<times> string \<Rightarrow> py_error + bus_arrival_out option) \<Rightarrow> (uuid \<times> uuid \<times> uuid \<times> string) list \<Rightarrow>
   py_error + bus_arrival_out list" where
  "all_arrivals f [] = Inr []"
| "all_arrivals f (c # cs) =
     (case f c of
        Inl e \<Rightarrow> Inl e
      | Inr a \<Rightarrow> (case all_arrivals f cs of Inl e \<Rightarrow> Inl e | Inr as \<Rightarrow> Inr ((case a of None \<Rightarrow> as | Some x \<Rightarrow> x # as))))"

definition stop_arrivals ::
  "(string \<Rightarrow> instant option) \<Rightarrow> (uuid \<Rightarrow> string) \<Rightarrow> bool \<Rightarrow> instant \<Rightarrow> database \<Rightarrow> redis \<Rightarrow> uuid \<Rightarrow> nat \<Rightarrow>
   handler_error + stop_arrivals_out" where
  "stop_arrivals iso_of uuid_text up now db r stop_id limit =
     (case get_stop db stop_id of
        None \<Rightarrow> Inl (Http (HTTPException 404 ''Unknown stop''))
      | Some s \<Rightarrow>
          (case all_arrivals (arrival_on_board iso_of uuid_text up now r stop_id) (live_trips_serving_stop db stop_id) of
             Inl e \<Rightarrow> Inl (Uncaught e)
           | Inr as \<Rightarrow> Inr \<lparr>sa_stop_id = sp_id s, sa_stop_name = sp_name s, sa_as_of = now,
               sa_arrivals = take limit (sort_key ao_eta as)\<rparr>))"


section \<open>Keys\<close>

lemma trip_keys [simp]:
  "trip_eta_key a = trip_eta_key b \<longleftrightarrow> a = b" "trip_progress_key a = trip_progress_key b \<longleftrightarrow> a = b"
  by (simp_all add: trip_eta_key_def trip_progress_key_def)

lemma trip_key_kinds [simp]: "trip_eta_key a \<noteq> trip_progress_key b" "trip_progress_key b \<noteq> trip_eta_key a"
proof -
  have "last (trip_eta_key a) \<noteq> last (trip_progress_key b)" by (simp add: trip_eta_key_def trip_progress_key_def)
  then show "trip_eta_key a \<noteq> trip_progress_key b" "trip_progress_key b \<noteq> trip_eta_key a" by metis+
qed

section \<open>A pass over one trip\<close>

text \<open>How a pass ends: before it had everything, or with the progress carried and perhaps a board.\<close>

lemma compute_cases:
  assumes "compute_for_trip iso_of iso_text uuid_text float_text up1 up2 up3 db r hits t now = (answer, r')"
  obtains (early) "r' = r" "\<And>n. answer = Inr n \<Longrightarrow> n = 0"
  | (gathered) start track loaded progress arrivals r1 where
      "tr_actual_start t = Some start" "recent_fixes iso_of hits = Inr track"
      "load_progress iso_of up1 now r (uuid_text (tr_id t)) = Inr loaded"
      "trip_arrivals (route_points uuid_text db t) track loaded start now = (progress, arrivals)"
      "r1 = carry_progress iso_text up2 now (uuid_text (tr_id t)) loaded progress r"
      "if arrivals = [] \<or> \<not> up3 then answer = Inr 0 \<and> r' = r1
       else answer = Inr (length arrivals) \<and>
         r' = redis_set (trip_eta_key (uuid_text (tr_id t))) (board_value uuid_text iso_text float_text now t arrivals)
           (Some (now + ETA_TTL_S * second)) r1"
proof (cases "if route_points uuid_text db t = [] then None else tr_actual_start t")
  case None
  with assms show ?thesis by (intro early) (auto simp: compute_for_trip_def Let_def)
next
  case start: (Some start)
  show ?thesis
  proof (cases "recent_fixes iso_of hits")
    case (Inl e)
    with assms start show ?thesis by (intro early) (auto simp: compute_for_trip_def Let_def)
  next
    case track: (Inr track)
    show ?thesis
    proof (cases "load_progress iso_of up1 now r (uuid_text (tr_id t))")
      case (Inl e)
      with assms start track show ?thesis by (intro early) (auto simp: compute_for_trip_def Let_def)
    next
      case (Inr loaded)
      obtain progress arrivals where "trip_arrivals (route_points uuid_text db t) track loaded start now = (progress, arrivals)"
        by fastforce
      with assms start track Inr show ?thesis
        by (intro gathered [OF _ track Inr _ refl]) (auto simp: compute_for_trip_def Let_def split: if_splits)
    qed
  qed
qed

lemma compute_written:
  assumes "compute_for_trip iso_of iso_text uuid_text float_text up1 up2 up3 db r hits t now = (Inr n, r')" "n \<noteq> 0"
  obtains start track loaded progress arrivals r1 where
    "recent_fixes iso_of hits = Inr track" "load_progress iso_of up1 now r (uuid_text (tr_id t)) = Inr loaded"
    "trip_arrivals (route_points uuid_text db t) track loaded start now = (progress, arrivals)"
    "arrivals \<noteq> []" "n = length arrivals"
    "r' = redis_set (trip_eta_key (uuid_text (tr_id t))) (board_value uuid_text iso_text float_text now t arrivals)
        (Some (now + ETA_TTL_S * second)) r1"
  using assms(1)
proof (cases rule: compute_cases)
  case early
  with assms(2) show ?thesis by simp
next
  case (gathered start track loaded progress arrivals r1)
  with assms(2) show ?thesis by (intro that [OF gathered(2-4)]) (auto split: if_splits)
qed

lemma carry_data:
  "re_data (carry_progress iso_text up now i loaded advanced r) =
     (case advanced of
        Some p \<Rightarrow> if up \<and> advanced \<noteq> loaded
          then (re_data r)(trip_progress_key i \<mapsto> (RDoc (Some (progress_doc iso_text p)), Some (now + ETA_TTL_S * second)))
          else re_data r
      | None \<Rightarrow> re_data r)"
  by (simp add: carry_progress_def save_progress_def redis_set_def split: option.split)

lemma trip_arrivals_progress:
  assumes "trip_arrivals points track loaded start now = (progress, arrivals)"
  shows "progress = furthest ARRIVAL_RADIUS_KM points (set track) loaded"
  using assms by (auto simp: trip_arrivals_def progress_is_furthest furthest_none Let_def split: if_splits)

text \<open>The progress a pass arrives at: the furthest stop of the trip's fixes from where it was.\<close>

definition track_progress ::
  "(string \<Rightarrow> instant option) \<Rightarrow> (uuid \<Rightarrow> string) \<Rightarrow> database \<Rightarrow> trip \<Rightarrow> es_source list option \<Rightarrow> progress option \<Rightarrow> progress option" where
  "track_progress iso_of uuid_text db t hits loaded =
     (case (tr_actual_start t, recent_fixes iso_of hits) of
        (Some _, Inr track) \<Rightarrow> furthest ARRIVAL_RADIUS_KM (route_points uuid_text db t) (set track) loaded
      | _ \<Rightarrow> loaded)"

lemma furthest_no_points: "furthest radius [] fs loaded = loaded"
  by (rule furthest_none) (simp add: passed_def)

lemma track_progress_None: "track_progress iso_of uuid_text db t hits loaded = None \<Longrightarrow> loaded = None"
  by (auto simp: track_progress_def furthest_def Let_def split: option.splits sum.splits if_splits)

lemma compute_carries:
  assumes "compute_for_trip iso_of iso_text uuid_text float_text up1 up2 up3 db r hits t now = (answer, r')"
    and "load_progress iso_of up1 now r (uuid_text (tr_id t)) = Inr loaded"
  shows "re_data r' (trip_progress_key (uuid_text (tr_id t))) =
    re_data (carry_progress iso_text up2 now (uuid_text (tr_id t)) loaded (track_progress iso_of uuid_text db t hits loaded) r)
      (trip_progress_key (uuid_text (tr_id t)))"
proof (cases "route_points uuid_text db t = [] \<or> tr_actual_start t = None \<or> (\<exists>e. recent_fixes iso_of hits = Inl e)")
  case True
  then have "r' = r"
    using assms by (auto simp: compute_for_trip_def Let_def split: option.splits if_splits)
  moreover have "track_progress iso_of uuid_text db t hits loaded = loaded"
    using True by (auto simp: track_progress_def furthest_no_points split: option.split sum.split)
  ultimately show ?thesis by (simp add: carry_data split: option.split)
next
  case False
  then obtain start track where s: "tr_actual_start t = Some start" "recent_fixes iso_of hits = Inr track"
    by (metis not_None_eq obj_sumE)
  obtain progress arrivals where ta: "trip_arrivals (route_points uuid_text db t) track loaded start now = (progress, arrivals)"
    by fastforce
  have p: "progress = track_progress iso_of uuid_text db t hits loaded"
    using trip_arrivals_progress [OF ta] by (simp add: track_progress_def s)
  let ?r1 = "carry_progress iso_text up2 now (uuid_text (tr_id t)) loaded progress r"
  have "r' = ?r1 \<or> (\<exists>v e. r' = redis_set (trip_eta_key (uuid_text (tr_id t))) v e ?r1)"
    using assms False s ta by (auto simp: compute_for_trip_def Let_def split: if_splits)
  then show ?thesis by (auto simp: redis_set_def p)
qed

lemma load_saved:
  assumes "re_data r (trip_progress_key i) = Some (RDoc (Some (progress_doc iso_text p)), Some e)"
    and "iso_of (iso_text (pg_at p)) = Some (pg_at p)"
  shows "load_progress iso_of True now r i = Inr (if now < e then Some p else None)"
  using assms by (simp add: load_progress_def redis_get_def progress_doc_def doc_get_def py_int_of_def)

lemma load_same:
  "re_data r (trip_progress_key i) = re_data q (trip_progress_key i) \<Longrightarrow>
   load_progress iso_of up now r i = load_progress iso_of up now q i"
  by (simp add: load_progress_def redis_get_def)

text \<open>
  C31. A pass over a trip whose stored progress could be read leaves, where it can be saved, exactly
  the furthest stop that any of the fixes it was handed came near, and the progress as it was where none
  of them is ahead, the fixes cannot be read or the new progress cannot be saved. Either way the next
  reader never finds the trip further back than before.
\<close>

theorem progress_never_goes_back:
  assumes "compute_for_trip iso_of iso_text uuid_text float_text True up2 up3 db r hits t now = (answer, r')"
    and "load_progress iso_of True now r (uuid_text (tr_id t)) = Inr before"
    and "\<And>x. iso_of (iso_text x) = Some x"
  shows "\<exists>after. load_progress iso_of True now r' (uuid_text (tr_id t)) = Inr after \<and>
    after = (case (tr_actual_start t, recent_fixes iso_of hits) of
        (Some _, Inr track) \<Rightarrow>
          if up2 then furthest ARRIVAL_RADIUS_KM (route_points uuid_text db t) (set track) before else before
      | _ \<Rightarrow> before) \<and>
    (after = before \<or> reached_seq before < reached_seq after)"
proof -
  let ?key = "trip_progress_key (uuid_text (tr_id t))"
  let ?new = "track_progress iso_of uuid_text db t hits before"
  note d = compute_carries [OF assms(1,2), unfolded carry_data]
  have ahead: "?new = before \<or> reached_seq before < reached_seq ?new"
    using furthest_ahead [of ARRIVAL_RADIUS_KM "route_points uuid_text db t" _ before]
    by (auto simp: track_progress_def split: option.split sum.split)
  have shape: "(case (tr_actual_start t, recent_fixes iso_of hits) of
        (Some _, Inr track) \<Rightarrow>
          if up2 then furthest ARRIVAL_RADIUS_KM (route_points uuid_text db t) (set track) before else before
      | _ \<Rightarrow> before) = (if up2 then ?new else before)"
    by (simp add: track_progress_def split: option.split sum.split)
  show ?thesis
  proof (cases "up2 \<and> ?new \<noteq> before")
    case True
    then obtain p where p: "?new = Some p" using track_progress_None by (metis not_None_eq)
    with True d have "re_data r' ?key = Some (RDoc (Some (progress_doc iso_text p)), Some (now + ETA_TTL_S * second))"
      by simp
    from load_saved [where p = p and iso_text = iso_text and iso_of = iso_of, OF this assms(3)]
    have "load_progress iso_of True now r' (uuid_text (tr_id t)) = Inr ?new" by (simp add: ETA_TTL_S_def p)
    with True ahead show ?thesis unfolding shape by auto
  next
    case False
    with d have "re_data r' ?key = re_data r ?key" by (auto split: option.splits)
    then have "load_progress iso_of True now r' (uuid_text (tr_id t)) = Inr before" using load_same assms(2) by metis
    with False show ?thesis unfolding shape by auto
  qed
qed

text \<open>
  But it is forgotten: the key lives thirty minutes from the last stop reached, not from the
  last pass, so a bus that takes longer between two stops starts over.
\<close>

theorem progress_is_forgotten:
  assumes "re_data r (trip_progress_key i) = Some (RDoc (Some (progress_doc iso_text p)), Some (saved + ETA_TTL_S * second))"
    and "iso_of (iso_text (pg_at p)) = Some (pg_at p)" "saved + 30 * minute \<le> now"
    and "compute_for_trip iso_of iso_text uuid_text float_text True up2 True db r hits t now = (Inr n, r')"
    and "i = uuid_text (tr_id t)" "n \<noteq> 0"
  shows "\<exists>track start progress arrivals.
    trip_arrivals (route_points uuid_text db t) track None start now = (progress, arrivals) \<and> n = length arrivals \<and>
    redis_get r' now (trip_eta_key i) = Some (board_value uuid_text iso_text float_text now t arrivals)"
proof -
  have "load_progress iso_of True now r i = Inr None"
    using load_saved [where p = p and iso_text = iso_text and iso_of = iso_of, OF assms(1,2)] assms(3) by (simp add: ETA_TTL_S_def)
  moreover obtain start track loaded progress arrivals r1 where
    "load_progress iso_of True now r i = Inr loaded" "n = length arrivals"
    "trip_arrivals (route_points uuid_text db t) track loaded start now = (progress, arrivals)"
    "r' = redis_set (trip_eta_key i) (board_value uuid_text iso_text float_text now t arrivals)
        (Some (now + ETA_TTL_S * second)) r1"
    by (rule compute_written [OF assms(4,6)]) (simp add: assms(5))
  ultimately show ?thesis by (auto simp: ETA_TTL_S_def)
qed


section \<open>The board read back\<close>

lemma subseq_mem: "subseq xs ys \<Longrightarrow> x \<in> set xs \<Longrightarrow> x \<in> set ys"
  by (induction rule: list_emb.induct) auto

lemma estimate_stops:
  assumes "a \<in> set (estimate_arrivals points position progress start speed now)"
  shows "\<exists>p \<in> set points. ar_stop_id a = rp_stop_id p"
proof -
  have s: "subseq (map (\<lambda>a. (ar_stop_id a, ar_seq a)) (estimate_arrivals points position progress start speed now))
      (map (\<lambda>p. (rp_stop_id p, rp_seq p)) (remaining points (reached_seq progress)))"
    using board_facts by blast
  have "(ar_stop_id a, ar_seq a) \<in> set (map (\<lambda>p. (rp_stop_id p, rp_seq p)) (remaining points (reached_seq progress)))"
    using assms subseq_mem [OF s] by auto
  then show ?thesis by (auto simp: remaining_def)
qed

lemma route_point_ids: "p \<in> set (route_points uuid_text db t) \<Longrightarrow> \<exists>i. rp_stop_id p = uuid_text i"
  by (auto simp: route_points_def set_map_filter route_point_of_def)

lemma trip_arrivals_facts:
  assumes "trip_arrivals (route_points uuid_text db t) track loaded start now = (progress, arrivals)"
  shows "sorted (map ar_eta arrivals) \<and> (\<forall>a \<in> set arrivals. now \<le> ar_eta a \<and> ar_eta a \<le> now + 3 * hour \<and>
    (\<exists>i. ar_stop_id a = uuid_text i))"
proof -
  obtain position speed where e: "arrivals = estimate_arrivals (route_points uuid_text db t) position progress start speed now"
    using assms by (auto simp: trip_arrivals_def Let_def)
  have "sorted (map ar_eta arrivals)" "list_all (\<lambda>a. now \<le> ar_eta a \<and> ar_eta a \<le> now + MAX_HORIZON) arrivals"
    unfolding e using board_facts by blast+
  moreover have "\<exists>i. ar_stop_id a = uuid_text i" if "a \<in> set arrivals" for a
    using estimate_stops [of a "route_points uuid_text db t"] that route_point_ids unfolding e by metis
  ultimately show ?thesis by (auto simp: list_all_iff MAX_HORIZON_def)
qed

lemma arrival_round_trip:
  assumes "uuid_of (ar_stop_id a) = Some i" "iso_of (iso_text (ar_eta a)) = Some (ar_eta a)"
    and "py_float (float_text (ar_distance_km a)) = Some x"
  shows "arrival_out_of uuid_of iso_of (arrival_doc iso_text float_text now a) =
    Some \<lparr>ao_stop_id = i, ao_seq = ar_seq a, ao_eta = ar_eta a, ao_eta_minutes = minutes_until (ar_eta a) now,
      ao_basis = ar_basis a, ao_distance_km = x\<rparr>"
  using assms
  by (simp add: arrival_out_of_def arrival_doc_def doc_get_def uuid_field_def instant_field_def minutes_until_def)

lemma those_map_Some: "(\<And>x. x \<in> set xs \<Longrightarrow> f x = Some (g x)) \<Longrightarrow> those (map f xs) = Some (map g xs)"
  by (induction xs) simp_all

text \<open>
  C30. A board survives Redis. For thirty minutes after a pass wrote one, \<^verbatim>\<open>trip_eta\<close>
  answers with exactly the pass's arrivals (stop, number, time, basis) in order, under the trip's own
  route and bus, each with its minutes recounted against the reader's clock; the next-stop minutes on
  the maps are the first entry's; and once the half hour is over the trip has no estimate.
\<close>

theorem board_reads_back:
  assumes "compute_for_trip iso_of iso_text uuid_text float_text up1 up2 up3 db r hits t now = (Inr n, r')" "n \<noteq> 0"
    and "\<And>i. uuid_of (uuid_text i) = Some i" "\<And>x. iso_of (iso_text x) = Some x" "\<And>x. py_float (float_text x) \<noteq> None"
    and "now \<le> later"
  shows "\<exists>track loaded start progress arrivals.
    trip_arrivals (route_points uuid_text db t) track loaded start now = (progress, arrivals) \<and> n = length arrivals \<and>
    (if later < now + 30 * minute
     then next_stop_minutes iso_of (redis_get r' later (trip_eta_key (uuid_text (tr_id t)))) later =
         Some (minutes_until (ar_eta (hd arrivals)) later) \<and>
       (\<exists>out. trip_eta uuid_of iso_of uuid_text True later r' (tr_id t) = Inr out \<and>
         te_trip_id out = tr_id t \<and> te_route_id out = tr_route_id t \<and> te_bus_id out = tr_bus_id t \<and> te_computed_at out = now \<and>
         map (\<lambda>a. (uuid_text (ao_stop_id a), ao_seq a, ao_eta a, ao_basis a)) (te_arrivals out) =
           map (\<lambda>a. (ar_stop_id a, ar_seq a, ar_eta a, ar_basis a)) arrivals \<and>
         (\<forall>a \<in> set (te_arrivals out). ao_eta_minutes a = minutes_until (ao_eta a) later \<and> ao_eta a \<le> now + 3 * hour))
     else trip_eta uuid_of iso_of uuid_text True later r' (tr_id t) =
       Inl (Http (HTTPException 404 ''No arrival estimate for this trip yet'')))"
proof -
  obtain start track loaded progress arrivals r1 where c:
    "trip_arrivals (route_points uuid_text db t) track loaded start now = (progress, arrivals)" "arrivals \<noteq> []" "n = length arrivals"
    "r' = redis_set (trip_eta_key (uuid_text (tr_id t))) (board_value uuid_text iso_text float_text now t arrivals)
        (Some (now + ETA_TTL_S * second)) r1"
    using compute_written [OF assms(1,2)] by metis
  note facts = trip_arrivals_facts [OF c(1)]
  define out where "out = (\<lambda>a :: arrival. \<lparr>ao_stop_id = the (uuid_of (ar_stop_id a)), ao_seq = ar_seq a, ao_eta = ar_eta a,
    ao_eta_minutes = minutes_until (ar_eta a) now, ao_basis = ar_basis a,
    ao_distance_km = the (py_float (float_text (ar_distance_km a)))\<rparr>)"
  have id: "uuid_of (ar_stop_id a) = Some (the (uuid_of (ar_stop_id a)))" "uuid_text (the (uuid_of (ar_stop_id a))) = ar_stop_id a"
    if "a \<in> set arrivals" for a
    using facts that assms(3) by fastforce+
  have outs: "those (map (arrival_out_of uuid_of iso_of) (map (arrival_doc iso_text float_text now) arrivals)) = Some (map out arrivals)"
    unfolding map_map comp_def out_def
    using id(1) assms(4,5) by (intro those_map_Some arrival_round_trip) auto
  have eta: "trip_eta_of uuid_of iso_of (board_value uuid_text iso_text float_text now t arrivals) =
      Some \<lparr>te_trip_id = tr_id t, te_route_id = tr_route_id t, te_bus_id = tr_bus_id t, te_computed_at = now,
        te_arrivals = map out arrivals\<rparr>"
    using outs by (simp add: trip_eta_of_def board_value_def uuid_field_def instant_field_def doc_get_def assms(3,4))
  have first: "next_stop_minutes iso_of (Some (board_value uuid_text iso_text float_text now t arrivals)) later =
      Some (minutes_until (ar_eta (hd arrivals)) later)"
    using c(2) by (cases arrivals) (simp_all add: next_stop_minutes_def board_value_def arrival_doc_def doc_get_def assms(4))
  have g: "redis_get r' later (trip_eta_key (uuid_text (tr_id t))) =
      (if later < now + 30 * minute then Some (board_value uuid_text iso_text float_text now t arrivals) else None)"
    by (simp add: c(4) ETA_TTL_S_def)
  have cached: "cached_eta True later r' (uuid_text (tr_id t)) =
      (if later < now + 30 * minute then Some (board_value uuid_text iso_text float_text now t arrivals) else None)"
    by (simp add: cached_eta_def g board_value_def)
  show ?thesis
  proof (intro exI conjI)
    show "trip_arrivals (route_points uuid_text db t) track loaded start now = (progress, arrivals)" "n = length arrivals"
      by (rule c)+
    show "if later < now + 30 * minute
     then next_stop_minutes iso_of (redis_get r' later (trip_eta_key (uuid_text (tr_id t)))) later =
         Some (minutes_until (ar_eta (hd arrivals)) later) \<and>
       (\<exists>out. trip_eta uuid_of iso_of uuid_text True later r' (tr_id t) = Inr out \<and>
         te_trip_id out = tr_id t \<and> te_route_id out = tr_route_id t \<and> te_bus_id out = tr_bus_id t \<and> te_computed_at out = now \<and>
         map (\<lambda>a. (uuid_text (ao_stop_id a), ao_seq a, ao_eta a, ao_basis a)) (te_arrivals out) =
           map (\<lambda>a. (ar_stop_id a, ar_seq a, ar_eta a, ar_basis a)) arrivals \<and>
         (\<forall>a \<in> set (te_arrivals out). ao_eta_minutes a = minutes_until (ao_eta a) later \<and> ao_eta a \<le> now + 3 * hour))
     else trip_eta uuid_of iso_of uuid_text True later r' (tr_id t) =
       Inl (Http (HTTPException 404 ''No arrival estimate for this trip yet''))"
      using facts id(2) first
      by (auto simp: g trip_eta_def cached eta restate_minutes_def out_def)
  qed
qed


section \<open>One bad trip costs no other\<close>

text \<open>
  Jobs over the same Redis that each read and write keys of their own: run one after the
  other, each does what it would have done alone.
\<close>

locale separate_jobs =
  fixes job :: "'t \<Rightarrow> redis \<Rightarrow> 'a \<times> redis" and keys :: "'t \<Rightarrow> string set"
  assumes elsewhere: "k \<notin> keys t \<Longrightarrow> re_data (snd (job t r)) k = re_data r k"
    and own: "(\<And>k. k \<in> keys t \<Longrightarrow> re_data r k = re_data q k) \<Longrightarrow>
      fst (job t r) = fst (job t q) \<and> (k \<in> keys t \<longrightarrow> re_data (snd (job t r)) k = re_data (snd (job t q)) k)"
begin

lemma undisturbed:
  "\<forall>s \<in> set ts. keys s \<inter> K = {} \<Longrightarrow> k \<in> K \<Longrightarrow> re_data (foldl (\<lambda>r t. snd (job t r)) r ts) k = re_data r k"
proof (induction ts arbitrary: r)
  case (Cons t ts)
  then have "re_data (foldl (\<lambda>r t. snd (job t r)) (snd (job t r)) ts) k = re_data (snd (job t r)) k" by simp
  moreover have "k \<notin> keys t" using Cons.prems by auto
  ultimately show ?case using elsewhere by simp
qed simp

lemma each_alone:
  assumes "distinct ts" "pairwise (\<lambda>s t. keys s \<inter> keys t = {}) (set ts)"
    and "t \<in> set ts" "k \<in> keys t"
  shows "re_data (foldl (\<lambda>r t. snd (job t r)) r ts) k = re_data (snd (job t r)) k"
proof -
  obtain before after where s: "ts = before @ t # after" using assms(3) by (meson split_list)
  have apart: "\<forall>s \<in> set before. keys s \<inter> keys t = {}" "\<forall>s \<in> set after. keys s \<inter> keys t = {}"
    using assms(1,2) unfolding s by (auto simp: pairwise_def)
  let ?r = "foldl (\<lambda>r t. snd (job t r)) r before"
  have "re_data (foldl (\<lambda>r t. snd (job t r)) r ts) k = re_data (snd (job t ?r)) k"
    unfolding s using undisturbed [OF apart(2) assms(4)] by simp
  also have "\<dots> = re_data (snd (job t r)) k"
    using own [of t ?r r k] undisturbed [OF apart(1)] assms(4) by blast
  finally show ?thesis .
qed

lemma answers_alone:
  assumes "distinct ts" "pairwise (\<lambda>s t. keys s \<inter> keys t = {}) (set ts)"
  shows "foldl (\<lambda>(xs, r) t. (xs @ [fst (job t r)], snd (job t r))) (xs, r) ts =
    (xs @ map (\<lambda>t. fst (job t r)) ts, foldl (\<lambda>r t. snd (job t r)) r ts)"
  using assms
proof (induction ts arbitrary: xs r)
  case (Cons t ts)
  have IH: "foldl (\<lambda>(xs, r) t. (xs @ [fst (job t r)], snd (job t r))) (xs @ [fst (job t r)], snd (job t r)) ts =
      (xs @ [fst (job t r)] @ map (\<lambda>s. fst (job s (snd (job t r)))) ts, foldl (\<lambda>r t. snd (job t r)) (snd (job t r)) ts)"
    using Cons.IH [of "xs @ [fst (job t r)]" "snd (job t r)"] Cons.prems by (auto simp: pairwise_insert)
  have "fst (job s (snd (job t r))) = fst (job s r)" if "s \<in> set ts" for s
  proof -
    have "keys s \<inter> keys t = {}" using Cons.prems that by (auto simp: pairwise_def)
    then show ?thesis using own [of s "snd (job t r)" r] elsewhere [of _ t r] by blast
  qed
  with IH show ?case by (simp cong: map_cong)
qed simp

end

lemma trip_arrivals_empty: "fst (trip_arrivals points [] loaded start now) = loaded"
  by (simp add: trip_arrivals_def)

lemma carry_elsewhere:
  "k \<noteq> trip_progress_key i \<Longrightarrow> re_data (carry_progress iso_text up now i loaded advanced r) k = re_data r k"
  by (simp add: carry_data split: option.split)

lemma compute_elsewhere:
  assumes "k \<notin> {trip_eta_key (uuid_text (tr_id t)), trip_progress_key (uuid_text (tr_id t))}"
  shows "re_data (snd (compute_for_trip iso_of iso_text uuid_text float_text up1 up2 up3 db r hits t now)) k = re_data r k"
proof -
  obtain answer r' where c: "compute_for_trip iso_of iso_text uuid_text float_text up1 up2 up3 db r hits t now = (answer, r')"
    by fastforce
  then have "re_data r' k = re_data r k"
  proof (cases rule: compute_cases)
    case gathered
    with assms show ?thesis by (auto simp: redis_set_def carry_elsewhere split: if_splits)
  qed simp
  with c show ?thesis by simp
qed

lemma carry_same:
  "re_data r k = re_data q k \<Longrightarrow>
   re_data (carry_progress iso_text up now i loaded advanced r) k = re_data (carry_progress iso_text up now i loaded advanced q) k"
  by (simp add: carry_data split: option.split)

lemma compute_own:
  assumes "re_data r (trip_progress_key (uuid_text (tr_id t))) = re_data q (trip_progress_key (uuid_text (tr_id t)))"
  shows "fst (compute_for_trip iso_of iso_text uuid_text float_text up1 up2 up3 db r hits t now) =
      fst (compute_for_trip iso_of iso_text uuid_text float_text up1 up2 up3 db q hits t now) \<and>
    (re_data r k = re_data q k \<longrightarrow>
      re_data (snd (compute_for_trip iso_of iso_text uuid_text float_text up1 up2 up3 db r hits t now)) k =
      re_data (snd (compute_for_trip iso_of iso_text uuid_text float_text up1 up2 up3 db q hits t now)) k)"
  using carry_same [of r k q iso_text up2 now "uuid_text (tr_id t)"]
  by (auto simp: compute_for_trip_def load_same [OF assms] redis_set_def Let_def split: option.split sum.split prod.split)

interpretation eta_jobs: separate_jobs
    "\<lambda>t r. compute_for_trip iso_of iso_text uuid_text float_text up1 up2 up3 db r (hits t) t now"
    "\<lambda>t. {trip_eta_key (uuid_text (tr_id t)), trip_progress_key (uuid_text (tr_id t))}"
  for iso_of iso_text uuid_text float_text up1 up2 up3 db hits now
proof (unfold_locales, goal_cases)
  case (1 k t r)
  then show ?case by (rule compute_elsewhere)
next
  case (2 t r q k)
  then show ?case using compute_own [of r uuid_text t q] by auto
qed

lemma compute_once_fold:
  "foldl (eta_step job) (foldl (\<lambda>tally a. count_trip a tally) t0 xs, r) ts =
     (case foldl (\<lambda>(xs, r) t. (xs @ [fst (job t r)], snd (job t r))) (xs, r) ts of
        (ys, r') \<Rightarrow> (foldl (\<lambda>tally a. count_trip a tally) t0 ys, r'))"
proof (induction ts arbitrary: xs r)
  case (Cons t ts)
  have "eta_step job (foldl (\<lambda>tally a. count_trip a tally) t0 xs, r) t =
      (foldl (\<lambda>tally a. count_trip a tally) t0 (xs @ [fst (job t r)]), snd (job t r))"
    by (simp add: eta_step_def split: prod.split)
  with Cons.IH [of "xs @ [fst (job t r)]" "snd (job t r)"] show ?case by simp
qed simp

lemma count_trips:
  "foldl (\<lambda>tally a. count_trip a tally) z xs = z\<lparr>et_trips := et_trips z + length xs,
     et_estimated := et_estimated z + length (filter (\<lambda>a. case a of Inl _ \<Rightarrow> False | Inr n \<Rightarrow> n \<noteq> 0) xs),
     et_arrivals := et_arrivals z + sum_list (map (\<lambda>a. case a of Inl _ \<Rightarrow> 0 | Inr n \<Rightarrow> n) xs)\<rparr>"
  by (induction xs arbitrary: z) (auto simp: count_trip_def Let_def split: sum.split)

text \<open>
  C29. One bad trip costs no other its estimate. A pass over live trips of different ids
  leaves, under every trip's keys, exactly what a pass over that trip alone would have left, whether
  the others raised, found nothing or wrote boards; and its tally counts every trip, those with a
  board, and all their arrivals.
\<close>

theorem pass_is_each_trip_alone:
  assumes "distinct (map tr_id trips)" "\<And>i. uuid_of (uuid_text i) = Some i"
    and job_def: "job = (\<lambda>t r. compute_for_trip iso_of iso_text uuid_text float_text up1 up2 up3 db r (hits t) t now)"
  shows "(\<forall>t \<in> set trips. \<forall>k \<in> {trip_eta_key (uuid_text (tr_id t)), trip_progress_key (uuid_text (tr_id t))}.
      re_data (snd (compute_once job trips r)) k = re_data (snd (job t r)) k) \<and>
    fst (compute_once job trips r) = \<lparr>et_trips = length trips,
      et_estimated = length (filter (\<lambda>t. case fst (job t r) of Inl _ \<Rightarrow> False | Inr n \<Rightarrow> n \<noteq> 0) trips),
      et_arrivals = sum_list (map (\<lambda>t. case fst (job t r) of Inl _ \<Rightarrow> 0 | Inr n \<Rightarrow> n) trips)\<rparr>"
proof -
  have d: "distinct trips" using assms(1) by (simp add: distinct_map)
  have "uuid_text (tr_id s) \<noteq> uuid_text (tr_id t)" if "s \<in> set trips" "t \<in> set trips" "s \<noteq> t" for s t
  proof -
    have "tr_id s \<noteq> tr_id t" using assms(1) that by (auto simp: distinct_map inj_on_def)
    then show ?thesis using assms(2) by (metis option.inject)
  qed
  then have apart: "pairwise (\<lambda>s t. {trip_eta_key (uuid_text (tr_id s)), trip_progress_key (uuid_text (tr_id s))} \<inter>
      {trip_eta_key (uuid_text (tr_id t)), trip_progress_key (uuid_text (tr_id t))} = {}) (set trips)"
    by (auto simp: pairwise_def)
  let ?z = "\<lparr>et_trips = 0, et_estimated = 0, et_arrivals = 0\<rparr>"
  have "compute_once job trips r =
      (foldl (\<lambda>tally a. count_trip a tally) ?z (map (\<lambda>t. fst (job t r)) trips), foldl (\<lambda>r t. snd (job t r)) r trips)"
    using compute_once_fold [of job ?z "[]" r trips] eta_jobs.answers_alone [OF d apart, of iso_of iso_text float_text up1 up2 up3 db hits now "[]" r]
    by (simp add: compute_once_def job_def)
  then show ?thesis
    using eta_jobs.each_alone [OF d apart, where r = r and iso_of = iso_of and iso_text = iso_text and float_text = float_text
        and ?up1.0 = up1 and ?up2.0 = up2 and ?up3.0 = up3 and db = db and hits = hits and now = now]
    by (simp add: count_trips job_def filter_map comp_def)
qed


section \<open>The next buses at a stop\<close>

lemma all_arrivals_Inr:
  "all_arrivals f cs = Inr as \<Longrightarrow>
   (\<forall>c \<in> set cs. \<exists>a. f c = Inr a) \<and> as = List.map_filter (\<lambda>c. case f c of Inr a \<Rightarrow> a | Inl _ \<Rightarrow> None) cs"
  by (induction cs arbitrary: as) (auto simp: map_filter_simps split: sum.splits option.splits)

lemma arrival_on_board_Some:
  assumes "arrival_on_board iso_of uuid_text up now r stop_id c = Inr (Some a)"
  shows "ao_stop_id a = stop_id \<and> ao_eta_minutes a = minutes_until (ao_eta a) now \<and>
    (bo_trip_id a, bo_route_id a, bo_bus_id a, bo_route_name a) = c"
  using assms
  by (auto simp: arrival_on_board_def bus_arrival_of_def instant_field_def split: option.splits redis_value.splits
      prod.splits jval.splits sum.splits)

lemma serving_in:
  assumes "c \<in> set (live_trips_serving_stop db stop_id)"
  obtains t x rs where "t \<in> set (db_trips db)" "is_live t" "get_route db (tr_route_id t) = Some x"
    "c = (tr_id t, tr_route_id t, tr_bus_id t, rt_name x)"
    "rs \<in> set (db_route_stops db)" "rs_route_id rs = tr_route_id t" "rs_stop_id rs = stop_id"
proof -
  let ?rows = "\<lambda>t. case get_route db (tr_route_id t) of
         None \<Rightarrow> []
       | Some x \<Rightarrow> map (\<lambda>_. (tr_id t, tr_route_id t, tr_bus_id t, rt_name x))
           (filter (\<lambda>rs. rs_route_id rs = rt_id x \<and> rs_stop_id rs = stop_id) (db_route_stops db))"
  obtain t :: trip where t: "t \<in> set (db_trips db)" "is_live t" "c \<in> set (?rows t)"
    using assms unfolding live_trips_serving_stop_def by fastforce
  then obtain x where x: "get_route db (tr_route_id t) = Some x" by (cases "get_route db (tr_route_id t)") auto
  moreover have "rt_id x = tr_route_id t" using x by (auto dest: row_get_SomeD)
  ultimately show ?thesis using t by (auto intro!: that [of t x])
qed

lemma one_row:
  assumes "distinct (map k rows)"
  shows "length (filter (\<lambda>x. k x = v) rows) \<le> 1"
  using assms
proof (induction rows)
  case (Cons x rows)
  have "k y \<noteq> k x" if "y \<in> set rows" for y
    using Cons.prems that by (metis distinct.simps(2) image_eqI list.simps(9) set_map)
  then have "filter (\<lambda>y. k y = k x) rows = []" by (simp add: filter_empty_conv)
  with Cons show ?case by auto
qed simp

lemma serving_distinct:
  assumes "db_ok db"
  shows "distinct (map fst (live_trips_serving_stop db stop_id))"
proof -
  let ?f = "\<lambda>t. case get_route db (tr_route_id t) of
         None \<Rightarrow> []
       | Some x \<Rightarrow> map (\<lambda>_. (tr_id t, tr_route_id t, tr_bus_id t, rt_name x))
           (filter (\<lambda>rs. rs_route_id rs = rt_id x \<and> rs_stop_id rs = stop_id) (db_route_stops db))"
  have rows: "distinct (map (\<lambda>rs. (rs_route_id rs, rs_stop_id rs)) (db_route_stops db))"
    using assms by (simp add: db_ok_def fleet_ok_def)
  have short: "length (?f t) \<le> 1" for t :: trip
    using one_row [OF rows, of "(rt_id x, stop_id)" for x] by (auto split: option.split)
  have ids: "\<forall>c \<in> set (?f t). fst c = tr_id t" for t :: trip by (auto split: option.split)
  have "distinct (map fst (concat (map ?f ts)))" if "distinct (map tr_id ts)" for ts :: "trip list"
    using that
  proof (induction ts)
    case (Cons t ts)
    have "distinct (map fst (?f t))" using short [of t] by (cases "?f t") auto
    moreover have "tr_id t \<notin> fst ` set (concat (map ?f ts))" using Cons.prems ids by fastforce
    ultimately show ?case using Cons ids [of t] by auto
  qed simp
  moreover have "distinct (map tr_id (filter is_live (db_trips db)))"
    using assms by (simp add: db_ok_def trips_ok_def distinct_map_filter)
  ultimately show ?thesis unfolding live_trips_serving_stop_def by blast
qed

lemma take_sorted:
  assumes "x \<in> set xs" "x \<notin> set (take n (sort_key k xs))"
  shows "length (take n (sort_key k xs)) = n \<and> (\<forall>y \<in> set (take n (sort_key k xs)). k y \<le> k x)"
proof -
  let ?s = "sort_key k xs"
  have "x \<in> set (drop n ?s)"
    using assms by (metis Un_iff append_take_drop_id set_append set_sort)
  moreover have "\<forall>a \<in> set (take n ?s). \<forall>b \<in> set (drop n ?s). k a \<le> k b"
  proof -
    have "sorted (map k (take n ?s @ drop n ?s))" by simp
    then show ?thesis unfolding map_append sorted_append by auto
  qed
  moreover have "n \<le> length ?s" using calculation(1) by (cases "n \<le> length ?s") auto
  ultimately show ?thesis by auto
qed

lemma map_filter_distinct:
  assumes "distinct (map k cs)" "\<And>c a. f c = Some a \<Longrightarrow> h a = k c"
  shows "distinct (map h (List.map_filter f cs))"
  using assms(1)
proof (induction cs)
  case (Cons c cs)
  have "k c \<notin> h ` set (List.map_filter f cs)" using Cons.prems assms(2) by (auto simp: set_map_filter)
  with Cons assms(2) [of c] show ?case by (auto simp: map_filter_simps split: option.split)
qed (simp add: map_filter_simps)

text \<open>
  What a student at a stop is told is the truth and the soonest of it:
  \<^verbatim>\<open>stop_arrivals\<close> lists at most \<open>limit\<close> buses, soonest first, each at most once, each
  on a live trip whose route serves the stop, with its minutes counted at this moment; and a bus whose
  board names the stop is left out only for as many buses that come no later.
\<close>

theorem stop_board_is_soonest:
  assumes "stop_arrivals iso_of uuid_text up now db r stop_id limit = Inr out" "db_ok db"
  shows "length (sa_arrivals out) \<le> limit \<and> sorted (map ao_eta (sa_arrivals out)) \<and>
    distinct (map bo_trip_id (sa_arrivals out)) \<and>
    (\<forall>a \<in> set (sa_arrivals out). ao_stop_id a = stop_id \<and> ao_eta_minutes a = minutes_until (ao_eta a) now \<and>
       (\<exists>t \<in> set (db_trips db). is_live t \<and> tr_id t = bo_trip_id a \<and> tr_bus_id t = bo_bus_id a \<and> tr_route_id t = bo_route_id a \<and>
          (\<exists>rs \<in> set (db_route_stops db). rs_route_id rs = tr_route_id t \<and> rs_stop_id rs = stop_id))) \<and>
    (\<forall>c \<in> set (live_trips_serving_stop db stop_id). \<forall>a.
       arrival_on_board iso_of uuid_text up now r stop_id c = Inr (Some a) \<and> a \<notin> set (sa_arrivals out) \<longrightarrow>
       length (sa_arrivals out) = limit \<and> (\<forall>b \<in> set (sa_arrivals out). ao_eta b \<le> ao_eta a))"
proof -
  let ?board = "arrival_on_board iso_of uuid_text up now r stop_id"
  let ?cs = "live_trips_serving_stop db stop_id"
  let ?f = "\<lambda>c. case ?board c of Inr a \<Rightarrow> a | Inl _ \<Rightarrow> None"
  obtain as where as: "all_arrivals ?board ?cs = Inr as" "sa_arrivals out = take limit (sort_key ao_eta as)"
    using assms(1) by (auto simp: stop_arrivals_def split: option.splits sum.splits)
  note parts = all_arrivals_Inr [OF as(1)]
  have f: "?f c = Some a \<Longrightarrow> ?board c = Inr (Some a)" for c a by (auto split: sum.splits)
  have mem: "\<exists>c \<in> set ?cs. ?board c = Inr (Some a)" if "a \<in> set as" for a :: bus_arrival_out
    using that parts f by (auto simp: set_map_filter)
  have sub: "set (sa_arrivals out) \<subseteq> set as" unfolding as(2) using set_take_subset by fastforce
  have "distinct (map bo_trip_id as)"
    unfolding conjunct2 [OF parts]
    by (rule map_filter_distinct [OF serving_distinct [OF assms(2), of stop_id]]) (use f arrival_on_board_Some in force)
  then have d: "distinct (map bo_trip_id (sort_key ao_eta as))"
    by (metis distinct_map distinct_sort set_sort)
  have each: "ao_stop_id a = stop_id \<and> ao_eta_minutes a = minutes_until (ao_eta a) now \<and>
       (\<exists>t \<in> set (db_trips db). is_live t \<and> tr_id t = bo_trip_id a \<and> tr_bus_id t = bo_bus_id a \<and> tr_route_id t = bo_route_id a \<and>
          (\<exists>rs \<in> set (db_route_stops db). rs_route_id rs = tr_route_id t \<and> rs_stop_id rs = stop_id))"
    if listed: "a \<in> set (sa_arrivals out)" for a :: bus_arrival_out
  proof -
    obtain c where c: "c \<in> set ?cs" "?board c = Inr (Some a)" using mem sub listed by blast
    note a = arrival_on_board_Some [OF c(2)]
    from c(1) obtain t x rs where "t \<in> set (db_trips db)" "is_live t" "get_route db (tr_route_id t) = Some x" "c = (tr_id t, tr_route_id t, tr_bus_id t, rt_name x)"
      "rs \<in> set (db_route_stops db)" "rs_route_id rs = tr_route_id t" "rs_stop_id rs = stop_id" by (rule serving_in)
    with a show ?thesis by auto
  qed
  have "length (sa_arrivals out) = limit \<and> (\<forall>b \<in> set (sa_arrivals out). ao_eta b \<le> ao_eta a)"
    if "c \<in> set ?cs" "?board c = Inr (Some a)" "a \<notin> set (sa_arrivals out)" for c and a :: bus_arrival_out
  proof -
    have "a \<in> set as" using that(1,2) by (auto simp: conjunct2 [OF parts] set_map_filter intro!: bexI [of _ c])
    then show ?thesis using that(3) unfolding as(2) by (rule take_sorted)
  qed
  moreover have "sorted (map ao_eta (sa_arrivals out))" "length (sa_arrivals out) \<le> limit"
    by (simp_all add: as(2) sorted_wrt_take take_map [symmetric])
  moreover have "distinct (map bo_trip_id (sa_arrivals out))" using d by (simp add: as(2) take_map [symmetric])
  ultimately show ?thesis using each by blast
qed


section \<open>A timetable to try it on\<close>

definition timetable_db :: database where
  "timetable_db = demo_db\<lparr>db_route_stops := [(demo_route_stop 61 41 1)\<lparr>rs_scheduled_offset_min := Some 10\<rparr>,
     (demo_route_stop 62 42 2)\<lparr>rs_scheduled_offset_min := Some 20\<rparr>]\<rparr>"

lemma timetable_db_ok: "db_ok timetable_db"
  by (simp add: timetable_db_def db_ok_defs demo_defs unique_on_def fk_opt_def)

definition first_board :: "arrival list" where
  "first_board = [\<lparr>ar_stop_id = unary_text 41, ar_seq = 1, ar_eta = demo_now + 10 * minute, ar_basis = ''scheduled'', ar_distance_km = 0\<rparr>,
     \<lparr>ar_stop_id = unary_text 42, ar_seq = 2, ar_eta = demo_now + 20 * minute, ar_basis = ''scheduled'', ar_distance_km = 0\<rparr>]"

lemma py_round_zero [simp]: "py_round 0 = 0"
  by (simp add: py_round_def)

lemma timetable_points:
  "route_points unary_text timetable_db demo_trip =
     [\<lparr>rp_stop_id = unary_text 41, rp_seq = 1, rp_lat = 23, rp_lng = 90, rp_scheduled_offset_min = Some 10\<rparr>,
      \<lparr>rp_stop_id = unary_text 42, rp_seq = 2, rp_lat = 23, rp_lng = 90, rp_scheduled_offset_min = Some 20\<rparr>]"
  by (simp add: route_points_def stops_of_route_def route_point_of_def timetable_db_def demo_defs map_filter_simps)

lemma timetable_arrivals:
  "trip_arrivals (route_points unary_text timetable_db demo_trip) [] None demo_now demo_now = (None, first_board)"
  unfolding timetable_points
  by (simp add: trip_arrivals_def estimate_arrivals_def remaining_def reached_seq_def distance_map_def monotonic_def
      schedule_delay_def rolling_speed_kmh_def arrival_at_def raw_eta_def first_board_def MAX_HORIZON_def map_filter_simps
      Let_def)

lemma first_pass:
  "\<exists>r'. compute_for_trip tally_iso_of tally_iso_text unary_text (\<lambda>_. ''1'') True True True timetable_db empty_redis None
      demo_trip demo_now = (Inr 2, r') \<and>
    r' = redis_set (trip_eta_key (unary_text 71)) (board_value unary_text tally_iso_text (\<lambda>_. ''1'') demo_now demo_trip first_board)
      (Some (demo_now + ETA_TTL_S * second)) empty_redis"
proof -
  have "route_points unary_text timetable_db demo_trip \<noteq> []" "tr_actual_start demo_trip = Some demo_now" "tr_id demo_trip = 71"
    by (simp add: timetable_points) (simp_all add: demo_trip_def)
  moreover have "load_progress tally_iso_of True demo_now empty_redis (unary_text 71) = Inr None"
    by (simp add: load_progress_def redis_get_def empty_redis_def)
  moreover have "first_board \<noteq> []" "length first_board = 2" by (simp_all add: first_board_def)
  ultimately show ?thesis
    by (simp add: compute_for_trip_def recent_fixes_def timetable_arrivals carry_progress_def Let_def)
qed

text \<open>One fix at the second stop moves the trip there.\<close>

definition second_stop_hit :: es_source where
  "second_stop_hit = \<lparr>so_fields = [(''ts'', JStr (tally_iso_text demo_now))],
     so_location = Some [(''lat'', JInt 23), (''lon'', JInt 90)]\<rparr>"

definition second_stop_fix :: gps_fix where
  "second_stop_fix = \<lparr>fx_lat = 23, fx_lng = 90, fx_ts = demo_now\<rparr>"

lemma second_stop_track: "recent_fixes tally_iso_of (Some [second_stop_hit]) = Inr [second_stop_fix]"
  by (simp add: recent_fixes_def fix_of_source_def second_stop_hit_def second_stop_fix_def doc_get_def dec_overflows_def
      float_limit_def dec_val_def tally_iso)

lemma second_stop_furthest:
  "reached_seq (furthest ARRIVAL_RADIUS_KM (route_points unary_text timetable_db demo_trip) {second_stop_fix} None) = 2"
proof -
  let ?ps = "route_points unary_text timetable_db demo_trip"
  have near: "near ARRIVAL_RADIUS_KM second_stop_fix p" "0 < rp_seq p" if "p \<in> set ?ps" for p
    using that unfolding timetable_points
    by (auto simp: near_def fix_point_def stop_point_def second_stop_fix_def haversine_km_def haversine_h_def ARRIVAL_RADIUS_KM_def)
  have "passed ARRIVAL_RADIUS_KM ?ps {second_stop_fix} (reached_seq None) = rp_seq ` set ?ps"
    using near by (auto simp: passed_def reached_seq_def)
  then show ?thesis by (simp add: furthest_seq timetable_points)
qed

theorem progress_never_goes_back_witness:
  "\<exists>answer r' after. compute_for_trip tally_iso_of tally_iso_text unary_text (\<lambda>_. ''1'') True True True timetable_db
      empty_redis (Some [second_stop_hit]) demo_trip demo_now = (answer, r') \<and>
    load_progress tally_iso_of True demo_now r' (unary_text 71) = Inr after \<and> reached_seq after = 2"
proof -
  obtain answer r' where c: "compute_for_trip tally_iso_of tally_iso_text unary_text (\<lambda>_. ''1'') True True True timetable_db
      empty_redis (Some [second_stop_hit]) demo_trip demo_now = (answer, r')" by fastforce
  have id: "tr_id demo_trip = 71" "tr_actual_start demo_trip = Some demo_now" by (simp_all add: demo_trip_def)
  have "load_progress tally_iso_of True demo_now empty_redis (unary_text (tr_id demo_trip)) = Inr None"
    by (simp add: load_progress_def redis_get_def empty_redis_def)
  from progress_never_goes_back [OF c this tally_iso(1)] c second_stop_furthest show ?thesis
    by (auto simp: second_stop_track id)
qed

theorem board_reads_back_witness:
  "\<exists>r' out. compute_for_trip tally_iso_of tally_iso_text unary_text (\<lambda>_. ''1'') True True True timetable_db empty_redis None
      demo_trip demo_now = (Inr 2, r') \<and>
    trip_eta unary_of tally_iso_of unary_text True (demo_now + 4 * minute) r' 71 = Inr out \<and> length (te_arrivals out) = 2 \<and>
    trip_eta unary_of tally_iso_of unary_text True (demo_now + 30 * minute) r' 71 =
      Inl (Http (HTTPException 404 ''No arrival estimate for this trip yet''))"
proof -
  obtain r' where c: "compute_for_trip tally_iso_of tally_iso_text unary_text (\<lambda>_. ''1'') True True True timetable_db empty_redis None
      demo_trip demo_now = (Inr 2, r')" using first_pass by blast
  have id: "tr_id demo_trip = 71" by (simp add: demo_trip_def)
  have f: "py_float ((\<lambda>_. ''1'') x) \<noteq> None" for x :: real using py_float_one by simp
  have two: "(2 :: nat) \<noteq> 0" by simp
  have le: "demo_now \<le> demo_now + 4 * minute" "demo_now \<le> demo_now + 30 * minute" by simp_all
  have soon: "demo_now + 4 * minute < demo_now + 30 * minute" "\<not> demo_now + 30 * minute < demo_now + 30 * minute" by simp_all
  note all = board_reads_back [OF c two unary tally_iso(1) f]
  from all [OF le(1)] obtain out arrivals where
    o: "trip_eta unary_of tally_iso_of unary_text True (demo_now + 4 * minute) r' 71 = Inr out" and n: "2 = length arrivals"
    and m: "map (\<lambda>a. (unary_text (ao_stop_id a), ao_seq a, ao_eta a, ao_basis a)) (te_arrivals out) =
       map (\<lambda>a. (ar_stop_id a, ar_seq a, ar_eta a, ar_basis a)) (arrivals :: arrival list)"
    unfolding id if_P [OF soon(1)] by - (elim exE conjE, rule that, assumption+)
  have "length (te_arrivals out) = 2" using arg_cong [OF m, of length] n by simp
  moreover have "trip_eta unary_of tally_iso_of unary_text True (demo_now + 30 * minute) r' 71 =
      Inl (Http (HTTPException 404 ''No arrival estimate for this trip yet''))"
    using all [OF le(2)] unfolding id if_not_P [OF soon(2)] by - (elim exE conjE)
  ultimately show ?thesis using c o by blast
qed

theorem pass_is_each_trip_alone_witness:
  "fst (compute_once (\<lambda>t r. compute_for_trip tally_iso_of tally_iso_text unary_text (\<lambda>_. ''1'') True True True timetable_db r None t demo_now)
      (live_trips timetable_db) empty_redis) = \<lparr>et_trips = 1, et_estimated = 1, et_arrivals = 2\<rparr>"
proof -
  let ?job = "\<lambda>t r. compute_for_trip tally_iso_of tally_iso_text unary_text (\<lambda>_. ''1'') True True True timetable_db r None t demo_now"
  have l: "live_trips timetable_db = [demo_trip]" by (simp add: live_trips_def timetable_db_def demo_defs)
  have d: "distinct (map tr_id (live_trips timetable_db))" by (simp add: l)
  have "fst (?job demo_trip empty_redis) = Inr 2" using first_pass by auto
  moreover note pass_is_each_trip_alone [OF d unary refl, of tally_iso_of tally_iso_text "\<lambda>_. ''1''" True True True
      timetable_db "\<lambda>_. None" demo_now empty_redis]
  ultimately show ?thesis by (simp add: l)
qed

theorem stop_board_is_soonest_witness:
  "\<exists>r' out. stop_arrivals tally_iso_of unary_text True demo_now timetable_db r' 42 5 = Inr out \<and>
    length (sa_arrivals out) = 1 \<and> (\<forall>a \<in> set (sa_arrivals out). bo_trip_id a = 71 \<and> ao_stop_id a = 42)"
proof -
  obtain r' where r: "r' = redis_set (trip_eta_key (unary_text 71)) (board_value unary_text tally_iso_text (\<lambda>_. ''1'') demo_now demo_trip first_board)
      (Some (demo_now + ETA_TTL_S * second)) empty_redis" by blast
  have ne: "unary_text 41 \<noteq> unary_text 42" using unary [of 41] unary [of 42] by force
  have serving: "live_trips_serving_stop timetable_db 42 = [(71, 51, 31, ''R1'')]"
    by (simp add: live_trips_serving_stop_def timetable_db_def demo_defs)
  have cached: "cached_eta True demo_now r' (unary_text 71) =
      Some (board_value unary_text tally_iso_text (\<lambda>_. ''1'') demo_now demo_trip first_board)"
    by (simp add: cached_eta_def r board_value_def ETA_TTL_S_def)
  have "\<exists>a. arrival_on_board tally_iso_of unary_text True demo_now r' 42 (71, 51, 31, ''R1'') = Inr (Some a)"
    using ne
    by (simp add: arrival_on_board_def cached board_value_def first_board_def arrival_doc_def doc_get_def bus_arrival_of_def
        instant_field_def tally_iso py_float_one)
  moreover have "get_stop timetable_db 42 = Some (demo_stop 42)" by (simp add: timetable_db_def demo_defs)
  ultimately obtain out where s: "stop_arrivals tally_iso_of unary_text True demo_now timetable_db r' 42 5 = Inr out"
    and n: "length (sa_arrivals out) = 1"
    by (auto simp: stop_arrivals_def serving)
  note facts = stop_board_is_soonest [OF s timetable_db_ok]
  have "bo_trip_id a = 71 \<and> ao_stop_id a = 42" if "a \<in> set (sa_arrivals out)" for a :: bus_arrival_out
  proof -
    have "ao_stop_id a = 42" "\<exists>t \<in> set (db_trips timetable_db). tr_id t = bo_trip_id a" using facts that by blast+
    then show ?thesis by (auto simp: timetable_db_def demo_defs)
  qed
  with s n show ?thesis by blast
qed

end
