(* ===== verification/AdminUsers.thy ===== *)
theory AdminUsers
  imports Authz
begin

text \<open>
  The administrator's routes over accounts and incidents: \<^verbatim>\<open>app/api/routes/admin.py\<close>
  with \<^verbatim>\<open>app/repositories/ops.py\<close> and the response of
  \<^verbatim>\<open>app/schemas/admin.py\<close>. The guard of the router is \<open>require_admin\<close>
  of \<open>Authz\<close>; \<open>admin\<close> is the principal it let through. A moderation ends with
  two deletions of the cached snapshot, the explicit one (\<open>up1\<close>) and the one the session's
  teardown performs for every row it flushed (\<open>up2\<close>).
\<close>

section \<open>Helpers and accounts\<close>

record helper_out =
  ho_helper_id :: uuid
  ho_user_id :: uuid
  ho_name :: string
  ho_email :: string
  ho_phone :: "string option"
  ho_helper_status :: helper_status
  ho_user_status :: user_status
  ho_approved_by :: "uuid option"

record user_status_out =
  uo_user_id :: uuid
  uo_user_status :: user_status
  uo_helper_status :: "helper_status option"

definition to_out :: "user \<Rightarrow> helper \<Rightarrow> helper_out" where
  "to_out user helper = \<lparr>ho_helper_id = hp_id helper, ho_user_id = us_id user, ho_name = us_name user,
     ho_email = us_email user, ho_phone = us_phone user, ho_helper_status = hp_status helper,
     ho_user_status = us_status user, ho_approved_by = hp_approved_by helper\<rparr>"

definition list_helpers :: "database \<Rightarrow> helper_status option \<Rightarrow> helper_out list" where
  "list_helpers db status = map (\<lambda>(u, h). to_out u h) (helpers_with_users db status)"

text \<open>Writing one user row and, where there is one, one helper row.\<close>

definition put_user_status :: "uuid \<Rightarrow> user_status \<Rightarrow> database \<Rightarrow> database" where
  "put_user_status i s db = db\<lparr>db_users := row_edit us_id i (\<lambda>u. u\<lparr>us_status := s\<rparr>) (db_users db)\<rparr>"

definition put_helper_status :: "uuid \<Rightarrow> helper_status \<Rightarrow> database \<Rightarrow> database" where
  "put_helper_status i s db = db\<lparr>db_helpers := row_edit hp_id i (\<lambda>h. h\<lparr>hp_status := s\<rparr>) (db_helpers db)\<rparr>"

definition put_approval :: "uuid \<Rightarrow> uuid \<Rightarrow> database \<Rightarrow> database" where
  "put_approval i admin db = db\<lparr>db_helpers := row_edit hp_id i
     (\<lambda>h. h\<lparr>hp_status := Helper_approved, hp_approved_by := Some admin\<rparr>) (db_helpers db)\<rparr>"

definition approve_helper ::
  "bool \<Rightarrow> bool \<Rightarrow> (uuid \<Rightarrow> string) \<Rightarrow> database \<Rightarrow> redis \<Rightarrow> principal \<Rightarrow> uuid \<Rightarrow>
   (handler_error + helper_out) \<times> database \<times> redis" where
  "approve_helper up1 up2 uuid_text db r admin helper_id =
     (case get_helper db helper_id of
        None \<Rightarrow> (Inl (Http (HTTPException 404 ''Unknown helper'')), db, r)
      | Some h \<Rightarrow>
          if hp_status h = Helper_approved
          then (Inl (Http (HTTPException 409 ''Helper is already approved'')), db, r)
          else (case get_user db (hp_user_id h) of
              None \<Rightarrow> (Inl (Http (HTTPException 404 ''Helper has no user row'')), db, r)
            | Some u \<Rightarrow>
                let h' = h\<lparr>hp_status := Helper_approved, hp_approved_by := Some (pp_user_id admin)\<rparr>;
                    u' = u\<lparr>us_status := User_active\<rparr> in
                (case commit (put_user_status (us_id u) User_active (put_approval helper_id (pp_user_id admin) db)) of
                   Inl e \<Rightarrow> (Inl (UncaughtDb e), db, r)
                 | Inr db' \<Rightarrow>
                     (Inr (to_out u' h'), db',
                      flush_principal_invalidations up2 uuid_text (touched_principals [u'] [h'])
                        (invalidate_principal up1 uuid_text (hp_user_id h) r)))))"

definition suspend_user ::
  "bool \<Rightarrow> bool \<Rightarrow> (uuid \<Rightarrow> string) \<Rightarrow> database \<Rightarrow> redis \<Rightarrow> principal \<Rightarrow> uuid \<Rightarrow>
   (handler_error + unit) \<times> database \<times> redis" where
  "suspend_user up1 up2 uuid_text db r admin user_id =
     (if user_id = pp_user_id admin
      then (Inl (Http (HTTPException 400 ''Cannot suspend yourself'')), db, r)
      else (case get_user db user_id of
          None \<Rightarrow> (Inl (Http (HTTPException 404 ''Unknown user'')), db, r)
        | Some u \<Rightarrow>
            let db1 = put_user_status user_id User_suspended db;
                helper = helper_by_user_id db user_id in
            (case commit (case helper of None \<Rightarrow> db1 | Some h \<Rightarrow> put_helper_status (hp_id h) Helper_suspended db1) of
               Inl e \<Rightarrow> (Inl (UncaughtDb e), db, r)
             | Inr db' \<Rightarrow>
                 (Inr (), db',
                  flush_principal_invalidations up2 uuid_text
                    (touched_principals [u] (case helper of None \<Rightarrow> [] | Some h \<Rightarrow> [h]))
                    (invalidate_principal up1 uuid_text user_id r)))))"

definition reinstate_user ::
  "bool \<Rightarrow> bool \<Rightarrow> (uuid \<Rightarrow> string) \<Rightarrow> database \<Rightarrow> redis \<Rightarrow> uuid \<Rightarrow>
   (handler_error + user_status_out) \<times> database \<times> redis" where
  "reinstate_user up1 up2 uuid_text db r user_id =
     (case get_user db user_id of
        None \<Rightarrow> (Inl (Http (HTTPException 404 ''Unknown user'')), db, r)
      | Some u \<Rightarrow>
          if us_status u \<noteq> User_suspended
          then (Inl (Http (HTTPException 409
                  (''Account is '' @ user_status_str (us_status u) @ '', not suspended''))), db, r)
          else
            let db1 = put_user_status user_id User_active db;
                helper = helper_by_user_id db user_id in
            (case commit (case helper of None \<Rightarrow> db1 | Some h \<Rightarrow> put_helper_status (hp_id h) Helper_approved db1) of
               Inl e \<Rightarrow> (Inl (UncaughtDb e), db, r)
             | Inr db' \<Rightarrow>
                 (Inr \<lparr>uo_user_id = us_id u, uo_user_status = User_active,
                    uo_helper_status = map_option (\<lambda>_. Helper_approved) helper\<rparr>, db',
                  flush_principal_invalidations up2 uuid_text
                    (touched_principals [u] (case helper of None \<Rightarrow> [] | Some h \<Rightarrow> [h]))
                    (invalidate_principal up1 uuid_text user_id r))))"

section \<open>Incidents\<close>

text \<open>The severities in the order the database declares them.\<close>

fun severity_rank :: "alert_severity \<Rightarrow> nat" where
  "severity_rank Severity_critical = 0"
| "severity_rank Severity_warning = 1"
| "severity_rank Severity_info = 2"

definition list_alerts :: "database \<Rightarrow> alert_status option \<Rightarrow> nat \<Rightarrow> alert list" where
  "list_alerts db status limit =
     take limit (sort_key (\<lambda>a. severity_rank (al_severity a)) (sort_key (\<lambda>a. - al_created_at a)
       (filter (\<lambda>a. case status of None \<Rightarrow> True | Some s \<Rightarrow> al_status a = s) (db_alerts db))))"

definition edit_alert :: "uuid \<Rightarrow> (alert \<Rightarrow> alert) \<Rightarrow> database \<Rightarrow> database" where
  "edit_alert i g db = db\<lparr>db_alerts := row_edit al_id i g (db_alerts db)\<rparr>"

definition acknowledge_alert :: "database \<Rightarrow> principal \<Rightarrow> uuid \<Rightarrow> (handler_error + alert) \<times> database" where
  "acknowledge_alert db admin alert_id =
     (case get_alert db alert_id of
        None \<Rightarrow> (Inl (Http (HTTPException 404 ''Unknown alert'')), db)
      | Some a \<Rightarrow>
          if al_status a \<noteq> Alert_open
          then (Inl (Http (HTTPException 409 (''Alert is already '' @ alert_status_str (al_status a)))), db)
          else
            let g = (\<lambda>a. a\<lparr>al_status := Alert_acknowledged, al_acknowledged_by := Some (pp_user_id admin)\<rparr>) in
            (case commit (edit_alert alert_id g db) of
               Inl e \<Rightarrow> (Inl (UncaughtDb e), db)
             | Inr db' \<Rightarrow> (Inr (g a), db')))"

definition close_alert :: "string option \<Rightarrow> instant \<Rightarrow> uuid \<Rightarrow> alert \<Rightarrow> alert" where
  "close_alert note now admin a = a\<lparr>al_status := Alert_resolved, al_resolved_note := note,
     al_resolved_at := Some now,
     al_acknowledged_by := (case al_acknowledged_by a of None \<Rightarrow> Some admin | Some i \<Rightarrow> Some i)\<rparr>"

definition resolve_alert ::
  "instant \<Rightarrow> database \<Rightarrow> principal \<Rightarrow> uuid \<Rightarrow> string option \<Rightarrow> (handler_error + alert) \<times> database" where
  "resolve_alert now db admin alert_id note =
     (case get_alert db alert_id of
        None \<Rightarrow> (Inl (Http (HTTPException 404 ''Unknown alert'')), db)
      | Some a \<Rightarrow>
          if al_status a = Alert_resolved \<or> al_status a = Alert_dismissed
          then (Inl (Http (HTTPException 409 (''Alert is already '' @ alert_status_str (al_status a)))), db)
          else (case commit (edit_alert alert_id (close_alert note now (pp_user_id admin)) db) of
               Inl e \<Rightarrow> (Inl (UncaughtDb e), db)
             | Inr db' \<Rightarrow> (Inr (close_alert note now (pp_user_id admin) a), db')))"

section \<open>Writes the constraints accept\<close>

lemma db_ok_edit_user [inv_intros]:
  assumes "\<And>u. us_id (g u) = us_id u" "\<And>u. us_email (g u) = us_email u" "db_ok db"
  shows "db_ok (db\<lparr>db_users := row_edit us_id i g (db_users db)\<rparr>)"
  using assms
  by (simp add: db_ok_defs map_row_edit row_get_edit_None fk_opt_edit)

lemma db_ok_edit_helper [inv_intros]:
  assumes "\<And>h. hp_id (g h) = hp_id h" "\<And>h. hp_user_id (g h) = hp_user_id h"
    "\<And>h. fk_opt us_id (db_users db) (hp_approved_by h) \<Longrightarrow> fk_opt us_id (db_users db) (hp_approved_by (g h))"
    "db_ok db"
  shows "db_ok (db\<lparr>db_helpers := row_edit hp_id i g (db_helpers db)\<rparr>)"
  using assms
  by (simp add: db_ok_defs map_row_edit row_get_edit_None fk_opt_edit list_all_row_edit)

lemma db_ok_edit_alert [inv_intros]:
  assumes "\<And>a. al_id (g a) = al_id a" "\<And>a. al_raised_by (g a) = al_raised_by a"
    "\<And>a. al_trip_id (g a) = al_trip_id a" "\<And>a. al_bus_id (g a) = al_bus_id a"
    "\<And>a. fk_opt us_id (db_users db) (al_acknowledged_by a) \<Longrightarrow> fk_opt us_id (db_users db) (al_acknowledged_by (g a))"
    "db_ok db"
  shows "db_ok (edit_alert i g db)"
  using assms
  by (simp add: db_ok_defs edit_alert_def map_row_edit) (rule list_all_row_edit, auto)

lemma put_status_ok [simp]:
  "db_ok db \<Longrightarrow> db_ok (put_user_status i s db)"
  "db_ok db \<Longrightarrow> db_ok (put_helper_status i t db)"
  by (simp_all add: put_user_status_def put_helper_status_def inv_intros)

lemma put_approval_ok: "db_ok db \<Longrightarrow> get_user db admin \<noteq> None \<Longrightarrow> db_ok (put_approval i admin db)"
  unfolding put_approval_def by (rule db_ok_edit_helper) (auto simp: fk_opt_def)

section \<open>What a moderation changes\<close>

lemma helper_by_user_row: "helper_by_user_id db i = row_get hp_user_id (db_helpers db) i"
  by (simp add: helper_by_user_id_def row_get_def)

lemma load_put_user_status:
  "load_principal (put_user_status i s db) j =
     (if j = i then map_option (\<lambda>p. p\<lparr>pp_status := s\<rparr>) (load_principal db j) else load_principal db j)"
  by (simp add: load_principal_def put_user_status_def helper_by_user_id_def row_get_row_edit Let_def
      option.map_comp comp_def)

lemma helper_by_user_edit:
  assumes "\<And>h. hp_user_id (g h) = hp_user_id h"
  shows "helper_by_user_id (db\<lparr>db_helpers := row_edit hp_id i g (db_helpers db)\<rparr>) j =
    map_option (\<lambda>h. if hp_id h = i then g h else h) (helper_by_user_id db j)"
  unfolding helper_by_user_row row_edit_def by (simp add: row_get_map assms)

lemma load_put_helper_other:
  assumes "db_ok db" "get_helper db i = Some h" "hp_user_id h \<noteq> j" "\<And>h. hp_user_id (g h) = hp_user_id h"
  shows "load_principal (db\<lparr>db_helpers := row_edit hp_id i g (db_helpers db)\<rparr>) j = load_principal db j"
proof -
  have "hp_id k \<noteq> i" if "helper_by_user_id db j = Some k" for k
  proof
    assume "hp_id k = i"
    from that have k: "k \<in> set (db_helpers db)" "hp_user_id k = j"
      by (auto simp: helper_by_user_row dest: row_get_SomeD)
    have "h \<in> set (db_helpers db)" "hp_id h = i" using assms(2) by (auto dest: row_get_SomeD)
    with k \<open>hp_id k = i\<close> assms(1) have "h = k"
      by (auto simp: db_ok_def identity_ok_def distinct_map inj_on_def)
    with k assms(3) show False by simp
  qed
  then have "helper_by_user_id (db\<lparr>db_helpers := row_edit hp_id i g (db_helpers db)\<rparr>) j = helper_by_user_id db j"
    by (cases "helper_by_user_id db j") (simp_all add: helper_by_user_edit assms(4))
  then show ?thesis by (simp add: load_principal_def)
qed

lemma helper_by_user_SomeD:
  "helper_by_user_id db i = Some h \<Longrightarrow> db_ok db \<Longrightarrow> get_helper db (hp_id h) = Some h \<and> hp_user_id h = i"
  by (auto simp: helper_by_user_row db_ok_def identity_ok_def dest!: row_get_SomeD intro: row_get_mem)

text \<open>
  The snapshot of one account is rewritten, every other one stays as it is.
\<close>

definition moderated :: "uuid \<Rightarrow> database \<Rightarrow> database \<Rightarrow> bool" where
  "moderated i db db' \<longleftrightarrow> db_ok db' \<and> (\<forall>j. j \<noteq> i \<longrightarrow> load_principal db' j = load_principal db j)"

abbreviation drop_twice :: "bool \<Rightarrow> bool \<Rightarrow> (uuid \<Rightarrow> string) \<Rightarrow> uuid \<Rightarrow> redis \<Rightarrow> redis" where
  "drop_twice up1 up2 uuid_text i r \<equiv> invalidate_principal up2 uuid_text i (invalidate_principal up1 uuid_text i r)"

lemma touched_one: "us_id u = i \<Longrightarrow> (\<forall>h \<in> set hs. hp_user_id h = i) \<Longrightarrow> length hs \<le> 1 \<Longrightarrow>
    flush_principal_invalidations up uuid_text (touched_principals [u] hs) r = invalidate_principal up uuid_text i r"
  by (cases hs) (auto simp: flush_principal_invalidations_def touched_principals_def)

lemma put_helper_status_other:
  assumes "db_ok db" "helper_by_user_id db i = Some h" "j \<noteq> i"
  shows "load_principal (put_helper_status (hp_id h) s (put_user_status i t db)) j = load_principal db j"
proof -
  have h: "get_helper (put_user_status i t db) (hp_id h) = Some h" "hp_user_id h = i"
    using helper_by_user_SomeD [OF assms(2,1)] by (simp_all add: put_user_status_def)
  have "load_principal (put_helper_status (hp_id h) s (put_user_status i t db)) j = load_principal (put_user_status i t db) j"
    unfolding put_helper_status_def
    by (rule load_put_helper_other [OF _ h(1)]) (use assms h in auto)
  with assms(3) show ?thesis by (simp add: load_put_user_status)
qed

lemma suspend_spec:
  assumes "suspend_user up1 up2 uuid_text db r admin i = (Inr (), db', r')" "db_ok db"
  shows "moderated i db db'" and "r' = drop_twice up1 up2 uuid_text i r"
    and "\<exists>u. get_user db i = Some u \<and> get_user db' i = Some (u\<lparr>us_status := User_suspended\<rparr>)"
proof -
  have ne: "i \<noteq> pp_user_id admin" using assms(1) by (auto simp: suspend_user_def)
  obtain u where u: "get_user db i = Some u"
    using assms(1) ne by (auto simp: suspend_user_def split: option.splits)
  then have id: "us_id u = i" by (auto dest: row_get_SomeD)
  have "moderated i db db' \<and> r' = drop_twice up1 up2 uuid_text i r \<and> get_user db' i = Some (u\<lparr>us_status := User_suspended\<rparr>)"
  proof (cases "helper_by_user_id db i")
    case None
    with assms u ne id show ?thesis
      by (auto simp: suspend_user_def touched_one moderated_def load_put_user_status)
        (simp add: put_user_status_def row_get_row_edit)
  next
    case (Some h)
    note h = helper_by_user_SomeD [OF Some assms(2)]
    have "db' = put_helper_status (hp_id h) Helper_suspended (put_user_status i User_suspended db)"
      "r' = drop_twice up1 up2 uuid_text i r"
      using assms u ne id Some h by (auto simp: suspend_user_def touched_one)
    with assms(2) u put_helper_status_other [OF assms(2) Some] show ?thesis
      by (simp add: moderated_def) (simp add: put_helper_status_def put_user_status_def row_get_row_edit)
  qed
  with u show "moderated i db db'" "r' = drop_twice up1 up2 uuid_text i r"
    "\<exists>u. get_user db i = Some u \<and> get_user db' i = Some (u\<lparr>us_status := User_suspended\<rparr>)" by auto
qed

lemma reinstate_spec:
  assumes "reinstate_user up1 up2 uuid_text db r i = (Inr out, db', r')" "db_ok db"
  shows "moderated i db db'" and "r' = drop_twice up1 up2 uuid_text i r"
    and "\<exists>u. get_user db i = Some u \<and> us_status u = User_suspended \<and> get_user db' i = Some (u\<lparr>us_status := User_active\<rparr>)"
proof -
  obtain u where u: "get_user db i = Some u" "us_status u = User_suspended"
    using assms(1) by (auto simp: reinstate_user_def split: option.splits if_splits)
  then have id: "us_id u = i" by (auto dest: row_get_SomeD)
  have "moderated i db db' \<and> r' = drop_twice up1 up2 uuid_text i r \<and> get_user db' i = Some (u\<lparr>us_status := User_active\<rparr>)"
  proof (cases "helper_by_user_id db i")
    case None
    with assms u id show ?thesis
      by (auto simp: reinstate_user_def touched_one moderated_def load_put_user_status)
        (simp add: put_user_status_def row_get_row_edit)
  next
    case (Some h)
    note h = helper_by_user_SomeD [OF Some assms(2)]
    have "db' = put_helper_status (hp_id h) Helper_approved (put_user_status i User_active db)"
      "r' = drop_twice up1 up2 uuid_text i r"
      using assms u id Some h by (auto simp: reinstate_user_def touched_one)
    with assms(2) u put_helper_status_other [OF assms(2) Some] show ?thesis
      by (simp add: moderated_def) (simp add: put_helper_status_def put_user_status_def row_get_row_edit)
  qed
  with u show "moderated i db db'" "r' = drop_twice up1 up2 uuid_text i r"
    "\<exists>u. get_user db i = Some u \<and> us_status u = User_suspended \<and> get_user db' i = Some (u\<lparr>us_status := User_active\<rparr>)" by auto
qed

lemma approve_spec:
  assumes "approve_helper up1 up2 uuid_text db r admin k = (Inr out, db', r')" "db_ok db"
  obtains h where "get_helper db k = Some h" "hp_status h \<noteq> Helper_approved" "moderated (hp_user_id h) db db'"
    "r' = drop_twice up1 up2 uuid_text (hp_user_id h) r"
    "db' = put_user_status (hp_user_id h) User_active (put_approval k (pp_user_id admin) db)"
proof -
  obtain h where h: "get_helper db k = Some h" "hp_status h \<noteq> Helper_approved"
    using assms(1) by (auto simp: approve_helper_def split: option.splits if_splits)
  moreover obtain u where u: "get_user db (hp_user_id h) = Some u"
    using assms(1) h by (auto simp: approve_helper_def split: option.splits)
  then have id: "us_id u = hp_user_id h" by (auto dest: row_get_SomeD)
  have d: "db' = put_user_status (hp_user_id h) User_active (put_approval k (pp_user_id admin) db)" "db_ok db'"
    "r' = drop_twice up1 up2 uuid_text (hp_user_id h) r"
    using assms h u id
    by (auto simp: approve_helper_def Let_def touched_one split: sum.splits)
  moreover have "load_principal db' j = load_principal db j" if "j \<noteq> hp_user_id h" for j
    using load_put_helper_other [OF assms(2) h(1), of j "\<lambda>h. h\<lparr>hp_status := Helper_approved, hp_approved_by := Some (pp_user_id admin)\<rparr>"]
      that d by (simp add: load_put_user_status put_approval_def)
  ultimately show ?thesis by (intro that [of h]) (simp_all add: moderated_def)
qed

section \<open>Coherence of the snapshots\<close>

lemma cached_principal_time:
  "cached_principal uuid_of uuid_text now r i = Some p \<Longrightarrow> now' \<le> now \<Longrightarrow>
     cached_principal uuid_of uuid_text now' r i = Some p"
  by (auto simp: cached_principal_def dest: redis_expires split: option.splits redis_value.splits)

lemma principals_later:
  "coherent (cached_principal uuid_of uuid_text now) load_principal db r \<Longrightarrow> now \<le> now' \<Longrightarrow>
     coherent (cached_principal uuid_of uuid_text now') load_principal db r"
  unfolding coherent_def using cached_principal_time by blast

lemma invalidate_down [simp]: "invalidate_principal False uuid_text i r = r"
  by (simp add: invalidate_principal_def)

context uuid_texts
begin

text \<open>One deletion that reaches Redis is enough.\<close>

lemma moderated_coherent:
  assumes "coherent (cached_principal uuid_of uuid_text now) load_principal db r"
    and "moderated i db db'" "up1 \<or> up2"
  shows "coherent (cached_principal uuid_of uuid_text now) load_principal db' (drop_twice up1 up2 uuid_text i r)"
proof -
  have drop: "coherent (cached_principal uuid_of uuid_text now) load_principal db' (invalidate_principal True uuid_text i r)"
    by (rule principal_cache.write_drop [OF assms(1)]) (use assms(2) in \<open>simp add: moderated_def\<close>)
  with assms(3) show ?thesis
    by (cases up1; cases up2) (auto intro: principal_cache.drop_coherent)
qed

end

lemmas moderated_coherent_texts = uuid_texts.moderated_coherent [OF texts]

section \<open>Properties\<close>

text \<open>
  C8. Suspension is immediate: once the administrator's call has answered, with one of the two
  deletions having reached Redis, no token of that account opens any route any more, whatever
  guard it has, whenever it is tried and whether Redis answers then, although the tokens are
  still unexpired. No other account's snapshot changed and the cache stays truthful.
\<close>

theorem suspended_account_is_locked_out:
  assumes "suspend_user up1 up2 uuid_text db r admin user_id = (Inr (), db', r')" "up1 \<or> up2" "db_ok db"
    and "\<And>i. uuid_of (uuid_text i) = Some i" "\<And>i. uuid_text i \<noteq> []"
    and "coherent (cached_principal uuid_of uuid_text now) load_principal db r" "now \<le> later"
  shows "user_id \<noteq> pp_user_id admin \<and> db_ok db' \<and>
    (\<forall>j. j \<noteq> user_id \<longrightarrow> load_principal db' j = load_principal db j) \<and>
    coherent (cached_principal uuid_of uuid_text later) load_principal db' r' \<and>
    (\<forall>jwt_decode upa upb upc check token claims.
       jwt_decode later token = Some claims \<and> doc_uuid uuid_of claims ''sub'' = Inr user_id \<longrightarrow>
       fst (authorize jwt_decode uuid_of uuid_text upa upb upc check later db' r' token) = Inl (Http credentials_exc))"
proof -
  note s = suspend_spec [OF assms(1,3)]
  have co: "coherent (cached_principal uuid_of uuid_text later) load_principal db' r'"
    unfolding s(2)
    by (rule principals_later [OF _ assms(7)]) (rule moderated_coherent_texts [OF assms(4,5,6) s(1) assms(2)])
  obtain u where u: "get_user db' user_id = Some (u\<lparr>us_status := User_suspended\<rparr>)" using s(3) by blast
  have "fst (authorize jwt_decode uuid_of uuid_text upa upb upc check later db' r' token) = Inl (Http credentials_exc)"
    if "jwt_decode later token = Some claims" "doc_uuid uuid_of claims ''sub'' = Inr user_id"
    for jwt_decode upa upb upc check token claims
  proof -
    obtain p r'' where g: "get_principal_cached uuid_of uuid_text upb upc later db' r' user_id = (p, r'')" by fastforce
    have p: "p = load_principal db' user_id"
      using uuid_texts.principal_fresh [OF texts [of uuid_of uuid_text, OF assms(4,5)] co, of upb upc user_id] g by simp
    have st: "pp_status q = User_suspended" if "p = Some q" for q
      using that u by (auto simp: p load_principal_def Let_def)
    have "get_principal uuid_of uuid_text upb upc later db' r' claims = (Inl (Http credentials_exc), r'')"
      using that(2) g st by (cases p) (simp_all add: get_principal_def)
    with that(1) show ?thesis
      by (auto simp: authorize_def get_access_claims_def decode_token_def split: sum.splits if_splits)
  qed
  moreover have "user_id \<noteq> pp_user_id admin" using assms(1) by (auto simp: suspend_user_def)
  ultimately show ?thesis using s(1) co by (auto simp: moderated_def)
qed

definition demo_admin :: principal where
  "demo_admin = \<lparr>pp_user_id = 3, pp_role = Role_admin, pp_status = User_active, pp_helper_id = None, pp_helper_status = None\<rparr>"

lemma demo_suspends:
  "\<exists>db' r'. suspend_user True False unary_text demo_db empty_redis demo_admin 2 = (Inr (), db', r')"
proof -
  have h: "helper_by_user_id demo_db 2 = Some demo_helper" by (simp add: helper_by_user_id_def demo_defs)
  have "get_user demo_db 2 \<noteq> None" by (simp add: demo_defs)
  with h demo_db_ok show ?thesis by (auto simp: suspend_user_def demo_admin_def Let_def)
qed

text \<open>The suspended helper's still unexpired token is refused at once.\<close>

theorem suspended_account_is_locked_out_witness:
  "\<exists>db' r'. suspend_user True False unary_text demo_db empty_redis demo_admin 2 = (Inr (), db', r') \<and>
     fst (authorize count_decode unary_of unary_text True True True require_approved_helper demo_now db' r'
       (count_encode (access_claims 2 Role_helper))) = Inl (Http credentials_exc)"
proof -
  obtain db' r' where s: "suspend_user True False unary_text demo_db empty_redis demo_admin 2 = (Inr (), db', r')"
    using demo_suspends by blast
  have sub: "doc_uuid unary_of (access_claims 2 Role_helper) ''sub'' = Inr 2"
    by (simp add: doc_uuid_def access_claims_def token_claims_def unary)
  from suspended_account_is_locked_out [OF s _ demo_db_ok unary unary_texts.text_nonempty principals_empty order_refl]
    access_decodes sub s show ?thesis by blast
qed

text \<open>The life of an alert as an abstract machine, and the handlers as its calls.\<close>

datatype alert_action = Acknowledge | Resolve "string option"

fun alert_next :: "alert_action \<Rightarrow> alert_status \<Rightarrow> alert_status option" where
  "alert_next Acknowledge Alert_open = Some Alert_acknowledged"
| "alert_next (Resolve _) Alert_open = Some Alert_resolved"
| "alert_next (Resolve _) Alert_acknowledged = Some Alert_resolved"
| "alert_next _ _ = None"

fun alert_call :: "instant \<Rightarrow> database \<Rightarrow> principal \<Rightarrow> uuid \<Rightarrow> alert_action \<Rightarrow> (handler_error + alert) \<times> database" where
  "alert_call now db admin i Acknowledge = acknowledge_alert db admin i"
| "alert_call now db admin i (Resolve note) = resolve_alert now db admin i note"

fun alert_write :: "instant \<Rightarrow> uuid \<Rightarrow> alert_action \<Rightarrow> alert \<Rightarrow> alert" where
  "alert_write now admin Acknowledge a = a\<lparr>al_status := Alert_acknowledged, al_acknowledged_by := Some admin\<rparr>"
| "alert_write now admin (Resolve note) a = close_alert note now admin a"

lemma alert_write_keeps [simp]:
  "al_id (alert_write now admin act a) = al_id a" "al_raised_by (alert_write now admin act a) = al_raised_by a"
  "al_trip_id (alert_write now admin act a) = al_trip_id a" "al_bus_id (alert_write now admin act a) = al_bus_id a"
  by (cases act; simp add: close_alert_def)+

lemma alert_write_owner:
  "al_acknowledged_by (alert_write now admin act a) =
     (if act = Acknowledge \<or> al_acknowledged_by a = None then Some admin else al_acknowledged_by a)"
  by (cases act) (auto simp: close_alert_def split: option.split)

lemma alert_write_status: "alert_next act (al_status a) = Some s \<Longrightarrow> al_status (alert_write now admin act a) = s"
  by (cases act; cases "al_status a") (simp_all add: close_alert_def)

lemma alert_call_cases:
  assumes "get_alert db i = Some a"
  shows "alert_call now db admin i act =
    (if alert_next act (al_status a) = None
     then (Inl (Http (HTTPException 409 (''Alert is already '' @ alert_status_str (al_status a)))), db)
     else (case commit (edit_alert i (alert_write now (pp_user_id admin) act) db) of
         Inl e \<Rightarrow> (Inl (UncaughtDb e), db)
       | Inr db' \<Rightarrow> (Inr (alert_write now (pp_user_id admin) act a), db')))"
  by (cases act; cases "al_status a")
    (auto simp: assms acknowledge_alert_def resolve_alert_def Let_def alert_write.simps [abs_def] split: sum.split)

text \<open>
  C14. The two calls on an alert implement its life cycle: open, then acknowledged, then
  resolved, or resolved at once, and nothing after that. A call the cycle does not allow is
  refused (404 unknown, 409 already claimed or closed) with nothing changed; one it allows
  moves this alert alone, and a resolution keeps the name of whoever had claimed it.
\<close>

theorem alert_calls_follow_the_life_cycle:
  assumes "db_ok db" "get_user db (pp_user_id admin) \<noteq> None"
  shows "case get_alert db i of
      None \<Rightarrow> alert_call now db admin i act = (Inl (Http (HTTPException 404 ''Unknown alert'')), db)
    | Some a \<Rightarrow>
        (case alert_next act (al_status a) of
           None \<Rightarrow> alert_call now db admin i act =
             (Inl (Http (HTTPException 409 (''Alert is already '' @ alert_status_str (al_status a)))), db)
         | Some s \<Rightarrow> \<exists>db' a'. alert_call now db admin i act = (Inr a', db') \<and> db_ok db' \<and> al_status a' = s \<and>
             al_acknowledged_by a' =
               (if act = Acknowledge \<or> al_acknowledged_by a = None then Some (pp_user_id admin) else al_acknowledged_by a) \<and>
             (\<forall>j. get_alert db' j = (if j = i then Some a' else get_alert db j)))"
proof (cases "get_alert db i")
  case None
  then show ?thesis by (cases act) (simp_all add: acknowledge_alert_def resolve_alert_def)
next
  case (Some a)
  let ?w = "alert_write now (pp_user_id admin) act"
  have ok: "db_ok (edit_alert i ?w db)"
    using assms by (auto intro!: db_ok_edit_alert simp: alert_write_owner fk_opt_def)
  have get: "get_alert (edit_alert i ?w db) j = (if j = i then Some (?w a) else get_alert db j)" for j
    using Some by (auto simp: edit_alert_def row_get_row_edit)
  show ?thesis
    using Some ok get
    by (auto simp: alert_call_cases [OF Some] alert_write_owner alert_write_status
        simp del: alert_call.simps alert_write.simps split: option.split)
qed

definition demo_alert_db :: database where
  "demo_alert_db = demo_db\<lparr>db_alerts := [\<lparr>al_id = 201, al_created_at = demo_now, al_source = Source_helper,
     al_raised_by = Some 2, al_trip_id = Some 71, al_bus_id = Some 31, al_type = Alert_sos, al_severity = Severity_critical,
     al_message = None, al_lat = None, al_lng = None, al_status = Alert_acknowledged, al_acknowledged_by = Some 3,
     al_resolved_note = None, al_resolved_at = None\<rparr>]\<rparr>"

text \<open>Resolved by a second administrator, an incident still names the first as its owner.\<close>

theorem alert_calls_follow_the_life_cycle_witness:
  "\<exists>db' a. resolve_alert demo_now demo_alert_db demo_admin 201 (Some ''done'') = (Inr a, db') \<and>
     al_status a = Alert_resolved \<and> al_acknowledged_by a = Some 3"
proof -
  have ok: "db_ok demo_alert_db" by (simp add: demo_alert_db_def db_ok_defs demo_defs unique_on_def fk_opt_def)
  have adm: "get_user demo_alert_db (pp_user_id demo_admin) \<noteq> None"
    by (simp add: demo_alert_db_def demo_admin_def demo_defs)
  obtain a where a: "get_alert demo_alert_db 201 = Some a" "al_status a = Alert_acknowledged" "al_acknowledged_by a = Some 3"
    by (simp add: demo_alert_db_def)
  from alert_calls_follow_the_life_cycle [OF ok adm, where i = 201 and now = demo_now and act = "Resolve (Some ''done'')"] a show ?thesis by auto
qed

section \<open>What a suspension forgets\<close>

text \<open>
  Suspending and reinstating does not undo itself: an account that had still to confirm its
  address, or a helper nobody ever approved, comes back active, the helper approved with no
  approver on record.
\<close>

theorem reinstatement_skips_approval:
  assumes "db_ok db" "get_user db i = Some u" "helper_by_user_id db i = Some h" "i \<noteq> pp_user_id admin"
  shows "\<exists>db1 r1 db2 r2 out. suspend_user up1 up2 uuid_text db r admin i = (Inr (), db1, r1) \<and>
    reinstate_user up3 up4 uuid_text db1 r1 i = (Inr out, db2, r2) \<and>
    load_principal db2 i = Some \<lparr>pp_user_id = i, pp_role = us_role u, pp_status = User_active,
      pp_helper_id = Some (hp_id h), pp_helper_status = Some Helper_approved\<rparr> \<and>
    map_option hp_approved_by (helper_by_user_id db2 i) = Some (hp_approved_by h)"
proof -
  let ?db1 = "put_helper_status (hp_id h) Helper_suspended (put_user_status i User_suspended db)"
  let ?db2 = "put_helper_status (hp_id h) Helper_approved (put_user_status i User_active ?db1)"
  have id: "us_id u = i" using assms(2) by (auto dest: row_get_SomeD)
  have h1: "helper_by_user_id ?db1 i = Some (h\<lparr>hp_status := Helper_suspended\<rparr>)"
    using assms(3) unfolding put_helper_status_def
    by (subst helper_by_user_edit) (simp_all add: put_user_status_def helper_by_user_row)
  have put: "get_user (put_helper_status k s (put_user_status i t d)) i = Some (v\<lparr>us_status := t\<rparr>)"
    if "get_user d i = Some v" for k s t d and v :: user
    using that by (simp add: put_helper_status_def put_user_status_def row_get_row_edit)
  have u1: "get_user ?db1 i = Some (u\<lparr>us_status := User_suspended\<rparr>)"
    using assms(2) by (rule put)
  have h2: "helper_by_user_id ?db2 i = Some (h\<lparr>hp_status := Helper_approved\<rparr>)"
    using h1 unfolding put_helper_status_def [of _ Helper_approved]
    by (subst helper_by_user_edit) (simp_all add: put_user_status_def helper_by_user_row)
  have u2: "get_user ?db2 i = Some (u\<lparr>us_status := User_active\<rparr>)"
    using put [OF u1, of "hp_id h" Helper_approved User_active] by simp
  obtain r1 where "suspend_user up1 up2 uuid_text db r admin i = (Inr (), ?db1, r1)"
    using assms by (simp add: suspend_user_def)
  moreover obtain out r2 where "reinstate_user up3 up4 uuid_text ?db1 r1 i = (Inr out, ?db2, r2)"
    using assms(1) u1 h1 by (simp add: reinstate_user_def)
  moreover have "load_principal ?db2 i = Some \<lparr>pp_user_id = i, pp_role = us_role u, pp_status = User_active,
      pp_helper_id = Some (hp_id h), pp_helper_status = Some Helper_approved\<rparr>"
    using h2 u2 id by (simp add: load_principal_def)
  moreover have "map_option hp_approved_by (helper_by_user_id ?db2 i) = Some (hp_approved_by h)" using h2 by simp
  ultimately show ?thesis by blast
qed

end
