(* ===== verification/AuthApi.thy ===== *)
theory AuthApi
  imports AdminUsers HelperApi
begin

text \<open>
  Accounts and sessions: \<^verbatim>\<open>app/api/routes/auth.py\<close> with the schemas of
  \<^verbatim>\<open>app/schemas/auth.py\<close> and the settings of
  \<^verbatim>\<open>app/core/config.py\<close> it reads. The libraries it leans on (PyJWT, argon2, the
  \<^verbatim>\<open>uuid\<close> module) are one record of functions; the ids, salts and token ids they
  draw are arguments. A mail is queued as a background task; the queue is part of the answer.
\<close>

section \<open>Libraries, settings, messages\<close>

record auth_lib =
  lib_encode :: "doc \<Rightarrow> string"
  lib_decode :: "instant \<Rightarrow> string \<Rightarrow> doc option"
  lib_uuid_of :: "string \<Rightarrow> uuid option"
  lib_uuid_text :: "uuid \<Rightarrow> string"
  lib_hash :: "nat \<Rightarrow> string \<Rightarrow> string"
  lib_verify :: "string \<Rightarrow> string \<Rightarrow> bool option"

record settings =
  access_token_ttl_min :: int
  refresh_token_ttl_days :: int
  allowed_student_email_domains :: string

definition student_email_domains :: "settings \<Rightarrow> string list" where
  "student_email_domains cfg =
     map (\<lambda>d. lower (strip d))
       (filter (\<lambda>d. strip d \<noteq> []) (split_on (CHR '','') (allowed_student_email_domains cfg)))"

definition email_domain :: "string \<Rightarrow> string" where
  "email_domain email = lower (last (split_on (CHR ''@'') email))"

text \<open>The library's verdict on a password; \<open>Inl\<close> where it raises anything but a mismatch.\<close>

definition verify_password :: "auth_lib \<Rightarrow> string \<Rightarrow> string \<Rightarrow> py_error + bool" where
  "verify_password lib password password_hash =
     (case lib_verify lib password_hash password of None \<Rightarrow> Inl ValueError | Some b \<Rightarrow> Inr b)"

datatype mail = Verification_mail string string string | Reset_mail string string string

record student_register =
  sr_email :: string
  sr_password :: string
  sr_name :: string
  sr_student_id_no :: string
  sr_department :: "string option"
  sr_batch :: "string option"
  sr_phone :: "string option"

record helper_register =
  hr_email :: string
  hr_password :: string
  hr_name :: string
  hr_phone :: "string option"

record token_pair =
  tp_access_token :: string
  tp_refresh_token :: string
  tp_token_type :: string
  tp_expires_in :: int

definition pair_to_json :: "token_pair \<Rightarrow> doc" where
  "pair_to_json p = [(''access_token'', JStr (tp_access_token p)), (''refresh_token'', JStr (tp_refresh_token p)),
     (''token_type'', JStr (tp_token_type p)), (''expires_in'', JInt (tp_expires_in p))]"

definition pair_from_json :: "doc \<Rightarrow> token_pair option" where
  "pair_from_json d =
     (case (doc_get d ''access_token'', doc_get d ''refresh_token'',
            doc_get_or d ''token_type'' (JStr ''bearer''), doc_get d ''expires_in'') of
        (JStr a, JStr b, JStr ty, JInt n) \<Rightarrow>
          Some \<lparr>tp_access_token = a, tp_refresh_token = b, tp_token_type = ty, tp_expires_in = n\<rparr>
      | _ \<Rightarrow> None)"

text \<open>\<^verbatim>\<open>model_validate_json\<close> on what the cache held.\<close>

definition pair_of_value :: "redis_value \<Rightarrow> token_pair option" where
  "pair_of_value v = (case v of RDoc (Some d) \<Rightarrow> pair_from_json d | _ \<Rightarrow> None)"

section \<open>Registration\<close>

definition INVALID_REFRESH :: http_error where
  "INVALID_REFRESH = HTTPException 401 ''Invalid or expired refresh token''"
definition INVALID_RESET :: http_error where
  "INVALID_RESET = HTTPException 400 ''Invalid or expired reset link''"
definition EMAIL_TAKEN :: http_error where
  "EMAIL_TAKEN = HTTPException 409 ''Email already registered''"
definition RESEND_COOLDOWN_S :: int where "RESEND_COOLDOWN_S = 120"
definition RESET_COOLDOWN_S :: int where "RESET_COOLDOWN_S = 120"

text \<open>
  The widths of the columns a registration writes. The schema bounds the name and the student
  number; the phone, the department and the batch reach the database as they came.
\<close>

definition fits :: "nat \<Rightarrow> string option \<Rightarrow> bool" where
  "fits n x = (case x of None \<Rightarrow> True | Some s \<Rightarrow> length s \<le> n)"

definition user_fits :: "user \<Rightarrow> bool" where
  "user_fits u \<longleftrightarrow> length (us_email u) \<le> 255 \<and> length (us_password_hash u) \<le> 255 \<and> length (us_name u) \<le> 120 \<and>
     fits 32 (us_phone u) \<and> fits 512 (us_photo_url u)"

definition student_fits :: "student \<Rightarrow> bool" where
  "student_fits s \<longleftrightarrow> length (st_student_id_no s) \<le> 64 \<and> fits 120 (st_department s) \<and> fits 32 (st_batch s)"

definition add_user :: "user \<Rightarrow> database \<Rightarrow> database" where
  "add_user u db = db\<lparr>db_users := db_users db @ [u]\<rparr>"

definition add_student :: "student \<Rightarrow> database \<Rightarrow> database" where
  "add_student s db = db\<lparr>db_students := db_students db @ [s]\<rparr>"

definition add_helper :: "helper \<Rightarrow> database \<Rightarrow> database" where
  "add_helper h db = db\<lparr>db_helpers := db_helpers db @ [h]\<rparr>"

text \<open>The user row goes in first, then the row of the profile that names it.\<close>

definition insert_user :: "user \<Rightarrow> database \<Rightarrow> db_error + database" where
  "insert_user u db = (if user_fits u then commit (add_user u db) else Inl DataError)"

definition insert_student :: "user \<Rightarrow> student \<Rightarrow> database \<Rightarrow> db_error + database" where
  "insert_student u s db =
     (case insert_user u db of
        Inl e \<Rightarrow> Inl e
      | Inr db1 \<Rightarrow> if student_fits s then commit (add_student s db1) else Inl DataError)"

definition insert_helper :: "user \<Rightarrow> helper \<Rightarrow> database \<Rightarrow> db_error + database" where
  "insert_helper u h db =
     (case insert_user u db of Inl e \<Rightarrow> Inl e | Inr db1 \<Rightarrow> commit (add_helper h db1))"

definition new_user :: "uuid \<Rightarrow> instant \<Rightarrow> string \<Rightarrow> string \<Rightarrow> user_role \<Rightarrow> string \<Rightarrow> string option \<Rightarrow> user_status \<Rightarrow> user" where
  "new_user i now email hash role name phone status = \<lparr>us_id = i, us_created_at = now, us_email = lower email,
     us_password_hash = hash, us_role = role, us_name = name, us_phone = phone, us_photo_url = None,
     us_status = status\<rparr>"

definition new_student :: "uuid \<Rightarrow> uuid \<Rightarrow> student_register \<Rightarrow> student" where
  "new_student i user_id p = \<lparr>st_id = i, st_user_id = user_id, st_student_id_no = sr_student_id_no p,
     st_department = sr_department p, st_batch = sr_batch p, st_default_stop_id = None\<rparr>"

definition new_helper :: "uuid \<Rightarrow> uuid \<Rightarrow> helper" where
  "new_helper i user_id = \<lparr>hp_id = i, hp_user_id = user_id, hp_approved_by = None, hp_status = Helper_pending,
     hp_current_device_id = None\<rparr>"

definition verification_mail :: "auth_lib \<Rightarrow> string \<Rightarrow> instant \<Rightarrow> user \<Rightarrow> mail" where
  "verification_mail lib jti now u = Verification_mail (us_email u) (us_name u)
     (create_email_verify_token (lib_encode lib) jti now (lib_uuid_text lib (us_id u)) (us_role u))"

definition reset_mail :: "auth_lib \<Rightarrow> string \<Rightarrow> instant \<Rightarrow> user \<Rightarrow> mail" where
  "reset_mail lib jti now u = Reset_mail (us_email u) (us_name u)
     (create_password_reset_token (lib_encode lib) jti now (lib_uuid_text lib (us_id u)) (us_role u))"

definition register_student ::
  "auth_lib \<Rightarrow> settings \<Rightarrow> (database \<Rightarrow> database) \<Rightarrow> bool \<Rightarrow> uuid \<Rightarrow> uuid \<Rightarrow> nat \<Rightarrow> string \<Rightarrow> instant \<Rightarrow>
   database \<Rightarrow> redis \<Rightarrow> student_register \<Rightarrow> (handler_error + user) \<times> database \<times> redis \<times> mail list" where
  "register_student lib cfg env up user_id student_id salt jti now db r p =
     (if email_domain (sr_email p) \<notin> set (student_email_domains cfg)
      then (Inl (Http (HTTPException 403 ''Email domain not allowed for student registration'')), db, r, [])
      else if user_by_email db (sr_email p) \<noteq> None then (Inl (Http EMAIL_TAKEN), db, r, [])
      else if student_id_taken db (sr_student_id_no p)
      then (Inl (Http (HTTPException 409 ''That student ID is already registered'')), db, r, [])
      else
        let u = new_user user_id now (sr_email p) (lib_hash lib salt (sr_password p)) Role_student (sr_name p)
                  (sr_phone p) User_pending_email;
            db1 = env db in
        (case insert_student u (new_student student_id user_id p) db1 of
           Inl IntegrityError \<Rightarrow>
             (Inl (Http (HTTPException 409 ''That email or student ID is already registered'')), db1, r, [])
         | Inl DataError \<Rightarrow> (Inl (UncaughtDb DataError), db1, r, [])
         | Inr db' \<Rightarrow>
             (Inr u, db', flush_principal_invalidations up (lib_uuid_text lib) (touched_principals [u] []) r,
              [verification_mail lib jti now u])))"

definition register_helper ::
  "auth_lib \<Rightarrow> (database \<Rightarrow> database) \<Rightarrow> bool \<Rightarrow> uuid \<Rightarrow> uuid \<Rightarrow> nat \<Rightarrow> instant \<Rightarrow> database \<Rightarrow> redis \<Rightarrow>
   helper_register \<Rightarrow> (handler_error + user) \<times> database \<times> redis" where
  "register_helper lib env up user_id helper_id salt now db r p =
     (if user_by_email db (hr_email p) \<noteq> None then (Inl (Http EMAIL_TAKEN), db, r)
      else
        let u = new_user user_id now (hr_email p) (lib_hash lib salt (hr_password p)) Role_helper (hr_name p)
                  (hr_phone p) User_pending_approval;
            h = new_helper helper_id user_id;
            db1 = env db in
        (case insert_helper u h db1 of
           Inl IntegrityError \<Rightarrow> (Inl (Http EMAIL_TAKEN), db1, r)
         | Inl DataError \<Rightarrow> (Inl (UncaughtDb DataError), db1, r)
         | Inr db' \<Rightarrow>
             (Inr u, db', flush_principal_invalidations up (lib_uuid_text lib) (touched_principals [u] [h]) r)))"

section \<open>Mail on request\<close>

definition claim_slot :: "bool \<Rightarrow> instant \<Rightarrow> string \<Rightarrow> int \<Rightarrow> redis \<Rightarrow> bool \<times> redis" where
  "claim_slot up now k seconds r = (if up then redis_set_nx now k (RDoc None) seconds r else (True, r))"

definition claim_resend :: "bool \<Rightarrow> instant \<Rightarrow> string \<Rightarrow> redis \<Rightarrow> bool \<times> redis" where
  "claim_resend up now email r = claim_slot up now (''resend:'' @ email) RESEND_COOLDOWN_S r"

definition claim_reset :: "bool \<Rightarrow> instant \<Rightarrow> string \<Rightarrow> redis \<Rightarrow> bool \<times> redis" where
  "claim_reset up now email r = claim_slot up now (''reset:'' @ email) RESET_COOLDOWN_S r"

definition resend_verification ::
  "auth_lib \<Rightarrow> bool \<Rightarrow> string \<Rightarrow> instant \<Rightarrow> database \<Rightarrow> redis \<Rightarrow> string \<Rightarrow> string \<times> redis \<times> mail list" where
  "resend_verification lib up jti now db r email =
     (let answer = ''If that address needs confirming, a link is on its way.'' in
      case user_by_email db email of
        None \<Rightarrow> (answer, r, [])
      | Some u \<Rightarrow>
          if us_status u \<noteq> User_pending_email then (answer, r, [])
          else (case claim_resend up now (us_email u) r of
              (True, r') \<Rightarrow> (answer, r', [verification_mail lib jti now u])
            | (False, r') \<Rightarrow> (answer, r', [])))"

definition forgot_password ::
  "auth_lib \<Rightarrow> bool \<Rightarrow> string \<Rightarrow> instant \<Rightarrow> database \<Rightarrow> redis \<Rightarrow> string \<Rightarrow> string \<times> redis \<times> mail list" where
  "forgot_password lib up jti now db r email =
     (let answer = ''If that address has an account, a reset link is on its way.'' in
      case user_by_email db email of
        None \<Rightarrow> (answer, r, [])
      | Some u \<Rightarrow>
          (case claim_reset up now (us_email u) r of
             (True, r') \<Rightarrow> (answer, r', [reset_mail lib jti now u])
           | (False, r') \<Rightarrow> (answer, r', [])))"

section \<open>Links from a mail\<close>

text \<open>The subject of a token of the given type; \<open>Inl None\<close> for a token that is refused.\<close>

definition token_subject ::
  "auth_lib \<Rightarrow> instant \<Rightarrow> string \<Rightarrow> string \<Rightarrow> py_error option + doc \<times> uuid" where
  "token_subject lib now token ty =
     (case decode_token (lib_decode lib) now token ty of
        Inl _ \<Rightarrow> Inl None
      | Inr claims \<Rightarrow>
          (case doc_uuid (lib_uuid_of lib) claims ''sub'' of
             Inl e \<Rightarrow> Inl (if e = KeyError \<or> e = ValueError then None else Some e)
           | Inr i \<Rightarrow> Inr (claims, i)))"

definition put_password :: "uuid \<Rightarrow> string \<Rightarrow> database \<Rightarrow> database" where
  "put_password i hash db = db\<lparr>db_users := row_edit us_id i (\<lambda>u. u\<lparr>us_password_hash := hash\<rparr>) (db_users db)\<rparr>"

definition reset_password ::
  "auth_lib \<Rightarrow> bool \<Rightarrow> bool \<Rightarrow> bool \<Rightarrow> nat \<Rightarrow> instant \<Rightarrow> database \<Rightarrow> redis \<Rightarrow> string \<Rightarrow> string \<Rightarrow>
   (handler_error + unit) \<times> database \<times> redis" where
  "reset_password lib up1 up2 up3 salt now db r token password =
     (case token_subject lib now token ''password_reset'' of
        Inl None \<Rightarrow> (Inl (Http INVALID_RESET), db, r)
      | Inl (Some e) \<Rightarrow> (Inl (Uncaught e), db, r)
      | Inr (claims, user_id) \<Rightarrow>
          if is_revoked up1 now (doc_get claims ''jti'') r then (Inl (Http INVALID_RESET), db, r)
          else (case get_user db user_id of
              None \<Rightarrow> (Inl (Http INVALID_RESET), db, r)
            | Some u \<Rightarrow>
                (case commit (put_password user_id (lib_hash lib salt password) db) of
                   Inl e \<Rightarrow> (Inl (UncaughtDb e), db, r)
                 | Inr db' \<Rightarrow>
                     (Inr (), db',
                      flush_principal_invalidations up3 (lib_uuid_text lib) (touched_principals [u] [])
                        (revoke up2 now claims r)))))"

definition verify_email ::
  "auth_lib \<Rightarrow> bool \<Rightarrow> instant \<Rightarrow> database \<Rightarrow> redis \<Rightarrow> string \<Rightarrow> (handler_error + user) \<times> database \<times> redis" where
  "verify_email lib up now db r token =
     (case token_subject lib now token ''email_verify'' of
        Inl None \<Rightarrow> (Inl (Http (HTTPException 400 ''Invalid or expired token'')), db, r)
      | Inl (Some e) \<Rightarrow> (Inl (Uncaught e), db, r)
      | Inr (_, user_id) \<Rightarrow>
          (case get_user db user_id of
             None \<Rightarrow> (Inl (Http (HTTPException 404 ''User not found'')), db, r)
           | Some u \<Rightarrow>
               if us_status u = User_pending_email
               then (case commit (put_user_status user_id User_active db) of
                   Inl e \<Rightarrow> (Inl (UncaughtDb e), db, r)
                 | Inr db' \<Rightarrow>
                     (Inr (u\<lparr>us_status := User_active\<rparr>), db',
                      flush_principal_invalidations up (lib_uuid_text lib) (touched_principals [u] []) r))
               else (Inr u, db, r)))"

section \<open>Sessions\<close>

definition issue_pair :: "auth_lib \<Rightarrow> settings \<Rightarrow> string \<Rightarrow> string \<Rightarrow> instant \<Rightarrow> user \<Rightarrow> token_pair" where
  "issue_pair lib cfg jti1 jti2 now u = \<lparr>
     tp_access_token = create_access_token (lib_encode lib) jti1 now (access_token_ttl_min cfg)
       (lib_uuid_text lib (us_id u)) (us_role u),
     tp_refresh_token = create_refresh_token (lib_encode lib) jti2 now (refresh_token_ttl_days cfg)
       (lib_uuid_text lib (us_id u)) (us_role u),
     tp_token_type = ''bearer'', tp_expires_in = access_token_ttl_min cfg * 60\<rparr>"

definition login ::
  "auth_lib \<Rightarrow> settings \<Rightarrow> string \<Rightarrow> string \<Rightarrow> instant \<Rightarrow> database \<Rightarrow> string \<Rightarrow> string \<Rightarrow> handler_error + token_pair" where
  "login lib cfg jti1 jti2 now db email password =
     (case user_by_email db email of
        None \<Rightarrow> Inl (Http (HTTPException 401 ''Incorrect email or password''))
      | Some u \<Rightarrow>
          (case verify_password lib password (us_password_hash u) of
             Inl e \<Rightarrow> Inl (Uncaught e)
           | Inr ok \<Rightarrow>
               if \<not> ok then Inl (Http (HTTPException 401 ''Incorrect email or password''))
               else if us_status u = User_pending_email
               then Inl (Http (HTTPException 403
                      (''Confirm your email address first '' @ dash @ '' check your inbox'')))
               else if us_status u \<noteq> User_active then Inl (Http (HTTPException 403 ''Account is not active''))
               else Inr (issue_pair lib cfg jti1 jti2 now u)))"

text \<open>
  The request in front of it. The address of a login is an \<^verbatim>\<open>EmailStr\<close>: \<open>email_str\<close> is the
  validator's answer, the normalised address or nothing, and a refusal (of a malformed address or of a
  reserved domain such as \<^verbatim>\<open>.test\<close>) is a 422 before the password is looked at.
\<close>

definition login_request ::
  "auth_lib \<Rightarrow> (string \<Rightarrow> string option) \<Rightarrow> settings \<Rightarrow> string \<Rightarrow> string \<Rightarrow> instant \<Rightarrow> database \<Rightarrow> string \<Rightarrow> string \<Rightarrow>
   handler_error + token_pair" where
  "login_request lib email_str cfg jti1 jti2 now db email password =
     (case email_str email of
        None \<Rightarrow> Inl (Http (HTTPException 422 ''value is not a valid email address''))
      | Some address \<Rightarrow> login lib cfg jti1 jti2 now db address password)"

text \<open>
  A refresh in its two halves, since two clients holding one token reach the claim after
  both have passed the check: up to the pair this caller would hand out, or the answer
  already, and from the claim on.
\<close>

definition refresh_check ::
  "auth_lib \<Rightarrow> settings \<Rightarrow> bool \<Rightarrow> bool \<Rightarrow> string \<Rightarrow> string \<Rightarrow> instant \<Rightarrow> database \<Rightarrow> redis \<Rightarrow> string \<Rightarrow>
   (handler_error + token_pair) + doc \<times> token_pair" where
  "refresh_check lib cfg up1 up2 jti1 jti2 now db r token =
     (case token_subject lib now token ''refresh'' of
        Inl None \<Rightarrow> Inl (Inl (Http INVALID_REFRESH))
      | Inl (Some e) \<Rightarrow> Inl (Inl (Uncaught e))
      | Inr (claims, user_id) \<Rightarrow>
          if is_revoked_strict up1 now (doc_get claims ''jti'') r
          then (case recall_rotation up2 now (doc_get claims ''jti'') r of
              None \<Rightarrow> Inl (Inl (Http INVALID_REFRESH))
            | Some v \<Rightarrow>
                (case pair_of_value v of None \<Rightarrow> Inl (Inl (Uncaught ValueError)) | Some p \<Rightarrow> Inl (Inr p)))
          else (case get_user db user_id of
              None \<Rightarrow> Inl (Inl (Http (HTTPException 401 ''User not active'')))
            | Some u \<Rightarrow>
                if us_status u \<noteq> User_active then Inl (Inl (Http (HTTPException 401 ''User not active'')))
                else Inr (claims, issue_pair lib cfg jti1 jti2 now u)))"

definition refresh_finish ::
  "bool \<Rightarrow> bool \<Rightarrow> bool \<Rightarrow> instant \<Rightarrow> redis \<Rightarrow> doc \<Rightarrow> token_pair \<Rightarrow> (handler_error + token_pair) \<times> redis" where
  "refresh_finish up3 up4 up5 now r claims pair =
     (case claim_rotation up3 up4 now (doc_get claims ''jti'') (pair_to_json pair) r of
        (Inr (Some v), r') \<Rightarrow>
          (case pair_of_value v of Some p \<Rightarrow> (Inr p, r') | None \<Rightarrow> (Inr pair, revoke up5 now claims r'))
      | (_, r') \<Rightarrow> (Inr pair, revoke up5 now claims r'))"

definition refresh ::
  "auth_lib \<Rightarrow> settings \<Rightarrow> bool \<Rightarrow> bool \<Rightarrow> bool \<Rightarrow> bool \<Rightarrow> bool \<Rightarrow> string \<Rightarrow> string \<Rightarrow> instant \<Rightarrow> database \<Rightarrow>
   redis \<Rightarrow> string \<Rightarrow> (handler_error + token_pair) \<times> redis" where
  "refresh lib cfg up1 up2 up3 up4 up5 jti1 jti2 now db r token =
     (case refresh_check lib cfg up1 up2 jti1 jti2 now db r token of
        Inl answer \<Rightarrow> (answer, r)
      | Inr (claims, pair) \<Rightarrow> refresh_finish up3 up4 up5 now r claims pair)"

definition logout ::
  "auth_lib \<Rightarrow> bool \<Rightarrow> bool \<Rightarrow> bool \<Rightarrow> instant \<Rightarrow> redis \<Rightarrow> string \<Rightarrow> string option \<Rightarrow> (http_error + unit) \<times> redis" where
  "logout lib up1 up2 up3 now r access_token refresh_token =
     (case get_access_claims (lib_decode lib) up1 now r access_token of
        Inl e \<Rightarrow> (Inl e, r)
      | Inr claims \<Rightarrow>
          let r1 = revoke up2 now claims r in
          (case refresh_token of
             None \<Rightarrow> (Inr (), r1)
           | Some t \<Rightarrow>
               if t = [] then (Inr (), r1)
               else (case decode_token (lib_decode lib) now t ''refresh'' of
                   Inl _ \<Rightarrow> (Inr (), r1)
                 | Inr refresh_claims \<Rightarrow>
                     if doc_get refresh_claims ''sub'' = doc_get claims ''sub''
                     then (Inr (), revoke up3 now refresh_claims r1)
                     else (Inr (), r1))))"

section \<open>The account itself\<close>

record student_profile_out =
  spo_student_id_no :: string
  spo_department :: "string option"
  spo_batch :: "string option"

record me_out =
  mo_id :: uuid
  mo_email :: string
  mo_name :: string
  mo_role :: user_role
  mo_status :: user_status
  mo_phone :: "string option"
  mo_student :: "student_profile_out option"

definition me_response :: "database \<Rightarrow> user \<Rightarrow> me_out" where
  "me_response db u = \<lparr>mo_id = us_id u, mo_email = us_email u, mo_name = us_name u, mo_role = us_role u,
     mo_status = us_status u, mo_phone = us_phone u,
     mo_student = (if us_role u = Role_student
       then map_option (\<lambda>s. \<lparr>spo_student_id_no = st_student_id_no s, spo_department = st_department s,
              spo_batch = st_batch s\<rparr>) (student_by_user_id db (us_id u))
       else None)\<rparr>"

text \<open>
  \<^verbatim>\<open>phone\<close> is \<open>None\<close> when the client did not send it, \<open>Some None\<close>
  when it sent null.
\<close>

definition profile_edit :: "string option \<Rightarrow> string option option \<Rightarrow> user \<Rightarrow> user" where
  "profile_edit name phone u = u\<lparr>us_name := (case name of None \<Rightarrow> us_name u | Some n \<Rightarrow> n),
     us_phone := (case phone of None \<Rightarrow> us_phone u | Some p \<Rightarrow> p)\<rparr>"

definition update_me ::
  "auth_lib \<Rightarrow> bool \<Rightarrow> database \<Rightarrow> redis \<Rightarrow> principal \<Rightarrow> string option \<Rightarrow> string option option \<Rightarrow>
   (handler_error + me_out) \<times> database \<times> redis" where
  "update_me lib up db r p name phone =
     (case get_current_user db p of
        Inl e \<Rightarrow> (Inl (Http e), db, r)
      | Inr u \<Rightarrow>
          (case commit (db\<lparr>db_users := row_edit us_id (us_id u) (profile_edit name phone) (db_users db)\<rparr>) of
             Inl e \<Rightarrow> (Inl (UncaughtDb e), db, r)
           | Inr db' \<Rightarrow>
               (Inr (me_response db' (profile_edit name phone u)), db',
                if name = None \<and> phone = None then r
                else flush_principal_invalidations up (lib_uuid_text lib) (touched_principals [u] []) r)))"

section \<open>What the libraries promise\<close>

text \<open>
  A token signed here is read back, a printed id is read back and is not empty, and a hash
  verifies the password it was made from and no other.
\<close>

locale auth_libraries = jwt: jwt_library "lib_encode lib" "lib_decode lib"
    + ids: uuid_texts "lib_uuid_text lib" "lib_uuid_of lib" for lib :: auth_lib +
  assumes verify_hash: "lib_verify lib (lib_hash lib salt p) q = Some (p = q)"
begin

lemma created_subject:
  assumes "token_alive now (token_claims jti t (lib_uuid_text lib i) role ty ttl)" "t \<le> now" "jti \<noteq> []"
  shows "token_subject lib now (create_token (lib_encode lib) jti t (lib_uuid_text lib i) role ty ttl) ty =
    Inr (token_claims jti t (lib_uuid_text lib i) role ty ttl, i)"
proof -
  have "doc_uuid (lib_uuid_of lib) (token_claims jti t (lib_uuid_text lib i) role ty ttl) ''sub'' = Inr i"
    by (simp add: doc_uuid_def token_claims_def ids.dec_enc)
  with jwt.decode_created [OF assms] show ?thesis by (simp add: token_subject_def)
qed

end

text \<open>An instance: tokens are counted, ids are unary, a hash is the password behind its salt.\<close>

definition demo_lib :: auth_lib where
  "demo_lib = \<lparr>lib_encode = count_encode, lib_decode = count_decode, lib_uuid_of = unary_of,
     lib_uuid_text = unary_text, lib_hash = (\<lambda>salt p. unary_text salt @ CHR ''$'' # p),
     lib_verify = (\<lambda>h p. Some (tl (dropWhile (\<lambda>c. c = CHR ''1'') h) = p))\<rparr>"

lemma demo_lib_simps [simp]:
  "lib_encode demo_lib = count_encode" "lib_decode demo_lib = count_decode"
  "lib_uuid_of demo_lib = unary_of" "lib_uuid_text demo_lib = unary_text"
  by (simp_all add: demo_lib_def)

lemma demo_lib_verify: "lib_verify demo_lib (lib_hash demo_lib salt p) q = Some (p = q)"
proof -
  have "dropWhile (\<lambda>c. c = CHR ''1'') (unary_text salt @ CHR ''$'' # p) = CHR ''$'' # p"
    by (simp add: unary_text_def dropWhile_append)
  then show ?thesis by (simp add: demo_lib_def)
qed

interpretation demo_auth: auth_libraries demo_lib
  by unfold_locales
    (auto intro: count_jwt.decode_encode count_jwt.decoded_alive count_jwt.decode_stable simp: unary unary_texts.text_nonempty demo_lib_verify)

definition demo_settings :: settings where
  "demo_settings = \<lparr>access_token_ttl_min = 15, refresh_token_ttl_days = 30,
     allowed_student_email_domains = ''ulab.edu.bd''\<rparr>"

section \<open>A refresh token is spent once\<close>

lemma pair_round_trip [simp]: "pair_from_json (pair_to_json p) = Some p"
  by (simp add: pair_from_json_def pair_to_json_def doc_get_def doc_get_or_def)

lemma lib_alive: "auth_libraries lib \<Longrightarrow> lib_decode lib t s = Some c \<Longrightarrow> token_alive t c"
  by (rule jwt_library.decoded_alive [OF auth_libraries.axioms(1)])

lemma lib_stable: "auth_libraries lib \<Longrightarrow> lib_decode lib t s = Some c \<Longrightarrow> lib_decode lib t' s = Some c' \<Longrightarrow> c = c'"
  by (rule jwt_library.decode_stable [OF auth_libraries.axioms(1)])

lemma lib_texts: "auth_libraries lib \<Longrightarrow> uuid_texts (lib_uuid_text lib) (lib_uuid_of lib)"
  by (rule auth_libraries.axioms(2))

lemma token_subject_InrD:
  "token_subject lib now token ty = Inr (c, i) \<Longrightarrow> lib_decode lib now token = Some c \<and>
     doc_get c ''type'' = JStr ty \<and> truthy (doc_get c ''jti'') \<and> doc_uuid (lib_uuid_of lib) c ''sub'' = Inr i"
  by (auto simp: token_subject_def decode_token_def split: sum.splits option.splits if_splits)

lemma token_subject_again:
  assumes "token_subject lib now token ty = Inr (c, i)" "auth_libraries lib"
  shows "token_subject lib later token ty = (if lib_decode lib later token = None then Inl None else Inr (c, i))"
  using token_subject_InrD [OF assms(1)] lib_stable [OF assms(2), of now token c later]
  by (auto simp: token_subject_def decode_token_def)

lemma absent_later: "redis_get r now k = None \<Longrightarrow> now \<le> later \<Longrightarrow> redis_get r later k = None"
  using redis_expires [of r later k _ now] by fastforce

lemma revoked_for_good:
  assumes "truthy (doc_get c ''jti'')" "lib_decode lib later token = Some c"
    and "auth_libraries lib"
  shows "redis_get (revoke True now c r) later (revoked_key (doc_get c ''jti'')) \<noteq> None"
  using revoked_while_alive [OF lib_alive [OF assms(3,2)] assms(1)] .

lemma refresh_check_InrD:
  assumes "refresh_check lib cfg up1 up2 jti1 jti2 now db r token = Inr (c, pair)"
  obtains u where "token_subject lib now token ''refresh'' = Inr (c, us_id u)" "get_user db (us_id u) = Some u"
    "us_status u = User_active" "pair = issue_pair lib cfg jti1 jti2 now u"
    "\<not> is_revoked_strict up1 now (doc_get c ''jti'') r"
proof -
  obtain i where i: "token_subject lib now token ''refresh'' = Inr (c, i)"
    using assms by (auto simp: refresh_check_def split: sum.splits option.splits prod.splits if_splits)
  then obtain u where u: "get_user db i = Some u" "us_status u = User_active" "pair = issue_pair lib cfg jti1 jti2 now u"
    "\<not> is_revoked_strict up1 now (doc_get c ''jti'') r"
    using assms by (auto simp: refresh_check_def split: option.splits if_splits)
  then have "us_id u = i" by (auto dest: row_get_SomeD)
  with i u show ?thesis by (intro that [of u]) simp_all
qed

text \<open>The claim as a step: the first caller stores its pair, the others read it.\<close>

lemma refresh_finish_first:
  assumes "redis_get r now (rotated_key (doc_get c ''jti'')) = None"
  shows "refresh_finish True True up5 now r c pair =
    (Inr pair, revoke up5 now c (redis_set (rotated_key (doc_get c ''jti'')) (RDoc (Some (pair_to_json pair)))
       (Some (now + ROTATION_GRACE_S * second)) r))"
  using assms by (simp add: refresh_finish_def claim_rotation_def redis_set_nx_def)

lemma refresh_finish_second:
  assumes "redis_get r now (rotated_key (doc_get c ''jti'')) = Some (RDoc (Some (pair_to_json first)))"
  shows "refresh_finish True True up5 now r c pair = (Inr first, r)"
  using assms by (simp add: refresh_finish_def claim_rotation_def redis_set_nx_def pair_of_value_def)

lemma rotated_key_after:
  "redis_get (revoke up now c (redis_set (rotated_key (doc_get c ''jti'')) v (Some e) r)) t (rotated_key (doc_get c ''jti''))
     = (if t < e then Some v else None)"
  by (simp add: redis_get_revoke_other)

text \<open>
  C9. A refresh token redeemed while Redis answers each of the five calls of its redemption, and not
  redeemed before, buys one pair of tokens. Whoever redeems it so is an active account and the
  pair is its own; from then on the same token, however often, whenever and with Redis in
  whatever condition it is presented, either returns that very pair, within the sixty seconds
  of grace and where Redis answers the recall, or is refused with 401; no second pair is issued for it. (In an outage during the
  redemption itself the code gives the claim up, as its comments say, and this is not claimed.)
\<close>

theorem refresh_token_is_spent_once:
  assumes "refresh lib cfg True True True True True jti1 jti2 now db r token = (Inr pair, r')"
    and "lib_decode lib now token = Some c" "redis_get r now (revoked_key (doc_get c ''jti'')) = None"
    and "redis_get r now (rotated_key (doc_get c ''jti'')) = None"
    and "auth_libraries lib"
  shows "(\<exists>u \<in> set (db_users db). us_status u = User_active \<and> doc_uuid (lib_uuid_of lib) c ''sub'' = Inr (us_id u) \<and>
      pair = issue_pair lib cfg jti1 jti2 now u) \<and>
    (\<forall>later db2 up1 up2 up3 up4 up5 jti3 jti4. now \<le> later \<longrightarrow>
      refresh lib cfg up1 up2 up3 up4 up5 jti3 jti4 later db2 r' token =
        (if up2 \<and> later < now + 60 * second \<and> lib_decode lib later token \<noteq> None
         then (Inr pair, r') else (Inl (Http INVALID_REFRESH), r')))"
proof -
  obtain c' p where chk: "refresh_check lib cfg True True jti1 jti2 now db r token = Inr (c', p)"
  proof (cases "refresh_check lib cfg True True jti1 jti2 now db r token")
    case (Inl a)
    have nr: "\<not> is_revoked_strict True now (doc_get c ''jti'') r" using assms(3) by (simp add: is_revoked_strict_def)
    from Inl assms(1) have "refresh_check lib cfg True True jti1 jti2 now db r token = Inl (Inr pair)"
      by (simp add: refresh_def)
    with nr assms(2) show ?thesis
      by (auto simp: refresh_check_def token_subject_def decode_token_def
          split: sum.splits option.splits if_splits)
  qed (use that in auto)
  then obtain u where u: "token_subject lib now token ''refresh'' = Inr (c', us_id u)" "get_user db (us_id u) = Some u"
    "us_status u = User_active" "p = issue_pair lib cfg jti1 jti2 now u"
    by (rule refresh_check_InrD)
  note sub = token_subject_InrD [OF u(1)]
  with assms(2) have c: "c' = c" by simp
  let ?set = "redis_set (rotated_key (doc_get c ''jti'')) (RDoc (Some (pair_to_json p)))
    (Some (now + ROTATION_GRACE_S * second)) r"
  have "(Inr pair, r') = (Inr p :: handler_error + token_pair, revoke True now c ?set)"
    using refresh_finish_first [OF assms(4), of True p] assms(1) by (metis c chk old.sum.simps(6) refresh_def split_conv)
  then have fin: "pair = p" "r' = revoke True now c ?set" by simp_all
  have "refresh lib cfg up1 up2 up3 up4 up5 jti3 jti4 later db2 r' token =
      (if up2 \<and> later < now + 60 * second \<and> lib_decode lib later token \<noteq> None
       then (Inr pair, r') else (Inl (Http INVALID_REFRESH), r'))"
    for later db2 up1 up2 up3 up4 up5 jti3 jti4
  proof (cases "lib_decode lib later token")
    case None
    with token_subject_again [OF u(1) assms(5), of later] show ?thesis
      by (simp add: refresh_def refresh_check_def)
  next
    case (Some d)
    with lib_stable [OF assms(5,2)] have d: "lib_decode lib later token = Some c" by auto
    have ts: "token_subject lib later token ''refresh'' = Inr (c, us_id u)"
      using token_subject_again [OF u(1) assms(5), of later] Some c by simp
    have "redis_get r' later (revoked_key (doc_get c ''jti'')) \<noteq> None"
      unfolding fin by (rule revoked_for_good [OF _ d assms(5)]) (use sub c in auto)
    then have "is_revoked_strict up1 later (doc_get c ''jti'') r'" by (simp add: is_revoked_strict_def)
    moreover have "redis_get r' later (rotated_key (doc_get c ''jti'')) =
        (if later < now + 60 * second then Some (RDoc (Some (pair_to_json pair))) else None)"
      unfolding fin(2) rotated_key_after by (simp add: fin(1) ROTATION_GRACE_S_def)
    ultimately show ?thesis using ts Some
      by (simp add: refresh_def refresh_check_def recall_rotation_def pair_of_value_def)
  qed
  moreover have "u \<in> set (db_users db)" using u(2) by (auto dest: row_get_SomeD)
  ultimately show ?thesis using u(3,4) fin(1) sub c by blast
qed


lemma demo_refresh_sub: "token_subject demo_lib demo_now (count_encode demo_claims) ''refresh'' = Inr (demo_claims, 1)"
  by (simp add: token_subject_def decode_token_def demo_decoded)
    (simp add: demo_claims_def token_claims_def doc_get_def doc_uuid_def unary)

lemma demo_user_one: "get_user demo_db 1 = Some (demo_user 1 ''a@x.edu'' Role_student)" "us_id (demo_user 1 e rl) = 1"
  "us_status (demo_user 1 e rl) = User_active"
  by (simp_all add: demo_db_def demo_user_def)

lemma demo_refresh_check:
  "refresh_check demo_lib demo_settings True True ''j3'' ''j4'' demo_now demo_db empty_redis (count_encode demo_claims) =
     Inr (demo_claims, issue_pair demo_lib demo_settings ''j3'' ''j4'' demo_now (demo_user 1 ''a@x.edu'' Role_student))"
  using demo_user_one(1) demo_user_one(3) [of "''a@x.edu''" Role_student]
  by (simp add: refresh_check_def demo_refresh_sub is_revoked_strict_def redis_get_def empty_redis_def)

text \<open>A second refresh with the same token, a minute later, is refused.\<close>

theorem refresh_token_is_spent_once_witness:
  "\<exists>pair r'. refresh demo_lib demo_settings True True True True True ''j3'' ''j4'' demo_now demo_db empty_redis
       (count_encode demo_claims) = (Inr pair, r') \<and>
     refresh demo_lib demo_settings True True True True True ''j5'' ''j6'' (demo_now + minute) demo_db r'
       (count_encode demo_claims) = (Inl (Http INVALID_REFRESH), r')"
proof -
  have none: "redis_get empty_redis demo_now k = None" for k by (simp add: redis_get_def empty_redis_def)
  let ?pair = "issue_pair demo_lib demo_settings ''j3'' ''j4'' demo_now (demo_user 1 ''a@x.edu'' Role_student)"
  obtain r' where s: "refresh demo_lib demo_settings True True True True True ''j3'' ''j4'' demo_now demo_db empty_redis
       (count_encode demo_claims) = (Inr ?pair, r')"
    using refresh_finish_first [OF none] by (auto simp: refresh_def demo_refresh_check)
  have dec: "lib_decode demo_lib demo_now (count_encode demo_claims) = Some demo_claims" by (simp add: demo_decoded)
  from refresh_token_is_spent_once [OF s dec none none demo_auth.auth_libraries_axioms] s show ?thesis by auto
qed

text \<open>
  Callers that passed the check with the same token, each finishing at its own moment with
  the pair it would have handed out.
\<close>

fun race_refreshes :: "doc \<Rightarrow> redis \<Rightarrow> (instant \<times> token_pair) list \<Rightarrow> (handler_error + token_pair) list \<times> redis" where
  "race_refreshes c r [] = ([], r)"
| "race_refreshes c r ((t, pair) # rest) =
     (case refresh_finish True True True t r c pair of
        (answer, r') \<Rightarrow> (case race_refreshes c r' rest of (answers, r'') \<Rightarrow> (answer # answers, r'')))"

lemma race_followers:
  assumes "\<forall>(t, q) \<in> set rest. t < e"
    and "\<And>t. redis_get r t (rotated_key (doc_get c ''jti'')) = (if t < e then Some (RDoc (Some (pair_to_json pair))) else None)"
  shows "race_refreshes c r rest = (replicate (length rest) (Inr pair), r)"
  using assms(1)
proof (induction rest)
  case (Cons x rest)
  obtain t q where x: "x = (t, q)" by fastforce
  with Cons.prems have "redis_get r t (rotated_key (doc_get c ''jti'')) = Some (RDoc (Some (pair_to_json pair)))"
    by (simp add: assms(2))
  with Cons x show ?case by (simp add: refresh_finish_second)
qed simp

text \<open>
  Clients that race with one refresh token converge: of any number of callers that had all
  passed the check and finish within sixty seconds, every one is answered with the pair of the
  first, so none of them is signed out and all end with the same tokens.
\<close>

theorem racing_refreshes_converge:
  assumes "redis_get r t (rotated_key (doc_get c ''jti'')) = None"
    and "\<forall>(s, q) \<in> set rest. s < t + 60 * second"
  shows "fst (race_refreshes c r ((t, pair) # rest)) = replicate (Suc (length rest)) (Inr pair)"
proof -
  let ?r = "revoke True t c (redis_set (rotated_key (doc_get c ''jti'')) (RDoc (Some (pair_to_json pair)))
      (Some (t + ROTATION_GRACE_S * second)) r)"
  have "race_refreshes c ?r rest = (replicate (length rest) (Inr pair), ?r)"
    by (rule race_followers [where e = "t + ROTATION_GRACE_S * second"])
      (use assms(2) in \<open>auto simp: ROTATION_GRACE_S_def redis_get_revoke_other\<close>)
  then show ?thesis by (simp add: refresh_finish_first [OF assms(1)])
qed

definition demo_pair :: "string \<Rightarrow> token_pair" where
  "demo_pair jti = issue_pair demo_lib demo_settings jti jti demo_now (demo_user 1 ''a@x.edu'' Role_student)"

text \<open>Three isolates of one phone, seconds apart.\<close>

theorem racing_refreshes_converge_witness:
  "fst (race_refreshes demo_claims empty_redis
     [(demo_now, demo_pair ''a''), (demo_now + second, demo_pair ''b''), (demo_now + 59 * second, demo_pair ''c'')]) =
     [Inr (demo_pair ''a''), Inr (demo_pair ''a''), Inr (demo_pair ''a'')]"
proof -
  have "redis_get empty_redis demo_now (rotated_key (doc_get demo_claims ''jti'')) = None"
    by (simp add: redis_get_def empty_redis_def)
  from racing_refreshes_converge [OF this,
      of "[(demo_now + second, demo_pair ''b''), (demo_now + 59 * second, demo_pair ''c'')]" "demo_pair ''a''"]
  show ?thesis by (simp add: numeral_eq_Suc del: race_refreshes.simps)
qed

section \<open>Signing out\<close>

lemma access_claims_InrD:
  "get_access_claims dec up now r token = Inr c \<Longrightarrow> dec now token = Some c \<and> doc_get c ''type'' = JStr ''access'' \<and>
     truthy (doc_get c ''jti'') \<and> \<not> is_revoked up now (doc_get c ''jti'') r"
  by (auto simp: get_access_claims_def decode_token_def split: sum.splits option.splits if_splits)

lemma decode_token_InrD:
  "decode_token dec now token ty = Inr c \<Longrightarrow> dec now token = Some c \<and> doc_get c ''type'' = JStr ty \<and> truthy (doc_get c ''jti'')"
  by (auto simp: decode_token_def split: option.splits if_splits)

lemma revoked_or_dead:
  assumes "truthy (doc_get c ''jti'')" "lib_decode lib now token = Some c" "auth_libraries lib"
  shows "redis_get (revoke True t c r) later (revoked_key (doc_get c ''jti'')) \<noteq> None \<or> lib_decode lib later token = None"
proof (cases "lib_decode lib later token")
  case (Some d)
  with lib_stable [OF assms(3,2)] have "lib_decode lib later token = Some c" by auto
  from revoked_for_good [OF assms(1) this assms(3)] show ?thesis ..
qed simp

lemma access_refused:
  assumes "lib_decode lib now token = Some c"
    and "redis_get r later (revoked_key (doc_get c ''jti'')) \<noteq> None \<or> lib_decode lib later token = None"
    and "auth_libraries lib"
  shows "get_access_claims (lib_decode lib) True later r token = Inl credentials_exc"
proof (cases "lib_decode lib later token")
  case (Some d)
  with lib_stable [OF assms(3,1)] have "lib_decode lib later token = Some c" by auto
  with assms(2) show ?thesis by (simp add: get_access_claims_def decode_token_def is_revoked_def)
qed (simp add: get_access_claims_def decode_token_def)

lemma refresh_refused:
  assumes "lib_decode lib now token = Some c" "redis_get r later (revoked_key (doc_get c ''jti'')) \<noteq> None \<or>
      lib_decode lib later token = None"
    and "redis_get r later (rotated_key (doc_get c ''jti'')) = None" "auth_libraries lib"
    and "\<exists>i. doc_uuid (lib_uuid_of lib) c ''sub'' = Inr i"
  shows "refresh lib cfg up1 up2 up3 up4 up5 jti1 jti2 later db r token = (Inl (Http INVALID_REFRESH), r)"
proof (cases "lib_decode lib later token")
  case None
  then show ?thesis by (simp add: refresh_def refresh_check_def token_subject_def decode_token_def)
next
  case (Some d)
  with lib_stable [OF assms(4,1)] have d: "lib_decode lib later token = Some c" by auto
  with assms show ?thesis
    by (auto simp: refresh_def refresh_check_def token_subject_def decode_token_def is_revoked_strict_def
        recall_rotation_def split: sum.splits)
qed


lemma logout_answers:
  "get_access_claims (lib_decode lib) up1 now r access = Inr c \<Longrightarrow> fst (logout lib up1 up2 up3 now r access rt) = Inr ()"
  by (simp add: logout_def Let_def split: option.split sum.split)

lemma demo_access_sub: "doc_get (access_claims i role) ''sub'' = JStr (unary_text i)"
    "doc_get (access_claims i role) ''jti'' = JStr ''j2''" "doc_get demo_claims ''jti'' = JStr ''j1''"
    "doc_get demo_claims ''sub'' = JStr (unary_text 1)" "doc_get demo_claims ''type'' = JStr ''refresh''"
  by (simp_all add: access_claims_def demo_claims_def token_claims_def doc_get_def)


section \<open>A forgotten password\<close>

lemma login_after:
  assumes "find (\<lambda>u. us_email u = lower email) (db_users db) = Some u" "verify_password lib password (us_password_hash u) = Inr ok"
  shows "login lib cfg jti1 jti2 now db email password =
    (if \<not> ok then Inl (Http (HTTPException 401 ''Incorrect email or password''))
     else if us_status u = User_pending_email
     then Inl (Http (HTTPException 403 (''Confirm your email address first '' @ dash @ '' check your inbox'')))
     else if us_status u \<noteq> User_active then Inl (Http (HTTPException 403 ''Account is not active''))
     else Inr (issue_pair lib cfg jti1 jti2 now u))"
  using assms by (simp add: login_def user_by_email_def)

lemma find_edit:
  assumes "distinct (map k rows)" "distinct (map f rows)" "x \<in> set rows" "\<And>y. f (g y) = f y"
  shows "find (\<lambda>y. f y = f x) (row_edit k (k x) g rows) = Some (g x)"
  using assms(1-3)
proof (induction rows)
  case (Cons y rows)
  show ?case
  proof (cases "x = y")
    case False
    with Cons.prems have "x \<in> set rows" "k y \<noteq> k x" "f y \<noteq> f x" by (auto simp: image_iff)
    with Cons show ?thesis by simp
  qed (simp add: assms(4))
qed simp

lemma email_edit:
  assumes "db_ok db" "get_user db i = Some u" "lower email = us_email u" "\<And>u. us_email (g u) = us_email u"
  shows "find (\<lambda>u. us_email u = lower email) (row_edit us_id i g (db_users db)) = Some (g u)"
proof -
  have "u \<in> set (db_users db)" "us_id u = i" using assms(2) by (auto dest: row_get_SomeD)
  with find_edit [of us_id "db_users db" us_email u g] assms show ?thesis
    by (auto simp: db_ok_def identity_ok_def)
qed

lemma lib_verify_hash: "auth_libraries lib \<Longrightarrow> verify_password lib q (lib_hash lib salt p) = Inr (p = q)"
  by (simp add: verify_password_def auth_libraries.verify_hash)

lemma redis_get_invalidate [simp]:
  "redis_get (invalidate_principal up uuid_text i r) t (revoked_key j) = redis_get r t (revoked_key j)"
  "redis_get (invalidate_principal up uuid_text i r) t (rotated_key j) = redis_get r t (rotated_key j)"
  by (simp_all add: invalidate_principal_def principal_key_def revoked_key_def rotated_key_def)

lemma redis_get_flush [simp]:
  "redis_get (flush_principal_invalidations up uuid_text is r) t (revoked_key j) = redis_get r t (revoked_key j)"
  unfolding flush_principal_invalidations_def by (induction "is" arbitrary: r) simp_all

lemma put_password_ok: "db_ok db \<Longrightarrow> db_ok (put_password i h db)"
  unfolding put_password_def by (rule db_ok_edit_user) simp_all


definition reset_claims :: doc where
  "reset_claims = token_claims ''j7'' demo_now (unary_text 1) Role_student ''password_reset'' PASSWORD_RESET_TTL"

lemma reset_decodes: "count_decode demo_now (count_encode reset_claims) = Some reset_claims"
  by (rule count_jwt.decode_encode)
    (simp_all add: token_alive_def token_issued_def reset_claims_def token_claims_def doc_get_def demo_now_def
      PASSWORD_RESET_TTL_def)

lemma reset_sub: "token_subject demo_lib demo_now (count_encode reset_claims) ''password_reset'' = Inr (reset_claims, 1)"
  by (simp add: token_subject_def decode_token_def reset_decodes)
    (simp add: reset_claims_def token_claims_def doc_get_def doc_uuid_def unary)

lemma demo_lower: "lower ''A@X.edu'' = ''a@x.edu''"
  by code_simp



section \<open>Mail on request\<close>

text \<open>
  A run of requests for a reset link, in any order of addresses, against a database that
  stays as it is: when and to whom a mail went out.
\<close>

fun reset_requests :: "auth_lib \<Rightarrow> database \<Rightarrow> redis \<Rightarrow> (instant \<times> string \<times> string) list \<Rightarrow> (instant \<times> mail) list" where
  "reset_requests lib db r [] = []"
| "reset_requests lib db r ((t, jti, email) # rest) =
     (case forgot_password lib True jti t db r email of
        (_, r', mails) \<Rightarrow> map (\<lambda>m. (t, m)) mails @ reset_requests lib db r' rest)"

fun mail_to :: "mail \<Rightarrow> string" where
  "mail_to (Verification_mail a _ _) = a"
| "mail_to (Reset_mail a _ _) = a"

text \<open>An address is blocked up to an instant when its slot is taken until then.\<close>

definition blocked :: "redis \<Rightarrow> string \<Rightarrow> instant \<Rightarrow> bool" where
  "blocked r a e \<longleftrightarrow> (\<forall>t < e. redis_get r t (''reset:'' @ a) \<noteq> None)"

lemma forgot_cases:
  assumes "forgot_password lib True jti t db r email = (answer, r', mails)"
  shows "(mails = [] \<and> r' = r) \<or>
    (\<exists>u. mails = [reset_mail lib jti t u] \<and> redis_get r t (''reset:'' @ us_email u) = None \<and>
       r' = redis_set (''reset:'' @ us_email u) (RDoc None) (Some (t + 120 * second)) r)"
  using assms
  by (auto simp: forgot_password_def claim_reset_def claim_slot_def redis_set_nx_def RESET_COOLDOWN_S_def Let_def
      split: option.splits)

lemma mail_to_reset [simp]: "mail_to (reset_mail lib jti t u) = us_email u"
  by (simp add: reset_mail_def)

lemma blocked_after_set:
  "blocked (redis_set (''reset:'' @ a) v (Some e) r) a e"
  "b \<noteq> a \<Longrightarrow> blocked (redis_set (''reset:'' @ a) v (Some e) r) b f = blocked r b f"
  by (auto simp: blocked_def)

lemma blocked_sends:
  assumes "blocked r a e" "(t, m) \<in> set (reset_requests lib db r reqs)" "mail_to m = a"
  shows "e \<le> t"
  using assms(1,2)
proof (induction reqs arbitrary: r e)
  case (Cons q reqs)
  obtain s jti email where q: "q = (s, jti, email)" by (cases q)
  obtain answer r' mails where f: "forgot_password lib True jti s db r email = (answer, r', mails)"
    by (metis prod_cases3)
  from forgot_cases [OF f] consider "mails = []" "r' = r"
    | u where "mails = [reset_mail lib jti s u]" "redis_get r s (''reset:'' @ us_email u) = None"
      "r' = redis_set (''reset:'' @ us_email u) (RDoc None) (Some (s + 120 * second)) r" by blast
  then show ?case
  proof cases
    case 1
    with Cons q f show ?thesis by auto
  next
    case (2 u)
    show ?thesis
    proof (cases "us_email u = a")
      case True
      have es: "e \<le> s" using Cons.prems(1) 2(2) True by (auto simp: blocked_def not_less [symmetric])
      have "blocked r' a (s + 120 * second)" unfolding 2(3) True [symmetric] by (rule blocked_after_set)
      from Cons.IH [OF this] have "s + 120 * second \<le> t" if "(t, m) \<in> set (reset_requests lib db r' reqs)" using that .
      with es Cons.prems(2) q f 2(1) show ?thesis by auto
    next
      case False
      then have "blocked r' a e" unfolding 2(3)
        using Cons.prems(1) by (subst blocked_after_set(2)) simp_all
      with Cons q f 2(1) False assms(3) show ?thesis by auto
    qed
  qed
qed simp

text \<open>
  However many requests for a reset link arrive, from whomever and in whatever order, no
  address is sent two within two minutes.
\<close>

theorem reset_mails_are_two_minutes_apart:
  "sorted_wrt (\<lambda>(s, _) (t, _). s + 120 * second \<le> t)
     (filter (\<lambda>(_, m). mail_to m = a) (reset_requests lib db r requests))"
proof (induction requests arbitrary: r)
  case (Cons q requests)
  obtain s jti email where q: "q = (s, jti, email)" by (cases q)
  obtain answer r' mails where f: "forgot_password lib True jti s db r email = (answer, r', mails)"
    by (metis prod_cases3)
  from forgot_cases [OF f] consider "mails = []"
    | u where "mails = [reset_mail lib jti s u]"
      "r' = redis_set (''reset:'' @ us_email u) (RDoc None) (Some (s + 120 * second)) r" by blast
  then show ?case
  proof cases
    case 1
    with Cons q f show ?thesis by simp
  next
    case (2 u)
    have "s + 120 * second \<le> t" if "(t, m) \<in> set (reset_requests lib db r' requests)" "mail_to m = us_email u" for t m
      using that blocked_after_set(1) unfolding 2(2) by (rule blocked_sends [rotated])
    with Cons.IH [of r'] q f 2(1) show ?thesis by auto
  qed
qed simp

end
