(* ===== verification/Accounts.thy ===== *)
theory Accounts
  imports AuthApi
begin

text \<open>
  The life of an account across the API: the way of a student from registration to a guarded
  route, and the machine whose steps are the calls of \<open>AuthApi\<close> and \<open>AdminUsers\<close>
  that write users or helpers, with an invariant over its runs: the constraints hold and the
  cached snapshots tell the truth, or did within the last five minutes where Redis was out.
\<close>

section \<open>Registration adds one account\<close>

lemma insert_student_InrD:
  assumes "insert_student u s db = Inr db'"
  shows "db' = add_student s (add_user u db) \<and> db_ok db' \<and> db_ok (add_user u db) \<and> user_fits u \<and> student_fits s"
  using assms by (auto simp: insert_student_def insert_user_def split: sum.splits if_splits)

lemma insert_helper_InrD:
  assumes "insert_helper u h db = Inr db'"
  shows "db' = add_helper h (add_user u db) \<and> db_ok db' \<and> db_ok (add_user u db) \<and> user_fits u"
  using assms by (auto simp: insert_helper_def insert_user_def split: sum.splits if_splits)

lemma add_user_new:
  assumes "db_ok (add_user u db)"
  shows "get_user db (us_id u) = None" "\<And>i. get_user (add_user u db) i = (if i = us_id u then Some u else get_user db i)"
    "find (\<lambda>x. us_email x = us_email u) (db_users (add_user u db)) = Some u"
proof -
  have d: "us_id u \<notin> us_id ` set (db_users db)" "us_email u \<notin> us_email ` set (db_users db)"
    using assms by (auto simp: db_ok_def identity_ok_def add_user_def)
  then show "get_user db (us_id u) = None" by (auto simp: row_get_None_iff image_iff)
  then show "get_user (add_user u db) i = (if i = us_id u then Some u else get_user db i)" for i
    by (auto simp: add_user_def row_get_append split: option.split)
  from d(2) show "find (\<lambda>x. us_email x = us_email u) (db_users (add_user u db)) = Some u"
  proof -
    have "find (\<lambda>x. us_email x = us_email u) (xs @ [u]) = Some u" if "us_email u \<notin> us_email ` set xs" for xs
      using that by (induction xs) auto
    with d(2) show ?thesis by (simp add: add_user_def)
  qed
qed

lemma add_student_same [simp]:
  "load_principal (add_student s db) = load_principal db" "db_users (add_student s db) = db_users db"
  "db_helpers (add_student s db) = db_helpers db"
  by (simp_all add: add_student_def load_principal_def helper_by_user_id_def fun_eq_iff)

lemma load_add_user:
  assumes "db_ok (add_user u db)" "i \<noteq> us_id u"
  shows "load_principal (add_user u db) i = load_principal db i"
  using add_user_new(2) [OF assms(1), of i] assms(2)
  by (simp add: load_principal_def) (simp add: add_user_def helper_by_user_id_def)

lemma load_add_helper:
  assumes "i \<noteq> hp_user_id h"
  shows "load_principal (add_helper h db) i = load_principal db i"
proof -
  have "find (\<lambda>x. hp_user_id x = i) (xs @ [h]) = find (\<lambda>x. hp_user_id x = i) xs" for xs
    using assms by (induction xs) auto
  then show ?thesis by (simp add: load_principal_def helper_by_user_id_def add_helper_def)
qed

lemma load_None: "get_user db i = None \<Longrightarrow> load_principal db i = None"
  by (simp add: load_principal_def)

lemma touched_new: "us_id u = i \<Longrightarrow> (\<forall>h \<in> set hs. hp_user_id h = i) \<Longrightarrow> length hs \<le> 1 \<Longrightarrow>
    flush_principal_invalidations up uuid_text (touched_principals [u] hs) r = invalidate_principal up uuid_text i r"
  by (rule touched_one)

context uuid_texts
begin

text \<open>A new account has no snapshot to drop.\<close>

lemma new_account_coherent:
  assumes "coherent (cached_principal uuid_of uuid_text now) load_principal db r"
    and "load_principal db i = None" "\<And>j. j \<noteq> i \<Longrightarrow> load_principal db' j = load_principal db j"
  shows "coherent (cached_principal uuid_of uuid_text now) load_principal db' (invalidate_principal up uuid_text i r)"
proof -
  have c: "coherent (cached_principal uuid_of uuid_text now) load_principal db' r"
    unfolding coherent_def
  proof (intro allI impI)
    fix k v assume k: "cached_principal uuid_of uuid_text now r k = Some v"
    then have "load_principal db k = Some v" by (rule principal_cache.hit [OF assms(1)])
    with assms(2,3) show "load_principal db' k = Some v" by (cases "k = i") auto
  qed
  then show ?thesis by (cases up) (auto intro: principal_cache.drop_coherent)
qed

end

lemma register_student_InrD:
  assumes "register_student lib cfg env up user_id student_id salt jti now db r p = (Inr u, db', r', mails)"
  shows "u = new_user user_id now (sr_email p) (lib_hash lib salt (sr_password p)) Role_student (sr_name p) (sr_phone p)
      User_pending_email"
    and "db' = add_student (new_student student_id user_id p) (add_user u (env db))" "db_ok db'" "db_ok (add_user u (env db))"
    and "r' = invalidate_principal up (lib_uuid_text lib) user_id r" "mails = [verification_mail lib jti now u]"
    and "email_domain (sr_email p) \<in> set (student_email_domains cfg)"
  using assms
  by (auto simp: register_student_def Let_def touched_new new_user_def
      dest!: insert_student_InrD split: if_splits sum.splits db_error.splits)

lemma register_helper_InrD:
  assumes "register_helper lib env up user_id helper_id salt now db r p = (Inr u, db', r')"
  shows "u = new_user user_id now (hr_email p) (lib_hash lib salt (hr_password p)) Role_helper (hr_name p) (hr_phone p)
      User_pending_approval"
    and "db' = add_helper (new_helper helper_id user_id) (add_user u (env db))" "db_ok db'" "db_ok (add_user u (env db))"
    and "r' = invalidate_principal up (lib_uuid_text lib) user_id r"
  using assms
  by (auto simp: register_helper_def Let_def touched_new new_user_def new_helper_def
      dest!: insert_helper_InrD split: if_splits sum.splits db_error.splits)

section \<open>From registration to the first request\<close>

lemma alive_until:
  assumes "t + second \<le> now + ttl"
  shows "token_alive t (token_claims jti now sub role ty ttl)"
proof -
  have "now + ttl < ((now + ttl) div second) * second + second" by simp
  with assms have "t < ((now + ttl) div second) * second" by linarith
  then show ?thesis by (simp add: token_alive_def token_claims_def doc_get_def)
qed

lemma created_token_subject:
  assumes "auth_libraries lib" "t + second \<le> now + ttl" "now \<le> t" "jti \<noteq> []"
  shows "token_subject lib t (create_token (lib_encode lib) jti now (lib_uuid_text lib i) role ty ttl) ty =
    Inr (token_claims jti now (lib_uuid_text lib i) role ty ttl, i)"
  using auth_libraries.created_subject [OF assms(1) alive_until [OF assms(2)] assms(3,4)] .

text \<open>A fresh access token opens every guard its holder's row satisfies.\<close>

lemma token_opens:
  assumes "auth_libraries lib" "t + second \<le> now + ttl" "now \<le> t" "jti \<noteq> []"
    and "coherent (cached_principal (lib_uuid_of lib) (lib_uuid_text lib) t) load_principal db r"
    and "redis_get r t (revoked_key (JStr jti)) = None"
    and "load_principal db i = Some q" "pp_status q = User_active" "check q = Inr q"
  shows "fst (authorize (lib_decode lib) (lib_uuid_of lib) (lib_uuid_text lib) up1 up2 up3 check t db r
    (create_token (lib_encode lib) jti now (lib_uuid_text lib i) role ''access'' ttl)) = Inr q"
proof -
  let ?token = "create_token (lib_encode lib) jti now (lib_uuid_text lib i) role ''access'' ttl"
  let ?c = "token_claims jti now (lib_uuid_text lib i) role ''access'' ttl"
  have s: "token_subject lib t ?token ''access'' = Inr (?c, i)"
    by (rule created_token_subject [OF assms(1-4)])
  note d = token_subject_InrD [OF s]
  have "doc_get ?c ''jti'' = JStr jti" by (simp add: token_claims_def doc_get_def)
  with d assms(6) have "get_access_claims (lib_decode lib) up1 t r ?token = Inr ?c"
    by (simp add: get_access_claims_def decode_token_def is_revoked_def)
  moreover obtain p r' where g: "get_principal_cached (lib_uuid_of lib) (lib_uuid_text lib) up2 up3 t db r i = (p, r')"
    by fastforce
  moreover have "p = Some q"
    using uuid_texts.principal_fresh [OF lib_texts [OF assms(1)] assms(5), of up2 up3 i] g assms(7) by simp
  ultimately show ?thesis using d assms(8,9) by (simp add: authorize_def get_principal_def)
qed

lemma registered:
  assumes "register_student lib cfg (\<lambda>d. d) up i j salt jti now db r p = (Inr u, db1, r1, mails)" "auth_libraries lib"
    and "coherent (cached_principal (lib_uuid_of lib) (lib_uuid_text lib) now) load_principal db r"
  shows "get_user db1 i = Some u" "find (\<lambda>x. us_email x = lower (sr_email p)) (db_users db1) = Some u" "db_ok db1"
    and "coherent (cached_principal (lib_uuid_of lib) (lib_uuid_text lib) now) load_principal db1 r1"
    and "us_id u = i" "us_email u = lower (sr_email p)" "us_name u = sr_name p" "us_role u = Role_student"
    "us_status u = User_pending_email" "us_password_hash u = lib_hash lib salt (sr_password p)"
    and "mails = [verification_mail lib jti now u]" "r1 = invalidate_principal up (lib_uuid_text lib) i r"
proof -
  note reg = register_student_InrD [OF assms(1)]
  show u: "us_id u = i" "us_email u = lower (sr_email p)" "us_name u = sr_name p" "us_role u = Role_student"
    "us_status u = User_pending_email" "us_password_hash u = lib_hash lib salt (sr_password p)"
    by (simp_all add: reg(1) new_user_def)
  note new = add_user_new [OF reg(4)]
  show "get_user db1 i = Some u" using new(2) [of i] u by (simp add: reg(2) add_student_def)
  show "find (\<lambda>x. us_email x = lower (sr_email p)) (db_users db1) = Some u"
    using new(3) u by (simp add: reg(2) add_student_def)
  have "load_principal db1 k = load_principal db k" if "k \<noteq> i" for k
    using load_add_user [OF reg(4)] that u(1) by (simp add: reg(2))
  then show "coherent (cached_principal (lib_uuid_of lib) (lib_uuid_text lib) now) load_principal db1 r1"
    unfolding reg(5)
    by (intro uuid_texts.new_account_coherent [OF lib_texts [OF assms(2)] assms(3)])
      (use load_None [OF new(1)] u(1) in auto)
qed (use register_student_InrD [OF assms(1)] in auto)

text \<open>A confirmation makes the account active and leaves no stale snapshot.\<close>

lemma confirmed:
  assumes "token_subject lib t link ''email_verify'' = Inr (c, i)" "get_user db i = Some u" "us_status u = User_pending_email"
    and "db_ok db" "auth_libraries lib"
    and "coherent (cached_principal (lib_uuid_of lib) (lib_uuid_text lib) t) load_principal db r"
  shows "verify_email lib True t db r link = (Inr (u\<lparr>us_status := User_active\<rparr>), put_user_status i User_active db,
      invalidate_principal True (lib_uuid_text lib) i r)"
    and "coherent (cached_principal (lib_uuid_of lib) (lib_uuid_text lib) t) load_principal (put_user_status i User_active db)
      (invalidate_principal True (lib_uuid_text lib) i r)"
    and "\<exists>q. load_principal (put_user_status i User_active db) i = Some q \<and> pp_status q = User_active \<and>
      pp_role q = us_role u \<and> pp_user_id q = i"
proof -
  have id: "us_id u = i" using assms(2) by (auto dest: row_get_SomeD)
  then show "verify_email lib True t db r link = (Inr (u\<lparr>us_status := User_active\<rparr>), put_user_status i User_active db,
      invalidate_principal True (lib_uuid_text lib) i r)"
    using assms(1-4) by (simp add: verify_email_def touched_new)
  show "coherent (cached_principal (lib_uuid_of lib) (lib_uuid_text lib) t) load_principal (put_user_status i User_active db)
      (invalidate_principal True (lib_uuid_text lib) i r)"
    using uuid_texts.moderated_coherent [OF lib_texts [OF assms(5)] assms(6), of i _ False True] assms(4)
    by (simp add: moderated_def load_put_user_status)
  show "\<exists>q. load_principal (put_user_status i User_active db) i = Some q \<and> pp_status q = User_active \<and>
      pp_role q = us_role u \<and> pp_user_id q = i"
    using assms(2) id by (simp add: load_put_user_status) (simp add: load_principal_def Let_def)
qed

text \<open>
  C3. The way in for a student works and has no short cut: a registration queues one mail to the
  address registered; until its link is followed no password signs the account in; followed
  within two days it makes the account active; the registered password then signs it in, and
  the access token it receives opens every student route, until it expires or is revoked, as
  that very account.
\<close>

theorem student_can_get_in:
  assumes "register_student lib cfg (\<lambda>d. d) up user_id student_id salt jti now db r p = (Inr u, db1, r1, mails)"
    and "auth_libraries lib" "jti \<noteq> []" "jti1 \<noteq> []"
    and "coherent (cached_principal (lib_uuid_of lib) (lib_uuid_text lib) now) load_principal db r"
    and "now \<le> t1" "t1 + second \<le> now + 2 * day" "t1 \<le> t2" "t2 \<le> t3"
    and "t3 + second \<le> t2 + access_token_ttl_min cfg * minute" "redis_get r t3 (revoked_key (JStr jti1)) = None"
  shows "\<exists>link. mails = [Verification_mail (lower (sr_email p)) (sr_name p) link] \<and>
    (\<forall>q a b t pair. login lib cfg a b t db1 (sr_email p) q \<noteq> Inr pair) \<and>
    (\<exists>u2 db2 r2 pair. verify_email lib True t1 db1 r1 link = (Inr u2, db2, r2) \<and> us_status u2 = User_active \<and>
       login lib cfg jti1 jti2 t2 db2 (sr_email p) (sr_password p) = Inr pair \<and>
       (\<exists>q. fst (authorize (lib_decode lib) (lib_uuid_of lib) (lib_uuid_text lib) upa upb upc require_student t3 db2 r2
           (tp_access_token pair)) = Inr q \<and> pp_user_id q = user_id))"
proof -
  note reg = registered [OF assms(1,2,5)]
  let ?link = "create_email_verify_token (lib_encode lib) jti now (lib_uuid_text lib user_id) Role_student"
  have mails: "mails = [Verification_mail (lower (sr_email p)) (sr_name p) ?link]"
    by (simp add: reg verification_mail_def)
  have no: "login lib cfg a b t db1 (sr_email p) q \<noteq> Inr pair" for q a b t pair
    using login_after [OF reg(2) lib_verify_hash [OF assms(2), of q salt "sr_password p", folded reg(10)]] reg(9) by auto
  have co1: "coherent (cached_principal (lib_uuid_of lib) (lib_uuid_text lib) t1) load_principal db1 r1"
    by (rule principals_later [OF reg(4) assms(6)])
  have "token_subject lib t1 ?link ''email_verify'' =
      Inr (token_claims jti now (lib_uuid_text lib user_id) Role_student ''email_verify'' (2 * day), user_id)"
    unfolding create_email_verify_token_def EMAIL_VERIFY_TTL_def
    using created_token_subject [OF assms(2) assms(7) assms(6,3)] .
  note v = confirmed [OF this reg(1,9,3) assms(2) co1]
  let ?db2 = "put_user_status user_id User_active db1" and ?r2 = "invalidate_principal True (lib_uuid_text lib) user_id r1"
  have f2: "find (\<lambda>x. us_email x = lower (sr_email p)) (db_users ?db2) = Some (u\<lparr>us_status := User_active\<rparr>)"
    using email_edit [OF reg(3,1), of "sr_email p" "\<lambda>u. u\<lparr>us_status := User_active\<rparr>"] reg(6)
    by (simp add: put_user_status_def)
  have l: "login lib cfg jti1 jti2 t2 ?db2 (sr_email p) (sr_password p) =
      Inr (issue_pair lib cfg jti1 jti2 t2 (u\<lparr>us_status := User_active\<rparr>))"
    using login_after [OF f2] lib_verify_hash [OF assms(2), of "sr_password p" salt "sr_password p"] reg(10) by simp
  have co: "coherent (cached_principal (lib_uuid_of lib) (lib_uuid_text lib) t3) load_principal ?db2 ?r2"
    by (rule principals_later [OF v(2)]) (use assms(8,9) in linarith)
  obtain q where q: "load_principal ?db2 user_id = Some q" "pp_status q = User_active" "pp_role q = Role_student"
      "pp_user_id q = user_id" using v(3) reg(8) by auto
  have "redis_get ?r2 t3 (revoked_key (JStr jti1)) = None" using assms(11) by (simp add: reg(12))
  from token_opens [OF assms(2) assms(10,9,4) co this q(1,2), of require_student upa upb upc Role_student] q
  have "fst (authorize (lib_decode lib) (lib_uuid_of lib) (lib_uuid_text lib) upa upb upc require_student t3 ?db2 ?r2
      (tp_access_token (issue_pair lib cfg jti1 jti2 t2 (u\<lparr>us_status := User_active\<rparr>)))) = Inr q"
    by (simp add: issue_pair_def create_access_token_def reg(5,8) require_student_def guard_def is_active_def)
  with mails no v(1) l q(4) show ?thesis by fastforce
qed

definition demo_signup :: student_register where
  "demo_signup = \<lparr>sr_email = ''New@ulab.edu.bd'', sr_password = ''s3cret-pw'', sr_name = ''new'',
     sr_student_id_no = ''2024-7'', sr_department = None, sr_batch = None, sr_phone = None\<rparr>"

definition demo_new_user :: user where
  "demo_new_user = new_user 5 demo_now ''New@ulab.edu.bd'' (lib_hash demo_lib 2 ''s3cret-pw'') Role_student ''new'' None
     User_pending_email"

lemma demo_domain: "email_domain ''New@ulab.edu.bd'' \<in> set (student_email_domains demo_settings)"
  by code_simp

lemma demo_new_email: "lower ''New@ulab.edu.bd'' = ''new@ulab.edu.bd''"
  by code_simp

lemma demo_registers:
  "\<exists>db' r' mails. register_student demo_lib demo_settings (\<lambda>d. d) True 5 15 2 ''j8'' demo_now demo_db empty_redis demo_signup
     = (Inr demo_new_user, db', r', mails)"
proof -
  have ok: "db_ok (add_user demo_new_user demo_db)"
    "db_ok (add_student (new_student 15 5 demo_signup) (add_user demo_new_user demo_db))"
    by (simp_all add: db_ok_defs demo_defs unique_on_def fk_opt_def add_user_def add_student_def demo_new_user_def
        new_user_def new_student_def demo_signup_def demo_new_email)
  moreover have "user_fits demo_new_user" "student_fits (new_student 15 5 demo_signup)"
    by (simp_all add: user_fits_def student_fits_def demo_new_user_def new_user_def new_student_def demo_signup_def
        fits_def demo_new_email demo_lib_def unary_text_def)
  ultimately have ins: "insert_student demo_new_user (new_student 15 5 demo_signup) demo_db =
      Inr (add_student (new_student 15 5 demo_signup) (add_user demo_new_user demo_db))"
    by (simp add: insert_student_def insert_user_def)
  have "user_by_email demo_db ''New@ulab.edu.bd'' = None" "\<not> student_id_taken demo_db ''2024-7''"
    by (simp_all add: user_by_email_def student_id_taken_def demo_new_email demo_defs)
  moreover have "new_user 5 demo_now (sr_email demo_signup) (lib_hash demo_lib 2 (sr_password demo_signup)) Role_student
      (sr_name demo_signup) (sr_phone demo_signup) User_pending_email = demo_new_user"
    by (simp add: demo_new_user_def demo_signup_def)
  moreover have "sr_email demo_signup = ''New@ulab.edu.bd''" "sr_student_id_no demo_signup = ''2024-7''"
    by (simp_all add: demo_signup_def)
  ultimately show ?thesis using ins demo_domain by (simp add: register_student_def)
qed

text \<open>One student, an hour to the mail, a minute to the first request.\<close>

theorem student_can_get_in_witness:
  "\<exists>u db1 r1 link db2 r2 u2 pair q. register_student demo_lib demo_settings (\<lambda>d. d) True 5 15 2 ''j8'' demo_now demo_db
       empty_redis demo_signup = (Inr u, db1, r1, [Verification_mail ''new@ulab.edu.bd'' ''new'' link]) \<and>
     verify_email demo_lib True (demo_now + hour) db1 r1 link = (Inr u2, db2, r2) \<and>
     login demo_lib demo_settings ''j9'' ''j10'' (demo_now + hour) db2 ''New@ulab.edu.bd'' ''s3cret-pw'' = Inr pair \<and>
     fst (authorize count_decode unary_of unary_text True True True require_student (demo_now + hour + minute) db2 r2
       (tp_access_token pair)) = Inr q \<and> pp_user_id q = 5"
proof -
  obtain db1 r1 mails where reg: "register_student demo_lib demo_settings (\<lambda>d. d) True 5 15 2 ''j8'' demo_now demo_db
      empty_redis demo_signup = (Inr demo_new_user, db1, r1, mails)" using demo_registers by blast
  have none: "redis_get empty_redis (demo_now + hour + minute) (revoked_key (JStr ''j9'')) = None"
    by (simp add: redis_get_def empty_redis_def)
  have co: "coherent (cached_principal (lib_uuid_of demo_lib) (lib_uuid_text demo_lib) demo_now) load_principal demo_db empty_redis"
    by (rule principals_empty)
  have ttl: "demo_now + hour + minute + second \<le> demo_now + hour + access_token_ttl_min demo_settings * minute"
    by (simp add: demo_settings_def)
  from student_can_get_in [OF reg demo_auth.auth_libraries_axioms _ _ co _ _ _ _ ttl none, where upa = True and upb = True and upc = True
      and ?t1.0 = "demo_now + hour" and ?jti2.0 = "''j10''"] reg
  show ?thesis by (simp add: demo_signup_def demo_new_email) blast
qed

section \<open>The machine of accounts\<close>

text \<open>
  The world the calls run in, and one step for every call that writes a user, a helper or a
  key of Redis the guards read, each with whatever part of Redis out. A moderation is made by
  whoever \<open>require_admin\<close> lets through. With \<open>lossy\<close> a moderation may find Redis out at both of
  its deletions, and a confirmation at its one; without it, one deletion of each gets through.
\<close>

record world =
  w_db :: database
  w_redis :: redis
  w_now :: instant

definition world_of :: "instant \<Rightarrow> database \<Rightarrow> redis \<Rightarrow> world" where
  "world_of now db r = \<lparr>w_db = db, w_redis = r, w_now = now\<rparr>"

inductive api_step :: "bool \<Rightarrow> auth_lib \<Rightarrow> world \<Rightarrow> world \<Rightarrow> bool" for lossy lib where
  clock: "now \<le> later \<Longrightarrow> api_step lossy lib (world_of now db r) (world_of later db r)"
| request: "authorize (lib_decode lib) (lib_uuid_of lib) (lib_uuid_text lib) up1 up2 up3 check now db r token = (answer, r') \<Longrightarrow>
    api_step lossy lib (world_of now db r) (world_of now db r')"
| signup_student: "register_student lib cfg (\<lambda>d. d) up i j salt jti now db r p = (answer, db', r', mails) \<Longrightarrow>
    api_step lossy lib (world_of now db r) (world_of now db' r')"
| signup_helper: "register_helper lib (\<lambda>d. d) up i j salt now db r q = (answer, db', r') \<Longrightarrow>
    api_step lossy lib (world_of now db r) (world_of now db' r')"
| confirm: "verify_email lib up now db r token = (answer, db', r') \<Longrightarrow> lossy \<or> up \<Longrightarrow>
    api_step lossy lib (world_of now db r) (world_of now db' r')"
| forgot: "forgot_password lib up jti now db r email = (text, r', mails) \<Longrightarrow>
    api_step lossy lib (world_of now db r) (world_of now db r')"
| reset: "reset_password lib up1 up2 up3 salt now db r token password = (done_or_not, db', r') \<Longrightarrow>
    api_step lossy lib (world_of now db r) (world_of now db' r')"
| renew: "refresh lib cfg up1 up2 up3 up4 up5 jti1 jti2 now db r token = (pair, r') \<Longrightarrow>
    api_step lossy lib (world_of now db r) (world_of now db r')"
| sign_out: "logout lib up1 up2 up3 now r access rt = (out, r') \<Longrightarrow>
    api_step lossy lib (world_of now db r) (world_of now db r')"
| edit_profile: "update_me lib up db r self name phone = (profile, db', r') \<Longrightarrow>
    api_step lossy lib (world_of now db r) (world_of now db' r')"
| approve: "fst (authorize (lib_decode lib) (lib_uuid_of lib) (lib_uuid_text lib) upa upb upc require_admin now db r token)
      = Inr admin \<Longrightarrow>
    approve_helper up1 up2 (lib_uuid_text lib) db r admin k = (helper_answer, db', r') \<Longrightarrow> lossy \<or> up1 \<or> up2 \<Longrightarrow>
    api_step lossy lib (world_of now db r) (world_of now db' r')"
| suspend: "fst (authorize (lib_decode lib) (lib_uuid_of lib) (lib_uuid_text lib) upa upb upc require_admin now db r token)
      = Inr admin \<Longrightarrow>
    suspend_user up1 up2 (lib_uuid_text lib) db r admin i = (done_or_not, db', r') \<Longrightarrow> lossy \<or> up1 \<or> up2 \<Longrightarrow>
    api_step lossy lib (world_of now db r) (world_of now db' r')"
| reinstate: "fst (authorize (lib_decode lib) (lib_uuid_of lib) (lib_uuid_text lib) upa upb upc require_admin now db r token)
      = Inr admin \<Longrightarrow>
    reinstate_user up1 up2 (lib_uuid_text lib) db r i = (status_answer, db', r') \<Longrightarrow> lossy \<or> up1 \<or> up2 \<Longrightarrow>
    api_step lossy lib (world_of now db r) (world_of now db' r')"

inductive_cases api_stepE: "api_step lossy lib w w'"

abbreviation account_step :: "auth_lib \<Rightarrow> world \<Rightarrow> world \<Rightarrow> bool" where
  "account_step \<equiv> api_step True"

definition account_inv :: "auth_lib \<Rightarrow> world \<Rightarrow> bool" where
  "account_inv lib w \<longleftrightarrow> db_ok (w_db w) \<and>
     coherent (cached_principal (lib_uuid_of lib) (lib_uuid_text lib) (w_now w)) load_principal (w_db w) (w_redis w)"

text \<open>No account changes its role or its address, and no new one is an administrator's.\<close>

definition role_safe :: "database \<Rightarrow> database \<Rightarrow> bool" where
  "role_safe db db' \<longleftrightarrow>
     (\<forall>i a. get_user db i = Some a \<longrightarrow> (\<exists>b. get_user db' i = Some b \<and> us_role b = us_role a \<and> us_email b = us_email a)) \<and>
     (\<forall>i b. get_user db' i = Some b \<longrightarrow> get_user db i = None \<longrightarrow> us_role b \<noteq> Role_admin)"

lemma role_safe_users: "db_users db' = db_users db \<Longrightarrow> role_safe db db'"
  by (simp add: role_safe_def)

lemma role_safe_trans: "role_safe a b \<Longrightarrow> role_safe b c \<Longrightarrow> role_safe a c"
proof -
  assume ab: "role_safe a b" and bc: "role_safe b c"
  have "us_role u \<noteq> Role_admin" if u: "get_user c i = Some u" and new: "get_user a i = None" for i u
  proof (cases "get_user b i")
    case None
    with u bc show ?thesis by (simp add: role_safe_def)
  next
    case (Some v)
    with ab new have "us_role v \<noteq> Role_admin" by (simp add: role_safe_def)
    moreover from bc Some u have "us_role u = us_role v" by (force simp: role_safe_def)
    ultimately show ?thesis by simp
  qed
  with ab bc show "role_safe a c" unfolding role_safe_def by (intro conjI allI impI) (force, blast)
qed

lemma role_safe_edit:
  assumes "\<And>u. us_id (g u) = us_id u" "\<And>u. us_role (g u) = us_role u" "\<And>u. us_email (g u) = us_email u"
    and "db_users db' = row_edit us_id i g (db_users db)"
  shows "role_safe db db'"
  using assms by (auto simp: role_safe_def row_get_row_edit split: if_splits)

lemma role_safe_add:
  assumes "db_ok (add_user u db)" "us_role u \<noteq> Role_admin" "db_users db' = db_users (add_user u db)"
  shows "role_safe db db'"
  using add_user_new [OF assms(1)] assms(2,3) by (auto simp: role_safe_def split: if_splits)

text \<open>What one step guarantees, and, where nothing was lost (\<open>fine\<close>), of the snapshots too.\<close>

definition good_step :: "auth_lib \<Rightarrow> bool \<Rightarrow> instant \<Rightarrow> database \<Rightarrow> database \<Rightarrow> redis \<Rightarrow> bool" where
  "good_step lib fine now db db' r' \<longleftrightarrow> db_ok db' \<and> role_safe db db' \<and>
     (fine \<longrightarrow> coherent (cached_principal (lib_uuid_of lib) (lib_uuid_text lib) now) load_principal db' r')"

lemma good_stay:
  assumes "db_ok db" "fine \<Longrightarrow> coherent (cached_principal (lib_uuid_of lib) (lib_uuid_text lib) now) load_principal db r"
  shows "good_step lib fine now db db r"
  using assms by (simp add: good_step_def role_safe_users)

text \<open>Keys of other kinds do not disturb the snapshots.\<close>

lemma same_snapshots:
  assumes "\<And>i. redis_get r' now (principal_key (uuid_text i)) = redis_get r now (principal_key (uuid_text i))"
    and "coherent (cached_principal uuid_of uuid_text now) load_principal db r"
  shows "coherent (cached_principal uuid_of uuid_text now) load_principal db r'"
  using assms(2) by (simp add: coherent_def cached_principal_def assms(1))

lemma principal_keys [simp]:
  "principal_key a \<noteq> revoked_key b" "principal_key a \<noteq> rotated_key b" "principal_key a \<noteq> ''reset:'' @ c"
  by (simp_all add: principal_key_def revoked_key_def rotated_key_def)

lemma snapshot_revoke [simp]:
  "redis_get (revoke up now c r) t (principal_key k) = redis_get r t (principal_key k)"
  by (rule redis_get_revoke_other) simp

lemma snapshot_finish:
  "refresh_finish up3 up4 up5 now r c pair = (answer, r') \<Longrightarrow>
     redis_get r' t (principal_key k) = redis_get r t (principal_key k)"
  by (auto simp: refresh_finish_def claim_rotation_def redis_set_nx_def
      split: option.splits if_splits sum.splits prod.splits)

lemma snapshot_forgot:
  "forgot_password lib up jti now db r email = (text, r', mails) \<Longrightarrow>
     redis_get r' t (principal_key k) = redis_get r t (principal_key k)"
  by (auto simp: forgot_password_def claim_reset_def claim_slot_def redis_set_nx_def Let_def
      split: option.splits if_splits prod.splits simp del: append_Cons)

lemma snapshot_logout:
  "logout lib up1 up2 up3 now r access rt = (out, r') \<Longrightarrow>
     redis_get r' t (principal_key k) = redis_get r t (principal_key k)"
  by (auto simp: logout_def Let_def split: sum.splits option.splits if_splits)

context uuid_texts
begin

lemma drop_snapshot:
  "coherent (cached_principal uuid_of uuid_text now) load_principal db r \<Longrightarrow>
     coherent (cached_principal uuid_of uuid_text now) load_principal db (invalidate_principal True uuid_text i r)"
  by (rule principal_cache.drop_coherent)

lemma authorize_keeps:
  assumes "coherent (cached_principal uuid_of uuid_text now) load_principal db r"
    and "authorize dec uuid_of uuid_text up1 up2 up3 check now db r token = (answer, r')"
  shows "coherent (cached_principal uuid_of uuid_text now) load_principal db r'"
proof -
  have "coherent (cached_principal uuid_of uuid_text now) load_principal db
      (snd (get_principal uuid_of uuid_text up2 up3 now db r claims))" for claims
    using principal_kept [OF assms(1), of up2 up3] assms(1)
    by (auto simp: get_principal_def split: sum.split prod.split option.split) (metis snd_conv)+
  with assms show ?thesis
    by (auto simp: authorize_def split: sum.splits prod.splits) (metis snd_conv)+
qed

end

lemma load_edit_same:
  assumes "\<And>u. us_id (g u) = us_id u" "\<And>u. us_role (g u) = us_role u" "\<And>u. us_status (g u) = us_status u"
  shows "load_principal (db\<lparr>db_users := row_edit us_id i g (db_users db)\<rparr>) = load_principal db"
proof
  fix j
  show "load_principal (db\<lparr>db_users := row_edit us_id i g (db_users db)\<rparr>) j = load_principal db j"
    by (cases "get_user db j")
      (simp_all add: load_principal_def row_get_row_edit assms helper_by_user_id_def)
qed

lemma moderation_good:
  assumes "moderated i db db'" "fine \<Longrightarrow> up1 \<or> up2" "role_safe db db'" "auth_libraries lib"
    and "fine \<Longrightarrow> coherent (cached_principal (lib_uuid_of lib) (lib_uuid_text lib) now) load_principal db r"
  shows "good_step lib fine now db db' (drop_twice up1 up2 (lib_uuid_text lib) i r)"
  using uuid_texts.moderated_coherent [OF lib_texts [OF assms(4)] assms(5) assms(1,2)] assms(1,3)
  by (simp add: good_step_def moderated_def)

lemma suspend_users:
  "suspend_user up1 up2 uuid_text db r admin i = (answer, db', r') \<Longrightarrow>
     answer \<noteq> Inr () \<and> db' = db \<and> r' = r \<or>
     answer = Inr () \<and> db_users db' = row_edit us_id i (\<lambda>u. u\<lparr>us_status := User_suspended\<rparr>) (db_users db)"
  by (auto simp: suspend_user_def put_user_status_def put_helper_status_def Let_def
      split: if_splits option.splits sum.splits)

lemma reinstate_users:
  "reinstate_user up1 up2 uuid_text db r i = (answer, db', r') \<Longrightarrow>
     (\<exists>e. answer = Inl e) \<and> db' = db \<and> r' = r \<or>
     (\<exists>out. answer = Inr out) \<and> db_users db' = row_edit us_id i (\<lambda>u. u\<lparr>us_status := User_active\<rparr>) (db_users db)"
  by (auto simp: reinstate_user_def put_user_status_def put_helper_status_def Let_def
      split: if_splits option.splits sum.splits)

lemma approve_users:
  "approve_helper up1 up2 uuid_text db r admin k = (answer, db', r') \<Longrightarrow>
     (\<exists>e. answer = Inl e) \<and> db' = db \<and> r' = r \<or> (\<exists>out. answer = Inr out)"
  by (auto simp: approve_helper_def Let_def split: if_splits option.splits sum.splits)

lemma verify_cases:
  "verify_email lib up now db r token = (answer, db', r') \<Longrightarrow>
     db' = db \<and> r' = r \<or> (\<exists>i. db' = put_user_status i User_active db \<and> db_ok db' \<and>
       r' = invalidate_principal up (lib_uuid_text lib) i r)"
  by (auto simp: verify_email_def touched_new dest!: row_get_SomeD split: sum.splits option.splits if_splits)

lemma reset_cases:
  "reset_password lib up1 up2 up3 salt now db r token pw = (answer, db', r') \<Longrightarrow>
     db' = db \<and> r' = r \<or> (\<exists>i h c. db' = put_password i h db \<and> db_ok db' \<and>
       r' = invalidate_principal up3 (lib_uuid_text lib) i (revoke up2 now c r))"
  by (auto simp: reset_password_def touched_new dest!: row_get_SomeD split: sum.splits option.splits if_splits) blast+

lemma profile_cases:
  "update_me lib up db r p name phone = (answer, db', r') \<Longrightarrow>
     db' = db \<and> r' = r \<or> (\<exists>i. db' = db\<lparr>db_users := row_edit us_id i (profile_edit name phone) (db_users db)\<rparr> \<and>
       db_ok db' \<and> (r' = r \<or> r' = invalidate_principal up (lib_uuid_text lib) i r))"
  by (auto simp: update_me_def get_current_user_def touched_new dest!: row_get_SomeD
      split: sum.splits option.splits if_splits)

lemma refresh_snapshot:
  "refresh lib cfg up1 up2 up3 up4 up5 jti1 jti2 now db r token = (answer, r') \<Longrightarrow>
     redis_get r' t (principal_key k) = redis_get r t (principal_key k)"
  by (auto simp: refresh_def dest: snapshot_finish split: sum.splits prod.splits)

lemma invalidate_same:
  assumes "auth_libraries lib" "load_principal db' = load_principal db"
    and "coherent (cached_principal (lib_uuid_of lib) (lib_uuid_text lib) now) load_principal db r"
  shows "coherent (cached_principal (lib_uuid_of lib) (lib_uuid_text lib) now) load_principal db'
    (invalidate_principal up (lib_uuid_text lib) i r)"
proof -
  have "coherent (cached_principal (lib_uuid_of lib) (lib_uuid_text lib) now) load_principal db' r"
    using assms(2,3) by (simp add: coherent_def)
  then show ?thesis
    by (cases up) (auto intro: uuid_texts.drop_snapshot [OF lib_texts [OF assms(1)]])
qed


lemma step_good:
  assumes "api_step lossy lib w w'" "db_ok (w_db w)" "auth_libraries lib" "fine \<Longrightarrow> \<not> lossy \<and> account_inv lib w"
  shows "good_step lib fine (w_now w') (w_db w) (w_db w') (w_redis w')"
  using assms(1)
proof (cases rule: api_step.cases)
  case (clock now later db r)
  with assms(2,4) show ?thesis
    by (auto simp: world_of_def account_inv_def intro!: good_stay dest: principals_later)
next
  case (request up1 up2 up3 check now db r token answer r')
  with assms(2,4) show ?thesis
    by (auto simp: world_of_def account_inv_def intro!: good_stay
        intro: uuid_texts.authorize_keeps [OF lib_texts [OF assms(3)]])
next
  case (signup_student cfg up i j salt jti now db r p answer db' r' mails)
  with assms(2,4) have inv: "db_ok db"
    "fine \<Longrightarrow> coherent (cached_principal (lib_uuid_of lib) (lib_uuid_text lib) now) load_principal db r"
    by (simp_all add: world_of_def account_inv_def)
  show ?thesis
  proof (cases answer)
    case (Inl e)
    then have "db' = db \<and> r' = r" using signup_student(3)
      by (auto simp: register_student_def Let_def split: if_splits sum.splits db_error.splits)
    with signup_student good_stay [OF inv] show ?thesis by (simp add: world_of_def)
  next
    case (Inr u)
    note reg = register_student_InrD [OF signup_student(3) [unfolded Inr]]
    have u: "us_id u = i" "us_role u = Role_student" by (simp_all add: reg(1) new_user_def)
    have "coherent (cached_principal (lib_uuid_of lib) (lib_uuid_text lib) now) load_principal db' r'" if fine
      unfolding reg(5) by (rule uuid_texts.new_account_coherent [OF lib_texts [OF assms(3)] inv(2) [OF that]])
        (use load_None [OF add_user_new(1) [OF reg(4)]] load_add_user [OF reg(4)] u reg(2) in auto)
    moreover have "role_safe db db'" by (rule role_safe_add [OF reg(4)]) (simp_all add: u reg(2))
    ultimately show ?thesis using signup_student reg(3) by (simp add: world_of_def good_step_def)
  qed
next
  case (signup_helper up i j salt now db r q answer db' r')
  with assms(2,4) have inv: "db_ok db"
    "fine \<Longrightarrow> coherent (cached_principal (lib_uuid_of lib) (lib_uuid_text lib) now) load_principal db r"
    by (simp_all add: world_of_def account_inv_def)
  show ?thesis
  proof (cases answer)
    case (Inl e)
    then have "db' = db \<and> r' = r" using signup_helper(3)
      by (auto simp: register_helper_def Let_def split: if_splits sum.splits db_error.splits)
    with signup_helper good_stay [OF inv] show ?thesis by (simp add: world_of_def)
  next
    case (Inr u)
    note reg = register_helper_InrD [OF signup_helper(3) [unfolded Inr]]
    have u: "us_id u = i" "us_role u = Role_helper" by (simp_all add: reg(1) new_user_def)
    have "coherent (cached_principal (lib_uuid_of lib) (lib_uuid_text lib) now) load_principal db' r'" if fine
      unfolding reg(5) by (rule uuid_texts.new_account_coherent [OF lib_texts [OF assms(3)] inv(2) [OF that]])
        (use load_None [OF add_user_new(1) [OF reg(4)]] load_add_user [OF reg(4)] u reg(2) in
          \<open>auto simp: load_add_helper new_helper_def\<close>)
    moreover have "role_safe db db'"
      by (rule role_safe_add [OF reg(4)]) (simp_all add: u reg(2) add_helper_def)
    ultimately show ?thesis using signup_helper reg(3) by (simp add: world_of_def good_step_def)
  qed
next
  case (confirm up now db r token answer db' r')
  with assms(2,4) have inv: "db_ok db"
    "fine \<Longrightarrow> coherent (cached_principal (lib_uuid_of lib) (lib_uuid_text lib) now) load_principal db r"
    by (simp_all add: world_of_def account_inv_def)
  from verify_cases [OF confirm(3)] consider "db' = db" "r' = r"
    | i where "db' = put_user_status i User_active db" "db_ok db'" "r' = invalidate_principal up (lib_uuid_text lib) i r"
    by blast
  then have "good_step lib fine now db db' r'"
  proof cases
    case (2 i)
    have "moderated i db db'" using 2 by (simp add: moderated_def load_put_user_status)
    moreover have "role_safe db db'"
      by (rule role_safe_edit [of "\<lambda>u. u\<lparr>us_status := User_active\<rparr>" _ i]) (simp_all add: 2(1) put_user_status_def)
    ultimately show ?thesis
      using moderation_good [of i db db' fine False up lib now r] assms(3,4) confirm(4) inv(2) 2(3) by auto
  qed (use good_stay [OF inv] in simp)
  with confirm show ?thesis by (simp add: world_of_def)
next
  case (forgot up jti now db r email msg r' mails)
  with assms(2,4) show ?thesis
    by (auto simp: world_of_def account_inv_def intro!: good_stay intro: same_snapshots [OF snapshot_forgot])
next
  case (reset up1 up2 up3 salt now db r token password answer db' r')
  with assms(2,4) have inv: "db_ok db"
    "fine \<Longrightarrow> coherent (cached_principal (lib_uuid_of lib) (lib_uuid_text lib) now) load_principal db r"
    by (simp_all add: world_of_def account_inv_def)
  from reset_cases [OF reset(3)] consider "db' = db" "r' = r"
    | i h c where "db' = put_password i h db" "db_ok db'" "r' = invalidate_principal up3 (lib_uuid_text lib) i (revoke up2 now c r)"
    by blast
  then have "good_step lib fine now db db' r'"
  proof cases
    case (2 i h c)
    have "coherent (cached_principal (lib_uuid_of lib) (lib_uuid_text lib) now) load_principal db (revoke up2 now c r)" if fine
      by (rule same_snapshots [OF _ inv(2) [OF that]]) simp
    then have "coherent (cached_principal (lib_uuid_of lib) (lib_uuid_text lib) now) load_principal db' r'" if fine
      unfolding 2(3) using that
      by (intro invalidate_same [OF assms(3)]) (simp_all add: 2(1) put_password_def load_edit_same)
    moreover have "role_safe db db'"
      by (rule role_safe_edit [of "\<lambda>u. u\<lparr>us_password_hash := h\<rparr>" _ i]) (simp_all add: 2(1) put_password_def)
    ultimately show ?thesis using 2(2) by (simp add: good_step_def)
  qed (use good_stay [OF inv] in simp)
  with reset show ?thesis by (simp add: world_of_def)
next
  case (renew cfg up1 up2 up3 up4 up5 jti1 jti2 now db r token pair r')
  with assms(2,4) show ?thesis
    by (auto simp: world_of_def account_inv_def intro!: good_stay intro: same_snapshots [OF refresh_snapshot])
next
  case (sign_out up1 up2 up3 now r access rt out r' db)
  with assms(2,4) show ?thesis
    by (auto simp: world_of_def account_inv_def intro!: good_stay intro: same_snapshots [OF snapshot_logout])
next
  case (edit_profile up db r self name phone profile db' r' now)
  with assms(2,4) have inv: "db_ok db"
    "fine \<Longrightarrow> coherent (cached_principal (lib_uuid_of lib) (lib_uuid_text lib) now) load_principal db r"
    by (simp_all add: world_of_def account_inv_def)
  from profile_cases [OF edit_profile(3)] consider "db' = db" "r' = r"
    | i where "db' = db\<lparr>db_users := row_edit us_id i (profile_edit name phone) (db_users db)\<rparr>" "db_ok db'"
      "r' = r \<or> r' = invalidate_principal up (lib_uuid_text lib) i r"
    by blast
  then have "good_step lib fine now db db' r'"
  proof cases
    case (2 i)
    have same: "load_principal db' = load_principal db" by (simp add: 2(1) load_edit_same profile_edit_def)
    have "coherent (cached_principal (lib_uuid_of lib) (lib_uuid_text lib) now) load_principal db' r'" if fine
      using 2(3) invalidate_same [OF assms(3) same inv(2) [OF that]] inv(2) [OF that] same by (auto simp: coherent_def)
    moreover have "role_safe db db'"
      by (rule role_safe_edit [of "profile_edit name phone" _ i]) (simp_all add: 2(1) profile_edit_def)
    ultimately show ?thesis using 2(2) by (simp add: good_step_def)
  qed (use good_stay [OF inv] in simp)
  with edit_profile show ?thesis by (simp add: world_of_def)
next
  case (approve upa upb upc now db r token admin up1 up2 k answer db' r')
  with assms(2,4) have inv: "db_ok db"
    "fine \<Longrightarrow> coherent (cached_principal (lib_uuid_of lib) (lib_uuid_text lib) now) load_principal db r"
    by (simp_all add: world_of_def account_inv_def)
  show ?thesis
  proof (cases answer)
    case (Inl e)
    with approve approve_users [OF approve(4)] good_stay [OF inv] show ?thesis by (simp add: world_of_def)
  next
    case (Inr out)
    obtain h where "get_helper db k = Some h" "hp_status h \<noteq> Helper_approved" and h: "moderated (hp_user_id h) db db'"
      "r' = drop_twice up1 up2 (lib_uuid_text lib) (hp_user_id h) r"
      "db' = put_user_status (hp_user_id h) User_active (put_approval k (pp_user_id admin) db)"
      by (rule approve_spec [OF approve(4) [unfolded Inr] inv(1)])
    have up: "fine \<Longrightarrow> up1 \<or> up2" using assms(4) approve(5) by blast
    have "role_safe db db'"
      by (rule role_safe_edit [of "\<lambda>u. u\<lparr>us_status := User_active\<rparr>" _ "hp_user_id h"])
        (simp_all add: h(3) put_user_status_def put_approval_def)
    from moderation_good [OF h(1) up this assms(3) inv(2)] approve h(2) show ?thesis
      by (simp add: world_of_def)
  qed
next
  case (suspend upa upb upc now db r token admin up1 up2 i answer db' r')
  with assms(2,4) have inv: "db_ok db"
    "fine \<Longrightarrow> coherent (cached_principal (lib_uuid_of lib) (lib_uuid_text lib) now) load_principal db r"
    by (simp_all add: world_of_def account_inv_def)
  from suspend_users [OF suspend(4)] consider "db' = db" "r' = r"
    | "answer = Inr ()" "db_users db' = row_edit us_id i (\<lambda>u. u\<lparr>us_status := User_suspended\<rparr>) (db_users db)" by blast
  then have "good_step lib fine now db db' r'"
  proof cases
    case 2
    note s = suspend_spec [OF suspend(4) [unfolded 2(1)] inv(1)]
    have up: "fine \<Longrightarrow> up1 \<or> up2" using assms(4) suspend(5) by blast
    have "role_safe db db'" by (rule role_safe_edit [OF _ _ _ 2(2)]) simp_all
    from moderation_good [OF s(1) up this assms(3) inv(2)] show ?thesis by (simp add: s(2))
  qed (use good_stay [OF inv] in simp)
  with suspend show ?thesis by (simp add: world_of_def)
next
  case (reinstate upa upb upc now db r token admin up1 up2 i answer db' r')
  with assms(2,4) have inv: "db_ok db"
    "fine \<Longrightarrow> coherent (cached_principal (lib_uuid_of lib) (lib_uuid_text lib) now) load_principal db r"
    by (simp_all add: world_of_def account_inv_def)
  from reinstate_users [OF reinstate(4)] consider "db' = db" "r' = r"
    | out where "answer = Inr out" "db_users db' = row_edit us_id i (\<lambda>u. u\<lparr>us_status := User_active\<rparr>) (db_users db)" by blast
  then have "good_step lib fine now db db' r'"
  proof cases
    case (2 out)
    note s = reinstate_spec [OF reinstate(4) [unfolded 2(1)] inv(1)]
    have up: "fine \<Longrightarrow> up1 \<or> up2" using assms(4) reinstate(5) by blast
    have "role_safe db db'" by (rule role_safe_edit [OF _ _ _ 2(2)]) simp_all
    from moderation_good [OF s(1) up this assms(3) inv(2)] show ?thesis by (simp add: s(2))
  qed (use good_stay [OF inv] in simp)
  with reinstate show ?thesis by (simp add: world_of_def)
qed

text \<open>
  Two machines, one relation: whatever is lost, the constraints hold; where every moderation gets
  a deletion through, the snapshots tell the truth as well.
\<close>

sublocale auth_libraries \<subseteq> calls: guarded_machine "account_step lib" "\<lambda>w. db_ok (w_db w)"
proof
  fix w w' assume "account_step lib w w'" "db_ok (w_db w)"
  then have "good_step lib False (w_now w') (w_db w) (w_db w') (w_redis w')"
    by (rule step_good [OF _ _ auth_libraries_axioms]) simp
  then show "db_ok (w_db w')" by (simp add: good_step_def)
qed

sublocale auth_libraries \<subseteq> accounts: guarded_machine "api_step False lib" "account_inv lib"
proof
  fix w w' assume s: "api_step False lib w w'" and i: "account_inv lib w"
  have "db_ok (w_db w)" using i by (simp add: account_inv_def)
  from s this auth_libraries_axioms have "good_step lib True (w_now w') (w_db w) (w_db w') (w_redis w')"
    by (rule step_good) (simp add: i)
  then show "account_inv lib w'" by (simp add: good_step_def account_inv_def)
qed

text \<open>Where a snapshot comes from: it was there before, or this step read it off the database for five minutes.\<close>

context uuid_texts
begin

lemma cached_principal_fill_at:
  "cached_principal uuid_of uuid_text t (cache_principal uuid_text now i p r) j =
     (if j = i then (if t < now + PRINCIPAL_TTL_S * second then Some p else None) else cached_principal uuid_of uuid_text t r j)"
  by (simp add: cached_principal_def cache_principal_def principal_key_def principal_round_trip)

lemma invalidate_old:
  "cached_principal uuid_of uuid_text t (invalidate_principal up uuid_text i r) j = Some p \<Longrightarrow>
     cached_principal uuid_of uuid_text t r j = Some p"
proof (cases up)
  case True
  then show "cached_principal uuid_of uuid_text t (invalidate_principal up uuid_text i r) j = Some p \<Longrightarrow> ?thesis"
    using cached_principal_drop [of t i r j] by (simp split: if_splits)
qed (simp add: invalidate_principal_def)

lemma flush_old:
  "cached_principal uuid_of uuid_text t (flush_principal_invalidations up uuid_text xs r) j = Some p \<Longrightarrow>
     cached_principal uuid_of uuid_text t r j = Some p"
  by (induction xs arbitrary: r) (auto simp: flush_principal_invalidations_def dest: invalidate_old)

lemma authorize_source:
  assumes "authorize dec uuid_of uuid_text up1 up2 up3 check now db r token = (answer, r')"
    and "cached_principal uuid_of uuid_text t r' j = Some p"
  shows "cached_principal uuid_of uuid_text t r j = Some p \<or>
    load_principal db j = Some p \<and> t < now + PRINCIPAL_TTL_S * second"
proof -
  have "r' = r \<or> (\<exists>i q. r' = cache_principal uuid_text now i q r \<and> load_principal db i = Some q)"
    using assms(1) unfolding authorize_def get_principal_def get_principal_cached_def
    by (auto split: sum.splits prod.splits option.splits if_splits)
  with assms(2) show ?thesis by (auto simp: cached_principal_fill_at split: if_splits)
qed

end

lemma step_snapshots:
  assumes "api_step lossy lib w w'" "auth_libraries lib"
    and "cached_principal (lib_uuid_of lib) (lib_uuid_text lib) t (w_redis w') j = Some p"
  shows "cached_principal (lib_uuid_of lib) (lib_uuid_text lib) t (w_redis w) j = Some p \<or>
    load_principal (w_db w') j = Some p \<and> t < w_now w' + PRINCIPAL_TTL_S * second"
proof -
  note texts = lib_texts [OF assms(2)]
  note old = uuid_texts.invalidate_old [OF texts] uuid_texts.flush_old [OF texts]
  have keys: "cached_principal (lib_uuid_of lib) (lib_uuid_text lib) t r' j = cached_principal (lib_uuid_of lib) (lib_uuid_text lib) t r j"
    if "\<And>k. redis_get r' t (principal_key k) = redis_get r t (principal_key k)" for r r'
    using that by (simp add: cached_principal_def)
  from assms(1) show ?thesis
  proof (cases rule: api_step.cases)
    case request
    with assms(3) uuid_texts.authorize_source [OF texts request(3)] show ?thesis by (simp add: world_of_def)
  next
    case forgot
    with assms(3) keys [OF snapshot_forgot [OF forgot(3)]] show ?thesis by (simp add: world_of_def)
  next
    case renew
    with assms(3) keys [OF refresh_snapshot [OF renew(3)]] show ?thesis by (simp add: world_of_def)
  next
    case sign_out
    with assms(3) keys [OF snapshot_logout [OF sign_out(3)]] show ?thesis by (simp add: world_of_def)
  next
    case confirm
    with assms(3) verify_cases [OF confirm(3)] show ?thesis by (auto simp: world_of_def dest: old)
  next
    case (reset up1 up2 up3 salt now db r token password answer db' r')
    have "cached_principal (lib_uuid_of lib) (lib_uuid_text lib) t (revoke up2 now c r) j = Some p \<Longrightarrow>
        cached_principal (lib_uuid_of lib) (lib_uuid_text lib) t r j = Some p" for c
      using keys [OF snapshot_revoke] by simp
    with reset assms(3) reset_cases [OF reset(3)] show ?thesis by (auto simp: world_of_def dest!: old)
  next
    case edit_profile
    with assms(3) profile_cases [OF edit_profile(3)] show ?thesis by (auto simp: world_of_def dest: old)
  next
    case approve
    with assms(3) show ?thesis
      by (auto simp: world_of_def approve_helper_def Let_def dest: old split: if_splits option.splits sum.splits)
  next
    case suspend
    with assms(3) show ?thesis
      by (auto simp: world_of_def suspend_user_def Let_def dest: old split: if_splits option.splits sum.splits)
  next
    case reinstate
    with assms(3) show ?thesis
      by (auto simp: world_of_def reinstate_user_def Let_def dest: old split: if_splits option.splits sum.splits)
  next
    case (signup_student cfg up i k salt jti now db r q answer db' r' mails)
    then have "r' = r \<or> r' = invalidate_principal up (lib_uuid_text lib) i r"
      using register_student_InrD(5)
      by (cases answer) (auto simp: register_student_def Let_def split: if_splits sum.splits db_error.splits)
    with signup_student assms(3) show ?thesis by (auto simp: world_of_def dest: old)
  next
    case (signup_helper up i k salt now db r q answer db' r')
    then have "r' = r \<or> r' = invalidate_principal up (lib_uuid_text lib) i r"
      using register_helper_InrD(5)
      by (cases answer) (auto simp: register_helper_def Let_def split: if_splits sum.splits db_error.splits)
    with signup_helper assms(3) show ?thesis by (auto simp: world_of_def dest: old)
  qed (use assms(3) in \<open>simp add: world_of_def\<close>)
qed

lemma successively_run: "successively R (x # xs) \<Longrightarrow> R\<^sup>*\<^sup>* x (last (x # xs))"
proof (induction xs arbitrary: x)
  case (Cons y ys)
  then have "R x y" "R\<^sup>*\<^sup>* y (last (y # ys))" by simp_all
  then show ?case by (simp add: converse_rtranclp_into_rtranclp)
qed simp

context auth_libraries
begin

lemma run_role_safe:
  assumes "(account_step lib)\<^sup>*\<^sup>* w w'" "db_ok (w_db w)"
  shows "role_safe (w_db w) (w_db w')"
proof (rule calls.run_keeps [OF assms])
  fix u v assume uv: "db_ok (w_db u)" "account_step lib u v" and s: "role_safe (w_db w) (w_db u)"
  then have "role_safe (w_db u) (w_db v)"
    using step_good [OF uv(2,1) auth_libraries_axioms, of False] by (simp add: good_step_def)
  with s show "role_safe (w_db w) (w_db v)" by (rule role_safe_trans)
qed (simp add: role_safe_users)

lemma run_db_ok: "(account_step lib)\<^sup>*\<^sup>* w w' \<Longrightarrow> db_ok (w_db w) \<Longrightarrow> db_ok (w_db w')"
  by (rule calls.run_inv)

lemma run_truthful:
  assumes "(api_step False lib)\<^sup>*\<^sup>* (world_of now db empty_redis) w" "db_ok db"
  shows "account_inv lib w"
  by (rule accounts.run_inv [OF assms(1)]) (simp add: account_inv_def world_of_def assms(2) principals_empty)

text \<open>Along any run, a snapshot was read off the database less than five minutes before it could last be seen.\<close>

lemma run_snapshots:
  assumes "successively (account_step lib) (world_of now db empty_redis # ws)"
    and "cached_principal (lib_uuid_of lib) (lib_uuid_text lib) t (w_redis (last (world_of now db empty_redis # ws))) i = Some p"
  shows "\<exists>v \<in> set (world_of now db empty_redis # ws). load_principal (w_db v) i = Some p \<and>
    t < w_now v + PRINCIPAL_TTL_S * second"
  using assms
proof (induction ws rule: rev_induct)
  case Nil
  then show ?case by (simp add: world_of_def cached_principal_def redis_get_def empty_redis_def)
next
  case (snoc w ws)
  let ?ws = "world_of now db empty_redis # ws"
  have run: "successively (account_step lib) ?ws" "account_step lib (last ?ws) w"
    using snoc.prems(1) by (simp_all add: successively_append_iff flip: append_Cons)
  have "cached_principal (lib_uuid_of lib) (lib_uuid_text lib) t (w_redis w) i = Some p" using snoc.prems(2) by simp
  from step_snapshots [OF run(2) auth_libraries_axioms this] show ?case
  proof
    assume "cached_principal (lib_uuid_of lib) (lib_uuid_text lib) t (w_redis (last ?ws)) i = Some p"
    from snoc.IH [OF run(1) this] show ?case by auto
  qed auto
qed

end

section \<open>Properties of runs\<close>

text \<open>
  C5. No sequence of calls makes an administrator: whatever students, helpers, administrators
  and strangers do through the API, in any order, the administrators at the end are those of
  the beginning, every account that existed keeps its role and its address, and no account
  disappears.
\<close>

theorem no_run_makes_an_administrator:
  assumes "(account_step lib)\<^sup>*\<^sup>* w w'" "account_inv lib w" "auth_libraries lib"
  shows "(\<forall>i. (\<exists>u. get_user (w_db w') i = Some u \<and> us_role u = Role_admin) \<longleftrightarrow>
      (\<exists>u. get_user (w_db w) i = Some u \<and> us_role u = Role_admin)) \<and>
    (\<forall>i u. get_user (w_db w) i = Some u \<longrightarrow>
      (\<exists>v. get_user (w_db w') i = Some v \<and> us_role v = us_role u \<and> us_email v = us_email u))"
proof -
  have s: "role_safe (w_db w) (w_db w')"
    using auth_libraries.run_role_safe [OF assms(3,1)] assms(2) by (simp add: account_inv_def)
  have "(\<exists>u. get_user (w_db w') i = Some u \<and> us_role u = Role_admin) \<longleftrightarrow>
      (\<exists>u. get_user (w_db w) i = Some u \<and> us_role u = Role_admin)" for i
  proof (cases "get_user (w_db w) i")
    case None
    with s show ?thesis by (auto simp: role_safe_def)
  next
    case (Some u)
    with s obtain v where "get_user (w_db w') i = Some v" "us_role v = us_role u"
      unfolding role_safe_def by blast
    with Some show ?thesis by simp
  qed
  with s show ?thesis by (simp add: role_safe_def)
qed

lemma demo_account_run:
  "\<exists>db' r' mails. (account_step demo_lib)\<^sup>*\<^sup>* (world_of demo_now demo_db empty_redis) (world_of demo_now db' r') \<and>
     register_student demo_lib demo_settings (\<lambda>d. d) True 5 15 2 ''j8'' demo_now demo_db empty_redis demo_signup
       = (Inr demo_new_user, db', r', mails)"
  using demo_registers by (blast intro: api_step.signup_student r_into_rtranclp)

lemma demo_account_inv: "account_inv demo_lib (world_of demo_now demo_db empty_redis)"
  by (simp add: account_inv_def world_of_def demo_db_ok principals_empty)

text \<open>After a sign-up the account 5 exists and user 3 is still the one administrator.\<close>

theorem no_run_makes_an_administrator_witness:
  "\<exists>db' r'. (account_step demo_lib)\<^sup>*\<^sup>* (world_of demo_now demo_db empty_redis) (world_of demo_now db' r') \<and>
     (\<exists>u. get_user db' 3 = Some u \<and> us_role u = Role_admin) \<and>
     \<not> (\<exists>u. get_user db' 5 = Some u \<and> us_role u = Role_admin)"
proof -
  obtain db' r' where run: "(account_step demo_lib)\<^sup>*\<^sup>* (world_of demo_now demo_db empty_redis) (world_of demo_now db' r')"
    using demo_account_run by blast
  have "get_user demo_db 3 = Some (demo_user 3 ''c@x.edu'' Role_admin)" "get_user demo_db 5 = None"
    "us_role (demo_user 3 ''c@x.edu'' Role_admin) = Role_admin"
    by (simp_all add: demo_db_def demo_user_def)
  with no_run_makes_an_administrator [OF run demo_account_inv demo_auth.auth_libraries_axioms] run show ?thesis
    by (auto simp: world_of_def)
qed

text \<open>
  C6. Along every run of the API's calls, one after another, from a consistent database and an empty
  Redis, with any calls of Redis failing at any time, the constraints of the database hold at the end, and every
  cached snapshot a guard would believe is the account as the database had it less than five minutes ago, at some state
  of that run. Where each moderation and confirmation of the run got one of its deletions through, the
  snapshot is the account as the database has it now.
\<close>

theorem snapshots_stay_truthful:
  assumes "successively (account_step lib) (world_of now db empty_redis # ws)" "db_ok db" "auth_libraries lib"
    and "w = last (world_of now db empty_redis # ws)"
  shows "db_ok (w_db w) \<and>
    (\<forall>i p. cached_principal (lib_uuid_of lib) (lib_uuid_text lib) (w_now w) (w_redis w) i = Some p \<longrightarrow>
       (\<exists>v \<in> set (world_of now db empty_redis # ws). load_principal (w_db v) i = Some p \<and> w_now w < w_now v + 5 * minute) \<and>
       (successively (api_step False lib) (world_of now db empty_redis # ws) \<longrightarrow> load_principal (w_db w) i = Some p))"
proof (intro conjI allI impI)
  show "db_ok (w_db w)"
    using auth_libraries.run_db_ok [OF assms(3) successively_run [OF assms(1)]] assms(2,4) by (simp add: world_of_def)
  fix i p assume c: "cached_principal (lib_uuid_of lib) (lib_uuid_text lib) (w_now w) (w_redis w) i = Some p"
  show "\<exists>v \<in> set (world_of now db empty_redis # ws). load_principal (w_db v) i = Some p \<and> w_now w < w_now v + 5 * minute"
    using auth_libraries.run_snapshots [OF assms(3,1) c [unfolded assms(4)]] assms(4) by (simp add: PRINCIPAL_TTL_S_def)
  assume "successively (api_step False lib) (world_of now db empty_redis # ws)"
  from auth_libraries.run_truthful [OF assms(3) successively_run [OF this] assms(2)] c show "load_principal (w_db w) i = Some p"
    by (simp add: account_inv_def coherent_def assms(4))
qed

text \<open>A request of user 2 leaves a snapshot behind, and it is the account.\<close>

theorem snapshots_stay_truthful_witness:
  "\<exists>r' p. account_step demo_lib (world_of demo_now demo_db empty_redis) (world_of demo_now demo_db r') \<and>
     cached_principal (lib_uuid_of demo_lib) (lib_uuid_text demo_lib) demo_now r' 2 = Some p \<and>
     load_principal demo_db 2 = Some p"
proof -
  let ?token = "count_encode (access_claims 2 Role_admin)"
  have sub: "doc_uuid unary_of (access_claims 2 Role_admin) ''sub'' = Inr 2"
    by (simp add: doc_uuid_def access_claims_def token_claims_def unary)
  obtain p where load: "load_principal demo_db 2 = Some p" "pp_status p = User_active"
    by (simp add: load_principal_def helper_by_user_id_def demo_defs)
  have "get_access_claims count_decode True demo_now empty_redis ?token = Inr (access_claims 2 Role_admin)"
    unfolding get_access_claims_def decode_token_def access_decodes
    by (simp add: is_revoked_def redis_get_def empty_redis_def)
      (simp add: access_claims_def token_claims_def doc_get_def)
  with load sub obtain answer where a: "authorize count_decode unary_of unary_text True True True require_authenticated demo_now demo_db
      empty_redis ?token = (answer, cache_principal unary_text demo_now 2 p empty_redis)"
    by (simp add: authorize_def get_principal_def get_principal_cached_def cached_principal_def redis_get_def empty_redis_def
        require_authenticated_def guard_def is_active_def)
  let ?w = "world_of demo_now demo_db (cache_principal unary_text demo_now 2 p empty_redis)"
  have step: "account_step demo_lib (world_of demo_now demo_db empty_redis) ?w"
    using api_step.request [of demo_lib True True True require_authenticated demo_now demo_db empty_redis ?token] a by simp
  have c: "cached_principal (lib_uuid_of demo_lib) (lib_uuid_text demo_lib) demo_now (w_redis ?w) 2 = Some p"
    by (simp add: world_of_def unary_texts.cached_principal_fill)
  have "successively (account_step demo_lib) (world_of demo_now demo_db empty_redis # [?w])" using step by simp
  from snapshots_stay_truthful [OF this demo_db_ok demo_auth.auth_libraries_axioms refl] c load(1)
  have "load_principal demo_db 2 = Some p" by (auto simp: world_of_def)
  with step c show ?thesis by (auto simp: world_of_def)
qed

end
