(* ===== verification/Keyspace.thy ===== *)
theory Keyspace
  imports EtaEngine Accounts
begin

text \<open>
  The one Redis all parts share, seen from above. Each part names its keys by its own prefix and
  suffix (\<^verbatim>\<open>app/core/redis.py\<close>, \<^verbatim>\<open>revocation.py\<close>,
  \<^verbatim>\<open>authz.py\<close>, \<^verbatim>\<open>routes/auth.py\<close>) and writes its own shape of value. \<open>fits\<close>
  types the store: which values may stand under which key so that the key's readers can read them.
  Nothing here models code that is not modelled elsewhere; the steps of \<open>backend_step\<close> are the
  handlers and passes of the other theories.
\<close>

section \<open>Kinds of keys\<close>

lemmas key_defs = bus_pos_key_def bus_seats_key_def helper_trip_key_def trip_eta_key_def trip_progress_key_def
  principal_key_def revoked_key_def rotated_key_def

lemma tails_differ [simp]:
  "a @ '':pos'' \<noteq> b @ '':seats''" "a @ '':seats'' \<noteq> b @ '':pos''"
  "a @ '':eta'' \<noteq> b @ '':progress''" "a @ '':progress'' \<noteq> b @ '':eta''"
proof -
  have "take 2 (rev (a @ '':pos'')) \<noteq> take 2 (rev (b @ '':seats''))" "take 2 (rev (a @ '':seats'')) \<noteq> take 2 (rev (b @ '':pos''))"
    "take 2 (rev (a @ '':eta'')) \<noteq> take 2 (rev (b @ '':progress''))" "take 2 (rev (a @ '':progress'')) \<noteq> take 2 (rev (b @ '':eta''))"
    by simp_all
  then show "a @ '':pos'' \<noteq> b @ '':seats''" "a @ '':seats'' \<noteq> b @ '':pos''"
    "a @ '':eta'' \<noteq> b @ '':progress''" "a @ '':progress'' \<noteq> b @ '':eta''" by metis+
qed

text \<open>A value that the readers of its key can read.\<close>

inductive fits :: "(string \<Rightarrow> uuid option) \<Rightarrow> (string \<Rightarrow> instant option) \<Rightarrow> string \<Rightarrow> redis_value \<Rightarrow> bool"
  for uuid_of iso_of where
  position: "parse_position iso_of (Some fs) = Some p \<Longrightarrow> fits uuid_of iso_of (bus_pos_key b) (RHash fs)"
| seats: "map_of fs ''occupied'' = Some (int_str n) \<Longrightarrow> map_of fs ''capacity'' = Some (int_str c) \<Longrightarrow>
    fits uuid_of iso_of (bus_seats_key b) (RHash fs)"
| trip: "from_json uuid_of d = Inr a \<Longrightarrow> fits uuid_of iso_of (helper_trip_key h) (RDoc (Some d))"
| board: "trip_eta_of uuid_of iso_of v = Some out \<Longrightarrow> fits uuid_of iso_of (trip_eta_key t) v"
| progress: "doc_get d ''seq'' = JInt n \<Longrightarrow> doc_get d ''at'' = JStr s \<Longrightarrow> iso_of s = Some since \<Longrightarrow>
    fits uuid_of iso_of (trip_progress_key t) (RDoc (Some d))"
| principal: "principal_from_json uuid_of d = Some q \<Longrightarrow> fits uuid_of iso_of (principal_key u) (RDoc (Some d))"
| revoked: "fits uuid_of iso_of (revoked_key j) (RDoc None)"
| rotated: "pair_of_value v = Some pair \<Longrightarrow> fits uuid_of iso_of (rotated_key j) v"
| resend: "fits uuid_of iso_of (''resend:'' @ a) (RDoc None)"
| reset: "fits uuid_of iso_of (''reset:'' @ a) (RDoc None)"

text \<open>What a key's own readers may conclude.\<close>

lemma fits_position: "fits uuid_of iso_of (bus_pos_key b) v \<Longrightarrow> \<exists>fs p. v = RHash fs \<and> parse_position iso_of (Some fs) = Some p"
  by (erule fits.cases) (auto simp: key_defs)

lemma fits_seats:
  "fits uuid_of iso_of (bus_seats_key b) v \<Longrightarrow>
   \<exists>fs n c. v = RHash fs \<and> map_of fs ''occupied'' = Some (int_str n) \<and> map_of fs ''capacity'' = Some (int_str c)"
  by (erule fits.cases) (auto simp: key_defs)

lemma fits_trip: "fits uuid_of iso_of (helper_trip_key h) v \<Longrightarrow> \<exists>d a. v = RDoc (Some d) \<and> from_json uuid_of d = Inr a"
  by (erule fits.cases) (auto simp: key_defs)

lemma fits_board: "fits uuid_of iso_of (trip_eta_key t) v \<Longrightarrow> \<exists>out. trip_eta_of uuid_of iso_of v = Some out"
  by (erule fits.cases) (auto simp: key_defs)

lemma fits_progress:
  "fits uuid_of iso_of (trip_progress_key t) v \<Longrightarrow>
   \<exists>d n s since. v = RDoc (Some d) \<and> doc_get d ''seq'' = JInt n \<and> doc_get d ''at'' = JStr s \<and> iso_of s = Some since"
  by (erule fits.cases) (auto simp: key_defs)

lemma fits_principal: "fits uuid_of iso_of (principal_key u) v \<Longrightarrow> \<exists>d q. v = RDoc (Some d) \<and> principal_from_json uuid_of d = Some q"
  by (erule fits.cases) (auto simp: key_defs)

lemma fits_revoked: "fits uuid_of iso_of (revoked_key j) v \<Longrightarrow> v = RDoc None"
  by (erule fits.cases) (auto simp: key_defs)

lemma fits_rotated: "fits uuid_of iso_of (rotated_key j) v \<Longrightarrow> \<exists>pair. pair_of_value v = Some pair"
  by (erule fits.cases) (auto simp: key_defs)

section \<open>A well-typed store\<close>

definition typed :: "(string \<Rightarrow> uuid option) \<Rightarrow> (string \<Rightarrow> instant option) \<Rightarrow> redis \<Rightarrow> bool" where
  "typed uuid_of iso_of r \<longleftrightarrow> (\<forall>k v e. re_data r k = Some (v, e) \<longrightarrow> fits uuid_of iso_of k v)"

lemma typed_empty: "typed uuid_of iso_of empty_redis"
  by (simp add: typed_def empty_redis_def)

lemma typed_get: "typed uuid_of iso_of r \<Longrightarrow> redis_get r now k = Some v \<Longrightarrow> fits uuid_of iso_of k v"
  by (auto simp: typed_def redis_get_def split: option.splits if_splits)

lemma typed_set: "typed uuid_of iso_of r \<Longrightarrow> fits uuid_of iso_of k v \<Longrightarrow> typed uuid_of iso_of (redis_set k v e r)"
  by (simp add: typed_def redis_set_def)

lemma typed_delete: "typed uuid_of iso_of r \<Longrightarrow> typed uuid_of iso_of (redis_delete k r)"
  by (simp add: typed_def redis_delete_def)

lemma typed_set_nx:
  "typed uuid_of iso_of r \<Longrightarrow> fits uuid_of iso_of k v \<Longrightarrow> redis_set_nx now k v n r = (won, r') \<Longrightarrow> typed uuid_of iso_of r'"
  by (auto simp: redis_set_nx_def typed_set split: option.splits)

lemma typed_expire: "typed uuid_of iso_of r \<Longrightarrow> typed uuid_of iso_of (redis_expire now k n r)"
  by (auto simp: redis_expire_def intro: typed_set typed_get split: option.split)

lemma typed_hset:
  "typed uuid_of iso_of r \<Longrightarrow> (\<And>old. fits uuid_of iso_of k (RHash (fs @ filter (\<lambda>(n, _). n \<notin> fst ` set fs) old))) \<Longrightarrow>
   typed uuid_of iso_of (redis_hset now k fs r)"
  by (simp add: redis_hset_def typed_set)

lemma typed_publish: "typed uuid_of iso_of (redis_publish c m r) \<longleftrightarrow> typed uuid_of iso_of r"
  by (simp add: typed_def redis_publish_def)

lemma typed_data: "re_data r' = re_data r \<Longrightarrow> typed uuid_of iso_of r' = typed uuid_of iso_of r"
  by (simp add: typed_def)


named_theorems typed_intros \<open>an operation keeps the store well typed\<close>

lemmas [typed_intros] = typed_set typed_delete typed_expire

lemma revoke_typed [typed_intros]: "typed uuid_of iso_of r \<Longrightarrow> typed uuid_of iso_of (revoke up now c r)"
  by (simp add: revoke_def Let_def typed_set fits.revoked)

lemma invalidate_typed [typed_intros]:
  "typed uuid_of iso_of r \<Longrightarrow> typed uuid_of iso_of (invalidate_principal up uuid_text i r)"
  by (simp add: invalidate_principal_def typed_delete)

lemma flush_typed [typed_intros]:
  "typed uuid_of iso_of r \<Longrightarrow> typed uuid_of iso_of (flush_principal_invalidations up uuid_text is r)"
  unfolding flush_principal_invalidations_def by (induction "is" arbitrary: r) (simp_all add: invalidate_typed)

lemma rotation_typed:
  assumes "typed uuid_of iso_of r" "claim_rotation up1 up2 now j (pair_to_json p) r = (answer, r')"
  shows "typed uuid_of iso_of r'"
proof -
  have "fits uuid_of iso_of (rotated_key j) (RDoc (Some (pair_to_json p)))"
    by (rule fits.rotated) (simp add: pair_of_value_def)
  with assms show ?thesis
    by (auto simp: claim_rotation_def split: if_splits prod.splits bool.splits dest: typed_set_nx)
qed

lemma finish_typed:
  "typed uuid_of iso_of r \<Longrightarrow> refresh_finish up3 up4 up5 now r c pair = (answer, r') \<Longrightarrow> typed uuid_of iso_of r'"
  by (auto simp: refresh_finish_def split: prod.splits sum.splits option.splits
      dest: rotation_typed intro: revoke_typed)

lemma slot_typed:
  "typed uuid_of iso_of r \<Longrightarrow> fits uuid_of iso_of k (RDoc None) \<Longrightarrow> claim_slot up now k n r = (won, r') \<Longrightarrow> typed uuid_of iso_of r'"
  by (auto simp: claim_slot_def split: if_splits dest: typed_set_nx)

lemma forgot_typed:
  "typed uuid_of iso_of r \<Longrightarrow> forgot_password lib up jti now db r email = (text, r', mails) \<Longrightarrow> typed uuid_of iso_of r'"
  by (auto simp: forgot_password_def claim_reset_def Let_def split: option.splits prod.splits bool.splits
      dest: slot_typed [OF _ fits.reset])

lemma resend_typed:
  "typed uuid_of iso_of r \<Longrightarrow> resend_verification lib up jti now db r email = (text, r', mails) \<Longrightarrow> typed uuid_of iso_of r'"
  by (auto simp: resend_verification_def claim_resend_def Let_def split: option.splits prod.splits bool.splits if_splits
      dest: slot_typed [OF _ fits.resend])

lemma logout_typed:
  "typed uuid_of iso_of r \<Longrightarrow> logout lib up1 up2 up3 now r access rt = (out, r') \<Longrightarrow> typed uuid_of iso_of r'"
  by (auto simp: logout_def Let_def split: sum.splits option.splits if_splits intro: revoke_typed)

context uuid_texts
begin

lemma principal_typed:
  assumes "typed uuid_of iso_of r" "get_principal_cached uuid_of uuid_text up1 up2 now db r i = (answer, r')"
  shows "typed uuid_of iso_of r'"
proof -
  have "typed uuid_of iso_of (cache_principal uuid_text now i p r)" for p
    using assms(1) by (simp add: cache_principal_def typed_set fits.principal principal_round_trip)
  with assms show ?thesis by (auto simp: get_principal_cached_def split: option.splits if_splits)
qed

lemma authorize_typed:
  assumes "typed uuid_of iso_of r"
    and "authorize jwt_decode uuid_of uuid_text up1 up2 up3 check now db r token = (answer, r')"
  shows "typed uuid_of iso_of r'"
  using assms by (auto simp: authorize_def get_principal_def split: sum.splits prod.splits option.splits if_splits dest: principal_typed)

end

lemma account_step_typed:
  assumes "account_step lib w w'" "uuid_texts (lib_uuid_text lib) (lib_uuid_of lib)" "typed (lib_uuid_of lib) iso_of (w_redis w)"
  shows "typed (lib_uuid_of lib) iso_of (w_redis w')"
  using assms(1,3)
proof (cases rule: api_step.cases)
  case (request up1 up2 up3 check now db r token answer r')
  then show ?thesis using assms(3) uuid_texts.authorize_typed [OF assms(2)] by (simp add: world_of_def)
next
  case forgot
  then show ?thesis using assms(3) by (simp add: world_of_def forgot_typed)
next
  case sign_out
  then show ?thesis using assms(3) by (simp add: world_of_def logout_typed)
next
  case renew
  then show ?thesis using assms(3) by (auto simp: world_of_def refresh_def split: sum.splits prod.splits dest: finish_typed)
qed (use assms(3) in \<open>auto simp: world_of_def register_student_def register_helper_def verify_email_def reset_password_def
    update_me_def approve_helper_def suspend_user_def reinstate_user_def Let_def intro: typed_intros
    split: if_splits sum.splits option.splits db_error.splits prod.splits\<close>)


section \<open>What the road writes\<close>

lemma data_xadds: "re_data (foldl (\<lambda>r p. redis_xadd (f p) r) r ps) = re_data r"
  by (induction ps arbitrary: r) (simp_all add: redis_xadd_def)

text \<open>The texts of identifiers, instants and numbers, each read back by its reader.\<close>

locale shared_texts = uuid_texts uuid_text uuid_of
  for uuid_text :: "uuid \<Rightarrow> string" and uuid_of :: "string \<Rightarrow> uuid option" +
  fixes iso_text :: "instant \<Rightarrow> string" and iso_of :: "string \<Rightarrow> instant option" and float_text :: "real \<Rightarrow> string"
  assumes iso_back: "iso_of (iso_text t) = Some t" and iso_nonempty: "iso_text t \<noteq> []"
    and float_reads: "py_float (float_text x) \<noteq> None"
begin

abbreviation typed' :: "redis \<Rightarrow> bool" where "typed' \<equiv> typed uuid_of iso_of"

lemma uuid_back: "uuid_of (uuid_text i) = Some i" by (simp add: dec_enc)

lemma cache_active_typed: "typed' r \<Longrightarrow> typed' (cache_active up uuid_text now h a r)"
  by (auto simp: cache_active_def from_json_def to_json_def doc_uuid_def uuid_back intro!: typed_set fits.trip)

lemma active_typed:
  "typed' r \<Longrightarrow> get_active_trip uuid_of uuid_text up1 up2 now db r h = (answer, r') \<Longrightarrow> typed' r'"
  by (auto simp: get_active_trip_def intro: cache_active_typed split: option.splits sum.splits)

lemma start_typed:
  "typed' r \<Longrightarrow> start_trip_route env up uuid_text new_id day now db r h b x = (answer, db', r') \<Longrightarrow> typed' r'"
  by (auto simp: start_trip_route_def cache_active_trip_def intro: cache_active_typed split: prod.splits sum.splits)

lemma end_typed: "typed' r \<Longrightarrow> end_trip_route up uuid_text now db r h = (answer, db', r') \<Longrightarrow> typed' r'"
  by (auto simp: end_trip_route_def clear_active_trip_def intro: typed_delete split: prod.splits sum.splits if_splits)

lemma seats_typed:
  "typed' r \<Longrightarrow> publish_seats up uuid_text iso_text now r bus t n at_time = (answer, r') \<Longrightarrow> typed' r'"
  by (auto simp: publish_seats_def Let_def intro!: typed_expire typed_hset fits.seats split: if_splits)

lemma report_seats_typed:
  assumes "typed' r" "report_seats_route uuid_of uuid_text iso_text up1 up2 up3 i now db r h n t = (answer, db', r')"
  shows "typed' r'"
proof -
  obtain active q where g: "get_active_trip uuid_of uuid_text up1 up2 now db r h = (active, q)" by fastforce
  have "typed' q" using assms(1) g by (rule active_typed)
  moreover have "r' = q \<or> (\<exists>bus trip k s result. publish_seats up3 uuid_text iso_text now q bus trip k s = (result, r'))"
    using assms(2) unfolding report_seats_route_def g
    by (simp split: sum.splits option.splits prod.splits) metis+
  ultimately show ?thesis using seats_typed by blast
qed

lemma alert_typed:
  assumes "typed' r" "raise_alert_route uuid_of uuid_text float_text up1 up2 up3 i now db r h u ty m lat lng = (answer, db', r')"
  shows "typed' r'"
proof -
  obtain active q where g: "get_active_trip uuid_of uuid_text up1 up2 now db r h = (active, q)" by fastforce
  have "typed' q" using assms(1) g by (rule active_typed)
  moreover have "r' = q \<or> (\<exists>a b t. r' = publish_alert up3 uuid_text float_text q a b t lat lng)"
    using assms(2) unfolding raise_alert_route_def g Let_def
    by (simp split: sum.splits prod.splits) metis+
  ultimately show ?thesis by (auto simp: publish_alert_def typed_publish Let_def)
qed

lemma position_fits:
  "fits uuid_of iso_of (bus_pos_key b) (RHash (position_fields uuid_text float_text iso_text now t p @ others))"
proof -
  obtain x y where "py_float (float_text (gp_lat p)) = Some x" "py_float (float_text (gp_lng p)) = Some y"
    using float_reads by blast
  from parse_written_position [where fs = "position_fields uuid_text float_text iso_text now t p @ others" and iso_of = iso_of
      and iso_text = iso_text and others = others and uuid_text = uuid_text and now = now and trip_id = t, OF this iso_back iso_back iso_nonempty]
  show ?thesis by (auto intro: fits.position)
qed

lemma pipeline_typed: "typed' r \<Longrightarrow> typed' (gps_pipeline uuid_text float_text iso_text now live b h t ps r)"
  unfolding gps_pipeline_def Let_def
  by (subst typed_data [OF data_xadds])
    (auto simp: typed_publish intro!: typed_expire typed_hset position_fits split: option.split bool.split)

lemma ingest_typed:
  assumes "typed' r" "ingest_gps uuid_of uuid_text float_text iso_text up1 up2 up3 now db r h b ps = (answer, r')"
  shows "typed' r'"
proof -
  obtain active q where g: "get_active_trip uuid_of uuid_text up1 up2 now db r h = (active, q)" by fastforce
  have "typed' q" using assms(1) g by (rule active_typed)
  moreover have "r' = q \<or> (\<exists>live c t. r' = gps_pipeline uuid_text float_text iso_text now live c h t ps q)"
    using assms(2) unfolding ingest_gps_def g Let_def
    by (simp split: sum.splits prod.splits option.splits if_splits) metis+
  ultimately show ?thesis using pipeline_typed by blast
qed

lemma board_fits:
  assumes "trip_arrivals (route_points uuid_text db t) track loaded start now = (progress, arrivals)"
  shows "fits uuid_of iso_of (trip_eta_key k) (board_value uuid_text iso_text float_text now t arrivals)"
proof -
  define out where "out = (\<lambda>a :: arrival. \<lparr>ao_stop_id = the (uuid_of (ar_stop_id a)), ao_seq = ar_seq a, ao_eta = ar_eta a,
    ao_eta_minutes = minutes_until (ar_eta a) now, ao_basis = ar_basis a,
    ao_distance_km = the (py_float (float_text (ar_distance_km a)))\<rparr>)"
  have "uuid_of (ar_stop_id a) = Some (the (uuid_of (ar_stop_id a)))" if "a \<in> set arrivals" for a
    using trip_arrivals_facts [OF assms] that uuid_back by fastforce
  then have "those (map (arrival_out_of uuid_of iso_of) (map (arrival_doc iso_text float_text now) arrivals)) = Some (map out arrivals)"
    unfolding map_map comp_def out_def
    using iso_back float_reads by (intro those_map_Some arrival_round_trip) auto
  then show ?thesis
    by (intro fits.board) (simp add: trip_eta_of_def board_value_def uuid_field_def instant_field_def doc_get_def uuid_back iso_back)
qed

lemma carry_typed: "typed' r \<Longrightarrow> typed' (carry_progress iso_text up now i loaded advanced r)"
  by (auto simp: carry_progress_def save_progress_def progress_doc_def doc_get_def iso_back
      intro!: typed_set fits.progress split: option.split)

lemma compute_typed:
  assumes "typed' r" "compute_for_trip iso_of iso_text uuid_text float_text up1 up2 up3 db r hits t now = (answer, r')"
  shows "typed' r'"
  using assms(2)
proof (cases rule: compute_cases)
  case (gathered start track loaded progress arrivals r1)
  then show ?thesis using assms(1) by (auto intro: typed_set board_fits carry_typed split: if_splits)
qed (use assms(1) in simp)

lemma pass_typed:
  assumes "typed' r" "compute_once (\<lambda>t r. compute_for_trip iso_of iso_text uuid_text float_text up1 up2 up3 db r (hits t) t now) trips r = (tally, r')"
  shows "typed' r'"
proof -
  let ?job = "\<lambda>t r. compute_for_trip iso_of iso_text uuid_text float_text up1 up2 up3 db r (hits t) t now"
  have "typed' (snd (foldl (eta_step ?job) (n, q) ts))" if "typed' q" for n q ts
    using that
  proof (induction ts arbitrary: n q)
    case (Cons t ts)
    obtain answer q' where c: "?job t q = (answer, q')" by fastforce
    have "typed' q'" by (rule compute_typed [OF Cons.prems c])
    from Cons.IH [OF this] show ?case by (simp add: eta_step_def c)
  qed simp
  from this [OF assms(1)] have "typed' (snd (compute_once ?job trips r))" by (simp add: compute_once_def)
  then show ?thesis by (simp add: assms(2))
qed

end


interpretation demo_texts: shared_texts unary_text unary_of tally_iso_text tally_iso_of "\<lambda>_. ''1''"
  by unfold_locales (simp_all add: tally_iso py_float_one)

section \<open>The whole backend as one machine\<close>

text \<open>
  Any call of the API and any pass of the worker, in any order, with Redis failing at any call,
  and between them anything else that changes the database.
\<close>

inductive backend_step :: "auth_lib \<Rightarrow> (instant \<Rightarrow> string) \<Rightarrow> (string \<Rightarrow> instant option) \<Rightarrow> (real \<Rightarrow> string) \<Rightarrow> world \<Rightarrow> world \<Rightarrow> bool"
  for lib iso_text iso_of float_text where
  account: "account_step lib w w' \<Longrightarrow> backend_step lib iso_text iso_of float_text w w'"
| resend: "resend_verification lib up jti now db r email = (text, r', mails) \<Longrightarrow>
    backend_step lib iso_text iso_of float_text (world_of now db r) (world_of now db r')"
| trip_start: "start_trip_route env up (lib_uuid_text lib) i day now db r h b x = (trip, db', r') \<Longrightarrow>
    backend_step lib iso_text iso_of float_text (world_of now db r) (world_of now db' r')"
| trip_end: "end_trip_route up (lib_uuid_text lib) now db r h = (trip, db', r') \<Longrightarrow>
    backend_step lib iso_text iso_of float_text (world_of now db r) (world_of now db' r')"
| seats: "report_seats_route (lib_uuid_of lib) (lib_uuid_text lib) iso_text up1 up2 up3 i now db r h n t = (state, db', r') \<Longrightarrow>
    backend_step lib iso_text iso_of float_text (world_of now db r) (world_of now db' r')"
| alert: "raise_alert_route (lib_uuid_of lib) (lib_uuid_text lib) float_text up1 up2 up3 i now db r h u ty m lat lng = (a, db', r') \<Longrightarrow>
    backend_step lib iso_text iso_of float_text (world_of now db r) (world_of now db' r')"
| gps: "ingest_gps (lib_uuid_of lib) (lib_uuid_text lib) float_text iso_text up1 up2 up3 now db r h b ps = (accepted, r') \<Longrightarrow>
    backend_step lib iso_text iso_of float_text (world_of now db r) (world_of now db r')"
| eta_pass: "compute_once (\<lambda>t r. compute_for_trip iso_of iso_text (lib_uuid_text lib) float_text up1 up2 up3 db r (hits t) t now) trips r
      = (tally, r') \<Longrightarrow>
    backend_step lib iso_text iso_of float_text (world_of now db r) (world_of now db r')"
| database: "backend_step lib iso_text iso_of float_text (world_of now db r) (world_of now db' r)"

lemma backend_step_typed:
  assumes "shared_texts (lib_uuid_text lib) (lib_uuid_of lib) iso_text iso_of float_text"
    and "backend_step lib iso_text iso_of float_text w w'" "typed (lib_uuid_of lib) iso_of (w_redis w)"
  shows "typed (lib_uuid_of lib) iso_of (w_redis w')"
  using assms(2,3)
proof (cases rule: backend_step.cases)
  case account
  then show ?thesis using account_step_typed [OF _ shared_texts.axioms(1) [OF assms(1)]] assms(3) by blast
next
  case resend
  then show ?thesis using assms(3) by (simp add: world_of_def resend_typed)
next
  case trip_start
  then show ?thesis using assms(3) shared_texts.start_typed [OF assms(1)] by (simp add: world_of_def)
next
  case trip_end
  then show ?thesis using assms(3) shared_texts.end_typed [OF assms(1)] by (simp add: world_of_def)
next
  case seats
  then show ?thesis using assms(3) shared_texts.report_seats_typed [OF assms(1)] by (simp add: world_of_def)
next
  case alert
  then show ?thesis using assms(3) shared_texts.alert_typed [OF assms(1)] by (simp add: world_of_def)
next
  case gps
  then show ?thesis using assms(3) shared_texts.ingest_typed [OF assms(1)] by (simp add: world_of_def)
next
  case eta_pass
  then show ?thesis using assms(3) shared_texts.pass_typed [OF assms(1)] by (simp add: world_of_def)
next
  case database
  then show ?thesis using assms(3) by (simp add: world_of_def)
qed

locale backend = auth_libraries lib + shared_texts "lib_uuid_text lib" "lib_uuid_of lib" iso_text iso_of float_text
  for lib iso_text iso_of float_text

sublocale backend \<subseteq> store: guarded_machine "backend_step lib iso_text iso_of float_text" "\<lambda>w. typed (lib_uuid_of lib) iso_of (w_redis w)"
  by unfold_locales (rule backend_step_typed, unfold_locales)

interpretation demo_backend: backend demo_lib tally_iso_text tally_iso_of "\<lambda>_. ''1''"
  by unfold_locales (simp_all add: tally_iso py_float_one)

section \<open>What the readers meet\<close>

lemma typed_cached_trip:
  "typed uuid_of iso_of r \<Longrightarrow> cached_trip uuid_of uuid_text now r h = None \<longleftrightarrow> redis_get r now (helper_trip_key (uuid_text h)) = None"
  by (auto simp: cached_trip_def split: option.split dest!: typed_get fits_trip)

lemma typed_cached_principal:
  "typed uuid_of iso_of r \<Longrightarrow> cached_principal uuid_of uuid_text now r i = None \<longleftrightarrow> redis_get r now (principal_key (uuid_text i)) = None"
  by (auto simp: cached_principal_def split: option.split dest!: typed_get fits_principal)

lemma typed_position:
  assumes "typed uuid_of iso_of r" "redis_get r now (bus_pos_key b) \<noteq> None"
  shows "\<exists>p. parse_position iso_of (Some (redis_hgetall r now (bus_pos_key b))) = Some p"
  using assms by (auto simp: redis_hgetall_def dest!: typed_get fits_position)

lemma typed_seats:
  assumes "typed uuid_of iso_of r" "redis_get r now (bus_seats_key b) \<noteq> None"
  shows "\<exists>n c. map_of (redis_hgetall r now (bus_seats_key b)) ''occupied'' = Some (int_str n) \<and>
    map_of (redis_hgetall r now (bus_seats_key b)) ''capacity'' = Some (int_str c)"
  using assms by (auto simp: redis_hgetall_def dest!: typed_get fits_seats)

lemma typed_progress:
  assumes "typed uuid_of iso_of r"
  shows "\<exists>p. load_progress iso_of up now r i = Inr p \<and> (p = None \<longleftrightarrow> \<not> up \<or> redis_get r now (trip_progress_key i) = None)"
proof (cases "if up then redis_get r now (trip_progress_key i) else None")
  case None
  then show ?thesis by (auto simp: load_progress_def split: if_splits)
next
  case (Some v)
  then have up: up "redis_get r now (trip_progress_key i) = Some v" by (auto split: if_splits)
  then show ?thesis using fits_progress [OF typed_get [OF assms up(2)]] by (auto simp: load_progress_def py_int_of_def)
qed

lemma board_of_eta: "trip_eta_of uuid_of iso_of v = Some out \<Longrightarrow> \<exists>d as. v = RBoard d as \<and> (\<forall>a \<in> set as. arrival_out_of uuid_of iso_of a \<noteq> None)"
proof -
  assume e: "trip_eta_of uuid_of iso_of v = Some out"
  then obtain d as xs where v: "v = RBoard d as" "those (map (arrival_out_of uuid_of iso_of) as) = Some xs"
    by (auto simp: trip_eta_of_def split: redis_value.splits option.splits)
  have "\<forall>a \<in> set as. arrival_out_of uuid_of iso_of a \<noteq> None"
    using v(2) by (induction as arbitrary: xs) (auto split: option.splits)
  with v(1) show ?thesis by blast
qed

lemma typed_cached_eta:
  assumes "typed uuid_of iso_of r" "cached_eta up now r i = Some v"
  shows "\<exists>out. trip_eta_of uuid_of iso_of v = Some out"
proof -
  have "redis_get r now (trip_eta_key i) = Some v"
    using assms(2) by (auto simp: cached_eta_def split: if_splits option.splits redis_value.splits)
  with assms(1) show ?thesis by (blast dest: typed_get fits_board)
qed

lemma typed_trip_eta:
  assumes "typed uuid_of iso_of r"
  shows "trip_eta uuid_of iso_of uuid_text up now r i \<noteq> Inl (Uncaught e)"
  by (auto simp: trip_eta_def split: option.split dest: typed_cached_eta [OF assms])

lemma arrival_reads: "arrival_out_of uuid_of iso_of a \<noteq> None \<Longrightarrow> \<exists>b. bus_arrival_of iso_of now s c a = Some b"
  by (auto simp: arrival_out_of_def bus_arrival_of_def split: option.splits jval.splits sum.splits prod.splits)

lemma typed_stop_arrivals:
  assumes "typed uuid_of iso_of r"
  shows "stop_arrivals iso_of uuid_text up now db r s n \<noteq> Inl (Uncaught e)"
proof -
  have one: "\<exists>a. arrival_on_board iso_of uuid_text up now r s c = Inr a" for c
  proof (cases "cached_eta up now r (uuid_text (fst c))")
    case (Some v)
    from typed_cached_eta [OF assms Some] obtain d as where v: "v = RBoard d as"
      "\<forall>a \<in> set as. arrival_out_of uuid_of iso_of a \<noteq> None" using board_of_eta by blast
    show ?thesis
    proof (cases "find (\<lambda>item. doc_get item ''stop_id'' = JStr (uuid_text s)) as")
      case None
      with Some v show ?thesis by (simp add: arrival_on_board_def)
    next
      case (Some item)
      then have "item \<in> set as" by (metis find_Some_iff nth_mem)
      with v(2) obtain b where "bus_arrival_of iso_of now s c item = Some b" using arrival_reads by blast
      with Some v \<open>cached_eta up now r (uuid_text (fst c)) = Some v\<close> show ?thesis by (simp add: arrival_on_board_def)
    qed
  qed (simp add: arrival_on_board_def)
  have "\<exists>as. all_arrivals (arrival_on_board iso_of uuid_text up now r s) cs = Inr as" for cs
  proof (induction cs)
    case (Cons c cs)
    with one [of c] show ?case by auto
  qed simp
  then show ?thesis by (auto simp: stop_arrivals_def split: option.split sum.split) (metis Inl_Inr_False)
qed

text \<open>
  C34. The store is well typed. Whatever calls of the API and passes of the worker have run since
  Redis was empty, in whatever order and with whatever outages, every value stands under a key whose
  readers can read it. So no reader meets another's value: a cached trip, principal, position, seat
  count or progress is unreadable only by being absent, and the arrival endpoints never end in an
  uncaught error.
\<close>

theorem every_cached_value_reads:
  assumes "\<And>i. lib_uuid_of lib (lib_uuid_text lib i) = Some i" "\<And>i. lib_uuid_text lib i \<noteq> []"
    and "\<And>t. iso_of (iso_text t) = Some t" "\<And>t. iso_text t \<noteq> []" "\<And>x. py_float (float_text x) \<noteq> None"
    and "(backend_step lib iso_text iso_of float_text)\<^sup>*\<^sup>* (world_of start db0 empty_redis) (world_of clock db r)"
  shows "(\<forall>k v e. re_data r k = Some (v, e) \<longrightarrow> fits (lib_uuid_of lib) iso_of k v) \<and>
    (\<forall>now h. cached_trip (lib_uuid_of lib) (lib_uuid_text lib) now r h = None \<longleftrightarrow>
      redis_get r now (helper_trip_key (lib_uuid_text lib h)) = None) \<and>
    (\<forall>now i. cached_principal (lib_uuid_of lib) (lib_uuid_text lib) now r i = None \<longleftrightarrow>
      redis_get r now (principal_key (lib_uuid_text lib i)) = None) \<and>
    (\<forall>now b. redis_get r now (bus_pos_key b) \<noteq> None \<longrightarrow>
      (\<exists>p. parse_position iso_of (Some (redis_hgetall r now (bus_pos_key b))) = Some p)) \<and>
    (\<forall>now b. redis_get r now (bus_seats_key b) \<noteq> None \<longrightarrow>
      (\<exists>n c. map_of (redis_hgetall r now (bus_seats_key b)) ''occupied'' = Some (int_str n) \<and>
        map_of (redis_hgetall r now (bus_seats_key b)) ''capacity'' = Some (int_str c))) \<and>
    (\<forall>now up i. \<exists>p. load_progress iso_of up now r i = Inr p \<and>
      (p = None \<longleftrightarrow> \<not> up \<or> redis_get r now (trip_progress_key i) = None)) \<and>
    (\<forall>up now i e. trip_eta (lib_uuid_of lib) iso_of (lib_uuid_text lib) up now r i \<noteq> Inl (Uncaught e)) \<and>
    (\<forall>up now db s n e. stop_arrivals iso_of (lib_uuid_text lib) up now db r s n \<noteq> Inl (Uncaught e))"
proof -
  have texts: "shared_texts (lib_uuid_text lib) (lib_uuid_of lib) iso_text iso_of float_text"
    using assms(1-5) by unfold_locales simp_all
  have "typed (lib_uuid_of lib) iso_of (w_redis w)"
    if "(backend_step lib iso_text iso_of float_text)\<^sup>*\<^sup>* (world_of start db0 empty_redis) w" for w
    using that by (induction rule: rtranclp_induct) (simp add: world_of_def typed_empty, blast intro: backend_step_typed [OF texts])
  from this [OF assms(6)] have t: "typed (lib_uuid_of lib) iso_of r" by (simp add: world_of_def)
  then have "\<forall>k v e. re_data r k = Some (v, e) \<longrightarrow> fits (lib_uuid_of lib) iso_of k v" by (simp add: typed_def)
  with typed_cached_trip [OF t] typed_cached_principal [OF t] typed_position [OF t] typed_seats [OF t]
    typed_progress [OF t] typed_trip_eta [OF t] typed_stop_arrivals [OF t] show ?thesis
    by (intro conjI allI) (assumption | simp | blast)+
qed

theorem every_cached_value_reads_witness:
  "\<exists>out r'. ingest_gps unary_of unary_text (\<lambda>_. ''1'') tally_iso_text True True True demo_now demo_db empty_redis 21 31 [demo_point] = (Inr out, r') \<and>
    (\<forall>k v e. re_data r' k = Some (v, e) \<longrightarrow> fits unary_of tally_iso_of k v) \<and>
    (\<forall>now b. redis_get r' now (bus_pos_key b) \<noteq> None \<longrightarrow>
      (\<exists>p. parse_position tally_iso_of (Some (redis_hgetall r' now (bus_pos_key b))) = Some p))"
proof -
  obtain out r' where i: "ingest_gps unary_of unary_text (\<lambda>_. ''1'') tally_iso_text True True True demo_now demo_db empty_redis 21 31
      [demo_point] = (Inr out, r')"
    using demo_ingest by blast
  then have "backend_step demo_lib tally_iso_text tally_iso_of (\<lambda>_. ''1'') (world_of demo_now demo_db empty_redis) (world_of demo_now demo_db r')"
    by (intro backend_step.gps) simp
  then have run: "(backend_step demo_lib tally_iso_text tally_iso_of (\<lambda>_. ''1''))\<^sup>*\<^sup>* (world_of demo_now demo_db empty_redis) (world_of demo_now demo_db r')"
    by blast
  have "unary_text i \<noteq> []" for i by (simp add: unary_text_def)
  with every_cached_value_reads [OF _ _ tally_iso(1) tally_iso(2) _ run] have
    "(\<forall>k v e. re_data r' k = Some (v, e) \<longrightarrow> fits unary_of tally_iso_of k v) \<and>
     (\<forall>now b. redis_get r' now (bus_pos_key b) \<noteq> None \<longrightarrow>
       (\<exists>p. parse_position tally_iso_of (Some (redis_hgetall r' now (bus_pos_key b))) = Some p))"
    by (simp add: unary py_float_one)
  with i show ?thesis by blast
qed

end
