(* ===== verification/Seed.thy ===== *)
theory Seed
  imports Settlement
begin

text \<open>
  The database seeder, first half: \<^verbatim>\<open>scripts/seed.py\<close> up to its wipe functions. Its
  tables of accounts, fleet and products; the groups, what must be wiped with them and in which
  order; what the database does on a DELETE (\<^verbatim>\<open>ON DELETE\<close> of the models); the counts
  and the wipes of the groups.
\<close>

section \<open>Static seed data\<close>

record seed_user =
  su_email :: string
  su_password :: string
  su_name :: string

record seed_helper = seed_user +
  sh_phone :: string

record seed_student = seed_user +
  ss_student_id_no :: string
  ss_department :: string
  ss_batch :: string

definition ADMIN :: seed_user where
  "ADMIN = \<lparr>su_email = ''admin@ulab.edu.bd'', su_password = ''Admin@1234'', su_name = ''Dev Admin''\<rparr>"

definition HELPERS :: "seed_helper list" where
  "HELPERS =
     [\<lparr>su_email = ''helper1@buscrew.com.bd'', su_password = ''Helper@1234'', su_name = ''Dev Helper 1'',
       sh_phone = ''+8801711111111''\<rparr>,
      \<lparr>su_email = ''helper2@buscrew.com.bd'', su_password = ''Helper@1234'', su_name = ''Dev Helper 2'',
       sh_phone = ''+8801722222222''\<rparr>]"

definition STUDENTS :: "seed_student list" where
  "STUDENTS =
     [\<lparr>su_email = ''student1@ulab.edu.bd'', su_password = ''Student@1234'', su_name = ''Alice Rahman'',
       ss_student_id_no = ''CSE-2021-001'', ss_department = ''CSE'', ss_batch = ''2021''\<rparr>,
      \<lparr>su_email = ''student2@ulab.edu.bd'', su_password = ''Student@1234'', su_name = ''Bob Hossain'',
       ss_student_id_no = ''EEE-2022-002'', ss_department = ''EEE'', ss_batch = ''2022''\<rparr>,
      \<lparr>su_email = ''student3@ulab.edu.bd'', su_password = ''Student@1234'', su_name = ''Carol Islam'',
       ss_student_id_no = ''BBA-2023-003'', ss_department = ''BBA'', ss_batch = ''2023''\<rparr>]"

definition ALL_EMAILS :: "string list" where
  "ALL_EMAILS = su_email ADMIN # map su_email HELPERS @ map su_email STUDENTS"

record seed_bus =
  sb_reg_no :: string
  sb_nickname :: string
  sb_capacity :: int
  sb_status :: bus_status

definition BUSES :: "seed_bus list" where
  "BUSES =
     [\<lparr>sb_reg_no = ''UA-METRO-01'', sb_nickname = ''Campus Express 1'', sb_capacity = 45, sb_status = Bus_active\<rparr>,
      \<lparr>sb_reg_no = ''UA-METRO-02'', sb_nickname = ''Campus Express 2'', sb_capacity = 45, sb_status = Bus_active\<rparr>,
      \<lparr>sb_reg_no = ''UA-METRO-03'', sb_nickname = ''City Link'', sb_capacity = 30, sb_status = Bus_active\<rparr>,
      \<lparr>sb_reg_no = ''UA-METRO-04'', sb_nickname = ''Night Runner'', sb_capacity = 30, sb_status = Bus_inactive\<rparr>]"

text \<open>Name, latitude and longitude, south to north.\<close>

definition STOPS :: "(string \<times> real \<times> real) list" where
  "STOPS =
     [(''Dhanmondi 27'', 23.7561, 90.3720), (''Kalabagan'', 23.7480, 90.3830),
      (''Farmgate'', 23.7583, 90.3897), (''Mohakhali'', 23.7806, 90.4053),
      (''Banani'', 23.7936, 90.4043), (''Airport'', 23.8513, 90.4085),
      (''Uttara Sector 7'', 23.8759, 90.3795)]"

definition ROUTE_NAME :: string where "ROUTE_NAME = ''Campus Shuttle''"

definition ROUTE_OFFSETS :: "int list" where "ROUTE_OFFSETS = [0, 8, 18, 32, 40, 58, 70]"

record seed_product =
  sq_name :: string
  sq_type :: product_type
  sq_price_paisa :: int
  sq_ride_count :: "int option"
  sq_validity_days :: int

definition PRODUCTS :: "seed_product list" where
  "PRODUCTS =
     [\<lparr>sq_name = ''Single Ride'', sq_type = Product_single, sq_price_paisa = 3000,
       sq_ride_count = Some 1, sq_validity_days = 7\<rparr>,
      \<lparr>sq_name = ''10-Ride Pack'', sq_type = Product_bulk, sq_price_paisa = 25000,
       sq_ride_count = Some 10, sq_validity_days = 60\<rparr>,
      \<lparr>sq_name = ''Monthly Pass'', sq_type = Product_package, sq_price_paisa = 90000,
       sq_ride_count = None, sq_validity_days = 30\<rparr>]"

definition SEED_TRAN_PREFIX :: string where "SEED_TRAN_PREFIX = ''SEED-''"

section \<open>Groups, their order and their wipe dependencies\<close>

datatype seed_group = Users | Buses | Stops | Routes | Trips | Reports | Alerts | Commerce

definition SEED_ORDER :: "seed_group list" where
  "SEED_ORDER = [Users, Buses, Stops, Routes, Trips, Reports, Alerts, Commerce]"

fun WIPE_REQUIRES :: "seed_group \<Rightarrow> seed_group list" where
  "WIPE_REQUIRES Alerts = []"
| "WIPE_REQUIRES Reports = []"
| "WIPE_REQUIRES Trips = []"
| "WIPE_REQUIRES Commerce = []"
| "WIPE_REQUIRES Routes = [Trips]"
| "WIPE_REQUIRES Stops = [Trips, Routes]"
| "WIPE_REQUIRES Buses = [Trips]"
| "WIPE_REQUIRES Users = [Trips, Commerce]"

definition WIPE_ORDER :: "seed_group list" where "WIPE_ORDER = rev SEED_ORDER"

text \<open>
  A Python set is the list of its elements without repetitions; \<^verbatim>\<open>list(needed)\<close>
  enumerates it in an order of its own, the argument \<open>listed\<close>. One round walks the
  enumeration made at its start and adds to the set meanwhile; a round that added something is
  followed by another, which is the loop.
\<close>

fun need_dep :: "seed_group \<Rightarrow> seed_group list \<times> bool \<Rightarrow> seed_group list \<times> bool" where
  "need_dep dep (needed, changed) = (if dep \<in> set needed then (needed, changed) else (dep # needed, True))"

definition expand_round ::
  "(seed_group list \<Rightarrow> seed_group list) \<Rightarrow> seed_group list \<Rightarrow> seed_group list \<times> bool" where
  "expand_round listed needed = fold (\<lambda>g. fold need_dep (WIPE_REQUIRES g)) (listed needed) (needed, False)"

partial_function (option) expand_loop ::
  "(seed_group list \<Rightarrow> seed_group list) \<Rightarrow> seed_group list \<Rightarrow> seed_group list option" where
  "expand_loop listed needed =
     (case expand_round listed needed of
        (needed', changed) \<Rightarrow> if changed then expand_loop listed needed' else Some needed')"

definition expand_wipe_set ::
  "(seed_group list \<Rightarrow> seed_group list) \<Rightarrow> seed_group list \<Rightarrow> seed_group list option" where
  "expand_wipe_set listed groups = expand_loop listed (remdups groups)"

section \<open>The loop ends, with the closure\<close>

abbreviation requires :: "(seed_group \<times> seed_group) set" where
  "requires \<equiv> {(g, d). d \<in> set (WIPE_REQUIRES g)}"

abbreviation listing :: "(seed_group list \<Rightarrow> seed_group list) \<Rightarrow> bool" where
  "listing listed \<equiv> \<forall>needed. set (listed needed) = set needed"

lemma need_deps:
  assumes "fold need_dep ds (needed, changed) = (needed', changed')" "distinct needed"
  shows "set needed' = set needed \<union> set ds \<and> distinct needed' \<and> (changed' \<longleftrightarrow> changed \<or> \<not> set ds \<subseteq> set needed)"
  using assms
proof (induction ds arbitrary: needed changed)
  case (Cons d ds)
  show ?case
  proof (cases "d \<in> set needed")
    case True
    with Cons.prems have "fold need_dep ds (needed, changed) = (needed', changed')" by simp
    from Cons.IH [OF this Cons.prems(2)] True show ?thesis by auto
  next
    case False
    with Cons.prems have "fold need_dep ds (d # needed, True) = (needed', changed')" by simp
    from Cons.IH [OF this] False Cons.prems(2) show ?thesis by auto
  qed
qed simp

lemma need_rounds:
  assumes "fold (\<lambda>g. fold need_dep (WIPE_REQUIRES g)) gs (needed, changed) = (needed', changed')" "distinct needed"
  shows "set needed' = set needed \<union> requires `` set gs \<and> distinct needed' \<and>
    (changed' \<longleftrightarrow> changed \<or> \<not> requires `` set gs \<subseteq> set needed)"
  using assms
proof (induction gs arbitrary: needed changed)
  case (Cons g gs)
  obtain n1 c1 where one: "fold need_dep (WIPE_REQUIRES g) (needed, changed) = (n1, c1)" by fastforce
  with Cons.prems have "fold (\<lambda>g. fold need_dep (WIPE_REQUIRES g)) gs (n1, c1) = (needed', changed')" by simp
  with need_deps [OF one Cons.prems(2)] Cons.IH [of n1 c1] show ?case by auto
qed simp

lemma expand_round:
  assumes "expand_round listed needed = (needed', changed)" "listing listed" "distinct needed"
  shows "set needed' = set needed \<union> requires `` set needed" "distinct needed'"
    "changed \<longleftrightarrow> \<not> requires `` set needed \<subseteq> set needed"
  using need_rounds [of "listed needed" needed False needed' changed] assms by (auto simp: expand_round_def)

lemma finite_groups: "finite (A :: seed_group set)"
proof -
  have "A \<subseteq> set SEED_ORDER"
  proof
    fix g assume "g \<in> A"
    show "g \<in> set SEED_ORDER" by (cases g) (simp_all add: SEED_ORDER_def)
  qed
  then show ?thesis by (rule finite_subset) simp
qed

lemma closed_under:
  assumes "R `` A \<subseteq> A"
  shows "R\<^sup>* `` A = A"
proof -
  have "y \<in> A" if "(x, y) \<in> R\<^sup>*" "x \<in> A" for x y
    using that(1,2) assms by (induction rule: rtrancl_induct) auto
  then show ?thesis by blast
qed

text \<open>What is not yet needed shrinks with every round that changes the set.\<close>

lemma expand_loop_closure:
  assumes "listing listed" "distinct needed"
  shows "\<exists>all. expand_loop listed needed = Some all \<and> set all = requires\<^sup>* `` set needed \<and> distinct all"
  using assms(2)
proof (induction needed rule: measure_induct_rule [of "\<lambda>needed. card (- set needed)"])
  case (less needed)
  obtain n' c where round: "expand_round listed needed = (n', c)" by fastforce
  note facts = expand_round [OF round assms(1) less.prems]
  show ?case
  proof (cases c)
    case True
    with facts have "set needed \<subset> set n'" by auto
    then have "card (- set n') < card (- set needed)" by (intro psubset_card_mono) (auto simp: finite_groups)
    from less.IH [OF this facts(2)] obtain all where all: "expand_loop listed n' = Some all"
      "set all = requires\<^sup>* `` set n'" "distinct all" by blast
    have "requires\<^sup>* `` (A \<union> requires `` A) = requires\<^sup>* `` A" for A
      by (auto intro: converse_rtrancl_into_rtrancl)
    with all(2) facts(1) have "set all = requires\<^sup>* `` set needed" by metis
    with all round True show ?thesis by (simp add: expand_loop.simps [of listed needed])
  next
    case False
    with facts have "set n' = set needed" "requires `` set needed \<subseteq> set needed" by auto
    with closed_under [of requires "set needed"] facts(2) round False show ?thesis
      by (simp add: expand_loop.simps [of listed needed])
  qed
qed

lemma filter_split:
  "filter P zs = xs @ y # ys \<Longrightarrow> \<exists>us vs. zs = us @ y # vs \<and> xs = filter P us \<and> P y"
proof (induction zs arbitrary: xs)
  case (Cons z zs)
  show ?case
  proof (cases "P z \<and> xs = []")
    case True
    with Cons.prems have "z # zs = [] @ y # zs" "xs = filter P []" "P y" by auto
    then show ?thesis by blast
  next
    case False
    with Cons.prems have "filter P zs = (if P z then tl xs else xs) @ y # ys" by (cases xs) auto
    from Cons.IH [OF this] obtain us vs where "zs = us @ y # vs" "(if P z then tl xs else xs) = filter P us" "P y"
      by blast
    with False Cons.prems have "z # zs = (z # us) @ y # vs" "xs = filter P (z # us)" by (cases xs; auto)+
    with \<open>P y\<close> show ?thesis by blast
  qed
qed simp

lemma order_serves:
  assumes "filter (\<lambda>g. g \<in> W) WIPE_ORDER = xs @ g # ys" "requires `` W \<subseteq> W"
  shows "set (WIPE_REQUIRES g) \<subseteq> set xs"
proof -
  from assms(1) obtain us vs where split: "WIPE_ORDER = us @ g # vs" "xs = filter (\<lambda>g. g \<in> W) us" "g \<in> W"
    using filter_split [OF assms(1)] by blast
  have "set (WIPE_REQUIRES g) \<subseteq> set us"
    using split(1) by (cases g) (auto simp: WIPE_ORDER_def SEED_ORDER_def Cons_eq_append_conv)
  with split assms(2) show ?thesis by auto
qed

text \<open>
  C35. The wipe set is computed: whatever the order in which Python enumerates its set, the loop
  of \<^verbatim>\<open>_expand_wipe_set\<close> ends, with exactly the groups that the requested ones depend on,
  directly or through others; and wiping them in \<^verbatim>\<open>_WIPE_ORDER\<close> wipes before each group
  everything it requires.
\<close>

theorem wipe_set_is_the_closure:
  assumes "\<forall>needed. set (listed needed) = set needed"
  shows "\<exists>needed. expand_wipe_set listed groups = Some needed \<and> distinct needed \<and>
    set needed = {(g, d). d \<in> set (WIPE_REQUIRES g)}\<^sup>* `` set groups \<and>
    set (filter (\<lambda>g. g \<in> set needed) WIPE_ORDER) = set needed \<and>
    (\<forall>xs g ys. filter (\<lambda>g. g \<in> set needed) WIPE_ORDER = xs @ g # ys \<longrightarrow> set (WIPE_REQUIRES g) \<subseteq> set xs)"
proof -
  from expand_loop_closure [OF assms, of "remdups groups"] obtain needed where needed:
    "expand_wipe_set listed groups = Some needed" "set needed = requires\<^sup>* `` set groups" "distinct needed"
    by (auto simp: expand_wipe_set_def)
  from needed(2) have "requires `` set needed \<subseteq> set needed" by (auto intro: rtrancl_into_rtrancl)
  moreover have "g \<in> set WIPE_ORDER" for g by (cases g) (simp_all add: WIPE_ORDER_def SEED_ORDER_def)
  ultimately show ?thesis using needed order_serves [of "set needed"] by (intro exI [of _ needed]) auto
qed

theorem wipe_set_is_the_closure_witness:
  "\<exists>needed. expand_wipe_set rev [Stops, Users] = Some needed \<and> distinct needed \<and>
    set needed = {(g, d). d \<in> set (WIPE_REQUIRES g)}\<^sup>* `` {Stops, Users}"
  using wipe_set_is_the_closure [of rev "[Stops, Users]"] by auto


section \<open>What the database does on a DELETE\<close>

text \<open>
  Rows that reference a deleted row go with it (\<open>CASCADE\<close>) or lose the reference
  (\<open>SET NULL\<close>); a reference declared \<open>RESTRICT\<close> would be left dangling, so the constraints
  refuse the statement. The count is the number of rows of the named table that went.
\<close>

definition nulled :: "uuid list \<Rightarrow> uuid option \<Rightarrow> uuid option" where
  "nulled gone x = (case x of None \<Rightarrow> None | Some i \<Rightarrow> if i \<in> set gone then None else Some i)"

definition statement :: "nat \<Rightarrow> database \<Rightarrow> db_error + nat \<times> database" where
  "statement n db = (case commit db of Inl e \<Rightarrow> Inl e | Inr db' \<Rightarrow> Inr (n, db'))"

abbreviation kept :: "('r \<Rightarrow> bool) \<Rightarrow> 'r list \<Rightarrow> 'r list" where "kept P rows \<equiv> filter (\<lambda>r. \<not> P r) rows"

definition delete_alerts :: "(alert \<Rightarrow> bool) \<Rightarrow> database \<Rightarrow> db_error + nat \<times> database" where
  "delete_alerts P db = statement (length (filter P (db_alerts db))) (db\<lparr>db_alerts := kept P (db_alerts db)\<rparr>)"

definition delete_reports :: "(seat_report \<Rightarrow> bool) \<Rightarrow> database \<Rightarrow> db_error + nat \<times> database" where
  "delete_reports P db = statement (length (filter P (db_seat_reports db)))
     (db\<lparr>db_seat_reports := kept P (db_seat_reports db)\<rparr>)"

definition without_trips :: "(trip \<Rightarrow> bool) \<Rightarrow> database \<Rightarrow> database" where
  "without_trips P db =
     (let gone = map tr_id (filter P (db_trips db)) in
      db\<lparr>db_trips := kept P (db_trips db),
        db_seat_reports := kept (\<lambda>s. se_trip_id s \<in> set gone) (db_seat_reports db),
        db_alerts := map (\<lambda>a. a\<lparr>al_trip_id := nulled gone (al_trip_id a)\<rparr>) (db_alerts db),
        db_redemptions := map (\<lambda>r. r\<lparr>rd_trip_id := nulled gone (rd_trip_id r)\<rparr>) (db_redemptions db)\<rparr>)"

definition delete_trips :: "(trip \<Rightarrow> bool) \<Rightarrow> database \<Rightarrow> db_error + nat \<times> database" where
  "delete_trips P db = statement (length (filter P (db_trips db))) (without_trips P db)"

definition without_routes :: "(route \<Rightarrow> bool) \<Rightarrow> database \<Rightarrow> database" where
  "without_routes P db =
     (let gone = map rt_id (filter P (db_routes db)) in
      db\<lparr>db_routes := kept P (db_routes db),
        db_route_stops := kept (\<lambda>r. rs_route_id r \<in> set gone) (db_route_stops db),
        db_products := map (\<lambda>p. p\<lparr>pr_route_scope := nulled gone (pr_route_scope p)\<rparr>) (db_products db)\<rparr>)"

definition delete_routes :: "(route \<Rightarrow> bool) \<Rightarrow> database \<Rightarrow> db_error + nat \<times> database" where
  "delete_routes P db = statement (length (filter P (db_routes db))) (without_routes P db)"

definition delete_stops :: "(stop \<Rightarrow> bool) \<Rightarrow> database \<Rightarrow> db_error + nat \<times> database" where
  "delete_stops P db = statement (length (filter P (db_stops db))) (db\<lparr>db_stops := kept P (db_stops db)\<rparr>)"

definition without_buses :: "(bus \<Rightarrow> bool) \<Rightarrow> database \<Rightarrow> database" where
  "without_buses P db =
     (let gone = map bs_id (filter P (db_buses db)) in
      db\<lparr>db_buses := kept P (db_buses db),
        db_alerts := map (\<lambda>a. a\<lparr>al_bus_id := nulled gone (al_bus_id a)\<rparr>) (db_alerts db)\<rparr>)"

definition delete_buses :: "(bus \<Rightarrow> bool) \<Rightarrow> database \<Rightarrow> db_error + nat \<times> database" where
  "delete_buses P db = statement (length (filter P (db_buses db))) (without_buses P db)"

definition without_users :: "(user \<Rightarrow> bool) \<Rightarrow> database \<Rightarrow> database" where
  "without_users P db =
     (let gone = map us_id (filter P (db_users db)) in
      db\<lparr>db_users := kept P (db_users db),
        db_students := kept (\<lambda>s. st_user_id s \<in> set gone) (db_students db),
        db_helpers := map (\<lambda>h. h\<lparr>hp_approved_by := nulled gone (hp_approved_by h)\<rparr>)
          (kept (\<lambda>h. hp_user_id h \<in> set gone) (db_helpers db)),
        db_alerts := map (\<lambda>a. a\<lparr>al_raised_by := nulled gone (al_raised_by a),
          al_acknowledged_by := nulled gone (al_acknowledged_by a)\<rparr>) (db_alerts db)\<rparr>)"

definition delete_users :: "(user \<Rightarrow> bool) \<Rightarrow> database \<Rightarrow> db_error + nat \<times> database" where
  "delete_users P db = statement (length (filter P (db_users db))) (without_users P db)"

definition delete_redemptions :: "(redemption \<Rightarrow> bool) \<Rightarrow> database \<Rightarrow> db_error + nat \<times> database" where
  "delete_redemptions P db = statement (length (filter P (db_redemptions db)))
     (db\<lparr>db_redemptions := kept P (db_redemptions db)\<rparr>)"

definition delete_tickets :: "(ticket \<Rightarrow> bool) \<Rightarrow> database \<Rightarrow> db_error + nat \<times> database" where
  "delete_tickets P db = statement (length (filter P (db_tickets db))) (db\<lparr>db_tickets := kept P (db_tickets db)\<rparr>)"

definition delete_orders :: "(order \<Rightarrow> bool) \<Rightarrow> database \<Rightarrow> db_error + nat \<times> database" where
  "delete_orders P db = statement (length (filter P (db_orders db))) (db\<lparr>db_orders := kept P (db_orders db)\<rparr>)"

definition delete_products :: "(ticket_product \<Rightarrow> bool) \<Rightarrow> database \<Rightarrow> db_error + nat \<times> database" where
  "delete_products P db = statement (length (filter P (db_products db)))
     (db\<lparr>db_products := kept P (db_products db)\<rparr>)"

section \<open>Counts\<close>

text \<open>The ids of the seed's users, helpers and products, as the sub-selects find them.\<close>

definition seed_user_ids :: "database \<Rightarrow> uuid list" where
  "seed_user_ids db = map us_id (filter (\<lambda>u. us_email u \<in> set ALL_EMAILS) (db_users db))"

definition seed_helper_ids :: "database \<Rightarrow> uuid list" where
  "seed_helper_ids db =
     (let uids = map us_id (filter (\<lambda>u. us_email u \<in> set (map su_email HELPERS)) (db_users db)) in
      if uids = [] then [] else map hp_id (filter (\<lambda>h. hp_user_id h \<in> set uids) (db_helpers db)))"

definition seed_product_ids :: "database \<Rightarrow> uuid list" where
  "seed_product_ids db = map pr_id (filter (\<lambda>p. pr_name p \<in> set (map sq_name PRODUCTS)) (db_products db))"

definition count_users :: "database \<Rightarrow> nat" where
  "count_users db = length (filter (\<lambda>u. us_email u \<in> set ALL_EMAILS) (db_users db))"

definition count_buses :: "database \<Rightarrow> nat" where
  "count_buses db = length (filter (\<lambda>b. bs_reg_no b \<in> set (map sb_reg_no BUSES)) (db_buses db))"

definition count_stops :: "database \<Rightarrow> nat" where
  "count_stops db = length (filter (\<lambda>s. sp_name s \<in> set (map fst STOPS)) (db_stops db))"

definition count_routes :: "database \<Rightarrow> nat" where
  "count_routes db = length (filter (\<lambda>r. rt_name r = ROUTE_NAME) (db_routes db))"

definition count_trips :: "database \<Rightarrow> nat" where
  "count_trips db =
     (let hids = seed_helper_ids db in
      if hids = [] then 0 else length (filter (\<lambda>t. tr_helper_id t \<in> set hids) (db_trips db)))"

definition count_reports :: "database \<Rightarrow> nat" where
  "count_reports db =
     (let hids = seed_helper_ids db in
      if hids = [] then 0 else length (filter (\<lambda>s. se_helper_id s \<in> set hids) (db_seat_reports db)))"

definition raised_by_seed :: "uuid list \<Rightarrow> alert \<Rightarrow> bool" where
  "raised_by_seed uids a = (case al_raised_by a of None \<Rightarrow> False | Some i \<Rightarrow> i \<in> set uids)"

definition count_alerts :: "database \<Rightarrow> nat" where
  "count_alerts db =
     (let uids = seed_user_ids db in
      if uids = [] then 0 else length (filter (raised_by_seed uids) (db_alerts db)))"

definition count_commerce :: "database \<Rightarrow> nat" where
  "count_commerce db = length (filter (\<lambda>p. pr_name p \<in> set (map sq_name PRODUCTS)) (db_products db))"

fun COUNT_FNS :: "seed_group \<Rightarrow> database \<Rightarrow> nat" where
  "COUNT_FNS Users = count_users"
| "COUNT_FNS Buses = count_buses"
| "COUNT_FNS Stops = count_stops"
| "COUNT_FNS Routes = count_routes"
| "COUNT_FNS Trips = count_trips"
| "COUNT_FNS Reports = count_reports"
| "COUNT_FNS Alerts = count_alerts"
| "COUNT_FNS Commerce = count_commerce"

section \<open>Wipes\<close>

definition wipe_alerts :: "database \<Rightarrow> db_error + nat \<times> database" where
  "wipe_alerts db =
     (let uids = seed_user_ids db in
      if uids = [] then Inr (0, db) else delete_alerts (raised_by_seed uids) db)"

definition wipe_reports :: "database \<Rightarrow> db_error + nat \<times> database" where
  "wipe_reports db =
     (let hids = seed_helper_ids db in
      if hids = [] then Inr (0, db) else delete_reports (\<lambda>s. se_helper_id s \<in> set hids) db)"

definition wipe_trips :: "database \<Rightarrow> db_error + nat \<times> database" where
  "wipe_trips db =
     (let hids = seed_helper_ids db in
      if hids = [] then Inr (0, db) else delete_trips (\<lambda>t. tr_helper_id t \<in> set hids) db)"

definition wipe_routes :: "database \<Rightarrow> db_error + nat \<times> database" where
  "wipe_routes db = delete_routes (\<lambda>r. rt_name r = ROUTE_NAME) db"

definition wipe_stops :: "database \<Rightarrow> db_error + nat \<times> database" where
  "wipe_stops db = delete_stops (\<lambda>s. sp_name s \<in> set (map fst STOPS)) db"

definition wipe_buses :: "database \<Rightarrow> db_error + nat \<times> database" where
  "wipe_buses db = delete_buses (\<lambda>b. bs_reg_no b \<in> set (map sb_reg_no BUSES)) db"

definition wipe_users :: "database \<Rightarrow> db_error + nat \<times> database" where
  "wipe_users db = delete_users (\<lambda>u. us_email u \<in> set ALL_EMAILS) db"

text \<open>Each statement evaluates its sub-select on what the ones before it left.\<close>

definition wipe_commerce :: "database \<Rightarrow> db_error + nat \<times> database" where
  "wipe_commerce db =
     (let ticket_ids = map tk_id (filter (\<lambda>t. tk_product_id t \<in> set (seed_product_ids db)) (db_tickets db)) in
      case delete_redemptions (\<lambda>r. rd_ticket_id r \<in> set ticket_ids) db of
        Inl e \<Rightarrow> Inl e
      | Inr (_, db1) \<Rightarrow>
      (case delete_tickets (\<lambda>t. tk_product_id t \<in> set (seed_product_ids db1)) db1 of
        Inl e \<Rightarrow> Inl e
      | Inr (_, db2) \<Rightarrow>
      (case delete_orders (\<lambda>x. or_product_id x \<in> set (seed_product_ids db2)) db2 of
        Inl e \<Rightarrow> Inl e
      | Inr (_, db3) \<Rightarrow> delete_products (\<lambda>p. pr_id p \<in> set (seed_product_ids db3)) db3)))"

fun WIPE_FNS :: "seed_group \<Rightarrow> database \<Rightarrow> db_error + nat \<times> database" where
  "WIPE_FNS Alerts = wipe_alerts"
| "WIPE_FNS Reports = wipe_reports"
| "WIPE_FNS Trips = wipe_trips"
| "WIPE_FNS Routes = wipe_routes"
| "WIPE_FNS Stops = wipe_stops"
| "WIPE_FNS Buses = wipe_buses"
| "WIPE_FNS Users = wipe_users"
| "WIPE_FNS Commerce = wipe_commerce"

fun wipe_each :: "seed_group list \<Rightarrow> database \<Rightarrow> db_error + database" where
  "wipe_each [] db = Inr db"
| "wipe_each (g # gs) db =
     (case WIPE_FNS g db of Inl e \<Rightarrow> Inl e | Inr (_, db') \<Rightarrow> wipe_each gs db')"

text \<open>
  Step 3 of \<^verbatim>\<open>_run\<close>: the groups of the wipe set in wipe order, one transaction, one
  commit. An error on the way leaves the database as it was.
\<close>

definition wipe_groups :: "seed_group list \<Rightarrow> database \<Rightarrow> db_error + database" where
  "wipe_groups wipe_set db =
     (case wipe_each (filter (\<lambda>g. g \<in> set wipe_set) WIPE_ORDER) db of
        Inl e \<Rightarrow> Inl e
      | Inr db' \<Rightarrow> commit db')"

section \<open>What a wipe removes\<close>

text \<open>
  The specification, in terms of the database before the wipe: which rows of each table are gone
  when the groups \<open>W\<close> were wiped. Rows that stay are as they were, except that a nullable reference
  to a row that went may be empty.
\<close>

abbreviation bare_helper :: "helper \<Rightarrow> helper" where "bare_helper h \<equiv> h\<lparr>hp_approved_by := None\<rparr>"

abbreviation bare_alert :: "alert \<Rightarrow> alert" where
  "bare_alert a \<equiv> a\<lparr>al_raised_by := None, al_trip_id := None, al_bus_id := None, al_acknowledged_by := None\<rparr>"

abbreviation bare_product :: "ticket_product \<Rightarrow> ticket_product" where
  "bare_product p \<equiv> p\<lparr>pr_route_scope := None\<rparr>"

abbreviation bare_redemption :: "redemption \<Rightarrow> redemption" where
  "bare_redemption r \<equiv> r\<lparr>rd_trip_id := None\<rparr>"

definition seed_ticket :: "database \<Rightarrow> ticket \<Rightarrow> bool" where
  "seed_ticket db t \<longleftrightarrow> tk_product_id t \<in> set (seed_product_ids db)"

definition seed_trip :: "database \<Rightarrow> trip \<Rightarrow> bool" where
  "seed_trip db t \<longleftrightarrow> tr_helper_id t \<in> set (seed_helper_ids db)"

definition wiped_people :: "seed_group set \<Rightarrow> database \<Rightarrow> database \<Rightarrow> bool" where
  "wiped_people W db db' \<longleftrightarrow>
     db_users db' = kept (\<lambda>u. Users \<in> W \<and> us_email u \<in> set ALL_EMAILS) (db_users db) \<and>
     db_students db' = kept (\<lambda>s. Users \<in> W \<and> st_user_id s \<in> set (seed_user_ids db)) (db_students db) \<and>
     map bare_helper (db_helpers db') =
       map bare_helper (kept (\<lambda>h. Users \<in> W \<and> hp_user_id h \<in> set (seed_user_ids db)) (db_helpers db)) \<and>
     map bare_alert (db_alerts db') =
       map bare_alert (kept (\<lambda>a. Alerts \<in> W \<and> raised_by_seed (seed_user_ids db) a) (db_alerts db))"

definition wiped_fleet :: "seed_group set \<Rightarrow> database \<Rightarrow> database \<Rightarrow> bool" where
  "wiped_fleet W db db' \<longleftrightarrow>
     db_buses db' = kept (\<lambda>b. Buses \<in> W \<and> bs_reg_no b \<in> set (map sb_reg_no BUSES)) (db_buses db) \<and>
     db_stops db' = kept (\<lambda>s. Stops \<in> W \<and> sp_name s \<in> set (map fst STOPS)) (db_stops db) \<and>
     db_routes db' = kept (\<lambda>r. Routes \<in> W \<and> rt_name r = ROUTE_NAME) (db_routes db) \<and>
     db_route_stops db' = kept (\<lambda>s. Routes \<in> W \<and>
       rs_route_id s \<in> rt_id ` {r \<in> set (db_routes db). rt_name r = ROUTE_NAME}) (db_route_stops db) \<and>
     db_trips db' = kept (\<lambda>t. Trips \<in> W \<and> seed_trip db t) (db_trips db) \<and>
     db_seat_reports db' = kept (\<lambda>s. Reports \<in> W \<and> se_helper_id s \<in> set (seed_helper_ids db) \<or>
       Trips \<in> W \<and> se_trip_id s \<in> tr_id ` {t \<in> set (db_trips db). seed_trip db t}) (db_seat_reports db)"

definition wiped_shop :: "seed_group set \<Rightarrow> database \<Rightarrow> database \<Rightarrow> bool" where
  "wiped_shop W db db' \<longleftrightarrow>
     map bare_product (db_products db') =
       map bare_product (kept (\<lambda>p. Commerce \<in> W \<and> pr_id p \<in> set (seed_product_ids db)) (db_products db)) \<and>
     db_orders db' = kept (\<lambda>x. Commerce \<in> W \<and> or_product_id x \<in> set (seed_product_ids db)) (db_orders db) \<and>
     db_tickets db' = kept (\<lambda>t. Commerce \<in> W \<and> seed_ticket db t) (db_tickets db) \<and>
     map bare_redemption (db_redemptions db') = map bare_redemption (kept (\<lambda>r. Commerce \<in> W \<and>
       rd_ticket_id r \<in> tk_id ` {t \<in> set (db_tickets db). seed_ticket db t}) (db_redemptions db))"

text \<open>The effect of one group's statements, the constraints apart.\<close>

fun wipe_effect :: "seed_group \<Rightarrow> database \<Rightarrow> database" where
  "wipe_effect Alerts db = db\<lparr>db_alerts := kept (raised_by_seed (seed_user_ids db)) (db_alerts db)\<rparr>"
| "wipe_effect Reports db =
     db\<lparr>db_seat_reports := kept (\<lambda>s. se_helper_id s \<in> set (seed_helper_ids db)) (db_seat_reports db)\<rparr>"
| "wipe_effect Trips db = without_trips (seed_trip db) db"
| "wipe_effect Routes db = without_routes (\<lambda>r. rt_name r = ROUTE_NAME) db"
| "wipe_effect Stops db = db\<lparr>db_stops := kept (\<lambda>s. sp_name s \<in> set (map fst STOPS)) (db_stops db)\<rparr>"
| "wipe_effect Buses db = without_buses (\<lambda>b. bs_reg_no b \<in> set (map sb_reg_no BUSES)) db"
| "wipe_effect Users db = without_users (\<lambda>u. us_email u \<in> set ALL_EMAILS) db"
| "wipe_effect Commerce db =
     db\<lparr>db_redemptions := kept (\<lambda>r. rd_ticket_id r \<in> tk_id ` {t \<in> set (db_tickets db). seed_ticket db t}) (db_redemptions db),
       db_tickets := kept (seed_ticket db) (db_tickets db),
       db_orders := kept (\<lambda>x. or_product_id x \<in> set (seed_product_ids db)) (db_orders db),
       db_products := kept (\<lambda>p. pr_id p \<in> set (seed_product_ids db)) (db_products db)\<rparr>"

lemma nulled_Nil [simp]: "nulled [] x = x"
  by (simp add: nulled_def split: option.split)

lemma statement_Inr [dest!]: "statement n db = Inr (k, db') \<Longrightarrow> k = n \<and> db' = db \<and> db_ok db"
  by (auto simp: statement_def split: sum.splits)

lemma without_none [simp]: "without_trips (\<lambda>_. False) db = db"
  by (simp add: without_trips_def)

lemma seed_product_ids_cong [simp]:
  "seed_product_ids (db\<lparr>db_redemptions := x\<rparr>) = seed_product_ids db"
  "seed_product_ids (db\<lparr>db_tickets := y\<rparr>) = seed_product_ids db"
  "seed_product_ids (db\<lparr>db_orders := z\<rparr>) = seed_product_ids db"
  by (simp_all add: seed_product_ids_def)

lemmas delete_defs = delete_alerts_def delete_reports_def delete_trips_def delete_routes_def delete_stops_def
  delete_buses_def delete_users_def delete_redemptions_def delete_tickets_def delete_orders_def delete_products_def

lemmas wipe_defs = wipe_alerts_def wipe_reports_def wipe_trips_def wipe_routes_def wipe_stops_def
  wipe_buses_def wipe_users_def

lemma no_helper_trips: "seed_helper_ids db = [] \<Longrightarrow> seed_trip db = (\<lambda>_. False)"
  by (simp add: seed_trip_def fun_eq_iff)

lemma no_seed_alerts: "raised_by_seed [] = (\<lambda>_. False)"
  by (simp add: raised_by_seed_def fun_eq_iff split: option.split)

lemma wipe_commerce_effect:
  assumes "wipe_commerce db = Inr (n, db')"
  shows "db' = wipe_effect Commerce db \<and> db_ok db'"
proof -
  have "rd_ticket_id r \<in> tk_id ` {t \<in> set (db_tickets db). seed_ticket db t} \<longleftrightarrow>
    rd_ticket_id r \<in> set (map tk_id (filter (\<lambda>t. tk_product_id t \<in> set (seed_product_ids db)) (db_tickets db)))" for r
    by (auto simp: seed_ticket_def)
  moreover have "seed_ticket db = (\<lambda>t. tk_product_id t \<in> set (seed_product_ids db))"
    by (simp add: seed_ticket_def fun_eq_iff)
  ultimately show ?thesis
    using assms by (auto simp: wipe_commerce_def Let_def delete_defs split: sum.splits)
qed

lemma wipe_fn_effect:
  assumes "WIPE_FNS g db = Inr (n, db')" "db_ok db"
  shows "db' = wipe_effect g db \<and> db_ok db'"
proof (cases g)
  case Commerce
  with assms(1) wipe_commerce_effect show ?thesis by simp
qed (use assms in \<open>auto simp: wipe_defs Let_def delete_defs seed_trip_def [abs_def] no_seed_alerts split: if_splits\<close>)

lemma wipe_each_effect:
  assumes "wipe_each gs db = Inr db'" "db_ok db"
  shows "db' = fold wipe_effect gs db \<and> db_ok db'"
  using assms
proof (induction gs arbitrary: db)
  case (Cons g gs)
  then obtain n d where one: "WIPE_FNS g db = Inr (n, d)" "wipe_each gs d = Inr db'"
    by (auto split: sum.splits)
  from wipe_fn_effect [OF one(1) Cons.prems(2)] Cons.IH [OF one(2)] show ?case by auto
qed simp

definition wipe_if :: "seed_group set \<Rightarrow> seed_group \<Rightarrow> database \<Rightarrow> database" where
  "wipe_if W g db = (if g \<in> W then wipe_effect g db else db)"

lemma fold_wipe_if: "fold wipe_effect (filter (\<lambda>g. g \<in> W) gs) db = fold (wipe_if W) gs db"
  by (induction gs arbitrary: db) (auto simp: wipe_if_def)

lemmas without_defs = without_trips_def without_routes_def without_buses_def without_users_def

lemma wipe_if_people_1:
  "db_users (wipe_if W g db) = kept (\<lambda>u. g = Users \<and> Users \<in> W \<and> us_email u \<in> set ALL_EMAILS) (db_users db)"
  by (cases g) (simp_all add: wipe_if_def without_defs Let_def seed_user_ids_def o_def)

lemma wipe_if_people_2:
  "db_students (wipe_if W g db) =
     kept (\<lambda>s. g = Users \<and> Users \<in> W \<and> st_user_id s \<in> set (seed_user_ids db)) (db_students db)"
  by (cases g) (simp_all add: wipe_if_def without_defs Let_def seed_user_ids_def o_def)

lemma wipe_if_people_3:
  "map bare_helper (db_helpers (wipe_if W g db)) =
     map bare_helper (kept (\<lambda>h. g = Users \<and> Users \<in> W \<and> hp_user_id h \<in> set (seed_user_ids db)) (db_helpers db))"
  by (cases g) (simp_all add: wipe_if_def without_defs Let_def seed_user_ids_def o_def)

lemma wipe_if_people_4:
  "map bare_alert (db_alerts (wipe_if W g db)) =
     map bare_alert (kept (\<lambda>a. g = Alerts \<and> Alerts \<in> W \<and> raised_by_seed (seed_user_ids db) a) (db_alerts db))"
  by (cases g) (simp_all add: wipe_if_def without_defs Let_def seed_user_ids_def o_def)

lemmas wipe_if_people = wipe_if_people_1 wipe_if_people_2 wipe_if_people_3 wipe_if_people_4

lemma wipe_if_fleet_1:
  "db_buses (wipe_if W g db) =
     kept (\<lambda>b. g = Buses \<and> Buses \<in> W \<and> bs_reg_no b \<in> set (map sb_reg_no BUSES)) (db_buses db)"
  by (cases g) (simp_all add: wipe_if_def without_defs Let_def)

lemma wipe_if_fleet_2:
  "db_stops (wipe_if W g db) =
     kept (\<lambda>s. g = Stops \<and> Stops \<in> W \<and> sp_name s \<in> set (map fst STOPS)) (db_stops db)"
  by (cases g) (simp_all add: wipe_if_def without_defs Let_def)

lemma wipe_if_fleet_3:
  "db_routes (wipe_if W g db) = kept (\<lambda>r. g = Routes \<and> Routes \<in> W \<and> rt_name r = ROUTE_NAME) (db_routes db)"
  by (cases g) (simp_all add: wipe_if_def without_defs Let_def)

lemma wipe_if_fleet_4:
  "db_route_stops (wipe_if W g db) = kept (\<lambda>s. g = Routes \<and> Routes \<in> W \<and>
     rs_route_id s \<in> rt_id ` {r \<in> set (db_routes db). rt_name r = ROUTE_NAME}) (db_route_stops db)"
  by (cases g) (simp_all add: wipe_if_def without_defs Let_def)

lemma wipe_if_fleet_5:
  "db_trips (wipe_if W g db) = kept (\<lambda>t. g = Trips \<and> Trips \<in> W \<and> seed_trip db t) (db_trips db)"
  by (cases g) (simp_all add: wipe_if_def without_defs Let_def)

lemma wipe_if_fleet_6:
  "db_seat_reports (wipe_if W g db) =
     kept (\<lambda>s. g = Reports \<and> Reports \<in> W \<and> se_helper_id s \<in> set (seed_helper_ids db) \<or>
       g = Trips \<and> Trips \<in> W \<and> se_trip_id s \<in> tr_id ` {t \<in> set (db_trips db). seed_trip db t}) (db_seat_reports db)"
  by (cases g) (simp_all add: wipe_if_def without_defs Let_def)

lemmas wipe_if_fleet = wipe_if_fleet_1 wipe_if_fleet_2 wipe_if_fleet_3 wipe_if_fleet_4 wipe_if_fleet_5 wipe_if_fleet_6

lemma wipe_if_shop:
  "map bare_product (db_products (wipe_if W g db)) =
     map bare_product (kept (\<lambda>p. g = Commerce \<and> Commerce \<in> W \<and> pr_id p \<in> set (seed_product_ids db)) (db_products db))"
  "db_orders (wipe_if W g db) =
     kept (\<lambda>x. g = Commerce \<and> Commerce \<in> W \<and> or_product_id x \<in> set (seed_product_ids db)) (db_orders db)"
  "db_tickets (wipe_if W g db) = kept (\<lambda>t. g = Commerce \<and> Commerce \<in> W \<and> seed_ticket db t) (db_tickets db)"
  "map bare_redemption (db_redemptions (wipe_if W g db)) =
     map bare_redemption (kept (\<lambda>r. g = Commerce \<and> Commerce \<in> W \<and>
       rd_ticket_id r \<in> tk_id ` {t \<in> set (db_tickets db). seed_ticket db t}) (db_redemptions db))"
  by (cases g; simp add: wipe_if_def without_defs Let_def o_def)+

text \<open>The sub-selects find the same ids until the accounts themselves go, which is last.\<close>

lemma wipe_if_ids:
  assumes "g \<noteq> Users"
  shows "seed_user_ids (wipe_if W g db) = seed_user_ids db"
    "seed_helper_ids (wipe_if W g db) = seed_helper_ids db" "seed_trip (wipe_if W g db) = seed_trip db"
    "db_helpers (wipe_if W g db) = db_helpers db"
proof -
  have "db_users (wipe_if W g db) = db_users db" and same: "db_helpers (wipe_if W g db) = db_helpers db"
    using assms by (cases g; simp add: wipe_if_def without_defs Let_def)+
  from same show "db_helpers (wipe_if W g db) = db_helpers db" .
  from \<open>db_users (wipe_if W g db) = db_users db\<close> same show "seed_user_ids (wipe_if W g db) = seed_user_ids db"
    and h: "seed_helper_ids (wipe_if W g db) = seed_helper_ids db"
    by (simp_all only: seed_user_ids_def seed_helper_ids_def)
  from h show "seed_trip (wipe_if W g db) = seed_trip db" by (simp add: seed_trip_def [abs_def])
qed

lemma wipe_if_alerts: "db_alerts (wipe_if W Commerce db) = db_alerts db"
  by (simp add: wipe_if_def)

lemma wiped:
  assumes "db' = fold wipe_effect (filter (\<lambda>g. g \<in> W) WIPE_ORDER) db"
  shows "wiped_people W db db'" "wiped_fleet W db db'" "wiped_shop W db db'"
proof -
  have db': "db' = wipe_if W Users (wipe_if W Buses (wipe_if W Stops (wipe_if W Routes (wipe_if W Trips
    (wipe_if W Reports (wipe_if W Alerts (wipe_if W Commerce db)))))))"
    unfolding assms fold_wipe_if by (simp add: WIPE_ORDER_def SEED_ORDER_def)
  have kept_twice: "kept P (kept Q xs) = kept (\<lambda>r. Q r \<or> P r) xs" for P Q and xs :: "'x list"
    by (simp add: conj_commute)
  have keep_all: "filter (\<lambda>_. True) xs = xs" for xs :: "'x list" by simp
  note steps = wipe_if_people wipe_if_fleet wipe_if_shop wipe_if_ids wipe_if_alerts seed_group.distinct
    seed_group.simps simp_thms keep_all kept_twice
  show "wiped_people W db db'"
    unfolding wiped_people_def db' by (intro conjI; simp only: steps)
  show "wiped_fleet W db db'"
    unfolding wiped_fleet_def db' by (intro conjI; simp only: steps)
  show "wiped_shop W db db'"
    unfolding wiped_shop_def db' by (intro conjI; simp only: steps)
qed

lemma statement_Inl:
  assumes "statement n d = Inl e" "list_all (\<lambda>r. length (rd_nonce r) \<le> 64) (db_redemptions d)"
  shows "e = IntegrityError"
  using assms by (simp add: statement_def commit_def NONCE_WIDTH_def split: if_splits)

lemma wipe_fn_error:
  assumes "WIPE_FNS g db = Inl e" "db_ok db"
  shows "e = IntegrityError"
proof -
  have short: "list_all (\<lambda>r. length (rd_nonce r) \<le> 64) (db_redemptions d)" if "db_ok d" for d
    using that by (simp add: db_ok_def redemptions_ok_def)
  have fewer: "list_all (\<lambda>r. length (rd_nonce r) \<le> 64) (filter P (db_redemptions d))" if "db_ok d" for P d
    using short [OF that] by (auto simp: list_all_iff)
  have renamed: "list_all (\<lambda>r. length (rd_nonce r) \<le> 64) (map (\<lambda>r. r\<lparr>rd_trip_id := f r\<rparr>) (db_redemptions d))" if "db_ok d" for f d
    using short [OF that] by (auto simp: list_all_iff)
  show ?thesis
  proof (cases g)
    case Trips
    with assms show ?thesis
      by (auto simp: wipe_trips_def delete_trips_def without_trips_def Let_def renamed elim!: statement_Inl split: if_splits)
  next
    case Commerce
    with assms show ?thesis
      by (auto simp: wipe_commerce_def delete_defs Let_def short fewer elim!: statement_Inl split: sum.splits)
  qed (use assms in \<open>auto simp: wipe_defs delete_defs without_defs Let_def short elim!: statement_Inl split: if_splits\<close>)
qed

lemma wipe_each_error:
  assumes "wipe_each gs db = Inl e" "db_ok db"
  shows "e = IntegrityError"
  using assms
proof (induction gs arbitrary: db)
  case (Cons g gs)
  show ?case
  proof (cases "WIPE_FNS g db")
    case (Inl e')
    with Cons.prems wipe_fn_error show ?thesis by fastforce
  next
    case (Inr x)
    obtain n d where x: "x = (n, d)" by fastforce
    from Inr x Cons.prems have "wipe_each gs d = Inl e" by simp
    with Cons.IH wipe_fn_effect [OF Inr [unfolded x] Cons.prems(2)] show ?thesis by blast
  qed
qed simp

text \<open>
  A wipe removes exactly the seed's rows of the groups it wipes and what hangs off them. If it
  succeeds, every other row of every table is as it was in all its columns, except that a nullable
  reference to a row that went may be empty, and all constraints hold. It can fail only on a
  constraint, when a row that is not the seed's needs one that is.
\<close>

theorem wipe_removes_only_seed_rows:
  assumes "db_ok db"
  shows "case wipe_groups wipe_set db of
      Inr db' \<Rightarrow> wiped_people (set wipe_set) db db' \<and> wiped_fleet (set wipe_set) db db' \<and>
        wiped_shop (set wipe_set) db db' \<and> db_ok db'
    | Inl e \<Rightarrow> e = IntegrityError"
proof (cases "wipe_groups wipe_set db")
  case (Inr db')
  then have "wipe_each (filter (\<lambda>g. g \<in> set wipe_set) WIPE_ORDER) db = Inr db'"
    by (auto simp: wipe_groups_def split: sum.splits)
  note facts = wipe_each_effect [OF this assms]
  with Inr wiped [of db' "set wipe_set" db] show ?thesis by auto
next
  case (Inl e)
  show ?thesis
  proof (cases "wipe_each (filter (\<lambda>g. g \<in> set wipe_set) WIPE_ORDER) db")
    case (Inr d)
    with wipe_each_effect [OF Inr assms] Inl show ?thesis by (auto simp: wipe_groups_def)
  qed (use wipe_each_error assms Inl in \<open>auto simp: wipe_groups_def\<close>)
qed

text \<open>A database with one of the seed's stops: a wipe of the stops leaves what the demo has.\<close>

definition demo_seeded :: database where
  "demo_seeded = demo_db\<lparr>db_stops := demo_stop 43\<lparr>sp_name := ''Banani''\<rparr> # db_stops demo_db\<rparr>"

lemma demo_seeded_ok: "db_ok demo_seeded"
  by (simp add: demo_seeded_def db_ok_defs demo_defs unique_on_def fk_opt_def)

lemma demo_wipe: "wipe_groups [Stops, Trips, Routes] demo_seeded = Inr demo_db"
proof -
  have "seed_helper_ids demo_seeded = []"
    by (simp add: seed_helper_ids_def demo_seeded_def demo_defs HELPERS_def Let_def)
  then have "wipe_trips demo_seeded = Inr (0, demo_seeded)" by (simp add: wipe_trips_def)
  moreover have "wipe_routes demo_seeded = Inr (0, demo_seeded)"
  proof -
    have "filter (\<lambda>r. rt_name r = ROUTE_NAME) (db_routes demo_seeded) = []"
      by (simp add: demo_seeded_def demo_defs ROUTE_NAME_def)
    moreover from this have "without_routes (\<lambda>r. rt_name r = ROUTE_NAME) demo_seeded = demo_seeded"
      by (simp add: without_routes_def Let_def filter_empty_conv)
    ultimately show ?thesis by (simp add: wipe_routes_def delete_routes_def statement_def demo_seeded_ok)
  qed
  moreover have "wipe_stops demo_seeded = Inr (1, demo_db)"
  proof -
    have "demo_seeded\<lparr>db_stops := kept (\<lambda>s. sp_name s \<in> set (map fst STOPS)) (db_stops demo_seeded)\<rparr> = demo_db"
      "length (filter (\<lambda>s. sp_name s \<in> set (map fst STOPS)) (db_stops demo_seeded)) = 1"
      by (simp_all add: demo_seeded_def demo_db_def demo_stop_def STOPS_def)
    then show ?thesis by (simp add: wipe_stops_def delete_stops_def statement_def demo_db_ok)
  qed
  ultimately show ?thesis by (simp add: wipe_groups_def WIPE_ORDER_def SEED_ORDER_def demo_db_ok)
qed

theorem wipe_removes_only_seed_rows_witness:
  "wipe_groups [Stops, Trips, Routes] demo_seeded = Inr demo_db \<and>
    wiped_people {Stops, Trips, Routes} demo_seeded demo_db \<and> wiped_fleet {Stops, Trips, Routes} demo_seeded demo_db"
  using wipe_removes_only_seed_rows [OF demo_seeded_ok, of "[Stops, Trips, Routes]"] by (simp add: demo_wipe)

text \<open>
  The dependencies of \<^verbatim>\<open>_WIPE_REQUIRES\<close> are not all that a wipe can need: a seeded student
  who bought a product of the real catalogue keeps the accounts from being wiped, whatever is wiped first.
\<close>

definition demo_buyer :: database where
  "demo_buyer = demo_db\<lparr>db_users := [demo_user 1 ''student1@ulab.edu.bd'' Role_student,
     demo_user 2 ''b@x.edu'' Role_helper, demo_user 3 ''c@x.edu'' Role_admin]\<rparr>"

lemma demo_buyer_ok: "db_ok demo_buyer"
  by (simp add: demo_buyer_def db_ok_defs demo_defs unique_on_def fk_opt_def)

lemma wipe_of_accounts_refused:
  "set needed = {Users, Trips, Commerce} \<Longrightarrow> wipe_groups needed demo_buyer = Inl IntegrityError"
proof -
  assume "set needed = {Users, Trips, Commerce}"
  then have order: "filter (\<lambda>g. g \<in> set needed) WIPE_ORDER = [Commerce, Trips, Users]"
    by (simp add: WIPE_ORDER_def SEED_ORDER_def)
  have products: "seed_product_ids demo_buyer = []"
    by (simp add: seed_product_ids_def demo_buyer_def demo_defs PRODUCTS_def)
  then have commerce: "wipe_commerce demo_buyer = Inr (0, demo_buyer)"
    by (simp add: wipe_commerce_def delete_defs statement_def Let_def demo_buyer_ok)
  have "seed_helper_ids demo_buyer = []"
    by (simp add: seed_helper_ids_def demo_buyer_def demo_defs HELPERS_def Let_def)
  then have trips: "wipe_trips demo_buyer = Inr (0, demo_buyer)" by (simp add: wipe_trips_def)
  have users: "\<exists>e. wipe_users demo_buyer = Inl e"
  proof -
    have "filter (\<lambda>u. us_email u \<in> set ALL_EMAILS) (db_users demo_buyer) = [demo_user 1 ''student1@ulab.edu.bd'' Role_student]"
      by (simp add: demo_buyer_def demo_user_def ALL_EMAILS_def ADMIN_def HELPERS_def STUDENTS_def)
    then have "db_students (without_users (\<lambda>u. us_email u \<in> set ALL_EMAILS) demo_buyer) = []"
      by (simp add: without_users_def Let_def) (simp add: demo_buyer_def demo_db_def demo_student_def demo_user_def)
    moreover have "db_orders (without_users P demo_buyer) = db_orders demo_db" for P
      by (simp add: without_users_def Let_def demo_buyer_def)
    ultimately have "\<not> db_ok (without_users (\<lambda>u. us_email u \<in> set ALL_EMAILS) demo_buyer)"
      by (simp add: db_ok_def orders_ok_def) (simp add: demo_db_def)
    then show ?thesis by (simp add: wipe_users_def delete_users_def statement_def commit_def)
  qed
  then obtain e where e: "wipe_users demo_buyer = Inl e" ..
  with wipe_fn_error [of Users demo_buyer e] demo_buyer_ok have "e = IntegrityError" by simp
  with e show ?thesis by (simp add: wipe_groups_def order commerce trips)
qed

end
