(* ===== verification/SeedRun.thy ===== *)
theory SeedRun
  imports Seed "HOL-Library.Sublist"
begin

text \<open>
  The database seeder, second half: the seed functions of \<^verbatim>\<open>scripts/seed.py\<close>, its
  \<^verbatim>\<open>_run\<close> and its command line. A seed function looks a row up and adds it when it is
  missing; every flush checks the constraints, and what is not committed when an error ends the
  function is rolled back. The text of messages and the printed summary are left out.
\<close>

section \<open>The outside, errors, flushes\<close>

text \<open>
  \<open>sv_id\<close> is the id that uuid4 draws for the row inserted at a position of a table, \<open>sv_hash\<close>
  the hash of a password with the salt drawn for that position; the three clocks are the readings
  in \<^verbatim>\<open>_seed_trips\<close>, \<^verbatim>\<open>_seed_commerce\<close> and \<^verbatim>\<open>issue_ticket\<close>;
  \<open>sv_hex\<close> is \<^verbatim>\<open>UUID.hex\<close>; \<open>sv_plan\<close> is the order in which the database finds rows
  that tie in an \<^verbatim>\<open>ORDER BY\<close>.
\<close>

record seed_env =
  sv_id :: "string \<Rightarrow> nat \<Rightarrow> uuid"
  sv_created :: instant
  sv_hash :: "nat \<Rightarrow> string \<Rightarrow> string"
  sv_trips_now :: instant
  sv_commerce_now :: instant
  sv_issue_now :: instant
  sv_raw_keys :: "bytes \<times> bytes"
  sv_hex :: "uuid \<Rightarrow> string"
  sv_plan :: "trip list \<Rightarrow> trip list"

datatype seed_stop = Stop_RuntimeError | Stop_MultipleResults | Stop_Db db_error | Stop_Py py_error

definition and_then :: "'e + 'a \<Rightarrow> ('a \<Rightarrow> 'e + 'b) \<Rightarrow> 'e + 'b" where
  "and_then x f = (case x of Inl e \<Rightarrow> Inl e | Inr y \<Rightarrow> f y)"

primrec each ::
  "('x \<Rightarrow> database \<Rightarrow> 'e + 'r \<times> database) \<Rightarrow> 'x list \<Rightarrow> database \<Rightarrow> 'e + 'r list \<times> database" where
  "each f [] db = Inr ([], db)"
| "each f (x # xs) db = and_then (f x db) (\<lambda>(r, db1). and_then (each f xs db1) (\<lambda>(rs, db2). Inr (r # rs, db2)))"

definition flush :: "database \<Rightarrow> seed_stop + database" where
  "flush db = (case commit db of Inl e \<Rightarrow> Inl (Stop_Db e) | Inr db' \<Rightarrow> Inr db')"

text \<open>\<^verbatim>\<open>scalar_one_or_none\<close>, and a lookup whose row must exist.\<close>

fun one_or_none :: "'r list \<Rightarrow> seed_stop + 'r option" where
  "one_or_none [] = Inr None"
| "one_or_none [r] = Inr (Some r)"
| "one_or_none _ = Inl Stop_MultipleResults"

definition needed_row :: "seed_stop + 'r option \<Rightarrow> seed_stop + 'r" where
  "needed_row x = and_then x (\<lambda>r. case r of None \<Rightarrow> Inl Stop_RuntimeError | Some y \<Rightarrow> Inr y)"

text \<open>The end of a seed function: \<^verbatim>\<open>await db.commit()\<close>, or the rollback of an error.\<close>

definition committed :: "database \<Rightarrow> seed_stop + 'a \<times> database \<Rightarrow> (seed_stop + 'a) \<times> database" where
  "committed db staged =
     (case and_then staged (\<lambda>(x, d). and_then (flush d) (\<lambda>d'. Inr (x, d'))) of
        Inl e \<Rightarrow> (Inl e, db) | Inr (x, d) \<Rightarrow> (Inr x, d))"

section \<open>Lookups\<close>

definition find_user :: "database \<Rightarrow> string \<Rightarrow> seed_stop + user option" where
  "find_user db email = one_or_none (filter (\<lambda>u. us_email u = email) (db_users db))"

definition find_bus :: "database \<Rightarrow> string \<Rightarrow> seed_stop + bus option" where
  "find_bus db reg_no = one_or_none (filter (\<lambda>b. bs_reg_no b = reg_no) (db_buses db))"

definition find_stop :: "database \<Rightarrow> string \<Rightarrow> seed_stop + stop option" where
  "find_stop db name = one_or_none (filter (\<lambda>s. sp_name s = name) (db_stops db))"

definition find_route :: "database \<Rightarrow> route_direction \<Rightarrow> seed_stop + route option" where
  "find_route db direction =
     one_or_none (filter (\<lambda>r. rt_name r = ROUTE_NAME \<and> rt_direction r = direction) (db_routes db))"

definition helper_of_user :: "database \<Rightarrow> user \<Rightarrow> seed_stop + helper option" where
  "helper_of_user db u = one_or_none (filter (\<lambda>h. hp_user_id h = us_id u) (db_helpers db))"

section \<open>Accounts, fleet\<close>

definition add_user ::
  "seed_env \<Rightarrow> 'x seed_user_scheme \<Rightarrow> user_role \<Rightarrow> string option \<Rightarrow> database \<Rightarrow> seed_stop + user \<times> database" where
  "add_user env s role phone db =
     (let n = length (db_users db);
          u = \<lparr>us_id = sv_id env ''users'' n, us_created_at = sv_created env, us_email = su_email s,
            us_password_hash = sv_hash env n (su_password s), us_role = role, us_name = su_name s,
            us_phone = phone, us_photo_url = None, us_status = User_active\<rparr> in
      and_then (flush (db\<lparr>db_users := db_users db @ [u]\<rparr>)) (\<lambda>db'. Inr (u, db')))"

definition seed_user_row ::
  "seed_env \<Rightarrow> 'x seed_user_scheme \<Rightarrow> user_role \<Rightarrow> string option \<Rightarrow> database \<Rightarrow> seed_stop + user \<times> database" where
  "seed_user_row env s role phone db =
     and_then (find_user db (su_email s)) (\<lambda>u. case u of
       Some u \<Rightarrow> Inr (u, db) | None \<Rightarrow> add_user env s role phone db)"

definition seed_helper_row :: "seed_env \<Rightarrow> user \<Rightarrow> seed_helper \<Rightarrow> database \<Rightarrow> seed_stop + helper \<times> database" where
  "seed_helper_row env admin h db =
     and_then (seed_user_row env h Role_helper (Some (sh_phone h)) db) (\<lambda>(u, db1).
     and_then (helper_of_user db1 u) (\<lambda>row. case row of
       None \<Rightarrow>
         let row = \<lparr>hp_id = sv_id env ''helpers'' (length (db_helpers db1)), hp_user_id = us_id u,
               hp_approved_by = Some (us_id admin), hp_status = Helper_approved, hp_current_device_id = None\<rparr> in
         and_then (flush (db1\<lparr>db_helpers := db_helpers db1 @ [row]\<rparr>)) (\<lambda>db2. Inr (row, db2))
     | Some row \<Rightarrow>
         Inr (row\<lparr>hp_status := Helper_approved\<rparr>,
           db1\<lparr>db_helpers := row_edit hp_id (hp_id row) (\<lambda>r. r\<lparr>hp_status := Helper_approved\<rparr>) (db_helpers db1)\<rparr>)))"

definition seed_student_row :: "seed_env \<Rightarrow> seed_student \<Rightarrow> database \<Rightarrow> seed_stop + user \<times> database" where
  "seed_student_row env s db =
     and_then (find_user db (su_email s)) (\<lambda>u. case u of
       Some u \<Rightarrow> Inr (u, db)
     | None \<Rightarrow>
         and_then (add_user env s Role_student None db) (\<lambda>(u, db1).
         let row = \<lparr>st_id = sv_id env ''students'' (length (db_students db1)), st_user_id = us_id u,
               st_student_id_no = ss_student_id_no s, st_department = Some (ss_department s),
               st_batch = Some (ss_batch s), st_default_stop_id = None\<rparr> in
         and_then (flush (db1\<lparr>db_students := db_students db1 @ [row]\<rparr>)) (\<lambda>db2. Inr (u, db2))))"

definition seed_users ::
  "seed_env \<Rightarrow> database \<Rightarrow> (seed_stop + user \<times> helper list \<times> user list) \<times> database" where
  "seed_users env db = committed db
     (and_then (seed_user_row env ADMIN Role_admin None db) (\<lambda>(admin, db1).
      and_then (each (seed_helper_row env admin) HELPERS db1) (\<lambda>(helper_rows, db2).
      and_then (each (seed_student_row env) STUDENTS db2) (\<lambda>(student_rows, db3).
        Inr ((admin, helper_rows, student_rows), db3)))))"

definition seed_bus_row :: "seed_env \<Rightarrow> seed_bus \<Rightarrow> database \<Rightarrow> seed_stop + bus \<times> database" where
  "seed_bus_row env b db =
     and_then (find_bus db (sb_reg_no b)) (\<lambda>bus. case bus of
       Some bus \<Rightarrow> Inr (bus, db)
     | None \<Rightarrow>
         let bus = \<lparr>bs_id = sv_id env ''buses'' (length (db_buses db)), bs_reg_no = sb_reg_no b,
               bs_nickname = Some (sb_nickname b), bs_capacity = sb_capacity b, bs_status = sb_status b\<rparr> in
         and_then (flush (db\<lparr>db_buses := db_buses db @ [bus]\<rparr>)) (\<lambda>db'. Inr (bus, db')))"

definition seed_buses :: "seed_env \<Rightarrow> database \<Rightarrow> (seed_stop + bus list) \<times> database" where
  "seed_buses env db = committed db (each (seed_bus_row env) BUSES db)"

definition seed_stop_row :: "seed_env \<Rightarrow> string \<times> real \<times> real \<Rightarrow> database \<Rightarrow> seed_stop + stop \<times> database" where
  "seed_stop_row env = (\<lambda>(name, lat, lng) db.
     and_then (find_stop db name) (\<lambda>s. case s of
       Some s \<Rightarrow> Inr (s, db)
     | None \<Rightarrow>
         let s = \<lparr>sp_id = sv_id env ''stops'' (length (db_stops db)), sp_name = name, sp_lat = lat, sp_lng = lng\<rparr> in
         and_then (flush (db\<lparr>db_stops := db_stops db @ [s]\<rparr>)) (\<lambda>db'. Inr (s, db'))))"

definition seed_stops :: "seed_env \<Rightarrow> database \<Rightarrow> (seed_stop + stop list) \<times> database" where
  "seed_stops env db = committed db (each (seed_stop_row env) STOPS db)"

text \<open>The stops of a new route: numbered from one, with the offsets of the table.\<close>

definition seed_route_stops :: "seed_env \<Rightarrow> database \<Rightarrow> uuid \<Rightarrow> stop list \<Rightarrow> route_stop list" where
  "seed_route_stops env db route_id ordered =
     map (\<lambda>i. \<lparr>rs_id = sv_id env ''route_stops'' (length (db_route_stops db) + i), rs_route_id = route_id,
         rs_stop_id = sp_id (ordered ! i), rs_seq = int i + 1,
         rs_scheduled_offset_min = Some (ROUTE_OFFSETS ! i)\<rparr>) [0 ..< length ordered]"

definition seed_route_row ::
  "seed_env \<Rightarrow> stop list \<Rightarrow> route_direction \<Rightarrow> database \<Rightarrow> seed_stop + route \<times> database" where
  "seed_route_row env stops direction db =
     and_then (find_route db direction) (\<lambda>r. case r of
       Some r \<Rightarrow> Inr (r, db)
     | None \<Rightarrow>
         let r = \<lparr>rt_id = sv_id env ''routes'' (length (db_routes db)), rt_name = ROUTE_NAME,
               rt_direction = direction, rt_polyline = None, rt_is_active = True\<rparr>;
             ordered = (if direction = Dir_outbound then stops else rev stops) in
         and_then (flush (db\<lparr>db_routes := db_routes db @ [r]\<rparr>)) (\<lambda>db1.
           Inr (r, db1\<lparr>db_route_stops := db_route_stops db1 @ seed_route_stops env db1 (rt_id r) ordered\<rparr>)))"

definition seed_routes :: "seed_env \<Rightarrow> database \<Rightarrow> (seed_stop + route list) \<times> database" where
  "seed_routes env db = committed db
     (and_then (each (\<lambda>(name, _, _) d. and_then (needed_row (find_stop d name)) (\<lambda>s. Inr (s, d))) STOPS db) (\<lambda>(stops, _).
      each (seed_route_row env stops) [Dir_outbound, Dir_inbound] db))"

section \<open>Trips, reports, alerts\<close>

text \<open>The user and the helper row of each of the seed's helpers.\<close>

definition seed_crew :: "database \<Rightarrow> seed_stop + (user \<times> helper) list \<times> database" where
  "seed_crew db = each (\<lambda>h d.
     and_then (needed_row (find_user d (su_email h))) (\<lambda>u.
     and_then (needed_row (helper_of_user d u)) (\<lambda>row. Inr ((u, row), d)))) HELPERS db"

definition add_trip ::
  "seed_env \<Rightarrow> route \<Rightarrow> bus \<Rightarrow> helper \<Rightarrow> int \<Rightarrow> instant \<Rightarrow> instant \<Rightarrow> instant option \<Rightarrow> trip_status \<Rightarrow> database \<Rightarrow>
   seed_stop + trip \<times> database" where
  "add_trip env route bus helper service_date scheduled start end_at status db =
     (let t = \<lparr>tr_id = sv_id env ''trips'' (length (db_trips db)), tr_route_id = rt_id route, tr_bus_id = bs_id bus,
            tr_helper_id = hp_id helper, tr_service_date = service_date, tr_scheduled_start = Some scheduled,
            tr_actual_start = Some start, tr_actual_end = end_at, tr_status = status\<rparr> in
      and_then (flush (db\<lparr>db_trips := db_trips db @ [t]\<rparr>)) (\<lambda>db'. Inr (t, db')))"

text \<open>The three buses, then the two routes.\<close>

definition trip_buses :: "database \<Rightarrow> seed_stop + bus \<times> bus \<times> bus" where
  "trip_buses db =
     and_then (find_bus db ''UA-METRO-01'') (\<lambda>b1.
     and_then (find_bus db ''UA-METRO-02'') (\<lambda>b2.
     and_then (find_bus db ''UA-METRO-03'') (\<lambda>b3.
     case (b1, b2, b3) of
       (Some bus1, Some bus2, Some bus3) \<Rightarrow> Inr (bus1, bus2, bus3) | _ \<Rightarrow> Inl Stop_RuntimeError)))"

definition trip_routes :: "database \<Rightarrow> seed_stop + route \<times> route" where
  "trip_routes db =
     and_then (find_route db Dir_outbound) (\<lambda>r1.
     and_then (find_route db Dir_inbound) (\<lambda>r2.
     case (r1, r2) of
       (Some outbound, Some inbound) \<Rightarrow> Inr (outbound, inbound) | _ \<Rightarrow> Inl Stop_RuntimeError))"

definition seed_trip_rows ::
  "seed_env \<Rightarrow> helper \<Rightarrow> helper \<Rightarrow> bus \<times> bus \<times> bus \<Rightarrow> route \<times> route \<Rightarrow> database \<Rightarrow> seed_stop + trip list \<times> database" where
  "seed_trip_rows env helper1 helper2 = (\<lambda>(bus1, bus2, bus3) (outbound, inbound) db.
     let now = sv_trips_now env; today = now div day;
         t2_start = now - day - 2 * hour; t3_start = now - 2 * day - hour in
     and_then (add_trip env outbound bus1 helper1 today (now - 45 * minute) (now - 30 * minute) None
       Trip_live db) (\<lambda>(t1, d1).
     and_then (add_trip env inbound bus3 helper2 today (now - 20 * minute) (now - 15 * minute) None
       Trip_live d1) (\<lambda>(t1b, d2).
     and_then (add_trip env inbound bus2 helper2 (today - 1) t2_start (t2_start + 5 * minute)
       (Some (t2_start + hour + 20 * minute)) Trip_completed d2) (\<lambda>(t2, d3).
     and_then (add_trip env outbound bus1 helper1 (today - 2) t3_start (t3_start + 2 * minute)
       (Some (t3_start + hour + 15 * minute)) Trip_completed d3) (\<lambda>(t3, d4).
       Inr ([t1, t1b, t2, t3], d4))))))"

definition seed_trips :: "seed_env \<Rightarrow> database \<Rightarrow> (seed_stop + trip list) \<times> database" where
  "seed_trips env db = committed db
     (and_then (seed_crew db) (\<lambda>(crew, _).
      and_then (trip_buses db) (\<lambda>buses.
      and_then (trip_routes db) (\<lambda>routes.
        seed_trip_rows env (snd (crew ! 0)) (snd (crew ! 1)) buses routes db))))"

text \<open>\<^verbatim>\<open>order_by(Trip.actual_start)\<close>: ascending, rows without a start last.\<close>

definition by_start :: "seed_env \<Rightarrow> trip list \<Rightarrow> trip list" where
  "by_start env ts =
     (let found = sv_plan env ts in
      sort_key (\<lambda>t. the (tr_actual_start t)) (filter (\<lambda>t. tr_actual_start t \<noteq> None) found) @
      filter (\<lambda>t. tr_actual_start t = None) found)"

text \<open>The reports of one helper's first completed trip: occupied seats and minutes after the start.\<close>

definition trip_reports ::
  "seed_env \<Rightarrow> helper \<Rightarrow> (int \<times> int) list \<Rightarrow> trip list \<Rightarrow> database \<Rightarrow> seat_report list" where
  "trip_reports env helper seats completed db =
     (case find (\<lambda>t. tr_helper_id t = hp_id helper) completed of
        None \<Rightarrow> []
      | Some t \<Rightarrow> (case tr_actual_start t of
          None \<Rightarrow> []
        | Some start \<Rightarrow>
            map (\<lambda>i. \<lparr>se_id = sv_id env ''seat_reports'' (length (db_seat_reports db) + i), se_trip_id = tr_id t,
              se_helper_id = hp_id helper, se_occupied = fst (seats ! i), se_capacity_snapshot = 45,
              se_reported_at = start + snd (seats ! i) * minute\<rparr>) [0 ..< length seats]))"

definition seed_report_rows ::
  "seed_env \<Rightarrow> helper \<Rightarrow> helper \<Rightarrow> trip list \<Rightarrow> database \<Rightarrow> seat_report list \<times> database" where
  "seed_report_rows env helper1 helper2 completed db =
     (let r2 = trip_reports env helper2 [(12, 10), (27, 35), (40, 65)] completed db;
          db1 = db\<lparr>db_seat_reports := db_seat_reports db @ r2\<rparr>;
          r3 = trip_reports env helper1 [(18, 15), (32, 45)] completed db1 in
      (r2 @ r3, db1\<lparr>db_seat_reports := db_seat_reports db1 @ r3\<rparr>))"

definition seed_reports :: "seed_env \<Rightarrow> database \<Rightarrow> (seed_stop + seat_report list) \<times> database" where
  "seed_reports env db = committed db
     (and_then (seed_crew db) (\<lambda>(crew, _).
      let completed = by_start env (filter (\<lambda>t. tr_helper_id t \<in> hp_id ` snd ` set crew \<and>
            tr_status t = Trip_completed) (db_trips db)) in
      if completed = [] then Inl Stop_RuntimeError
      else Inr (seed_report_rows env (snd (crew ! 0)) (snd (crew ! 1)) completed db)))"

definition seed_alert ::
  "seed_env \<Rightarrow> user \<Rightarrow> trip option \<Rightarrow> alert_type \<Rightarrow> alert_severity \<Rightarrow> string \<Rightarrow> real \<Rightarrow> real \<Rightarrow> nat \<Rightarrow> alert" where
  "seed_alert env raiser trip ty severity message lat lng n =
     \<lparr>al_id = sv_id env ''alerts'' n, al_created_at = sv_created env, al_source = Source_helper,
      al_raised_by = Some (us_id raiser), al_trip_id = map_option tr_id trip, al_bus_id = map_option tr_bus_id trip,
      al_type = ty, al_severity = severity, al_message = Some message, al_lat = Some lat, al_lng = Some lng,
      al_status = Alert_open, al_acknowledged_by = None, al_resolved_note = None, al_resolved_at = None\<rparr>"

text \<open>The dash of the first message is written in UTF-8.\<close>

definition SOS_MESSAGE :: string where
  "SOS_MESSAGE = ''Emergency '' @ [CHR 0xE2, CHR 0x80, CHR 0x94] @ '' passenger needs medical assistance.''"

definition BREAKDOWN_MESSAGE :: string where
  "BREAKDOWN_MESSAGE = ''Bus making unusual noise, may need inspection.''"

definition seed_alert_rows :: "seed_env \<Rightarrow> user \<Rightarrow> user \<Rightarrow> trip option \<Rightarrow> database \<Rightarrow> alert list" where
  "seed_alert_rows env h1_user h2_user live_trip db =
     (let n = length (db_alerts db) in
      [seed_alert env h1_user live_trip Alert_sos Severity_critical SOS_MESSAGE 23.7583 90.3897 n,
       seed_alert env h2_user None Alert_breakdown Severity_warning BREAKDOWN_MESSAGE 23.7806 90.4053 (n + 1)])"

definition live_trip_of :: "database \<Rightarrow> helper option \<Rightarrow> seed_stop + trip option" where
  "live_trip_of db h1_row =
     (case h1_row of
        None \<Rightarrow> Inr None
      | Some row \<Rightarrow> one_or_none (filter (\<lambda>t. tr_helper_id t = hp_id row \<and> is_live t) (db_trips db)))"

definition seed_alerts :: "seed_env \<Rightarrow> database \<Rightarrow> (seed_stop + alert list) \<times> database" where
  "seed_alerts env db = committed db
     (and_then (find_user db (su_email (HELPERS ! 0))) (\<lambda>u1.
      and_then (find_user db (su_email (HELPERS ! 1))) (\<lambda>u2.
      case (u1, u2) of
        (Some h1_user, Some h2_user) \<Rightarrow>
          and_then (helper_of_user db h1_user) (\<lambda>h1_row.
          and_then (live_trip_of db h1_row) (\<lambda>live_trip.
          let alerts = seed_alert_rows env h1_user h2_user live_trip db in
          Inr (alerts, db\<lparr>db_alerts := db_alerts db @ alerts\<rparr>)))
      | _ \<Rightarrow> Inl Stop_RuntimeError)))"

section \<open>The shop\<close>

definition seed_product_row :: "seed_env \<Rightarrow> seed_product \<Rightarrow> database \<Rightarrow> seed_stop + ticket_product \<times> database" where
  "seed_product_row env s db =
     and_then (one_or_none (filter (\<lambda>p. pr_name p = sq_name s) (db_products db))) (\<lambda>existing. case existing of
       Some p \<Rightarrow> Inr (p, db)
     | None \<Rightarrow>
         let p = \<lparr>pr_id = sv_id env ''ticket_products'' (length (db_products db)), pr_type = sq_type s,
               pr_name = sq_name s, pr_price_paisa = sq_price_paisa s, pr_ride_count = sq_ride_count s,
               pr_validity_days = sq_validity_days s, pr_route_scope = None, pr_active = True\<rparr> in
         and_then (flush (db\<lparr>db_products := db_products db @ [p]\<rparr>)) (\<lambda>db'. Inr (p, db')))"

definition seed_order :: "seed_env \<Rightarrow> student \<Rightarrow> ticket_product \<Rightarrow> string \<Rightarrow> database \<Rightarrow> order" where
  "seed_order env student pack tran_id db =
     \<lparr>or_id = sv_id env ''orders'' (length (db_orders db)), or_created_at = sv_created env,
      or_student_id = st_id student, or_product_id = pr_id pack, or_amount_paisa = pr_price_paisa pack,
      or_currency = ''BDT'', or_status = Order_paid, or_idempotency_key = tran_id, or_tran_id = tran_id,
      or_gateway = ''seed'', or_gateway_val_id = JNull, or_gateway_bank_tran_id = JNull,
      or_gateway_card_type = JNull, or_raw_payload = None, or_paid_at = Some (sv_commerce_now env - day)\<rparr>"

text \<open>\<^verbatim>\<open>issue_ticket\<close> stages the ticket; the RuntimeError it may raise is the one \<open>_run\<close> catches.\<close>

definition seed_ticket_row :: "seed_env \<Rightarrow> order \<Rightarrow> database \<Rightarrow> seed_stop + ticket \<times> database" where
  "seed_ticket_row env order db =
     (case issue_ticket \<lparr>is_raw_keys = sv_raw_keys env, is_new_id = sv_id env ''tickets'' (length (db_tickets db)),
         is_paid_at = sv_issue_now env, is_now = sv_issue_now env\<rparr> db order of
        Inl RuntimeError \<Rightarrow> Inl Stop_RuntimeError
      | Inl e \<Rightarrow> Inl (Stop_Py e)
      | Inr t \<Rightarrow> Inr (t, db\<lparr>db_tickets := db_tickets db @ [t]\<rparr>))"

text \<open>The fixture: a paid ten-ride pack for the first student, when there is one and it has none yet.\<close>

definition seed_fixture :: "seed_env \<Rightarrow> ticket_product list \<Rightarrow> database \<Rightarrow> seed_stop + unit \<times> database" where
  "seed_fixture env products db =
     and_then (find_user db (su_email (STUDENTS ! 0))) (\<lambda>user.
     and_then (case user of
         None \<Rightarrow> Inr None
       | Some u \<Rightarrow> one_or_none (filter (\<lambda>s. st_user_id s = us_id u) (db_students db))) (\<lambda>student. case student of
       None \<Rightarrow> Inr ((), db)
     | Some st \<Rightarrow>
         let pack = products ! 1; tran_id = SEED_TRAN_PREFIX @ take 12 (sv_hex env (st_id st)) in
         and_then (one_or_none (filter (\<lambda>x. or_tran_id x = tran_id) (db_orders db))) (\<lambda>order. case order of
           Some _ \<Rightarrow> Inr ((), db)
         | None \<Rightarrow>
             let order = seed_order env st pack tran_id db in
             and_then (flush (db\<lparr>db_orders := db_orders db @ [order]\<rparr>)) (\<lambda>db1.
             and_then (seed_ticket_row env order db1) (\<lambda>(_, db2). Inr ((), db2))))))"

text \<open>Two transactions: the products stay even when the fixture fails.\<close>

definition seed_commerce :: "seed_env \<Rightarrow> database \<Rightarrow> (seed_stop + ticket_product list) \<times> database" where
  "seed_commerce env db =
     (case committed db (each (seed_product_row env) PRODUCTS db) of
        (Inl e, db1) \<Rightarrow> (Inl e, db1)
      | (Inr products, db1) \<Rightarrow>
          (case committed db1 (seed_fixture env products db1) of
             (Inl e, db2) \<Rightarrow> (Inl e, db2)
           | (Inr _, db2) \<Rightarrow> (Inr products, db2)))"

section \<open>Running\<close>

text \<open>What a seed function reports to \<open>_run\<close>: how many rows its result lists.\<close>

definition counted :: "('a \<Rightarrow> nat) \<Rightarrow> (seed_stop + 'a) \<times> database \<Rightarrow> (seed_stop + nat) \<times> database" where
  "counted f x = (case x of (Inl e, db) \<Rightarrow> (Inl e, db) | (Inr y, db) \<Rightarrow> (Inr (f y), db))"

fun SEED_FNS :: "seed_group \<Rightarrow> seed_env \<Rightarrow> database \<Rightarrow> (seed_stop + nat) \<times> database" where
  "SEED_FNS Users env db = counted (\<lambda>(_, helpers, students). length helpers + length students) (seed_users env db)"
| "SEED_FNS Buses env db = counted length (seed_buses env db)"
| "SEED_FNS Stops env db = counted length (seed_stops env db)"
| "SEED_FNS Routes env db = counted length (seed_routes env db)"
| "SEED_FNS Trips env db = counted length (seed_trips env db)"
| "SEED_FNS Reports env db = counted length (seed_reports env db)"
| "SEED_FNS Alerts env db = counted length (seed_alerts env db)"
| "SEED_FNS Commerce env db = counted length (seed_commerce env db)"

datatype run_end =
    Nothing_to_seed | Aborted | Seeded "(seed_group \<times> nat) list"
  | Exit_1 seed_group | Crashed seed_stop | Never_ends
  | Unknown_groups "string list" | Usage_error

text \<open>\<^verbatim>\<open>_confirm_wipe\<close>; no answer is the EOFError of a closed input.\<close>

definition confirm_wipe :: "string option \<Rightarrow> string" where
  "confirm_wipe answer = (case answer of None \<Rightarrow> ''n'' | Some s \<Rightarrow> lower (strip s))"

fun seed_each ::
  "seed_env \<Rightarrow> (seed_group \<times> nat) list \<Rightarrow> seed_group list \<Rightarrow> database \<Rightarrow> run_end \<times> database" where
  "seed_each env results [] db = (Seeded results, db)"
| "seed_each env results (g # gs) db =
     (case SEED_FNS g env db of
        (Inl Stop_RuntimeError, db') \<Rightarrow> (Exit_1 g, db')
      | (Inl e, db') \<Rightarrow> (Crashed e, db')
      | (Inr n, db') \<Rightarrow> seed_each env (results @ [(g, n)]) gs db')"

definition dirty_groups :: "seed_group list \<Rightarrow> database \<Rightarrow> seed_group list" where
  "dirty_groups groups db = filter (\<lambda>g. 0 < COUNT_FNS g db) (remdups groups)"

definition seed_run ::
  "(seed_group list \<Rightarrow> seed_group list) \<Rightarrow> seed_env \<Rightarrow> string option \<Rightarrow> seed_group list \<Rightarrow> bool \<Rightarrow> bool \<Rightarrow> database \<Rightarrow>
   run_end \<times> database" where
  "seed_run listed env answer groups force_wipe keep db =
     (let dirty = dirty_groups groups db in
      if keep then
        (let groups' = filter (\<lambda>g. g \<notin> set dirty) groups in
         if groups' = [] then (Nothing_to_seed, db) else seed_each env [] groups' db)
      else if dirty = [] then seed_each env [] groups db
      else if \<not> force_wipe \<and> confirm_wipe answer \<noteq> ''y'' then (Aborted, db)
      else
        (case expand_wipe_set listed dirty of
           None \<Rightarrow> (Never_ends, db)
         | Some wipe_set \<Rightarrow>
             (case wipe_groups wipe_set db of
                Inl e \<Rightarrow> (Crashed (Stop_Db e), db)
              | Inr db' \<Rightarrow> seed_each env [] groups db')))"

fun group_name :: "seed_group \<Rightarrow> string" where
  "group_name Users = ''users''"
| "group_name Buses = ''buses''"
| "group_name Stops = ''stops''"
| "group_name Routes = ''routes''"
| "group_name Trips = ''trips''"
| "group_name Reports = ''reports''"
| "group_name Alerts = ''alerts''"
| "group_name Commerce = ''commerce''"

text \<open>The command line: \<^verbatim>\<open>--wipe\<close> and \<^verbatim>\<open>--keep\<close> exclude each other.\<close>

definition seed_main ::
  "(seed_group list \<Rightarrow> seed_group list) \<Rightarrow> seed_env \<Rightarrow> string option \<Rightarrow> string list \<Rightarrow> bool \<Rightarrow> bool \<Rightarrow> database \<Rightarrow>
   run_end \<times> database" where
  "seed_main listed env answer selected wipe keep db =
     (if wipe \<and> keep then (Usage_error, db)
      else if selected = [] \<or> ''all'' \<in> set selected
      then seed_run listed env answer SEED_ORDER wipe keep db
      else
        (let unknown = filter (\<lambda>s. s \<notin> set (map group_name SEED_ORDER)) selected in
         if unknown \<noteq> [] then (Unknown_groups unknown, db)
         else seed_run listed env answer (filter (\<lambda>g. group_name g \<in> set selected) SEED_ORDER) wipe keep db))"

section \<open>Seeding only adds\<close>

text \<open>Every table starts with the rows it had.\<close>

definition only_adds :: "database \<Rightarrow> database \<Rightarrow> bool" where
  "only_adds db db' \<longleftrightarrow>
     prefix (db_users db) (db_users db') \<and> prefix (db_students db) (db_students db') \<and>
     prefix (db_helpers db) (db_helpers db') \<and> prefix (db_buses db) (db_buses db') \<and>
     prefix (db_stops db) (db_stops db') \<and> prefix (db_routes db) (db_routes db') \<and>
     prefix (db_route_stops db) (db_route_stops db') \<and> prefix (db_trips db) (db_trips db') \<and>
     prefix (db_seat_reports db) (db_seat_reports db') \<and> prefix (db_alerts db) (db_alerts db') \<and>
     prefix (db_products db) (db_products db') \<and> prefix (db_orders db) (db_orders db') \<and>
     prefix (db_tickets db) (db_tickets db') \<and> prefix (db_redemptions db) (db_redemptions db')"

named_theorems seed_grows \<open>a part of the seeder only adds rows\<close>

lemma only_adds_refl [simp, intro]: "only_adds db db"
  by (simp add: only_adds_def)

lemma only_adds_trans [trans]: "only_adds a b \<Longrightarrow> only_adds b c \<Longrightarrow> only_adds a c"
  unfolding only_adds_def by (blast intro: prefix_order.trans)

lemma only_adds_add [seed_grows]:
  "only_adds db (db\<lparr>db_users := db_users db @ us\<rparr>)" "only_adds db (db\<lparr>db_students := db_students db @ ss\<rparr>)"
  "only_adds db (db\<lparr>db_helpers := db_helpers db @ hs\<rparr>)" "only_adds db (db\<lparr>db_buses := db_buses db @ bs\<rparr>)"
  "only_adds db (db\<lparr>db_stops := db_stops db @ ps\<rparr>)" "only_adds db (db\<lparr>db_routes := db_routes db @ rs\<rparr>)"
  "only_adds db (db\<lparr>db_route_stops := db_route_stops db @ qs\<rparr>)" "only_adds db (db\<lparr>db_trips := db_trips db @ ts\<rparr>)"
  "only_adds db (db\<lparr>db_seat_reports := db_seat_reports db @ es\<rparr>)" "only_adds db (db\<lparr>db_alerts := db_alerts db @ as\<rparr>)"
  "only_adds db (db\<lparr>db_products := db_products db @ xs\<rparr>)" "only_adds db (db\<lparr>db_orders := db_orders db @ os\<rparr>)"
  "only_adds db (db\<lparr>db_tickets := db_tickets db @ ks\<rparr>)"
  by (simp_all add: only_adds_def)

lemma and_then_Inr: "and_then x f = Inr y \<longleftrightarrow> (\<exists>z. x = Inr z \<and> f z = Inr y)"
  by (auto simp: and_then_def split: sum.splits)

lemma and_then_Inl: "and_then x f = Inl e \<longleftrightarrow> x = Inl e \<or> (\<exists>z. x = Inr z \<and> f z = Inl e)"
  by (auto simp: and_then_def split: sum.splits)

lemma flush_Inr [dest!]: "flush db = Inr db' \<Longrightarrow> db' = db \<and> db_ok db"
  by (auto simp: flush_def split: sum.splits)

lemma flush_ok [simp]: "db_ok db \<Longrightarrow> flush db = Inr db"
  by (simp add: flush_def)

lemma committed_cases:
  assumes "committed db staged = (out, db')"
  shows "(\<exists>e. out = Inl e \<and> db' = db) \<or> (\<exists>x. out = Inr x \<and> staged = Inr (x, db') \<and> db_ok db')"
  using assms by (auto simp: committed_def and_then_Inr and_then_Inl split: sum.splits)

lemma each_induct:
  assumes "each f xs db = Inr (rs, db')" "P db"
    and "\<And>x r d d'. x \<in> set xs \<Longrightarrow> P d \<Longrightarrow> f x d = Inr (r, d') \<Longrightarrow> P d'"
  shows "P db'"
  using assms
proof (induction xs arbitrary: db rs)
  case (Cons x xs)
  from Cons.prems(1) obtain r d1 rs' where "f x db = Inr (r, d1)" "each f xs d1 = Inr (rs', db')"
    by (auto simp: and_then_Inr)
  note step = this
  have "P d1" by (rule Cons.prems(3) [OF _ Cons.prems(2) step(1)]) simp
  from Cons.IH [OF step(2) this] Cons.prems(3) show ?case by (meson list.set_intros(2))
qed simp

lemma each_grows:
  assumes "each f xs db = Inr (rs, db')" "\<And>x r d d'. f x d = Inr (r, d') \<Longrightarrow> only_adds d d'"
  shows "only_adds db db'"
  using each_induct [OF assms(1), of "only_adds db"] assms(2) only_adds_trans by blast

lemma each_rows:
  assumes "each f xs db = Inr (rs, db')" "\<And>x r d d'. f x d = Inr (r, d') \<Longrightarrow> only_adds d d'" "x \<in> set xs"
  shows "\<exists>r d d'. f x d = Inr (r, d') \<and> only_adds d' db' \<and> r \<in> set rs"
  using assms(1,3)
proof (induction xs arbitrary: db rs)
  case (Cons y xs)
  from Cons.prems(1) obtain r d1 rs' where step: "f y db = Inr (r, d1)" "each f xs d1 = Inr (rs', db')" "rs = r # rs'"
    by (auto simp: and_then_Inr)
  show ?case
  proof (cases "x = y")
    case True
    moreover have "only_adds d1 db'" using step(2) assms(2) by (rule each_grows)
    ultimately show ?thesis using step(1,3) by auto
  next
    case False
    with Cons.prems(2) Cons.IH [OF step(2)] step(3) show ?thesis by auto
  qed
qed simp

lemma add_user_result:
  "add_user env s role phone db = Inr (u, db') \<Longrightarrow>
     db' = db\<lparr>db_users := db_users db @ [u]\<rparr> \<and> us_email u = su_email s \<and> db_ok db'"
  by (auto simp: add_user_def Let_def and_then_Inr)

lemma one_or_none_Inr: "one_or_none rows = Inr (Some r) \<Longrightarrow> rows = [r]" "one_or_none rows = Inr None \<Longrightarrow> rows = []"
  by (induction rows rule: one_or_none.induct) auto

lemma find_userD:
  "find_user db email = Inr (Some u) \<Longrightarrow> u \<in> set (db_users db) \<and> us_email u = email"
  "find_user db email = Inr None \<Longrightarrow> email \<notin> us_email ` set (db_users db)"
  by (auto simp: find_user_def filter_eq_Cons_iff filter_empty_conv dest!: one_or_none_Inr)

lemma seed_user_row_grows [seed_grows]: "seed_user_row env s role phone db = Inr (u, db') \<Longrightarrow> only_adds db db'"
  by (auto simp: seed_user_row_def and_then_Inr intro: seed_grows dest!: add_user_result split: option.splits)

lemma seed_student_row_grows [seed_grows]:
  assumes "seed_student_row env s db = Inr (u, db')"
  shows "only_adds db db'"
proof (cases "find_user db (su_email s) = Inr None")
  case False
  from assms obtain found where found: "find_user db (su_email s) = Inr found"
    by (auto simp: seed_student_row_def and_then_Inr)
  with False obtain v where "found = Some v" by (cases found) auto
  with found assms show ?thesis by (simp add: seed_student_row_def and_then_def)
next
  case True
  with assms have "and_then (add_user env s Role_student None db) (\<lambda>(u, db1).
      let row = \<lparr>st_id = sv_id env ''students'' (length (db_students db1)), st_user_id = us_id u,
        st_student_id_no = ss_student_id_no s, st_department = Some (ss_department s),
        st_batch = Some (ss_batch s), st_default_stop_id = None\<rparr> in
      and_then (flush (db1\<lparr>db_students := db_students db1 @ [row]\<rparr>)) (\<lambda>db2. Inr (u, db2))) = Inr (u, db')"
    by (simp add: seed_student_row_def and_then_def)
  then show ?thesis by (auto simp: and_then_Inr Let_def only_adds_def dest!: add_user_result)
qed

lemma seed_bus_row_grows [seed_grows]: "seed_bus_row env b db = Inr (r, db') \<Longrightarrow> only_adds db db'"
  by (auto simp: seed_bus_row_def and_then_Inr Let_def intro: seed_grows split: option.splits)

lemma seed_stop_row_grows [seed_grows]: "seed_stop_row env s db = Inr (r, db') \<Longrightarrow> only_adds db db'"
  by (cases s) (auto simp: seed_stop_row_def and_then_Inr Let_def intro: seed_grows split: option.splits)

lemma seed_route_row_grows [seed_grows]: "seed_route_row env stops d db = Inr (r, db') \<Longrightarrow> only_adds db db'"
  by (auto simp: seed_route_row_def and_then_Inr Let_def only_adds_def split: option.splits)

lemma seed_product_row_grows [seed_grows]: "seed_product_row env s db = Inr (r, db') \<Longrightarrow> only_adds db db'"
  by (auto simp: seed_product_row_def and_then_Inr Let_def intro: seed_grows split: option.splits)

lemma add_trip_grows [seed_grows]: "add_trip env route b h d s t e st db = Inr (r, db') \<Longrightarrow> only_adds db db'"
  by (auto simp: add_trip_def and_then_Inr Let_def intro: seed_grows)

lemma seed_ticket_row_grows [seed_grows]: "seed_ticket_row env x db = Inr (r, db') \<Longrightarrow> only_adds db db'"
  by (auto simp: seed_ticket_row_def intro: seed_grows split: sum.splits py_error.splits)

lemma seed_fixture_grows [seed_grows]:
  assumes "seed_fixture env products db = Inr (x, db')"
  shows "only_adds db db'"
  using assms
  by (auto simp: seed_fixture_def and_then_Inr Let_def split: option.splits
      dest!: seed_ticket_row_grows intro: only_adds_trans [OF seed_grows(12)])

lemma committed_grows:
  assumes "committed db staged = (out, db')" "\<And>x d. staged = Inr (x, d) \<Longrightarrow> only_adds db d"
  shows "only_adds db db'"
  using committed_cases [OF assms(1)] assms(2) by auto

lemma find_user_absent: "email \<notin> us_email ` set (db_users db) \<Longrightarrow> find_user db email = Inr None"
proof -
  assume "email \<notin> us_email ` set (db_users db)"
  then have "filter (\<lambda>u. us_email u = email) (db_users db) = []" by (auto simp: filter_empty_conv)
  then show ?thesis by (simp add: find_user_def)
qed

lemma new_user_has_no_helper:
  assumes "db_ok db" "add_user env s role phone db = Inr (u, db1)"
  shows "helper_of_user db1 u = Inr None"
proof -
  from add_user_result [OF assms(2)] have db1: "db1 = db\<lparr>db_users := db_users db @ [u]\<rparr>" "db_ok db1" by auto
  have "us_id u \<notin> us_id ` set (db_users db)" using db1 by (auto simp: db_ok_def identity_ok_def)
  moreover have "hp_user_id h \<in> us_id ` set (db_users db)" if "h \<in> set (db_helpers db)" for h
  proof -
    have "get_user db (hp_user_id h) \<noteq> None" using assms(1) that by (simp add: db_ok_def identity_ok_def list_all_iff)
    then obtain v where "get_user db (hp_user_id h) = Some v" by auto
    from row_get_SomeD [OF this] show ?thesis by (metis imageI)
  qed
  ultimately have "filter (\<lambda>h. hp_user_id h = us_id u) (db_helpers db1) = []"
    by (simp add: db1(1) filter_empty_conv) metis
  then show ?thesis by (simp add: helper_of_user_def)
qed

lemma seed_helper_row_new:
  assumes "seed_helper_row env admin h db = Inr (r, db')" "db_ok db" "su_email h \<notin> us_email ` set (db_users db)"
  shows "only_adds db db' \<and> db_ok db' \<and> us_email ` set (db_users db') = insert (su_email h) (us_email ` set (db_users db))"
proof -
  from assms(1) find_user_absent [OF assms(3)] obtain u db1 where
    add: "add_user env h Role_helper (Some (sh_phone h)) db = Inr (u, db1)"
    by (auto simp: seed_helper_row_def seed_user_row_def and_then_Inr split: option.splits)
  from assms(1) add new_user_has_no_helper [OF assms(2) add] find_user_absent [OF assms(3)] obtain row where
    "db' = db1\<lparr>db_helpers := db_helpers db1 @ [row]\<rparr>" "db_ok db'"
    by (auto simp: seed_helper_row_def seed_user_row_def and_then_Inr Let_def split: option.splits)
  with add_user_result [OF add] show ?thesis by (auto simp: only_adds_def)
qed

lemma each_helpers_new:
  assumes "each (seed_helper_row env admin) hs db = Inr (rs, db')" "db_ok db" "distinct (map su_email hs)"
    "su_email ` set hs \<inter> us_email ` set (db_users db) = {}"
  shows "only_adds db db' \<and> db_ok db'"
  using assms
proof (induction hs arbitrary: db rs)
  case (Cons h hs)
  from Cons.prems(1) obtain r d rs' where step: "seed_helper_row env admin h db = Inr (r, d)"
    "each (seed_helper_row env admin) hs d = Inr (rs', db')" by (auto simp: and_then_Inr)
  from Cons.prems(4) have "su_email h \<notin> us_email ` set (db_users db)" by auto
  note new = seed_helper_row_new [OF step(1) Cons.prems(2) this]
  have "su_email ` set hs \<inter> us_email ` set (db_users d) = {}" using new Cons.prems(3,4) by auto
  with Cons.IH [OF step(2)] new Cons.prems(3) only_adds_trans show ?case by auto
qed simp

lemma count_users_none: "count_users db = 0 \<longleftrightarrow> set ALL_EMAILS \<inter> us_email ` set (db_users db) = {}"
  by (auto simp: count_users_def filter_empty_conv)

lemma seed_users_grows:
  assumes "seed_users env db = (out, db')" "count_users db = 0" "db_ok db"
  shows "only_adds db db'"
proof (rule committed_grows [OF assms(1) [unfolded seed_users_def]])
  fix x d
  assume "and_then (seed_user_row env ADMIN Role_admin None db) (\<lambda>(admin, db1).
      and_then (each (seed_helper_row env admin) HELPERS db1) (\<lambda>(helper_rows, db2).
      and_then (each (seed_student_row env) STUDENTS db2) (\<lambda>(student_rows, db3).
        Inr ((admin, helper_rows, student_rows), db3)))) = Inr (x, d)"
  then obtain admin db1 hs db2 ss where steps: "seed_user_row env ADMIN Role_admin None db = Inr (admin, db1)"
    "each (seed_helper_row env admin) HELPERS db1 = Inr (hs, db2)" "each (seed_student_row env) STUDENTS db2 = Inr (ss, d)"
    by (auto simp: and_then_Inr)
  have absent: "set ALL_EMAILS \<inter> us_email ` set (db_users db) = {}" using assms(2) by (simp only: count_users_none)
  then have "find_user db (su_email ADMIN) = Inr None" by (intro find_user_absent) (auto simp: ALL_EMAILS_def)
  with steps(1) have "add_user env ADMIN Role_admin None db = Inr (admin, db1)"
    by (simp add: seed_user_row_def and_then_def)
  note one = add_user_result [OF this]
  have "su_email ` set HELPERS \<inter> us_email ` set (db_users db1) = {}"
    using one absent by (auto simp: ALL_EMAILS_def) (auto simp: HELPERS_def ADMIN_def)
  with each_helpers_new [OF steps(2)] one have "only_adds db1 db2" by (auto simp: HELPERS_def)
  moreover have "only_adds db2 d" by (rule each_grows [OF steps(3)]) (rule seed_grows)
  moreover have "only_adds db db1" by (rule seed_user_row_grows [OF steps(1)])
  ultimately show "only_adds db d" using only_adds_trans by blast
qed

lemma seed_routes_grows: "seed_routes env db = (out, db') \<Longrightarrow> only_adds db db'"
  unfolding seed_routes_def
  by (erule committed_grows) (auto simp: and_then_Inr simp del: each.simps elim!: each_grows intro: seed_grows)

lemma crew_same: "each (\<lambda>h d. and_then (needed_row (find_user d (su_email h))) (\<lambda>u.
    and_then (needed_row (helper_of_user d u)) (\<lambda>row. Inr ((u, row), d)))) hs db = Inr (crew, d) \<Longrightarrow>
  d = db \<and> list_all2 (\<lambda>h (u, row). find_user db (su_email h) = Inr (Some u) \<and> helper_of_user db u = Inr (Some row)) hs crew"
  by (induction hs arbitrary: crew) (auto simp: and_then_Inr needed_row_def split: option.splits)

lemma helper_ids_mem:
  assumes "find_user db (su_email h) = Inr (Some u)" "helper_of_user db u = Inr (Some row)" "h \<in> set HELPERS"
  shows "hp_id row \<in> set (seed_helper_ids db)"
proof -
  define uids where "uids = map us_id (filter (\<lambda>u. us_email u \<in> set (map su_email HELPERS)) (db_users db))"
  from assms(2) have "row \<in> set (db_helpers db)" "hp_user_id row = us_id u"
    by (auto simp: helper_of_user_def filter_eq_Cons_iff dest!: one_or_none_Inr(1))
  moreover have "us_id u \<in> set uids" unfolding uids_def using find_userD(1) [OF assms(1)] assms(3) by auto
  moreover from this have "uids \<noteq> []" by auto
  ultimately have "hp_id row \<in> set (if uids = [] then [] else map hp_id (filter (\<lambda>h. hp_user_id h \<in> set uids) (db_helpers db)))"
    by auto
  then show ?thesis by (simp only: seed_helper_ids_def Let_def uids_def)
qed

lemma seed_crewD:
  assumes "seed_crew db = Inr (crew, d)"
  obtains u1 h1 u2 h2 where "crew = [(u1, h1), (u2, h2)]" "d = db"
    "hp_id h1 \<in> set (seed_helper_ids db)" "hp_id h2 \<in> set (seed_helper_ids db)"
proof -
  from crew_same [OF assms [unfolded seed_crew_def]] have "d = db" and all: "list_all2 (\<lambda>h (u, row).
      find_user db (su_email h) = Inr (Some u) \<and> helper_of_user db u = Inr (Some row)) HELPERS crew" by auto
  from all have "length crew = 2" by (auto dest!: list_all2_lengthD simp: HELPERS_def)
  then obtain u1 h1 u2 h2 where crew: "crew = [(u1, h1), (u2, h2)]"
    by (metis (no_types) Suc_length_conv length_0_conv numeral_2_eq_2 surj_pair)
  obtain a b where ab: "HELPERS = [a, b]" by (simp add: HELPERS_def)
  from all have "find_user db (su_email a) = Inr (Some u1) \<and> helper_of_user db u1 = Inr (Some h1)"
    "find_user db (su_email b) = Inr (Some u2) \<and> helper_of_user db u2 = Inr (Some h2)"
    unfolding ab crew by simp_all
  moreover have "a \<in> set HELPERS" "b \<in> set HELPERS" unfolding ab by simp_all
  ultimately have "hp_id h1 \<in> set (seed_helper_ids db)" "hp_id h2 \<in> set (seed_helper_ids db)"
    using helper_ids_mem by blast+
  with crew \<open>d = db\<close> that show thesis by blast
qed

lemma add_trip_result:
  "add_trip env route b h d s t e st db = Inr (r, db') \<Longrightarrow> r \<in> set (db_trips db') \<and> tr_helper_id r = hp_id h"
  by (auto simp: add_trip_def and_then_Inr Let_def)

text \<open>The first trip of the seeder belongs to one of the seed's helpers.\<close>

lemma seed_trip_rows_result:
  assumes "seed_trip_rows env h1 h2 buses routes db = Inr (ts, db')"
  shows "only_adds db db' \<and> (\<exists>t \<in> set (db_trips db'). tr_helper_id t = hp_id h1)"
proof -
  obtain b1 b2 b3 r1 r2 where "buses = (b1, b2, b3)" "routes = (r1, r2)" by (metis prod.exhaust)
  with assms obtain sd1 s1 a1 t1 d1 sd2 s2 a2 t2 d2 sd3 s3 a3 e3 t3 d3 sd4 s4 a4 e4 t4 where
    add: "add_trip env r1 b1 h1 sd1 s1 a1 None Trip_live db = Inr (t1, d1)"
      "add_trip env r2 b3 h2 sd2 s2 a2 None Trip_live d1 = Inr (t2, d2)"
      "add_trip env r2 b2 h2 sd3 s3 a3 e3 Trip_completed d2 = Inr (t3, d3)"
      "add_trip env r1 b1 h1 sd4 s4 a4 e4 Trip_completed d3 = Inr (t4, db')"
    by (auto simp: seed_trip_rows_def and_then_Inr Let_def)
  have "only_adds db d3" using add(1-3) [THEN add_trip_grows] only_adds_trans by blast
  moreover have "only_adds d3 db'" by (rule add_trip_grows [OF add(4)])
  ultimately show ?thesis using add_trip_result [OF add(4)] only_adds_trans by blast
qed

lemma seed_trips_staged:
  assumes "seed_trips env db = (Inr ts, db')"
  shows "only_adds db db' \<and> (\<exists>t \<in> set (db_trips db'). tr_helper_id t \<in> set (seed_helper_ids db))"
proof -
  from committed_cases [OF assms [unfolded seed_trips_def]] obtain crew d buses routes where
    "seed_crew db = Inr (crew, d)" "seed_trip_rows env (snd (crew ! 0)) (snd (crew ! 1)) buses routes db = Inr (ts, db')"
    by (auto simp: and_then_Inr)
  note found = this
  from found(1) obtain u1 h1 u2 h2 where "crew = [(u1, h1), (u2, h2)]" "hp_id h1 \<in> set (seed_helper_ids db)"
    by (rule seed_crewD)
  with seed_trip_rows_result [OF found(2)] show ?thesis by (metis nth_Cons_0 snd_conv)
qed

lemma seed_trips_grows: "seed_trips env db = (out, db') \<Longrightarrow> only_adds db db'"
  unfolding seed_trips_def
  by (erule committed_grows) (auto simp: and_then_Inr dest: seed_trip_rows_result)

lemma seed_reports_grows: "seed_reports env db = (out, db') \<Longrightarrow> only_adds db db'"
  unfolding seed_reports_def
  by (erule committed_grows) (auto simp: and_then_Inr Let_def seed_report_rows_def only_adds_def split: if_splits)

lemma seed_alerts_staged:
  assumes "seed_alerts env db = (Inr as, db')"
  shows "\<exists>u1 u2 live. find_user db (su_email (HELPERS ! 0)) = Inr (Some u1) \<and>
    db' = db\<lparr>db_alerts := db_alerts db @ seed_alert_rows env u1 u2 live db\<rparr>"
proof -
  from committed_cases [OF assms [unfolded seed_alerts_def]] obtain o1 o2 where found:
    "find_user db (su_email (HELPERS ! 0)) = Inr o1"
    "(case (o1, o2) of
        (Some h1_user, Some h2_user) \<Rightarrow>
          and_then (helper_of_user db h1_user) (\<lambda>h1_row.
          and_then (live_trip_of db h1_row) (\<lambda>live_trip.
          let alerts = seed_alert_rows env h1_user h2_user live_trip db in
          Inr (alerts, db\<lparr>db_alerts := db_alerts db @ alerts\<rparr>)))
      | _ \<Rightarrow> Inl Stop_RuntimeError) = Inr (as, db')"
    by (auto simp: and_then_Inr)
  then obtain u1 u2 where "o1 = Some u1" "o2 = Some u2" by (cases o1; cases o2) auto
  with found show ?thesis by (auto simp: and_then_Inr Let_def)
qed

lemma seed_alerts_grows: "seed_alerts env db = (out, db') \<Longrightarrow> only_adds db db'"
  using seed_alerts_staged committed_cases unfolding seed_alerts_def
  by (cases out) (fastforce intro: seed_grows(10))+

lemma seed_commerce_grows:
  assumes "seed_commerce env db = (out, db')"
  shows "only_adds db db'"
proof -
  obtain out1 db1 where one: "committed db (each (seed_product_row env) PRODUCTS db) = (out1, db1)" by fastforce
  have first: "only_adds db db1" by (rule committed_grows [OF one]) (auto elim!: each_grows intro: seed_grows)
  show ?thesis
  proof (cases out1)
    case (Inl e)
    with assms one first show ?thesis by (simp add: seed_commerce_def)
  next
    case (Inr products)
    obtain out2 db2 where two: "committed db1 (seed_fixture env products db1) = (out2, db2)" by fastforce
    have "only_adds db1 db2" by (rule committed_grows [OF two]) (rule seed_grows)
    with assms one two first Inr only_adds_trans show ?thesis by (auto simp: seed_commerce_def split: sum.splits)
  qed
qed

lemma counted_Inr: "counted f x = (Inr n, db) \<longleftrightarrow> (\<exists>y. x = (Inr y, db) \<and> n = f y)"
  by (auto simp: counted_def split: prod.splits sum.splits)

lemma counted_snd: "counted f x = (out, db) \<Longrightarrow> snd x = db"
  by (auto simp: counted_def split: prod.splits sum.splits)

lemma committed_ok: "committed db staged = (out, db') \<Longrightarrow> db_ok db \<Longrightarrow> db_ok db'"
  by (auto dest: committed_cases)

lemma seed_commerce_ok:
  assumes "seed_commerce env db = (out, db')" "db_ok db"
  shows "db_ok db'"
proof -
  obtain out1 db1 where one: "committed db (each (seed_product_row env) PRODUCTS db) = (out1, db1)" by fastforce
  note ok = committed_ok [OF one assms(2)]
  show ?thesis
  proof (cases out1)
    case (Inl e)
    with assms(1) one ok show ?thesis by (simp add: seed_commerce_def)
  next
    case (Inr products)
    obtain out2 db2 where two: "committed db1 (seed_fixture env products db1) = (out2, db2)" by fastforce
    from committed_ok [OF two ok] assms(1) one two Inr show ?thesis by (auto simp: seed_commerce_def split: sum.splits)
  qed
qed

lemma seed_fn_grows:
  assumes "SEED_FNS g env db = (out, db')" "db_ok db" "g = Users \<Longrightarrow> count_users db = 0"
  shows "only_adds db db' \<and> db_ok db'"
proof -
  have counted: "\<exists>out'. x = (out', db')" if "counted f x = (out, db')" for x :: "(seed_stop + 'x) \<times> database" and f
    using counted_snd [OF that] by (cases x) simp
  show ?thesis
  proof (cases g)
    case Users
    with assms counted [of _ "seed_users env db"] show ?thesis
      using seed_users_grows committed_ok by (fastforce simp: seed_users_def)
  next
    case Buses
    with assms(1) counted obtain o' where o': "seed_buses env db = (o', db')" by fastforce
    then have "only_adds db db'" unfolding seed_buses_def by (rule committed_grows) (auto elim!: each_grows intro: seed_grows)
    with o' committed_ok assms(2) show ?thesis unfolding seed_buses_def by blast
  next
    case Stops
    with assms(1) counted obtain o' where o': "seed_stops env db = (o', db')" by fastforce
    then have "only_adds db db'" unfolding seed_stops_def by (rule committed_grows) (auto elim!: each_grows intro: seed_grows)
    with o' committed_ok assms(2) show ?thesis unfolding seed_stops_def by blast
  next
    case Routes
    with assms(1) counted obtain o' where o': "seed_routes env db = (o', db')" by fastforce
    with seed_routes_grows committed_ok assms(2) show ?thesis unfolding seed_routes_def by blast
  next
    case Trips
    with assms(1) counted obtain o' where o': "seed_trips env db = (o', db')" by fastforce
    with seed_trips_grows committed_ok assms(2) show ?thesis unfolding seed_trips_def by blast
  next
    case Reports
    with assms(1) counted obtain o' where o': "seed_reports env db = (o', db')" by fastforce
    with seed_reports_grows committed_ok assms(2) show ?thesis unfolding seed_reports_def by blast
  next
    case Alerts
    with assms(1) counted obtain o' where o': "seed_alerts env db = (o', db')" by fastforce
    with seed_alerts_grows committed_ok assms(2) show ?thesis unfolding seed_alerts_def by blast
  next
    case Commerce
    with assms(1) counted obtain o' where o': "seed_commerce env db = (o', db')" by fastforce
    with seed_commerce_grows seed_commerce_ok assms(2) show ?thesis by blast
  qed
qed

section \<open>Seeding fills its group\<close>

lemma only_adds_sets:
  assumes "only_adds db db'"
  shows "set (db_users db) \<subseteq> set (db_users db')" "set (db_helpers db) \<subseteq> set (db_helpers db')"
    "set (db_buses db) \<subseteq> set (db_buses db')" "set (db_stops db) \<subseteq> set (db_stops db')"
    "set (db_routes db) \<subseteq> set (db_routes db')" "set (db_trips db) \<subseteq> set (db_trips db')"
    "set (db_seat_reports db) \<subseteq> set (db_seat_reports db')" "set (db_alerts db) \<subseteq> set (db_alerts db')"
    "set (db_products db) \<subseteq> set (db_products db')"
  using assms by (auto simp: only_adds_def dest: set_mono_prefix)

lemma seed_user_ids_grows: "only_adds db db' \<Longrightarrow> set (seed_user_ids db) \<subseteq> set (seed_user_ids db')"
  by (auto simp: seed_user_ids_def dest!: only_adds_sets(1))

lemma seed_helper_ids_set:
  "set (seed_helper_ids db) = {hp_id h |h u. h \<in> set (db_helpers db) \<and> u \<in> set (db_users db) \<and>
     us_email u \<in> su_email ` set HELPERS \<and> hp_user_id h = us_id u}"
  by (auto simp: seed_helper_ids_def Let_def filter_empty_conv)

lemma seed_helper_ids_grows: "only_adds db db' \<Longrightarrow> set (seed_helper_ids db) \<subseteq> set (seed_helper_ids db')"
  unfolding seed_helper_ids_set using only_adds_sets(1,2) by blast

text \<open>What a positive count says.\<close>

definition seeded :: "seed_group \<Rightarrow> database \<Rightarrow> bool" where
  "seeded g db \<longleftrightarrow> (case g of
     Users \<Rightarrow> \<exists>u \<in> set (db_users db). us_email u \<in> set ALL_EMAILS
   | Buses \<Rightarrow> \<exists>b \<in> set (db_buses db). bs_reg_no b \<in> sb_reg_no ` set BUSES
   | Stops \<Rightarrow> \<exists>s \<in> set (db_stops db). sp_name s \<in> fst ` set STOPS
   | Routes \<Rightarrow> \<exists>r \<in> set (db_routes db). rt_name r = ROUTE_NAME
   | Trips \<Rightarrow> \<exists>t \<in> set (db_trips db). tr_helper_id t \<in> set (seed_helper_ids db)
   | Reports \<Rightarrow> \<exists>s \<in> set (db_seat_reports db). se_helper_id s \<in> set (seed_helper_ids db)
   | Alerts \<Rightarrow> \<exists>a \<in> set (db_alerts db). raised_by_seed (seed_user_ids db) a
   | Commerce \<Rightarrow> \<exists>p \<in> set (db_products db). pr_name p \<in> sq_name ` set PRODUCTS)"

lemma length_filter_pos: "0 < length (filter P xs) \<longleftrightarrow> (\<exists>x \<in> set xs. P x)"
  by (auto simp: filter_empty_conv)

lemma count_pos: "0 < COUNT_FNS g db \<longleftrightarrow> seeded g db"
proof (cases g)
  case Alerts
  then show ?thesis
    by (simp add: seeded_def count_alerts_def Let_def length_filter_pos no_seed_alerts del: length_greater_0_conv)
qed (auto simp: seeded_def count_users_def count_buses_def count_stops_def count_routes_def count_trips_def
    count_reports_def count_commerce_def Let_def length_filter_pos simp del: length_greater_0_conv)

lemma seeded_grows:
  assumes "seeded g db" "only_adds db db'"
  shows "seeded g db'"
proof -
  note sets = only_adds_sets [OF assms(2)] seed_helper_ids_grows [OF assms(2)] seed_user_ids_grows [OF assms(2)]
  show ?thesis
  proof (cases g)
    case Alerts
    with assms(1) obtain a i where "a \<in> set (db_alerts db)" "al_raised_by a = Some i" "i \<in> set (seed_user_ids db)"
      by (auto simp: seeded_def raised_by_seed_def split: option.splits)
    with sets Alerts show ?thesis by (auto simp: seeded_def raised_by_seed_def intro!: bexI [of _ a])
  qed (insert assms(1) sets; simp add: seeded_def; blast)+
qed

text \<open>A row looked up is there already or is added now.\<close>

lemma found_or_added:
  assumes "and_then (one_or_none (filter P rows)) (\<lambda>x. case x of Some r \<Rightarrow> Inr (r, db) | None \<Rightarrow> g) = Inr (r, db')"
  shows "r \<in> set rows \<and> P r \<and> db' = db \<or> g = Inr (r, db')"
proof (cases "one_or_none (filter P rows)")
  case (Inr found)
  show ?thesis
  proof (cases found)
    case None
    with Inr assms show ?thesis by (simp add: and_then_def)
  next
    case (Some x)
    with Inr one_or_none_Inr(1) [of "filter P rows" x] have "filter P rows = [x]" by simp
    then have "x \<in> set (filter P rows)" by (simp only: list.set insert_iff simp_thms)
    then have "x \<in> set rows" "P x" by simp_all
    moreover have "(Inr (x, db) :: seed_stop + _) = Inr (r, db')" using assms unfolding Inr Some by (simp add: and_then_def)
    ultimately show ?thesis by simp
  qed
qed (use assms in \<open>simp add: and_then_def\<close>)

lemma seed_bus_row_there: "seed_bus_row env b db = Inr (r, db') \<Longrightarrow> r \<in> set (db_buses db') \<and> bs_reg_no r = sb_reg_no b"
  unfolding seed_bus_row_def find_bus_def by (drule found_or_added) (auto simp: and_then_Inr Let_def)

lemma seed_stop_row_there: "seed_stop_row env s db = Inr (r, db') \<Longrightarrow> r \<in> set (db_stops db') \<and> sp_name r = fst s"
  unfolding seed_stop_row_def find_stop_def case_prod_beta by (drule found_or_added) (auto simp: and_then_Inr Let_def)

lemma seed_route_row_there:
  "seed_route_row env stops d db = Inr (r, db') \<Longrightarrow> r \<in> set (db_routes db') \<and> rt_name r = ROUTE_NAME"
  unfolding seed_route_row_def find_route_def by (drule found_or_added) (auto simp: and_then_Inr Let_def)

lemma seed_product_row_there:
  "seed_product_row env s db = Inr (r, db') \<Longrightarrow> r \<in> set (db_products db') \<and> pr_name r = sq_name s"
  unfolding seed_product_row_def by (drule found_or_added) (auto simp: and_then_Inr Let_def)

lemma seed_user_row_there:
  "seed_user_row env s role phone db = Inr (u, db') \<Longrightarrow> u \<in> set (db_users db') \<and> us_email u = su_email s"
  unfolding seed_user_row_def find_user_def by (drule found_or_added) (auto dest: add_user_result)

lemma committed_Inr:
  "committed db staged = (Inr x, db') \<Longrightarrow> staged = Inr (x, db')"
  by (auto dest: committed_cases)

lemma seed_helper_row_users:
  assumes "seed_helper_row env admin h db = Inr (r, db')"
  shows "set (db_users db) \<subseteq> set (db_users db')"
proof -
  from assms obtain u db1 where "seed_user_row env h Role_helper (Some (sh_phone h)) db = Inr (u, db1)"
    "db_users db' = db_users db1"
    by (auto simp: seed_helper_row_def and_then_Inr Let_def split: option.splits)
  with seed_user_row_grows only_adds_sets(1) show ?thesis by metis
qed

text \<open>A completed trip with a start gets its reports, whichever of the two helpers drove it.\<close>

lemma trip_reports_helper: "s \<in> set (trip_reports env h seats ts db) \<Longrightarrow> se_helper_id s = hp_id h"
  by (auto simp: trip_reports_def split: option.splits)

lemma trip_reports_some:
  assumes "t \<in> set ts" "tr_helper_id t = hp_id h" "\<And>t. t \<in> set ts \<Longrightarrow> tr_actual_start t \<noteq> None" "seats \<noteq> []"
  shows "trip_reports env h seats ts db \<noteq> []"
proof (cases "find (\<lambda>t. tr_helper_id t = hp_id h) ts")
  case None
  with assms(1,2) show ?thesis by (auto simp: find_None_iff)
next
  case (Some t')
  then have "t' \<in> set ts" by (metis find_Some_iff nth_mem)
  with assms(3) obtain start where "tr_actual_start t' = Some start" by blast
  with Some assms(4) show ?thesis by (simp add: trip_reports_def)
qed

lemma by_start_set: "(\<And>ts. set (sv_plan env ts) = set ts) \<Longrightarrow> set (by_start env ts) = set ts"
  by (auto simp: by_start_def Let_def)

lemma seed_reports_staged:
  assumes "seed_reports env db = (Inr rs, db')" "\<And>ts. set (sv_plan env ts) = set ts"
    "\<And>t. t \<in> set (db_trips db) \<Longrightarrow> tr_status t = Trip_completed \<Longrightarrow> tr_actual_start t \<noteq> None"
  shows "\<exists>s \<in> set (db_seat_reports db'). se_helper_id s \<in> set (seed_helper_ids db')"
proof -
  from committed_Inr [OF assms(1) [unfolded seed_reports_def]] obtain crew d completed where
    crew: "seed_crew db = Inr (crew, d)" and completed: "completed = by_start env (filter (\<lambda>t.
        tr_helper_id t \<in> hp_id ` snd ` set crew \<and> tr_status t = Trip_completed) (db_trips db))" "completed \<noteq> []"
    and rows: "(rs, db') = seed_report_rows env (snd (crew ! 0)) (snd (crew ! 1)) completed db"
    by (auto simp: and_then_Inr Let_def split: if_splits)
  from rows have r2: "set (trip_reports env (snd (crew ! 1)) [(12, 10), (27, 35), (40, 65)] completed db) \<subseteq> set (db_seat_reports db')"
    and r3: "\<exists>db1. set (trip_reports env (snd (crew ! 0)) [(18, 15), (32, 45)] completed db1) \<subseteq> set (db_seat_reports db')"
    by (auto simp: seed_report_rows_def Let_def)
  from crew obtain u1 h1 u2 h2 where pair: "crew = [(u1, h1), (u2, h2)]"
    "hp_id h1 \<in> set (seed_helper_ids db)" "hp_id h2 \<in> set (seed_helper_ids db)" by (rule seed_crewD)
  from completed obtain t where t: "t \<in> set completed" "tr_helper_id t \<in> {hp_id h1, hp_id h2}"
    using by_start_set [OF assms(2)] pair(1) by (cases completed) fastforce+
  have starts: "tr_actual_start t \<noteq> None" if "t \<in> set completed" for t
    using that assms(3) by (auto simp: completed(1) by_start_set [OF assms(2)])
  have "\<exists>h \<in> {h1, h2}. \<exists>seats db1. trip_reports env h seats completed db1 \<noteq> [] \<and>
      set (trip_reports env h seats completed db1) \<subseteq> set (db_seat_reports db')"
  proof (cases "tr_helper_id t = hp_id h1")
    case True
    from r3 pair(1) obtain db1 where "set (trip_reports env h1 [(18, 15), (32, 45)] completed db1) \<subseteq> set (db_seat_reports db')"
      by auto
    with trip_reports_some [OF t(1) True starts, of "[(18, 15), (32, 45)]"] show ?thesis by blast
  next
    case False
    with t(2) have "tr_helper_id t = hp_id h2" by simp
    from trip_reports_some [OF t(1) this starts, of "[(12, 10), (27, 35), (40, 65)]"] r2
    show ?thesis unfolding pair(1) by (intro bexI [of _ h2] exI conjI) auto
  qed
  then obtain h s where hs: "h \<in> {h1, h2}" "s \<in> set (db_seat_reports db')" "se_helper_id s = hp_id h"
    using trip_reports_helper by (metis list.set_sel(1) subsetD)
  have "set (seed_helper_ids db) \<subseteq> set (seed_helper_ids db')"
    by (rule seed_helper_ids_grows) (rule seed_reports_grows [OF assms(1)])
  with hs(1) pair(2,3) have "hp_id h \<in> set (seed_helper_ids db')" by auto
  with hs(2,3) show ?thesis by (intro bexI [of _ s]) simp_all
qed

lemma seed_fn_seeded:
  assumes "SEED_FNS g env db = (Inr n, db')" "\<And>ts. set (sv_plan env ts) = set ts"
    and "\<And>t. t \<in> set (db_trips db) \<Longrightarrow> tr_status t = Trip_completed \<Longrightarrow> tr_actual_start t \<noteq> None"
  shows "seeded g db'"
proof (cases g)
  case Users
  with assms(1) obtain x where "seed_users env db = (Inr x, db')" by (auto simp: counted_Inr)
  from committed_Inr [OF this [unfolded seed_users_def]] obtain admin db1 hs db2 ss where
    "seed_user_row env ADMIN Role_admin None db = Inr (admin, db1)"
    "each (seed_helper_row env admin) HELPERS db1 = Inr (hs, db2)" "each (seed_student_row env) STUDENTS db2 = Inr (ss, db')"
    by (auto simp: and_then_Inr)
  note rows = this
  let ?P = "\<lambda>d. admin \<in> set (db_users d)"
  have "?P db1" "us_email admin = su_email ADMIN" using seed_user_row_there [OF rows(1)] by simp_all
  moreover from rows(2) this(1) have "?P db2" by (rule each_induct) (use seed_helper_row_users in blast)
  with rows(3) have "?P db'" by (rule each_induct) (use seed_student_row_grows only_adds_sets(1) in blast)
  ultimately show ?thesis using Users by (auto simp: seeded_def ALL_EMAILS_def)
next
  case Buses
  with assms(1) obtain x where "seed_buses env db = (Inr x, db')" by (auto simp: counted_Inr)
  note rows = committed_Inr [OF this [unfolded seed_buses_def]]
  have "BUSES \<noteq> []" by (simp add: BUSES_def)
  then obtain b where b: "b \<in> set BUSES" by (meson list.set_sel(1))
  have "\<exists>r d d'. seed_bus_row env b d = Inr (r, d') \<and> only_adds d' db' \<and> r \<in> set x"
    by (rule each_rows [OF rows]) (use seed_bus_row_grows b in blast)+
  then obtain r d d' where r: "seed_bus_row env b d = Inr (r, d')" "only_adds d' db'" by blast
  from seed_bus_row_there [OF r(1)] only_adds_sets(3) [OF r(2)] b Buses show ?thesis by (auto simp: seeded_def)
next
  case Stops
  with assms(1) obtain x where "seed_stops env db = (Inr x, db')" by (auto simp: counted_Inr)
  note rows = committed_Inr [OF this [unfolded seed_stops_def]]
  have "STOPS \<noteq> []" by (simp add: STOPS_def)
  then obtain b where b: "b \<in> set STOPS" by (meson list.set_sel(1))
  have "\<exists>r d d'. seed_stop_row env b d = Inr (r, d') \<and> only_adds d' db' \<and> r \<in> set x"
    by (rule each_rows [OF rows]) (use seed_stop_row_grows b in blast)+
  then obtain r d d' where r: "seed_stop_row env b d = Inr (r, d')" "only_adds d' db'" by blast
  from seed_stop_row_there [OF r(1)] only_adds_sets(4) [OF r(2)] b Stops show ?thesis by (auto simp: seeded_def)
next
  case Routes
  with assms(1) obtain x where "seed_routes env db = (Inr x, db')" by (auto simp: counted_Inr)
  from committed_Inr [OF this [unfolded seed_routes_def]] obtain stops where
    rows: "each (seed_route_row env stops) [Dir_outbound, Dir_inbound] db = Inr (x, db')"
    by (auto simp: and_then_Inr simp del: each.simps)
  have "\<exists>r d d'. seed_route_row env stops Dir_outbound d = Inr (r, d') \<and> only_adds d' db' \<and> r \<in> set x"
    by (rule each_rows [OF rows]) (use seed_route_row_grows in simp_all)
  then obtain r d d' where r: "seed_route_row env stops Dir_outbound d = Inr (r, d')" "only_adds d' db'" by blast
  from seed_route_row_there [OF r(1)] only_adds_sets(5) [OF r(2)] Routes show ?thesis by (auto simp: seeded_def)
next
  case Trips
  with assms(1) obtain x where "seed_trips env db = (Inr x, db')" by (auto simp: counted_Inr)
  from seed_trips_staged [OF this] seed_helper_ids_grows Trips show ?thesis by (fastforce simp: seeded_def)
next
  case Reports
  with assms(1) obtain x where "seed_reports env db = (Inr x, db')" by (auto simp: counted_Inr)
  from seed_reports_staged [OF this assms(2,3)] Reports show ?thesis by (simp add: seeded_def)
next
  case Alerts
  with assms(1) obtain x where "seed_alerts env db = (Inr x, db')" by (auto simp: counted_Inr)
  from seed_alerts_staged [OF this] obtain u1 u2 live where found: "find_user db (su_email (HELPERS ! 0)) = Inr (Some u1)"
    "db' = db\<lparr>db_alerts := db_alerts db @ seed_alert_rows env u1 u2 live db\<rparr>" by blast
  let ?a = "hd (seed_alert_rows env u1 u2 live db)"
  have "us_email u1 \<in> set ALL_EMAILS" using find_userD(1) [OF found(1)] by (simp add: ALL_EMAILS_def HELPERS_def)
  then have "us_id u1 \<in> set (seed_user_ids db')" using find_userD(1) [OF found(1)] by (simp add: seed_user_ids_def found(2))
  then have "raised_by_seed (seed_user_ids db') ?a"
    by (simp add: raised_by_seed_def seed_alert_rows_def Let_def seed_alert_def)
  moreover have "?a \<in> set (db_alerts db')" by (simp add: found(2) seed_alert_rows_def Let_def)
  ultimately show ?thesis using Alerts by (auto simp: seeded_def)
next
  case Commerce
  with assms(1) obtain x where "seed_commerce env db = (Inr x, db')" by (auto simp: counted_Inr)
  then obtain db1 where "committed db (each (seed_product_row env) PRODUCTS db) = (Inr x, db1)"
    "\<exists>y. committed db1 (seed_fixture env x db1) = (Inr y, db')"
    by (auto simp: seed_commerce_def split: prod.splits sum.splits)
  note two = this
  from two(2) obtain y where "committed db1 (seed_fixture env x db1) = (Inr y, db')" ..
  from seed_fixture_grows [OF committed_Inr [OF this]] have later: "only_adds db1 db'" .
  have "PRODUCTS \<noteq> []" by (simp add: PRODUCTS_def)
  then obtain b where b: "b \<in> set PRODUCTS" by (meson list.set_sel(1))
  have "\<exists>r d d'. seed_product_row env b d = Inr (r, d') \<and> only_adds d' db1 \<and> r \<in> set x"
    by (rule each_rows [OF committed_Inr [OF two(1)]]) (use seed_product_row_grows b in blast)+
  then obtain r d d' where "seed_product_row env b d = Inr (r, d')" "only_adds d' db1" by blast
  note r = this
  from seed_product_row_there [OF r(1)] have "r \<in> set (db_products d')" "pr_name r = sq_name b" by simp_all
  with only_adds_sets(9) [OF r(2)] only_adds_sets(9) [OF later] have "r \<in> set (db_products db')" "pr_name r = sq_name b" by auto
  with b Commerce show ?thesis by (auto simp: seeded_def)
qed

section \<open>Running with --keep\<close>

lemma seed_each_grows:
  assumes "seed_each env results gs db = (end, db')" "db_ok db" "Users \<notin> set gs"
  shows "only_adds db db' \<and> db_ok db'"
  using assms
proof (induction gs arbitrary: results db)
  case (Cons g gs)
  obtain out d where one: "SEED_FNS g env db = (out, d)" by fastforce
  from seed_fn_grows [OF one Cons.prems(2)] Cons.prems(3) have d: "only_adds db d" "db_ok d" by auto
  show ?case
  proof (cases out)
    case (Inl e)
    with one Cons.prems(1) d show ?thesis by (cases e) auto
  next
    case (Inr n)
    with one Cons.prems(1) have "seed_each env (results @ [(g, n)]) gs d = (end, db')" by simp
    from Cons.IH [OF this d(2)] Cons.prems(3) d(1) only_adds_trans show ?thesis by auto
  qed
qed simp

lemma seed_each_something: "seed_each env results gs db \<noteq> (Nothing_to_seed, db')"
  by (induction gs arbitrary: results db) (auto split: prod.splits sum.splits seed_stop.splits)

lemma seed_order_first:
  assumes "Users \<in> set (filter Q (filter P SEED_ORDER))"
  shows "\<exists>gs. filter Q (filter P SEED_ORDER) = Users # gs \<and> Users \<notin> set gs"
proof -
  obtain os where os: "SEED_ORDER = Users # os" "Users \<notin> set os" by (simp add: SEED_ORDER_def)
  from assms have "P Users" "Q Users" by auto
  with os(2) show ?thesis unfolding os(1) by simp
qed

lemma seed_order_grows:
  assumes "seed_each env [] (filter P SEED_ORDER) db = (end, db')" "db_ok db" "P Users \<Longrightarrow> count_users db = 0"
  shows "only_adds db db' \<and> db_ok db'"
proof (cases "P Users")
  case False
  then have "Users \<notin> set (filter P SEED_ORDER)" by simp
  from seed_each_grows [OF assms(1,2) this] show ?thesis .
next
  case True
  define gs where "gs = filter P (tl SEED_ORDER)"
  have order: "filter P SEED_ORDER = Users # gs" "Users \<notin> set gs" using True by (simp_all add: gs_def SEED_ORDER_def)
  obtain out d where one: "SEED_FNS Users env db = (out, d)" by fastforce
  from seed_fn_grows [OF one assms(2) assms(3) [OF True]] have d: "only_adds db d" "db_ok d" by auto
  show ?thesis
  proof (cases out)
    case (Inl e)
    with one assms(1) d show ?thesis unfolding order(1) by (cases e) (auto simp del: SEED_FNS.simps)
  next
    case (Inr n)
    with one assms(1) have "seed_each env [(Users, n)] gs d = (end, db')" unfolding order(1)
      by (simp del: SEED_FNS.simps)
    from seed_each_grows [OF this d(2) order(2)] d(1) only_adds_trans show ?thesis by blast
  qed
qed

lemma seed_each_seeded:
  assumes "seed_each env results gs db = (Seeded rs, db')" "db_ok db" "Users \<in> set gs \<longrightarrow> hd gs = Users \<and> count_users db = 0 \<and> Users \<notin> set (tl gs)"
    and "\<And>ts. set (sv_plan env ts) = set ts"
    and "\<And>t. t \<in> set (db_trips db') \<Longrightarrow> tr_status t = Trip_completed \<Longrightarrow> tr_actual_start t \<noteq> None"
  shows "only_adds db db' \<and> (\<forall>g \<in> set gs. seeded g db')"
  using assms(1-3)
proof (induction gs arbitrary: results db)
  case (Cons g gs)
  obtain out d where one: "SEED_FNS g env db = (out, d)" by fastforce
  have users: "g = Users \<Longrightarrow> count_users db = 0" "Users \<notin> set gs" using Cons.prems(3) by auto
  from seed_fn_grows [OF one Cons.prems(2) users(1)] have d: "only_adds db d" "db_ok d" by auto
  from one Cons.prems(1) obtain n where n: "out = Inr n" "seed_each env (results @ [(g, n)]) gs d = (Seeded rs, db')"
    by (auto split: sum.splits seed_stop.splits)
  from Cons.IH [OF n(2) d(2)] users(2) have rest: "only_adds d db'" "\<forall>g \<in> set gs. seeded g db'" by auto
  have "tr_actual_start t \<noteq> None" if "t \<in> set (db_trips db)" "tr_status t = Trip_completed" for t
    using that assms(5) only_adds_sets(6) [OF d(1)] only_adds_sets(6) [OF rest(1)] by blast
  from seed_fn_seeded [OF one [unfolded n(1)] assms(4) this] have "seeded g d" .
  with seeded_grows rest d(1) only_adds_trans show ?case by auto
qed simp

lemma dirty_groups_set: "set (dirty_groups groups db) = {g \<in> set groups. seeded g db}"
  by (auto simp: dirty_groups_def count_pos simp del: COUNT_FNS.simps)

lemma keep_nothing:
  assumes "\<forall>g \<in> set groups. seeded g db"
  shows "seed_run listed env answer groups force_wipe True db = (Nothing_to_seed, db)"
  using assms by (auto simp: seed_run_def Let_def dirty_groups_set filter_empty_conv)

text \<open>The groups a command line names, in seed order.\<close>

lemma seed_main_keep:
  assumes "seed_main listed env answer selected False True db = (end, db')"
  shows "(\<exists>unknown. end = Unknown_groups unknown \<and> db' = db) \<or>
    (\<exists>P. (\<forall>listed env answer db. seed_main listed env answer selected False True db =
        seed_run listed env answer (filter P SEED_ORDER) False True db) \<and>
      seed_run listed env answer (filter P SEED_ORDER) False True db = (end, db'))"
proof (cases "selected = [] \<or> ''all'' \<in> set selected")
  case True
  then have main: "seed_main listed env answer selected False True db =
      seed_run listed env answer (filter (\<lambda>_. True) SEED_ORDER) False True db" for listed env answer db
    by (auto simp: seed_main_def)
  with assms show ?thesis by (intro disjI2 exI [of _ "\<lambda>_. True"]) auto
next
  case False
  let ?P = "\<lambda>g. group_name g \<in> set selected"
  show ?thesis
  proof (cases "filter (\<lambda>s. s \<notin> set (map group_name SEED_ORDER)) selected = []")
    case True
    with False have main: "seed_main listed env answer selected False True db =
        seed_run listed env answer (filter ?P SEED_ORDER) False True db" for listed env answer db
      unfolding seed_main_def Let_def by (simp del: set_map)
    with assms show ?thesis by (intro disjI2 exI [of _ ?P]) auto
  next
    case unknown: False
    with False assms show ?thesis unfolding seed_main_def Let_def by (auto simp del: set_map)
  qed
qed

text \<open>
  A run with \<^verbatim>\<open>--keep\<close> only adds. Whatever groups it names, in whatever state the
  database is and however the run ends (seeded, nothing to do, an error half way), every row of every
  table is still there, unchanged and in its place, and the constraints hold.
\<close>

theorem keep_only_adds:
  assumes "seed_main listed env answer selected False True db = (end, db')" "db_ok db"
  shows "only_adds db db' \<and> db_ok db'"
proof -
  from seed_main_keep [OF assms(1)] consider "db' = db"
    | P where "seed_run listed env answer (filter P SEED_ORDER) False True db = (end, db')" by blast
  then show ?thesis
  proof cases
    case 2
    let ?dirty = "dirty_groups (filter P SEED_ORDER) db"
    have groups: "filter (\<lambda>g. g \<notin> set ?dirty) (filter P SEED_ORDER) = filter (\<lambda>g. P g \<and> g \<notin> set ?dirty) SEED_ORDER"
      by (simp add: conj_commute)
    have "count_users db = 0" if "P Users \<and> Users \<notin> set ?dirty"
    proof -
      have "Users \<in> set SEED_ORDER" by (simp add: SEED_ORDER_def)
      with that have "\<not> 0 < COUNT_FNS Users db" unfolding dirty_groups_set count_pos by simp
      then show ?thesis by simp
    qed
    then show ?thesis
      using 2 assms(2) seed_order_grows [of env "\<lambda>g. P g \<and> g \<notin> set ?dirty" db "end" db']
      unfolding seed_run_def Let_def groups by (auto split: if_splits)
  qed (use assms(2) in simp)
qed

text \<open>
  C36. \<^verbatim>\<open>--keep\<close> can be run again and again. After a run that ended well, a second one
  with the same groups, at any later time, finds nothing to seed and changes nothing: the container that
  seeds on every start does so once. (The order in which the database returns the completed trips is
  arbitrary; completed trips are taken to have the start their endpoint gave them.)
\<close>

theorem keep_seeds_once:
  assumes "seed_main listed env answer selected False True db = (end, db')" "db_ok db"
    and "end = Nothing_to_seed \<or> (\<exists>results. end = Seeded results)"
    and "\<forall>ts. set (sv_plan env ts) = set ts"
    and "\<forall>t \<in> set (db_trips db'). tr_status t = Trip_completed \<longrightarrow> tr_actual_start t \<noteq> None"
  shows "seed_main listed' env' answer' selected False True db' = (Nothing_to_seed, db')"
proof -
  from seed_main_keep [OF assms(1)] assms(3) obtain P where
    main: "\<And>listed env answer db. seed_main listed env answer selected False True db =
        seed_run listed env answer (filter P SEED_ORDER) False True db"
    and run: "seed_run listed env answer (filter P SEED_ORDER) False True db = (end, db')" by auto
  let ?groups = "filter P SEED_ORDER"
  let ?dirty = "dirty_groups ?groups db"
  let ?todo = "filter (\<lambda>g. g \<notin> set ?dirty) ?groups"
  have all: "\<forall>g \<in> set ?groups. seeded g db'"
  proof (cases "?todo = []")
    case True
    with run have "db' = db" by (simp add: seed_run_def Let_def)
    with True show ?thesis by (auto simp: filter_empty_conv dirty_groups_set)
  next
    case False
    with run assms(3) obtain results where each: "seed_each env [] ?todo db = (Seeded results, db')"
      using seed_each_something by (auto simp: seed_run_def Let_def)
    have "Users \<in> set ?todo \<longrightarrow> hd ?todo = Users \<and> count_users db = 0 \<and> Users \<notin> set (tl ?todo)"
    proof
      assume users: "Users \<in> set ?todo"
      then have "\<not> 0 < COUNT_FNS Users db" unfolding count_pos by (auto simp: dirty_groups_set)
      moreover from seed_order_first [OF users] obtain gs where "?todo = Users # gs" "Users \<notin> set gs" by blast
      ultimately show "hd ?todo = Users \<and> count_users db = 0 \<and> Users \<notin> set (tl ?todo)" by simp
    qed
    from seed_each_seeded [OF each assms(2) this] assms(4,5) have grown: "only_adds db db'" "\<forall>g \<in> set ?todo. seeded g db'"
      by auto
    show ?thesis
    proof
      fix g assume "g \<in> set ?groups"
      then show "seeded g db'"
      proof (cases "g \<in> set ?dirty")
        case True
        then have "seeded g db" by (simp add: dirty_groups_set)
        then show ?thesis using grown(1) by (rule seeded_grows)
      qed (use grown(2) \<open>g \<in> set ?groups\<close> in simp)
    qed
  qed
  show ?thesis unfolding main using all by (rule keep_nothing)
qed

section \<open>A run on the demo database\<close>

text \<open>Its four buses are added, with ids counted from 1000.\<close>

definition demo_seed_env :: seed_env where
  "demo_seed_env = \<lparr>sv_id = (\<lambda>_ n. 1000 + n), sv_created = demo_now, sv_hash = (\<lambda>_ p. p), sv_trips_now = demo_now,
     sv_commerce_now = demo_now, sv_issue_now = demo_now, sv_raw_keys = (demo_key, demo_key),
     sv_hex = (\<lambda>_. ''abc''), sv_plan = (\<lambda>ts. ts)\<rparr>"

definition demo_seeded_bus :: "nat \<Rightarrow> seed_bus \<Rightarrow> bus" where
  "demo_seeded_bus i b = \<lparr>bs_id = i, bs_reg_no = sb_reg_no b, bs_nickname = Some (sb_nickname b),
     bs_capacity = sb_capacity b, bs_status = sb_status b\<rparr>"

definition demo_buses :: database where
  "demo_buses = demo_db\<lparr>db_buses := db_buses demo_db @ map2 demo_seeded_bus [1001 ..< 1005] BUSES\<rparr>"

lemma db_ok_add_bus:
  assumes "db_ok db" "bs_id b \<notin> bs_id ` set (db_buses db)" "bs_reg_no b \<notin> bs_reg_no ` set (db_buses db)"
  shows "db_ok (db\<lparr>db_buses := db_buses db @ [b]\<rparr>)"
proof -
  have "row_get bs_id (db_buses db @ [b]) i \<noteq> None" if "get_bus db i \<noteq> None" for i
    using that by (rule row_get_snoc_mono)
  moreover from this have "fk_opt bs_id (db_buses db @ [b]) x" if "fk_opt bs_id (db_buses db) x" for x
    using that by (auto simp: fk_opt_def split: option.splits)
  ultimately show ?thesis using assms by (auto simp: db_ok_defs list_all_iff)
qed

lemma seed_bus_row_add:
  assumes "db_ok db" "sb_reg_no b \<notin> bs_reg_no ` set (db_buses db)"
    "1000 + length (db_buses db) \<notin> bs_id ` set (db_buses db)"
  shows "seed_bus_row demo_seed_env b db = Inr (demo_seeded_bus (1000 + length (db_buses db)) b,
      db\<lparr>db_buses := db_buses db @ [demo_seeded_bus (1000 + length (db_buses db)) b]\<rparr>) \<and>
    db_ok (db\<lparr>db_buses := db_buses db @ [demo_seeded_bus (1000 + length (db_buses db)) b]\<rparr>)"
proof -
  have "filter (\<lambda>x. bs_reg_no x = sb_reg_no b) (db_buses db) = []"
    using assms(2) by (simp add: filter_empty_conv) (metis imageI)
  moreover have "db_ok (db\<lparr>db_buses := db_buses db @ [demo_seeded_bus (1000 + length (db_buses db)) b]\<rparr>)"
    using assms by (intro db_ok_add_bus) (simp_all add: demo_seeded_bus_def)
  ultimately show ?thesis
    by (simp add: seed_bus_row_def find_bus_def and_then_def demo_seed_env_def demo_seeded_bus_def Let_def)
qed

lemma demo_seed_buses: "seed_buses demo_seed_env demo_db = (Inr (map2 demo_seeded_bus [1001 ..< 1005] BUSES), demo_buses) \<and> db_ok demo_buses"
proof -
  obtain b1 b2 b3 b4 where buses: "BUSES = [b1, b2, b3, b4]" and regs: "sb_reg_no b1 = ''UA-METRO-01''"
    "sb_reg_no b2 = ''UA-METRO-02''" "sb_reg_no b3 = ''UA-METRO-03''" "sb_reg_no b4 = ''UA-METRO-04''"
    by (simp add: BUSES_def)
  let ?d1 = "demo_db\<lparr>db_buses := [demo_bus, demo_seeded_bus 1001 b1]\<rparr>"
  let ?d2 = "demo_db\<lparr>db_buses := [demo_bus, demo_seeded_bus 1001 b1, demo_seeded_bus 1002 b2]\<rparr>"
  let ?d3 = "demo_db\<lparr>db_buses := [demo_bus, demo_seeded_bus 1001 b1, demo_seeded_bus 1002 b2, demo_seeded_bus 1003 b3]\<rparr>"
  let ?d4 = "demo_db\<lparr>db_buses := [demo_bus, demo_seeded_bus 1001 b1, demo_seeded_bus 1002 b2, demo_seeded_bus 1003 b3,
    demo_seeded_bus 1004 b4]\<rparr>"
  have demo: "db_buses demo_db = [demo_bus]" by (simp add: demo_db_def)
  have 1: "seed_bus_row demo_seed_env b1 demo_db = Inr (demo_seeded_bus 1001 b1, ?d1) \<and> db_ok ?d1"
    using seed_bus_row_add [OF demo_db_ok, of b1] by (simp add: demo demo_bus_def regs)
  have 2: "seed_bus_row demo_seed_env b2 ?d1 = Inr (demo_seeded_bus 1002 b2, ?d2) \<and> db_ok ?d2"
    using seed_bus_row_add [OF conjunct2 [OF 1], of b2] by (simp add: demo_bus_def demo_seeded_bus_def regs)
  have 3: "seed_bus_row demo_seed_env b3 ?d2 = Inr (demo_seeded_bus 1003 b3, ?d3) \<and> db_ok ?d3"
    using seed_bus_row_add [OF conjunct2 [OF 2], of b3] by (simp add: demo_bus_def demo_seeded_bus_def regs)
  have 4: "seed_bus_row demo_seed_env b4 ?d3 = Inr (demo_seeded_bus 1004 b4, ?d4) \<and> db_ok ?d4"
    using seed_bus_row_add [OF conjunct2 [OF 3], of b4] by (simp add: demo_bus_def demo_seeded_bus_def regs)
  have "demo_buses = ?d4" "map2 demo_seeded_bus [1001 ..< 1005] BUSES =
      [demo_seeded_bus 1001 b1, demo_seeded_bus 1002 b2, demo_seeded_bus 1003 b3, demo_seeded_bus 1004 b4]"
    by (simp_all add: demo_buses_def demo buses upt_rec)
  with 1 2 3 4 show ?thesis by (simp add: seed_buses_def buses committed_def and_then_def)
qed

lemma demo_seed_run: "seed_main id demo_seed_env None [''buses''] False True demo_db = (Seeded [(Buses, 4)], demo_buses)"
proof -
  have "count_buses demo_db = 0" by (simp add: count_buses_def demo_db_def demo_bus_def BUSES_def)
  then have "seed_run id demo_seed_env None [Buses] False True demo_db = (Seeded [(Buses, 4)], demo_buses)"
    using demo_seed_buses by (simp add: seed_run_def dirty_groups_def counted_def BUSES_def)
  then show ?thesis by (simp add: seed_main_def SEED_ORDER_def)
qed

theorem keep_only_adds_witness:
  "seed_main id demo_seed_env None [''buses''] False True demo_db = (Seeded [(Buses, 4)], demo_buses) \<and>
    only_adds demo_db demo_buses \<and> length (db_buses demo_buses) = 5"
  using keep_only_adds [OF demo_seed_run demo_db_ok] demo_seed_run by (simp add: demo_buses_def demo_db_def BUSES_def)

theorem keep_seeds_once_witness:
  "seed_main id demo_seed_env None [''buses''] False True demo_db = (Seeded [(Buses, 4)], demo_buses) \<and>
    seed_main rev (demo_seed_env\<lparr>sv_id := \<lambda>_ n. 5000 + n\<rparr>) None [''buses''] False True demo_buses = (Nothing_to_seed, demo_buses)"
proof -
  have "db_trips demo_buses = [demo_trip]" by (simp add: demo_buses_def demo_db_def)
  with keep_seeds_once [OF demo_seed_run demo_db_ok, of rev "demo_seed_env\<lparr>sv_id := \<lambda>_ n. 5000 + n\<rparr>" None] demo_seed_run
  show ?thesis by (simp add: demo_seed_env_def demo_trip_def)
qed

end
