(* ===== verification/Startup.thy ===== *)
theory Startup
  imports Shop Accounts
begin

text \<open>
  Settings, mail and the assembly of the application: \<^verbatim>\<open>app/core/config.py\<close>,
  \<^verbatim>\<open>app/core/email.py\<close>, \<^verbatim>\<open>app/main.py\<close> and
  \<^verbatim>\<open>app/api/routes/__init__.py\<close>. Links carry their token through the query string; what is
  sent, logged or warned about is a value; the routes are a table with the guard of each. Text is
  bytes, its few dashes in UTF-8.
\<close>

section \<open>Settings (app/core/config.py)\<close>

definition API_V1_PREFIX :: string where "API_V1_PREFIX = ''/api/v1''"

text \<open>The settings, beside those of \<open>AuthApi.settings\<close>, in the order of the class.\<close>

record app_settings = settings +
  cfg_env :: string
  postgres_user :: string
  postgres_password :: string
  postgres_db :: string
  postgres_host :: string
  postgres_port :: int
  redis_host :: string
  redis_port :: int
  redis_password :: string
  elasticsearch_url :: string
  gps_index :: string
  elasticsearch_user :: string
  elasticsearch_password :: string
  jwt_secret :: string
  sslcommerz_store_id :: string
  sslcommerz_store_password :: string
  sslcommerz_live :: bool
  public_base_url :: string
  checkout_return_url :: string
  student_app_url :: string
  smtp_host :: string
  smtp_port :: int
  smtp_user :: string
  smtp_password :: string
  smtp_from :: string
  smtp_starttls :: bool
  cors_origins :: string
  service_timezone :: string
  track_ws_interval_s :: rat
  track_ws_roster_ttl_s :: rat

definition default_settings :: app_settings where
  "default_settings = \<lparr>access_token_ttl_min = 15, refresh_token_ttl_days = 30,
     allowed_student_email_domains = ''ulab.edu.bd'', cfg_env = ''dev'', postgres_user = ''unitrack'',
     postgres_password = ''unitrack'', postgres_db = ''unitrack'', postgres_host = ''postgres'',
     postgres_port = 5432, redis_host = ''redis'', redis_port = 6379, redis_password = [],
     elasticsearch_url = ''http://elasticsearch:9200'', gps_index = ''gps_points'', elasticsearch_user = [],
     elasticsearch_password = [], jwt_secret = ''change-me-in-prod'', sslcommerz_store_id = [],
     sslcommerz_store_password = [], sslcommerz_live = False, public_base_url = ''http://localhost:8000'',
     checkout_return_url = [], student_app_url = [], smtp_host = [], smtp_port = 587, smtp_user = [],
     smtp_password = [], smtp_from = ''UniTrack <no-reply@kodewithmj.xyz>'', smtp_starttls = True,
     cors_origins = [], service_timezone = ''Asia/Dhaka'', track_ws_interval_s = 4, track_ws_roster_ttl_s = 8\<rparr>"

definition database_url :: "app_settings \<Rightarrow> string" where
  "database_url cfg = ''postgresql+asyncpg://'' @ postgres_user cfg @ '':'' @ postgres_password cfg @
     ''@'' @ postgres_host cfg @ '':'' @ int_str (postgres_port cfg) @ ''/'' @ postgres_db cfg"

definition email_enabled :: "app_settings \<Rightarrow> bool" where
  "email_enabled cfg \<longleftrightarrow> smtp_host cfg \<noteq> [] \<and> smtp_from cfg \<noteq> []"

definition verify_link_base :: "app_settings \<Rightarrow> string" where
  "verify_link_base cfg = rstrip_slash (if student_app_url cfg \<noteq> [] then student_app_url cfg else public_base_url cfg)"

definition cors_origin_list :: "app_settings \<Rightarrow> string list" where
  "cors_origin_list cfg =
     map strip (filter (\<lambda>x. strip x \<noteq> [] \<and> strip x \<noteq> ''*'') (split_on (CHR '','') (cors_origins cfg)))"

section \<open>Links (app/core/email.py)\<close>

text \<open>\<^verbatim>\<open>urllib.parse.quote(s, safe='')\<close>: all but the unreserved characters as \<^verbatim>\<open>%XX\<close>.\<close>

definition unreserved :: "char \<Rightarrow> bool" where
  "unreserved c \<longleftrightarrow> (let n = of_char c :: nat in
     48 \<le> n \<and> n \<le> 57 \<or> 65 \<le> n \<and> n \<le> 90 \<or> 97 \<le> n \<and> n \<le> 122) \<or> c \<in> set ''_.-~''"

definition hex_char :: "nat \<Rightarrow> char" where
  "hex_char n = char_of (if n < 10 then 48 + n else 55 + n)"

definition quote_char :: "char \<Rightarrow> string" where
  "quote_char c =
     (if unreserved c then [c]
      else [CHR ''%'', hex_char ((of_char c :: nat) div 16), hex_char ((of_char c :: nat) mod 16)])"

definition quote :: "string \<Rightarrow> string" where
  "quote s = concat (map quote_char s)"

definition verification_link :: "app_settings \<Rightarrow> string \<Rightarrow> string" where
  "verification_link cfg token = verify_link_base cfg @ ''/verify?token='' @ quote token"

definition reset_link :: "app_settings \<Rightarrow> string \<Rightarrow> string" where
  "reset_link cfg token = verify_link_base cfg @ ''/reset-password?token='' @ quote token"

section \<open>Messages\<close>

record email_message =
  em_from :: string
  em_to :: string
  em_subject :: string
  em_text :: string
  em_html :: string

definition dash :: string where "dash = [CHR 0xE2, CHR 0x80, CHR 0x94]"

definition lines :: "string list \<Rightarrow> string" where "lines = join_with (CHR 0x0A)"

text \<open>The frame both messages share: greeting, sentence, button, the bare link, the small print.\<close>

definition html_page :: "string \<Rightarrow> string \<Rightarrow> string \<Rightarrow> string \<Rightarrow> string list \<Rightarrow> string" where
  "html_page name link sentence button small_print = lines
     ([''<!doctype html>'',
       ''<html><body style=\"font-family:system-ui,-apple-system,'Segoe UI',sans-serif;'',
       ''                   color:#1f2937;line-height:1.55\">'',
       ''  <p>Hi '' @ name @ '',</p>'',
       ''  <p>'' @ sentence @ ''</p>'',
       ''  <p><a href=\"'' @ link @ ''\"'',
       ''        style=\"display:inline-block;background:#1a3c8f;color:#fff;'',
       ''               padding:11px 18px;border-radius:8px;text-decoration:none;'',
       ''               font-weight:600\">'' @ button @ ''</a></p>'',
       ''  <p style=\"color:#6b7280;font-size:13px\">'',
       ''    Or paste this into your browser:<br>'',
       ''    <span style=\"word-break:break-all\">'' @ link @ ''</span>'',
       ''  </p>'',
       ''  <p style=\"color:#6b7280;font-size:13px\">''] @ small_print @
      [''  </p>'',
       ''</body></html>''])"

definition build :: "app_settings \<Rightarrow> string \<Rightarrow> string \<Rightarrow> string \<Rightarrow> email_message" where
  "build cfg to name link = \<lparr>em_from = smtp_from cfg, em_to = to, em_subject = ''Confirm your UniTrack account'',
     em_text = lines
       [''Hi '' @ name @ '','', [],
        ''Confirm your email address to finish setting up your UniTrack account:'', [], link, [],
        ''The link is valid for two days. If you did not sign up, ignore this message '' @ dash @
          '' no account can be used until it is confirmed.'', []],
     em_html = html_page name link ''Confirm your email address to finish setting up your UniTrack account.''
       ''Confirm my email''
       [''    The link is valid for two days. If you did not sign up, ignore this message'',
        ''    '' @ dash @ '' no account can be used until it is confirmed.'']\<rparr>"

definition build_reset :: "app_settings \<Rightarrow> string \<Rightarrow> string \<Rightarrow> string \<Rightarrow> email_message" where
  "build_reset cfg to name link = \<lparr>em_from = smtp_from cfg, em_to = to, em_subject = ''Reset your UniTrack password'',
     em_text = lines
       [''Hi '' @ name @ '','', [],
        ''We received a request to reset your UniTrack password. Choose a new one here:'', [], link, [],
        ''The link is valid for one hour. If you did not ask for this, ignore this message '' @ dash @
          '' your password stays the same.'', []],
     em_html = html_page name link ''We received a request to reset your UniTrack password.''
       ''Choose a new password''
       [''    The link is valid for one hour. If you did not ask for this, ignore this'',
        ''    message '' @ dash @ '' your password stays the same.'']\<rparr>"

section \<open>Delivery\<close>

record smtp_call =
  sc_hostname :: string
  sc_port :: int
  sc_username :: "string option"
  sc_password :: "string option"
  sc_start_tls :: bool
  sc_use_tls :: bool

definition or_none :: "string \<Rightarrow> string option" where "or_none s = (if s = [] then None else Some s)"

definition smtp_arguments :: "app_settings \<Rightarrow> smtp_call" where
  "smtp_arguments cfg = \<lparr>sc_hostname = smtp_host cfg, sc_port = smtp_port cfg,
     sc_username = or_none (smtp_user cfg), sc_password = or_none (smtp_password cfg),
     sc_start_tls = smtp_starttls cfg, sc_use_tls = \<not> smtp_starttls cfg\<rparr>"

datatype mail_log =
    Link_logged string string string
  | Send_failed string string
  | Mail_sent string string

text \<open>
  \<^verbatim>\<open>_deliver\<close>: whether a relay took the message, and what went to the log. The relay is an
  argument; \<open>False\<close> is any exception of \<^verbatim>\<open>aiosmtplib.send\<close>.
\<close>

definition deliver ::
  "(smtp_call \<Rightarrow> email_message \<Rightarrow> bool) \<Rightarrow> app_settings \<Rightarrow> email_message \<Rightarrow> string \<Rightarrow> string \<Rightarrow> string \<Rightarrow>
   bool \<times> mail_log" where
  "deliver relay cfg message to what link =
     (if \<not> email_enabled cfg then (False, Link_logged what to link)
      else if \<not> relay (smtp_arguments cfg) message then (False, Send_failed what to)
      else (True, Mail_sent what to))"

text \<open>The background tasks queued by the routes.\<close>

fun send_mail :: "(smtp_call \<Rightarrow> email_message \<Rightarrow> bool) \<Rightarrow> app_settings \<Rightarrow> mail \<Rightarrow> bool \<times> mail_log" where
  "send_mail relay cfg (Verification_mail to name token) =
     (let link = verification_link cfg token in
      deliver relay cfg (build cfg to name link) to ''verification'' link)"
| "send_mail relay cfg (Reset_mail to name token) =
     (let link = reset_link cfg token in
      deliver relay cfg (build_reset cfg to name link) to ''password-reset'' link)"

section \<open>Startup (app/main.py)\<close>

definition LOCAL_ONLY_HOSTS :: "string list" where "LOCAL_ONLY_HOSTS = [''localhost'', ''127.0.0.1'']"

definition is_prod :: "app_settings \<Rightarrow> bool" where "is_prod cfg \<longleftrightarrow> cfg_env cfg = ''prod''"

datatype startup_log = Bad_public_base_url string | Weak_jwt_secret | No_gateway_credentials

definition warn_about_local_defaults :: "app_settings \<Rightarrow> startup_log list" where
  "warn_about_local_defaults cfg =
     (if \<not> is_prod cfg then []
      else
        (if list_ex (\<lambda>host. contains_text host (public_base_url cfg)) LOCAL_ONLY_HOSTS
         then [Bad_public_base_url (public_base_url cfg)] else []) @
        (if jwt_secret cfg = ''change-me-in-prod'' \<or> length (jwt_secret cfg) < 32 then [Weak_jwt_secret] else []) @
        (if sslcommerz_store_id cfg = [] \<or> sslcommerz_store_password cfg = [] then [No_gateway_credentials] else []))"

record cors_policy =
  co_origins :: "string list"
  co_credentials :: bool
  co_methods :: "string list"
  co_headers :: "string list"

definition cors_middleware :: "app_settings \<Rightarrow> cors_policy option" where
  "cors_middleware cfg =
     (let origins = cors_origin_list cfg in
      if origins = [] then None
      else Some \<lparr>co_origins = origins, co_credentials = False,
        co_methods = [''GET'', ''POST'', ''PATCH'', ''DELETE'', ''OPTIONS''],
        co_headers = [''authorization'', ''content-type'']\<rparr>)"

definition docs_paths :: "app_settings \<Rightarrow> string list" where
  "docs_paths cfg = (if is_prod cfg then [] else [''/docs'', ''/docs/oauth2-redirect'', ''/redoc'', ''/openapi.json''])"

section \<open>Routes (app/api/routes/__init__.py)\<close>

text \<open>
  What stands before a handler: nothing, a live token, an account, a guard of
  \<^verbatim>\<open>app/api/deps.py\<close>, or the check inside the socket's own handler.
\<close>

datatype door = Open | Token | Account | Authenticated | Student | Approved_helper | Admin | In_handler

type_synonym api_route = "string \<times> string \<times> door"

definition router :: "string \<Rightarrow> door \<Rightarrow> (string \<times> string) list \<Rightarrow> api_route list" where
  "router prefix d routes = map (\<lambda>(m, p). (m, prefix @ p, d)) routes"

definition admin_router :: "api_route list" where
  "admin_router = router ''/admin'' Admin
     [(''GET'', ''/helpers''), (''POST'', ''/helpers/{helper_id}/approve''),
      (''POST'', ''/users/{user_id}/suspend''), (''POST'', ''/users/{user_id}/reinstate''),
      (''GET'', ''/fleet''), (''GET'', ''/alerts''), (''POST'', ''/alerts/{alert_id}/acknowledge''),
      (''POST'', ''/alerts/{alert_id}/resolve''), (''POST'', ''/buses''), (''GET'', ''/buses''),
      (''PATCH'', ''/buses/{bus_id}''), (''POST'', ''/buses/batch''), (''POST'', ''/buses/list'')]"

definition admin_catalog_router :: "api_route list" where
  "admin_catalog_router = router ''/admin'' Admin
     [(''GET'', ''/products''), (''POST'', ''/products''), (''PATCH'', ''/products/{product_id}''),
      (''POST'', ''/stops''), (''PATCH'', ''/stops/{stop_id}''), (''DELETE'', ''/stops/{stop_id}''),
      (''POST'', ''/routes''), (''PATCH'', ''/routes/{route_id}''), (''PUT'', ''/routes/{route_id}/stops'')]"

definition auth_router :: "api_route list" where
  "auth_router =
     router ''/auth'' Open
       [(''POST'', ''/register/student''), (''POST'', ''/resend-verification''), (''POST'', ''/forgot-password''),
        (''POST'', ''/reset-password''), (''POST'', ''/register/helper''), (''GET'', ''/verify-email''),
        (''POST'', ''/login''), (''POST'', ''/refresh'')] @
     router ''/auth'' Token [(''POST'', ''/logout'')] @
     router ''/auth'' Account [(''GET'', ''/me''), (''PATCH'', ''/me'')]"

definition boarding_router :: "api_route list" where
  "boarding_router =
     router [] Student [(''GET'', ''/shop/tickets/{ticket_id}/qr-material''), (''GET'', ''/shop/tickets/{ticket_id}/qr.png'')] @
     router [] Approved_helper [(''GET'', ''/helper/manifest''), (''POST'', ''/helper/redemptions'')]"

definition bus_track_router :: "api_route list" where
  "bus_track_router = router ''/bus-track'' Open [(''GET'', [])]"

definition fleet_router :: "api_route list" where
  "fleet_router = router ''/fleet'' Authenticated
     [(''GET'', ''/buses''), (''GET'', ''/routes''), (''GET'', ''/route-shapes''), (''GET'', ''/routes/{route_id}''),
      (''GET'', ''/stops'')]"

definition helper_router :: "api_route list" where
  "helper_router = router ''/helper'' Approved_helper
     [(''POST'', ''/trips/start''), (''POST'', ''/trips/end''), (''GET'', ''/trips/active''), (''POST'', ''/seats''),
      (''POST'', ''/alerts''), (''POST'', ''/gps'')]"

definition tracking_router :: "api_route list" where
  "tracking_router = router ''/track'' Authenticated
     [(''GET'', ''/live''), (''GET'', ''/nearby''), (''GET'', ''/trips/{trip_id}/eta''),
      (''GET'', ''/stops/{stop_id}/arrivals''), (''GET'', ''/bus/{bus_id}/history'')]"

definition shop_router :: "api_route list" where
  "shop_router =
     router ''/shop'' Authenticated [(''GET'', ''/products'')] @
     router ''/shop'' Student [(''POST'', ''/orders''), (''GET'', ''/orders''), (''GET'', ''/tickets'')] @
     router ''/shop'' Open [(''POST'', ''/payments/return''), (''GET'', ''/payments/return''), (''POST'', ''/payments/ipn'')]"

definition wallet_router :: "api_route list" where
  "wallet_router = router [] Open [(''GET'', ''/wallet'')]"

definition ws_router :: "api_route list" where
  "ws_router = router ''/ws'' In_handler [(''WEBSOCKET'', ''/track/{route_id}'')]"

definition ROUTERS :: "api_route list" where
  "ROUTERS = auth_router @ admin_router @ admin_catalog_router @ bus_track_router @ fleet_router @ helper_router @
     tracking_router @ shop_router @ boarding_router @ wallet_router @ ws_router"

definition PUBLIC_PATHS :: "string list" where
  "PUBLIC_PATHS =
     [''/health'', ''/auth/register/student'', ''/auth/register/helper'', ''/auth/verify-email'',
      ''/auth/resend-verification'', ''/auth/forgot-password'', ''/auth/reset-password'', ''/auth/login'',
      ''/auth/refresh'', ''/bus-track'', ''/shop/payments/return'', ''/shop/payments/ipn'', ''/wallet'',
      ''/docs'', ''/docs/oauth2-redirect'', ''/redoc'', ''/openapi.json'']"

text \<open>The mounted application: the routers under the version prefix, the probe and the docs at the root.\<close>

definition served_routes :: "app_settings \<Rightarrow> api_route list" where
  "served_routes cfg = map (\<lambda>(m, p, d). (m, API_V1_PREFIX @ p, d)) ROUTERS @
     (''GET'', ''/health'', Open) # map (\<lambda>p. (''GET'', p, Open)) (docs_paths cfg)"

text \<open>A path matches segment by segment; a parameter matches one non-empty segment.\<close>

definition segment_matches :: "string \<Rightarrow> string \<Rightarrow> bool" where
  "segment_matches p s \<longleftrightarrow> (if take 1 p = ''{'' then s \<noteq> [] else p = s)"

definition path_matches :: "string \<Rightarrow> string \<Rightarrow> bool" where
  "path_matches pattern path =
     list_all2 segment_matches (split_on (CHR ''/'') pattern) (split_on (CHR ''/'') path)"

definition routes_for :: "app_settings \<Rightarrow> string \<Rightarrow> string \<Rightarrow> api_route list" where
  "routes_for cfg method path = filter (\<lambda>(m, p, _). m = method \<and> path_matches p path) (served_routes cfg)"

text \<open>The guards of \<open>Authz\<close> behind the doors that have one.\<close>

fun door_guard :: "door \<Rightarrow> (principal \<Rightarrow> http_error + principal) option" where
  "door_guard Authenticated = Some require_authenticated"
| "door_guard Student = Some require_student"
| "door_guard Approved_helper = Some require_approved_helper"
| "door_guard Admin = Some require_admin"
| "door_guard _ = None"

lemmas router_defs = admin_router_def admin_catalog_router_def auth_router_def boarding_router_def
  bus_track_router_def fleet_router_def helper_router_def tracking_router_def shop_router_def
  wallet_router_def ws_router_def router_def

section \<open>Default deny\<close>

lemma every_route_is_guarded_or_public:
  "list_all (\<lambda>(_, p, d). d \<in> {Token, Account, In_handler} \<or> door_guard d \<noteq> None \<or> d = Open \<and> p \<in> set PUBLIC_PATHS) ROUTERS"
  by (simp add: ROUTERS_def router_defs PUBLIC_PATHS_def)

lemma public_paths_are_real:
  "set PUBLIC_PATHS \<subseteq> {p. \<exists>m. (m, p, Open) \<in> set ROUTERS} \<union> {''/health'', ''/docs'', ''/docs/oauth2-redirect'', ''/redoc'', ''/openapi.json''}"
  by (auto simp: PUBLIC_PATHS_def ROUTERS_def router_defs)

lemma admin_paths_are_for_admins:
  "(m, p, d) \<in> set ROUTERS \<Longrightarrow> take 7 p = ''/admin/'' \<Longrightarrow> d = Admin"
  by (auto simp: ROUTERS_def router_defs)

lemma production_hides_the_docs:
  "is_prod cfg \<Longrightarrow> (m, p, Open) \<in> set (served_routes cfg) \<Longrightarrow> p \<notin> {''/docs'', ''/redoc'', ''/openapi.json''}"
  by (auto simp: served_routes_def docs_paths_def API_V1_PREFIX_def)

section \<open>What the assembly gets wrong\<close>

text \<open>
  With no \<^verbatim>\<open>STUDENT_APP_URL\<close> the links point at the API's own origin, which serves neither
  path: its confirmation stands under \<^verbatim>\<open>/api/v1/auth/verify-email\<close>.
\<close>

lemma fallback_links_lead_nowhere:
  "routes_for cfg ''GET'' ''/verify'' = [] \<and> routes_for cfg ''GET'' ''/reset-password'' = []"
proof -
  have "\<not> path_matches (API_V1_PREFIX @ p) ''/verify'' \<and> \<not> path_matches (API_V1_PREFIX @ p) ''/reset-password''" for p
    by (simp add: API_V1_PREFIX_def path_matches_def segment_matches_def)
  then show ?thesis
    by (auto simp: routes_for_def served_routes_def docs_paths_def filter_empty_conv path_matches_def segment_matches_def)
qed

text \<open>The stops of a route are replaced by PUT, which browsers of another origin may not send.\<close>

lemma put_is_not_allowed_across_origins:
  "(''PUT'', ''/admin/routes/{route_id}/stops'', Admin) \<in> set ROUTERS \<and>
    (cors_middleware cfg = Some policy \<longrightarrow> ''PUT'' \<notin> set (co_methods policy))"
  by (auto simp: ROUTERS_def router_defs cors_middleware_def Let_def split: if_splits)

text \<open>The password is not quoted in the address of the database, so two settings can share one address.\<close>

lemma database_url_is_ambiguous:
  "database_url (default_settings\<lparr>postgres_password := ''a@b'', postgres_host := ''c''\<rparr>) =
   database_url (default_settings\<lparr>postgres_password := ''a'', postgres_host := ''b@c''\<rparr>)"
  by (simp add: database_url_def default_settings_def)

text \<open>A name is put into the HTML as it was typed.\<close>

lemma join_contains: "w \<in> set ws \<Longrightarrow> \<exists>before after. join_with sep ws = before @ w @ after"
proof (induction ws rule: join_with.induct)
  case (2 sep v)
  then show ?case by (intro exI [of _ "[]"]) simp
next
  case (3 sep v u ws)
  show ?case
  proof (cases "w = v")
    case True
    then have "join_with sep (v # u # ws) = [] @ w @ (sep # join_with sep (u # ws))" by simp
    then show ?thesis by blast
  next
    case False
    with 3 obtain before after where "join_with sep (u # ws) = before @ w @ after" by auto
    then have "join_with sep (v # u # ws) = (v @ sep # before) @ w @ after" by simp
    then show ?thesis by blast
  qed
qed simp

lemma name_reaches_the_html: "\<exists>before after. em_html (build cfg to name link) = before @ name @ after"
proof -
  let ?line = "''  <p>Hi '' @ name @ '',</p>''"
  have "\<exists>ls. em_html (build cfg to name link) = join_with (CHR 0x0A) ls \<and> ?line \<in> set ls"
    by (simp only: build_def html_page_def lines_def email_message.simps) (intro exI conjI, rule refl, simp)
  then obtain ls where ls: "em_html (build cfg to name link) = join_with (CHR 0x0A) ls" "?line \<in> set ls" by blast
  from join_contains [OF ls(2)] obtain before after where "join_with (CHR 0x0A) ls = before @ ?line @ after" by blast
  then have "em_html (build cfg to name link) = (before @ ''  <p>Hi '') @ name @ ('',</p>'' @ after)"
    unfolding ls(1) by simp
  then show ?thesis by blast
qed

section \<open>Mail\<close>

lemma mail_never_goes_in_the_clear: "sc_start_tls (smtp_arguments cfg) \<noteq> sc_use_tls (smtp_arguments cfg)"
  by (simp add: smtp_arguments_def)

lemma token_logged_only_without_relay:
  "(\<exists>what to link. snd (send_mail relay cfg m) = Link_logged what to link) \<longleftrightarrow> \<not> email_enabled cfg"
  by (cases m) (auto simp: deliver_def Let_def)

section \<open>The token survives the link\<close>

text \<open>
  The reader's side of a query string, as \<^verbatim>\<open>urllib.parse.parse_qs\<close> and browsers do it: the
  part between \<^verbatim>\<open>?\<close> and \<^verbatim>\<open>#\<close>, cut at \<^verbatim>\<open>&\<close>, name and value at the
  first \<^verbatim>\<open>=\<close>, a plus for a space, \<^verbatim>\<open>%XX\<close> for a byte.
\<close>

definition hex_val :: "char \<Rightarrow> nat option" where
  "hex_val c = (let n = of_char c :: nat in
     if 48 \<le> n \<and> n \<le> 57 then Some (n - 48)
     else if 65 \<le> n \<and> n \<le> 70 then Some (n - 55)
     else if 97 \<le> n \<and> n \<le> 102 then Some (n - 87) else None)"

fun unquote :: "string \<Rightarrow> string" where
  "unquote (c # a # b # s) =
     (case (hex_val a, hex_val b) of
        (Some x, Some y) \<Rightarrow> if c = CHR ''%'' then char_of (16 * x + y) # unquote s else c # unquote (a # b # s)
      | _ \<Rightarrow> c # unquote (a # b # s))"
| "unquote s = s"

definition unquote_plus :: "string \<Rightarrow> string" where
  "unquote_plus s = unquote (map (\<lambda>c. if c = CHR ''+'' then CHR '' '' else c) s)"

definition query_pair :: "string \<Rightarrow> string \<times> string" where
  "query_pair s = (unquote_plus (takeWhile (\<lambda>c. c \<noteq> CHR ''='') s), unquote_plus (tl (dropWhile (\<lambda>c. c \<noteq> CHR ''='') s)))"

definition query_value :: "string \<Rightarrow> string \<Rightarrow> string option" where
  "query_value name url =
     map_of (map query_pair (split_on (CHR ''&'')
       (takeWhile (\<lambda>c. c \<noteq> CHR ''#'') (tl (dropWhile (\<lambda>c. c \<noteq> CHR ''?'') url))))) name"

lemma hex_val_hex_char: "n < 16 \<Longrightarrow> hex_val (hex_char n) = Some n"
  by (simp add: hex_val_def hex_char_def Let_def of_char_of)

lemma unreserved_hex_char: "n < 16 \<Longrightarrow> unreserved (hex_char n)"
  by (simp add: unreserved_def hex_char_def Let_def of_char_of)

lemma unreserved_plain: "unreserved c \<Longrightarrow> c \<notin> {CHR ''%'', CHR ''+'', CHR ''&'', CHR ''#'', CHR ''='', CHR ''?''}"
  by (auto simp: unreserved_def Let_def)

lemma of_char_bound: "(of_char c :: nat) < 256"
proof -
  have "(of_char c :: nat) mod 256 = of_char c" by (metis char_of_char of_char_of)
  then show ?thesis by (metis mod_less_divisor zero_less_numeral)
qed

lemma quote_char_chars: "x \<in> set (quote_char c) \<Longrightarrow> unreserved x \<or> x = CHR ''%''"
proof -
  have "(of_char c :: nat) div 16 < 16" "(of_char c :: nat) mod 16 < 16" using of_char_bound [of c] by simp_all
  then show "x \<in> set (quote_char c) \<Longrightarrow> unreserved x \<or> x = CHR ''%''"
    by (auto simp: quote_char_def unreserved_hex_char split: if_splits)
qed

lemma quote_chars: "x \<in> set (quote s) \<Longrightarrow> x \<notin> {CHR ''+'', CHR ''&'', CHR ''#'', CHR ''=''}"
  using quote_char_chars unreserved_plain by (fastforce simp: quote_def)

lemma unquote_plain: "c \<noteq> CHR ''%'' \<Longrightarrow> unquote (c # s) = c # unquote s"
  by (cases s; cases "tl s") (auto split: option.split)

lemma unquote_quote_char: "unquote (quote_char c @ s) = c # unquote s"
proof (cases "unreserved c")
  case True
  with unreserved_plain have "c \<noteq> CHR ''%''" by blast
  with True show ?thesis by (simp add: quote_char_def unquote_plain)
next
  case False
  have "hex_val (hex_char ((of_char c :: nat) div 16)) = Some (of_char c div 16)"
    "hex_val (hex_char ((of_char c :: nat) mod 16)) = Some (of_char c mod 16)"
    using of_char_bound [of c] by (simp_all add: hex_val_hex_char)
  moreover have "char_of (16 * ((of_char c :: nat) div 16) + of_char c mod 16) = c" by simp
  ultimately show ?thesis using False by (simp add: quote_char_def)
qed

lemma unquote_quote: "unquote (quote s) = s"
  by (induction s) (simp_all add: quote_def unquote_quote_char)

lemma unquote_plus_quote: "unquote_plus (quote s) = s"
proof -
  have "map (\<lambda>c. if c = CHR ''+'' then CHR '' '' else c) (quote s) = quote s"
    using quote_chars by (intro map_idI) auto
  then show ?thesis by (simp add: unquote_plus_def unquote_quote)
qed

lemma dropWhile_to: "x \<notin> set a \<Longrightarrow> dropWhile (\<lambda>c. c \<noteq> x) (a @ x # s) = x # s"
  by (induction a) auto

lemma query_value_quoted:
  assumes "CHR ''?'' \<notin> set base" "CHR ''?'' \<notin> set path"
  shows "query_value ''token'' (base @ path @ ''?token='' @ quote t) = Some t"
proof -
  define q where "q = ''token='' @ quote t"
  have all: "takeWhile (\<lambda>c. c \<noteq> CHR ''#'') q = q"
    unfolding q_def using quote_chars by (intro takeWhile_eq_all_conv [THEN iffD2]) auto
  have "dropWhile (\<lambda>c. c \<noteq> CHR ''?'') (base @ path @ CHR ''?'' # q) = CHR ''?'' # q"
    using dropWhile_to [of "CHR ''?''" "base @ path" q] assms by simp
  moreover have "split_on (CHR ''&'') q = [q]" unfolding q_def using quote_chars by (intro split_on_no_sep) auto
  moreover have "query_pair q = (''token'', t)"
    unfolding q_def by (simp add: query_pair_def unquote_plus_quote) (simp add: unquote_plus_def hex_val_def)
  moreover have "base @ path @ ''?token='' @ quote t = base @ path @ CHR ''?'' # q" by (simp add: q_def)
  ultimately show ?thesis by (simp only: query_value_def list.sel all list.map map_of.simps prod.sel) simp
qed

lemma rstrip_slash_subset: "set (rstrip_slash s) \<subseteq> set s"
  by (auto simp: rstrip_slash_def dest: set_dropWhileD)

text \<open>
  A mailed link gives its token back. Whatever bytes the token has, a reader of the query string
  of the confirmation or the reset link finds exactly it, provided the configured origin holds no
  question mark.
\<close>

theorem link_carries_token:
  assumes "CHR ''?'' \<notin> set (student_app_url cfg)" "CHR ''?'' \<notin> set (public_base_url cfg)"
  shows "query_value ''token'' (verification_link cfg token) = Some token \<and>
    query_value ''token'' (reset_link cfg token) = Some token"
proof -
  have "CHR ''?'' \<notin> set (verify_link_base cfg)"
    using assms rstrip_slash_subset by (auto simp: verify_link_base_def split: if_splits)
  from query_value_quoted [OF this, of "''/verify''" token] query_value_quoted [OF this, of "''/reset-password''" token]
  show ?thesis by (simp add: verification_link_def reset_link_def)
qed

theorem link_carries_token_witness:
  "query_value ''token'' (verification_link (default_settings\<lparr>student_app_url := ''https://app.example.edu/''\<rparr>) ''a+b/c.d=&e%'') =
    Some ''a+b/c.d=&e%''"
  using link_carries_token [of "default_settings\<lparr>student_app_url := ''https://app.example.edu/''\<rparr>" "''a+b/c.d=&e%''"]
  by (simp add: default_settings_def)

section \<open>Warnings and the payment gateway agree\<close>

lemma contains_text_iff: "contains_text w s \<longleftrightarrow> (\<exists>before after. s = before @ w @ after)"
proof
  assume "contains_text w s"
  then obtain i where "take (length w) (drop i s) = w" by (auto simp: contains_text_def)
  then have "s = take i s @ w @ drop (length w) (drop i s)" by (metis append_take_drop_id)
  then show "\<exists>before after. s = before @ w @ after" by blast
next
  assume "\<exists>before after. s = before @ w @ after"
  then obtain before after where "s = before @ w @ after" by blast
  then show "contains_text w s" by (auto simp: contains_text_def intro!: bexI [of _ "length before"])
qed

lemma contains_snoc:
  assumes "w \<noteq> []" "CHR ''/'' \<notin> set w"
  shows "contains_text w (s @ [CHR ''/'']) \<longleftrightarrow> contains_text w s"
proof
  assume "contains_text w (s @ [CHR ''/''])"
  then obtain before after where split: "s @ [CHR ''/''] = before @ w @ after" by (auto simp: contains_text_iff)
  show "contains_text w s"
  proof (cases after rule: rev_cases)
    case Nil
    with split assms(1) have "last w = CHR ''/''" by (metis append_Nil2 last_appendR last_snoc)
    with assms show ?thesis by (metis last_in_set)
  next
    case (snoc a c)
    with split have "s = before @ w @ a" by simp
    then show ?thesis by (auto simp: contains_text_iff)
  qed
next
  assume "contains_text w s"
  then show "contains_text w (s @ [CHR ''/''])" by (auto simp: contains_text_iff) (metis append.assoc)
qed

lemma contains_rstrip:
  assumes "w \<noteq> []" "CHR ''/'' \<notin> set w"
  shows "contains_text w (rstrip_slash s) \<longleftrightarrow> contains_text w s"
proof (induction s rule: rev_induct)
  case (snoc c s)
  then show ?case
    using contains_snoc [OF assms, of s] by (cases "c = CHR ''/''") (simp_all add: rstrip_slash_def)
qed (simp add: rstrip_slash_def)

text \<open>
  The startup check speaks up exactly when it must. In production the error about
  \<^verbatim>\<open>PUBLIC_BASE_URL\<close> is logged if and only if checkouts will be opened without an address at which
  the gateway can report the outcome.
\<close>

theorem warned_iff_no_ipn:
  assumes "is_prod cfg"
  shows "Bad_public_base_url (public_base_url cfg) \<in> set (warn_about_local_defaults cfg) \<longleftrightarrow>
    (\<forall>order user product. cr_ipn_url (checkout_request (public_base_url cfg) order user product) = None)"
proof -
  have "contains_text ''localhost'' (rstrip_slash s) = contains_text ''localhost'' s"
    "contains_text ''127.0.0.1'' (rstrip_slash s) = contains_text ''127.0.0.1'' s" for s
    by (simp_all add: contains_rstrip)
  then have "ipn_url (public_base_url cfg) = None \<longleftrightarrow>
      contains_text ''localhost'' (public_base_url cfg) \<or> contains_text ''127.0.0.1'' (public_base_url cfg)"
    by (simp add: ipn_url_def Let_def)
  moreover have "Bad_public_base_url (public_base_url cfg) \<in> set (warn_about_local_defaults cfg) \<longleftrightarrow>
      contains_text ''localhost'' (public_base_url cfg) \<or> contains_text ''127.0.0.1'' (public_base_url cfg)"
    using assms by (simp add: warn_about_local_defaults_def LOCAL_ONLY_HOSTS_def)
  ultimately show ?thesis by (simp add: checkout_request_def)
qed

theorem warned_iff_no_ipn_witness:
  "Bad_public_base_url ''http://localhost:8000'' \<in> set (warn_about_local_defaults (default_settings\<lparr>cfg_env := ''prod''\<rparr>)) \<and>
    (\<forall>order user product. cr_ipn_url (checkout_request ''http://localhost:8000'' order user product) = None)"
proof -
  let ?cfg = "default_settings\<lparr>cfg_env := ''prod''\<rparr>"
  have "is_prod ?cfg" "public_base_url ?cfg = ''http://localhost:8000''" by (simp_all add: is_prod_def default_settings_def)
  moreover have "contains_text ''localhost'' ''http://localhost:8000''"
    unfolding contains_text_iff by (intro exI [of _ "''http://''"] exI [of _ "'':8000''"]) simp
  moreover from this have "Bad_public_base_url (public_base_url ?cfg) \<in> set (warn_about_local_defaults ?cfg)"
    using \<open>is_prod ?cfg\<close> \<open>public_base_url ?cfg = _\<close> by (simp add: warn_about_local_defaults_def LOCAL_ONLY_HOSTS_def)
  ultimately show ?thesis using warned_iff_no_ipn [of ?cfg] by simp
qed

end
