(* ===== verification/Simulator.thy ===== *)
theory Simulator
  imports Startup HelperApi Eta
begin

text \<open>
  The traffic simulator, \<^verbatim>\<open>scripts/dev_simulate_gps.py\<close>: the path of a route, a simulated bus
  that moves along it and reports over HTTP, and the loop that drives several. The API is an argument:
  it answers a request of the world \<open>'w\<close> with a status and a decoded body, or not at all (a network
  error). Every draw of \<^verbatim>\<open>random\<close> is an argument. Logging is left out.
\<close>

section \<open>Settings of the script\<close>

record sim_config =
  TICK_S :: real
  SPEED_KMH :: real
  FIXES_PER_BATCH :: nat

definition default_sim :: sim_config where
  "default_sim = \<lparr>TICK_S = 5, SPEED_KMH = 22, FIXES_PER_BATCH = 5\<rparr>"

definition EARTH_RADIUS_M :: real where "EARTH_RADIUS_M = 6371000"

section \<open>Geometry\<close>

definition haversine_m :: "real \<times> real \<Rightarrow> real \<times> real \<Rightarrow> real" where
  "haversine_m a b =
     (let lat1 = radians (fst a); lng1 = radians (snd a); lat2 = radians (fst b); lng2 = radians (snd b);
          dlat = lat2 - lat1; dlng = lng2 - lng1;
          h = sin (dlat / 2) ^ 2 + cos lat1 * cos lat2 * sin (dlng / 2) ^ 2 in
      2 * EARTH_RADIUS_M * arcsin (sqrt h))"

text \<open>\<^verbatim>\<open>math.atan2\<close> is the argument of the complex number; \<^verbatim>\<open>x % 360\<close> of a float is in [0, 360).\<close>

definition degrees :: "real \<Rightarrow> real" where "degrees x = x * 180 / pi"

definition mod360 :: "real \<Rightarrow> real" where "mod360 x = x - 360 * of_int \<lfloor>x / 360\<rfloor>"

definition bearing_deg :: "real \<times> real \<Rightarrow> real \<times> real \<Rightarrow> real" where
  "bearing_deg a b =
     (let lat1 = radians (fst a); lat2 = radians (fst b); dlng = radians (snd b - snd a);
          y = sin dlng * cos lat2;
          x = cos lat1 * sin lat2 - sin lat1 * cos lat2 * cos dlng in
      mod360 (degrees (Arg (Complex x y)) + 360))"

record sim_path =
  ph_points :: "(real \<times> real) list"
  ph_cumulative :: "real list"

fun cumulative_from :: "real \<Rightarrow> (real \<times> real) list \<Rightarrow> real list" where
  "cumulative_from d (p # q # ps) = d # cumulative_from (d + haversine_m p q) (q # ps)"
| "cumulative_from d _ = [d]"

definition new_path :: "(real \<times> real) list \<Rightarrow> py_error + sim_path" where
  "new_path points =
     (if length points < 2 then Inl ValueError
      else Inr \<lparr>ph_points = points, ph_cumulative = cumulative_from 0 points\<rparr>)"

definition length_m :: "sim_path \<Rightarrow> real" where "length_m p = last (ph_cumulative p)"

text \<open>The last leg that starts at or before \<open>d\<close>.\<close>

definition leg_at :: "sim_path \<Rightarrow> real \<Rightarrow> nat" where
  "leg_at p d = fold (\<lambda>idx i. if ph_cumulative p ! idx \<le> d then idx else i) [0 ..< length (ph_cumulative p) - 1] 0"

definition path_at :: "sim_path \<Rightarrow> real \<Rightarrow> real \<times> real \<times> real" where
  "path_at p distance =
     (let d = min (max distance 0) (length_m p);
          i = leg_at p d;
          (lat1, lng1) = ph_points p ! i; (lat2, lng2) = ph_points p ! (i + 1);
          span = ph_cumulative p ! (i + 1) - ph_cumulative p ! i;
          t = (if span = 0 then 0 else (d - ph_cumulative p ! i) / span) in
      (lat1 + (lat2 - lat1) * t, lng1 + (lng2 - lng1) * t, bearing_deg (lat1, lng1) (lat2, lng2)))"

text \<open>\<^verbatim>\<open>jitter\<close> with its two draws from [-1, 1].\<close>

definition jitter :: "real \<times> real \<Rightarrow> real \<Rightarrow> real \<Rightarrow> real \<times> real" where
  "jitter u lat lng =
     (lat + fst u * 12 / 111320, lng + snd u * 12 / (111320 * cos (radians lat)))"

section \<open>Requests\<close>

datatype sim_payload =
    No_body
  | Credentials string string
  | Start_trip string string
  | Fixes "string option" "gps_point list"
  | Seats int

record sim_request =
  rq_method :: string
  rq_path :: string
  rq_token :: "string option"
  rq_payload :: sim_payload

record active_doc =
  ac_trip_id :: string
  ac_bus_id :: string
  ac_route_id :: string

record bus_doc =
  bd_id :: string
  bd_capacity :: "int option"

record shape_doc =
  sd_id :: string
  sd_name :: string
  sd_direction :: string
  sd_stops :: "(real \<times> real) list"

datatype sim_body =
    Access_token string
  | Active_trip "active_doc option"
  | Started_trip active_doc
  | Bus_list "bus_doc list"
  | Shape_list "shape_doc list"
  | Other_body

record sim_response =
  rs_status :: nat
  rs_body :: sim_body

text \<open>
  How a step of the script ends early: its own RuntimeError, an \<^verbatim>\<open>httpx.HTTPError\<close> (no answer,
  or \<^verbatim>\<open>raise_for_status\<close>), or any other exception (a body without the key that is read).
\<close>

datatype sim_error = Sim_RuntimeError | Sim_HTTPError | Sim_Crash

record sim_bus =
  sm_email :: string
  sm_password :: string
  sm_token :: "string option"
  sm_bus_id :: "string option"
  sm_trip_id :: "string option"
  sm_route_name :: string
  sm_path :: "sim_path option"
  sm_travelled :: real
  sm_direction :: int
  sm_capacity :: int
  sm_occupied :: int

definition new_sim_bus :: "string \<Rightarrow> string \<Rightarrow> sim_bus" where
  "new_sim_bus email password = \<lparr>sm_email = email, sm_password = password, sm_token = None, sm_bus_id = None,
     sm_trip_id = None, sm_route_name = ''?'', sm_path = None, sm_travelled = 0, sm_direction = 1,
     sm_capacity = 40, sm_occupied = 0\<rparr>"

type_synonym 'w api = "'w \<Rightarrow> sim_request \<Rightarrow> sim_response option \<times> 'w"

definition login :: "'w api \<Rightarrow> string \<Rightarrow> sim_bus \<Rightarrow> 'w \<Rightarrow> (sim_error + sim_bus) \<times> 'w" where
  "login api base b w =
     (case api w \<lparr>rq_method = ''POST'', rq_path = base @ ''/auth/login'', rq_token = None,
         rq_payload = Credentials (sm_email b) (sm_password b)\<rparr> of
        (None, w') \<Rightarrow> (Inl Sim_HTTPError, w')
      | (Some res, w') \<Rightarrow>
          if rs_status res \<noteq> 200 then (Inl Sim_RuntimeError, w')
          else (case rs_body res of
              Access_token t \<Rightarrow> (Inr (b\<lparr>sm_token := Some t\<rparr>), w')
            | _ \<Rightarrow> (Inl Sim_Crash, w')))"

text \<open>One call, retried once after a fresh login on 401. The bus is returned too: its token may be new.\<close>

definition request ::
  "'w api \<Rightarrow> string \<Rightarrow> string \<Rightarrow> string \<Rightarrow> sim_payload \<Rightarrow> sim_bus \<Rightarrow> 'w \<Rightarrow> (sim_error + sim_response) \<times> sim_bus \<times> 'w" where
  "request api base method path payload b w =
     (case api w \<lparr>rq_method = method, rq_path = base @ path, rq_token = sm_token b, rq_payload = payload\<rparr> of
        (None, w1) \<Rightarrow> (Inl Sim_HTTPError, b, w1)
      | (Some res, w1) \<Rightarrow>
          if rs_status res \<noteq> 401 then (Inr res, b, w1)
          else (case login api base b w1 of
              (Inl e, w2) \<Rightarrow> (Inl e, b, w2)
            | (Inr b', w2) \<Rightarrow>
                (case api w2 \<lparr>rq_method = method, rq_path = base @ path, rq_token = sm_token b', rq_payload = payload\<rparr> of
                   (None, w3) \<Rightarrow> (Inl Sim_HTTPError, b', w3)
                 | (Some res', w3) \<Rightarrow> (Inr res', b', w3))))"

section \<open>Attaching to a trip\<close>

text \<open>Tries each bus with a random route until the API starts a trip.\<close>

fun try_buses ::
  "'w api \<Rightarrow> string \<Rightarrow> (nat \<Rightarrow> nat) \<Rightarrow> shape_doc list \<Rightarrow> bus_doc list \<Rightarrow> nat \<Rightarrow> sim_bus \<Rightarrow> 'w \<Rightarrow>
   (sim_error + active_doc) \<times> sim_bus \<times> 'w" where
  "try_buses api base pick shapes [] n b w = (Inl Sim_RuntimeError, b, w)"
| "try_buses api base pick shapes (bus # buses) n b w =
     (let route_id = sd_id (shapes ! (pick n mod length shapes)) in
      case request api base ''POST'' ''/helper/trips/start'' (Start_trip (bd_id bus) route_id) b w of
        (Inl e, b', w') \<Rightarrow> (Inl e, b', w')
      | (Inr res, b', w') \<Rightarrow>
          if rs_status res = 201
          then (case rs_body res of Started_trip a \<Rightarrow> (Inr a, b', w') | _ \<Rightarrow> (Inl Sim_Crash, b', w'))
          else try_buses api base pick shapes buses (n + 1) b' w')"

definition fleet_buses :: "'w api \<Rightarrow> string \<Rightarrow> sim_bus \<Rightarrow> 'w \<Rightarrow> (sim_error + bus_doc list) \<times> sim_bus \<times> 'w" where
  "fleet_buses api base b w =
     (case request api base ''GET'' ''/fleet/buses'' No_body b w of
        (Inl e, b', w') \<Rightarrow> (Inl e, b', w')
      | (Inr res, b', w') \<Rightarrow>
          (case rs_body res of Bus_list bs \<Rightarrow> (Inr bs, b', w') | _ \<Rightarrow> (Inl Sim_Crash, b', w')))"

definition sim_start_trip ::
  "'w api \<Rightarrow> string \<Rightarrow> (nat \<Rightarrow> nat) \<Rightarrow> shape_doc list \<Rightarrow> sim_bus \<Rightarrow> 'w \<Rightarrow> (sim_error + active_doc) \<times> sim_bus \<times> 'w" where
  "sim_start_trip api base pick shapes b w =
     (case fleet_buses api base b w of
        (Inl e, b', w') \<Rightarrow> (Inl e, b', w')
      | (Inr buses, b', w') \<Rightarrow>
          if buses = [] \<or> shapes = [] then (Inl Sim_RuntimeError, b', w')
          else try_buses api base pick shapes buses 0 b' w')"

text \<open>The end of \<^verbatim>\<open>attach\<close>, once the bus has a trip: its path, a random start, its seats.\<close>

definition take_trip :: "shape_doc list \<Rightarrow> active_doc \<Rightarrow> real \<Rightarrow> sim_bus \<Rightarrow> sim_error + sim_bus" where
  "take_trip shapes active u b =
     (case find (\<lambda>s. sd_id s = ac_route_id active) shapes of
        None \<Rightarrow> Inl Sim_RuntimeError
      | Some shape \<Rightarrow>
          (case new_path (sd_stops shape) of
             Inl _ \<Rightarrow> Inl Sim_Crash
           | Inr path \<Rightarrow> Inr (b\<lparr>sm_bus_id := Some (ac_bus_id active), sm_trip_id := Some (ac_trip_id active),
               sm_route_name := sd_name shape @ '' '' @ sd_direction shape, sm_path := Some path,
               sm_travelled := u * length_m path\<rparr>)))"

definition attach ::
  "'w api \<Rightarrow> string \<Rightarrow> (nat \<Rightarrow> nat) \<Rightarrow> real \<Rightarrow> (int \<Rightarrow> int) \<Rightarrow> shape_doc list \<Rightarrow> sim_bus \<Rightarrow> 'w \<Rightarrow>
   (sim_error + sim_bus) \<times> 'w" where
  "attach api base pick u seats shapes b w =
     (case request api base ''GET'' ''/helper/trips/active'' No_body b w of
        (Inl e, b1, w1) \<Rightarrow> (Inl e, w1)
      | (Inr res, b1, w1) \<Rightarrow>
          if rs_status res \<ge> 400 then (Inl Sim_HTTPError, w1)
          else
            (case (case rs_body res of
                Active_trip (Some a) \<Rightarrow> (Inr a, b1, w1)
              | Active_trip None \<Rightarrow> sim_start_trip api base pick shapes b1 w1
              | _ \<Rightarrow> (Inl Sim_Crash, b1, w1)) of
               (Inl e, b2, w2) \<Rightarrow> (Inl e, w2)
             | (Inr active, b2, w2) \<Rightarrow>
                 (case take_trip shapes active u b2 of
                    Inl e \<Rightarrow> (Inl e, w2)
                  | Inr b3 \<Rightarrow>
                      (case fleet_buses api base b3 w2 of
                         (Inl e, b4, w3) \<Rightarrow> (Inl e, w3)
                       | (Inr buses, b4, w3) \<Rightarrow>
                           let capacity = (case find (\<lambda>x. bd_id x = ac_bus_id active) buses of
                                 None \<Rightarrow> 40
                               | Some x \<Rightarrow> (case bd_capacity x of None \<Rightarrow> 40 | Some c \<Rightarrow> c)) in
                           (Inr (b4\<lparr>sm_capacity := capacity, sm_occupied := seats (max 4 (capacity div 2))\<rparr>), w3)))))"

section \<open>The tick\<close>

text \<open>What one bus draws and reads from the clock in one tick.\<close>

record tick_draws =
  td_now :: instant
  td_jitter :: "nat \<Rightarrow> real \<times> real"
  td_accuracy :: "nat \<Rightarrow> real"
  td_drift :: int

text \<open>\<^verbatim>\<open>round(x, n)\<close>, with the ties of the real number.\<close>

definition round_to :: "nat \<Rightarrow> real \<Rightarrow> real" where
  "round_to n x = of_int (py_round (x * 10 ^ n)) / 10 ^ n"

text \<open>\<^verbatim>\<open>now + timedelta(seconds=s)\<close>: a time difference holds whole microseconds.\<close>

definition offset_instant :: "instant \<Rightarrow> real \<Rightarrow> instant" where
  "offset_instant now s = now + py_round (s * of_int second)"

definition step_m :: "sim_config \<Rightarrow> real" where
  "step_m cfg = SPEED_KMH cfg * 1000 / 3600 * TICK_S cfg"

definition sim_fix :: "sim_config \<Rightarrow> tick_draws \<Rightarrow> sim_path \<Rightarrow> real \<Rightarrow> int \<Rightarrow> nat \<Rightarrow> gps_point" where
  "sim_fix cfg td path travelled direction i =
     (let share = step_m cfg * (real i + 1) / real (FIXES_PER_BATCH cfg);
          (lat, lng, heading) = path_at path (travelled + of_int direction * share);
          (lat', lng') = jitter (td_jitter td i) lat lng;
          spacing = TICK_S cfg / real (FIXES_PER_BATCH cfg) in
      \<lparr>gp_lat = round_to 6 lat', gp_lng = round_to 6 lng',
       gp_ts = offset_instant (td_now td) (- (real (FIXES_PER_BATCH cfg) - 1 - real i) * spacing),
       gp_speed = Some (round_to 2 (SPEED_KMH cfg * 1000 / 3600)),
       gp_heading = Some (round_to 1 (if direction > 0 then heading else mod360 (heading + 180))),
       gp_accuracy = Some (round_to 1 (td_accuracy td i))\<rparr>)"

text \<open>The cursor after a step: at either end it turns around instead of stopping.\<close>

definition move :: "real \<Rightarrow> real \<Rightarrow> real \<times> int \<Rightarrow> real \<times> int" where
  "move step len c =
     (let travelled = fst c + of_int (snd c) * step in
      if travelled \<ge> len then (len, - 1)
      else if travelled \<le> 0 then (0, 1)
      else (travelled, snd c))"

text \<open>No path is a failed \<^verbatim>\<open>assert\<close>, no fixes per batch a division by zero.\<close>

definition advance :: "sim_config \<Rightarrow> tick_draws \<Rightarrow> sim_bus \<Rightarrow> sim_error + gps_point list \<times> sim_bus" where
  "advance cfg td b =
     (case sm_path b of
        None \<Rightarrow> Inl Sim_Crash
      | Some path \<Rightarrow>
          if FIXES_PER_BATCH cfg = 0 then Inl Sim_Crash
          else
            let points = map (sim_fix cfg td path (sm_travelled b) (sm_direction b)) [0 ..< FIXES_PER_BATCH cfg];
                c = move (step_m cfg) (length_m path) (sm_travelled b, sm_direction b) in
            Inr (points, b\<lparr>sm_travelled := fst c, sm_direction := snd c\<rparr>))"

text \<open>Whether the batch was taken; a refusal is only logged. The bus has moved either way.\<close>

definition post_fixes ::
  "'w api \<Rightarrow> string \<Rightarrow> sim_config \<Rightarrow> tick_draws \<Rightarrow> sim_bus \<Rightarrow> 'w \<Rightarrow> (sim_error + bool) \<times> sim_bus \<times> 'w" where
  "post_fixes api base cfg td b w =
     (case advance cfg td b of
        Inl e \<Rightarrow> (Inl e, b, w)
      | Inr (points, b1) \<Rightarrow>
          (case request api base ''POST'' ''/helper/gps'' (Fixes (sm_bus_id b1) points) b1 w of
             (Inl e, b2, w') \<Rightarrow> (Inl e, b2, w')
           | (Inr res, b2, w') \<Rightarrow> (Inr (rs_status res = 202), b2, w')))"

definition post_seats ::
  "'w api \<Rightarrow> string \<Rightarrow> tick_draws \<Rightarrow> sim_bus \<Rightarrow> 'w \<Rightarrow> (sim_error + unit) \<times> sim_bus \<times> 'w" where
  "post_seats api base td b w =
     (let occupied = max 0 (min (sm_capacity b) (sm_occupied b + td_drift td)); b1 = b\<lparr>sm_occupied := occupied\<rparr> in
      case request api base ''POST'' ''/helper/seats'' (Seats occupied) b1 w of
        (Inl e, b2, w') \<Rightarrow> (Inl e, b2, w')
      | (Inr _, b2, w') \<Rightarrow> (Inr (), b2, w'))"

section \<open>The driver\<close>

definition load_shapes :: "'w api \<Rightarrow> string \<Rightarrow> sim_bus \<Rightarrow> 'w \<Rightarrow> (sim_error + shape_doc list) \<times> sim_bus \<times> 'w" where
  "load_shapes api base b w =
     (case request api base ''GET'' ''/fleet/route-shapes'' No_body b w of
        (Inl e, b', w') \<Rightarrow> (Inl e, b', w')
      | (Inr res, b', w') \<Rightarrow>
          if rs_status res \<ge> 400 then (Inl Sim_HTTPError, b', w')
          else (case rs_body res of
              Shape_list ss \<Rightarrow> (Inr (filter (\<lambda>s. length (sd_stops s) \<ge> 2) ss), b', w')
            | _ \<Rightarrow> (Inl Sim_Crash, b', w')))"

text \<open>\<^verbatim>\<open>pair.split(":", 1)\<close> of the pairs that have a colon, the address stripped.\<close>

definition sim_credentials :: "string \<Rightarrow> (string \<times> string) list" where
  "sim_credentials helpers =
     map (\<lambda>pair. (strip (takeWhile (\<lambda>c. c \<noteq> CHR '':'') pair), tl (dropWhile (\<lambda>c. c \<noteq> CHR '':'') pair)))
       (filter (\<lambda>pair. CHR '':'' \<in> set pair) (split_on (CHR '','') helpers))"

definition default_helpers :: string where
  "default_helpers = ''helper1@buscrew.com.bd:Helper@1234,helper2@buscrew.com.bd:Helper@1234''"

definition seats_every :: "sim_config \<Rightarrow> nat" where
  "seats_every cfg = max 1 (nat \<lfloor>60 / TICK_S cfg\<rfloor>)"

text \<open>One bus in one tick: a network error costs it the rest of this tick, anything else ends the run.\<close>

definition drive_bus ::
  "'w api \<Rightarrow> string \<Rightarrow> sim_config \<Rightarrow> bool \<Rightarrow> tick_draws \<Rightarrow> sim_bus \<Rightarrow> 'w \<Rightarrow> (sim_error + unit) \<times> sim_bus \<times> 'w" where
  "drive_bus api base cfg seats_due td b w =
     (case (case post_fixes api base cfg td b w of
         (Inl e, b1, w1) \<Rightarrow> (Inl e, b1, w1)
       | (Inr _, b1, w1) \<Rightarrow> if seats_due then post_seats api base td b1 w1 else (Inr (), b1, w1)) of
        (Inl Sim_HTTPError, b2, w2) \<Rightarrow> (Inr (), b2, w2)
      | (out, b2, w2) \<Rightarrow> (out, b2, w2))"

fun drive_tick ::
  "'w api \<Rightarrow> string \<Rightarrow> sim_config \<Rightarrow> bool \<Rightarrow> (nat \<Rightarrow> tick_draws) \<Rightarrow> nat \<Rightarrow> sim_bus list \<Rightarrow> 'w \<Rightarrow>
   (sim_error + sim_bus list) \<times> 'w" where
  "drive_tick api base cfg seats_due draws i [] w = (Inr [], w)"
| "drive_tick api base cfg seats_due draws i (b # bs) w =
     (case drive_bus api base cfg seats_due (draws i) b w of
        (Inl e, _, w') \<Rightarrow> (Inl e, w')
      | (Inr _, b', w') \<Rightarrow>
          (case drive_tick api base cfg seats_due draws (i + 1) bs w' of
             (Inl e, w'') \<Rightarrow> (Inl e, w'')
           | (Inr bs', w'') \<Rightarrow> (Inr (b' # bs'), w'')))"

text \<open>The first \<open>n\<close> ticks of the endless loop, from tick \<open>t\<close>.\<close>

fun drive ::
  "'w api \<Rightarrow> string \<Rightarrow> sim_config \<Rightarrow> (nat \<Rightarrow> nat \<Rightarrow> tick_draws) \<Rightarrow> nat \<Rightarrow> nat \<Rightarrow> sim_bus list \<Rightarrow> 'w \<Rightarrow>
   (sim_error + sim_bus list) \<times> 'w" where
  "drive api base cfg draws t 0 bs w = (Inr bs, w)"
| "drive api base cfg draws t (Suc n) bs w =
     (case drive_tick api base cfg (t mod seats_every cfg = 0) (draws t) 0 bs w of
        (Inl e, w') \<Rightarrow> (Inl e, w')
      | (Inr bs', w') \<Rightarrow> drive api base cfg draws (t + 1) n bs' w')"

fun login_all :: "'w api \<Rightarrow> string \<Rightarrow> sim_bus list \<Rightarrow> 'w \<Rightarrow> (sim_error + sim_bus list) \<times> 'w" where
  "login_all api base [] w = (Inr [], w)"
| "login_all api base (b # bs) w =
     (case login api base b w of
        (Inl e, w') \<Rightarrow> (Inl e, w')
      | (Inr b', w') \<Rightarrow>
          (case login_all api base bs w' of
             (Inl e, w'') \<Rightarrow> (Inl e, w'')
           | (Inr bs', w'') \<Rightarrow> (Inr (b' # bs'), w'')))"

text \<open>The draws of \<open>attach\<close>, per bus.\<close>

record attach_draws =
  ad_pick :: "nat \<Rightarrow> nat"
  ad_start :: real
  ad_seats :: "int \<Rightarrow> int"

fun attach_all ::
  "'w api \<Rightarrow> string \<Rightarrow> (nat \<Rightarrow> attach_draws) \<Rightarrow> nat \<Rightarrow> shape_doc list \<Rightarrow> sim_bus list \<Rightarrow> 'w \<Rightarrow>
   (sim_error + sim_bus list) \<times> 'w" where
  "attach_all api base ad i shapes [] w = (Inr [], w)"
| "attach_all api base ad i shapes (b # bs) w =
     (case attach api base (ad_pick (ad i)) (ad_start (ad i)) (ad_seats (ad i)) shapes b w of
        (Inl e, w') \<Rightarrow> (Inl e, w')
      | (Inr b', w') \<Rightarrow>
          (case attach_all api base ad (i + 1) shapes bs w' of
             (Inl e, w'') \<Rightarrow> (Inl e, w'')
           | (Inr bs', w'') \<Rightarrow> (Inr (b' # bs'), w'')))"

datatype sim_exit = Returned int | Raised sim_error | Driving "sim_bus list"

text \<open>\<^verbatim>\<open>run\<close>: its end, or where the buses are after \<open>n\<close> ticks.\<close>

definition sim_run ::
  "'w api \<Rightarrow> string \<Rightarrow> sim_config \<Rightarrow> string \<Rightarrow> (nat \<Rightarrow> attach_draws) \<Rightarrow> (nat \<Rightarrow> nat \<Rightarrow> tick_draws) \<Rightarrow> bool \<Rightarrow> nat \<Rightarrow>
   'w \<Rightarrow> sim_exit \<times> 'w" where
  "sim_run api base cfg helpers ad draws once n w =
     (case map (\<lambda>(email, password). new_sim_bus email password) (sim_credentials helpers) of
        [] \<Rightarrow> (Returned 1, w)
      | b # bs \<Rightarrow>
          (case login_all api base (b # bs) w of
             (Inl e, w1) \<Rightarrow> (Raised e, w1)
           | (Inr buses, w1) \<Rightarrow>
               (case load_shapes api base (hd buses) w1 of
                  (Inl e, _, w2) \<Rightarrow> (Raised e, w2)
                | (Inr shapes, b', w2) \<Rightarrow>
                    (case attach_all api base ad 0 shapes (b' # tl buses) w2 of
                       (Inl e, w3) \<Rightarrow> (Raised e, w3)
                     | (Inr buses', w3) \<Rightarrow>
                         (case drive api base cfg draws 0 (if once then 1 else n) buses' w3 of
                            (Inl e, w4) \<Rightarrow> (Raised e, w4)
                          | (Inr buses'', w4) \<Rightarrow> (if once then Returned 0 else Driving buses'', w4))))))"

section \<open>A bus stays on its route\<close>

lemma last_index:
  assumes "P 0" "0 < n"
  shows "fold (\<lambda>idx i. if P idx then idx else i) [0 ..< n] 0 < n \<and>
    P (fold (\<lambda>idx i. if P idx then idx else i) [0 ..< n] 0) \<and>
    (\<forall>j < n. fold (\<lambda>idx i. if P idx then idx else i) [0 ..< n] 0 < j \<longrightarrow> \<not> P j)"
  using assms(2)
proof (induction n rule: nat_induct_non_zero)
  case (Suc n)
  then show ?case by (auto simp: less_Suc_eq)
qed (simp add: assms(1))

lemma cumulative_length [simp]: "length (cumulative_from d ps) = max 1 (length ps)"
  by (induction d ps rule: cumulative_from.induct) auto

lemma cumulative_nonempty [simp]: "cumulative_from d ps \<noteq> []"
  by (induction d ps rule: cumulative_from.induct) auto

lemma cumulative_head [simp]: "cumulative_from d ps ! 0 = d"
  by (induction d ps rule: cumulative_from.induct) auto

lemma haversine_m_eq:
  "haversine_m (a, b) (c, d) = 2 * EARTH_RADIUS_M * arcsin (sqrt (haversine_h \<lparr>pt_lat = a, pt_lng = b\<rparr> \<lparr>pt_lat = c, pt_lng = d\<rparr>))"
  by (simp add: haversine_m_def haversine_h_def Let_def)

definition place_ok :: "real \<times> real \<Rightarrow> bool" where "place_ok p \<longleftrightarrow> \<bar>fst p\<bar> \<le> 90"

lemma haversine_m_nonneg: "place_ok p \<Longrightarrow> place_ok q \<Longrightarrow> 0 \<le> haversine_m p q"
proof (cases p; cases q)
  fix a b c d
  assume "place_ok p" "place_ok q" and pq: "p = (a, b)" "q = (c, d)"
  then have "on_earth \<lparr>pt_lat = a, pt_lng = b\<rparr>" "on_earth \<lparr>pt_lat = c, pt_lng = d\<rparr>"
    by (simp_all add: place_ok_def on_earth_def)
  from haversine_h_bounds [OF this] show ?thesis
    by (simp add: haversine_m_eq pq EARTH_RADIUS_M_def arcsin_nonneg)
qed

lemma cumulative_sorted:
  "\<forall>p \<in> set ps. place_ok p \<Longrightarrow> Suc i < length ps \<Longrightarrow> cumulative_from d ps ! i \<le> cumulative_from d ps ! Suc i"
proof (induction d ps arbitrary: i rule: cumulative_from.induct)
  case (1 d p q ps)
  then show ?case
  proof (cases i)
    case 0
    with 1 show ?thesis using haversine_m_nonneg [of p q] by (cases ps) simp_all
  qed simp
qed auto

text \<open>The path the constructor makes of two or more places on the globe.\<close>

definition path_ok :: "sim_path \<Rightarrow> bool" where
  "path_ok p \<longleftrightarrow> new_path (ph_points p) = Inr p \<and> (\<forall>q \<in> set (ph_points p). place_ok q)"

lemma new_path_ok: "new_path ps = Inr p \<Longrightarrow> \<forall>q \<in> set ps. place_ok q \<Longrightarrow> path_ok p"
  by (auto simp: path_ok_def new_path_def split: if_splits)

lemma path_okD:
  assumes "path_ok p"
  shows "2 \<le> length (ph_points p)" "ph_cumulative p = cumulative_from 0 (ph_points p)"
  using assms by (cases p; auto simp: path_ok_def new_path_def split: if_splits)+

lemma cumulative_last: "2 \<le> length ps \<Longrightarrow> last (cumulative_from d ps) = cumulative_from d ps ! (length ps - 1)"
  by (simp add: last_conv_nth)

lemma cumulative_nonneg:
  "\<forall>p \<in> set ps. place_ok p \<Longrightarrow> i < length ps \<Longrightarrow> d \<le> cumulative_from d ps ! i"
proof (induction i)
  case (Suc i)
  then have "d \<le> cumulative_from d ps ! i" by simp
  with cumulative_sorted [of ps i d] Suc.prems show ?case by simp
qed simp

lemma length_m_nonneg: "path_ok p \<Longrightarrow> 0 \<le> length_m p"
  using path_okD [of p] cumulative_nonneg [of "ph_points p" "length (ph_points p) - 1" 0]
  by (simp add: length_m_def cumulative_last path_ok_def)

lemma leg_at_bounds:
  assumes "path_ok p" "0 \<le> d" "d \<le> length_m p"
  shows "Suc (leg_at p d) < length (ph_points p)"
    "ph_cumulative p ! leg_at p d \<le> d" "d \<le> ph_cumulative p ! Suc (leg_at p d)"
proof -
  note ok = path_okD [OF assms(1)]
  define n where "n = length (ph_cumulative p) - 1"
  have n: "0 < n" "Suc n = length (ph_points p)" using ok by (auto simp: n_def max_def)
  have leg: "leg_at p d = fold (\<lambda>idx i. if ph_cumulative p ! idx \<le> d then idx else i) [0 ..< n] 0"
    by (simp add: leg_at_def n_def)
  have "ph_cumulative p ! 0 \<le> d" using ok assms(2) by simp
  from last_index [where P = "\<lambda>i. ph_cumulative p ! i \<le> d", OF this n(1), folded leg]
  have *: "leg_at p d < n" "ph_cumulative p ! leg_at p d \<le> d"
    "\<And>j. j < n \<Longrightarrow> leg_at p d < j \<Longrightarrow> \<not> ph_cumulative p ! j \<le> d" by blast+
  then show "Suc (leg_at p d) < length (ph_points p)" "ph_cumulative p ! leg_at p d \<le> d" using n by simp_all
  show "d \<le> ph_cumulative p ! Suc (leg_at p d)"
  proof (cases "Suc (leg_at p d) < n")
    case True
    with *(3) [of "Suc (leg_at p d)"] show ?thesis by simp
  next
    case False
    with *(1) have "Suc (leg_at p d) = length (ph_points p) - 1" using n by simp
    with assms(3) ok show ?thesis by (simp add: length_m_def cumulative_last)
  qed
qed

text \<open>A point between two others, by coordinate.\<close>

lemma between_weight:
  fixes a b t :: real
  assumes "0 \<le> t" "t \<le> 1"
  shows "min a b \<le> a + (b - a) * t" "a + (b - a) * t \<le> max a b"
proof -
  have eq: "a + (b - a) * t = (1 - t) * a + t * b" by (simp add: algebra_simps)
  have "(1 - t) * min a b + t * min a b \<le> (1 - t) * a + t * b" using assms by (intro add_mono mult_left_mono) auto
  then show "min a b \<le> a + (b - a) * t" by (simp add: eq algebra_simps)
  have "(1 - t) * a + t * b \<le> (1 - t) * max a b + t * max a b" using assms by (intro add_mono mult_left_mono) auto
  then show "a + (b - a) * t \<le> max a b" by (simp add: eq algebra_simps)
qed

lemma path_at_on_leg:
  assumes "path_ok p"
  obtains i lat lng heading where "Suc i < length (ph_points p)" "path_at p d = (lat, lng, heading)"
    "min (fst (ph_points p ! i)) (fst (ph_points p ! Suc i)) \<le> lat" "lat \<le> max (fst (ph_points p ! i)) (fst (ph_points p ! Suc i))"
    "min (snd (ph_points p ! i)) (snd (ph_points p ! Suc i)) \<le> lng" "lng \<le> max (snd (ph_points p ! i)) (snd (ph_points p ! Suc i))"
proof -
  define e where "e = min (max d 0) (length_m p)"
  have "0 \<le> e" "e \<le> length_m p" using length_m_nonneg [OF assms] by (simp_all add: e_def)
  note leg = leg_at_bounds [OF assms this]
  define i where "i = leg_at p e"
  define span where "span = ph_cumulative p ! Suc i - ph_cumulative p ! i"
  define t where "t = (if span = 0 then 0 else (e - ph_cumulative p ! i) / span)"
  have t: "0 \<le> t" "t \<le> 1" using leg(2, 3) by (auto simp: t_def span_def i_def divide_le_eq)
  obtain a b where p1: "ph_points p ! i = (a, b)" by fastforce
  obtain a' b' where p2: "ph_points p ! Suc i = (a', b')" by fastforce
  have "path_at p d = (let (lat1, lng1) = ph_points p ! i; (lat2, lng2) = ph_points p ! Suc i in
      (lat1 + (lat2 - lat1) * t, lng1 + (lng2 - lng1) * t, bearing_deg (lat1, lng1) (lat2, lng2)))"
    unfolding path_at_def Let_def e_def t_def span_def i_def by simp
  then have "path_at p d = (a + (a' - a) * t, b + (b' - b) * t, bearing_deg (a, b) (a', b'))"
    by (simp add: p1 p2)
  with between_weight [OF t, of a a'] between_weight [OF t, of b b'] leg(1) p1 p2 show ?thesis
    by (intro that [of i]) (simp_all add: i_def)
qed

text \<open>The cursor of a bus: on its path, heading one way or the other.\<close>

definition bus_on_route :: "sim_bus \<Rightarrow> bool" where
  "bus_on_route b \<longleftrightarrow> (case sm_path b of None \<Rightarrow> False
     | Some p \<Rightarrow> path_ok p \<and> 0 \<le> sm_travelled b \<and> sm_travelled b \<le> length_m p \<and> sm_direction b \<in> {1, - 1})"

lemma move_stays:
  "0 \<le> len \<Longrightarrow> d \<in> {1, - 1} \<Longrightarrow> 0 \<le> fst (move step len (t, d)) \<and> fst (move step len (t, d)) \<le> len \<and> snd (move step len (t, d)) \<in> {1, - 1}"
  by (auto simp: move_def Let_def)

lemma advance_cases:
  assumes "advance cfg td b = Inr (points, b')"
  obtains p where "sm_path b = Some p" "FIXES_PER_BATCH cfg \<noteq> 0"
    "points = map (sim_fix cfg td p (sm_travelled b) (sm_direction b)) [0 ..< FIXES_PER_BATCH cfg]"
    "b' = b\<lparr>sm_travelled := fst (move (step_m cfg) (length_m p) (sm_travelled b, sm_direction b)),
           sm_direction := snd (move (step_m cfg) (length_m p) (sm_travelled b, sm_direction b))\<rparr>"
  using assms by (auto simp: advance_def Let_def split: option.splits if_splits)

lemma advance_on_route:
  assumes "advance cfg td b = Inr (points, b')" "bus_on_route b"
  shows "bus_on_route b'"
proof -
  from assms(1) obtain p where p: "sm_path b = Some p"
    "b' = b\<lparr>sm_travelled := fst (move (step_m cfg) (length_m p) (sm_travelled b, sm_direction b)),
           sm_direction := snd (move (step_m cfg) (length_m p) (sm_travelled b, sm_direction b))\<rparr>"
    by (rule advance_cases)
  with assms(2) have "path_ok p" "sm_direction b \<in> {1, - 1}" by (simp_all add: bus_on_route_def)
  with move_stays [OF length_m_nonneg, of p "sm_direction b" "step_m cfg" "sm_travelled b"] p show ?thesis
    by (simp add: bus_on_route_def)
qed

lemma take_trip_on_route:
  assumes "take_trip shapes active u b = Inr b'" "0 \<le> u" "u \<le> 1" "sm_direction b \<in> {1, - 1}"
    "\<forall>s \<in> set shapes. \<forall>q \<in> set (sd_stops s). place_ok q"
  shows "bus_on_route b'"
proof -
  obtain s p where sp: "find (\<lambda>s. sd_id s = ac_route_id active) shapes = Some s" "new_path (sd_stops s) = Inr p"
    "sm_path b' = Some p" "sm_travelled b' = u * length_m p" "sm_direction b' = sm_direction b"
    using assms(1) by (auto simp: take_trip_def split: option.splits sum.splits)
  from sp(1) have "s \<in> set shapes" by (auto simp: find_Some_iff in_set_conv_nth)
  with assms(5) have p: "path_ok p" by (intro new_path_ok [OF sp(2)]) blast
  have "0 \<le> u * length_m p" "u * length_m p \<le> length_m p"
    using length_m_nonneg [OF p] assms(2, 3) by (simp_all add: mult_left_le_one_le)
  with sp p assms(4) show ?thesis by (simp add: bus_on_route_def)
qed

section \<open>Requests leave the cursor alone\<close>

text \<open>What a request may change of a bus is its token.\<close>

definition same_but_token :: "sim_bus \<Rightarrow> sim_bus \<Rightarrow> bool" where
  "same_but_token b b' \<longleftrightarrow> b' = b\<lparr>sm_token := sm_token b'\<rparr>"

lemma same_but_token_refl [simp]: "same_but_token b b"
  by (simp add: same_but_token_def)

lemma same_but_token_trans: "same_but_token b b' \<Longrightarrow> same_but_token b' b'' \<Longrightarrow> same_but_token b b''"
  by (cases b; cases b'; cases b'') (auto simp: same_but_token_def)

lemma same_cursor:
  "same_but_token b b' \<Longrightarrow> sm_path b' = sm_path b \<and> sm_travelled b' = sm_travelled b \<and> sm_direction b' = sm_direction b"
  by (cases b; cases b') (auto simp: same_but_token_def)

lemma login_bus: "login api base b w = (Inr b', w') \<Longrightarrow> same_but_token b b'"
  by (auto simp: login_def same_but_token_def split: option.splits prod.splits if_splits sim_body.splits)

lemma request_bus: "request api base m p x b w = (out, b', w') \<Longrightarrow> same_but_token b b'"
  by (auto simp: request_def split: option.splits prod.splits if_splits sum.splits dest: login_bus)

text \<open>An API that never refuses a token keeps the requests free of errors other than the network's.\<close>

definition never_401 :: "'w api \<Rightarrow> bool" where
  "never_401 api \<longleftrightarrow> (\<forall>w rq res w'. api w rq = (Some res, w') \<longrightarrow> rs_status res \<noteq> 401)"

lemma request_error: "never_401 api \<Longrightarrow> request api base m p x b w = (Inl e, b', w') \<Longrightarrow> e = Sim_HTTPError"
  by (auto simp: request_def never_401_def split: option.splits prod.splits if_splits sum.splits)

section \<open>A tick moves every bus by one step\<close>

definition cursor :: "sim_bus \<Rightarrow> real \<times> int" where "cursor b = (sm_travelled b, sm_direction b)"

definition moved :: "sim_config \<Rightarrow> nat \<Rightarrow> sim_bus \<Rightarrow> sim_bus \<Rightarrow> bool" where
  "moved cfg n b b' \<longleftrightarrow> sm_path b' = sm_path b \<and>
     (\<forall>p. sm_path b = Some p \<longrightarrow> cursor b' = (move (step_m cfg) (length_m p) ^^ n) (cursor b))"

lemma moved_zero [simp]: "moved cfg 0 b b"
  by (simp add: moved_def)

lemma moved_trans: "moved cfg 1 b b' \<Longrightarrow> moved cfg n b' b'' \<Longrightarrow> moved cfg (Suc n) b b''"
  by (auto simp: moved_def funpow_swap1)

lemma advance_moves: "advance cfg td b = Inr (points, b') \<Longrightarrow> moved cfg 1 b b'"
  by (erule advance_cases) (simp add: moved_def cursor_def)

lemma same_but_token_moved: "moved cfg n b b' \<Longrightarrow> same_but_token b' b'' \<Longrightarrow> moved cfg n b b''"
  using same_cursor [of b' b''] by (simp add: moved_def cursor_def)

lemma post_fixes_moves:
  assumes "post_fixes api base cfg td b w = (out, b', w')" "\<And>e. advance cfg td b \<noteq> Inl e"
  shows "moved cfg 1 b b'"
proof -
  obtain points b1 where b1: "advance cfg td b = Inr (points, b1)" using assms(2) by (metis sum.exhaust prod.exhaust)
  with assms(1) have "same_but_token b1 b'"
    by (auto simp: post_fixes_def split: prod.splits sum.splits dest: request_bus)
  with advance_moves [OF b1] show ?thesis by (rule same_but_token_moved)
qed

lemma post_seats_cursor: "post_seats api base td b w = (out, b', w') \<Longrightarrow> sm_path b' = sm_path b \<and> cursor b' = cursor b"
  by (auto simp: post_seats_def Let_def cursor_def split: prod.splits sum.splits dest!: request_bus same_cursor)

lemma advance_returns:
  "bus_on_route b \<Longrightarrow> FIXES_PER_BATCH cfg \<noteq> 0 \<Longrightarrow> advance cfg td b \<noteq> Inl e"
  by (auto simp: advance_def bus_on_route_def Let_def split: option.splits)

lemma drive_bus_moves:
  assumes "bus_on_route b" "FIXES_PER_BATCH cfg \<noteq> 0" "drive_bus api base cfg due td b w = (out, b', w')"
  shows "moved cfg 1 b b'"
proof -
  obtain o1 b1 w1 where post: "post_fixes api base cfg td b w = (o1, b1, w1)" by (rule prod_cases3)
  have 1: "moved cfg 1 b b1" using post_fixes_moves [OF post] advance_returns [OF assms(1, 2)] by blast
  have "b' = b1 \<or> (\<exists>o2 w2. post_seats api base td b1 w1 = (o2, b', w2))"
    using assms(3) by (auto simp: drive_bus_def post split: sum.splits prod.splits if_splits sim_error.splits)
  with 1 show ?thesis using post_seats_cursor by (fastforce simp: moved_def)
qed

lemma drive_bus_survives:
  assumes "never_401 api" "bus_on_route b" "FIXES_PER_BATCH cfg \<noteq> 0"
  shows "fst (drive_bus api base cfg due td b w) = Inr ()"
proof -
  have fixes_error: "e = Sim_HTTPError" if "post_fixes api base cfg td b w = (Inl e, b', w')" for e b' w'
    using that advance_returns [OF assms(2, 3)] request_error [OF assms(1)]
    by (auto simp: post_fixes_def split: sum.splits prod.splits)
  have seats_error: "e = Sim_HTTPError" if "post_seats api base td b1 w1 = (Inl e, b', w')" for e b1 w1 b' w'
    using that request_error [OF assms(1)] by (auto simp: post_seats_def Let_def split: sum.splits prod.splits)
  show ?thesis
    by (auto simp: drive_bus_def split: sum.splits prod.splits if_splits sim_error.splits dest: fixes_error seats_error)
qed

lemma move_on_route:
  assumes "bus_on_route b" "moved cfg n b b'"
  shows "bus_on_route b'"
proof -
  obtain p where p: "sm_path b = Some p" "path_ok p" and b: "0 \<le> sm_travelled b" "sm_travelled b \<le> length_m p" "sm_direction b \<in> {1, - 1}"
    using assms(1) by (auto simp: bus_on_route_def split: option.splits)
  have "0 \<le> fst ((move step (length_m p) ^^ n) (cursor b)) \<and> fst ((move step (length_m p) ^^ n) (cursor b)) \<le> length_m p \<and>
      snd ((move step (length_m p) ^^ n) (cursor b)) \<in> {1, - 1}" for step
  proof (induction n)
    case (Suc n)
    obtain t d where "(move step (length_m p) ^^ n) (cursor b) = (t, d)" by fastforce
    with Suc move_stays [OF length_m_nonneg [OF p(2)], of d step t] show ?case by simp
  qed (use b in \<open>simp add: cursor_def\<close>)
  with assms(2) p show ?thesis
    by (auto simp: bus_on_route_def moved_def cursor_def) (metis fst_conv snd_conv insertE singletonD)+
qed

text \<open>The cursors of all buses after a tick and after \<open>n\<close> ticks, when the loop got there.\<close>

lemma drive_tick_moves:
  assumes "\<forall>b \<in> set bs. bus_on_route b" "FIXES_PER_BATCH cfg \<noteq> 0" "drive_tick api base cfg due draws i bs w = (Inr bs', w')"
  shows "list_all2 (moved cfg 1) bs bs'"
  using assms(1, 3)
proof (induction bs arbitrary: i w bs')
  case (Cons b bs)
  then show ?case
    by (auto split: prod.splits sum.splits dest: drive_bus_moves [OF _ assms(2)])
qed simp

lemma drive_tick_survives:
  "never_401 api \<Longrightarrow> \<forall>b \<in> set bs. bus_on_route b \<Longrightarrow> FIXES_PER_BATCH cfg \<noteq> 0 \<Longrightarrow>
   \<exists>bs' w'. drive_tick api base cfg due draws i bs w = (Inr bs', w')"
proof (induction bs arbitrary: i w)
  case (Cons b bs)
  obtain b' w1 where 1: "drive_bus api base cfg due (draws i) b w = (Inr (), b', w1)"
    using drive_bus_survives [of api b cfg base due "draws i" w] Cons.prems by (metis list.set_intros(1) prod.collapse)
  obtain bs' w2 where "drive_tick api base cfg due draws (i + 1) bs w1 = (Inr bs', w2)"
    using Cons.IH [of "i + 1" w1] Cons.prems by auto
  with 1 show ?case by simp
qed simp

lemma moved_list_on_route: "\<forall>b \<in> set bs. bus_on_route b \<Longrightarrow> list_all2 (moved cfg n) bs bs' \<Longrightarrow> \<forall>b \<in> set bs'. bus_on_route b"
  by (metis list_all2_conv_all_nth in_set_conv_nth move_on_route)

lemma moved_list_trans:
  "list_all2 (moved cfg 1) bs bs' \<Longrightarrow> list_all2 (moved cfg n) bs' bs'' \<Longrightarrow> list_all2 (moved cfg (Suc n)) bs bs''"
  by (rule list_all2_trans [of "moved cfg 1" "moved cfg n"]) (rule moved_trans)

lemma drive_moves:
  assumes "never_401 api" "FIXES_PER_BATCH cfg \<noteq> 0"
  shows "\<forall>b \<in> set bs. bus_on_route b \<Longrightarrow>
    \<exists>bs' w'. drive api base cfg draws t n bs w = (Inr bs', w') \<and> list_all2 (moved cfg n) bs bs'"
proof (induction n arbitrary: t bs w)
  case 0
  show ?case by (auto simp: list_all2_same)
next
  case (Suc n)
  obtain bs1 w1 where 1: "drive_tick api base cfg (t mod seats_every cfg = 0) (draws t) 0 bs w = (Inr bs1, w1)"
    using drive_tick_survives [OF assms(1) Suc.prems assms(2)] by blast
  from drive_tick_moves [OF Suc.prems assms(2) 1] have m: "list_all2 (moved cfg 1) bs bs1" .
  from Suc.IH [OF moved_list_on_route [OF Suc.prems m], of "t + 1" w1] obtain bs2 w2
    where 2: "drive api base cfg draws (t + 1) n bs1 w1 = (Inr bs2, w2)" "list_all2 (moved cfg n) bs1 bs2" by blast
  with 1 have "drive api base cfg draws t (Suc n) bs w = (Inr bs2, w2)" by simp
  with moved_list_trans [OF m 2(2)] show ?case by blast
qed

section \<open>A bus visits both ends\<close>

definition turned :: "sim_path \<Rightarrow> int \<Rightarrow> real \<times> int" where
  "turned p d = (if d = 1 then (length_m p, - 1) else (0, 1))"

lemma move_towards:
  assumes "0 < step" "0 \<le> len" "d \<in> {1, - 1}" "0 \<le> t" "t \<le> len"
    "(if d = 1 then len - t else t) \<le> real n * step" "0 < n"
  shows "\<exists>k \<le> n. 0 < k \<and> (move step len ^^ k) (t, d) = (if d = 1 then (len, - 1) else (0, 1)) \<and>
    (\<forall>j < k. snd ((move step len ^^ j) (t, d)) = d)"
  using assms(4 - 7)
proof (induction n arbitrary: t)
  case (Suc n)
  show ?case
  proof (cases "move step len (t, d) = (if d = 1 then (len, - 1) else (0, 1))")
    case True
    then show ?thesis by (intro exI [of _ 1]) simp
  next
    case False
    define t' where "t' = t + of_int d * step"
    have m: "move step len (t, d) = (t', d)" and t': "0 \<le> t'" "t' \<le> len"
      using False assms(1 - 3) Suc.prems(1, 2) by (auto simp: move_def Let_def t'_def split: if_splits)
    have rest: "(if d = 1 then len - t' else t') \<le> real n * step"
      using Suc.prems(3) assms(3) by (auto simp: t'_def algebra_simps split: if_splits)
    have "0 < n"
    proof (rule ccontr)
      assume "\<not> 0 < n"
      with rest t' assms(3) have "d = 1 \<and> t' = len \<or> d = - 1 \<and> t' = 0" by (auto split: if_splits)
      with m False assms(1 - 3) Suc.prems(1, 2) show False
        by (auto simp: move_def Let_def t'_def split: if_splits)
    qed
    from Suc.IH [OF t' rest this] obtain k where k: "k \<le> n" "0 < k"
      "(move step len ^^ k) (t', d) = (if d = 1 then (len, - 1) else (0, 1))"
      "\<forall>j < k. snd ((move step len ^^ j) (t', d)) = d" by blast
    have shift: "(move step len ^^ Suc j) (t, d) = (move step len ^^ j) (t', d)" for j
      by (simp only: funpow_Suc_right o_apply m)
    have "snd ((move step len ^^ j) (t, d)) = d" if "j < Suc k" for j
    proof (cases j)
      case (Suc i)
      with that k(4) shift [of i] show ?thesis by simp
    qed simp
    with k shift [of k] show ?thesis by (intro exI [of _ "Suc k"]) simp
  qed
qed simp

text \<open>
  The demo keeps driving. Unless a token is refused, no answer of the API and no network failure ends
  the loop, and every bus turns around at the end it is heading for within as many ticks as its route
  has steps, its pin still on a leg of the route.
\<close>

theorem bus_visits_the_ends:
  assumes "never_401 api" "FIXES_PER_BATCH cfg \<noteq> 0" "0 < step_m cfg" "\<forall>b \<in> set bs. bus_on_route b"
    "i < length bs" "sm_path (bs ! i) = Some p" "length_m p \<le> real n * step_m cfg" "0 < n"
  obtains k bs' w' where "0 < k" "k \<le> n" "drive api base cfg draws t k bs w = (Inr bs', w')"
    "cursor (bs' ! i) = turned p (sm_direction (bs ! i))" "\<forall>b \<in> set bs'. bus_on_route b"
proof -
  have b: "path_ok p" "0 \<le> sm_travelled (bs ! i)" "sm_travelled (bs ! i) \<le> length_m p" "sm_direction (bs ! i) \<in> {1, - 1}"
    using assms(4 - 6) by (auto simp: bus_on_route_def split: option.splits dest: nth_mem)
  have "(if sm_direction (bs ! i) = 1 then length_m p - sm_travelled (bs ! i) else sm_travelled (bs ! i)) \<le> real n * step_m cfg"
    using b assms(7) by simp
  from move_towards [OF assms(3) length_m_nonneg [OF b(1)] b(4, 2, 3) this assms(8)] obtain k where
    k: "k \<le> n" "0 < k" "(move (step_m cfg) (length_m p) ^^ k) (cursor (bs ! i)) = turned p (sm_direction (bs ! i))"
    by (auto simp: turned_def cursor_def)
  from drive_moves [OF assms(1, 2, 4), of base draws t k w] obtain bs' w' where
    run: "drive api base cfg draws t k bs w = (Inr bs', w')" "list_all2 (moved cfg k) bs bs'" by blast
  with assms(5) have "moved cfg k (bs ! i) (bs' ! i)" by (simp add: list_all2_nthD)
  with k(3) assms(6) have "cursor (bs' ! i) = turned p (sm_direction (bs ! i))" by (simp add: moved_def)
  with k run moved_list_on_route [OF assms(4) run(2)] show ?thesis by (intro that [of k bs' w']) auto
qed

section \<open>What a batch looks like to the API\<close>

lemma py_round_mono: "x \<le> y \<Longrightarrow> py_round x \<le> py_round y"
proof -
  assume "x \<le> y"
  then have f: "\<lfloor>x\<rfloor> \<le> \<lfloor>y\<rfloor>" by (rule floor_mono)
  show ?thesis
  proof (cases "\<lfloor>x\<rfloor> = \<lfloor>y\<rfloor>")
    case True
    with \<open>x \<le> y\<close> show ?thesis by (auto simp: py_round_def Let_def)
  next
    case False
    with f show ?thesis by (auto simp: py_round_def Let_def)
  qed
qed

lemma py_round_of_int [simp]: "py_round (of_int n) = n"
  by (simp add: py_round_def)

lemma round_to_bounds: "\<bar>x\<bar> \<le> of_int n \<Longrightarrow> \<bar>round_to k x\<bar> \<le> of_int n"
proof -
  assume "\<bar>x\<bar> \<le> of_int n"
  then have "x * 10 ^ k \<le> of_int (n * 10 ^ k)" "of_int (- n * 10 ^ k) \<le> x * 10 ^ k"
    by (simp_all add: abs_le_iff minus_le_iff mult_right_mono flip: mult_minus_left)
  from this [THEN py_round_mono] have b: "py_round (x * 10 ^ k) \<le> n * 10 ^ k" "- n * 10 ^ k \<le> py_round (x * 10 ^ k)"
    by (simp_all del: of_int_mult of_int_minus mult_minus_left)
  then have "(of_int (py_round (x * 10 ^ k)) :: real) \<le> of_int (n * 10 ^ k)" "(of_int (- n * 10 ^ k) :: real) \<le> of_int (py_round (x * 10 ^ k))"
    by (simp_all only: of_int_le_iff)
  then show ?thesis by (simp add: round_to_def abs_le_iff divide_le_eq minus_le_iff)
qed

text \<open>\<^verbatim>\<open>GpsBatch\<close> and \<^verbatim>\<open>GpsPointIn\<close> of \<^verbatim>\<open>app/schemas/gps.py\<close>.\<close>

definition gps_batch_ok :: "gps_point list \<Rightarrow> bool" where
  "gps_batch_ok points \<longleftrightarrow> 1 \<le> length points \<and> length points \<le> 50 \<and>
     (\<forall>p \<in> set points. \<bar>gp_lat p\<bar> \<le> 90 \<and> \<bar>gp_lng p\<bar> \<le> 180)"

text \<open>Routes between the sixtieth parallels and away from the date line.\<close>

definition temperate :: "sim_path \<Rightarrow> bool" where
  "temperate p \<longleftrightarrow> (\<forall>q \<in> set (ph_points p). \<bar>fst q\<bar> \<le> 60 \<and> \<bar>snd q\<bar> \<le> 179)"

lemma cos_temperate: "\<bar>x\<bar> \<le> 60 \<Longrightarrow> 1 / 2 \<le> cos (radians x)"
proof -
  assume "\<bar>x\<bar> \<le> 60"
  then have "\<bar>x\<bar> * pi \<le> 60 * pi" by (intro mult_right_mono) auto
  then have "\<bar>radians x\<bar> \<le> pi / 3" by (simp add: radians_def abs_mult)
  then have "cos (pi / 3) \<le> cos \<bar>radians x\<bar>" by (intro cos_monotone_0_pi_le) auto
  then show ?thesis by (simp add: cos_60 cos_abs_real)
qed

lemma jitter_bounds:
  assumes "\<bar>lat\<bar> \<le> 60" "\<bar>lng\<bar> \<le> 179" "\<bar>fst u\<bar> \<le> 1" "\<bar>snd u\<bar> \<le> 1"
  shows "\<bar>fst (jitter u lat lng)\<bar> \<le> 90" "\<bar>snd (jitter u lat lng)\<bar> \<le> 180"
proof -
  have c: "1 / 2 \<le> cos (radians lat)" using assms(1) by (rule cos_temperate)
  have "\<bar>snd u * 12 / (111320 * cos (radians lat))\<bar> = \<bar>snd u\<bar> * 12 / (111320 * cos (radians lat))"
    using c by (simp add: abs_mult)
  also have "\<dots> \<le> 1" using c assms(4) by (simp add: divide_le_eq)
  finally have "\<bar>snd u * 12 / (111320 * cos (radians lat))\<bar> \<le> 1" .
  with assms(2) have "\<bar>lng + snd u * 12 / (111320 * cos (radians lat))\<bar> \<le> 180" by linarith
  then show "\<bar>snd (jitter u lat lng)\<bar> \<le> 180" by (simp only: jitter_def snd_conv)
  from assms show "\<bar>fst (jitter u lat lng)\<bar> \<le> 90" by (simp add: jitter_def)
qed

lemma path_at_temperate:
  assumes "path_ok p" "temperate p" "path_at p d = (lat, lng, heading)"
  shows "\<bar>lat\<bar> \<le> 60" "\<bar>lng\<bar> \<le> 179"
proof -
  from path_at_on_leg [OF assms(1), of d] obtain i where i: "Suc i < length (ph_points p)"
    "min (fst (ph_points p ! i)) (fst (ph_points p ! Suc i)) \<le> lat" "lat \<le> max (fst (ph_points p ! i)) (fst (ph_points p ! Suc i))"
    "min (snd (ph_points p ! i)) (snd (ph_points p ! Suc i)) \<le> lng" "lng \<le> max (snd (ph_points p ! i)) (snd (ph_points p ! Suc i))"
    using assms(3) by (metis prod.inject)
  have "ph_points p ! i \<in> set (ph_points p)" "ph_points p ! Suc i \<in> set (ph_points p)" using i(1) by auto
  with assms(2) have "\<bar>fst (ph_points p ! i)\<bar> \<le> 60" "\<bar>fst (ph_points p ! Suc i)\<bar> \<le> 60"
    "\<bar>snd (ph_points p ! i)\<bar> \<le> 179" "\<bar>snd (ph_points p ! Suc i)\<bar> \<le> 179" unfolding temperate_def by blast+
  with i(2 -) show "\<bar>lat\<bar> \<le> 60" "\<bar>lng\<bar> \<le> 179" by linarith+
qed

lemma sim_fix_in_range:
  assumes "path_ok p" "temperate p" "\<bar>fst (td_jitter td i)\<bar> \<le> 1" "\<bar>snd (td_jitter td i)\<bar> \<le> 1"
  shows "\<bar>gp_lat (sim_fix cfg td p t d i)\<bar> \<le> 90 \<and> \<bar>gp_lng (sim_fix cfg td p t d i)\<bar> \<le> 180"
proof -
  obtain lat lng heading where at: "path_at p (t + of_int d * (step_m cfg * (real i + 1) / real (FIXES_PER_BATCH cfg))) = (lat, lng, heading)"
    by (metis prod_cases3)
  note b = jitter_bounds [OF path_at_temperate [OF assms(1, 2) at] assms(3, 4)]
  have "gp_lat (sim_fix cfg td p t d i) = round_to 6 (fst (jitter (td_jitter td i) lat lng))"
    "gp_lng (sim_fix cfg td p t d i) = round_to 6 (snd (jitter (td_jitter td i) lat lng))"
    unfolding sim_fix_def Let_def at by (simp_all split: prod.split)
  with b show ?thesis
    using round_to_bounds [of "fst (jitter (td_jitter td i) lat lng)" 90 6] round_to_bounds [of "snd (jitter (td_jitter td i) lat lng)" 180 6]
    by simp
qed

text \<open>A batch is dated up to the clock: its last fix is now, and it is the one the API shows.\<close>

lemma newest_is_last:
  assumes "\<forall>p \<in> set ps. gp_ts p < gp_ts q"
  shows "newest_point (ps @ [q]) = Some q"
proof (cases ps)
  case (Cons a as)
  have "gp_ts b < gp_ts q \<Longrightarrow> \<forall>p \<in> set as. gp_ts p < gp_ts q \<Longrightarrow>
      gp_ts (foldl (\<lambda>best r. if gp_ts r > gp_ts best then r else best) b as) < gp_ts q" for b
    by (induction as arbitrary: b) auto
  with assms Cons show ?thesis by simp
qed simp

lemma sim_fix_time:
  "gp_ts (sim_fix cfg td p t d i) = offset_instant (td_now td) (- (real (FIXES_PER_BATCH cfg) - 1 - real i) * (TICK_S cfg / real (FIXES_PER_BATCH cfg)))"
  by (simp add: sim_fix_def Let_def split: prod.split)

lemma earlier_offset:
  assumes "1 \<le> k" "1 / 1000000 \<le> s"
  shows "offset_instant now (- k * s) < now"
proof -
  have "1 * (1 / 1000000) \<le> k * s" using assms by (intro mult_mono) auto
  then have "- k * s * of_int second \<le> of_int (- 1)" by simp
  from py_round_mono [OF this] have "py_round (- k * s * of_int second) \<le> - 1" by (simp only: py_round_of_int)
  then show ?thesis by (simp add: offset_instant_def)
qed

text \<open>
  What the simulator sends is what a phone would: a batch of a bus on its route passes the schema of
  the endpoint, and the fix shown on the map is the last, taken now, at the end of the step.
\<close>

theorem batch_is_acceptable:
  assumes "advance cfg td b = Inr (points, b')" "bus_on_route b" "sm_path b = Some p" "temperate p"
    "\<And>i. \<bar>fst (td_jitter td i)\<bar> \<le> 1 \<and> \<bar>snd (td_jitter td i)\<bar> \<le> 1" "FIXES_PER_BATCH cfg \<le> 50"
    "1 / 1000000 \<le> TICK_S cfg / real (FIXES_PER_BATCH cfg)"
  shows "gps_batch_ok points \<and> newest_point points = Some (last points) \<and> gp_ts (last points) = td_now td"
proof -
  from assms(1) obtain q where q: "sm_path b = Some q" "FIXES_PER_BATCH cfg \<noteq> 0"
    "points = map (sim_fix cfg td q (sm_travelled b) (sm_direction b)) [0 ..< FIXES_PER_BATCH cfg]" by (rule advance_cases)
  with assms(2, 3) have p: "path_ok p" "q = p" by (simp_all add: bus_on_route_def)
  from q(2) obtain n where n: "FIXES_PER_BATCH cfg = Suc n" by (cases "FIXES_PER_BATCH cfg") auto
  let ?fix = "sim_fix cfg td p (sm_travelled b) (sm_direction b)"
  have points: "points = map ?fix [0 ..< n] @ [?fix n]" using q(3) p(2) n by simp
  have now: "gp_ts (?fix n) = td_now td" by (simp add: sim_fix_time n offset_instant_def py_round_def)
  have "gp_ts (?fix i) < td_now td" if "i < n" for i
    unfolding sim_fix_time by (rule earlier_offset [OF _ assms(7)]) (use that in \<open>simp add: n\<close>)
  with now have "newest_point points = Some (?fix n)" unfolding points by (intro newest_is_last) auto
  moreover have "gps_batch_ok points"
    using sim_fix_in_range [OF p(1) assms(4)] assms(5, 6) q(2, 3) p(2) by (auto simp: gps_batch_ok_def)
  ultimately show ?thesis using now by (simp add: points)
qed

section \<open>Where the requests go\<close>

text \<open>
  \<open>base\<close> is the path part of \<^verbatim>\<open>SIM_API_URL\<close>: empty by default and in
  \<^verbatim>\<open>docker-compose.yml\<close>. The server answers 404 or 405 where it has no route, as Starlette does.
\<close>

definition answers_by_routes :: "app_settings \<Rightarrow> 'w api \<Rightarrow> bool" where
  "answers_by_routes app api \<longleftrightarrow>
     (\<forall>w rq res w'. api w rq = (Some res, w') \<longrightarrow> routes_for app (rq_method rq) (rq_path rq) = [] \<longrightarrow>
        rs_status res \<in> {404, 405})"

definition SIM_REQUESTS :: "(string \<times> string) list" where
  "SIM_REQUESTS =
     [(''POST'', ''/auth/login''), (''GET'', ''/helper/trips/active''), (''GET'', ''/fleet/buses''),
      (''POST'', ''/helper/trips/start''), (''GET'', ''/fleet/route-shapes''), (''POST'', ''/helper/gps''),
      (''POST'', ''/helper/seats'')]"

lemma path_matches_refl [simp]: "path_matches p p"
  by (auto simp: path_matches_def segment_matches_def list_all2_same)

lemma routed_under_the_prefix: "(m, p, d) \<in> set ROUTERS \<Longrightarrow> routes_for app m (API_V1_PREFIX @ p) \<noteq> []"
  by (force simp: routes_for_def served_routes_def filter_empty_conv)

lemma prefixed_requests_have_routes:
  "list_all (\<lambda>(m, p). routes_for app m (API_V1_PREFIX @ p) \<noteq> []) SIM_REQUESTS"
proof -
  have "list_all (\<lambda>(m, p). (m, p) \<in> set (map (\<lambda>(m, p, d). (m, p)) ROUTERS)) SIM_REQUESTS"
    by (simp add: SIM_REQUESTS_def ROUTERS_def router_defs)
  then have "\<exists>d. (m, p, d) \<in> set ROUTERS" if "(m, p) \<in> set SIM_REQUESTS" for m p
    using that by (fastforce simp: list_all_iff)
  then show ?thesis using routed_under_the_prefix [of _ _ _ app] by (fastforce simp: list_all_iff)
qed

lemma bare_requests_have_none: "list_all (\<lambda>(m, p). routes_for app m p = []) SIM_REQUESTS"
proof -
  have prefixed: "\<not> path_matches (API_V1_PREFIX @ p) q" if "q \<in> snd ` set SIM_REQUESTS" for p q
    using that by (auto simp: SIM_REQUESTS_def API_V1_PREFIX_def path_matches_def segment_matches_def)
  have docs: "\<not> path_matches p q" if "p = ''/health'' \<or> p \<in> set (docs_paths app)" "q \<in> snd ` set SIM_REQUESTS" for p q
    using that by (auto simp: SIM_REQUESTS_def docs_paths_def path_matches_def segment_matches_def split: if_splits)
  have "routes_for app m q = []" if "q \<in> snd ` set SIM_REQUESTS" for m q
    using prefixed [OF that] docs [OF _ that] by (auto simp: routes_for_def served_routes_def filter_empty_conv)
  then show ?thesis by (force simp: list_all_iff)
qed

text \<open>
  The simulator cannot sign in. The API serves every request of the script under
  \<^verbatim>\<open>/api/v1\<close> and none of them at its root, so with the address of
  \<^verbatim>\<open>docker-compose.yml\<close> the first login ends the run: one request is made, and no fix is posted.
\<close>

theorem simulator_cannot_sign_in:
  assumes "answers_by_routes app api" "sim_credentials helpers = (email, password) # others"
  shows "fst (sim_run api [] cfg helpers ad draws once n w) \<in> {Raised Sim_RuntimeError, Raised Sim_HTTPError} \<and>
    snd (sim_run api [] cfg helpers ad draws once n w) =
      snd (api w \<lparr>rq_method = ''POST'', rq_path = ''/auth/login'', rq_token = None, rq_payload = Credentials email password\<rparr>)"
proof -
  define rq where "rq = \<lparr>rq_method = ''POST'', rq_path = ''/auth/login'', rq_token = None, rq_payload = Credentials email password\<rparr>"
  obtain out w' where api: "api w rq = (out, w')" by fastforce
  have "routes_for app (rq_method rq) (rq_path rq) = []"
    using bare_requests_have_none [of app] by (simp add: SIM_REQUESTS_def rq_def)
  with assms(1) api have refused: "out = Some res \<Longrightarrow> rs_status res \<noteq> 200" for res
    unfolding answers_by_routes_def by fastforce
  have "login api [] (new_sim_bus email password) w =
      (case out of None \<Rightarrow> (Inl Sim_HTTPError, w') | Some _ \<Rightarrow> (Inl Sim_RuntimeError, w'))"
    using api refused by (simp add: login_def new_sim_bus_def rq_def split: option.split)
  then show ?thesis
    using assms(2) api by (simp add: sim_run_def rq_def [symmetric] split: option.split)
qed

end
