(* ===== verification/GpsHistory.thy ===== *)
theory GpsHistory
  imports EtaEngine
begin

text \<open>
  The position history: \<^verbatim>\<open>app/worker/gps_es_indexer.py\<close>, which carries the
  stream into Elasticsearch, and \<^verbatim>\<open>/track/nearby\<close> and
  \<^verbatim>\<open>/track/bus/{id}/history\<close>, which read it. A stream entry's id is its place in the
  stream. A consumer group knows how many entries it has handed out and which of them were not
  acknowledged; reading with \<^verbatim>\<open>>\<close> hands out new entries only. What a search answers
  is an argument.
\<close>

section \<open>From the stream to the index (app/worker/gps_es_indexer.py)\<close>

definition BATCH :: nat where "BATCH = 100"

record es_doc =
  ed_bus_id :: string
  ed_helper_id :: "string option"
  ed_trip_id :: "string option"
  ed_ts :: string
  ed_lat :: pyfloat
  ed_lon :: pyfloat
  ed_speed :: "pyfloat option"
  ed_heading :: "pyfloat option"
  ed_accuracy :: "pyfloat option"

definition to_float :: "string \<Rightarrow> py_error + pyfloat option" where
  "to_float v = (if v = [] then Inr None else (case py_float v of None \<Rightarrow> Inl ValueError | Some x \<Rightarrow> Inr (Some x)))"

definition float_field :: "(string \<times> string) list \<Rightarrow> string \<Rightarrow> py_error + pyfloat" where
  "float_field fs k =
     (case map_of fs k of
        None \<Rightarrow> Inl KeyError
      | Some v \<Rightarrow> (case py_float v of None \<Rightarrow> Inl ValueError | Some x \<Rightarrow> Inr x))"

definition opt_field_text :: "(string \<times> string) list \<Rightarrow> string \<Rightarrow> string" where
  "opt_field_text fs k = (case map_of fs k of None \<Rightarrow> '''' | Some v \<Rightarrow> v)"

definition to_doc :: "(string \<times> string) list \<Rightarrow> py_error + es_doc" where
  "to_doc fs =
     (case (map_of fs ''bus_id'', map_of fs ''ts'') of
        (Some bus, Some ts) \<Rightarrow>
          (case (float_field fs ''lat'', float_field fs ''lng'', to_float (opt_field_text fs ''speed''),
              to_float (opt_field_text fs ''heading''), to_float (opt_field_text fs ''accuracy'')) of
             (Inr lat, Inr lng, Inr speed, Inr heading, Inr accuracy) \<Rightarrow>
               Inr \<lparr>ed_bus_id = bus, ed_helper_id = map_of fs ''helper_id'',
                 ed_trip_id = (case map_of fs ''trip_id'' of None \<Rightarrow> None | Some t \<Rightarrow> if t = [] then None else Some t),
                 ed_ts = ts, ed_lat = lat, ed_lon = lng, ed_speed = speed, ed_heading = heading, ed_accuracy = accuracy\<rparr>
           | (Inl e, _) \<Rightarrow> Inl e
           | (_, Inl e, _) \<Rightarrow> Inl e
           | (_, _, Inl e, _) \<Rightarrow> Inl e
           | (_, _, _, Inl e, _) \<Rightarrow> Inl e
           | (_, _, _, _, Inl e) \<Rightarrow> Inl e)
      | _ \<Rightarrow> Inl KeyError)"

fun to_docs :: "(string \<times> string) list list \<Rightarrow> py_error + es_doc list" where
  "to_docs [] = Inr []"
| "to_docs (fs # rest) =
     (case to_doc fs of
        Inl e \<Rightarrow> Inl e
      | Inr d \<Rightarrow> (case to_docs rest of Inl e \<Rightarrow> Inl e | Inr ds \<Rightarrow> Inr (d # ds)))"

record es_group =
  gr_next :: nat
  gr_pending :: "nat list"

record indexer =
  ix_group :: "es_group option"
  ix_docs :: "nat \<Rightarrow> es_doc option"

definition ensure_group :: "indexer \<Rightarrow> indexer" where
  "ensure_group ix =
     (case ix_group ix of None \<Rightarrow> ix\<lparr>ix_group := Some \<lparr>gr_next = 0, gr_pending = []\<rparr>\<rparr> | Some _ \<Rightarrow> ix)"

fun index_docs :: "(nat \<times> es_doc) list \<Rightarrow> indexer \<Rightarrow> indexer" where
  "index_docs [] ix = ix"
| "index_docs ((i, d) # rest) ix = index_docs rest (ix\<lparr>ix_docs := (ix_docs ix)(i \<mapsto> d)\<rparr>)"

text \<open>
  One turn of the loop. The read may time out. The bulk request stores every document, or the
  first \<open>k\<close> of them and raises (\<open>Some k\<close>); the acknowledgement may fail. What is
  raised ends the process.
\<close>

datatype turn = Idle | Recreated | Indexed nat | Died

definition index_turn ::
  "bool \<Rightarrow> nat option \<Rightarrow> bool \<Rightarrow> (string \<times> string) list list \<Rightarrow> indexer \<Rightarrow> turn \<times> indexer" where
  "index_turn timeout bulk ack stream ix =
     (if timeout then (Idle, ix)
      else (case ix_group ix of
          None \<Rightarrow> (Recreated, ensure_group ix)
        | Some g \<Rightarrow>
            let ids = [gr_next g ..< min (gr_next g + BATCH) (length stream)] in
            if ids = [] then (Idle, ix)
            else
              let delivered = ix\<lparr>ix_group := Some \<lparr>gr_next = gr_next g + length ids, gr_pending = gr_pending g @ ids\<rparr>\<rparr> in
              (case to_docs (map (\<lambda>i. stream ! i) ids) of
                 Inl _ \<Rightarrow> (Died, delivered)
               | Inr docs \<Rightarrow>
                   (case bulk of
                      Some k \<Rightarrow> (Died, index_docs (take k (zip ids docs)) delivered)
                    | None \<Rightarrow>
                        let stored = index_docs (zip ids docs) delivered in
                        if \<not> ack then (Died, stored)
                        else (Indexed (length ids),
                          stored\<lparr>ix_group := Some \<lparr>gr_next = gr_next g + length ids, gr_pending = gr_pending g\<rparr>\<rparr>)))))"

section \<open>Nearby buses and a bus's path (app/api/routes/tracking.py)\<close>

text \<open>
  The search requests, as far as the answers depend on them. Elasticsearch itself is the argument
  \<open>search\<close> of the two handlers; what its client raises is not caught by them.
\<close>

datatype es_filter =
    Es_term string string
  | Es_within "real \<times> real" real
  | Es_since instant
  | Es_between instant instant

datatype es_sort = Es_newest_first | Es_oldest_first | Es_nearest_first "real \<times> real"

record es_query =
  eq_filters :: "es_filter list"
  eq_collapse :: "string option"
  eq_sort :: "es_sort list"
  eq_size :: nat

definition NEARBY_FRESH_S :: int where "NEARBY_FRESH_S = 120"

definition build_nearby_query :: "real \<times> real \<Rightarrow> real \<Rightarrow> instant \<Rightarrow> nat \<Rightarrow> es_query" where
  "build_nearby_query origin radius_km cutoff limit =
     \<lparr>eq_filters = [Es_within origin radius_km, Es_since cutoff], eq_collapse = Some ''bus_id'',
       eq_sort = [Es_newest_first, Es_nearest_first origin], eq_size = limit\<rparr>"

record nearby_bus =
  nb_bus_id :: jval
  nb_location :: doc
  nb_ts :: jval
  nb_speed :: jval
  nb_distance_km :: real

record nearby_out =
  no_origin :: "real \<times> real"
  no_radius_km :: real
  no_count :: nat
  no_buses :: "nearby_bus list"

definition subscript :: "doc \<Rightarrow> string \<Rightarrow> py_error + jval" where
  "subscript d k = (case map_of d k of None \<Rightarrow> Inl KeyError | Some v \<Rightarrow> Inr v)"

fun try_map :: "('a \<Rightarrow> py_error + 'b option) \<Rightarrow> 'a list \<Rightarrow> py_error + 'b list" where
  "try_map f [] = Inr []"
| "try_map f (x # xs) =
     (case f x of
        Inl e \<Rightarrow> Inl e
      | Inr y \<Rightarrow> (case try_map f xs of Inl e \<Rightarrow> Inl e | Inr ys \<Rightarrow> Inr (case y of None \<Rightarrow> ys | Some z \<Rightarrow> z # ys)))"

text \<open>Each hit comes with the distance Elasticsearch computed, the second of its sort values.\<close>

definition nearby_row :: "es_source \<times> real \<Rightarrow> py_error + nearby_bus option" where
  "nearby_row hit =
     (case hit of (s, distance) \<Rightarrow>
        (case (subscript (so_fields s) ''bus_id'', so_location s, subscript (so_fields s) ''ts'') of
           (Inr bus, Some location, Inr ts) \<Rightarrow>
             Inr (Some \<lparr>nb_bus_id = bus, nb_location = location, nb_ts = ts, nb_speed = doc_get (so_fields s) ''speed'',
               nb_distance_km = of_int (py_round (distance * 1000)) / 1000\<rparr>)
         | _ \<Rightarrow> Inl KeyError))"

definition nearby_buses ::
  "(es_query \<Rightarrow> py_error + (es_source \<times> real) list) \<Rightarrow> instant \<Rightarrow> real \<Rightarrow> real \<Rightarrow> real \<Rightarrow> nat \<Rightarrow> handler_error + nearby_out" where
  "nearby_buses search now lat lng radius_km limit =
     (case search (build_nearby_query (lat, lng) radius_km (now - NEARBY_FRESH_S * second) limit) of
        Inl e \<Rightarrow> Inl (Uncaught e)
      | Inr hits \<Rightarrow>
          (case try_map nearby_row hits of
             Inl e \<Rightarrow> Inl (Uncaught e)
           | Inr buses \<Rightarrow> Inr \<lparr>no_origin = (lat, lng), no_radius_km = radius_km, no_count = length buses,
               no_buses = sort_key nb_distance_km buses\<rparr>))"

record gps_path_point =
  gq_timestamp :: instant
  gq_latitude :: pyfloat
  gq_longitude :: pyfloat
  gq_speed :: "pyfloat option"
  gq_heading :: "pyfloat option"
  gq_accuracy :: "pyfloat option"

record bus_history_path_out =
  bh_bus_id :: uuid
  bh_trip_id :: "uuid option"
  bh_from_timestamp :: instant
  bh_to_timestamp :: instant
  bh_point_count :: nat
  bh_path :: "gps_path_point list"

definition trip_for_bus :: "database \<Rightarrow> uuid \<Rightarrow> uuid \<Rightarrow> trip option" where
  "trip_for_bus db trip_id bus_id = find (\<lambda>t. tr_id t = trip_id \<and> tr_bus_id t = bus_id) (db_trips db)"

text \<open>A falsy number (absent, null or zero) is left out.\<close>

definition opt_number :: "doc \<Rightarrow> string \<Rightarrow> py_error + pyfloat option" where
  "opt_number d k =
     (if truthy (doc_get d k)
      then (case py_float_of (doc_get d k) of Inl e \<Rightarrow> Inl e | Inr x \<Rightarrow> Inr (Some x))
      else Inr None)"

definition number_at :: "doc \<Rightarrow> string \<Rightarrow> py_error + pyfloat" where
  "number_at d k = (case subscript d k of Inl e \<Rightarrow> Inl e | Inr v \<Rightarrow> py_float_of v)"

definition replace_z :: "string \<Rightarrow> string" where
  "replace_z t = concat (map (\<lambda>c. if c = CHR ''Z'' then ''+00:00'' else [c]) t)"

text \<open>
  A hit whose instant cannot be read is skipped; one without its position ends the request.
\<close>

definition path_point :: "(string \<Rightarrow> instant option) \<Rightarrow> es_source \<Rightarrow> py_error + gps_path_point option" where
  "path_point iso_of s =
     (case (case doc_get_or (so_fields s) ''ts'' (JStr '''') of JStr t \<Rightarrow> iso_of (replace_z t) | _ \<Rightarrow> None) of
        None \<Rightarrow> Inr None
      | Some ts \<Rightarrow>
          (case so_location s of
             None \<Rightarrow> Inl KeyError
           | Some location \<Rightarrow>
               (case (number_at location ''lat'', number_at location ''lon'', opt_number (so_fields s) ''speed'',
                   opt_number (so_fields s) ''heading'', opt_number (so_fields s) ''accuracy'') of
                  (Inr lat, Inr lng, Inr speed, Inr heading, Inr accuracy) \<Rightarrow>
                    Inr (Some \<lparr>gq_timestamp = ts, gq_latitude = lat, gq_longitude = lng, gq_speed = speed,
                      gq_heading = heading, gq_accuracy = accuracy\<rparr>)
                | (Inl e, _) \<Rightarrow> Inl e
                | (_, Inl e, _) \<Rightarrow> Inl e
                | (_, _, Inl e, _) \<Rightarrow> Inl e
                | (_, _, _, Inl e, _) \<Rightarrow> Inl e
                | (_, _, _, _, Inl e) \<Rightarrow> Inl e)))"

definition trip_id_of_hits :: "(string \<Rightarrow> uuid option) \<Rightarrow> es_source list \<Rightarrow> py_error + uuid option" where
  "trip_id_of_hits uuid_of hits =
     (case find truthy (map (\<lambda>s. doc_get (so_fields s) ''trip_id'') hits) of
        None \<Rightarrow> Inr None
      | Some (JStr t) \<Rightarrow> Inr (uuid_of t)
      | Some _ \<Rightarrow> Inl AttributeError)"

definition history_query :: "(uuid \<Rightarrow> string) \<Rightarrow> uuid \<Rightarrow> instant \<Rightarrow> instant \<Rightarrow> uuid option \<Rightarrow> nat \<Rightarrow> es_query" where
  "history_query uuid_text bus_id from_ts to_ts trip_id limit =
     \<lparr>eq_filters = [Es_term ''bus_id'' (uuid_text bus_id), Es_between from_ts to_ts] @
         (case trip_id of None \<Rightarrow> [] | Some t \<Rightarrow> [Es_term ''trip_id'' (uuid_text t)]),
       eq_collapse = None, eq_sort = [Es_oldest_first], eq_size = limit\<rparr>"

definition get_bus_history_path ::
  "(uuid \<Rightarrow> string) \<Rightarrow> (string \<Rightarrow> uuid option) \<Rightarrow> (string \<Rightarrow> instant option) \<Rightarrow> (es_query \<Rightarrow> py_error + es_source list) \<Rightarrow>
   database \<Rightarrow> uuid \<Rightarrow> instant \<Rightarrow> instant \<Rightarrow> uuid option \<Rightarrow> nat \<Rightarrow> handler_error + bus_history_path_out" where
  "get_bus_history_path uuid_text uuid_of iso_of search db bus_id from_ts to_ts trip_id limit =
     (if get_bus db bus_id = None then Inl (Http (HTTPException 404 (''Bus '' @ uuid_text bus_id @ '' not found'')))
      else if to_ts \<le> from_ts then Inl (Http (HTTPException 400 ''from_timestamp must be before to_timestamp''))
      else if (case trip_id of None \<Rightarrow> False | Some t \<Rightarrow> trip_for_bus db t bus_id = None)
      then Inl (Http (HTTPException 404 (''Trip '' @ uuid_text (the trip_id) @ '' not found for bus '' @ uuid_text bus_id)))
      else
        (case search (history_query uuid_text bus_id from_ts to_ts trip_id limit) of
           Inl e \<Rightarrow> Inl (Uncaught e)
         | Inr hits \<Rightarrow>
             (case (try_map (path_point iso_of) hits, trip_id_of_hits uuid_of hits) of
                (Inl e, _) \<Rightarrow> Inl (Uncaught e)
              | (Inr _, Inl e) \<Rightarrow> Inl (Uncaught e)
              | (Inr path, Inr t) \<Rightarrow>
                  Inr \<lparr>bh_bus_id = bus_id, bh_trip_id = t, bh_from_timestamp = from_ts, bh_to_timestamp = to_ts,
                    bh_point_count = length path, bh_path = path\<rparr>)))"

section \<open>A fix through the pipeline\<close>

text \<open>
  The document as the search returns it: Elasticsearch prints a number as \<open>num_text\<close> does.
\<close>

definition source_of :: "(pyfloat \<Rightarrow> string) \<Rightarrow> es_doc \<Rightarrow> es_source" where
  "source_of num_text d =
     (let text = (\<lambda>x. case x of None \<Rightarrow> JNull | Some s \<Rightarrow> JStr s); num = (\<lambda>x. case x of None \<Rightarrow> JNull | Some y \<Rightarrow> JFloat (num_text y)) in
      \<lparr>so_fields = [(''bus_id'', JStr (ed_bus_id d)), (''helper_id'', text (ed_helper_id d)), (''trip_id'', text (ed_trip_id d)),
         (''ts'', JStr (ed_ts d)), (''speed'', num (ed_speed d)), (''heading'', num (ed_heading d)), (''accuracy'', num (ed_accuracy d))],
       so_location = Some [(''lat'', JFloat (num_text (ed_lat d))), (''lon'', JFloat (num_text (ed_lon d)))]\<rparr>)"

definition prints_exactly :: "(real \<Rightarrow> string) \<Rightarrow> real \<Rightarrow> bool" where
  "prints_exactly float_text x \<longleftrightarrow> float_text x \<noteq> [] \<and> (\<exists>y. py_float (float_text x) = Some y \<and> dec_val y = Some x)"

definition readable :: "(real \<Rightarrow> string) \<Rightarrow> real option \<Rightarrow> bool" where
  "readable float_text x = (case x of None \<Rightarrow> True | Some v \<Rightarrow> py_float (float_text v) \<noteq> None)"

lemma to_float_opt:
  "readable float_text x \<Longrightarrow> \<exists>y. to_float (opt_text float_text x) = Inr y"
  by (auto simp: readable_def to_float_def opt_text_def split: option.splits)

lemma to_float_printed: "to_float (opt_text float_text x) = Inr (Some z) \<Longrightarrow> \<exists>v. py_float (float_text v) = Some z"
  by (auto simp: to_float_def opt_text_def split: option.splits if_splits)

lemma opt_number_num:
  "doc_get fs k = (case x of None \<Rightarrow> JNull | Some z \<Rightarrow> JFloat (num_text z)) \<Longrightarrow>
   (\<And>z. x = Some z \<Longrightarrow> py_float (num_text z) = Some z) \<Longrightarrow> \<exists>y. opt_number fs k = Inr y"
  by (cases x) (simp_all add: opt_number_def)

lemma replace_z_id: "CHR ''Z'' \<notin> set t \<Longrightarrow> replace_z t = t"
  by (induction t) (auto simp: replace_z_def)

lemma doc_of_point:
  assumes "prints_exactly float_text (gp_lat p)" "prints_exactly float_text (gp_lng p)"
    and "readable float_text (gp_speed p)" "readable float_text (gp_heading p)" "readable float_text (gp_accuracy p)"
  obtains d :: es_doc and x y where "to_doc (stream_fields uuid_text float_text iso_text bus_id helper_id trip_id p) = Inr d"
    "ed_ts d = iso_text (gp_ts p)" "ed_bus_id d = uuid_text bus_id" "ed_helper_id d = Some (uuid_text helper_id)"
    "ed_trip_id d = (if uuid_text trip_id = [] then None else Some (uuid_text trip_id))"
    "ed_lat d = x" "dec_val x = Some (gp_lat p)" "ed_lon d = y" "dec_val y = Some (gp_lng p)"
    "py_float (float_text (gp_lat p)) = Some x" "py_float (float_text (gp_lng p)) = Some y"
    "\<forall>z. Some z \<in> {ed_speed d, ed_heading d, ed_accuracy d} \<longrightarrow> (\<exists>v. py_float (float_text v) = Some z)"
proof -
  let ?fs = "stream_fields uuid_text float_text iso_text bus_id helper_id trip_id p"
  obtain x y where xy: "py_float (float_text (gp_lat p)) = Some x" "dec_val x = Some (gp_lat p)"
    "py_float (float_text (gp_lng p)) = Some y" "dec_val y = Some (gp_lng p)"
    using assms(1,2) by (auto simp: prints_exactly_def)
  obtain s h a where sha: "to_float (opt_text float_text (gp_speed p)) = Inr s" "to_float (opt_text float_text (gp_heading p)) = Inr h"
    "to_float (opt_text float_text (gp_accuracy p)) = Inr a"
    using assms(3-5) to_float_opt by metis
  then have printed: "\<forall>z. Some z \<in> {s, h, a} \<longrightarrow> (\<exists>v. py_float (float_text v) = Some z)"
    by (auto dest: to_float_printed)
  from xy sha have doc: "to_doc ?fs = Inr \<lparr>ed_bus_id = uuid_text bus_id, ed_helper_id = Some (uuid_text helper_id),
      ed_trip_id = (if uuid_text trip_id = [] then None else Some (uuid_text trip_id)), ed_ts = iso_text (gp_ts p),
      ed_lat = x, ed_lon = y, ed_speed = s, ed_heading = h, ed_accuracy = a\<rparr>"
    by (simp add: to_doc_def stream_fields_def float_field_def opt_field_text_def)
  show ?thesis by (rule that [OF doc, of x y]) (use printed in \<open>simp_all only: xy es_doc.simps\<close>)
qed

text \<open>
  A position survives the whole way from the phone to the engine. The stream entry the
  helper's endpoint appends is one the indexer can read, the document it indexes is filed under the
  same bus and trip, and when a search returns that document the arrival engine reads off it the
  point the phone sent, and the history endpoint draws it there: its latitude, longitude and instant.
\<close>

theorem fix_survives_the_pipeline:
  assumes "prints_exactly float_text (gp_lat p)" "prints_exactly float_text (gp_lng p)"
    and "readable float_text (gp_speed p)" "readable float_text (gp_heading p)" "readable float_text (gp_accuracy p)"
    and "iso_of (iso_text (gp_ts p)) = Some (gp_ts p)" "uuid_text trip_id \<noteq> []"
    and "\<And>v x. py_float (float_text v) = Some x \<Longrightarrow> py_float (num_text x) = Some x"
    and "CHR ''Z'' \<notin> set (iso_text (gp_ts p))"
  shows "\<exists>d. to_doc (stream_fields uuid_text float_text iso_text bus_id helper_id trip_id p) = Inr d \<and>
    ed_bus_id d = uuid_text bus_id \<and> ed_trip_id d = Some (uuid_text trip_id) \<and>
    fix_of_source iso_of (source_of num_text d) = Inr (Some \<lparr>fx_lat = gp_lat p, fx_lng = gp_lng p, fx_ts = gp_ts p\<rparr>) \<and>
    (\<exists>pt. path_point iso_of (source_of num_text d) = Inr (Some pt) \<and> gq_timestamp pt = gp_ts p \<and>
      dec_val (gq_latitude pt) = Some (gp_lat p) \<and> dec_val (gq_longitude pt) = Some (gp_lng p))"
proof -
  obtain d :: es_doc and x y where d: "to_doc (stream_fields uuid_text float_text iso_text bus_id helper_id trip_id p) = Inr d"
    "ed_ts d = iso_text (gp_ts p)" "ed_bus_id d = uuid_text bus_id" "ed_trip_id d = Some (uuid_text trip_id)"
    "ed_lat d = x" "dec_val x = Some (gp_lat p)" "ed_lon d = y" "dec_val y = Some (gp_lng p)"
    "py_float (float_text (gp_lat p)) = Some x" "py_float (float_text (gp_lng p)) = Some y"
    "\<forall>z. Some z \<in> {ed_speed d, ed_heading d, ed_accuracy d} \<longrightarrow> (\<exists>v. py_float (float_text v) = Some z)"
    using assms(7) by (rule_tac doc_of_point [OF assms(1-5), of uuid_text iso_text bus_id helper_id trip_id]) simp
  let ?s = "source_of num_text d"
  have xy: "py_float (num_text x) = Some x" "py_float (num_text y) = Some y"
    using d(9,10) assms(8) by blast+
  have again: "py_float (num_text z) = Some z" if "Some z \<in> {ed_speed d, ed_heading d, ed_accuracy d}" for z
    using d(11) that assms(8) by blast
  have "\<exists>y. opt_number (so_fields ?s) ''speed'' = Inr y"
    by (rule opt_number_num [where x = "ed_speed d"]) (simp add: source_of_def doc_get_def Let_def, rule again, simp)
  moreover have "\<exists>y. opt_number (so_fields ?s) ''heading'' = Inr y"
    by (rule opt_number_num [where x = "ed_heading d"]) (simp add: source_of_def doc_get_def Let_def, rule again, simp)
  moreover have "\<exists>y. opt_number (so_fields ?s) ''accuracy'' = Inr y"
    by (rule opt_number_num [where x = "ed_accuracy d"]) (simp add: source_of_def doc_get_def Let_def, rule again, simp)
  ultimately obtain sp he ac where nums: "opt_number (so_fields ?s) ''speed'' = Inr sp"
    "opt_number (so_fields ?s) ''heading'' = Inr he" "opt_number (so_fields ?s) ''accuracy'' = Inr ac" by auto
  have ts: "doc_get_or (so_fields ?s) ''ts'' (JStr '''') = JStr (iso_text (gp_ts p))"
    by (simp add: source_of_def doc_get_or_def Let_def d(2))
  have loc: "so_location ?s = Some [(''lat'', JFloat (num_text x)), (''lon'', JFloat (num_text y))]"
    by (simp add: source_of_def Let_def d(5,7))
  have "path_point iso_of ?s = Inr (Some \<lparr>gq_timestamp = gp_ts p, gq_latitude = x, gq_longitude = y, gq_speed = sp,
      gq_heading = he, gq_accuracy = ac\<rparr>)"
    by (simp add: path_point_def ts loc nums xy replace_z_id [OF assms(9)] assms(6) number_at_def subscript_def)
  then have "\<exists>pt. path_point iso_of ?s = Inr (Some pt) \<and> gq_timestamp pt = gp_ts p \<and>
      dec_val (gq_latitude pt) = Some (gp_lat p) \<and> dec_val (gq_longitude pt) = Some (gp_lng p)"
    using d(6,8) by simp
  moreover from xy have "fix_of_source iso_of (source_of num_text d) = Inr (Some \<lparr>fx_lat = gp_lat p, fx_lng = gp_lng p, fx_ts = gp_ts p\<rparr>)"
    using d(1-8) assms(6) by (simp add: fix_of_source_def source_of_def doc_get_def Let_def)
  ultimately show ?thesis using d(1,3,4) by blast
qed

section \<open>The index is the stream's\<close>

text \<open>
  Every document is the translation of the stream entry of its id, so indexing an entry again
  changes nothing; and every entry handed out is indexed or still pending.
\<close>

definition index_ok :: "(string \<times> string) list list \<Rightarrow> indexer \<Rightarrow> bool" where
  "index_ok stream ix \<longleftrightarrow>
     (\<forall>i d. ix_docs ix i = Some d \<longrightarrow> i < length stream \<and> to_doc (stream ! i) = Inr d) \<and>
     (\<forall>g. ix_group ix = Some g \<longrightarrow> gr_next g \<le> length stream \<and>
        (\<forall>i < gr_next g. i \<in> set (gr_pending g) \<or> ix_docs ix i \<noteq> None))"

lemma to_docs_nth:
  "to_docs fss = Inr ds \<Longrightarrow> length ds = length fss \<and> (\<forall>i < length fss. to_doc (fss ! i) = Inr (ds ! i))"
proof (induction fss arbitrary: ds)
  case (Cons fs fss)
  then obtain d ds' where "to_doc fs = Inr d" "to_docs fss = Inr ds'" "ds = d # ds'"
    by (auto split: sum.splits)
  with Cons.IH [of ds'] show ?case by (auto simp: nth_Cons split: nat.split)
qed simp

lemma index_docs_group [simp]: "ix_group (index_docs xs ix) = ix_group ix"
  by (induction xs ix rule: index_docs.induct) simp_all

lemma index_docs_get:
  "distinct (map fst xs) \<Longrightarrow> ix_docs (index_docs xs ix) i = (case map_of xs i of Some d \<Rightarrow> Some d | None \<Rightarrow> ix_docs ix i)"
proof (induction xs ix rule: index_docs.induct)
  case (2 j d rest ix)
  then show ?case by (auto simp: map_of_eq_None_iff [THEN iffD2] split: option.split)
qed simp

lemma index_docs_ok:
  assumes "index_ok stream ix" "\<forall>(i, d) \<in> set xs. i < length stream \<and> to_doc (stream ! i) = Inr d"
  shows "index_ok stream (index_docs xs ix)"
  using assms
proof (induction xs ix rule: index_docs.induct)
  case (2 i d rest ix)
  have "index_ok stream (ix\<lparr>ix_docs := (ix_docs ix)(i \<mapsto> d)\<rparr>)"
    using 2(2,3) by (auto simp: index_ok_def)
  with 2 show ?case by simp
qed simp

text \<open>What can happen to the indexer: a turn of its loop, new entries, and a lost group.\<close>

inductive index_step :: "(string \<times> string) list list \<times> indexer \<Rightarrow> (string \<times> string) list list \<times> indexer \<Rightarrow> bool" where
  turn: "index_turn timeout bulk ack stream ix = (answer, ix') \<Longrightarrow> index_step (stream, ix) (stream, ix')"
| append: "index_step (stream, ix) (stream @ entries, ix)"
| group_lost: "index_step (stream, ix) (stream, ix\<lparr>ix_group := None\<rparr>)"


text \<open>What a turn that handed out entries did.\<close>

lemma turn_cases:
  assumes "index_turn timeout bulk ack stream ix = (answer, ix')"
  obtains (nothing) "ix' = ix" | (recreated) "ix_group ix = None" "ix' = ensure_group ix"
  | (handed) g n docs where "ix_group ix = Some g" "gr_next g + n \<le> length stream"
      "ix_docs ix' = ix_docs (index_docs docs ix)"
      "sorted (map fst docs)" "distinct (map fst docs)" "set (map fst docs) \<subseteq> {gr_next g ..< gr_next g + n}"
      "\<forall>(i, d) \<in> set docs. to_doc (stream ! i) = Inr d"
      "ix_group ix' = Some \<lparr>gr_next = gr_next g + n, gr_pending = gr_pending g @ [gr_next g ..< gr_next g + n]\<rparr> \<or>
       ix_group ix' = Some \<lparr>gr_next = gr_next g + n, gr_pending = gr_pending g\<rparr> \<and> map fst docs = [gr_next g ..< gr_next g + n]"
proof (cases "timeout \<or> ix_group ix = None \<or> (\<exists>g. ix_group ix = Some g \<and> [gr_next g ..< min (gr_next g + BATCH) (length stream)] = [])")
  case True
  then have "ix' = ix \<or> ix_group ix = None \<and> ix' = ensure_group ix"
    using assms by (auto simp: index_turn_def Let_def split: if_splits option.splits)
  then show ?thesis
  proof (elim disjE conjE)
    assume "ix' = ix"
    then show ?thesis by (rule nothing)
  next
    assume "ix_group ix = None" "ix' = ensure_group ix"
    then show ?thesis by (rule recreated)
  qed
next
  case False
  then obtain g where g: "ix_group ix = Some g" and new: "gr_next g < min (gr_next g + BATCH) (length stream)" and t: "\<not> timeout"
    by (auto simp: not_le simp del: min_less_iff_conj)
  define n where "n = min (gr_next g + BATCH) (length stream) - gr_next g"
  have n: "min (gr_next g + BATCH) (length stream) = gr_next g + n" "gr_next g + n \<le> length stream" "0 < n"
    using new by (auto simp: n_def)
  let ?ids = "[gr_next g ..< gr_next g + n]"
  let ?delivered = "ix\<lparr>ix_group := Some \<lparr>gr_next = gr_next g + n, gr_pending = gr_pending g @ ?ids\<rparr>\<rparr>"
  have same: "ix_docs (index_docs xs ?delivered) = ix_docs (index_docs xs ix)" if "distinct (map fst xs)" for xs
    by (rule ext) (simp add: index_docs_get [OF that] split: option.split)
  show ?thesis
  proof (cases "to_docs (map (\<lambda>i. stream ! i) ?ids)")
    case (Inl e)
    with assms g t n have "ix' = ?delivered" by (simp add: index_turn_def Let_def)
    with g n(2) show ?thesis by (intro handed [of g n "[]"]) simp_all
  next
    case (Inr docs)
    note dn = to_docs_nth [OF Inr]
    have zip: "map fst (zip ?ids docs) = ?ids" using dn by simp
    have all: "\<forall>(i, d) \<in> set (zip ?ids docs). to_doc (stream ! i) = Inr d"
      using dn by (auto simp: set_zip)
    show ?thesis
    proof (cases bulk)
      case (Some k)
      with assms g t n Inr have ix': "ix' = index_docs (take k (zip ?ids docs)) ?delivered"
        by (simp add: index_turn_def Let_def)
      have ids: "map fst (take k (zip ?ids docs)) = take k ?ids" by (simp add: take_map [symmetric] zip)
      then have d: "distinct (map fst (take k (zip ?ids docs)))" by simp
      from ids d all g n(2) show ?thesis
        by (intro handed [of g n "take k (zip ?ids docs)"])
          (auto simp: ix' same [OF d] sorted_wrt_take dest: in_set_takeD)
    next
      case None
      have d: "distinct (map fst (zip ?ids docs))" unfolding zip by simp
      from None assms g t n Inr have "ix' = index_docs (zip ?ids docs) ?delivered \<or>
          ix' = (index_docs (zip ?ids docs) ?delivered)\<lparr>ix_group := Some \<lparr>gr_next = gr_next g + n, gr_pending = gr_pending g\<rparr>\<rparr>"
        by (auto simp: index_turn_def Let_def split: if_splits)
      with d all g n(2) zip show ?thesis
        by (intro handed [of g n "zip ?ids docs"]) (auto simp: same [OF d] simp del: map_fst_zip)
    qed
  qed
qed

lemma docs_extend:
  assumes "distinct (map fst xs)" "ix_docs ix' = ix_docs (index_docs xs ix)" "i \<notin> set (map fst xs)"
  shows "ix_docs ix' i = ix_docs ix i"
  using assms by (simp add: index_docs_get map_of_eq_None_iff [THEN iffD2])

lemma index_step_ok: "index_step s t \<Longrightarrow> index_ok (fst s) (snd s) \<Longrightarrow> index_ok (fst t) (snd t)"
proof (induction rule: index_step.induct)
  case (turn timeout bulk ack stream ix answer ix')
  from turn.hyps show ?case
  proof (cases rule: turn_cases)
    case nothing
    with turn.prems show ?thesis by simp
  next
    case recreated
    with turn.prems show ?thesis by (auto simp: ensure_group_def index_ok_def)
  next
    case (handed g n docs)
    have "\<forall>(i, d) \<in> set docs. i < length stream \<and> to_doc (stream ! i) = Inr d"
      using handed(2,6,7) by fastforce
    then have ok: "index_ok stream (index_docs docs ix)"
      using turn.prems by (intro index_docs_ok) simp_all
    have old: "ix_docs ix' i \<noteq> None" if "ix_docs ix i \<noteq> None" for i
      using that by (simp add: handed(3) index_docs_get [OF handed(5)] split: option.split)
    have new: "ix_docs ix' i \<noteq> None" if m: "i \<in> set (map fst docs)" for i
    proof -
      obtain d where "map_of docs i = Some d" using m map_of_eq_None_iff [of docs i] by (cases "map_of docs i") simp_all
      then show ?thesis by (simp add: handed(3) index_docs_get [OF handed(5)])
    qed
    have "i \<in> set (gr_pending h) \<or> ix_docs ix' i \<noteq> None" if h: "ix_group ix' = Some h" "i < gr_next h" for h i
    proof (cases "i < gr_next g")
      case True
      then have "i \<in> set (gr_pending g) \<or> ix_docs ix i \<noteq> None" using turn.prems handed(1) by (auto simp: index_ok_def)
      then show ?thesis using h handed(8) old by auto
    next
      case False
      show ?thesis using handed(8)
      proof
        assume "ix_group ix' = Some \<lparr>gr_next = gr_next g + n, gr_pending = gr_pending g @ [gr_next g ..< gr_next g + n]\<rparr>"
        with h False show ?thesis by auto
      next
        assume a: "ix_group ix' = Some \<lparr>gr_next = gr_next g + n, gr_pending = gr_pending g\<rparr> \<and> map fst docs = [gr_next g ..< gr_next g + n]"
        with h False have "i \<in> set (map fst docs)" by auto
        then show ?thesis using new by blast
      qed
    qed
    moreover have "gr_next h \<le> length stream" if "ix_group ix' = Some h" for h using that handed(2,8) by auto
    ultimately show ?thesis using ok handed(3) by (simp add: index_ok_def)
  qed
next
  case (append stream ix entries)
  then show ?case by (fastforce simp: index_ok_def nth_append)
next
  case (group_lost stream ix)
  then show ?case by (simp add: index_ok_def)
qed

interpretation index_machine: guarded_machine index_step "\<lambda>s. index_ok (fst s) (snd s)"
  by unfold_locales (rule index_step_ok)

text \<open>
  The index is a faithful copy: however often entries were handed out, stored in part,
  replayed after a lost group or appended, each document is the translation of the stream entry of
  its id, and every entry handed out is indexed or still pending.
\<close>

theorem index_mirrors_the_stream:
  assumes "index_step\<^sup>*\<^sup>* ([], \<lparr>ix_group = None, ix_docs = Map.empty\<rparr>) (stream, ix)"
  shows "(\<forall>i d. ix_docs ix i = Some d \<longrightarrow> i < length stream \<and> to_doc (stream ! i) = Inr d) \<and>
    (\<forall>g i. ix_group ix = Some g \<longrightarrow> i < gr_next g \<longrightarrow> i \<in> set (gr_pending g) \<or> ix_docs ix i \<noteq> None)"
proof -
  have "index_ok [] \<lparr>ix_group = None, ix_docs = Map.empty\<rparr>" by (simp add: index_ok_def)
  then have "index_ok stream ix" using index_machine.run_inv [OF assms] by simp
  then show ?thesis by (auto simp: index_ok_def)
qed

text \<open>
  But what a raised bulk request left pending is never asked for again: the loop reads new
  entries only, so unless the whole group is lost the entries of that batch stay out of the index.
\<close>

theorem failed_batch_is_never_indexed:
  assumes "(\<lambda>s t. index_step s t \<and> ix_group (snd t) \<noteq> None)\<^sup>*\<^sup>* (stream, ix) (stream', ix')"
    and "ix_group ix = Some g" "i < gr_next g" "i \<in> set (gr_pending g)" "ix_docs ix i = None"
  shows "\<exists>g'. ix_group ix' = Some g' \<and> i < gr_next g' \<and> i \<in> set (gr_pending g') \<and> ix_docs ix' i = None"
proof -
  let ?P = "\<lambda>s :: (string \<times> string) list list \<times> indexer.
    \<exists>g. ix_group (snd s) = Some g \<and> i < gr_next g \<and> i \<in> set (gr_pending g) \<and> ix_docs (snd s) i = None"
  have keeps: "?P t" if "index_step s t" "ix_group (snd t) \<noteq> None" "?P s" for s t
    using that
  proof (induction rule: index_step.induct)
    case (turn timeout bulk ack stream ix answer ix')
    then obtain g where g: "ix_group ix = Some g" "i < gr_next g" "i \<in> set (gr_pending g)" "ix_docs ix i = None" by auto
    from turn.hyps show ?case
    proof (cases rule: turn_cases)
      case (handed h n docs)
      have "i \<notin> set (map fst docs)" using handed(1,6) g(1,2) by auto
      then have "ix_docs ix' i = None" using docs_extend [OF handed(5,3)] g(4) by simp
      then show ?thesis using handed(1,8) g by auto
    qed (use g in auto)
  qed simp_all
  have start: "?P (stream, ix)" using assms(2-5) by simp
  have "?P s" if "(\<lambda>s t. index_step s t \<and> ix_group (snd t) \<noteq> None)\<^sup>*\<^sup>* (stream, ix) s" for s
    using that
  proof (induction rule: rtranclp_induct)
    case base
    show ?case by (rule start)
  next
    case (step s t)
    then show ?case using keeps [of s t] by blast
  qed
  from this [OF assms(1)] show ?thesis by simp
qed


theorem fix_survives_the_pipeline_witness:
  "\<exists>d. to_doc (stream_fields unary_text (\<lambda>_. ''1'') tally_iso_text 31 21 71 (demo_point\<lparr>gp_lat := 1, gp_lng := 1\<rparr>)) = Inr d \<and>
    ed_bus_id d = unary_text 31 \<and> ed_trip_id d = Some (unary_text 71) \<and>
    fix_of_source tally_iso_of (source_of (\<lambda>_. ''1'') d) = Inr (Some \<lparr>fx_lat = 1, fx_lng = 1, fx_ts = demo_now\<rparr>) \<and>
    (\<exists>pt. path_point tally_iso_of (source_of (\<lambda>_. ''1'') d) = Inr (Some pt) \<and> gq_timestamp pt = demo_now \<and>
      dec_val (gq_latitude pt) = Some 1 \<and> dec_val (gq_longitude pt) = Some 1)"
proof -
  let ?p = "demo_point\<lparr>gp_lat := 1, gp_lng := 1\<rparr>"
  have one: "prints_exactly (\<lambda>_. ''1'') 1"
    by (simp add: prints_exactly_def py_float_one dec_val_def)
  have r: "readable (\<lambda>_. ''1'') None" by (simp add: readable_def)
  have u: "unary_text 71 \<noteq> []" by (simp add: unary_text_def)
  have z: "CHR ''Z'' \<notin> set (tally_iso_text demo_now)"
    by (auto simp: tally_iso_text_def unary_text_def)
  show ?thesis
    using fix_survives_the_pipeline [of "\<lambda>_. ''1''" ?p tally_iso_of tally_iso_text unary_text 71 "\<lambda>_. ''1''" 31 21]
      one r u z tally_iso(1) by (simp add: demo_point_def py_float_one)
qed


section \<open>A backlog drains\<close>

lemma to_docs_total: "(\<forall>fs \<in> set fss. \<exists>d. to_doc fs = Inr d) \<Longrightarrow> \<exists>ds. to_docs fss = Inr ds"
proof (induction fss)
  case (Cons fs fss)
  then obtain d ds where "to_doc fs = Inr d" "to_docs fss = Inr ds" by auto
  then show ?case by simp
qed simp

definition clean_turn :: "(string \<times> string) list list \<Rightarrow> indexer \<Rightarrow> indexer" where
  "clean_turn stream ix = snd (index_turn False None True stream ix)"

text \<open>After \<open>n\<close> entries: nothing pending, and the first \<open>n\<close> entries in the index.\<close>

definition indexed_up_to :: "(string \<times> string) list list \<Rightarrow> nat \<Rightarrow> indexer \<Rightarrow> bool" where
  "indexed_up_to stream n ix \<longleftrightarrow> ix_group ix = Some \<lparr>gr_next = n, gr_pending = []\<rparr> \<and>
     (\<forall>i < n. \<exists>d. ix_docs ix i = Some d \<and> to_doc (stream ! i) = Inr d)"

lemma clean_turn_advances:
  assumes "\<forall>fs \<in> set stream. \<exists>d. to_doc fs = Inr d" "indexed_up_to stream n ix" "n \<le> length stream"
  shows "indexed_up_to stream (min (n + BATCH) (length stream)) (clean_turn stream ix)"
proof (cases "n < length stream")
  case False
  with assms show ?thesis by (simp add: indexed_up_to_def clean_turn_def index_turn_def min_def BATCH_def)
next
  case True
  define m where "m = min (n + BATCH) (length stream)"
  have m: "n < m" "m \<le> length stream" using True by (simp_all add: m_def BATCH_def)
  let ?ids = "[n ..< m]"
  have "\<forall>fs \<in> set (map (\<lambda>i. stream ! i) ?ids). \<exists>d. to_doc fs = Inr d"
    using assms(1) m(2) by auto
  then obtain ds where ds: "to_docs (map (\<lambda>i. stream ! i) ?ids) = Inr ds" using to_docs_total by blast
  note dn = to_docs_nth [OF ds]
  have g: "ix_group ix = Some \<lparr>gr_next = n, gr_pending = []\<rparr>" using assms(2) by (simp add: indexed_up_to_def)
  let ?mid = "ix\<lparr>ix_group := Some \<lparr>gr_next = m, gr_pending = ?ids\<rparr>\<rparr>"
  have turn: "clean_turn stream ix = (index_docs (zip ?ids ds) ?mid)\<lparr>ix_group := Some \<lparr>gr_next = m, gr_pending = []\<rparr>\<rparr>"
    using m by (simp add: clean_turn_def index_turn_def g m_def [symmetric] ds Let_def)
  have zip: "map fst (zip ?ids ds) = ?ids" using dn by simp
  have d: "distinct (map fst (zip ?ids ds))" unfolding zip by simp
  have "\<exists>d. ix_docs (clean_turn stream ix) i = Some d \<and> to_doc (stream ! i) = Inr d" if i: "i < m" for i
  proof (cases "i < n")
    case True
    then have "i \<notin> set (map fst (zip ?ids ds))" unfolding zip by simp
    then have "map_of (zip ?ids ds) i = None" by (simp add: map_of_eq_None_iff)
    with True assms(2) show ?thesis by (simp add: turn index_docs_get [OF d] indexed_up_to_def)
  next
    case False
    then have k: "i - n < length ds" "?ids ! (i - n) = i" using i dn by simp_all
    then have "(i, ds ! (i - n)) \<in> set (zip ?ids ds)" using dn by (force simp: set_zip)
    then have "map_of (zip ?ids ds) i = Some (ds ! (i - n))" using d by simp
    moreover have "to_doc (stream ! i) = Inr (ds ! (i - n))" using dn k False by fastforce
    ultimately show ?thesis by (simp add: turn index_docs_get [OF d])
  qed
  then show ?thesis by (simp add: indexed_up_to_def turn m_def [symmetric])
qed

lemma clean_turns_advance:
  assumes "\<forall>fs \<in> set stream. \<exists>d. to_doc fs = Inr d"
  shows "indexed_up_to stream (min (k * BATCH) (length stream)) ((clean_turn stream ^^ k) \<lparr>ix_group = Some \<lparr>gr_next = 0, gr_pending = []\<rparr>, ix_docs = Map.empty\<rparr>)"
proof (induction k)
  case 0
  show ?case by (simp add: indexed_up_to_def)
next
  case (Suc k)
  have "min (min (k * BATCH) (length stream) + BATCH) (length stream) = min (Suc k * BATCH) (length stream)" by auto
  with clean_turn_advances [OF assms Suc] show ?case by simp
qed

text \<open>
  The indexer catches up: from an empty index and a fresh consumer group, as many undisturbed
  turns as the backlog has batches of a hundred leave every entry of the stream in the index, under
  its own id and with its own content, and nothing pending.
\<close>

theorem backlog_is_indexed:
  assumes "\<forall>fs \<in> set stream. \<exists>d. to_doc fs = Inr d" "length stream \<le> k * BATCH"
  shows "let ix = (clean_turn stream ^^ k) (ensure_group \<lparr>ix_group = None, ix_docs = Map.empty\<rparr>) in
    ix_group ix = Some \<lparr>gr_next = length stream, gr_pending = []\<rparr> \<and>
    (\<forall>i < length stream. \<exists>d. ix_docs ix i = Some d \<and> to_doc (stream ! i) = Inr d)"
  using clean_turns_advance [OF assms(1), of k] assms(2) by (simp add: indexed_up_to_def ensure_group_def min_def Let_def)

theorem backlog_is_indexed_witness:
  "\<exists>fs d. to_doc fs = Inr d \<and> (let ix = (clean_turn [fs, fs] ^^ 1) (ensure_group \<lparr>ix_group = None, ix_docs = Map.empty\<rparr>) in
    ix_group ix = Some \<lparr>gr_next = length [fs, fs], gr_pending = []\<rparr> \<and>
    (\<forall>i < length [fs, fs]. \<exists>d. ix_docs ix i = Some d \<and> to_doc ([fs, fs] ! i) = Inr d))"
proof -
  let ?p = "demo_point\<lparr>gp_lat := 1, gp_lng := 1\<rparr>"
  let ?fs = "stream_fields unary_text (\<lambda>_. ''1'') tally_iso_text 31 21 71 ?p"
  have "prints_exactly (\<lambda>_. ''1'') 1" "readable (\<lambda>_. ''1'') None"
    by (simp_all add: prints_exactly_def py_float_one dec_val_def readable_def)
  then obtain d where d: "to_doc ?fs = Inr d"
    using doc_of_point [of "\<lambda>_. ''1''" ?p unary_text tally_iso_text 31 21 71] by (auto simp: demo_point_def)
  then have "\<forall>fs \<in> set [?fs, ?fs]. \<exists>d. to_doc fs = Inr d" by simp
  from backlog_is_indexed [OF this, of 1] have "let ix = (clean_turn [?fs, ?fs] ^^ 1) (ensure_group \<lparr>ix_group = None, ix_docs = Map.empty\<rparr>) in
      ix_group ix = Some \<lparr>gr_next = length [?fs, ?fs], gr_pending = []\<rparr> \<and>
      (\<forall>i < length [?fs, ?fs]. \<exists>d. ix_docs ix i = Some d \<and> to_doc ([?fs, ?fs] ! i) = Inr d)"
    by (simp add: BATCH_def)
  with d show ?thesis by blast
qed

section \<open>What nearby promises\<close>

text \<open>
  The documented contract of a search: at most \<open>size\<close> hits, each meeting every filter, and
  with a collapse no two hits of one value.
\<close>

fun meets :: "(string \<Rightarrow> instant option) \<Rightarrow> es_source \<times> real \<Rightarrow> es_filter \<Rightarrow> bool" where
  "meets iso_of (s, distance) (Es_term k v) = (doc_get (so_fields s) k = JStr v)"
| "meets iso_of (s, distance) (Es_within origin radius) = (distance \<le> radius)"
| "meets iso_of (s, distance) (Es_since t) = (\<exists>x u. doc_get (so_fields s) ''ts'' = JStr x \<and> iso_of x = Some u \<and> t \<le> u)"
| "meets iso_of (s, distance) (Es_between t t') =
     (\<exists>x u. doc_get (so_fields s) ''ts'' = JStr x \<and> iso_of x = Some u \<and> t \<le> u \<and> u \<le> t')"

definition search_contract :: "(string \<Rightarrow> instant option) \<Rightarrow> (es_query \<Rightarrow> py_error + (es_source \<times> real) list) \<Rightarrow> bool" where
  "search_contract iso_of search \<longleftrightarrow> (\<forall>q hits. search q = Inr hits \<longrightarrow>
     length hits \<le> eq_size q \<and> (\<forall>h \<in> set hits. \<forall>f \<in> set (eq_filters q). meets iso_of h f) \<and>
     (\<forall>k. eq_collapse q = Some k \<longrightarrow> distinct (map (\<lambda>h. doc_get (so_fields (fst h)) k) hits)))"

lemma try_map_all:
  "(\<forall>x. \<exists>y. f x = Inl y \<or> (\<exists>z. f x = Inr (Some z))) \<Longrightarrow> try_map f xs = Inr ys \<Longrightarrow>
   length ys = length xs \<and> (\<forall>i < length xs. f (xs ! i) = Inr (Some (ys ! i)))"
proof (induction xs arbitrary: ys)
  case (Cons x xs)
  then obtain y ys' where "f x = Inr y" "try_map f xs = Inr ys'" "ys = (case y of None \<Rightarrow> ys' | Some z \<Rightarrow> z # ys')"
    by (auto split: sum.splits)
  moreover from this obtain z where "y = Some z" using Cons.prems(1) by (metis Inl_Inr_False sum.inject(2))
  ultimately show ?case using Cons.IH [of ys'] Cons.prems(1) by (auto simp: nth_Cons split: nat.split)
qed simp

lemma py_round_le: "of_int (py_round x) \<le> x + 1 / 2"
  by (simp add: py_round_def Let_def) linarith

lemma nearby_row_some:
  "nearby_row h = Inl KeyError \<or> (\<exists>z. nearby_row h = Inr (Some z))"
  by (cases h) (simp add: nearby_row_def split: sum.split option.split)

lemma nearby_row_fields:
  assumes "nearby_row (s, distance) = Inr (Some b)"
  shows "nb_bus_id b = doc_get (so_fields s) ''bus_id''" "nb_ts b = doc_get (so_fields s) ''ts''"
    "nb_distance_km b \<le> distance + 1 / 2000"
proof -
  have b: "b = \<lparr>nb_bus_id = doc_get (so_fields s) ''bus_id'', nb_location = the (so_location s), nb_ts = doc_get (so_fields s) ''ts'',
      nb_speed = doc_get (so_fields s) ''speed'', nb_distance_km = of_int (py_round (distance * 1000)) / 1000\<rparr>"
    using assms by (auto simp: nearby_row_def subscript_def doc_get_def split: sum.splits option.splits)
  show "nb_bus_id b = doc_get (so_fields s) ''bus_id''" "nb_ts b = doc_get (so_fields s) ''ts''" by (simp_all add: b)
  show "nb_distance_km b \<le> distance + 1 / 2000"
    using py_round_le [of "distance * 1000"] by (simp add: b field_simps)
qed

text \<open>
  What nearby promises. Whenever the search engine answers as documented, the list names each
  bus at most once and no more buses than asked for, nearest first, each with a fix from the last
  two minutes and within the radius (up to the half metre that rounding to metres may add).
\<close>

theorem nearby_lists_fresh_buses_once:
  assumes "search_contract iso_of search" "nearby_buses search now lat lng radius limit = Inr out"
  shows "no_count out = length (no_buses out) \<and> no_count out \<le> limit \<and> distinct (map nb_bus_id (no_buses out)) \<and>
    sorted (map nb_distance_km (no_buses out)) \<and>
    (\<forall>b \<in> set (no_buses out). nb_distance_km b \<le> radius + 1 / 2000 \<and>
      (\<exists>x u. nb_ts b = JStr x \<and> iso_of x = Some u \<and> now - 120 * second \<le> u))"
proof -
  let ?q = "build_nearby_query (lat, lng) radius (now - NEARBY_FRESH_S * second) limit"
  obtain hits bs where hits: "search ?q = Inr hits" and bs: "try_map nearby_row hits = Inr bs"
    and out: "no_buses out = sort_key nb_distance_km bs" "no_count out = length bs"
    using assms(2) by (auto simp: nearby_buses_def split: sum.splits)
  have len: "length bs = length hits" and row: "\<And>i. i < length hits \<Longrightarrow> nearby_row (hits ! i) = Inr (Some (bs ! i))"
    using try_map_all [OF _ bs] nearby_row_some by blast+
  have c: "length hits \<le> limit" "\<forall>h \<in> set hits. \<forall>f \<in> set (eq_filters ?q). meets iso_of h f"
    "distinct (map (\<lambda>h. doc_get (so_fields (fst h)) ''bus_id'') hits)"
    using assms(1) [unfolded search_contract_def, rule_format, OF hits] by (simp_all add: build_nearby_query_def)
  have f: "nb_bus_id (bs ! i) = doc_get (so_fields (fst (hits ! i))) ''bus_id''" "nb_ts (bs ! i) = doc_get (so_fields (fst (hits ! i))) ''ts''"
    "nb_distance_km (bs ! i) \<le> snd (hits ! i) + 1 / 2000" if "i < length hits" for i
    using nearby_row_fields [of "fst (hits ! i)" "snd (hits ! i)"] row [OF that] by simp_all
  have "map nb_bus_id bs = map (\<lambda>h. doc_get (so_fields (fst h)) ''bus_id'') hits"
    using len f(1) by (intro nth_equalityI) simp_all
  with c(3) have "distinct (map nb_bus_id bs)" by simp
  then have "distinct (map nb_bus_id (sort_key nb_distance_km bs))" by (simp add: distinct_map)
  moreover have "nb_distance_km b \<le> radius + 1 / 2000 \<and> (\<exists>x u. nb_ts b = JStr x \<and> iso_of x = Some u \<and> now - 120 * second \<le> u)"
    if b: "b \<in> set bs" for b
  proof -
    obtain i where i: "i < length hits" "b = bs ! i" using b len by (metis in_set_conv_nth)
    obtain s distance where h: "hits ! i = (s, distance)" by fastforce
    have "\<forall>g \<in> set (eq_filters ?q). meets iso_of (s, distance) g" using c(2) i(1) h by (metis nth_mem)
    then show ?thesis using f(2,3) [OF i(1)] i(2) h by (auto simp: build_nearby_query_def NEARBY_FRESH_S_def)
  qed
  ultimately show ?thesis using out c(1) len by simp
qed


definition one_hit :: "es_query \<Rightarrow> py_error + (es_source \<times> real) list" where
  "one_hit q = Inr (if q = build_nearby_query (23, 90) 5 (demo_now - 120 * second) 20
     then [(\<lparr>so_fields = [(''bus_id'', JStr ''b''), (''ts'', JStr (tally_iso_text demo_now))], so_location = Some []\<rparr>, 1)] else [])"

theorem nearby_lists_fresh_buses_once_witness:
  "\<exists>out. nearby_buses one_hit demo_now 23 90 5 20 = Inr out \<and> no_count out = 1 \<and> no_count out \<le> 20 \<and>
    distinct (map nb_bus_id (no_buses out)) \<and>
    (\<forall>b \<in> set (no_buses out). nb_distance_km b \<le> 5 + 1 / 2000)"
proof -
  have c: "search_contract tally_iso_of one_hit"
    unfolding search_contract_def
  proof (intro allI impI)
    fix q hits
    assume "one_hit q = Inr hits"
    then have hits: "hits = [] \<or> q = build_nearby_query (23, 90) 5 (demo_now - 120 * second) 20 \<and>
        hits = [(\<lparr>so_fields = [(''bus_id'', JStr ''b''), (''ts'', JStr (tally_iso_text demo_now))], so_location = Some []\<rparr>, 1)]"
      by (auto simp: one_hit_def split: if_splits)
    then show "length hits \<le> eq_size q \<and> (\<forall>h \<in> set hits. \<forall>f \<in> set (eq_filters q). meets tally_iso_of h f) \<and>
        (\<forall>k. eq_collapse q = Some k \<longrightarrow> distinct (map (\<lambda>h. doc_get (so_fields (fst h)) k) hits))"
    proof
      assume "q = build_nearby_query (23, 90) 5 (demo_now - 120 * second) 20 \<and>
        hits = [(\<lparr>so_fields = [(''bus_id'', JStr ''b''), (''ts'', JStr (tally_iso_text demo_now))], so_location = Some []\<rparr>, 1)]"
      then show ?thesis by (simp add: build_nearby_query_def doc_get_def tally_iso)
    qed simp
  qed
  obtain out where out: "nearby_buses one_hit demo_now 23 90 5 20 = Inr out" "no_count out = 1"
    by (simp add: nearby_buses_def one_hit_def NEARBY_FRESH_S_def nearby_row_def subscript_def)
  with nearby_lists_fresh_buses_once [OF c out(1)] show ?thesis by blast
qed

end
