(* ===== verification/DevScripts.thy ===== *)
theory DevScripts
  imports SeedRun Simulator GpsHistory
begin

text \<open>
  The small scripts beside the seeder: \<^verbatim>\<open>scripts/set_admin_password.py\<close>,
  \<^verbatim>\<open>seed_dev.py\<close>, \<^verbatim>\<open>dev_seed_routes.py\<close>,
  \<^verbatim>\<open>reset_dev.py\<close> and \<^verbatim>\<open>dev_seed_gps_for_trips.py\<close>. Ids, salts, the clock and
  every random draw are arguments; what is printed is left out.
\<close>

section \<open>Administrators (scripts/set_admin_password.py)\<close>

definition MIN_PASSWORD_LEN :: nat where "MIN_PASSWORD_LEN = 8"

datatype admin_end =
    Password_too_short
  | Not_an_admin user_role
  | Admin_created
  | Admin_reset
  | Admin_crashed seed_stop

text \<open>The rows an account update may write: a name that does not fit its column is a DataError.\<close>

definition write_user :: "user \<Rightarrow> database \<Rightarrow> seed_stop + database" where
  "write_user u db = (if user_fits u then flush db else Inl (Stop_Db DataError))"

definition set_admin_password ::
  "auth_lib \<Rightarrow> uuid \<Rightarrow> nat \<Rightarrow> instant \<Rightarrow> database \<Rightarrow> string \<Rightarrow> string \<Rightarrow> string option \<Rightarrow> admin_end \<times> database" where
  "set_admin_password lib new_id salt now db email password name =
     (if length password < MIN_PASSWORD_LEN then (Password_too_short, db)
      else
        (let email = lower (strip email);
             given = (case name of None \<Rightarrow> [] | Some n \<Rightarrow> n) in
         case find_user db email of
           Inl e \<Rightarrow> (Admin_crashed e, db)
         | Inr None \<Rightarrow>
             let u = \<lparr>us_id = new_id, us_created_at = now, us_email = email,
                   us_password_hash = lib_hash lib salt password, us_role = Role_admin,
                   us_name = (if given \<noteq> [] then given else ''UniTrack Admin''), us_phone = None, us_photo_url = None,
                   us_status = User_active\<rparr> in
             (case write_user u (db\<lparr>db_users := db_users db @ [u]\<rparr>) of
                Inl e \<Rightarrow> (Admin_crashed e, db) | Inr db' \<Rightarrow> (Admin_created, db'))
         | Inr (Some u) \<Rightarrow>
             if us_role u \<noteq> Role_admin then (Not_an_admin (us_role u), db)
             else
               let u' = u\<lparr>us_password_hash := lib_hash lib salt password, us_status := User_active,
                     us_name := (if given \<noteq> [] then given else us_name u)\<rparr> in
               (case write_user u' (db\<lparr>db_users := row_edit us_id (us_id u) (\<lambda>_. u') (db_users db)\<rparr>) of
                  Inl e \<Rightarrow> (Admin_crashed e, db) | Inr db' \<Rightarrow> (Admin_reset, db'))))"

section \<open>The helper fixture (scripts/seed_dev.py)\<close>

definition HELPER_EMAIL :: string where "HELPER_EMAIL = ''helper@buscrew.com.bd''"
definition HELPER_PASSWORD :: string where "HELPER_PASSWORD = ''helper-dev-password''"
definition BUS_REG_NO :: string where "BUS_REG_NO = ''DHK-METRO-GA-11-1234''"

definition dev_helper_user :: "seed_env \<Rightarrow> database \<Rightarrow> user" where
  "dev_helper_user env db =
     \<lparr>us_id = sv_id env ''users'' (length (db_users db)), us_created_at = sv_created env, us_email = HELPER_EMAIL,
       us_password_hash = sv_hash env (length (db_users db)) HELPER_PASSWORD, us_role = Role_helper,
       us_name = ''Dev Helper'', us_phone = Some ''+8801700000000'', us_photo_url = None, us_status = User_active\<rparr>"

definition dev_helper_row :: "seed_env \<Rightarrow> database \<Rightarrow> uuid \<Rightarrow> helper" where
  "dev_helper_row env db user_id =
     \<lparr>hp_id = sv_id env ''helpers'' (length (db_helpers db)), hp_user_id = user_id, hp_approved_by = None,
       hp_status = Helper_approved, hp_current_device_id = None\<rparr>"

text \<open>The first half: the account, committed; the role of an account found is not looked at.\<close>

definition seed_dev_helper :: "seed_env \<Rightarrow> database \<Rightarrow> (seed_stop + user) \<times> database" where
  "seed_dev_helper env db =
     committed db (and_then (find_user db HELPER_EMAIL) (\<lambda>found. case found of
         None \<Rightarrow>
           let u = dev_helper_user env db in
           Inr (u, db\<lparr>db_users := db_users db @ [u], db_helpers := db_helpers db @ [dev_helper_row env db (us_id u)]\<rparr>)
       | Some u \<Rightarrow>
           let u' = u\<lparr>us_status := User_active\<rparr>;
               db1 = db\<lparr>db_users := row_edit us_id (us_id u) (\<lambda>_. u') (db_users db)\<rparr> in
           and_then (helper_of_user db1 u) (\<lambda>row. case row of
               None \<Rightarrow> Inr (u', db1\<lparr>db_helpers := db_helpers db1 @ [dev_helper_row env db1 (us_id u)]\<rparr>)
             | Some h \<Rightarrow>
                 Inr (u', db1\<lparr>db_helpers := row_edit hp_id (hp_id h) (\<lambda>h. h\<lparr>hp_status := Helper_approved\<rparr>) (db_helpers db1)\<rparr>))))"

definition seed_dev_bus :: "seed_env \<Rightarrow> database \<Rightarrow> (seed_stop + bus) \<times> database" where
  "seed_dev_bus env db =
     committed db (and_then (find_bus db BUS_REG_NO) (\<lambda>found. case found of
         Some b \<Rightarrow> Inr (b, db)
       | None \<Rightarrow>
           let b = \<lparr>bs_id = sv_id env ''buses'' (length (db_buses db)), bs_reg_no = BUS_REG_NO,
                 bs_nickname = Some ''Dev Bus 1'', bs_capacity = 40, bs_status = Bus_active\<rparr> in
           Inr (b, db\<lparr>db_buses := db_buses db @ [b]\<rparr>)))"

text \<open>What it prints: the bus and a fresh access token.\<close>

definition seed_dev ::
  "auth_lib \<Rightarrow> settings \<Rightarrow> string \<Rightarrow> instant \<Rightarrow> seed_env \<Rightarrow> database \<Rightarrow> (seed_stop + uuid \<times> string) \<times> database" where
  "seed_dev lib cfg jti now env db =
     (case seed_dev_helper env db of
        (Inl e, db1) \<Rightarrow> (Inl e, db1)
      | (Inr u, db1) \<Rightarrow>
          (case seed_dev_bus env db1 of
             (Inl e, db2) \<Rightarrow> (Inl e, db2)
           | (Inr b, db2) \<Rightarrow>
               (Inr (bs_id b, create_access_token (lib_encode lib) jti now (access_token_ttl_min cfg)
                      (lib_uuid_text lib (us_id u)) (us_role u)), db2)))"

section \<open>The demo route (scripts/dev_seed_routes.py)\<close>

definition DEV_STOPS :: "(string \<times> real \<times> real) list" where
  "DEV_STOPS =
     [(''Dhanmondi 27'', 23.7561, 90.3720), (''Kalabagan'', 23.7480, 90.3830),
      (''Farmgate'', 23.7583, 90.3897), (''Mohakhali'', 23.7806, 90.4053),
      (''Banani'', 23.7936, 90.4043), (''Airport'', 23.8513, 90.4085),
      (''Uttara Sector 7'', 23.8759, 90.3795)]"

definition DEV_ROUTE_NAME :: string where "DEV_ROUTE_NAME = ''Campus Shuttle''"
definition DEV_OFFSETS :: "int list" where "DEV_OFFSETS = [0, 8, 18, 32, 40, 58, 70]"

definition dev_stop_row :: "seed_env \<Rightarrow> string \<times> real \<times> real \<Rightarrow> database \<Rightarrow> seed_stop + stop \<times> database" where
  "dev_stop_row env = (\<lambda>(name, lat, lng) db.
     and_then (find_stop db name) (\<lambda>s. case s of
       Some s \<Rightarrow> Inr (s, db)
     | None \<Rightarrow>
         let s = \<lparr>sp_id = sv_id env ''stops'' (length (db_stops db)), sp_name = name, sp_lat = lat, sp_lng = lng\<rparr> in
         and_then (flush (db\<lparr>db_stops := db_stops db @ [s]\<rparr>)) (\<lambda>db'. Inr (s, db'))))"

definition dev_route_row ::
  "seed_env \<Rightarrow> stop list \<Rightarrow> route_direction \<Rightarrow> database \<Rightarrow> seed_stop + route \<times> database" where
  "dev_route_row env stops direction db =
     and_then (one_or_none (filter (\<lambda>r. rt_name r = DEV_ROUTE_NAME \<and> rt_direction r = direction) (db_routes db)))
       (\<lambda>found. case found of
         Some r \<Rightarrow> Inr (r, db)
       | None \<Rightarrow>
           let r = \<lparr>rt_id = sv_id env ''routes'' (length (db_routes db)), rt_name = DEV_ROUTE_NAME,
                 rt_direction = direction, rt_polyline = None, rt_is_active = True\<rparr>;
               ordered = (if direction = Dir_outbound then stops else rev stops) in
           and_then (flush (db\<lparr>db_routes := db_routes db @ [r]\<rparr>)) (\<lambda>db1.
             Inr (r, db1\<lparr>db_route_stops := db_route_stops db1 @
               map (\<lambda>i. \<lparr>rs_id = sv_id env ''route_stops'' (length (db_route_stops db1) + i), rs_route_id = rt_id r,
                   rs_stop_id = sp_id (ordered ! i), rs_seq = int i + 1,
                   rs_scheduled_offset_min = Some (DEV_OFFSETS ! i)\<rparr>) [0 ..< length ordered]\<rparr>)))"

definition dev_seed_routes :: "seed_env \<Rightarrow> database \<Rightarrow> (seed_stop + route list) \<times> database" where
  "dev_seed_routes env db = committed db
     (and_then (each (dev_stop_row env) DEV_STOPS db) (\<lambda>(stops, db1).
      each (dev_route_row env stops) [Dir_outbound, Dir_inbound] db1))"

section \<open>Back to a known state (scripts/reset_dev.py)\<close>

text \<open>The three stores. The stream and its consumer group live in Redis.\<close>

record dev_state =
  ds_db :: database
  ds_redis :: redis
  ds_index :: indexer

definition truncate_postgres :: "dev_state \<Rightarrow> dev_state" where
  "truncate_postgres s = s\<lparr>ds_db := empty_db\<rparr>"

definition reset_elasticsearch :: "dev_state \<Rightarrow> dev_state" where
  "reset_elasticsearch s = s\<lparr>ds_index := (ds_index s)\<lparr>ix_docs := Map.empty\<rparr>\<rparr>"

definition flush_redis :: "dev_state \<Rightarrow> dev_state" where
  "flush_redis s = s\<lparr>ds_redis := empty_redis, ds_index := ensure_group ((ds_index s)\<lparr>ix_group := None\<rparr>)\<rparr>"

datatype reset_end = Refused_env | Needs_yes | Reset_raised py_error

text \<open>\<^verbatim>\<open>_run(SEED_ORDER, force_wipe=True)\<close> lacks the argument \<^verbatim>\<open>keep\<close>: a TypeError.\<close>

definition reset_dev :: "app_settings \<Rightarrow> bool \<Rightarrow> dev_state \<Rightarrow> reset_end \<times> dev_state" where
  "reset_dev cfg yes s =
     (if cfg_env cfg \<noteq> ''dev'' then (Refused_env, s)
      else if \<not> yes then (Needs_yes, s)
      else (Reset_raised TypeError, flush_redis (reset_elasticsearch (truncate_postgres s))))"

section \<open>What the password command does\<close>

lemma flush_same: "flush db = Inr db' \<Longrightarrow> db' = db \<and> db_ok db"
  by (auto simp: flush_def commit_def split: sum.splits if_splits)

lemma write_user_same: "write_user u db = Inr db' \<Longrightarrow> db' = db \<and> db_ok db"
  by (auto simp: write_user_def split: if_splits dest: flush_same)

lemma find_user_some: "find_user db email = Inr (Some u) \<Longrightarrow> u \<in> set (db_users db) \<and> us_email u = email"
proof -
  assume "find_user db email = Inr (Some u)"
  then have "filter (\<lambda>u. us_email u = email) (db_users db) = [u]"
    unfolding find_user_def by (cases "filter (\<lambda>u. us_email u = email) (db_users db)" rule: one_or_none.cases) auto
  then have "u \<in> set (filter (\<lambda>u. us_email u = email) (db_users db))" by simp
  then show ?thesis by simp
qed

lemma find_the_one: "x \<in> set xs \<Longrightarrow> P x \<Longrightarrow> (\<And>y. y \<in> set xs \<Longrightarrow> P y \<Longrightarrow> y = x) \<Longrightarrow> find P xs = Some x"
proof -
  assume x: "x \<in> set xs" "P x" and one: "\<And>y. y \<in> set xs \<Longrightarrow> P y \<Longrightarrow> y = x"
  show ?thesis
  proof (cases "find P xs")
    case None
    with x show ?thesis by (simp add: find_None_iff)
  next
    case (Some y)
    then have "y \<in> set xs" "P y" by (auto simp: find_Some_iff)
    with one Some show ?thesis by simp
  qed
qed

lemma user_by_email_unique:
  "db_ok db \<Longrightarrow> u \<in> set (db_users db) \<Longrightarrow> us_email u = lower email \<Longrightarrow> user_by_email db email = Some u"
proof -
  assume u: "db_ok db" "u \<in> set (db_users db)" "us_email u = lower email"
  then have inj: "inj_on us_email (set (db_users db))" by (simp add: db_ok_def identity_ok_def distinct_map)
  show ?thesis
    unfolding user_by_email_def
    by (rule find_the_one [where P = "\<lambda>v. us_email v = lower email", OF u(2, 3)]) (rule inj_onD [OF inj _ _ u(2)], simp_all add: u(3))
qed

text \<open>How a run ends: nothing changed, an administrator added, or one administrator's row replaced.\<close>

lemma set_admin_password_cases:
  assumes "set_admin_password lib new_id salt now db email password name = (out, db')"
  obtains "out \<notin> {Admin_created, Admin_reset}" "db' = db"
  | u where "out = Admin_created" "db' = db\<lparr>db_users := db_users db @ [u]\<rparr>" "db_ok db'"
      "us_email u = lower (strip email)" "us_role u = Role_admin" "us_status u = User_active"
      "us_password_hash u = lib_hash lib salt password"
  | u u' where "out = Admin_reset" "db' = db\<lparr>db_users := row_edit us_id (us_id u) (\<lambda>_. u') (db_users db)\<rparr>" "db_ok db'"
      "u \<in> set (db_users db)" "us_role u = Role_admin" "us_id u' = us_id u" "us_email u' = lower (strip email)"
      "us_role u' = Role_admin" "us_status u' = User_active" "us_password_hash u' = lib_hash lib salt password"
proof (cases "find_user db (lower (strip email))")
  case (Inl e)
  with assms show ?thesis by (intro that(1)) (auto simp: set_admin_password_def Let_def split: if_splits)
next
  case (Inr found)
  show ?thesis
  proof (cases "length password < MIN_PASSWORD_LEN")
    case True
    with assms show ?thesis by (intro that(1)) (auto simp: set_admin_password_def)
  next
    case long: False
    show ?thesis
    proof (cases found)
      case None
      define u where "u = \<lparr>us_id = new_id, us_created_at = now, us_email = lower (strip email),
        us_password_hash = lib_hash lib salt password, us_role = Role_admin,
        us_name = (if (case name of None \<Rightarrow> [] | Some n \<Rightarrow> n) \<noteq> [] then (case name of None \<Rightarrow> [] | Some n \<Rightarrow> n) else ''UniTrack Admin''),
        us_phone = None, us_photo_url = None, us_status = User_active\<rparr>"
      have run: "(case write_user u (db\<lparr>db_users := db_users db @ [u]\<rparr>) of
          Inl e \<Rightarrow> (Admin_crashed e, db) | Inr d \<Rightarrow> (Admin_created, d)) = (out, db')"
        using assms long Inr None unfolding set_admin_password_def Let_def u_def by simp
      show ?thesis
      proof (cases "write_user u (db\<lparr>db_users := db_users db @ [u]\<rparr>)")
        case (Inr d)
        with run write_user_same [OF Inr] show ?thesis by (intro that(2) [of u]) (auto simp: u_def)
      qed (use run that(1) in auto)
    next
      case (Some u)
      with Inr have u: "u \<in> set (db_users db)" "us_email u = lower (strip email)" using find_user_some by auto
      define u' where "u' = u\<lparr>us_password_hash := lib_hash lib salt password, us_status := User_active,
        us_name := (if (case name of None \<Rightarrow> [] | Some n \<Rightarrow> n) \<noteq> [] then (case name of None \<Rightarrow> [] | Some n \<Rightarrow> n) else us_name u)\<rparr>"
      have run: "(if us_role u \<noteq> Role_admin then (Not_an_admin (us_role u), db)
          else case write_user u' (db\<lparr>db_users := row_edit us_id (us_id u) (\<lambda>_. u') (db_users db)\<rparr>) of
            Inl e \<Rightarrow> (Admin_crashed e, db) | Inr d \<Rightarrow> (Admin_reset, d)) = (out, db')"
        using assms long Inr Some unfolding set_admin_password_def Let_def u'_def by simp
      show ?thesis
      proof (cases "us_role u = Role_admin")
        case role: True
        show ?thesis
        proof (cases "write_user u' (db\<lparr>db_users := row_edit us_id (us_id u) (\<lambda>_. u') (db_users db)\<rparr>)")
          case (Inr d)
          with run role write_user_same [OF Inr] u show ?thesis by (intro that(3) [of u u']) (auto simp: u'_def)
        qed (use run role that(1) in auto)
      qed (use run that(1) in auto)
    qed
  qed
qed

text \<open>
  C23. The password command makes or restores an administrator and touches nobody else. When it reports
  success, its address belongs to an active administrator, and a login with it and the new password is answered
  with tokens of that account if the login's \<^verbatim>\<open>EmailStr\<close> takes the address (changing at most its case), and with 422 if it does not;
  every account that was not an administrator is as it was; and when it reports anything else
  the database is as it was. (What the tokens open meanwhile depends on the cache:
  \<open>restored_admin_waits_for_the_cache\<close>.)
\<close>

theorem admin_command_lets_the_admin_in:
  assumes "set_admin_password lib new_id salt now db email password name = (out, db')"
    and "lib_verify lib (lib_hash lib salt password) password = Some True"
    and "\<And>address. email_str (strip email) = Some address \<Longrightarrow> lower address = lower (strip email)"
  shows "if out \<in> {Admin_created, Admin_reset}
    then (\<exists>u. user_by_email db' (strip email) = Some u \<and> us_role u = Role_admin \<and> us_status u = User_active \<and>
        login_request lib email_str cfg j1 j2 later db' (strip email) password =
          (case email_str (strip email) of
             None \<Rightarrow> Inl (Http (HTTPException 422 ''value is not a valid email address''))
           | Some _ \<Rightarrow> Inr (issue_pair lib cfg j1 j2 later u))) \<and>
      filter (\<lambda>v. us_role v \<noteq> Role_admin) (db_users db') = filter (\<lambda>v. us_role v \<noteq> Role_admin) (db_users db)
    else db' = db"
proof -
  have signs_in: "login_request lib email_str cfg j1 j2 later db' (strip email) password =
      (case email_str (strip email) of
         None \<Rightarrow> Inl (Http (HTTPException 422 ''value is not a valid email address''))
       | Some _ \<Rightarrow> Inr (issue_pair lib cfg j1 j2 later u)) \<and>
      user_by_email db' (strip email) = Some u"
    if "db_ok db'" "u \<in> set (db_users db')" "us_email u = lower (strip email)" "us_status u = User_active"
      "us_password_hash u = lib_hash lib salt password" for u
  proof -
    have "AuthApi.login lib cfg j1 j2 later db' address password = Inr (issue_pair lib cfg j1 j2 later u)"
      if "lower address = lower (strip email)" for address
      using user_by_email_unique [OF \<open>db_ok db'\<close> \<open>u \<in> set (db_users db')\<close>, of address] that
        \<open>us_email u = lower (strip email)\<close> \<open>us_status u = User_active\<close> \<open>us_password_hash u = lib_hash lib salt password\<close> assms(2)
      by (simp add: AuthApi.login_def verify_password_def)
    then show ?thesis
      using user_by_email_unique [OF that(1 - 3)] assms(3) by (simp add: login_request_def split: option.split)
  qed
  from assms(1) show ?thesis
  proof (cases rule: set_admin_password_cases)
    case 1
    then show ?thesis by simp
  next
    case (2 u)
    then show ?thesis using signs_in [of u] by auto
  next
    case (3 u u')
    have "u' \<in> set (db_users db')" using 3(2, 4) by (auto simp: row_edit_def)
    moreover have same: "filter (\<lambda>v. us_role v \<noteq> Role_admin) (row_edit us_id (us_id u) (\<lambda>_. u') rows) =
        filter (\<lambda>v. us_role v \<noteq> Role_admin) rows"
      if "\<forall>v \<in> set rows. us_id v = us_id u \<longrightarrow> us_role v = Role_admin" for rows
      using that 3(8) by (induction rows) auto
    moreover have "distinct (map us_id (db_users db'))" using 3(3) by (simp add: db_ok_def identity_ok_def)
    then have "distinct (map us_id (db_users db))" using 3(2, 6) by (simp add: row_edit_def o_def if_distrib cong: if_cong)
    then have "\<forall>v \<in> set (db_users db). us_id v = us_id u \<longrightarrow> us_role v = Role_admin"
      using 3(4, 5) by (auto simp: distinct_map dest: inj_onD)
    ultimately show ?thesis using 3 signs_in [of u'] same [of "db_users db"] by auto
  qed
qed

text \<open>
  But a cached snapshot outlives the command. It writes to the database only: while Redis still holds
  the snapshot a suspended administrator left there, the tokens he is given open nothing.
\<close>

theorem restored_admin_waits_for_the_cache:
  assumes "set_admin_password lib new_id salt now db email password name = (Admin_reset, db')"
    and "cached_principal uuid_of uuid_text later r user_id = Some p" "pp_status p = User_suspended"
    and "doc_uuid uuid_of claims ''sub'' = Inr user_id"
  shows "get_principal uuid_of uuid_text True up_set later db' r claims = (Inl (Http credentials_exc), r)"
  using assms(2 - 4) by (simp add: get_principal_def get_principal_cached_def)

section \<open>The two ways to the demo route agree\<close>

lemma dev_tables: "DEV_STOPS = STOPS" "DEV_ROUTE_NAME = ROUTE_NAME" "DEV_OFFSETS = ROUTE_OFFSETS"
  by (simp_all add: DEV_STOPS_def STOPS_def DEV_ROUTE_NAME_def ROUTE_NAME_def DEV_OFFSETS_def ROUTE_OFFSETS_def)

lemma dev_stop_row_seed: "dev_stop_row = seed_stop_row"
  by (rule ext) (simp add: dev_stop_row_def seed_stop_row_def)

lemma dev_route_row_seed: "dev_route_row = seed_route_row"
  unfolding fun_eq_iff dev_route_row_def seed_route_row_def seed_route_stops_def find_route_def dev_tables by simp

text \<open>Every stop the first loop returns is in the table, under its name.\<close>

lemma seed_stop_row_found: "seed_stop_row env x db = Inr (s, db') \<Longrightarrow> s \<in> set (db_stops db') \<and> sp_name s = fst x"
proof -
  assume "seed_stop_row env x db = Inr (s, db')"
  moreover have "r = Some t \<Longrightarrow> find_stop db n = Inr r \<Longrightarrow> t \<in> set (db_stops db) \<and> sp_name t = n" for r t n
  proof -
    assume "r = Some t" "find_stop db n = Inr r"
    then have "filter (\<lambda>s. sp_name s = n) (db_stops db) = [t]"
      unfolding find_stop_def by (cases "filter (\<lambda>s. sp_name s = n) (db_stops db)" rule: one_or_none.cases) auto
    then have "t \<in> set (filter (\<lambda>s. sp_name s = n) (db_stops db))" by simp
    then show ?thesis by simp
  qed
  ultimately show ?thesis
    by (cases x) (auto simp: seed_stop_row_def and_then_Inr Let_def split: option.splits dest!: flush_same)
qed

lemma each_stops_found:
  "each (seed_stop_row env) xs db = Inr (ss, db') \<Longrightarrow>
   list_all2 (\<lambda>x s. s \<in> set (db_stops db') \<and> sp_name s = fst x) xs ss"
proof (induction xs arbitrary: db ss)
  case (Cons x xs)
  then obtain s db1 ss1 where 1: "seed_stop_row env x db = Inr (s, db1)" "each (seed_stop_row env) xs db1 = Inr (ss1, db')"
    "ss = s # ss1" by (auto simp: and_then_Inr)
  have "only_adds db1 db'" by (rule each_grows [OF 1(2)]) (rule seed_stop_row_grows)
  then have "set (db_stops db1) \<subseteq> set (db_stops db')" by (auto simp: only_adds_def dest: set_mono_prefix)
  with seed_stop_row_found [OF 1(1)] Cons.IH [OF 1(2)] 1(3) show ?case by auto
qed simp

lemma found_again: "find_stop d n = Inr (Some s) \<Longrightarrow> t \<in> set (db_stops d) \<Longrightarrow> sp_name t = n \<Longrightarrow> t = s"
proof -
  assume "find_stop d n = Inr (Some s)" and t: "t \<in> set (db_stops d)" "sp_name t = n"
  then have "filter (\<lambda>s. sp_name s = n) (db_stops d) = [s]"
    unfolding find_stop_def by (cases "filter (\<lambda>s. sp_name s = n) (db_stops d)" rule: one_or_none.cases) auto
  moreover from t have "t \<in> set (filter (\<lambda>s. sp_name s = n) (db_stops d))" by simp
  ultimately show ?thesis by simp
qed

lemma needed_row_Inr: "needed_row x = Inr s \<longleftrightarrow> x = Inr (Some s)"
  by (auto simp: needed_row_def and_then_Inr split: option.splits)

lemma lookups_return_them:
  assumes f: "\<And>n a b d. f (n, a, b) d = and_then (needed_row (find_stop d n)) (\<lambda>s. Inr (s, d))"
  shows "each f xs d = Inr (ts, d') \<Longrightarrow>
   list_all2 (\<lambda>x s. s \<in> set (db_stops d) \<and> sp_name s = fst x) xs ss \<Longrightarrow> ts = ss \<and> d' = d"
proof (induction xs arbitrary: ts ss)
  case (Cons x xs)
  obtain n a b where x: "x = (n, a, b)" by (rule prod_cases3)
  obtain s ss1 where ss: "ss = s # ss1" "s \<in> set (db_stops d)" "sp_name s = n" using Cons.prems(2) x
    by (auto simp: list_all2_Cons1)
  from Cons.prems(1) x obtain t ts1 where t: "find_stop d n = Inr (Some t)" "ts = t # ts1" "each f xs d = Inr (ts1, d')"
    by (auto simp: and_then_Inr needed_row_Inr f)
  from Cons.IH [OF t(3), of ss1] Cons.prems(2) ss have "ts1 = ss1 \<and> d' = d" by simp
  with found_again [OF t(1) ss(2, 3)] t(2) ss(1) show ?case by simp
qed simp

text \<open>
  The demo route is the seeder's. Where \<^verbatim>\<open>scripts.seed stops routes\<close> succeeds,
  \<^verbatim>\<open>dev_seed_routes\<close> leaves the same database, in one transaction instead of two.
\<close>

theorem dev_routes_are_the_seeds:
  assumes "seed_stops env db = (Inr ss, db1)" "seed_routes env db1 = (Inr rs, db2)"
  shows "dev_seed_routes env db = (Inr rs, db2)"
proof -
  from assms(1) have stops: "each (seed_stop_row env) STOPS db = Inr (ss, db1)"
    by (auto simp: seed_stops_def committed_def and_then_Inr split: sum.splits dest!: flush_same simp del: each.simps)
  from assms(2) obtain ts d where routes:
    "each (\<lambda>(name, _, _) d. and_then (needed_row (find_stop d name)) (\<lambda>s. Inr (s, d))) STOPS db1 = Inr (ts, d)"
    "each (seed_route_row env ts) [Dir_outbound, Dir_inbound] db1 = Inr (rs, db2)" "flush db2 = Inr db2"
    by (auto simp: seed_routes_def committed_def and_then_Inr split: sum.splits dest: flush_same simp del: each.simps)
  from lookups_return_them [OF _ routes(1) each_stops_found [OF stops]] have "ts = ss \<and> d = db1" by simp
  with stops routes(2, 3) show ?thesis
    unfolding dev_seed_routes_def dev_tables dev_stop_row_seed dev_route_row_seed committed_def
    by (simp add: and_then_def del: each.simps)
qed

section \<open>What the reset leaves\<close>

text \<open>
  The stores are emptied together, and the consumer group is there for the worker; but the promised
  reseed never happens: with the consent given in a development environment, the run always raises
  after the data is gone.
\<close>

theorem reset_leaves_nothing:
  assumes "cfg_env cfg = ''dev''"
  shows "reset_dev cfg True s = (Reset_raised TypeError, \<lparr>ds_db = empty_db, ds_redis = empty_redis,
    ds_index = \<lparr>ix_group = Some \<lparr>gr_next = 0, gr_pending = []\<rparr>, ix_docs = Map.empty\<rparr>\<rparr>)"
  using assms
  by (simp add: reset_dev_def flush_redis_def reset_elasticsearch_def truncate_postgres_def ensure_group_def)

lemma reset_asks_first: "cfg_env cfg \<noteq> ''dev'' \<or> \<not> yes \<Longrightarrow> snd (reset_dev cfg yes s) = s"
  by (auto simp: reset_dev_def)

section \<open>Positions for past trips (scripts/dev_seed_gps_for_trips.py)\<close>

definition FIX_INTERVAL_S :: int where "FIX_INTERVAL_S = 15"

definition lerp :: "real \<Rightarrow> real \<Rightarrow> real \<Rightarrow> real" where "lerp a b t = a + (b - a) * t"

definition backfill_haversine :: "real \<Rightarrow> real \<Rightarrow> real \<Rightarrow> real \<Rightarrow> real" where
  "backfill_haversine lat1 lon1 lat2 lon2 =
     (let p1 = radians lat1; p2 = radians lat2; dphi = radians (lat2 - lat1); dlambda = radians (lon2 - lon1);
          a = sin (dphi / 2) ^ 2 + cos p1 * cos p2 * sin (dlambda / 2) ^ 2 in
      2 * 6371 * arcsin (sqrt a))"

definition backfill_bearing :: "real \<Rightarrow> real \<Rightarrow> real \<Rightarrow> real \<Rightarrow> real" where
  "backfill_bearing lat1 lon1 lat2 lon2 =
     (let p1 = radians lat1; p2 = radians lat2; dlambda = radians (lon2 - lon1);
          x = sin dlambda * cos p2; y = cos p1 * sin p2 - sin p1 * cos p2 * cos dlambda in
      mod360 (degrees (Arg (Complex y x)) + 360))"

record backfill_point =
  bp_ts :: instant
  bp_lat :: real
  bp_lng :: real
  bp_speed :: real
  bp_heading :: real
  bp_accuracy :: real

text \<open>No start is a TypeError, a trip of no duration a division by zero.\<close>

datatype backfill_error = No_start | Zero_division

definition leg_seconds :: "nat \<Rightarrow> instant \<Rightarrow> instant \<Rightarrow> real" where
  "leg_seconds n start_ts end_ts = of_int (end_ts - start_ts) / of_int second / real (max (n - 1) 1)"

definition leg_steps :: "real \<Rightarrow> nat" where
  "leg_steps leg_s = nat (max \<lfloor>leg_s / of_int FIX_INTERVAL_S\<rfloor> 1)"

definition leg_point :: "(nat \<Rightarrow> real \<times> real) \<Rightarrow> real \<Rightarrow> stop \<Rightarrow> stop \<Rightarrow> instant \<Rightarrow> nat \<Rightarrow> backfill_point" where
  "leg_point draws leg_s a b t i =
     (let frac = real i / real (leg_steps leg_s);
          avg_speed = backfill_haversine (sp_lat a) (sp_lng a) (sp_lat b) (sp_lng b) / (leg_s / 3600) in
      \<lparr>bp_ts = t + int i * FIX_INTERVAL_S * second,
       bp_lat = lerp (sp_lat a) (sp_lat b) frac, bp_lng = lerp (sp_lng a) (sp_lng b) frac,
       bp_speed = max (avg_speed + fst (draws i)) 0,
       bp_heading = backfill_bearing (sp_lat a) (sp_lng a) (sp_lat b) (sp_lng b), bp_accuracy = snd (draws i)\<rparr>)"

fun build_legs :: "(nat \<Rightarrow> nat \<Rightarrow> real \<times> real) \<Rightarrow> real \<Rightarrow> nat \<Rightarrow> stop list \<Rightarrow> instant \<Rightarrow> backfill_point list" where
  "build_legs draws leg_s leg (a # b # stops) t =
     map (leg_point (draws leg) leg_s a b t) [0 ..< leg_steps leg_s] @
     build_legs draws leg_s (leg + 1) (b # stops) (t + int (leg_steps leg_s) * FIX_INTERVAL_S * second)"
| "build_legs draws leg_s leg _ t = []"

definition build_path ::
  "(nat \<Rightarrow> nat \<Rightarrow> real \<times> real) \<Rightarrow> stop list \<Rightarrow> instant \<Rightarrow> instant \<Rightarrow> backfill_error + backfill_point list" where
  "build_path draws stops start_ts end_ts =
     (let leg_s = leg_seconds (length stops) start_ts end_ts in
      if leg_s = 0 \<and> 2 \<le> length stops then Inl Zero_division else Inr (build_legs draws leg_s 0 stops start_ts))"

record backfill_doc =
  bd_bus_id :: string
  bd_helper_id :: string
  bd_trip_id :: string
  bd_ts :: instant
  bd_location :: "real \<times> real"
  bd_speed :: real
  bd_heading :: real
  bd_accuracy :: real

text \<open>The index by document id; an instant stands for its ISO text.\<close>

type_synonym backfill_index = "string \<Rightarrow> backfill_doc option"

definition trip_stops :: "database \<Rightarrow> trip \<Rightarrow> stop list" where
  "trip_stops db t = List.map_filter (\<lambda>rs. get_stop db (rs_stop_id rs))
     (sort_key rs_seq (filter (\<lambda>rs. rs_route_id rs = tr_route_id t) (db_route_stops db)))"

definition backfill_id :: "(uuid \<Rightarrow> string) \<Rightarrow> trip \<Rightarrow> nat \<Rightarrow> string" where
  "backfill_id uuid_text t i = uuid_text (tr_id t) @ ''-'' @ nat_str i"

definition backfill_doc_of :: "(uuid \<Rightarrow> string) \<Rightarrow> trip \<Rightarrow> backfill_point \<Rightarrow> backfill_doc" where
  "backfill_doc_of uuid_text t p =
     \<lparr>bd_bus_id = uuid_text (tr_bus_id t), bd_helper_id = uuid_text (tr_helper_id t), bd_trip_id = uuid_text (tr_id t),
       bd_ts = bp_ts p, bd_location = (bp_lat p, bp_lng p), bd_speed = round_to 1 (bp_speed p),
       bd_heading = round_to 1 (bp_heading p), bd_accuracy = round_to 1 (bp_accuracy p)\<rparr>"

definition backfill_docs :: "(uuid \<Rightarrow> string) \<Rightarrow> trip \<Rightarrow> backfill_point list \<Rightarrow> (string \<times> backfill_doc) list" where
  "backfill_docs uuid_text t path =
     map (\<lambda>(i, p). (backfill_id uuid_text t i, backfill_doc_of uuid_text t p)) (enumerate 0 path)"

definition bulk_index :: "(string \<times> backfill_doc) list \<Rightarrow> backfill_index \<Rightarrow> backfill_index" where
  "bulk_index docs index = fold (\<lambda>(k, d) ix. ix(k \<mapsto> d)) docs index"

definition backfill_trip ::
  "(uuid \<Rightarrow> string) \<Rightarrow> (nat \<Rightarrow> nat \<Rightarrow> real \<times> real) \<Rightarrow> database \<Rightarrow> trip \<Rightarrow> backfill_index \<Rightarrow>
   (backfill_error + nat) \<times> backfill_index" where
  "backfill_trip uuid_text draws db t index =
     (let stops = trip_stops db t in
      case tr_actual_end t of
        None \<Rightarrow> (Inr 0, index)
      | Some end_ts \<Rightarrow>
          if length stops < 2 then (Inr 0, index)
          else (case tr_actual_start t of
              None \<Rightarrow> (Inl No_start, index)
            | Some start_ts \<Rightarrow>
                (case build_path draws stops start_ts end_ts of
                   Inl e \<Rightarrow> (Inl e, index)
                 | Inr path \<Rightarrow>
                     let docs = backfill_docs uuid_text t path in (Inr (length docs), bulk_index docs index))))"

text \<open>\<^verbatim>\<open>main\<close>: every completed trip in turn; what is raised ends the run.\<close>

fun backfill_trips ::
  "(uuid \<Rightarrow> string) \<Rightarrow> (trip \<Rightarrow> nat \<Rightarrow> nat \<Rightarrow> real \<times> real) \<Rightarrow> database \<Rightarrow> trip list \<Rightarrow> backfill_index \<Rightarrow>
   (backfill_error + nat list) \<times> backfill_index" where
  "backfill_trips uuid_text draws db [] index = (Inr [], index)"
| "backfill_trips uuid_text draws db (t # ts) index =
     (case backfill_trip uuid_text (draws t) db t index of
        (Inl e, index') \<Rightarrow> (Inl e, index')
      | (Inr n, index') \<Rightarrow>
          (case backfill_trips uuid_text draws db ts index' of
             (Inl e, index'') \<Rightarrow> (Inl e, index'')
           | (Inr ns, index'') \<Rightarrow> (Inr (n # ns), index'')))"

definition backfill ::
  "(uuid \<Rightarrow> string) \<Rightarrow> (trip \<Rightarrow> nat \<Rightarrow> nat \<Rightarrow> real \<times> real) \<Rightarrow> database \<Rightarrow> backfill_index \<Rightarrow>
   (backfill_error + nat list) \<times> backfill_index" where
  "backfill uuid_text draws db index =
     backfill_trips uuid_text draws db (filter (\<lambda>t. tr_status t = Trip_completed) (db_trips db)) index"

section \<open>Where and when the back-filled bus was\<close>

lemma leg_steps_pos: "0 < leg_steps leg_s"
  by (simp add: leg_steps_def)

lemma leg_steps_fit: "15 \<le> leg_s \<Longrightarrow> real (leg_steps leg_s) * 15 \<le> leg_s"
proof -
  assume "15 \<le> leg_s"
  then have "1 \<le> \<lfloor>leg_s / 15\<rfloor>" by (simp add: le_floor_iff)
  then have "real (leg_steps leg_s) = of_int \<lfloor>leg_s / 15\<rfloor>" 
    by (simp add: leg_steps_def FIX_INTERVAL_S_def max_absorb1)
  moreover have "of_int \<lfloor>leg_s / 15\<rfloor> \<le> leg_s / 15" by (rule of_int_floor_le)
  ultimately show ?thesis by simp
qed

lemma leg_point_between:
  assumes "i < leg_steps leg_s"
  shows "min (sp_lat a) (sp_lat b) \<le> bp_lat (leg_point draws leg_s a b t i)"
    "bp_lat (leg_point draws leg_s a b t i) \<le> max (sp_lat a) (sp_lat b)"
    "min (sp_lng a) (sp_lng b) \<le> bp_lng (leg_point draws leg_s a b t i)"
    "bp_lng (leg_point draws leg_s a b t i) \<le> max (sp_lng a) (sp_lng b)"
proof -
  have "0 \<le> real i / real (leg_steps leg_s)" "real i / real (leg_steps leg_s) \<le> 1" using assms by simp_all
  note b = between_weight [OF this]
  show "min (sp_lat a) (sp_lat b) \<le> bp_lat (leg_point draws leg_s a b t i)"
    "bp_lat (leg_point draws leg_s a b t i) \<le> max (sp_lat a) (sp_lat b)"
    "min (sp_lng a) (sp_lng b) \<le> bp_lng (leg_point draws leg_s a b t i)"
    "bp_lng (leg_point draws leg_s a b t i) \<le> max (sp_lng a) (sp_lng b)"
    using b [of "sp_lat a" "sp_lat b"] b [of "sp_lng a" "sp_lng b"] by (simp_all add: leg_point_def Let_def lerp_def)
qed

definition on_a_leg :: "stop list \<Rightarrow> backfill_point \<Rightarrow> bool" where
  "on_a_leg stops p \<longleftrightarrow> (\<exists>j. Suc j < length stops \<and>
     min (sp_lat (stops ! j)) (sp_lat (stops ! Suc j)) \<le> bp_lat p \<and> bp_lat p \<le> max (sp_lat (stops ! j)) (sp_lat (stops ! Suc j)) \<and>
     min (sp_lng (stops ! j)) (sp_lng (stops ! Suc j)) \<le> bp_lng p \<and> bp_lng p \<le> max (sp_lng (stops ! j)) (sp_lng (stops ! Suc j)))"

lemma on_a_leg_Cons: "on_a_leg stops p \<Longrightarrow> on_a_leg (a # stops) p"
proof -
  assume "on_a_leg stops p"
  then obtain j where j: "Suc j < length stops"
    "min (sp_lat (stops ! j)) (sp_lat (stops ! Suc j)) \<le> bp_lat p" "bp_lat p \<le> max (sp_lat (stops ! j)) (sp_lat (stops ! Suc j))"
    "min (sp_lng (stops ! j)) (sp_lng (stops ! Suc j)) \<le> bp_lng p" "bp_lng p \<le> max (sp_lng (stops ! j)) (sp_lng (stops ! Suc j))"
    unfolding on_a_leg_def by blast
  then show ?thesis unfolding on_a_leg_def by (intro exI [of _ "Suc j"]) simp
qed

lemma legs_on_route: "p \<in> set (build_legs draws leg_s leg stops t) \<Longrightarrow> on_a_leg stops p"
proof (induction draws leg_s leg stops t rule: build_legs.induct)
  case (1 draws leg_s leg a b stops t)
  show ?case
  proof (cases "p \<in> set (build_legs draws leg_s (leg + 1) (b # stops) (t + int (leg_steps leg_s) * FIX_INTERVAL_S * second))")
    case True
    with 1 have "on_a_leg (b # stops) p" by simp
    then show ?thesis by (rule on_a_leg_Cons)
  next
    case False
    with 1 obtain i where "i < leg_steps leg_s" "p = leg_point (draws leg) leg_s a b t i" by auto
    with leg_point_between [where i = i and leg_s = leg_s and a = a and b = b and draws = "draws leg" and t = t] show ?thesis
      unfolding on_a_leg_def by (intro exI [of _ 0]) simp
  qed
qed simp_all

text \<open>The \<open>k\<close>-th fix is 15 seconds times \<open>k\<close> after the start.\<close>

lemma legs_count: "length (build_legs draws leg_s leg stops t) = (length stops - 1) * leg_steps leg_s"
  by (induction draws leg_s leg stops t rule: build_legs.induct) simp_all

lemma legs_time:
  "k < length (build_legs draws leg_s leg stops t) \<Longrightarrow>
   bp_ts (build_legs draws leg_s leg stops t ! k) = t + int k * FIX_INTERVAL_S * second"
proof (induction draws leg_s leg stops t arbitrary: k rule: build_legs.induct)
  case (1 draws leg_s leg a b stops t)
  show ?case
  proof (cases "k < leg_steps leg_s")
    case True
    then show ?thesis by (simp add: nth_append leg_point_def Let_def)
  next
    case False
    let ?rest = "build_legs draws leg_s (leg + 1) (b # stops) (t + int (leg_steps leg_s) * FIX_INTERVAL_S * second)"
    have "k - leg_steps leg_s < length ?rest" using 1(2) False by simp
    from 1(1) [OF this] have "bp_ts (?rest ! (k - leg_steps leg_s)) =
        t + int (leg_steps leg_s) * FIX_INTERVAL_S * second + int (k - leg_steps leg_s) * FIX_INTERVAL_S * second" .
    with False show ?thesis by (simp add: nth_append of_nat_diff algebra_simps)
  qed
qed simp_all

text \<open>
  A back-filled trip is a drive along its route. Where the trip gives each leg at least one interval,
  its fixes start with the trip, follow one another every fifteen seconds, all lie before the trip's
  end, and stand on a leg between two neighbouring stops.
\<close>

theorem backfill_stays_within_the_trip:
  assumes "build_path draws stops start_ts end_ts = Inr path" "2 \<le> length stops"
    "15 * second * int (length stops - 1) \<le> end_ts - start_ts"
  shows "path \<noteq> [] \<and> (\<forall>p \<in> set path. on_a_leg stops p) \<and>
    (\<forall>k < length path. bp_ts (path ! k) = start_ts + int k * (15 * second) \<and> bp_ts (path ! k) < end_ts)"
proof -
  define n where "n = length stops - 1"
  define leg_s where "leg_s = leg_seconds (length stops) start_ts end_ts"
  have n: "0 < n" using assms(2) by (simp add: n_def)
  have path: "path = build_legs draws leg_s 0 stops start_ts"
    using assms(1) by (auto simp: build_path_def Let_def leg_s_def split: if_splits)
  have "max (length stops - 1) 1 = n" using n by (simp add: n_def)
  then have "leg_s = of_int (end_ts - start_ts) / of_int second / real n" by (simp only: leg_s_def leg_seconds_def)
  then have total: "leg_s * real n * of_int second = of_int (end_ts - start_ts)" using n by simp
  have "of_int (15 * second * int n) \<le> (of_int (end_ts - start_ts) :: real)"
    using assms(3) unfolding n_def of_int_le_iff .
  then have "15 * real n \<le> leg_s * real n" using total by simp
  then have leg: "15 \<le> leg_s" using n by simp
  have len: "length path = n * leg_steps leg_s" by (simp add: path legs_count n_def)
  have "real (length path) * 15 \<le> leg_s * real n"
    using mult_left_mono [OF leg_steps_fit [OF leg], of "real n"] by (simp add: len ac_simps)
  then have "real_of_int (int (length path) * (15 * second)) \<le> of_int (end_ts - start_ts)" unfolding total [symmetric] by simp
  then have fits: "int (length path) * (15 * second) \<le> end_ts - start_ts" unfolding of_int_le_iff .
  have time: "bp_ts (path ! k) = start_ts + int k * (15 * second) \<and> bp_ts (path ! k) < end_ts" if "k < length path" for k
  proof -
    have "bp_ts (path ! k) = start_ts + int k * (15 * second)"
      using legs_time [of k draws leg_s 0 stops start_ts] that by (simp add: path FIX_INTERVAL_S_def)
    moreover have "int k * (15 * second) < int (length path) * (15 * second)" using that by simp
    ultimately show ?thesis using fits by linarith
  qed
  moreover have "path \<noteq> []" using len n leg_steps_pos [of leg_s] by auto
  moreover have "\<forall>p \<in> set path. on_a_leg stops p" using legs_on_route by (auto simp: path)
  ultimately show ?thesis by blast
qed

text \<open>What a run writes depends on the draws, which documents it writes does not.\<close>

lemma bulk_index_dom: "dom (bulk_index docs index) = dom index \<union> fst ` set docs"
  unfolding bulk_index_def by (induction docs arbitrary: index) auto

lemma build_path_shape:
  "map_sum id length (build_path draws stops start_ts end_ts) = map_sum id length (build_path draws' stops start_ts end_ts)"
  by (simp add: build_path_def Let_def legs_count)

lemma backfill_docs_ids: "fst ` set (backfill_docs uuid_text t path) = backfill_id uuid_text t ` {..< length path}"
proof -
  have "map fst (backfill_docs uuid_text t path) = map (\<lambda>i. backfill_id uuid_text t i) [0 ..< length path]"
    by (rule nth_equalityI) (simp_all add: backfill_docs_def nth_enumerate_eq)
  then have "fst ` set (backfill_docs uuid_text t path) = set (map (\<lambda>i. backfill_id uuid_text t i) [0 ..< length path])"
    by (metis set_map)
  then show ?thesis by (simp add: atLeast0LessThan)
qed

definition writes_ids :: "('d \<Rightarrow> backfill_index \<Rightarrow> 'r \<times> backfill_index) \<Rightarrow> 'r \<Rightarrow> string set \<Rightarrow> bool" where
  "writes_ids f r K \<longleftrightarrow> (\<forall>draws index. fst (f draws index) = r \<and> dom (snd (f draws index)) = dom index \<union> K)"

lemma writes_idsD:
  assumes "writes_ids f r K"
  shows "f draws index = (r, snd (f draws index))" "dom (snd (f draws index)) = dom index \<union> K"
  using assms by (auto simp: writes_ids_def intro: prod_eqI)

lemma backfill_trip_shape: "\<exists>r K. writes_ids (\<lambda>draws. backfill_trip uuid_text draws db t) r K"
proof (cases "tr_actual_end t = None \<or> length (trip_stops db t) < 2")
  case True
  then show ?thesis by (intro exI [of _ "Inr 0"] exI [of _ "{}"]) (auto simp: writes_ids_def backfill_trip_def Let_def split: option.split)
next
  case run: False
  show ?thesis
  proof (cases "tr_actual_start t")
    case None
    with run show ?thesis by (intro exI [of _ "Inl No_start"] exI [of _ "{}"]) (auto simp: writes_ids_def backfill_trip_def Let_def)
  next
    case (Some start_ts)
    obtain end_ts where end_ts: "tr_actual_end t = Some end_ts" using run by auto
    define shape where "shape = map_sum id length (build_path (\<lambda>_ _. (0, 0)) (trip_stops db t) start_ts end_ts)"
    have same: "map_sum id length (build_path draws (trip_stops db t) start_ts end_ts) = shape" for draws
      unfolding shape_def by (rule build_path_shape)
    show ?thesis
    proof (cases shape)
      case (Inl e)
      have "build_path draws (trip_stops db t) start_ts end_ts = Inl e" for draws
        using same [of draws] Inl by (cases "build_path draws (trip_stops db t) start_ts end_ts") simp_all
      with run end_ts Some show ?thesis
        by (intro exI [of _ "Inl e"] exI [of _ "{}"]) (auto simp: writes_ids_def backfill_trip_def Let_def)
    next
      case (Inr n)
      have "fst (backfill_trip uuid_text draws db t index) = Inr n \<and>
          dom (snd (backfill_trip uuid_text draws db t index)) = dom index \<union> backfill_id uuid_text t ` {..< n}" for draws index
      proof -
        obtain path where path: "build_path draws (trip_stops db t) start_ts end_ts = Inr path" "length path = n"
          using same [of draws] Inr by (cases "build_path draws (trip_stops db t) start_ts end_ts") simp_all
        then have "backfill_trip uuid_text draws db t index =
            (Inr (length (backfill_docs uuid_text t path)), bulk_index (backfill_docs uuid_text t path) index)"
          using run end_ts Some by (simp add: backfill_trip_def Let_def)
        moreover have "length (backfill_docs uuid_text t path) = n" using path(2) by (simp add: backfill_docs_def)
        ultimately show ?thesis using path(2) by (simp only: fst_conv snd_conv bulk_index_dom backfill_docs_ids)
      qed
      then have "writes_ids (\<lambda>draws. backfill_trip uuid_text draws db t) (Inr n) (backfill_id uuid_text t ` {..< n})"
        by (simp add: writes_ids_def)
      then show ?thesis by blast
    qed
  qed
qed

lemma backfill_trips_shape: "\<exists>r K. writes_ids (\<lambda>draws. backfill_trips uuid_text draws db ts) r K"
proof (induction ts)
  case (Cons t ts)
  obtain r1 K1 where 1: "writes_ids (\<lambda>draws. backfill_trip uuid_text draws db t) r1 K1"
    using backfill_trip_shape by blast
  obtain r2 K2 where 2: "writes_ids (\<lambda>draws. backfill_trips uuid_text draws db ts) r2 K2"
    using Cons.IH by blast
  note trip = writes_idsD [OF 1] and trips = writes_idsD [OF 2]
  show ?case
  proof (cases r1)
    case (Inl e)
    then have "backfill_trips uuid_text draws db (t # ts) index = (Inl e, snd (backfill_trip uuid_text (draws t) db t index))" for draws index
      using Inl by (simp only: backfill_trips.simps) (subst trip(1), simp)
    with trip(2) show ?thesis
      by (intro exI [of _ "Inl e"] exI [of _ K1]) (simp add: writes_ids_def del: backfill_trips.simps)
  next
    case (Inr n)
    have "backfill_trips uuid_text draws db (t # ts) index =
        ((case r2 of Inl e \<Rightarrow> Inl e | Inr ns \<Rightarrow> Inr (n # ns)),
         snd (backfill_trips uuid_text draws db ts (snd (backfill_trip uuid_text (draws t) db t index))))" for draws index
    proof -
      define index' where "index' = snd (backfill_trip uuid_text (draws t) db t index)"
      have "backfill_trip uuid_text (draws t) db t index = (Inr n, index')"
        using trip(1) [of "draws t" index] Inr by (simp add: index'_def)
      moreover obtain index'' where "backfill_trips uuid_text draws db ts index' = (r2, index'')"
        using trips(1) [of draws index'] by blast
      ultimately show ?thesis unfolding index'_def [symmetric] by (simp split: sum.split)
    qed
    with trip(2) trips(2) show ?thesis
      by (intro exI [of _ "case r2 of Inl e \<Rightarrow> Inl e | Inr ns \<Rightarrow> Inr (n # ns)"] exI [of _ "K1 \<union> K2"])
        (simp add: writes_ids_def Un_assoc del: backfill_trips.simps)
  qed
next
  case Nil
  have "writes_ids (\<lambda>draws. backfill_trips uuid_text draws db []) (Inr []) {}" by (simp add: writes_ids_def)
  then show ?case by blast
qed

text \<open>
  Running it again replaces, it does not add: whatever the second run draws, it ends as the first did
  and leaves the same documents in the index.
\<close>

theorem backfill_again_adds_nothing:
  assumes "backfill uuid_text draws db index = (out, index')"
  shows "fst (backfill uuid_text draws' db index') = out \<and> dom (snd (backfill uuid_text draws' db index')) = dom index'"
proof -
  obtain r K where "writes_ids (\<lambda>draws. backfill uuid_text draws db) r K"
    unfolding backfill_def using backfill_trips_shape by blast
  note shape = writes_idsD [OF this]
  have "out = r" "dom index' = dom index \<union> K" using shape(1) [of draws index] shape(2) [of draws index] assms by simp_all
  moreover have "fst (backfill uuid_text draws' db index') = r" using shape(1) by (metis fst_conv)
  ultimately show ?thesis using shape(2) [of draws' index'] by auto
qed

section \<open>Instances\<close>

theorem admin_command_lets_the_admin_in_witness:
  "\<exists>db' u. set_admin_password demo_lib 9 0 demo_now empty_db ''boss@x.edu'' ''password1'' None = (Admin_created, db') \<and>
    us_role u = Role_admin \<and>
    login_request demo_lib Some demo_settings ''j1'' ''j2'' demo_now db' (strip ''boss@x.edu'') ''password1'' =
      Inr (issue_pair demo_lib demo_settings ''j1'' ''j2'' demo_now u)"
proof -
  have email: "lower (strip ''boss@x.edu'') = ''boss@x.edu''" by code_simp
  define u where "u = \<lparr>us_id = 9, us_created_at = demo_now, us_email = ''boss@x.edu'',
    us_password_hash = lib_hash demo_lib 0 ''password1'', us_role = Role_admin, us_name = ''UniTrack Admin'',
    us_phone = None, us_photo_url = None, us_status = User_active\<rparr>"
  have "user_fits u" by (simp add: u_def user_fits_def demo_lib_def unary_text_def fits_def)
  moreover have "db_ok (empty_db\<lparr>db_users := db_users empty_db @ [u]\<rparr>)"
    by (simp add: db_ok_defs empty_db_def unique_on_def)
  ultimately have "write_user u (empty_db\<lparr>db_users := db_users empty_db @ [u]\<rparr>) = Inr (empty_db\<lparr>db_users := db_users empty_db @ [u]\<rparr>)"
    by (simp add: write_user_def flush_def commit_def)
  moreover have "find_user empty_db ''boss@x.edu'' = Inr None" by (simp add: find_user_def empty_db_def)
  ultimately have run: "set_admin_password demo_lib 9 0 demo_now empty_db ''boss@x.edu'' ''password1'' None =
      (Admin_created, empty_db\<lparr>db_users := db_users empty_db @ [u]\<rparr>)"
    unfolding set_admin_password_def Let_def email by (simp add: MIN_PASSWORD_LEN_def u_def)
  have "lib_verify demo_lib (lib_hash demo_lib 0 ''password1'') ''password1'' = Some True" by (simp add: demo_lib_verify)
  from admin_command_lets_the_admin_in [OF run this, of Some demo_settings "''j1''" "''j2''" demo_now]
  obtain v where "us_role v = Role_admin"
    "login_request demo_lib Some demo_settings ''j1'' ''j2'' demo_now (empty_db\<lparr>db_users := db_users empty_db @ [u]\<rparr>) (strip ''boss@x.edu'') ''password1'' =
      Inr (issue_pair demo_lib demo_settings ''j1'' ''j2'' demo_now v)" by auto
  with run show ?thesis by blast
qed

end
