(* ===== verification/EsIndex.thy ===== *)
theory EsIndex
  imports Startup GpsHistory
begin

text \<open>
  The Elasticsearch side: \<^verbatim>\<open>app/core/elasticsearch.py\<close>. The client itself is the
  library's; here are the arguments it is built with, the one index with its mapping, and what the
  searches of \<open>GpsHistory\<close> ask of that mapping.
\<close>

section \<open>The client\<close>

record es_args =
  ea_hosts :: "string list"
  ea_basic_auth :: "(string \<times> string) option"

definition es_client_args :: "app_settings \<Rightarrow> es_args" where
  "es_client_args cfg = \<lparr>ea_hosts = [elasticsearch_url cfg],
     ea_basic_auth = (if elasticsearch_user cfg \<noteq> [] \<and> elasticsearch_password cfg \<noteq> []
       then Some (elasticsearch_user cfg, elasticsearch_password cfg) else None)\<rparr>"

text \<open>The process-wide client: built on the first call, whatever the settings are later.\<close>

definition get_es_client :: "app_settings \<Rightarrow> es_args option \<Rightarrow> es_args \<times> es_args option" where
  "get_es_client cfg client =
     (case client of Some c \<Rightarrow> (c, client) | None \<Rightarrow> (es_client_args cfg, Some (es_client_args cfg)))"

section \<open>The index\<close>

datatype es_type = Es_keyword | Es_date | Es_geo_point | Es_float

type_synonym es_mapping = "(string \<times> es_type) list"

definition GPS_MAPPING :: es_mapping where
  "GPS_MAPPING =
     [(''bus_id'', Es_keyword), (''helper_id'', Es_keyword), (''trip_id'', Es_keyword), (''ts'', Es_date),
      (''location'', Es_geo_point), (''speed'', Es_float), (''heading'', Es_float), (''accuracy'', Es_float)]"

definition GPS_INDEX :: "app_settings \<Rightarrow> string" where "GPS_INDEX cfg = gps_index cfg"

text \<open>The indices of the cluster by name. An index that exists keeps the mapping it has.\<close>

definition ensure_gps_index :: "app_settings \<Rightarrow> (string \<Rightarrow> es_mapping option) \<Rightarrow> string \<Rightarrow> es_mapping option" where
  "ensure_gps_index cfg indices =
     (if indices (GPS_INDEX cfg) = None then indices(GPS_INDEX cfg \<mapsto> GPS_MAPPING) else indices)"

lemma ensure_again: "ensure_gps_index cfg (ensure_gps_index cfg indices) = ensure_gps_index cfg indices"
  by (simp add: ensure_gps_index_def)

lemma one_client: "get_es_client cfg' (snd (get_es_client cfg client)) = get_es_client cfg client"
  by (auto simp: get_es_client_def split: option.split)

section \<open>What the searches need of it\<close>

text \<open>
  A term or a collapse needs an exact keyword, a range over instants a date, a distance a geo point.
\<close>

fun filter_mapped :: "es_mapping \<Rightarrow> es_filter \<Rightarrow> bool" where
  "filter_mapped mapping (Es_term k _) = (map_of mapping k = Some Es_keyword)"
| "filter_mapped mapping (Es_within _ _) = (map_of mapping ''location'' = Some Es_geo_point)"
| "filter_mapped mapping (Es_since _) = (map_of mapping ''ts'' = Some Es_date)"
| "filter_mapped mapping (Es_between _ _) = (map_of mapping ''ts'' = Some Es_date)"

definition query_mapped :: "es_mapping \<Rightarrow> es_query \<Rightarrow> bool" where
  "query_mapped mapping q \<longleftrightarrow> (\<forall>f \<in> set (eq_filters q). filter_mapped mapping f) \<and>
     (\<forall>k. eq_collapse q = Some k \<longrightarrow> map_of mapping k = Some Es_keyword)"

text \<open>
  The index fits its readers and its writer: every search of the tracking routes filters and collapses
  on fields the mapping indexes for that use, and every field of an indexed position is in the mapping.
\<close>

theorem searches_fit_the_mapping:
  "query_mapped GPS_MAPPING (build_nearby_query origin radius cutoff limit) \<and>
   query_mapped GPS_MAPPING (history_query uuid_text bus_id from_ts to_ts trip_id limit)"
  by (auto simp: query_mapped_def build_nearby_query_def history_query_def GPS_MAPPING_def split: option.splits)

theorem documents_fit_the_mapping:
  "fst ` set (so_fields (source_of num_text d)) \<union> {''location''} = fst ` set GPS_MAPPING"
  by (auto simp: source_of_def Let_def GPS_MAPPING_def)

end
