(* ===== verification/Worker.thy ===== *)
theory Worker
  imports Reconciler FraudSweep GpsHistory
begin

text \<open>
  The worker process, \<^verbatim>\<open>app/worker/__main__.py\<close>: four jobs under one
  \<^verbatim>\<open>asyncio.gather\<close>, each an endless loop over the pass its own theory models. Three of the
  loops log whatever their pass raises and go on; the indexer's does not, and what it raises ends
  \<^verbatim>\<open>gather\<close> and with it the process. A schedule is the list of turns in the order they are
  taken, a turn being one pass of one job with what the outside answers it; passes are not split.
\<close>

section \<open>The process\<close>

record worker =
  wk_db :: database
  wk_redis :: redis
  wk_index :: indexer
  wk_running :: bool

text \<open>The renderings the passes share.\<close>

record worker_lib =
  wl_iso_of :: "string \<Rightarrow> instant option"
  wl_iso_text :: "instant \<Rightarrow> string"
  wl_uuid_text :: "uuid \<Rightarrow> string"
  wl_float_text :: "real \<Rightarrow> string"

datatype worker_turn =
    Index_turn bool "nat option" bool
  | Reconcile_turn "string \<Rightarrow> gateway_error + doc list" "nat \<Rightarrow> issue_env" instant
  | Eta_turn "trip \<Rightarrow> es_source list option" "trip \<Rightarrow> bool \<times> bool \<times> bool" instant
  | Sweep_turn "reused_code list \<Rightarrow> reused_code list" "nat \<Rightarrow> uuid" instant

definition eta_pass ::
  "worker_lib \<Rightarrow> (trip \<Rightarrow> es_source list option) \<Rightarrow> (trip \<Rightarrow> bool \<times> bool \<times> bool) \<Rightarrow> instant \<Rightarrow> database \<Rightarrow> redis \<Rightarrow> redis" where
  "eta_pass lib hits ups now db r =
     snd (compute_once (\<lambda>t r. case ups t of (up1, up2, up3) \<Rightarrow>
        compute_for_trip (wl_iso_of lib) (wl_iso_text lib) (wl_uuid_text lib) (wl_float_text lib) up1 up2 up3 db r (hits t) t now)
      (live_trips db) r)"

text \<open>
  One turn of each loop. What a pass of the reconciler, the engine or the sweep raises is logged, and
  the loop goes on; the indexer's loop has no such guard.
\<close>

definition indexer_loop :: "bool \<Rightarrow> nat option \<Rightarrow> bool \<Rightarrow> worker \<Rightarrow> worker" where
  "indexer_loop timeout bulk ack s =
     (case index_turn timeout bulk ack (re_stream (wk_redis s)) (wk_index s) of
        (answer, ix) \<Rightarrow> s\<lparr>wk_index := ix, wk_running := wk_running s \<and> answer \<noteq> Died\<rparr>)"

definition reconciler_loop ::
  "(string \<Rightarrow> gateway_error + doc list) \<Rightarrow> (nat \<Rightarrow> issue_env) \<Rightarrow> instant \<Rightarrow> worker \<Rightarrow> worker" where
  "reconciler_loop query ienvs now s =
     (case reconcile_once query (\<lambda>d. d) ienvs now (wk_db s) of
        (Inl _, db) \<Rightarrow> s\<lparr>wk_db := db\<rparr> | (Inr _, db) \<Rightarrow> s\<lparr>wk_db := db\<rparr>)"

definition eta_loop ::
  "worker_lib \<Rightarrow> (trip \<Rightarrow> es_source list option) \<Rightarrow> (trip \<Rightarrow> bool \<times> bool \<times> bool) \<Rightarrow> instant \<Rightarrow> worker \<Rightarrow> worker" where
  "eta_loop lib hits ups now s = s\<lparr>wk_redis := eta_pass lib hits ups now (wk_db s) (wk_redis s)\<rparr>"

definition sweep_loop ::
  "worker_lib \<Rightarrow> (reused_code list \<Rightarrow> reused_code list) \<Rightarrow> (nat \<Rightarrow> uuid) \<Rightarrow> instant \<Rightarrow> worker \<Rightarrow> worker" where
  "sweep_loop lib arrange new_id now s =
     (case sweep_once arrange (wl_uuid_text lib) new_id now (wk_db s) of
        Inl _ \<Rightarrow> s | Inr (_, db) \<Rightarrow> s\<lparr>wk_db := db\<rparr>)"

lemma reconciler_loop_db [simp]:
  "reconciler_loop query ienvs now s = s\<lparr>wk_db := snd (reconcile_once query (\<lambda>d. d) ienvs now (wk_db s))\<rparr>"
  by (simp add: reconciler_loop_def split: prod.split sum.split)

declare indexer_loop_def [simp] eta_loop_def [simp] sweep_loop_def [simp]

fun job_turn :: "worker_lib \<Rightarrow> worker_turn \<Rightarrow> worker \<Rightarrow> worker" where
  "job_turn lib (Index_turn timeout bulk ack) s = indexer_loop timeout bulk ack s"
| "job_turn lib (Reconcile_turn query ienvs now) s = reconciler_loop query ienvs now s"
| "job_turn lib (Eta_turn hits ups now) s = eta_loop lib hits ups now s"
| "job_turn lib (Sweep_turn arrange new_id now) s = sweep_loop lib arrange new_id now s"

text \<open>\<^verbatim>\<open>gather\<close>: once a job has raised, nobody takes another turn.\<close>

definition worker_step :: "worker_lib \<Rightarrow> worker_turn \<Rightarrow> worker \<Rightarrow> worker" where
  "worker_step lib t s = (if wk_running s then job_turn lib t s else s)"

definition worker_main :: "worker_lib \<Rightarrow> worker_turn list \<Rightarrow> worker \<Rightarrow> worker" where
  "worker_main lib turns s = fold (worker_step lib) turns s"

text \<open>The jobs alone.\<close>

fun is_index :: "worker_turn \<Rightarrow> bool" where "is_index (Index_turn _ _ _) = True" | "is_index _ = False"
fun is_eta :: "worker_turn \<Rightarrow> bool" where "is_eta (Eta_turn _ _ _) = True" | "is_eta _ = False"
fun is_books :: "worker_turn \<Rightarrow> bool" where
  "is_books (Reconcile_turn _ _ _) = True" | "is_books (Sweep_turn _ _ _) = True" | "is_books _ = False"

section \<open>What a pass leaves alone\<close>

text \<open>The routes and trips the arrival engine reads.\<close>

definition timetable :: "database \<Rightarrow> trip list \<times> route_stop list \<times> stop list" where
  "timetable db = (db_trips db, db_route_stops db, db_stops db)"

lemma flush_settled_timetable [simp]: "timetable (flush_settled loaded obj staged db) = timetable db"
  by (simp add: flush_settled_def timetable_def Let_def split: option.split)

lemma flush_writes_timetable [simp]: "timetable (flush_writes ws db) = timetable db"
  unfolding flush_writes_def by (induction ws arbitrary: db) auto

lemma commit_same: "commit db = Inr db' \<Longrightarrow> db' = db"
  by (auto simp: commit_def split: if_splits)

lemma reconcile_timetable [simp]: "timetable (snd (reconcile_once query (\<lambda>d. d) ienvs now db)) = timetable db"
  by (auto simp: reconcile_once_def split: sum.split db_error.split prod.split dest!: commit_same)

lemma sweep_row_timetable: "timetable (snd (sweep_row uuid_text new_id now s row)) = timetable (snd s)"
  by (cases s; cases row) (simp add: sweep_row_def timetable_def Let_def split: option.split)

lemma sweep_fold_timetable: "timetable (snd (fold (\<lambda>row s. sweep_row uuid_text new_id now s row) rows s)) = timetable (snd s)"
  by (induction rows arbitrary: s) (simp_all add: sweep_row_timetable)

lemma sweep_timetable: "sweep_once arrange uuid_text new_id now db = Inr (tally, db') \<Longrightarrow> timetable db' = timetable db"
proof -
  assume run: "sweep_once arrange uuid_text new_id now db = Inr (tally, db')"
  obtain t d where fold: "fold (\<lambda>row s. sweep_row uuid_text new_id now s row) (unhandled_duplicates arrange db)
      (\<lparr>sw_flagged = 0, sw_suspended = 0\<rparr>, db) = (t, d)" by fastforce
  then have "timetable d = timetable db" using sweep_fold_timetable by (metis snd_conv)
  with run fold show ?thesis by (auto simp: sweep_once_def split: if_splits sum.splits dest!: commit_same)
qed

lemma compute_for_trip_timetable:
  "timetable db = timetable db' \<Longrightarrow>
   compute_for_trip iso_of iso_text uuid_text float_text up1 up2 up3 db r hits t now =
   compute_for_trip iso_of iso_text uuid_text float_text up1 up2 up3 db' r hits t now"
proof -
  assume "timetable db = timetable db'"
  then have "route_points uuid_text db t = route_points uuid_text db' t"
    by (simp add: route_points_def route_point_of_def [abs_def] stops_of_route_def timetable_def)
  then show ?thesis by (simp add: compute_for_trip_def)
qed

lemma eta_pass_timetable: "timetable db = timetable db' \<Longrightarrow> eta_pass lib hits ups now db r = eta_pass lib hits ups now db' r"
proof -
  assume same: "timetable db = timetable db'"
  then have "live_trips db = live_trips db'" by (simp add: live_trips_def timetable_def)
  with compute_for_trip_timetable [OF same] show ?thesis by (simp add: eta_pass_def cong: prod.case_cong)
qed

lemma compute_for_trip_stream:
  "re_stream (snd (compute_for_trip iso_of iso_text uuid_text float_text up1 up2 up3 db r hits t now)) = re_stream r"
  by (auto simp: compute_for_trip_def carry_progress_def save_progress_def redis_set_def Let_def
      split: option.split sum.split prod.split)

lemma eta_pass_stream [simp]: "re_stream (eta_pass lib hits ups now db r) = re_stream r"
proof -
  have "re_stream (snd (foldl (eta_step compute) s ts)) = re_stream (snd s)"
    if "\<And>t r. re_stream (snd (compute t r)) = re_stream r" for compute s ts
    using that by (induction ts arbitrary: s) (simp_all add: eta_step_def split: prod.split, metis snd_conv)
  from this [of "\<lambda>t r. case ups t of (up1, up2, up3) \<Rightarrow>
      compute_for_trip (wl_iso_of lib) (wl_iso_text lib) (wl_uuid_text lib) (wl_float_text lib) up1 up2 up3 db r (hits t) t now"]
  show ?thesis by (simp add: eta_pass_def compute_once_def compute_for_trip_stream split: prod.split)
qed

section \<open>Each job sees only its own part\<close>

text \<open>
  A job's part of the state: the turns of the other jobs leave it as it was, and what its own turns
  make of it depends on nothing else.
\<close>

locale job_part =
  fixes lib :: worker_lib and mine :: "worker_turn \<Rightarrow> bool" and part :: "worker \<Rightarrow> 'p"
  assumes others: "\<not> mine t \<Longrightarrow> part (job_turn lib t s) = part s"
    and own: "mine t \<Longrightarrow> part s = part s' \<Longrightarrow> part (job_turn lib t s) = part (job_turn lib t s')"
begin

lemma alone_from: "part s = part s' \<Longrightarrow> part (fold (job_turn lib) ts s) = part (fold (job_turn lib) (filter mine ts) s')"
proof (induction ts arbitrary: s s')
  case (Cons t ts)
  show ?case
  proof (cases "mine t")
    case True
    with Cons.IH [OF own [OF True Cons.prems]] show ?thesis by simp
  next
    case False
    have "part (job_turn lib t s) = part s'" using others [OF False] Cons.prems by simp
    from Cons.IH [OF this] False show ?thesis by simp
  qed
qed simp

lemma alone: "part (fold (job_turn lib) ts s) = part (fold (job_turn lib) (filter mine ts) s)"
  by (rule alone_from) (rule refl)

end

interpretation indexer_part: job_part lib is_index "\<lambda>s :: worker. (re_stream (wk_redis s), wk_index s)" for lib
proof
  fix t and s :: worker
  show "\<not> is_index t \<Longrightarrow> (re_stream (wk_redis (job_turn lib t s)), wk_index (job_turn lib t s)) = (re_stream (wk_redis s), wk_index s)"
    by (cases t) (auto split: sum.split)
next
  fix t and s s' :: worker
  assume "is_index t" and same: "(re_stream (wk_redis s), wk_index s) = (re_stream (wk_redis s'), wk_index s')"
  then obtain timeout bulk ack where "t = Index_turn timeout bulk ack" by (cases t) auto
  with same show "(re_stream (wk_redis (job_turn lib t s)), wk_index (job_turn lib t s)) =
      (re_stream (wk_redis (job_turn lib t s')), wk_index (job_turn lib t s'))"
    by (simp split: prod.split)
qed

interpretation books_part: job_part lib is_books wk_db for lib
proof
  fix t and s :: worker
  show "\<not> is_books t \<Longrightarrow> wk_db (job_turn lib t s) = wk_db s" by (cases t) (auto split: prod.split)
next
  fix t and s s' :: worker
  show "is_books t \<Longrightarrow> wk_db s = wk_db s' \<Longrightarrow> wk_db (job_turn lib t s) = wk_db (job_turn lib t s')"
    by (cases t) (auto split: sum.split)
qed

interpretation board_part: job_part lib is_eta "\<lambda>s :: worker. (timetable (wk_db s), wk_redis s)" for lib
proof
  fix t and s :: worker
  show "\<not> is_eta t \<Longrightarrow> (timetable (wk_db (job_turn lib t s)), wk_redis (job_turn lib t s)) = (timetable (wk_db s), wk_redis s)"
    by (cases t) (auto split: sum.split prod.split dest: sweep_timetable)
next
  fix t and s s' :: worker
  show "is_eta t \<Longrightarrow> (timetable (wk_db s), wk_redis s) = (timetable (wk_db s'), wk_redis s') \<Longrightarrow>
      (timetable (wk_db (job_turn lib t s)), wk_redis (job_turn lib t s)) =
      (timetable (wk_db (job_turn lib t s')), wk_redis (job_turn lib t s'))"
    by (cases t) (auto dest: eta_pass_timetable)
qed

section \<open>The process runs as long as its indexer\<close>

lemma job_turn_running: "wk_running (job_turn lib t s) \<Longrightarrow> wk_running s"
  by (cases t) (auto split: prod.splits sum.splits)

lemma stopped_stays: "\<not> wk_running s \<Longrightarrow> worker_main lib ts s = s"
  unfolding worker_main_def by (induction ts) (simp_all add: worker_step_def)

lemma worker_main_Cons [simp]: "worker_main lib (t # ts) s = worker_main lib ts (worker_step lib t s)"
  by (simp add: worker_main_def)

lemma worker_main_Nil [simp]: "worker_main lib [] s = s"
  by (simp add: worker_main_def)

lemma worker_main_running: "wk_running (worker_main lib ts s) \<Longrightarrow> worker_main lib ts s = fold (job_turn lib) ts s"
proof (induction ts arbitrary: s)
  case (Cons t ts)
  have "wk_running (worker_step lib t s)"
    using Cons.prems stopped_stays [of "worker_step lib t s"] by (cases "wk_running (worker_step lib t s)") auto
  then have "worker_step lib t s = job_turn lib t s" by (simp add: worker_step_def split: if_splits)
  with Cons show ?case by simp
qed simp

lemma other_turn_running: "\<not> is_index t \<Longrightarrow> wk_running (job_turn lib t s) = wk_running s"
  by (cases t) (auto split: sum.split)

text \<open>
  C22. The four jobs do not disturb one another. However their passes are interleaved, and whatever the
  gateway, Elasticsearch and Redis answer them, as long as the process runs the index is what the
  indexer's turns alone would have made, the cache what the arrival engine's would have, and the
  database what the reconciler's and the sweep's would have.
\<close>

theorem jobs_do_not_disturb_each_other:
  assumes "wk_running (worker_main lib turns s)"
  shows "wk_index (worker_main lib turns s) = wk_index (fold (job_turn lib) (filter is_index turns) s) \<and>
    wk_redis (worker_main lib turns s) = wk_redis (fold (job_turn lib) (filter is_eta turns) s) \<and>
    wk_db (worker_main lib turns s) = wk_db (fold (job_turn lib) (filter is_books turns) s)"
  using indexer_part.alone [of lib turns s] board_part.alone [of lib turns s] books_part.alone [of lib turns s]
  by (simp add: worker_main_running [OF assms])

text \<open>A turn of the indexer that meets no fault.\<close>

definition clean :: "worker_turn \<Rightarrow> bool" where
  "clean t \<longleftrightarrow> (case t of Index_turn timeout bulk ack \<Rightarrow> \<not> timeout \<and> bulk = None \<and> ack | _ \<Rightarrow> True)"

lemma clean_index_turn:
  "clean t \<Longrightarrow> is_index t \<Longrightarrow> wk_index (job_turn lib t s) = clean_turn (re_stream (wk_redis s)) (wk_index s)"
  by (cases t) (auto simp: clean_def clean_turn_def split: prod.split)

lemma readable_turn_lives:
  assumes "\<forall>fs \<in> set stream. \<exists>d. to_doc fs = Inr d"
  shows "fst (index_turn timeout None True stream ix) \<noteq> Died"
proof (cases "ix_group ix")
  case (Some g)
  let ?ids = "[gr_next g ..< min (gr_next g + BATCH) (length stream)]"
  have "\<forall>fs \<in> set (map (\<lambda>i. stream ! i) ?ids). \<exists>d. to_doc fs = Inr d" using assms by auto
  then obtain ds where "to_docs (map (\<lambda>i. stream ! i) ?ids) = Inr ds" using to_docs_total by blast
  with Some show ?thesis by (simp add: index_turn_def Let_def)
qed (simp add: index_turn_def)

lemma clean_run:
  assumes "\<forall>fs \<in> set (re_stream (wk_redis s)). \<exists>d. to_doc fs = Inr d" "list_all clean turns" "wk_running s"
  shows "wk_running (fold (job_turn lib) turns s) \<and> worker_main lib turns s = fold (job_turn lib) turns s"
  using assms
proof (induction turns arbitrary: s)
  case (Cons t ts)
  have running: "wk_running (job_turn lib t s)"
  proof (cases t)
    case (Index_turn timeout bulk ack)
    with Cons.prems readable_turn_lives [OF Cons.prems(1), of timeout "wk_index s"] show ?thesis
      by (auto simp: clean_def split: prod.split)
  qed (use Cons.prems(3) in \<open>auto split: sum.split\<close>)
  have stream: "re_stream (wk_redis (job_turn lib t s)) = re_stream (wk_redis s)"
    by (cases t) (auto split: prod.split sum.split)
  from Cons.IH [of "job_turn lib t s"] running stream Cons.prems show ?case by (simp add: worker_step_def)
qed simp

lemma index_turns_alone:
  assumes "list_all clean turns" "list_all is_index turns"
  shows "wk_index (fold (job_turn lib) turns s) = (clean_turn (re_stream (wk_redis s)) ^^ length turns) (wk_index s)"
  using assms
proof (induction turns arbitrary: s)
  case (Cons t ts)
  then obtain timeout bulk ack where t: "t = Index_turn timeout bulk ack" by (cases t) auto
  have "re_stream (wk_redis (job_turn lib t s)) = re_stream (wk_redis s)" unfolding t by (simp split: prod.split)
  with Cons clean_index_turn [of t lib s] show ?case by (simp add: funpow_swap1)
qed simp

text \<open>
  C40. Positions reach the index whatever else fails. Let every entry of the stream be readable and the
  indexer's own turns meet no fault: then, through any outage of the payment gateway, any pass of the
  engine or the sweep that fails, and in any order of the turns, the process keeps running and after as
  many turns of the indexer as the backlog has hundreds every entry is indexed under its own id.
\<close>

theorem positions_reach_the_index:
  assumes "wk_running s" "wk_index s = ensure_group \<lparr>ix_group = None, ix_docs = Map.empty\<rparr>"
    and "\<forall>fs \<in> set (re_stream (wk_redis s)). \<exists>d. to_doc fs = Inr d"
    and "list_all clean turns" "length (re_stream (wk_redis s)) \<le> length (filter is_index turns) * GpsHistory.BATCH"
  shows "wk_running (worker_main lib turns s) \<and>
    ix_group (wk_index (worker_main lib turns s)) = Some \<lparr>gr_next = length (re_stream (wk_redis s)), gr_pending = []\<rparr> \<and>
    (\<forall>i < length (re_stream (wk_redis s)). \<exists>d.
      ix_docs (wk_index (worker_main lib turns s)) i = Some d \<and> to_doc (re_stream (wk_redis s) ! i) = Inr d)"
proof -
  note run = clean_run [OF assms(3, 4, 1), of lib]
  have only: "list_all clean (filter is_index turns)" "list_all is_index (filter is_index turns)"
    using assms(4) by (auto simp: list_all_iff)
  have "wk_index (worker_main lib turns s) = wk_index (fold (job_turn lib) (filter is_index turns) s)"
    using indexer_part.alone [of lib turns s] run by simp
  then have "wk_index (worker_main lib turns s) =
      (clean_turn (re_stream (wk_redis s)) ^^ length (filter is_index turns)) \<lparr>ix_group = Some \<lparr>gr_next = 0, gr_pending = []\<rparr>, ix_docs = Map.empty\<rparr>"
    unfolding index_turns_alone [OF only] assms(2) by (simp add: ensure_group_def)
  with clean_turns_advance [OF assms(3), of "length (filter is_index turns)"] assms(5) run show ?thesis
    by (simp add: indexed_up_to_def min_def)
qed

text \<open>
  But the indexer takes the others down. A turn of it that raises, for one unreadable entry or one
  refused bulk request, is the last thing the worker does: every later pass of every job is lost.
\<close>

theorem failing_indexer_ends_the_worker:
  assumes "wk_running s" "fst (index_turn timeout bulk ack (re_stream (wk_redis s)) (wk_index s)) = Died"
  shows "worker_main lib (Index_turn timeout bulk ack # turns) s = job_turn lib (Index_turn timeout bulk ack) s \<and>
    wk_db (worker_main lib (Index_turn timeout bulk ack # turns) s) = wk_db s \<and>
    wk_redis (worker_main lib (Index_turn timeout bulk ack # turns) s) = wk_redis s"
proof -
  obtain ix where turn: "index_turn timeout bulk ack (re_stream (wk_redis s)) (wk_index s) = (Died, ix)"
    using assms(2) by (metis prod.collapse)
  have "\<not> wk_running (job_turn lib (Index_turn timeout bulk ack) s)" by (simp add: turn)
  from stopped_stays [OF this] assms(1) turn show ?thesis by (simp add: worker_step_def)
qed

text \<open>And nothing else ends it.\<close>

theorem only_the_indexer_ends_the_worker:
  "wk_running s \<Longrightarrow> \<not> wk_running (worker_main lib turns s) \<Longrightarrow>
   \<exists>before timeout bulk ack later. turns = before @ Index_turn timeout bulk ack # later \<and>
     (let u = worker_main lib before s in fst (index_turn timeout bulk ack (re_stream (wk_redis u)) (wk_index u)) = Died)"
proof (induction turns arbitrary: s)
  case (Cons t ts)
  show ?case
  proof (cases "wk_running (job_turn lib t s)")
    case True
    with Cons.prems have "\<not> wk_running (worker_main lib ts (job_turn lib t s))" by (simp add: worker_step_def)
    from Cons.IH [OF True this] obtain before timeout bulk ack later where
      *: "ts = before @ Index_turn timeout bulk ack # later"
      "let u = worker_main lib before (job_turn lib t s) in fst (index_turn timeout bulk ack (re_stream (wk_redis u)) (wk_index u)) = Died"
      by blast
    then show ?thesis using Cons.prems(1)
      by (intro exI [of _ "t # before"] exI [of _ timeout] exI [of _ bulk] exI [of _ ack] exI [of _ later]) (simp add: worker_step_def)
  next
    case False
    then obtain timeout bulk ack where t: "t = Index_turn timeout bulk ack"
      using other_turn_running [of t lib s] Cons.prems(1) by (cases t) auto
    with False Cons.prems(1) show ?thesis
      by (intro exI [of _ "[]"] exI [of _ timeout] exI [of _ bulk] exI [of _ ack] exI [of _ ts]) (auto split: prod.splits)
  qed
qed simp

section \<open>Instances\<close>

text \<open>A gateway that is down, a sweep and an engine with nothing to do, and an indexer that works.\<close>

definition demo_lib_texts :: worker_lib where
  "demo_lib_texts = \<lparr>wl_iso_of = tally_iso_of, wl_iso_text = tally_iso_text, wl_uuid_text = unary_text, wl_float_text = (\<lambda>_. ''1'')\<rparr>"

definition demo_schedule :: "issue_env \<Rightarrow> worker_turn list" where
  "demo_schedule ienv =
     [Reconcile_turn (\<lambda>_. Inl (GatewayError ''down'')) (\<lambda>_. ienv) 0, Sweep_turn id (\<lambda>_. 0) 0,
      Index_turn False None True, Eta_turn (\<lambda>_. None) (\<lambda>_. (False, False, False)) 0]"

definition demo_worker :: "(string \<times> string) list list \<Rightarrow> worker" where
  "demo_worker stream = \<lparr>wk_db = empty_db, wk_redis = empty_redis\<lparr>re_stream := stream\<rparr>,
     wk_index = ensure_group \<lparr>ix_group = None, ix_docs = Map.empty\<rparr>, wk_running = True\<rparr>"

lemma demo_schedule_clean: "list_all clean (demo_schedule ienv)" "length (filter is_index (demo_schedule ienv)) = 1"
  by (simp_all add: demo_schedule_def clean_def)

theorem positions_reach_the_index_witness:
  "\<exists>fs d. to_doc fs = Inr d \<and> (\<forall>ienv.
    wk_running (worker_main demo_lib_texts (demo_schedule ienv) (demo_worker [fs, fs])) \<and>
    (\<forall>i < 2. \<exists>d. ix_docs (wk_index (worker_main demo_lib_texts (demo_schedule ienv) (demo_worker [fs, fs]))) i = Some d))"
proof -
  let ?p = "demo_point\<lparr>gp_lat := 1, gp_lng := 1\<rparr>"
  let ?fs = "stream_fields unary_text (\<lambda>_. ''1'') tally_iso_text 31 21 71 ?p"
  have "prints_exactly (\<lambda>_. ''1'') 1" "readable (\<lambda>_. ''1'') None"
    by (simp_all add: prints_exactly_def py_float_one dec_val_def readable_def)
  then obtain d where d: "to_doc ?fs = Inr d"
    using doc_of_point [of "\<lambda>_. ''1''" ?p unary_text tally_iso_text 31 21 71] by (auto simp: demo_point_def)
  define w where "w = demo_worker [?fs, ?fs]"
  have w: "wk_running w" "wk_index w = ensure_group \<lparr>ix_group = None, ix_docs = Map.empty\<rparr>" "re_stream (wk_redis w) = [?fs, ?fs]"
    by (simp_all add: w_def demo_worker_def)
  have "\<forall>fs \<in> set (re_stream (wk_redis w)). \<exists>d. to_doc fs = Inr d" using d by (simp add: w(3))
  moreover have "length (re_stream (wk_redis w)) \<le> length (filter is_index (demo_schedule ienv)) * GpsHistory.BATCH" for ienv
    by (simp add: w(3) demo_schedule_clean GpsHistory.BATCH_def)
  ultimately have reach: "wk_running (worker_main demo_lib_texts (demo_schedule ienv) w) \<and>
      (\<forall>i < length (re_stream (wk_redis w)). \<exists>d. ix_docs (wk_index (worker_main demo_lib_texts (demo_schedule ienv) w)) i = Some d)" for ienv
    using positions_reach_the_index [OF w(1, 2) _ demo_schedule_clean(1) [of ienv], of demo_lib_texts] by blast
  then have "\<forall>ienv. wk_running (worker_main demo_lib_texts (demo_schedule ienv) w) \<and>
      (\<forall>i < 2. \<exists>d. ix_docs (wk_index (worker_main demo_lib_texts (demo_schedule ienv) w)) i = Some d)"
    by (simp add: w(3))
  with d show ?thesis unfolding w_def by blast
qed

theorem jobs_do_not_disturb_each_other_witness:
  "\<forall>ienv. wk_running (worker_main demo_lib_texts (demo_schedule ienv) (demo_worker [])) \<and>
   wk_db (worker_main demo_lib_texts (demo_schedule ienv) (demo_worker [])) =
     wk_db (fold (job_turn demo_lib_texts) (filter is_books (demo_schedule ienv)) (demo_worker []))"
proof
  fix ienv
  have "\<forall>fs \<in> set (re_stream (wk_redis (demo_worker []))). \<exists>d. to_doc fs = Inr d" "wk_running (demo_worker [])"
    by (simp_all add: demo_worker_def)
  from clean_run [OF this(1) demo_schedule_clean(1) this(2)]
  have running: "wk_running (worker_main demo_lib_texts (demo_schedule ienv) (demo_worker []))" by simp
  with jobs_do_not_disturb_each_other [OF running]
  show "wk_running (worker_main demo_lib_texts (demo_schedule ienv) (demo_worker [])) \<and>
    wk_db (worker_main demo_lib_texts (demo_schedule ienv) (demo_worker [])) =
      wk_db (fold (job_turn demo_lib_texts) (filter is_books (demo_schedule ienv)) (demo_worker []))" by blast
qed

end
