(* ===== verification/Ddl.thy ===== *)
theory Ddl
  imports Prelude
begin

text \<open>
  The part of SQL in which \<^verbatim>\<open>alembic/versions\<close> is written: a catalog of tables with their
  columns, constraints, indexes and rows, the named enum types, and what each statement does to it or
  why it is refused. As documented for Postgres: an enum column makes its type with its table and
  leaves it behind, an unnamed constraint is named after its table and columns, a statement that
  fails undoes the whole transaction. A row maps the names of its columns to the text of their
  values; \<^verbatim>\<open>NULL\<close> is \<open>None\<close>.
\<close>

section \<open>The catalog\<close>

datatype col_type =
    UuidT | StringT nat | TextT | IntegerT | FloatT | BooleanT | DateTimeT | DateT | JsonbT
  | EnumT string "string list"

record column =
  col_name :: string
  col_type :: col_type
  col_nullable :: bool
  col_default :: "string option"

datatype delete_rule = No_Action | Cascade_Rows | Restrict_Rows | Set_Null_Rows

record foreign_key =
  fk_name :: string
  fk_column :: string
  fk_table :: string
  fk_target :: string
  fk_delete :: delete_rule

record unique_key =
  uq_name :: string
  uq_columns :: "string list"

text \<open>The condition of a partial index: a column and the values it may have.\<close>

type_synonym ix_condition = "string \<times> string list"

record index_def =
  ix_name :: string
  ix_columns :: "string list"
  ix_unique :: bool
  ix_where :: "ix_condition option"

type_synonym sql_row = "string \<Rightarrow> string option"

record sql_table =
  tb_columns :: "column list"
  tb_primary :: "string list"
  tb_foreign :: "foreign_key list"
  tb_unique :: "unique_key list"
  tb_indexes :: "index_def list"
  tb_rows :: "sql_row list"

record catalog =
  cat_tables :: "(string \<times> sql_table) list"
  cat_types :: "(string \<times> string list) list"
  cat_functions :: "string list"
  cat_version :: "string option"

datatype sql_error =
    Duplicate_Table | Undefined_Table | Duplicate_Object | Undefined_Object | Duplicate_Column
  | Undefined_Column | Not_Null_Violation | Unique_Violation | Foreign_Key_Violation
  | Dependent_Objects | Undefined_Function

section \<open>Statements\<close>

datatype element =
    Column column
  | Primary "string list"
  | Foreign "string option" string string string delete_rule
  | Unique "string option" "string list"

datatype statement =
    Create_Table string "element list"
  | Drop_Table string
  | Create_Index string string "string list" bool "ix_condition option"
  | Drop_Index string string
  | Create_Unique string string "string list"
  | Create_Foreign string string string string string delete_rule
  | Drop_Constraint string string
  | Add_Column string column
  | Set_Not_Null string string
  | Drop_Column string string
  | Drop_Type string
  | Add_Enum_Value string string
  | Update_Row string string "(string \<times> string) list"
  | Update_All string string string "string option \<Rightarrow> string"

section \<open>Building a table\<close>

text \<open>Names Postgres gives to constraints that come without one.\<close>

definition auto_name :: "string \<Rightarrow> string list \<Rightarrow> string \<Rightarrow> string" where
  "auto_name t cols kind = t @ concat (map (\<lambda>c. CHR ''_'' # c) cols) @ kind"

fun add_element :: "string \<Rightarrow> element \<Rightarrow> sql_table \<Rightarrow> sql_table" where
  "add_element t (Column c) tb = tb\<lparr>tb_columns := tb_columns tb @ [c]\<rparr>"
| "add_element t (Primary cs) tb = tb\<lparr>tb_primary := cs\<rparr>"
| "add_element t (Foreign name c ref target rule) tb =
     tb\<lparr>tb_foreign := tb_foreign tb @
       [\<lparr>fk_name = (case name of Some n \<Rightarrow> n | None \<Rightarrow> auto_name t [c] ''_fkey''), fk_column = c,
         fk_table = ref, fk_target = target, fk_delete = rule\<rparr>]\<rparr>"
| "add_element t (Unique name cs) tb =
     tb\<lparr>tb_unique := tb_unique tb @
       [\<lparr>uq_name = (case name of Some n \<Rightarrow> n | None \<Rightarrow> auto_name t cs ''_key''), uq_columns = cs\<rparr>]\<rparr>"

definition bare_table :: sql_table where
  "bare_table = \<lparr>tb_columns = [], tb_primary = [], tb_foreign = [], tb_unique = [], tb_indexes = [],
     tb_rows = []\<rparr>"

definition make_table :: "string \<Rightarrow> element list \<Rightarrow> sql_table" where
  "make_table t es = fold (add_element t) es bare_table"

fun enum_of :: "col_type \<Rightarrow> (string \<times> string list) list" where
  "enum_of (EnumT n vs) = [(n, vs)]"
| "enum_of _ = []"

definition new_types :: "sql_table \<Rightarrow> (string \<times> string list) list" where
  "new_types tb = concat (map (\<lambda>c. enum_of (col_type c)) (tb_columns tb))"

section \<open>Looking at a catalog\<close>

definition find_table :: "catalog \<Rightarrow> string \<Rightarrow> sql_table option" where
  "find_table c t = map_of (cat_tables c) t"

fun replace_entry :: "string \<Rightarrow> 'v \<Rightarrow> (string \<times> 'v) list \<Rightarrow> (string \<times> 'v) list" where
  "replace_entry t v [] = []"
| "replace_entry t v ((n, x) # xs) = (if n = t then (n, v) # xs else (n, x) # replace_entry t v xs)"

definition put_table :: "string \<Rightarrow> sql_table \<Rightarrow> catalog \<Rightarrow> catalog" where
  "put_table t tb c = c\<lparr>cat_tables := replace_entry t tb (cat_tables c)\<rparr>"

definition has_column :: "sql_table \<Rightarrow> string \<Rightarrow> bool" where
  "has_column tb c \<longleftrightarrow> c \<in> set (map col_name (tb_columns tb))"

text \<open>Whether the rows of a table already break a uniqueness over the columns \<open>cs\<close>.\<close>

definition covered :: "ix_condition option \<Rightarrow> sql_row \<Rightarrow> bool" where
  "covered w r = (case w of None \<Rightarrow> True | Some (c, vs) \<Rightarrow> (case r c of None \<Rightarrow> False | Some v \<Rightarrow> v \<in> set vs))"

definition rows_unique :: "string list \<Rightarrow> ix_condition option \<Rightarrow> sql_row list \<Rightarrow> bool" where
  "rows_unique cs w rows =
     distinct (filter (\<lambda>vs. None \<notin> set vs) (map (\<lambda>r. map r cs) (filter (covered w) rows)))"

definition rows_in :: "catalog \<Rightarrow> string \<Rightarrow> sql_row list option" where
  "rows_in c t = (case find_table c t of None \<Rightarrow> None | Some tb \<Rightarrow> Some (tb_rows tb))"

definition fk_holds :: "(string \<Rightarrow> sql_row list option) \<Rightarrow> foreign_key \<Rightarrow> sql_row list \<Rightarrow> bool" where
  "fk_holds rho k rows =
     list_all (\<lambda>r. case r (fk_column k) of None \<Rightarrow> True
       | Some v \<Rightarrow> (case rho (fk_table k) of None \<Rightarrow> False
           | Some qs \<Rightarrow> list_ex (\<lambda>q. q (fk_target k) = Some v) qs)) rows"

definition refers_to :: "catalog \<Rightarrow> string \<Rightarrow> (string \<times> foreign_key) list" where
  "refers_to c t =
     concat (map (\<lambda>(n, tb). map (Pair n) (filter (\<lambda>k. fk_table k = t) (tb_foreign tb))) (cat_tables c))"

definition type_used :: "catalog \<Rightarrow> string \<Rightarrow> bool" where
  "type_used c n = list_ex (\<lambda>(_, tb). n \<in> set (map fst (new_types tb))) (cat_tables c)"

section \<open>Executing a statement\<close>

text \<open>A change to one table, which must exist.\<close>

definition on_table :: "string \<Rightarrow> (sql_table \<Rightarrow> sql_error + sql_table) \<Rightarrow> catalog \<Rightarrow> sql_error + catalog" where
  "on_table t f c =
     (case find_table c t of
        None \<Rightarrow> Inl Undefined_Table
      | Some tb \<Rightarrow> (case f tb of Inl e \<Rightarrow> Inl e | Inr tb' \<Rightarrow> Inr (put_table t tb' c)))"

definition create_table :: "string \<Rightarrow> element list \<Rightarrow> catalog \<Rightarrow> sql_error + catalog" where
  "create_table t es c =
     (let tb = make_table t es in
      if list_ex (\<lambda>n. n \<in> set (map fst (cat_types c))) (map fst (new_types tb)) then Inl Duplicate_Object
      else if find_table c t \<noteq> None then Inl Duplicate_Table
      else if list_ex (\<lambda>k. find_table c (fk_table k) = None) (tb_foreign tb) then Inl Undefined_Table
      else Inr (c\<lparr>cat_tables := cat_tables c @ [(t, tb)], cat_types := cat_types c @ new_types tb\<rparr>))"

definition drop_table :: "string \<Rightarrow> catalog \<Rightarrow> sql_error + catalog" where
  "drop_table t c =
     (if find_table c t = None then Inl Undefined_Table
      else if list_ex (\<lambda>(n, _). n \<noteq> t) (refers_to c t) then Inl Dependent_Objects
      else Inr (c\<lparr>cat_tables := filter (\<lambda>(n, _). n \<noteq> t) (cat_tables c)\<rparr>))"

definition drop_type :: "string \<Rightarrow> catalog \<Rightarrow> sql_error + catalog" where
  "drop_type n c =
     (if type_used c n then Inl Dependent_Objects
      else Inr (c\<lparr>cat_types := filter (\<lambda>(m, _). m \<noteq> n) (cat_types c)\<rparr>))"

definition add_enum_value :: "string \<Rightarrow> string \<Rightarrow> catalog \<Rightarrow> sql_error + catalog" where
  "add_enum_value n v c =
     (case map_of (cat_types c) n of
        None \<Rightarrow> Inl Undefined_Object
      | Some vs \<Rightarrow>
          if v \<in> set vs then Inr c
          else Inr (c\<lparr>cat_types := map (\<lambda>(m, ws). if m = n then (m, ws @ [v]) else (m, ws)) (cat_types c)\<rparr>))"

fun add_column :: "column \<Rightarrow> sql_table \<Rightarrow> sql_error + sql_table" where
  "add_column col tb =
     (if has_column tb (col_name col) then Inl Duplicate_Column
      else if \<not> col_nullable col \<and> col_default col = None \<and> tb_rows tb \<noteq> [] then Inl Not_Null_Violation
      else Inr (tb\<lparr>tb_columns := tb_columns tb @ [col],
                   tb_rows := map (\<lambda>r. r(col_name col := col_default col)) (tb_rows tb)\<rparr>))"

fun set_not_null :: "string \<Rightarrow> sql_table \<Rightarrow> sql_error + sql_table" where
  "set_not_null x tb =
     (if \<not> has_column tb x then Inl Undefined_Column
      else if list_ex (\<lambda>r. r x = None) (tb_rows tb) then Inl Not_Null_Violation
      else Inr (tb\<lparr>tb_columns :=
        map (\<lambda>col. if col_name col = x then col\<lparr>col_nullable := False\<rparr> else col) (tb_columns tb)\<rparr>))"

fun drop_column :: "string \<Rightarrow> sql_table \<Rightarrow> sql_error + sql_table" where
  "drop_column x tb =
     (if \<not> has_column tb x then Inl Undefined_Column
      else Inr (tb\<lparr>tb_columns := filter (\<lambda>col. col_name col \<noteq> x) (tb_columns tb),
                   tb_foreign := filter (\<lambda>k. fk_column k \<noteq> x) (tb_foreign tb),
                   tb_unique := filter (\<lambda>u. x \<notin> set (uq_columns u)) (tb_unique tb),
                   tb_indexes := filter (\<lambda>i. x \<notin> set (ix_columns i)) (tb_indexes tb),
                   tb_rows := map (\<lambda>r. r(x := None)) (tb_rows tb)\<rparr>))"

fun create_index :: "string \<Rightarrow> string list \<Rightarrow> bool \<Rightarrow> ix_condition option \<Rightarrow> sql_table \<Rightarrow> sql_error + sql_table" where
  "create_index n cs u w tb =
     (if \<not> list_all (has_column tb) cs then Inl Undefined_Column
      else if u \<and> \<not> rows_unique cs w (tb_rows tb) then Inl Unique_Violation
      else Inr (tb\<lparr>tb_indexes := tb_indexes tb @
        [\<lparr>ix_name = n, ix_columns = cs, ix_unique = u, ix_where = w\<rparr>]\<rparr>))"

fun drop_index :: "string \<Rightarrow> sql_table \<Rightarrow> sql_error + sql_table" where
  "drop_index n tb =
     (if n \<notin> set (map ix_name (tb_indexes tb)) then Inl Undefined_Object
      else Inr (tb\<lparr>tb_indexes := filter (\<lambda>i. ix_name i \<noteq> n) (tb_indexes tb)\<rparr>))"

fun create_unique :: "string \<Rightarrow> string list \<Rightarrow> sql_table \<Rightarrow> sql_error + sql_table" where
  "create_unique n cs tb =
     (if \<not> list_all (has_column tb) cs then Inl Undefined_Column
      else if \<not> rows_unique cs None (tb_rows tb) then Inl Unique_Violation
      else Inr (tb\<lparr>tb_unique := tb_unique tb @ [\<lparr>uq_name = n, uq_columns = cs\<rparr>]\<rparr>))"

fun drop_constraint :: "string \<Rightarrow> sql_table \<Rightarrow> sql_error + sql_table" where
  "drop_constraint n tb =
     (if n \<notin> set (map fk_name (tb_foreign tb)) then Inl Undefined_Object
      else Inr (tb\<lparr>tb_foreign := filter (\<lambda>k. fk_name k \<noteq> n) (tb_foreign tb)\<rparr>))"

definition create_foreign :: "catalog \<Rightarrow> foreign_key \<Rightarrow> sql_table \<Rightarrow> sql_error + sql_table" where
  "create_foreign c k tb =
     (if find_table c (fk_table k) = None then Inl Undefined_Table
      else if \<not> has_column tb (fk_column k) then Inl Undefined_Column
      else if \<not> fk_holds (rows_in c) k (tb_rows tb) then Inl Foreign_Key_Violation
      else Inr (tb\<lparr>tb_foreign := tb_foreign tb @ [k]\<rparr>))"

definition set_values :: "(string \<times> string) list \<Rightarrow> sql_row \<Rightarrow> sql_row" where
  "set_values sets r = fold (\<lambda>(x, v) r. r(x := Some v)) sets r"

fun update_row :: "string \<Rightarrow> (string \<times> string) list \<Rightarrow> sql_table \<Rightarrow> sql_error + sql_table" where
  "update_row i sets tb =
     (if \<not> list_all (has_column tb) (map fst sets) then Inl Undefined_Column
      else Inr (tb\<lparr>tb_rows := map (\<lambda>r. if r ''id'' = Some i then set_values sets r else r) (tb_rows tb)\<rparr>))"

fun update_all :: "string \<Rightarrow> (string option \<Rightarrow> string) \<Rightarrow> sql_table \<Rightarrow> sql_error + sql_table" where
  "update_all x f tb =
     (if \<not> has_column tb x then Inl Undefined_Column
      else Inr (tb\<lparr>tb_rows := map (\<lambda>r. r(x := Some (f (r ''id'')))) (tb_rows tb)\<rparr>))"

fun exec :: "statement \<Rightarrow> catalog \<Rightarrow> sql_error + catalog" where
  "exec (Create_Table t es) c = create_table t es c"
| "exec (Drop_Table t) c = drop_table t c"
| "exec (Create_Index n t cs u w) c = on_table t (create_index n cs u w) c"
| "exec (Drop_Index n t) c = on_table t (drop_index n) c"
| "exec (Create_Unique n t cs) c = on_table t (create_unique n cs) c"
| "exec (Create_Foreign n t ref x target rule) c =
     on_table t (create_foreign c \<lparr>fk_name = n, fk_column = x, fk_table = ref, fk_target = target, fk_delete = rule\<rparr>) c"
| "exec (Drop_Constraint n t) c = on_table t (drop_constraint n) c"
| "exec (Add_Column t col) c = on_table t (add_column col) c"
| "exec (Set_Not_Null t x) c = on_table t (set_not_null x) c"
| "exec (Drop_Column t x) c = on_table t (drop_column x) c"
| "exec (Drop_Type n) c = drop_type n c"
| "exec (Add_Enum_Value n v) c = add_enum_value n v c"
| "exec (Update_Row t i sets) c = on_table t (update_row i sets) c"
| "exec (Update_All t x fn f) c =
     (if fn \<notin> set (cat_functions c) then Inl Undefined_Function else on_table t (update_all x f) c)"

text \<open>A script: its statements in turn, the first error its result.\<close>

fun run :: "statement list \<Rightarrow> catalog \<Rightarrow> sql_error + catalog" where
  "run [] c = Inr c"
| "run (s # ss) c = (case exec s c of Inl e \<Rightarrow> Inl e | Inr c' \<Rightarrow> run ss c')"

section \<open>Schema and rows, separately\<close>

text \<open>
  A statement acts on the schema as it would on empty tables (\<open>emptied\<close>), and on the rows as
  \<open>effect\<close> says, unless the rows forbid it (\<open>accepts\<close>). So whether a script runs on a
  database in use is decided by its run on an empty one and by its rows.
\<close>

definition empty_table :: "sql_table \<Rightarrow> sql_table" where
  "empty_table tb = tb\<lparr>tb_rows := []\<rparr>"

definition emptied :: "catalog \<Rightarrow> catalog" where
  "emptied c = c\<lparr>cat_tables := map (\<lambda>(n, tb). (n, empty_table tb)) (cat_tables c)\<rparr>"

type_synonym contents = "string \<Rightarrow> sql_row list option"

definition edit_rows :: "string \<Rightarrow> (sql_row \<Rightarrow> sql_row) \<Rightarrow> contents \<Rightarrow> contents" where
  "edit_rows t f rho = rho(t := map_option (map f) (rho t))"

fun effect :: "statement \<Rightarrow> contents \<Rightarrow> contents" where
  "effect (Create_Table t es) rho = rho(t := Some [])"
| "effect (Drop_Table t) rho = rho(t := None)"
| "effect (Add_Column t col) rho = edit_rows t (\<lambda>r. r(col_name col := col_default col)) rho"
| "effect (Drop_Column t x) rho = edit_rows t (\<lambda>r. r(x := None)) rho"
| "effect (Update_Row t i sets) rho =
     edit_rows t (\<lambda>r. if r ''id'' = Some i then set_values sets r else r) rho"
| "effect (Update_All t x fn f) rho = edit_rows t (\<lambda>r. r(x := Some (f (r ''id'')))) rho"
| "effect _ rho = rho"

definition all_rows :: "contents \<Rightarrow> string \<Rightarrow> (sql_row list \<Rightarrow> bool) \<Rightarrow> bool" where
  "all_rows rho t p = (case rho t of None \<Rightarrow> True | Some rows \<Rightarrow> p rows)"

fun accepts :: "statement \<Rightarrow> contents \<Rightarrow> bool" where
  "accepts (Create_Index n t cs u w) rho \<longleftrightarrow> \<not> u \<or> all_rows rho t (rows_unique cs w)"
| "accepts (Create_Unique n t cs) rho \<longleftrightarrow> all_rows rho t (rows_unique cs None)"
| "accepts (Create_Foreign n t ref x target rule) rho \<longleftrightarrow>
     all_rows rho t (fk_holds rho \<lparr>fk_name = n, fk_column = x, fk_table = ref, fk_target = target, fk_delete = rule\<rparr>)"
| "accepts (Add_Column t col) rho \<longleftrightarrow>
     col_nullable col \<or> col_default col \<noteq> None \<or> all_rows rho t (\<lambda>rows. rows = [])"
| "accepts (Set_Not_Null t x) rho \<longleftrightarrow> all_rows rho t (list_all (\<lambda>r. r x \<noteq> None))"
| "accepts _ rho \<longleftrightarrow> True"

fun accepts_all :: "statement list \<Rightarrow> contents \<Rightarrow> bool" where
  "accepts_all [] rho \<longleftrightarrow> True"
| "accepts_all (s # ss) rho \<longleftrightarrow> accepts s rho \<and> accepts_all ss (effect s rho)"

lemma find_emptied [simp]: "find_table (emptied c) t = map_option empty_table (find_table c t)"
  by (simp add: find_table_def emptied_def map_of_map)

lemma emptied_fields [simp]:
  "cat_types (emptied c) = cat_types c" "cat_functions (emptied c) = cat_functions c"
  "cat_version (emptied c) = cat_version c"
  by (simp_all add: emptied_def)

lemma empty_table_fields [simp]:
  "tb_columns (empty_table tb) = tb_columns tb" "tb_foreign (empty_table tb) = tb_foreign tb"
  "tb_unique (empty_table tb) = tb_unique tb" "tb_indexes (empty_table tb) = tb_indexes tb"
  "tb_rows (empty_table tb) = []" "has_column (empty_table tb) = has_column tb"
  "new_types (empty_table tb) = new_types tb"
  by (simp_all add: empty_table_def has_column_def new_types_def fun_eq_iff)

lemma emptied_idem [simp]: "emptied (emptied c) = emptied c"
  by (simp add: emptied_def empty_table_def case_prod_unfold comp_def)

lemma replace_map:
  "map (\<lambda>(n, x). (n, f x)) (replace_entry t v xs) = replace_entry t (f v) (map (\<lambda>(n, x). (n, f x)) xs)"
  by (induction t v xs rule: replace_entry.induct) auto

lemma replace_lookup:
  "map_of (replace_entry t v xs) s = (if s = t then map_option (\<lambda>_. v) (map_of xs t) else map_of xs s)"
  by (induction t v xs rule: replace_entry.induct) auto

lemma replace_same: "map_of xs t = Some v \<Longrightarrow> replace_entry t v xs = xs"
  by (induction t v xs rule: replace_entry.induct) (auto split: if_splits)

lemma emptied_put: "emptied (put_table t tb c) = put_table t (empty_table tb) (emptied c)"
  by (simp add: emptied_def put_table_def replace_map)

lemma find_put: "find_table (put_table t tb c) s =
    (if s = t then map_option (\<lambda>_. tb) (find_table c t) else find_table c s)"
  by (simp add: find_table_def put_table_def replace_lookup)

lemma put_same: "find_table c t = Some tb \<Longrightarrow> put_table t tb c = c"
  by (simp add: find_table_def put_table_def replace_same)

lemma refers_emptied [simp]: "refers_to (emptied c) t = refers_to c t"
  by (simp add: refers_to_def emptied_def case_prod_unfold comp_def)

lemma type_used_emptied [simp]: "type_used (emptied c) n = type_used c n"
proof -
  have "list_ex (\<lambda>(_, tb). n \<in> fst ` set (new_types tb)) (map (\<lambda>(m, tb). (m, empty_table tb)) tbs) =
    list_ex (\<lambda>(_, tb). n \<in> fst ` set (new_types tb)) tbs" for tbs
    by (induction tbs) auto
  then show ?thesis by (simp add: type_used_def emptied_def)
qed

lemma no_rows_made [simp]: "tb_rows (make_table t es) = []"
proof -
  have "tb_rows (fold (add_element t) es tb) = tb_rows tb" for tb
  proof (induction es arbitrary: tb)
    case (Cons e es)
    then show ?case by (cases e) simp_all
  qed simp
  then show ?thesis by (simp add: make_table_def bare_table_def)
qed

lemma empty_made [simp]: "empty_table (make_table t es) = make_table t es"
  unfolding empty_table_def using no_rows_made [of t es] by (metis sql_table.surjective sql_table.update_convs(6))

lemma rows_in_put:
  assumes "find_table c t = Some tb"
  shows "rows_in (put_table t tb' c) = (rows_in c)(t := Some (tb_rows tb'))"
  using assms by (auto simp: rows_in_def find_put fun_eq_iff)

text \<open>What a change to one table must satisfy: it accepts the table if it accepts it without rows.\<close>

definition splits_at :: "(sql_table \<Rightarrow> sql_error + sql_table) \<Rightarrow> (sql_table \<Rightarrow> sql_error + sql_table) \<Rightarrow>
    sql_table \<Rightarrow> (sql_row list \<Rightarrow> sql_row list) \<Rightarrow> bool" where
  "splits_at f fe tb g \<longleftrightarrow> (\<forall>te. fe (empty_table tb) = Inr te \<longrightarrow>
     (\<exists>tb'. f tb = Inr tb' \<and> empty_table tb' = te \<and> tb_rows tb' = g (tb_rows tb)))"

lemma on_table_split:
  assumes "on_table t fe (emptied c) = Inr k"
    and "\<And>tb. find_table c t = Some tb \<Longrightarrow> splits_at f fe tb g"
  shows "\<exists>c'. on_table t f c = Inr c' \<and> emptied c' = k \<and>
    rows_in c' = (rows_in c)(t := map_option g (rows_in c t))"
proof -
  from assms(1) obtain tb te where tb: "find_table c t = Some tb" "fe (empty_table tb) = Inr te"
      "k = put_table t te (emptied c)"
    by (auto simp: on_table_def split: option.splits sum.splits)
  with assms(2) obtain tb' where tb': "f tb = Inr tb'" "empty_table tb' = te" "tb_rows tb' = g (tb_rows tb)"
    by (auto simp: splits_at_def)
  have "on_table t f c = Inr (put_table t tb' c)" using tb tb' by (simp add: on_table_def)
  moreover have "emptied (put_table t tb' c) = k" using tb tb' by (simp add: emptied_put)
  moreover have "rows_in (put_table t tb' c) = (rows_in c)(t := map_option g (rows_in c t))"
    using tb tb' by (simp add: rows_in_put) (simp add: rows_in_def)
  ultimately show ?thesis by blast
qed

lemma same_rows: "(rho :: contents)(t := map_option (\<lambda>x. x) (rho t)) = rho"
  by (simp add: option.map_ident)

lemma accepted_rows:
  assumes "all_rows (rows_in c) t p" "find_table c t = Some tb"
  shows "p (tb_rows tb)"
  using assms by (simp add: all_rows_def rows_in_def)

lemma create_table_split:
  assumes "create_table t es (emptied c) = Inr k"
  shows "\<exists>c'. create_table t es c = Inr c' \<and> emptied c' = k \<and> rows_in c' = (rows_in c)(t := Some [])"
proof -
  let ?tb = "make_table t es"
  let ?c' = "c\<lparr>cat_tables := cat_tables c @ [(t, ?tb)], cat_types := cat_types c @ new_types ?tb\<rparr>"
  have ok: "find_table c t = None" "create_table t es c = Inr ?c'"
    using assms by (auto simp: create_table_def Let_def split: if_splits)
  have "emptied ?c' = k"
    using assms by (auto simp: create_table_def Let_def emptied_def split: if_splits)
  moreover have "rows_in ?c' = (rows_in c)(t := Some [])"
    using ok(1) by (auto simp: rows_in_def find_table_def fun_eq_iff map_add_def split: option.splits)
  ultimately show ?thesis using ok(2) by blast
qed

lemma drop_table_split:
  assumes "drop_table t (emptied c) = Inr k"
  shows "\<exists>c'. drop_table t c = Inr c' \<and> emptied c' = k \<and> rows_in c' = (rows_in c)(t := None)"
proof -
  let ?c' = "c\<lparr>cat_tables := filter (\<lambda>(n, _). n \<noteq> t) (cat_tables c)\<rparr>"
  have "map_of (filter (\<lambda>(n, _). n \<noteq> t) tbs) s = (if s = t then None else map_of tbs s)"
    for s and tbs :: "(string \<times> sql_table) list"
    by (induction tbs) auto
  then have "rows_in ?c' = (rows_in c)(t := None)"
    by (auto simp: rows_in_def find_table_def fun_eq_iff)
  moreover have "filter (\<lambda>(n, _). n \<noteq> t) (map (\<lambda>(n, tb). (n, empty_table tb)) tbs) =
      map (\<lambda>(n, tb). (n, empty_table tb)) (filter (\<lambda>(n, _). n \<noteq> t) tbs)" for tbs
    by (induction tbs) auto
  then have "emptied ?c' = k"
    using assms by (auto simp: drop_table_def emptied_def split: if_splits)
  moreover have "drop_table t c = Inr ?c'" using assms by (auto simp: drop_table_def split: if_splits)
  ultimately show ?thesis by blast
qed

lemma drop_type_split:
  assumes "drop_type n (emptied c) = Inr k"
  shows "\<exists>c'. drop_type n c = Inr c' \<and> emptied c' = k \<and> rows_in c' = rows_in c"
  using assms unfolding drop_type_def type_used_emptied
  by (auto simp: emptied_def rows_in_def find_table_def fun_eq_iff split: if_splits)

lemma add_enum_value_split:
  assumes "add_enum_value n v (emptied c) = Inr k"
  shows "\<exists>c'. add_enum_value n v c = Inr c' \<and> emptied c' = k \<and> rows_in c' = rows_in c"
  using assms
  by (auto simp: add_enum_value_def emptied_def rows_in_def find_table_def fun_eq_iff split: option.splits if_splits)

lemma effect_splits:
  "\<not> u \<or> rows_unique cs w (tb_rows tb) \<Longrightarrow>
     splits_at (create_index n cs u w) (create_index n cs u w) tb (\<lambda>x. x)"
  "splits_at (drop_index n) (drop_index n) tb (\<lambda>x. x)"
  "rows_unique cs None (tb_rows tb) \<Longrightarrow>
     splits_at (create_unique n cs) (create_unique n cs) tb (\<lambda>x. x)"
  "splits_at (drop_constraint n) (drop_constraint n) tb (\<lambda>x. x)"
  "fk_holds (rows_in c) k (tb_rows tb) \<Longrightarrow>
     splits_at (create_foreign c k) (create_foreign (emptied c) k) tb (\<lambda>x. x)"
  "col_nullable col \<or> col_default col \<noteq> None \<or> tb_rows tb = [] \<Longrightarrow>
     splits_at (add_column col) (add_column col) tb
       (map (\<lambda>r. r(col_name col := col_default col)))"
  "list_all (\<lambda>r. r x \<noteq> None) (tb_rows tb) \<Longrightarrow>
     splits_at (set_not_null x) (set_not_null x) tb (\<lambda>x. x)"
  "splits_at (drop_column x) (drop_column x) tb (map (\<lambda>r. r(x := None)))"
  "splits_at (update_row i sets) (update_row i sets) tb
     (map (\<lambda>r. if r ''id'' = Some i then set_values sets r else r))"
  "splits_at (update_all x f) (update_all x f) tb (map (\<lambda>r. r(x := Some (f (r ''id'')))))"
  by (auto simp: splits_at_def empty_table_def has_column_def create_foreign_def list_ex_iff list_all_iff
      split: if_splits)

lemma exec_split:
  assumes "exec s (emptied c) = Inr k" "accepts s (rows_in c)"
  shows "\<exists>c'. exec s c = Inr c' \<and> emptied c' = k \<and> rows_in c' = effect s (rows_in c)"
proof -
  note there = accepted_rows [where c = c]
  note at = on_table_split [where c = c and k = k]
  show ?thesis
  proof (cases s)
    case (Create_Table t es)
    with assms show ?thesis using create_table_split by simp
  next
    case (Drop_Table t)
    with assms show ?thesis using drop_table_split by simp
  next
    case (Create_Index n t cs u w)
    have "splits_at (create_index n cs u w) (create_index n cs u w) tb (\<lambda>x. x)" if "find_table c t = Some tb" for tb
      by (rule effect_splits) (use assms(2) there [OF _ that] Create_Index in auto)
    with assms(1) Create_Index at [of t _ _ "\<lambda>x. x"] show ?thesis unfolding same_rows by simp
  next
    case (Drop_Index n t)
    with assms(1) at [OF _ effect_splits(2)] show ?thesis unfolding same_rows by simp
  next
    case (Create_Unique n t cs)
    have "splits_at (create_unique n cs) (create_unique n cs) tb (\<lambda>x. x)" if "find_table c t = Some tb" for tb
      by (rule effect_splits) (use assms(2) there [OF _ that] Create_Unique in auto)
    with assms(1) Create_Unique at [of t _ _ "\<lambda>x. x"] show ?thesis unfolding same_rows by simp
  next
    case (Create_Foreign n t ref x target rule)
    let ?k = "\<lparr>fk_name = n, fk_column = x, fk_table = ref, fk_target = target, fk_delete = rule\<rparr>"
    have "splits_at (create_foreign c ?k) (create_foreign (emptied c) ?k) tb (\<lambda>x. x)"
      if "find_table c t = Some tb" for tb
      by (rule effect_splits) (use assms(2) there [OF _ that] Create_Foreign in auto)
    with assms(1) Create_Foreign at [of t _ _ "\<lambda>x. x"] show ?thesis unfolding same_rows by simp
  next
    case (Drop_Constraint n t)
    with assms(1) at [OF _ effect_splits(4)] show ?thesis unfolding same_rows by simp
  next
    case (Add_Column t col)
    have "splits_at (add_column col) (add_column col) tb (map (\<lambda>r. r(col_name col := col_default col)))"
      if "find_table c t = Some tb" for tb
      by (rule effect_splits) (use assms(2) there [OF _ that] Add_Column in auto)
    with assms(1) Add_Column at show ?thesis by (simp add: edit_rows_def)
  next
    case (Set_Not_Null t x)
    have "splits_at (set_not_null x) (set_not_null x) tb (\<lambda>x. x)" if "find_table c t = Some tb" for tb
      by (rule effect_splits) (use assms(2) there [OF _ that] Set_Not_Null in auto)
    with assms(1) Set_Not_Null at [of t _ _ "\<lambda>x. x"] show ?thesis unfolding same_rows by simp
  next
    case (Drop_Column t x)
    with assms(1) at [OF _ effect_splits(8)] show ?thesis by (simp add: edit_rows_def)
  next
    case (Drop_Type n)
    with assms show ?thesis using drop_type_split by simp
  next
    case (Add_Enum_Value n v)
    with assms show ?thesis using add_enum_value_split by simp
  next
    case (Update_Row t i sets)
    with assms(1) at [OF _ effect_splits(9)] show ?thesis by (simp add: edit_rows_def)
  next
    case (Update_All t x fn f)
    with assms(1) have f: "on_table t (update_all x f) (emptied c) = Inr k" "fn \<in> set (cat_functions c)"
      by (auto split: if_splits)
    from at [OF f(1) effect_splits(10)] f(2) Update_All show ?thesis by (simp add: edit_rows_def fun_upd_def del: update_all.simps)
  qed
qed

theorem run_split:
  assumes "run ss (emptied c) = Inr k" "accepts_all ss (rows_in c)"
  shows "\<exists>c'. run ss c = Inr c' \<and> emptied c' = k \<and> rows_in c' = fold effect ss (rows_in c)"
  using assms
proof (induction ss arbitrary: c)
  case (Cons s ss)
  then obtain k1 where k1: "exec s (emptied c) = Inr k1" "run ss k1 = Inr k" by (auto split: sum.splits)
  with exec_split Cons.prems(2) obtain c1 where c1: "exec s c = Inr c1" "emptied c1 = k1"
    "rows_in c1 = effect s (rows_in c)" by fastforce
  with k1 Cons.prems(2) Cons.IH [of c1] show ?case by simp
qed simp

section \<open>Rows are only lost with their table\<close>

text \<open>The tables whose rows a statement may take away or rename.\<close>

fun takes_rows :: "statement \<Rightarrow> string list" where
  "takes_rows (Drop_Table t) = [t]"
| "takes_rows (Add_Column t col) = (if col_name col = ''id'' then [t] else [])"
| "takes_rows (Drop_Column t x) = (if x = ''id'' then [t] else [])"
| "takes_rows (Update_Row t i sets) = (if ''id'' \<in> set (map fst sets) then [t] else [])"
| "takes_rows (Update_All t x fn f) = (if x = ''id'' then [t] else [])"
| "takes_rows _ = []"

definition row_ids :: "contents \<Rightarrow> string \<Rightarrow> string option list option" where
  "row_ids rho t = map_option (map (\<lambda>r. r ''id'')) (rho t)"

lemma set_values_other: "x \<notin> set (map fst sets) \<Longrightarrow> set_values sets r x = r x"
  by (induction sets arbitrary: r) (auto simp: set_values_def)

lemma edit_keeps_ids: "(\<And>r. t = u \<Longrightarrow> f r ''id'' = r ''id'') \<Longrightarrow> row_ids (edit_rows t f rho) u = row_ids rho u"
  by (cases "rho u") (auto simp: row_ids_def edit_rows_def)

lemma edit_elsewhere: "t \<noteq> u \<Longrightarrow> row_ids (edit_rows u f rho) t = row_ids rho t"
  by (simp add: row_ids_def edit_rows_def)

lemma exec_keeps_ids:
  assumes "exec s c = Inr c'" "t \<notin> set (takes_rows s)" "row_ids (rows_in c) t = Some is"
  shows "row_ids (effect s (rows_in c)) t = Some is"
proof (cases s)
  case (Create_Table u es)
  with assms have "find_table c u = None" by (auto simp: create_table_def Let_def split: if_splits)
  with Create_Table assms(3) show ?thesis by (auto simp: row_ids_def rows_in_def)
next
  case (Drop_Table u)
  with assms show ?thesis by (simp add: row_ids_def)
qed (use assms in \<open>auto simp: edit_keeps_ids edit_elsewhere set_values_other split: if_splits\<close>)

lemma run_keeps_ids:
  assumes "run ss c = Inr c'" "accepts_all ss (rows_in c)" "run ss (emptied c) = Inr k"
    "\<forall>s \<in> set ss. t \<notin> set (takes_rows s)" "row_ids (rows_in c) t = Some is"
  shows "row_ids (rows_in c') t = Some is"
  using assms
proof (induction ss arbitrary: c)
  case (Cons s ss)
  then obtain k1 where k1: "exec s (emptied c) = Inr k1" "run ss k1 = Inr k" by (auto split: sum.splits)
  with exec_split Cons.prems(2) obtain c1 where c1: "exec s c = Inr c1" "emptied c1 = k1"
    "rows_in c1 = effect s (rows_in c)" by fastforce
  moreover have "row_ids (rows_in c1) t = Some is"
    unfolding c1(3) by (rule exec_keeps_ids [OF c1(1)]) (use Cons.prems in auto)
  ultimately show ?case using Cons.prems k1 Cons.IH [of c1] by simp
qed simp

end
