(* ===== verification/Migrations.thy ===== *)
theory Migrations
  imports Ddl Boarding
begin

text \<open>
  \<^verbatim>\<open>alembic/versions\<close>: the nine revisions as the statements they execute, in the order the
  files have them; \<^verbatim>\<open>alembic/env.py\<close>, which runs what is missing in one transaction; and the
  tables the models of \<^verbatim>\<open>app/models\<close> declare, which the revisions must arrive at. The rows
  of the database at the time are arbitrary; the keys and random bytes a revision draws are arguments.
\<close>

abbreviation col :: "string \<Rightarrow> col_type \<Rightarrow> element" where
  "col n t \<equiv> Column \<lparr>col_name = n, col_type = t, col_nullable = False, col_default = None\<rparr>"

abbreviation nul :: "string \<Rightarrow> col_type \<Rightarrow> element" where
  "nul n t \<equiv> Column \<lparr>col_name = n, col_type = t, col_nullable = True, col_default = None\<rparr>"

abbreviation dflt :: "string \<Rightarrow> col_type \<Rightarrow> string \<Rightarrow> element" where
  "dflt n t d \<equiv> Column \<lparr>col_name = n, col_type = t, col_nullable = False, col_default = Some d\<rparr>"

section \<open>8e1582729149: accounts\<close>

definition create_users :: "statement" where
  "create_users =
     Create_Table ''users''
      [col ''email'' (StringT 255),
       col ''password_hash'' (StringT 255),
       col ''role'' (EnumT ''user_role'' [''student'', ''helper'', ''admin'']),
       col ''name'' (StringT 120),
       nul ''phone'' (StringT 32),
       nul ''photo_url'' (StringT 512),
       col ''status'' (EnumT ''user_status'' [''pending_email'', ''active'', ''pending_approval'', ''suspended'']),
       col ''id'' UuidT,
       dflt ''created_at'' DateTimeT ''now()'',
       dflt ''updated_at'' DateTimeT ''now()'',
       Primary [''id'']]"

definition create_helpers :: "statement" where
  "create_helpers =
     Create_Table ''helpers''
      [col ''user_id'' UuidT,
       nul ''approved_by'' UuidT,
       col ''status'' (EnumT ''helper_status'' [''pending'', ''approved'', ''suspended'']),
       nul ''current_device_id'' (StringT 128),
       col ''id'' UuidT,
       dflt ''created_at'' DateTimeT ''now()'',
       dflt ''updated_at'' DateTimeT ''now()'',
       Foreign None ''approved_by'' ''users'' ''id'' No_Action,
       Foreign None ''user_id'' ''users'' ''id'' Cascade_Rows,
       Primary [''id''],
       Unique None [''user_id'']]"

definition create_students :: "statement" where
  "create_students =
     Create_Table ''students''
      [col ''user_id'' UuidT,
       col ''student_id_no'' (StringT 64),
       nul ''department'' (StringT 120),
       nul ''batch'' (StringT 32),
       nul ''default_stop_id'' UuidT,
       col ''id'' UuidT,
       dflt ''created_at'' DateTimeT ''now()'',
       dflt ''updated_at'' DateTimeT ''now()'',
       Foreign None ''user_id'' ''users'' ''id'' Cascade_Rows,
       Primary [''id''],
       Unique None [''user_id'']]"

definition upgrade_8e1582729149 :: "statement list" where
  "upgrade_8e1582729149 =
     [create_users,
      Create_Index ''ix_users_email'' ''users'' [''email''] True None,
      create_helpers,
      create_students,
      Create_Index ''ix_students_student_id_no'' ''students'' [''student_id_no''] True None]"

definition downgrade_8e1582729149 :: "statement list" where
  "downgrade_8e1582729149 =
     [Drop_Index ''ix_students_student_id_no'' ''students'',
      Drop_Table ''students'',
      Drop_Table ''helpers'',
      Drop_Index ''ix_users_email'' ''users'',
      Drop_Table ''users'']"

section \<open>24a04e22dd61 and b7f3c1a9d2e4: buses, and positions for a while\<close>

definition create_buses :: "statement" where
  "create_buses =
     Create_Table ''buses''
      [col ''reg_no'' (StringT 32),
       nul ''nickname'' (StringT 64),
       col ''capacity'' IntegerT,
       col ''status'' (EnumT ''bus_status'' [''active'', ''inactive'', ''maintenance'']),
       col ''id'' UuidT,
       dflt ''created_at'' DateTimeT ''now()'',
       dflt ''updated_at'' DateTimeT ''now()'',
       Primary [''id'']]"

definition create_gps_points :: "statement" where
  "create_gps_points =
     Create_Table ''gps_points''
      [nul ''trip_id'' UuidT,
       col ''bus_id'' UuidT,
       col ''ts'' DateTimeT,
       col ''lat'' FloatT,
       col ''lng'' FloatT,
       nul ''speed'' FloatT,
       nul ''heading'' FloatT,
       nul ''accuracy'' FloatT,
       nul ''matched_route_pct'' FloatT,
       col ''id'' UuidT,
       dflt ''created_at'' DateTimeT ''now()'',
       dflt ''updated_at'' DateTimeT ''now()'',
       Foreign None ''bus_id'' ''buses'' ''id'' Cascade_Rows,
       Primary [''id'']]"

definition upgrade_24a04e22dd61 :: "statement list" where
  "upgrade_24a04e22dd61 =
     [create_buses,
      Create_Index ''ix_buses_reg_no'' ''buses'' [''reg_no''] True None,
      create_gps_points,
      Create_Index ''ix_gps_points_bus_id'' ''gps_points'' [''bus_id''] False None]"

definition downgrade_24a04e22dd61 :: "statement list" where
  "downgrade_24a04e22dd61 =
     [Drop_Index ''ix_gps_points_bus_id'' ''gps_points'',
      Drop_Table ''gps_points'',
      Drop_Index ''ix_buses_reg_no'' ''buses'',
      Drop_Table ''buses'']"

definition recreate_gps_points :: "statement" where
  "recreate_gps_points =
     Create_Table ''gps_points''
      [nul ''trip_id'' UuidT,
       col ''bus_id'' UuidT,
       col ''ts'' DateTimeT,
       col ''lat'' FloatT,
       col ''lng'' FloatT,
       nul ''speed'' FloatT,
       nul ''heading'' FloatT,
       nul ''accuracy'' FloatT,
       nul ''matched_route_pct'' FloatT,
       col ''id'' UuidT,
       dflt ''created_at'' DateTimeT ''now()'',
       dflt ''updated_at'' DateTimeT ''now()'',
       Foreign None ''bus_id'' ''buses'' ''id'' Cascade_Rows,
       Primary [''id'']]"

definition upgrade_b7f3c1a9d2e4 :: "statement list" where
  "upgrade_b7f3c1a9d2e4 =
     [Drop_Index ''ix_gps_points_bus_id'' ''gps_points'',
      Drop_Table ''gps_points'']"

definition downgrade_b7f3c1a9d2e4 :: "statement list" where
  "downgrade_b7f3c1a9d2e4 =
     [recreate_gps_points,
      Create_Index ''ix_gps_points_bus_id'' ''gps_points'' [''bus_id''] False None]"

section \<open>c4d8e1f60a35: stops, routes and trips\<close>

definition TIMESTAMPS :: "element list" where
  "TIMESTAMPS = [dflt ''created_at'' DateTimeT ''now()'', dflt ''updated_at'' DateTimeT ''now()'']"

definition create_stops :: "statement" where
  "create_stops =
     Create_Table ''stops''
      ([col ''id'' UuidT,
        Primary [''id''],
        col ''name'' (StringT 120),
        col ''lat'' FloatT,
        col ''lng'' FloatT]
       @ TIMESTAMPS)"

definition create_routes :: "statement" where
  "create_routes =
     Create_Table ''routes''
      ([col ''id'' UuidT,
        Primary [''id''],
        col ''name'' (StringT 120),
        col ''direction'' (EnumT ''route_direction'' [''inbound'', ''outbound'']),
        nul ''polyline'' TextT,
        dflt ''is_active'' BooleanT ''true'']
       @ TIMESTAMPS @ [Unique (Some ''uq_routes_name_direction'') [''name'', ''direction'']])"

definition create_route_stops :: "statement" where
  "create_route_stops =
     Create_Table ''route_stops''
      ([col ''id'' UuidT,
        Primary [''id''],
        col ''route_id'' UuidT,
        Foreign None ''route_id'' ''routes'' ''id'' Cascade_Rows,
        col ''stop_id'' UuidT,
        Foreign None ''stop_id'' ''stops'' ''id'' Restrict_Rows,
        col ''seq'' IntegerT,
        nul ''scheduled_offset_min'' IntegerT]
       @ TIMESTAMPS @ [Unique (Some ''uq_route_stops_route_seq'') [''route_id'', ''seq''],
          Unique (Some ''uq_route_stops_route_stop'') [''route_id'', ''stop_id'']])"

definition create_trips :: "statement" where
  "create_trips =
     Create_Table ''trips''
      ([col ''id'' UuidT,
        Primary [''id''],
        col ''route_id'' UuidT,
        Foreign None ''route_id'' ''routes'' ''id'' Restrict_Rows,
        col ''bus_id'' UuidT,
        Foreign None ''bus_id'' ''buses'' ''id'' Restrict_Rows,
        col ''helper_id'' UuidT,
        Foreign None ''helper_id'' ''helpers'' ''id'' Restrict_Rows,
        col ''service_date'' DateT,
        nul ''scheduled_start'' DateTimeT,
        nul ''actual_start'' DateTimeT,
        nul ''actual_end'' DateTimeT,
        dflt ''status'' (EnumT ''trip_status'' [''scheduled'', ''live'', ''completed'', ''cancelled'']) ''scheduled'']
       @ TIMESTAMPS)"

definition upgrade_c4d8e1f60a35 :: "statement list" where
  "upgrade_c4d8e1f60a35 =
     [create_stops,
      create_routes,
      create_route_stops,
      Create_Index ''ix_route_stops_route_id'' ''route_stops'' [''route_id''] False None,
      Create_Index ''ix_route_stops_stop_id'' ''route_stops'' [''stop_id''] False None,
      create_trips,
      Create_Index ''ix_trips_route_id'' ''trips'' [''route_id''] False None,
      Create_Index ''ix_trips_bus_id'' ''trips'' [''bus_id''] False None,
      Create_Index ''ix_trips_helper_id'' ''trips'' [''helper_id''] False None,
      Create_Index ''ix_trips_service_date_status'' ''trips'' [''service_date'', ''status''] False None,
      Create_Index ''uq_trips_one_live_per_bus'' ''trips'' [''bus_id''] True (Some (''status'', [''live''])),
      Create_Index ''uq_trips_one_live_per_helper'' ''trips'' [''helper_id''] True (Some (''status'', [''live'']))]"

definition downgrade_c4d8e1f60a35 :: "statement list" where
  "downgrade_c4d8e1f60a35 =
     [Drop_Table ''trips'',
      Drop_Table ''route_stops'',
      Drop_Table ''routes'',
      Drop_Table ''stops'',
      Drop_Type ''trip_status'',
      Drop_Type ''route_direction'']"

section \<open>d5b2f7c94e18: seat reports and alerts\<close>

definition create_seat_reports :: "statement" where
  "create_seat_reports =
     Create_Table ''seat_reports''
      ([col ''id'' UuidT,
        Primary [''id''],
        col ''trip_id'' UuidT,
        Foreign None ''trip_id'' ''trips'' ''id'' Cascade_Rows,
        col ''helper_id'' UuidT,
        Foreign None ''helper_id'' ''helpers'' ''id'' Restrict_Rows,
        col ''occupied'' IntegerT,
        col ''capacity_snapshot'' IntegerT,
        col ''reported_at'' DateTimeT]
       @ TIMESTAMPS)"

definition create_alerts :: "statement" where
  "create_alerts =
     Create_Table ''alerts''
      ([col ''id'' UuidT,
        Primary [''id''],
        col ''source'' (EnumT ''alert_source'' [''helper'', ''student'', ''system'']),
        nul ''raised_by'' UuidT,
        Foreign None ''raised_by'' ''users'' ''id'' Set_Null_Rows,
        nul ''trip_id'' UuidT,
        Foreign None ''trip_id'' ''trips'' ''id'' Set_Null_Rows,
        nul ''bus_id'' UuidT,
        Foreign None ''bus_id'' ''buses'' ''id'' Set_Null_Rows,
        col ''type'' (EnumT ''alert_type'' [''sos'', ''breakdown'', ''traffic_delay'', ''accident'', ''harassment'',
           ''overcrowding'', ''off_route'', ''over_speed'', ''gps_blackout'', ''other'']),
        col ''severity'' (EnumT ''alert_severity'' [''critical'', ''warning'', ''info'']),
        nul ''message'' TextT,
        nul ''lat'' FloatT,
        nul ''lng'' FloatT,
        dflt ''status'' (EnumT ''alert_status'' [''open'', ''acknowledged'', ''resolved'', ''dismissed'']) ''open'',
        nul ''acknowledged_by'' UuidT,
        Foreign None ''acknowledged_by'' ''users'' ''id'' Set_Null_Rows,
        nul ''resolved_note'' (StringT 500),
        nul ''resolved_at'' DateTimeT]
       @ TIMESTAMPS)"

definition upgrade_d5b2f7c94e18 :: "statement list" where
  "upgrade_d5b2f7c94e18 =
     [create_seat_reports,
      Create_Index ''ix_seat_reports_trip_reported'' ''seat_reports'' [''trip_id'', ''reported_at''] False None,
      create_alerts,
      Create_Index ''ix_alerts_status_severity'' ''alerts'' [''status'', ''severity''] False None,
      Create_Index ''ix_alerts_trip_id'' ''alerts'' [''trip_id''] False None]"

definition downgrade_d5b2f7c94e18 :: "statement list" where
  "downgrade_d5b2f7c94e18 =
     [Drop_Table ''alerts'',
      Drop_Table ''seat_reports'',
      Drop_Type ''alert_status'',
      Drop_Type ''alert_severity'',
      Drop_Type ''alert_type'',
      Drop_Type ''alert_source'']"

section \<open>e9c3a7b41f26: the approver may go\<close>

definition APPROVED_BY_FKEY :: string where "APPROVED_BY_FKEY = ''helpers_approved_by_fkey''"

definition upgrade_e9c3a7b41f26 :: "statement list" where
  "upgrade_e9c3a7b41f26 =
     [Drop_Constraint APPROVED_BY_FKEY ''helpers'',
      Create_Foreign APPROVED_BY_FKEY ''helpers'' ''users'' ''approved_by'' ''id'' Set_Null_Rows]"

definition downgrade_e9c3a7b41f26 :: "statement list" where
  "downgrade_e9c3a7b41f26 =
     [Drop_Constraint APPROVED_BY_FKEY ''helpers'',
      Create_Foreign APPROVED_BY_FKEY ''helpers'' ''users'' ''approved_by'' ''id'' No_Action]"

section \<open>f2a91c4d70b3: products, orders and tickets\<close>

definition create_ticket_products :: "statement" where
  "create_ticket_products =
     Create_Table ''ticket_products''
      ([col ''id'' UuidT,
        Primary [''id''],
        col ''type'' (EnumT ''product_type'' [''single'', ''bulk'', ''package'']),
        col ''name'' (StringT 120),
        col ''price_paisa'' IntegerT,
        nul ''ride_count'' IntegerT,
        dflt ''validity_days'' IntegerT ''30'',
        nul ''route_scope'' UuidT,
        Foreign None ''route_scope'' ''routes'' ''id'' Set_Null_Rows,
        dflt ''active'' BooleanT ''true'']
       @ TIMESTAMPS)"

definition create_orders :: "statement" where
  "create_orders =
     Create_Table ''orders''
      ([col ''id'' UuidT,
        Primary [''id''],
        col ''student_id'' UuidT,
        Foreign None ''student_id'' ''students'' ''id'' Restrict_Rows,
        col ''product_id'' UuidT,
        Foreign None ''product_id'' ''ticket_products'' ''id'' Restrict_Rows,
        col ''amount_paisa'' IntegerT,
        dflt ''currency'' (StringT 3) ''BDT'',
        dflt ''status'' (EnumT ''order_status'' [''initiated'', ''pending'', ''paid'', ''failed'', ''cancelled'',
           ''refunded'']) ''initiated'',
        col ''idempotency_key'' (StringT 64),
        Unique None [''idempotency_key''],
        col ''tran_id'' (StringT 64),
        Unique None [''tran_id''],
        dflt ''gateway'' (StringT 32) ''sslcommerz'',
        nul ''gateway_val_id'' (StringT 128),
        nul ''gateway_bank_tran_id'' (StringT 128),
        nul ''gateway_card_type'' (StringT 64),
        nul ''raw_payload'' JsonbT,
        nul ''paid_at'' DateTimeT]
       @ TIMESTAMPS)"

definition create_tickets :: "statement" where
  "create_tickets =
     Create_Table ''tickets''
      ([col ''id'' UuidT,
        Primary [''id''],
        col ''order_id'' UuidT,
        Foreign None ''order_id'' ''orders'' ''id'' Restrict_Rows,
        Unique None [''order_id''],
        col ''student_id'' UuidT,
        Foreign None ''student_id'' ''students'' ''id'' Restrict_Rows,
        col ''product_id'' UuidT,
        Foreign None ''product_id'' ''ticket_products'' ''id'' Restrict_Rows,
        nul ''rides_total'' IntegerT,
        nul ''rides_remaining'' IntegerT,
        col ''valid_from'' DateTimeT,
        col ''valid_to'' DateTimeT,
        col ''qr_secret'' (StringT 64),
        dflt ''status'' (EnumT ''ticket_status'' [''active'', ''exhausted'', ''expired'', ''revoked'']) ''active'']
       @ TIMESTAMPS)"

definition upgrade_f2a91c4d70b3 :: "statement list" where
  "upgrade_f2a91c4d70b3 =
     [create_ticket_products,
      create_orders,
      Create_Index ''ix_orders_student_created'' ''orders'' [''student_id'', ''created_at''] False None,
      Create_Index ''ix_orders_tran_id'' ''orders'' [''tran_id''] False None,
      Create_Index ''ix_orders_unsettled'' ''orders'' [''status''] False (Some (''status'', [''initiated'', ''pending''])),
      create_tickets,
      Create_Index ''ix_tickets_student_status'' ''tickets'' [''student_id'', ''status''] False None]"

definition downgrade_f2a91c4d70b3 :: "statement list" where
  "downgrade_f2a91c4d70b3 =
     [Drop_Table ''tickets'',
      Drop_Table ''orders'',
      Drop_Table ''ticket_products'',
      Drop_Type ''ticket_status'',
      Drop_Type ''order_status'',
      Drop_Type ''product_type'']"

section \<open>a4e71b28d905: a keypair for every ticket\<close>

definition create_redemptions :: "statement" where
  "create_redemptions =
     Create_Table ''redemptions''
      ([col ''id'' UuidT,
        Primary [''id''],
        col ''ticket_id'' UuidT,
        Foreign None ''ticket_id'' ''tickets'' ''id'' Restrict_Rows,
        nul ''trip_id'' UuidT,
        Foreign None ''trip_id'' ''trips'' ''id'' Set_Null_Rows,
        col ''helper_id'' UuidT,
        Foreign None ''helper_id'' ''helpers'' ''id'' Restrict_Rows,
        col ''helper_device_id'' (StringT 128),
        col ''nonce'' (StringT 64),
        dflt ''passenger_count'' IntegerT ''1'',
        col ''redeemed_at'' DateTimeT,
        col ''synced_at'' DateTimeT,
        dflt ''flag'' (EnumT ''redemption_flag'' [''ok'', ''duplicate_suspect'', ''invalid'']) ''ok'']
       @ TIMESTAMPS)"

text \<open>
  \<^verbatim>\<open>_keypair\<close>: the library's fresh raw keys, encoded. What a revision draws: the keys of its
  n-th call, and the bytes Postgres makes for a row.
\<close>

record draws =
  raw_keypair :: "nat \<Rightarrow> bytes \<times> bytes"
  random_hex :: "string option \<Rightarrow> string"

definition keypair :: "bytes \<times> bytes \<Rightarrow> string \<times> string" where
  "keypair raw = (b64_encode (fst raw), b64_encode (snd raw))"

text \<open>
  The upgrade: the columns come nullable, each ticket then found gets a keypair of its own, and only
  then they must be filled.
\<close>

definition add_key_columns :: "statement list" where
  "add_key_columns =
     [Add_Column ''tickets'' \<lparr>col_name = ''qr_private_key'', col_type = StringT 64, col_nullable = True,
        col_default = None\<rparr>,
      Add_Column ''tickets'' \<lparr>col_name = ''qr_public_key'', col_type = StringT 64, col_nullable = True,
        col_default = None\<rparr>]"

definition selected_ids :: "catalog \<Rightarrow> string option list" where
  "selected_ids c = (case find_table c ''tickets'' of None \<Rightarrow> [] | Some tb \<Rightarrow> map (\<lambda>r. r ''id'') (tb_rows tb))"

fun give_keys :: "(nat \<Rightarrow> bytes \<times> bytes) \<Rightarrow> nat \<Rightarrow> string option list \<Rightarrow> statement list" where
  "give_keys raw n [] = []"
| "give_keys raw n (None # ids) = give_keys raw (Suc n) ids"
| "give_keys raw n (Some i # ids) =
     (case keypair (raw n) of (private, public) \<Rightarrow>
        Update_Row ''tickets'' i [(''qr_private_key'', private), (''qr_public_key'', public)])
     # give_keys raw (Suc n) ids"

definition require_keys :: "statement list" where
  "require_keys =
     [Set_Not_Null ''tickets'' ''qr_private_key'', Set_Not_Null ''tickets'' ''qr_public_key'',
      Drop_Column ''tickets'' ''qr_secret'']"

definition add_redemptions :: "statement list" where
  "add_redemptions =
     [create_redemptions,
      Create_Unique ''uq_redemptions_device_nonce'' ''redemptions'' [''helper_device_id'', ''nonce''],
      Create_Index ''ix_redemptions_nonce'' ''redemptions'' [''nonce''] False None,
      Create_Index ''ix_redemptions_ticket'' ''redemptions'' [''ticket_id'', ''redeemed_at''] False None]"

definition upgrade_a4e71b28d905 :: "draws \<Rightarrow> catalog \<Rightarrow> sql_error + catalog" where
  "upgrade_a4e71b28d905 d c =
     (case run add_key_columns c of
        Inl e \<Rightarrow> Inl e
      | Inr c \<Rightarrow>
          (case run (give_keys (raw_keypair d) 0 (selected_ids c)) c of
             Inl e \<Rightarrow> Inl e
           | Inr c \<Rightarrow> run (require_keys @ add_redemptions) c))"

definition downgrade_a4e71b28d905 :: "draws \<Rightarrow> statement list" where
  "downgrade_a4e71b28d905 d =
     [Drop_Table ''redemptions'',
      Drop_Type ''redemption_flag'',
      Add_Column ''tickets'' \<lparr>col_name = ''qr_secret'', col_type = StringT 64, col_nullable = True,
        col_default = None\<rparr>,
      Update_All ''tickets'' ''qr_secret'' ''gen_random_bytes'' (random_hex d),
      Set_Not_Null ''tickets'' ''qr_secret'',
      Drop_Column ''tickets'' ''qr_public_key'',
      Drop_Column ''tickets'' ''qr_private_key'']"

section \<open>b6d904e12f37: a ticket can be suspended\<close>

definition upgrade_b6d904e12f37 :: "statement list" where
  "upgrade_b6d904e12f37 = [Add_Enum_Value ''ticket_status'' ''suspended'']"

definition downgrade_b6d904e12f37 :: "statement list" where
  "downgrade_b6d904e12f37 = []"

section \<open>The chain of revisions\<close>

record revision =
  rev_id :: string
  rev_down :: "string option"
  rev_upgrade :: "draws \<Rightarrow> catalog \<Rightarrow> sql_error + catalog"
  rev_downgrade :: "draws \<Rightarrow> catalog \<Rightarrow> sql_error + catalog"

definition rev_8e1582729149 :: revision where
  "rev_8e1582729149 = \<lparr>rev_id = ''8e1582729149'', rev_down = None,
     rev_upgrade = \<lambda>_. run upgrade_8e1582729149, rev_downgrade = \<lambda>_. run downgrade_8e1582729149\<rparr>"

definition rev_24a04e22dd61 :: revision where
  "rev_24a04e22dd61 = \<lparr>rev_id = ''24a04e22dd61'', rev_down = Some ''8e1582729149'',
     rev_upgrade = \<lambda>_. run upgrade_24a04e22dd61, rev_downgrade = \<lambda>_. run downgrade_24a04e22dd61\<rparr>"

definition rev_b7f3c1a9d2e4 :: revision where
  "rev_b7f3c1a9d2e4 = \<lparr>rev_id = ''b7f3c1a9d2e4'', rev_down = Some ''24a04e22dd61'',
     rev_upgrade = \<lambda>_. run upgrade_b7f3c1a9d2e4, rev_downgrade = \<lambda>_. run downgrade_b7f3c1a9d2e4\<rparr>"

definition rev_c4d8e1f60a35 :: revision where
  "rev_c4d8e1f60a35 = \<lparr>rev_id = ''c4d8e1f60a35'', rev_down = Some ''b7f3c1a9d2e4'',
     rev_upgrade = \<lambda>_. run upgrade_c4d8e1f60a35, rev_downgrade = \<lambda>_. run downgrade_c4d8e1f60a35\<rparr>"

definition rev_d5b2f7c94e18 :: revision where
  "rev_d5b2f7c94e18 = \<lparr>rev_id = ''d5b2f7c94e18'', rev_down = Some ''c4d8e1f60a35'',
     rev_upgrade = \<lambda>_. run upgrade_d5b2f7c94e18, rev_downgrade = \<lambda>_. run downgrade_d5b2f7c94e18\<rparr>"

definition rev_e9c3a7b41f26 :: revision where
  "rev_e9c3a7b41f26 = \<lparr>rev_id = ''e9c3a7b41f26'', rev_down = Some ''d5b2f7c94e18'',
     rev_upgrade = \<lambda>_. run upgrade_e9c3a7b41f26, rev_downgrade = \<lambda>_. run downgrade_e9c3a7b41f26\<rparr>"

definition rev_f2a91c4d70b3 :: revision where
  "rev_f2a91c4d70b3 = \<lparr>rev_id = ''f2a91c4d70b3'', rev_down = Some ''e9c3a7b41f26'',
     rev_upgrade = \<lambda>_. run upgrade_f2a91c4d70b3, rev_downgrade = \<lambda>_. run downgrade_f2a91c4d70b3\<rparr>"

definition rev_a4e71b28d905 :: revision where
  "rev_a4e71b28d905 = \<lparr>rev_id = ''a4e71b28d905'', rev_down = Some ''f2a91c4d70b3'',
     rev_upgrade = upgrade_a4e71b28d905, rev_downgrade = \<lambda>d. run (downgrade_a4e71b28d905 d)\<rparr>"

definition rev_b6d904e12f37 :: revision where
  "rev_b6d904e12f37 = \<lparr>rev_id = ''b6d904e12f37'', rev_down = Some ''a4e71b28d905'',
     rev_upgrade = \<lambda>_. run upgrade_b6d904e12f37, rev_downgrade = \<lambda>_. run downgrade_b6d904e12f37\<rparr>"

definition versions :: "revision list" where
  "versions =
     [rev_8e1582729149, rev_24a04e22dd61, rev_b7f3c1a9d2e4, rev_c4d8e1f60a35,
      rev_d5b2f7c94e18, rev_e9c3a7b41f26, rev_f2a91c4d70b3, rev_a4e71b28d905,
      rev_b6d904e12f37]"

text \<open>
  Alembic goes from the version the database names to the one that builds on it, until none does,
  and notes each; \<^verbatim>\<open>do_run_migrations\<close> wraps all of it in one transaction, so an error leaves
  the database as it was.
\<close>

definition upgrade_step :: "draws \<Rightarrow> revision \<Rightarrow> catalog \<Rightarrow> sql_error + catalog" where
  "upgrade_step d r c =
     (case rev_upgrade r d c of Inl e \<Rightarrow> Inl e | Inr c' \<Rightarrow> Inr (c'\<lparr>cat_version := Some (rev_id r)\<rparr>))"

definition downgrade_step :: "draws \<Rightarrow> revision \<Rightarrow> catalog \<Rightarrow> sql_error + catalog" where
  "downgrade_step d r c =
     (case rev_downgrade r d c of Inl e \<Rightarrow> Inl e | Inr c' \<Rightarrow> Inr (c'\<lparr>cat_version := rev_down r\<rparr>))"

fun steps :: "(revision \<Rightarrow> catalog \<Rightarrow> sql_error + catalog) \<Rightarrow> revision list \<Rightarrow> catalog \<Rightarrow> sql_error + catalog" where
  "steps f [] c = Inr c"
| "steps f (r # rs) c = (case f r c of Inl e \<Rightarrow> Inl e | Inr c' \<Rightarrow> steps f rs c')"

definition pending :: "catalog \<Rightarrow> revision list" where
  "pending c =
     (case cat_version c of
        None \<Rightarrow> versions
      | Some v \<Rightarrow> drop 1 (dropWhile (\<lambda>r. rev_id r \<noteq> v) versions))"

definition applied :: "catalog \<Rightarrow> revision list" where
  "applied c =
     (case cat_version c of
        None \<Rightarrow> []
      | Some v \<Rightarrow> dropWhile (\<lambda>r. rev_id r \<noteq> v) (rev versions))"

definition in_transaction :: "(catalog \<Rightarrow> sql_error + catalog) \<Rightarrow> catalog \<Rightarrow> sql_error option \<times> catalog" where
  "in_transaction f c = (case f c of Inl e \<Rightarrow> (Some e, c) | Inr c' \<Rightarrow> (None, c'))"

definition upgrade_head :: "draws \<Rightarrow> catalog \<Rightarrow> sql_error option \<times> catalog" where
  "upgrade_head d c = in_transaction (steps (upgrade_step d) (pending c)) c"

definition downgrade_base :: "draws \<Rightarrow> catalog \<Rightarrow> sql_error option \<times> catalog" where
  "downgrade_base d c = in_transaction (steps (downgrade_step d) (applied c)) c"

definition fresh_database :: "string list \<Rightarrow> catalog" where
  "fresh_database fns = \<lparr>cat_tables = [], cat_types = [], cat_functions = fns, cat_version = None\<rparr>"

section \<open>What the models declare\<close>

text \<open>
  \<^verbatim>\<open>index=True\<close> makes an index named after table and column; with
  \<^verbatim>\<open>unique=True\<close> beside it the index itself is the unique one. The defaults of the models are
  Python's and leave no trace in the table; the timestamps of \<^verbatim>\<open>Base\<close> have the server's.
\<close>

definition base_columns :: "element list" where
  "base_columns = [col ''id'' UuidT, Primary [''id''],
      dflt ''created_at'' DateTimeT ''now()'', dflt ''updated_at'' DateTimeT ''now()'']"

definition indexed :: "string \<Rightarrow> string \<Rightarrow> bool \<Rightarrow> index_def" where
  "indexed t c u = \<lparr>ix_name = ''ix_'' @ t @ ''_'' @ c, ix_columns = [c],
         ix_unique = u, ix_where = None\<rparr>"

definition declared :: "string \<Rightarrow> element list \<Rightarrow> index_def list \<Rightarrow> string \<times> sql_table" where
  "declared t es ixs = (t, (make_table t (base_columns @ es))\<lparr>tb_indexes := ixs\<rparr>)"

definition users_table :: "string \<times> sql_table" where
  "users_table =
     declared ''users''
      [col ''email'' (StringT 255),
       col ''password_hash'' (StringT 255),
       col ''role'' (EnumT ''user_role'' [''student'', ''helper'', ''admin'']),
       col ''name'' (StringT 120),
       nul ''phone'' (StringT 32),
       nul ''photo_url'' (StringT 512),
       col ''status'' (EnumT ''user_status'' [''pending_email'', ''active'', ''pending_approval'', ''suspended''])]
      [indexed ''users'' ''email'' True]"

definition students_table :: "string \<times> sql_table" where
  "students_table =
     declared ''students''
      [col ''user_id'' UuidT,
       Foreign None ''user_id'' ''users'' ''id'' Cascade_Rows,
       Unique None [''user_id''],
       col ''student_id_no'' (StringT 64),
       nul ''department'' (StringT 120),
       nul ''batch'' (StringT 32),
       nul ''default_stop_id'' UuidT]
      [indexed ''students'' ''student_id_no'' True]"

definition helpers_table :: "string \<times> sql_table" where
  "helpers_table =
     declared ''helpers''
      [col ''user_id'' UuidT,
       Foreign None ''user_id'' ''users'' ''id'' Cascade_Rows,
       Unique None [''user_id''],
       nul ''approved_by'' UuidT,
       Foreign None ''approved_by'' ''users'' ''id'' Set_Null_Rows,
       col ''status'' (EnumT ''helper_status'' [''pending'', ''approved'', ''suspended'']),
       nul ''current_device_id'' (StringT 128)]
      []"

definition buses_table :: "string \<times> sql_table" where
  "buses_table =
     declared ''buses''
      [col ''reg_no'' (StringT 32),
       nul ''nickname'' (StringT 64),
       col ''capacity'' IntegerT,
       col ''status'' (EnumT ''bus_status'' [''active'', ''inactive'', ''maintenance''])]
      [indexed ''buses'' ''reg_no'' True]"

definition stops_table :: "string \<times> sql_table" where
  "stops_table =
     declared ''stops''
      [col ''name'' (StringT 120),
       col ''lat'' FloatT,
       col ''lng'' FloatT]
      []"

definition routes_table :: "string \<times> sql_table" where
  "routes_table =
     declared ''routes''
      [Unique (Some ''uq_routes_name_direction'') [''name'', ''direction''],
       col ''name'' (StringT 120),
       col ''direction'' (EnumT ''route_direction'' [''inbound'', ''outbound'']),
       nul ''polyline'' TextT,
       col ''is_active'' BooleanT]
      []"

definition route_stops_table :: "string \<times> sql_table" where
  "route_stops_table =
     declared ''route_stops''
      [Unique (Some ''uq_route_stops_route_seq'') [''route_id'', ''seq''],
       Unique (Some ''uq_route_stops_route_stop'') [''route_id'', ''stop_id''],
       col ''route_id'' UuidT,
       Foreign None ''route_id'' ''routes'' ''id'' Cascade_Rows,
       col ''stop_id'' UuidT,
       Foreign None ''stop_id'' ''stops'' ''id'' Restrict_Rows,
       col ''seq'' IntegerT,
       nul ''scheduled_offset_min'' IntegerT]
      [indexed ''route_stops'' ''route_id'' False,
       indexed ''route_stops'' ''stop_id'' False]"

definition trips_table :: "string \<times> sql_table" where
  "trips_table =
     declared ''trips''
      [col ''route_id'' UuidT,
       Foreign None ''route_id'' ''routes'' ''id'' Restrict_Rows,
       col ''bus_id'' UuidT,
       Foreign None ''bus_id'' ''buses'' ''id'' Restrict_Rows,
       col ''helper_id'' UuidT,
       Foreign None ''helper_id'' ''helpers'' ''id'' Restrict_Rows,
       col ''service_date'' DateT,
       nul ''scheduled_start'' DateTimeT,
       nul ''actual_start'' DateTimeT,
       nul ''actual_end'' DateTimeT,
       col ''status'' (EnumT ''trip_status'' [''scheduled'', ''live'', ''completed'', ''cancelled''])]
      [\<lparr>ix_name = ''uq_trips_one_live_per_bus'', ix_columns = [''bus_id''],
         ix_unique = True, ix_where = Some (''status'', [''live''])\<rparr>,
       \<lparr>ix_name = ''uq_trips_one_live_per_helper'', ix_columns = [''helper_id''],
         ix_unique = True, ix_where = Some (''status'', [''live''])\<rparr>,
       \<lparr>ix_name = ''ix_trips_service_date_status'', ix_columns = [''service_date'', ''status''],
         ix_unique = False, ix_where = None\<rparr>,
       indexed ''trips'' ''route_id'' False,
       indexed ''trips'' ''bus_id'' False,
       indexed ''trips'' ''helper_id'' False]"

definition seat_reports_table :: "string \<times> sql_table" where
  "seat_reports_table =
     declared ''seat_reports''
      [col ''trip_id'' UuidT,
       Foreign None ''trip_id'' ''trips'' ''id'' Cascade_Rows,
       col ''helper_id'' UuidT,
       Foreign None ''helper_id'' ''helpers'' ''id'' Restrict_Rows,
       col ''occupied'' IntegerT,
       col ''capacity_snapshot'' IntegerT,
       col ''reported_at'' DateTimeT]
      [\<lparr>ix_name = ''ix_seat_reports_trip_reported'', ix_columns = [''trip_id'', ''reported_at''],
         ix_unique = False, ix_where = None\<rparr>]"

definition alerts_table :: "string \<times> sql_table" where
  "alerts_table =
     declared ''alerts''
      [col ''source'' (EnumT ''alert_source'' [''helper'', ''student'', ''system'']),
       nul ''raised_by'' UuidT,
       Foreign None ''raised_by'' ''users'' ''id'' Set_Null_Rows,
       nul ''trip_id'' UuidT,
       Foreign None ''trip_id'' ''trips'' ''id'' Set_Null_Rows,
       nul ''bus_id'' UuidT,
       Foreign None ''bus_id'' ''buses'' ''id'' Set_Null_Rows,
       col ''type'' (EnumT ''alert_type'' [''sos'', ''breakdown'', ''traffic_delay'', ''accident'', ''harassment'',
           ''overcrowding'', ''off_route'', ''over_speed'', ''gps_blackout'', ''other'']),
       col ''severity'' (EnumT ''alert_severity'' [''critical'', ''warning'', ''info'']),
       nul ''message'' TextT,
       nul ''lat'' FloatT,
       nul ''lng'' FloatT,
       col ''status'' (EnumT ''alert_status'' [''open'', ''acknowledged'', ''resolved'', ''dismissed'']),
       nul ''acknowledged_by'' UuidT,
       Foreign None ''acknowledged_by'' ''users'' ''id'' Set_Null_Rows,
       nul ''resolved_note'' (StringT 500),
       nul ''resolved_at'' DateTimeT]
      [\<lparr>ix_name = ''ix_alerts_status_severity'', ix_columns = [''status'', ''severity''],
         ix_unique = False, ix_where = None\<rparr>,
       \<lparr>ix_name = ''ix_alerts_trip_id'', ix_columns = [''trip_id''],
         ix_unique = False, ix_where = None\<rparr>]"

definition ticket_products_table :: "string \<times> sql_table" where
  "ticket_products_table =
     declared ''ticket_products''
      [col ''type'' (EnumT ''product_type'' [''single'', ''bulk'', ''package'']),
       col ''name'' (StringT 120),
       col ''price_paisa'' IntegerT,
       nul ''ride_count'' IntegerT,
       col ''validity_days'' IntegerT,
       nul ''route_scope'' UuidT,
       Foreign None ''route_scope'' ''routes'' ''id'' Set_Null_Rows,
       col ''active'' BooleanT]
      []"

definition orders_table :: "string \<times> sql_table" where
  "orders_table =
     declared ''orders''
      [col ''student_id'' UuidT,
       Foreign None ''student_id'' ''students'' ''id'' Restrict_Rows,
       col ''product_id'' UuidT,
       Foreign None ''product_id'' ''ticket_products'' ''id'' Restrict_Rows,
       col ''amount_paisa'' IntegerT,
       col ''currency'' (StringT 3),
       col ''status'' (EnumT ''order_status'' [''initiated'', ''pending'', ''paid'', ''failed'', ''cancelled'',
           ''refunded'']),
       col ''idempotency_key'' (StringT 64),
       Unique None [''idempotency_key''],
       col ''tran_id'' (StringT 64),
       col ''gateway'' (StringT 32),
       nul ''gateway_val_id'' (StringT 128),
       nul ''gateway_bank_tran_id'' (StringT 128),
       nul ''gateway_card_type'' (StringT 64),
       nul ''raw_payload'' JsonbT,
       nul ''paid_at'' DateTimeT]
      [\<lparr>ix_name = ''ix_orders_student_created'', ix_columns = [''student_id'', ''created_at''],
         ix_unique = False, ix_where = None\<rparr>,
       \<lparr>ix_name = ''ix_orders_unsettled'', ix_columns = [''status''],
         ix_unique = False, ix_where = Some (''status'', [''initiated'', ''pending''])\<rparr>,
       indexed ''orders'' ''tran_id'' True]"

definition tickets_table :: "string \<times> sql_table" where
  "tickets_table =
     declared ''tickets''
      [col ''order_id'' UuidT,
       Foreign None ''order_id'' ''orders'' ''id'' Restrict_Rows,
       Unique None [''order_id''],
       col ''student_id'' UuidT,
       Foreign None ''student_id'' ''students'' ''id'' Restrict_Rows,
       col ''product_id'' UuidT,
       Foreign None ''product_id'' ''ticket_products'' ''id'' Restrict_Rows,
       nul ''rides_total'' IntegerT,
       nul ''rides_remaining'' IntegerT,
       col ''valid_from'' DateTimeT,
       col ''valid_to'' DateTimeT,
       col ''qr_private_key'' (StringT 64),
       col ''qr_public_key'' (StringT 64),
       col ''status'' (EnumT ''ticket_status'' [''active'', ''exhausted'', ''expired'', ''suspended'', ''revoked''])]
      [\<lparr>ix_name = ''ix_tickets_student_status'', ix_columns = [''student_id'', ''status''],
         ix_unique = False, ix_where = None\<rparr>]"

definition redemptions_table :: "string \<times> sql_table" where
  "redemptions_table =
     declared ''redemptions''
      [Unique (Some ''uq_redemptions_device_nonce'') [''helper_device_id'', ''nonce''],
       col ''ticket_id'' UuidT,
       Foreign None ''ticket_id'' ''tickets'' ''id'' Restrict_Rows,
       nul ''trip_id'' UuidT,
       Foreign None ''trip_id'' ''trips'' ''id'' Set_Null_Rows,
       col ''helper_id'' UuidT,
       Foreign None ''helper_id'' ''helpers'' ''id'' Restrict_Rows,
       col ''helper_device_id'' (StringT 128),
       col ''nonce'' (StringT 64),
       col ''passenger_count'' IntegerT,
       col ''redeemed_at'' DateTimeT,
       col ''synced_at'' DateTimeT,
       col ''flag'' (EnumT ''redemption_flag'' [''ok'', ''duplicate_suspect'', ''invalid''])]
      [\<lparr>ix_name = ''ix_redemptions_nonce'', ix_columns = [''nonce''],
         ix_unique = False, ix_where = None\<rparr>,
       \<lparr>ix_name = ''ix_redemptions_ticket'', ix_columns = [''ticket_id'', ''redeemed_at''],
         ix_unique = False, ix_where = None\<rparr>]"

text \<open>
  What \<^verbatim>\<open>import app.models\<close> registers: the three modules its \<^verbatim>\<open>__init__\<close> imports.
  The whole of the models is that and \<^verbatim>\<open>app/models/commerce.py\<close>.
\<close>

definition registered_tables :: "(string \<times> sql_table) list" where
  "registered_tables =
     [buses_table, routes_table, route_stops_table, stops_table, trips_table, alerts_table, seat_reports_table,
      helpers_table, students_table, users_table]"

definition commerce_tables :: "(string \<times> sql_table) list" where
  "commerce_tables =
     [ticket_products_table, orders_table, tickets_table, redemptions_table]"

section \<open>Comparing two schemas\<close>

text \<open>
  A column type without the values of its enum, which the types of the catalog hold; what a table
  keeps unique, by constraint or by index; its other indexes.
\<close>

fun type_name :: "col_type \<Rightarrow> col_type" where
  "type_name (EnumT n _) = EnumT n []"
| "type_name t = t"

definition columns_of :: "sql_table \<Rightarrow> (string \<times> col_type \<times> bool) list" where
  "columns_of tb = map (\<lambda>c. (col_name c, type_name (col_type c), col_nullable c)) (tb_columns tb)"

definition keeps_unique :: "sql_table \<Rightarrow> (string list \<times> ix_condition option) list" where
  "keeps_unique tb =
     map (\<lambda>u. (uq_columns u, None)) (tb_unique tb) @
     map (\<lambda>i. (ix_columns i, ix_where i)) (filter ix_unique (tb_indexes tb))"

definition plain_indexes :: "sql_table \<Rightarrow> index_def list" where
  "plain_indexes tb = filter (\<lambda>i. \<not> ix_unique i) (tb_indexes tb)"

definition same_table :: "sql_table \<Rightarrow> sql_table \<Rightarrow> bool" where
  "same_table a b \<longleftrightarrow>
     distinct (map col_name (tb_columns a)) \<and>
     set (columns_of a) = set (columns_of b) \<and> tb_primary a = tb_primary b \<and>
     set (tb_foreign a) = set (tb_foreign b) \<and> set (keeps_unique a) = set (keeps_unique b) \<and>
     set (plain_indexes b) \<subseteq> set (plain_indexes a)"

definition same_tables :: "(string \<times> sql_table) list \<Rightarrow> (string \<times> sql_table) list \<Rightarrow> bool" where
  "same_tables as bs \<longleftrightarrow>
     distinct (map fst as) \<and> set (map fst as) = set (map fst bs) \<and>
     list_all (\<lambda>(n, a). case map_of bs n of None \<Rightarrow> False | Some b \<Rightarrow> same_table a b) as"

definition same_types :: "(string \<times> string list) list \<Rightarrow> (string \<times> string list) list \<Rightarrow> bool" where
  "same_types as bs \<longleftrightarrow>
     distinct (map fst as) \<and> set (map fst as) = set (map fst bs) \<and>
     list_all (\<lambda>(n, vs). case map_of bs n of None \<Rightarrow> False | Some ws \<Rightarrow> set vs = set ws) as"

definition metadata_types :: "(string \<times> sql_table) list \<Rightarrow> (string \<times> string list) list" where
  "metadata_types tbs = concat (map (new_types \<circ> snd) tbs)"

definition unasked_indexes :: "(string \<times> sql_table) list \<Rightarrow> (string \<times> sql_table) list \<Rightarrow> string list" where
  "unasked_indexes as bs =
     concat (map (\<lambda>(n, a). case map_of bs n of None \<Rightarrow> []
       | Some b \<Rightarrow> map ix_name (filter (\<lambda>i. i \<notin> set (plain_indexes b)) (plain_indexes a))) as)"

section \<open>The chain\<close>

text \<open>Each revision builds on the one before it, and no two have one name.\<close>

lemma linear_history:
  "map rev_down versions = None # map (Some \<circ> rev_id) (butlast versions)"
  "distinct (map rev_id versions)"
  by code_simp+

section \<open>A database in use\<close>

text \<open>
  The schema after the first n revisions, on empty tables. What the rows must keep for the
  revisions: the primary key of the tickets, and that an approver is an account.
\<close>

definition no_draws :: draws where
  "no_draws = \<lparr>raw_keypair = (\<lambda>_. ([], [])), random_hex = (\<lambda>_. [])\<rparr>"

definition schema_after :: "nat \<Rightarrow> string list \<Rightarrow> sql_error + catalog" where
  "schema_after n fns = steps (upgrade_step no_draws) (take n versions) (fresh_database fns)"

definition approver_key :: foreign_key where
  "approver_key = \<lparr>fk_name = APPROVED_BY_FKEY, fk_column = ''approved_by'', fk_table = ''users'',
     fk_target = ''id'', fk_delete = Set_Null_Rows\<rparr>"

definition rows_valid :: "contents \<Rightarrow> bool" where
  "rows_valid rho \<longleftrightarrow>
     (case row_ids rho ''tickets'' of None \<Rightarrow> True | Some is \<Rightarrow> None \<notin> set is \<and> distinct is) \<and>
     all_rows rho ''helpers'' (fk_holds rho approver_key)"

text \<open>The static revisions: the rows never stand in their way.\<close>

definition rows_let :: "statement list \<Rightarrow> bool" where
  "rows_let ss \<longleftrightarrow> (\<forall>rho. rows_valid rho \<longrightarrow> accepts_all ss rho \<and> rows_valid (fold effect ss rho)) \<and>
     (\<forall>s \<in> set ss. set (takes_rows s) \<subseteq> {''gps_points''})"

lemmas statement_defs =
  upgrade_8e1582729149_def create_users_def create_helpers_def create_students_def
  upgrade_24a04e22dd61_def create_buses_def create_gps_points_def upgrade_b7f3c1a9d2e4_def
  upgrade_c4d8e1f60a35_def create_stops_def create_routes_def create_route_stops_def create_trips_def
  upgrade_d5b2f7c94e18_def create_seat_reports_def create_alerts_def
  upgrade_e9c3a7b41f26_def upgrade_f2a91c4d70b3_def create_ticket_products_def create_orders_def
  create_tickets_def upgrade_b6d904e12f37_def

lemmas row_defs =
  rows_let_def rows_valid_def row_ids_def all_rows_def rows_unique_def fk_holds_def approver_key_def

lemma static_revisions:
  "rows_let upgrade_8e1582729149" "rows_let upgrade_24a04e22dd61" "rows_let upgrade_b7f3c1a9d2e4"
  "rows_let upgrade_c4d8e1f60a35" "rows_let upgrade_d5b2f7c94e18" "rows_let upgrade_e9c3a7b41f26"
  "rows_let upgrade_f2a91c4d70b3" "rows_let upgrade_b6d904e12f37"
  by (simp_all add: row_defs statement_defs cong: option.case_cong)

text \<open>What a step owes: it goes through, to the schema of the empty run, and keeps the rows.\<close>

definition keeps_going :: "(catalog \<Rightarrow> sql_error + catalog) \<Rightarrow> catalog \<Rightarrow> catalog \<Rightarrow> bool" where
  "keeps_going f c k \<longleftrightarrow> (\<exists>c'. f c = Inr c' \<and> emptied c' = k \<and> rows_valid (rows_in c') \<and>
     (\<forall>t is. t \<noteq> ''gps_points'' \<longrightarrow> row_ids (rows_in c) t = Some is \<longrightarrow> row_ids (rows_in c') t = Some is))"

lemma static_keeps_going:
  assumes "rows_let ss" "run ss (emptied c) = Inr k" "rows_valid (rows_in c)"
  shows "keeps_going (run ss) c k"
proof -
  from assms(1,3) have ok: "accepts_all ss (rows_in c)" "rows_valid (fold effect ss (rows_in c))"
    by (auto simp: rows_let_def)
  from run_split [OF assms(2) ok(1)] obtain c' where c': "run ss c = Inr c'" "emptied c' = k"
    "rows_in c' = fold effect ss (rows_in c)" by blast
  have "row_ids (rows_in c') t = Some is" if "t \<noteq> ''gps_points''" "row_ids (rows_in c) t = Some is" for t "is"
    by (rule run_keeps_ids [OF c'(1) ok(1) assms(2)]) (use that assms(1) in \<open>auto simp: rows_let_def\<close>)
  with c' ok show ?thesis unfolding keeps_going_def by auto
qed

section \<open>Keys for the tickets there are\<close>

fun keyed :: "(nat \<Rightarrow> bytes \<times> bytes) \<Rightarrow> nat \<Rightarrow> sql_row list \<Rightarrow> sql_row list" where
  "keyed raw n [] = []"
| "keyed raw n (r # rs) =
     r(''qr_private_key'' \<mapsto> fst (keypair (raw n)), ''qr_public_key'' \<mapsto> snd (keypair (raw n)))
     # keyed raw (Suc n) rs"

lemma length_keyed [simp]: "length (keyed raw n rs) = length rs"
  by (induction rs arbitrary: n) auto

lemma nth_keyed: "i < length rs \<Longrightarrow> keyed raw n rs ! i = (rs ! i)
    (''qr_private_key'' \<mapsto> fst (keypair (raw (n + i))), ''qr_public_key'' \<mapsto> snd (keypair (raw (n + i))))"
  by (induction rs arbitrary: n i) (auto simp: nth_Cons split: nat.splits)

lemma keyed_ids [simp]: "map (\<lambda>r. r ''id'') (keyed raw n rs) = map (\<lambda>r. r ''id'') rs"
  by (induction rs arbitrary: n) auto

lemma keyed_filled: "r \<in> set (keyed raw n rs) \<Longrightarrow> r ''qr_private_key'' \<noteq> None \<and> r ''qr_public_key'' \<noteq> None"
  by (induction rs arbitrary: n) auto

lemma give_keys_accepted: "accepts_all (give_keys raw n ids) rho"
  by (induction raw n ids arbitrary: rho rule: give_keys.induct) (auto simp: keypair_def)

lemma give_keys_take_nothing: "s \<in> set (give_keys raw n ids) \<Longrightarrow> takes_rows s = []"
  by (induction raw n ids rule: give_keys.induct) (auto simp: keypair_def)

lemma give_keys_elsewhere: "t \<noteq> ''tickets'' \<Longrightarrow> fold effect (give_keys raw n ids) rho t = rho t"
  by (induction raw n ids arbitrary: rho rule: give_keys.induct) (auto simp: keypair_def edit_rows_def)

lemma give_keys_empty:
  assumes "find_table k ''tickets'' = Some tb" "has_column tb ''qr_private_key''" "has_column tb ''qr_public_key''"
    "emptied k = k"
  shows "run (give_keys raw n ids) k = Inr k"
proof (induction raw n ids rule: give_keys.induct)
  case (3 raw n i ids)
  have "find_table (emptied k) ''tickets'' = Some (empty_table tb)" using assms(1) by simp
  with assms have "tb_rows tb = []" by (metis empty_table_fields(5) option.inject)
  then have "update_row i sets tb = Inr tb" if "map fst sets = [''qr_private_key'', ''qr_public_key'']" for sets
    using assms that by simp
  with 3 assms(1) show ?case by (simp add: on_table_def keypair_def put_same)
qed simp_all

lemma give_keys_rows:
  assumes "rho ''tickets'' = Some (pre @ rs)" "distinct (map (\<lambda>r. r ''id'') (pre @ rs))"
    "None \<notin> (\<lambda>r. r ''id'') ` set rs"
  shows "fold effect (give_keys raw n (map (\<lambda>r. r ''id'') rs)) rho ''tickets'' = Some (pre @ keyed raw n rs)"
  using assms
proof (induction rs arbitrary: n pre rho)
  case (Cons r rs)
  have "None \<noteq> r ''id''" using Cons.prems(3) by simp
  then obtain i where i: "r ''id'' = Some i" by (cases "r ''id''") simp_all
  let ?r = "r(''qr_private_key'' \<mapsto> fst (keypair (raw n)), ''qr_public_key'' \<mapsto> snd (keypair (raw n)))"
  let ?s = "Update_Row ''tickets'' i [(''qr_private_key'', fst (keypair (raw n))), (''qr_public_key'', snd (keypair (raw n)))]"
  have same: "map (\<lambda>r. if r ''id'' = Some i then set_values sets r else r) qs = qs"
    if "Some i \<notin> (\<lambda>r. r ''id'') ` set qs" for sets qs
    using that by (induction qs) auto
  have new: "Some i \<notin> (\<lambda>r. r ''id'') ` set pre" "Some i \<notin> (\<lambda>r. r ''id'') ` set rs"
    using Cons.prems(2) i by auto
  have "effect ?s rho ''tickets'' = Some ((pre @ [?r]) @ rs)"
    unfolding effect.simps edit_rows_def fun_upd_same Cons.prems(1) option.map map_append list.map
    by (simp only: same [OF new(1)] same [OF new(2)] i if_True) (simp add: set_values_def)
  moreover have "distinct (map (\<lambda>r. r ''id'') ((pre @ [?r]) @ rs))" using Cons.prems(2) by simp
  ultimately have "fold effect (give_keys raw (Suc n) (map (\<lambda>r. r ''id'') rs)) (effect ?s rho) ''tickets''
    = Some ((pre @ [?r]) @ keyed raw (Suc n) rs)"
    using Cons.prems(3) by (intro Cons.IH) auto
  then show ?case using i by (simp add: case_prod_unfold)
qed simp

text \<open>The revision of the keys on a database in use.\<close>

definition keyed_tickets :: "(nat \<Rightarrow> bytes \<times> bytes) \<Rightarrow> sql_row list \<Rightarrow> sql_row list" where
  "keyed_tickets raw rs = map (\<lambda>r. r(''qr_secret'' := None)) (keyed raw 0 rs)"

lemma keyed_ids_kept [simp]: "map (\<lambda>r. r ''id'') (keyed_tickets raw rs) = map (\<lambda>r. r ''id'') rs"
  using keyed_ids [of raw 0 rs] by (simp add: keyed_tickets_def comp_def)

lemma keyed_overwrites:
  "keyed raw n (map (\<lambda>r. r(''qr_private_key'' := None, ''qr_public_key'' := None)) rs) = keyed raw n rs"
  by (induction rs arbitrary: n) (auto simp: fun_upd_twist)

lemma set_not_null_needs:
  assumes "exec (Set_Not_Null t x) k = Inr k'"
  obtains tb tb' where "find_table k t = Some tb" "has_column tb x" "find_table k' t = Some tb'"
    "has_column tb' = has_column tb"
proof -
  from assms obtain tb tb' where tb: "find_table k t = Some tb" "set_not_null x tb = Inr tb'" "k' = put_table t tb' k"
    by (auto simp: on_table_def split: option.splits sum.splits)
  then have "has_column tb x" "map col_name (tb_columns tb') = map col_name (tb_columns tb)"
    by (auto simp: comp_def split: if_splits)
  with tb show thesis by (intro that [of tb tb']) (auto simp: find_put has_column_def fun_eq_iff)
qed

lemma columns_first:
  assumes "run (require_keys @ ss) k = Inr k'"
  obtains tb where "find_table k ''tickets'' = Some tb" "has_column tb ''qr_private_key''"
    "has_column tb ''qr_public_key''"
proof -
  from assms obtain k1 k2 where "exec (Set_Not_Null ''tickets'' ''qr_private_key'') k = Inr k1"
    "exec (Set_Not_Null ''tickets'' ''qr_public_key'') k1 = Inr k2"
    by (simp add: require_keys_def del: exec.simps split: sum.splits)
  then show thesis by (elim set_not_null_needs) (use that in auto)
qed

lemma selected_emptied: "set (selected_ids (emptied c)) = {}"
  by (auto simp: selected_ids_def split: option.splits)

lemma keys_rows:
  fixes rho :: contents
  assumes "rho ''tickets'' = Some rs" "None \<notin> (\<lambda>r. r ''id'') ` set rs" "distinct (map (\<lambda>r. r ''id'') rs)"
  shows "fold effect (give_keys raw 0 (map (\<lambda>r. r ''id'') rs)) (fold effect add_key_columns rho)
    = rho(''tickets'' := Some (keyed raw 0 rs))"
proof -
  let ?rho = "fold effect add_key_columns rho"
  let ?rs = "map (\<lambda>r. r(''qr_private_key'' := None, ''qr_public_key'' := None)) rs"
  have rho: "?rho = rho(''tickets'' := Some ?rs)"
    using assms(1) by (simp add: add_key_columns_def edit_rows_def fun_eq_iff)
  have ids: "map (\<lambda>r. r ''id'') ?rs = map (\<lambda>r. r ''id'') rs" by simp
  have "fold effect (give_keys raw 0 (map (\<lambda>r. r ''id'') ?rs)) ?rho ''tickets'' = Some ([] @ keyed raw 0 ?rs)"
    by (rule give_keys_rows) (use assms rho in \<open>auto simp: comp_def\<close>)
  then have "fold effect (give_keys raw 0 (map (\<lambda>r. r ''id'') rs)) ?rho ''tickets'' = Some (keyed raw 0 rs)"
    unfolding ids keyed_overwrites by simp
  then show ?thesis by (auto simp: fun_eq_iff give_keys_elsewhere rho)
qed

lemma keys_upgrade:
  assumes "upgrade_a4e71b28d905 no_draws (emptied c) = Inr k" "rows_valid (rows_in c)"
  obtains c' rs where "upgrade_a4e71b28d905 d c = Inr c'" "emptied c' = k"
    "rows_in c ''tickets'' = Some rs"
    "rows_in c' = (rows_in c)(''tickets'' := Some (keyed_tickets (raw_keypair d) rs), ''redemptions'' := Some [])"
    "\<forall>t is. row_ids (rows_in c) t = Some is \<longrightarrow> row_ids (rows_in c') t = Some is"
proof -
  from assms(1) obtain k1 where k1: "run add_key_columns (emptied c) = Inr k1"
    by (auto simp: upgrade_a4e71b28d905_def split: sum.splits)
  have "accepts_all add_key_columns (rows_in c)" by (simp add: add_key_columns_def)
  with run_split [OF k1] obtain c1 where c1: "run add_key_columns c = Inr c1" "emptied c1 = k1"
    "rows_in c1 = fold effect add_key_columns (rows_in c)" by blast
  have none: "selected_ids k1 = []" using selected_emptied [of c1] c1(2) by simp
  with assms(1) k1 have rest: "run (require_keys @ add_redemptions) k1 = Inr k"
    by (simp add: upgrade_a4e71b28d905_def)
  then obtain tb where tb: "find_table k1 ''tickets'' = Some tb" "has_column tb ''qr_private_key''"
    "has_column tb ''qr_public_key''" by (rule columns_first)
  with c1(2) obtain tb1 where tb1: "find_table c1 ''tickets'' = Some tb1" by auto
  then have "rows_in c1 ''tickets'' \<noteq> None" by (simp add: rows_in_def)
  then obtain rs where rs: "rows_in c ''tickets'' = Some rs"
    unfolding c1(3) by (auto simp: add_key_columns_def edit_rows_def)
  have "selected_ids c1 = map (\<lambda>r. r ''id'') (the (rows_in c1 ''tickets''))"
    using tb1 by (simp add: selected_ids_def rows_in_def)
  then have ids: "selected_ids c1 = map (\<lambda>r. r ''id'') rs"
    unfolding c1(3) using rs by (simp add: add_key_columns_def edit_rows_def)
  have ok: "None \<notin> (\<lambda>r. r ''id'') ` set rs" "distinct (map (\<lambda>r. r ''id'') rs)"
    using assms(2) rs by (auto simp: rows_valid_def row_ids_def)
  let ?give = "give_keys (raw_keypair d) 0 (selected_ids c1)"
  have "run ?give (emptied c1) = Inr k1"
    unfolding c1(2) by (rule give_keys_empty [OF tb]) (use c1(2) in auto)
  from run_split [OF this give_keys_accepted] obtain c2 where c2: "run ?give c1 = Inr c2" "emptied c2 = k1"
    "rows_in c2 = fold effect ?give (rows_in c1)" by blast
  have rho2: "rows_in c2 = (rows_in c)(''tickets'' := Some (keyed (raw_keypair d) 0 rs))"
    using keys_rows [of "rows_in c" rs "raw_keypair d", OF rs ok] c2(3) c1(3) ids by simp
  have accepted: "accepts_all (require_keys @ add_redemptions) (rows_in c2)"
    unfolding rho2 using keyed_filled [of _ "raw_keypair d" 0 rs]
    by (simp add: require_keys_def add_redemptions_def create_redemptions_def all_rows_def rows_unique_def
        list_all_iff)
  moreover have rest2: "run (require_keys @ add_redemptions) (emptied c2) = Inr k" using rest c2(2) by simp
  ultimately obtain c3 where c3: "run (require_keys @ add_redemptions) c2 = Inr c3"
    "emptied c3 = k" "rows_in c3 = fold effect (require_keys @ add_redemptions) (rows_in c2)"
    using run_split by blast
  have "row_ids (rows_in c3) t = Some is" if t: "row_ids (rows_in c) t = Some is" for t "is"
  proof (rule run_keeps_ids [OF c3(1) accepted rest2])
    show "\<forall>s \<in> set (require_keys @ add_redemptions). t \<notin> set (takes_rows s)"
      by (simp add: require_keys_def add_redemptions_def create_redemptions_def)
    show "row_ids (rows_in c2) t = Some is"
      using t rs unfolding rho2 by (auto simp: row_ids_def)
  qed
  moreover have "upgrade_a4e71b28d905 d c = Inr c3"
    using c1(1) c2(1) c3(1) by (simp add: upgrade_a4e71b28d905_def)
  moreover have "rows_in c3 = (rows_in c)(''tickets'' := Some (keyed_tickets (raw_keypair d) rs), ''redemptions'' := Some [])"
    unfolding c3(3) rho2
    by (simp add: require_keys_def add_redemptions_def create_redemptions_def edit_rows_def keyed_tickets_def)
  ultimately show thesis using c3(2) rs by (intro that) auto
qed

section \<open>From any revision to the head\<close>

lemma rows_in_version [simp]: "rows_in (c\<lparr>cat_version := v\<rparr>) = rows_in c"
  by (simp add: rows_in_def find_table_def fun_eq_iff)

lemma emptied_version [simp]: "emptied (c\<lparr>cat_version := v\<rparr>) = (emptied c)\<lparr>cat_version := v\<rparr>"
  by (simp add: emptied_def)

lemma approver_elsewhere:
  "t \<noteq> ''users'' \<Longrightarrow> fk_holds (rho(t := x)) approver_key rows = fk_holds rho approver_key rows"
  by (simp add: fk_holds_def approver_key_def cong: option.case_cong)

lemma keys_keep_going:
  assumes "upgrade_a4e71b28d905 no_draws (emptied c) = Inr k" "rows_valid (rows_in c)"
  shows "keeps_going (upgrade_a4e71b28d905 d) c k"
proof -
  obtain c' rs where c': "upgrade_a4e71b28d905 d c = Inr c'" "emptied c' = k" "rows_in c ''tickets'' = Some rs"
    and rows: "rows_in c' = (rows_in c)(''tickets'' := Some (keyed_tickets (raw_keypair d) rs), ''redemptions'' := Some [])"
    and ids: "\<forall>t is. row_ids (rows_in c) t = Some is \<longrightarrow> row_ids (rows_in c') t = Some is"
    using keys_upgrade [OF assms, of d] by blast
  have "rows_valid (rows_in c')"
    using assms(2) c'(3) unfolding rows
    by (auto simp: rows_valid_def row_ids_def all_rows_def approver_elsewhere split: option.splits)
  then show ?thesis using c' ids unfolding keeps_going_def by blast
qed

lemma step_keeps_going:
  assumes "upgrade_step no_draws r (emptied c) = Inr k" "rows_valid (rows_in c)"
    and "\<And>k. rev_upgrade r no_draws (emptied c) = Inr k \<Longrightarrow> keeps_going (rev_upgrade r d) c k"
  shows "keeps_going (upgrade_step d r) c k"
proof -
  from assms(1) obtain k0 where k0: "rev_upgrade r no_draws (emptied c) = Inr k0"
      "k = k0\<lparr>cat_version := Some (rev_id r)\<rparr>"
    by (auto simp: upgrade_step_def split: sum.splits)
  from assms(3) [OF k0(1)] obtain c0 where "rev_upgrade r d c = Inr c0" "emptied c0 = k0" "rows_valid (rows_in c0)"
     "\<forall>t is. t \<noteq> ''gps_points'' \<longrightarrow> row_ids (rows_in c) t = Some is \<longrightarrow> row_ids (rows_in c0) t = Some is"
    unfolding keeps_going_def by blast
  then show ?thesis
    unfolding keeps_going_def
    by (intro exI [of _ "c0\<lparr>cat_version := Some (rev_id r)\<rparr>"]) (simp add: upgrade_step_def k0(2))
qed

lemma revision_keeps_going:
  assumes "r \<in> set versions" "upgrade_step no_draws r (emptied c) = Inr k" "rows_valid (rows_in c)"
  shows "keeps_going (upgrade_step d r) c k"
proof (rule step_keeps_going [OF assms(2,3)])
  fix k0 assume k0: "rev_upgrade r no_draws (emptied c) = Inr k0"
  show "keeps_going (rev_upgrade r d) c k0"
  proof (cases "r = rev_a4e71b28d905")
    case True
    with k0 keys_keep_going [OF _ assms(3)] show ?thesis by (simp add: rev_a4e71b28d905_def)
  next
    case False
    with assms(1) obtain ss where ss: "rev_upgrade r = (\<lambda>_. run ss)" "rows_let ss"
      using static_revisions
      by (auto simp: versions_def rev_8e1582729149_def rev_24a04e22dd61_def rev_b7f3c1a9d2e4_def
        rev_c4d8e1f60a35_def rev_d5b2f7c94e18_def rev_e9c3a7b41f26_def rev_f2a91c4d70b3_def rev_b6d904e12f37_def)
    with k0 show ?thesis by (auto intro: static_keeps_going [OF _ _ assms(3)])
  qed
qed

lemma steps_keep_going:
  assumes "set rs \<subseteq> set versions" "steps (upgrade_step no_draws) rs (emptied c) = Inr k" "rows_valid (rows_in c)"
  shows "keeps_going (steps (upgrade_step d) rs) c k"
  using assms
proof (induction rs arbitrary: c)
  case Nil
  then show ?case by (simp add: keeps_going_def)
next
  case (Cons r rs)
  then obtain k1 where k1: "upgrade_step no_draws r (emptied c) = Inr k1" "steps (upgrade_step no_draws) rs k1 = Inr k"
    by (auto split: sum.splits)
  with Cons.prems revision_keeps_going [of r c k1 d] obtain c1 where c1: "upgrade_step d r c = Inr c1"
    "emptied c1 = k1" "rows_valid (rows_in c1)"
    "\<forall>t is. t \<noteq> ''gps_points'' \<longrightarrow> row_ids (rows_in c) t = Some is \<longrightarrow> row_ids (rows_in c1) t = Some is"
    unfolding keeps_going_def by auto
  with Cons.prems k1 Cons.IH [of c1] show ?case unfolding keeps_going_def by auto
qed

text \<open>The empty run arrives, and at what the models declare.\<close>

definition all_tables :: "(string \<times> sql_table) list" where
  "all_tables = registered_tables @ commerce_tables"

lemma head_schema:
  "case schema_after 9 fns of Inl e \<Rightarrow> False
   | Inr k \<Rightarrow> same_tables (cat_tables k) all_tables \<and> same_types (cat_types k) (metadata_types all_tables) \<and>
       unasked_indexes (cat_tables k) all_tables = [''ix_orders_tran_id''] \<and>
       filter (\<lambda>t. t \<notin> set (map fst registered_tables)) (map fst (cat_tables k)) =
         [''ticket_products'', ''orders'', ''tickets'', ''redemptions'']"
  by code_simp

lemma steps_append: "steps f (rs @ qs) c = (case steps f rs c of Inl e \<Rightarrow> Inl e | Inr c' \<Rightarrow> steps f qs c')"
  by (induction rs arbitrary: c) (auto split: sum.splits)

lemma rest_of_the_way:
  assumes "schema_after n fns = Inr k"
  shows "steps (upgrade_step no_draws) (drop n versions) k = schema_after 9 fns"
proof -
  have all: "take 9 versions = versions" by (simp add: versions_def)
  have "schema_after 9 fns = steps (upgrade_step no_draws) (take n versions @ drop n versions) (fresh_database fns)"
    unfolding schema_after_def all append_take_drop_id ..
  then show ?thesis using assms unfolding steps_append schema_after_def by simp
qed

lemma head_exists: "\<exists>k. schema_after 9 fns = Inr k"
  using head_schema [of fns] by (cases "schema_after 9 fns") auto

lemma version_reached:
  assumes "steps (upgrade_step d) rs c = Inr c'"
  shows "cat_version c' = (if rs = [] then cat_version c else Some (rev_id (last rs)))"
  using assms
proof (induction rs arbitrary: c)
  case (Cons r rs)
  then obtain c1 where c1: "upgrade_step d r c = Inr c1" "steps (upgrade_step d) rs c1 = Inr c'"
    by (auto split: sum.splits)
  have "cat_version c1 = Some (rev_id r)"
    using c1(1) by (auto simp: upgrade_step_def split: sum.splits)
  with Cons.IH [OF c1(2)] show ?case by simp
qed simp

lemma pending_after:
  assumes "schema_after n fns = Inr (emptied c)" "n \<le> 9"
  shows "pending c = drop n versions"
proof -
  have v: "cat_version c = (if take n versions = [] then None else Some (rev_id (last (take n versions))))"
    using version_reached [of no_draws "take n versions" "fresh_database fns" "emptied c"] assms(1)
    by (simp add: schema_after_def fresh_database_def)
  from assms(2) have "n \<in> {0, 1, 2, 3, 4, 5, 6, 7, 8, 9}" by auto
  then show ?thesis
    using v by (elim insertE emptyE) (simp_all add: pending_def versions_def rev_8e1582729149_def
      rev_24a04e22dd61_def rev_b7f3c1a9d2e4_def rev_c4d8e1f60a35_def rev_d5b2f7c94e18_def
      rev_e9c3a7b41f26_def rev_f2a91c4d70b3_def rev_a4e71b28d905_def rev_b6d904e12f37_def)
qed

lemma fresh_facts [simp]: "emptied (fresh_database fns) = fresh_database fns" "rows_valid (rows_in (fresh_database fns))"
  "cat_version (fresh_database fns) = None"
  by (simp_all add: fresh_database_def emptied_def rows_valid_def row_ids_def all_rows_def rows_in_def find_table_def)

lemma schema_is_empty: "schema_after n fns = Inr k \<Longrightarrow> emptied k = k"
  using steps_keep_going [of "take n versions" "fresh_database fns" k no_draws]
  by (auto simp: schema_after_def keeps_going_def set_take_subset)

lemma goes_to_head:
  assumes "n \<le> 9" "schema_after n fns = Inr (emptied c)" "rows_valid (rows_in c)"
  shows "\<exists>c'. upgrade_head d c = (None, c') \<and> schema_after 9 fns = Inr (emptied c') \<and>
    (\<forall>t is. t \<noteq> ''gps_points'' \<longrightarrow> row_ids (rows_in c) t = Some is \<longrightarrow> row_ids (rows_in c') t = Some is)"
proof -
  obtain k where k: "schema_after 9 fns = Inr k" using head_exists by blast
  have "keeps_going (steps (upgrade_step d) (drop n versions)) c k"
    by (rule steps_keep_going [OF set_drop_subset _ assms(3)]) (simp add: rest_of_the_way [OF assms(2)] k)
  then show ?thesis
    unfolding keeps_going_def upgrade_head_def pending_after [OF assms(2,1)]
    by (auto simp: in_transaction_def k)
qed

lemma compared_without_rows [simp]:
  "same_tables (cat_tables (emptied c)) bs = same_tables (cat_tables c) bs"
  "unasked_indexes (cat_tables (emptied c)) bs = unasked_indexes (cat_tables c) bs"
  "map fst (cat_tables (emptied c)) = map fst (cat_tables c)"
proof -
  have "same_table (empty_table a) b = same_table a b" for a b
    by (simp add: same_table_def columns_of_def keeps_unique_def plain_indexes_def empty_table_def)
  moreover have "map fst (map (\<lambda>(n, tb). (n, empty_table tb)) tbs) = map fst tbs" for tbs
    by (induction tbs) auto
  moreover have "plain_indexes (empty_table a) = plain_indexes a" for a
    by (simp add: plain_indexes_def)
  ultimately show "same_tables (cat_tables (emptied c)) bs = same_tables (cat_tables c) bs"
    "unasked_indexes (cat_tables (emptied c)) bs = unasked_indexes (cat_tables c) bs"
    "map fst (cat_tables (emptied c)) = map fst (cat_tables c)"
    by (simp_all add: same_tables_def unasked_indexes_def emptied_def list_all_iff case_prod_unfold comp_def
        cong: option.case_cong)
qed

section \<open>Properties\<close>

text \<open>
  C38. On a new database the nine revisions succeed, whatever keys are drawn and whatever extensions
  are installed, and what they leave is what the models of the application declare: the same tables,
  each with the same columns of the same types, nullable alike, the same foreign keys with what they
  do on deletion, and the same uniquenesses, partial ones included; every index a model asks for and
  one more, a second index over \<^verbatim>\<open>orders.tran_id\<close>; the same enums.
\<close>

theorem migrations_build_the_models:
  "\<exists>c. upgrade_head d (fresh_database fns) = (None, c) \<and> cat_version c = Some ''b6d904e12f37'' \<and>
    same_tables (cat_tables c) all_tables \<and> same_types (cat_types c) (metadata_types all_tables) \<and>
    unasked_indexes (cat_tables c) all_tables = [''ix_orders_tran_id'']"
proof -
  have "schema_after 0 fns = Inr (emptied (fresh_database fns))" by (simp add: schema_after_def)
  from goes_to_head [OF _ this, of d] obtain c where c: "upgrade_head d (fresh_database fns) = (None, c)"
    "schema_after 9 fns = Inr (emptied c)" by auto
  have "versions \<noteq> []" "last versions = rev_b6d904e12f37" "take 9 versions = versions"
    by (simp_all add: versions_def)
  with version_reached [of no_draws versions "fresh_database fns" "emptied c"] c(2)
  have "cat_version c = Some ''b6d904e12f37''" by (simp add: schema_after_def rev_b6d904e12f37_def)
  with head_schema [of fns] c show ?thesis by simp
qed

text \<open>
  C37. Whatever revision a deployed database stands at and whatever its rows, as long as the
  tickets have their primary key and every approver is an account, \<^verbatim>\<open>alembic upgrade head\<close>
  succeeds, ends at the head schema, and every table of before but \<^verbatim>\<open>gps_points\<close> has exactly
  its rows of before, in their order: no revision fails on data or loses a row.
\<close>

theorem every_database_reaches_head:
  assumes "n \<le> 9" "schema_after n fns = Inr (emptied c)" "rows_valid (rows_in c)"
  shows "\<exists>c'. upgrade_head d c = (None, c') \<and> schema_after 9 fns = Inr (emptied c') \<and>
    (\<forall>t is. t \<noteq> ''gps_points'' \<longrightarrow> row_ids (rows_in c) t = Some is \<longrightarrow> row_ids (rows_in c') t = Some is)"
  by (rule goes_to_head [OF assms])

text \<open>A database with rows in one of its tables, and the rest as the migrations left it.\<close>

lemma filled_tickets:
  assumes "schema_after n fns = Inr k" "find_table k ''tickets'' = Some tb"
    "None \<notin> (\<lambda>r. r ''id'') ` set rows" "distinct (map (\<lambda>r. r ''id'') rows)"
  obtains c where "emptied c = k" "rows_in c ''tickets'' = Some rows" "rows_valid (rows_in c)"
proof -
  let ?c = "put_table ''tickets'' (tb\<lparr>tb_rows := rows\<rparr>) k"
  have k: "emptied k = k" by (rule schema_is_empty [OF assms(1)])
  have helpers: "rows_in k ''helpers'' = None \<or> rows_in k ''helpers'' = Some []"
    using find_emptied [of k "''helpers''"] unfolding k
    by (cases "find_table k ''helpers''") (auto simp: rows_in_def dest: arg_cong [where f = tb_rows])
  have rows: "rows_in ?c = (rows_in k)(''tickets'' := Some rows)" by (simp add: rows_in_put [OF assms(2)])
  have "empty_table tb = tb" using find_emptied [of k "''tickets''"] assms(2) unfolding k by simp
  then have "emptied ?c = k"
    by (simp add: emptied_put k) (simp add: empty_table_def put_same [OF assms(2)])
  moreover have "rows_valid (rows_in ?c)"
    using assms(3,4) helpers unfolding rows
    by (auto simp: rows_valid_def row_ids_def all_rows_def fk_holds_def)
  ultimately show thesis using rows by (intro that) auto
qed

lemma tickets_then:
  "case schema_after 7 [] of Inl e \<Rightarrow> False | Inr k \<Rightarrow> find_table k ''tickets'' \<noteq> None"
  by code_simp

lemma demo_tickets:
  assumes "None \<notin> (\<lambda>r. r ''id'') ` set rows" "distinct (map (\<lambda>r. r ''id'') rows)"
  obtains c where "schema_after 7 [] = Inr (emptied c)" "rows_in c ''tickets'' = Some rows" "rows_valid (rows_in c)"
proof -
  obtain k tb where "schema_after 7 [] = Inr k" "find_table k ''tickets'' = Some tb"
    using tickets_then by (cases "schema_after 7 []") auto
  with filled_tickets [of 7 "[]" k tb rows] assms that show thesis by metis
qed

definition demo_rows :: "sql_row list" where
  "demo_rows = [[''id'' \<mapsto> ''t1'', ''qr_secret'' \<mapsto> ''s1''], [''id'' \<mapsto> ''t2'', ''qr_secret'' \<mapsto> ''s2'']]"

theorem every_database_reaches_head_witness:
  "\<exists>c c'. schema_after 7 [] = Inr (emptied c) \<and> row_ids (rows_in c) ''tickets'' = Some [Some ''t1'', Some ''t2''] \<and>
    upgrade_head no_draws c = (None, c') \<and> row_ids (rows_in c') ''tickets'' = Some [Some ''t1'', Some ''t2'']"
proof -
  obtain c where c: "schema_after 7 [] = Inr (emptied c)" "rows_in c ''tickets'' = Some demo_rows" "rows_valid (rows_in c)"
    by (rule demo_tickets [of demo_rows]) (auto simp: demo_rows_def)
  have "row_ids (rows_in c) ''tickets'' = Some [Some ''t1'', Some ''t2'']"
    using c(2) by (simp add: row_ids_def demo_rows_def)
  with every_database_reaches_head [of 7 "[]" c no_draws, OF _ c(1,3)] c(1) show ?thesis by auto
qed

text \<open>
  C39. A ticket sold before the boarding codes existed keeps working: the upgrade gives it keys of its
  own, leaves everything else of its row but the old secret as it was, and a code that its holder then
  builds with the private key is accepted under its public key, exactly while it is fresh.
\<close>

theorem sold_tickets_get_working_keys:
  assumes "schema_after 7 fns = Inr (emptied c)" "rows_valid (rows_in c)"
    and "rows_in c ''tickets'' = Some rs" "i < length rs"
    and "key_pair sign vfy (fst (raw_keypair d i)) (snd (raw_keypair d i))" "payload_ok p"
  shows "\<exists>c' rs' private public code. upgrade_head d c = (None, c') \<and>
    rows_in c' ''tickets'' = Some rs' \<and> length rs' = length rs \<and>
    rs' ! i = (rs ! i)(''qr_private_key'' \<mapsto> private, ''qr_public_key'' \<mapsto> public, ''qr_secret'' := None) \<and>
    build_qr sign private p = Inr code \<and>
    verify_qr vfy code public now =
      (if \<bar>current_slice now - qp_time_slice p\<bar> \<le> 1 then Inr p else Inl (InvalidQr ''code has expired''))"
proof -
  let ?a = rev_a4e71b28d905 and ?b = rev_b6d904e12f37
  have left: "drop 7 versions = [?a, ?b]" by (simp add: versions_def)
  obtain k where "steps (upgrade_step no_draws) (drop 7 versions) (emptied c) = Inr k"
    using rest_of_the_way [OF assms(1)] head_exists by metis
  then obtain k1 where k1: "upgrade_step no_draws ?a (emptied c) = Inr k1" "upgrade_step no_draws ?b k1 = Inr k"
    unfolding left by (auto split: sum.splits)
  from k1(1) obtain k0 where k0: "upgrade_a4e71b28d905 no_draws (emptied c) = Inr k0"
    "k1 = k0\<lparr>cat_version := Some (rev_id ?a)\<rparr>"
    by (auto simp: upgrade_step_def rev_a4e71b28d905_def split: sum.splits)
  obtain c0 where c0: "upgrade_a4e71b28d905 d c = Inr c0" "emptied c0 = k0"
    "rows_in c0 ''tickets'' = Some (keyed_tickets (raw_keypair d) rs)"
  proof -
    obtain c0 rs0 where "upgrade_a4e71b28d905 d c = Inr c0" "emptied c0 = k0" "rows_in c ''tickets'' = Some rs0"
      "rows_in c0 = (rows_in c)(''tickets'' := Some (keyed_tickets (raw_keypair d) rs0), ''redemptions'' := Some [])"
      using keys_upgrade [OF k0(1) assms(2), of d] by blast
    with assms(3) that show thesis by simp
  qed
  let ?c1 = "c0\<lparr>cat_version := Some (rev_id ?a)\<rparr>"
  have step1: "upgrade_step d ?a c = Inr ?c1"
    using c0(1) by (simp add: upgrade_step_def rev_a4e71b28d905_def)
  from k1(2) k0(2) c0(2) obtain k2 where "run upgrade_b6d904e12f37 (emptied ?c1) = Inr k2"
    by (auto simp: upgrade_step_def rev_b6d904e12f37_def split: sum.splits)
  from run_split [OF this] obtain c2 where c2: "run upgrade_b6d904e12f37 ?c1 = Inr c2" "rows_in c2 = rows_in c0"
    by (auto simp: upgrade_b6d904e12f37_def)
  have step2: "upgrade_step d ?b ?c1 = Inr (c2\<lparr>cat_version := Some (rev_id ?b)\<rparr>)"
    using c2(1) by (simp add: upgrade_step_def rev_b6d904e12f37_def)
  let ?c' = "c2\<lparr>cat_version := Some (rev_id ?b)\<rparr>"
  have "upgrade_head d c = (None, ?c')"
    using pending_after [OF assms(1)] step1 step2 left by (simp add: upgrade_head_def in_transaction_def)
  moreover have "rows_in ?c' ''tickets'' = Some (keyed_tickets (raw_keypair d) rs)" using c0(3) c2(2) by simp
  moreover obtain code where "build_qr sign (b64_encode (fst (raw_keypair d i))) p = Inr code"
    "verify_qr vfy code (b64_encode (snd (raw_keypair d i))) now =
      (if \<bar>current_slice now - qp_time_slice p\<bar> \<le> 1 then Inr p else Inl (InvalidQr ''code has expired''))"
    using built_code_verifies [OF assms(5,6)] by blast
  ultimately show ?thesis
    using assms(4)
    by (intro exI [of _ ?c'] exI [of _ "keyed_tickets (raw_keypair d) rs"]
        exI [of _ "b64_encode (fst (raw_keypair d i))"] exI [of _ "b64_encode (snd (raw_keypair d i))"] exI [of _ code])
      (simp add: keyed_tickets_def nth_keyed keypair_def)
qed

definition demo_draws :: draws where
  "demo_draws = \<lparr>raw_keypair = (\<lambda>_. (''k'', ''k'')), random_hex = (\<lambda>_. ''00'')\<rparr>"

theorem sold_tickets_get_working_keys_witness:
  "\<exists>c c' rs' private public code. rows_in c ''tickets'' = Some demo_rows \<and> upgrade_head demo_draws c = (None, c') \<and>
    rows_in c' ''tickets'' = Some rs' \<and> length rs' = 2 \<and>
    rs' ! 1 = [''id'' \<mapsto> ''t2'', ''qr_private_key'' \<mapsto> private, ''qr_public_key'' \<mapsto> public] \<and>
    build_qr demo_sign private demo_payload = Inr code \<and>
    verify_qr demo_vfy code public demo_now = Inr demo_payload"
proof -
  obtain c where c: "schema_after 7 [] = Inr (emptied c)" "rows_in c ''tickets'' = Some demo_rows" "rows_valid (rows_in c)"
    by (rule demo_tickets [of demo_rows]) (auto simp: demo_rows_def)
  have keys: "key_pair demo_sign demo_vfy (fst (raw_keypair demo_draws 1)) (snd (raw_keypair demo_draws 1))"
    using demo_key_pair [of "''k''"] by (simp add: demo_draws_def)
  have two: "length demo_rows = 2" by (simp add: demo_rows_def)
  have fresh: "\<bar>current_slice demo_now - qp_time_slice demo_payload\<bar> \<le> 1"
    by (simp add: demo_slice demo_payload_def)
  have row: "(demo_rows ! 1)(''qr_private_key'' \<mapsto> x, ''qr_public_key'' \<mapsto> y, ''qr_secret'' := None) =
      [''id'' \<mapsto> ''t2'', ''qr_private_key'' \<mapsto> x, ''qr_public_key'' \<mapsto> y]" for x y
    by (simp add: demo_rows_def fun_eq_iff)
  from sold_tickets_get_working_keys [where i = 1 and now = demo_now, OF c(1,3,2) _ keys demo_payload_ok] two
  obtain c' rs' priv pub code where "upgrade_head demo_draws c = (None, c')" "rows_in c' ''tickets'' = Some rs'"
    "length rs' = 2" "rs' ! 1 = [''id'' \<mapsto> ''t2'', ''qr_private_key'' \<mapsto> priv, ''qr_public_key'' \<mapsto> pub]"
    "build_qr demo_sign priv demo_payload = Inr code" "verify_qr demo_vfy code pub demo_now = Inr demo_payload"
    unfolding row using fresh by auto
  with c(2) show ?thesis by (intro exI conjI)
qed

section \<open>Downgrades, deletions and autogeneration\<close>

text \<open>
  Up one revision and down again, along the whole chain: the tables are as before, and so are the
  types but for those the first two revisions made, which stay behind. The downgrade of the keys
  needs \<^verbatim>\<open>gen_random_bytes\<close>, of the extension pgcrypto.
\<close>

definition identical :: "sql_table \<Rightarrow> sql_table \<Rightarrow> bool" where
  "identical a b \<longleftrightarrow> tb_columns a = tb_columns b \<and> tb_primary a = tb_primary b \<and>
     tb_foreign a = tb_foreign b \<and> tb_unique a = tb_unique b \<and> tb_indexes a = tb_indexes b"

definition restored :: "catalog \<Rightarrow> catalog \<Rightarrow> bool" where
  "restored c c2 \<longleftrightarrow> cat_version c2 = cat_version c \<and> map fst (cat_tables c2) = map fst (cat_tables c) \<and>
     list_all2 (\<lambda>(_, b) (_, a). if identical a b then True else same_table a b \<and> same_table b a) (cat_tables c2) (cat_tables c)"

fun leftovers :: "revision list \<Rightarrow> catalog \<Rightarrow> (string \<times> string list) list option" where
  "leftovers [] c = Some []"
| "leftovers (r # rs) c =
     (case upgrade_step no_draws r c of
        Inl e \<Rightarrow> None
      | Inr c1 \<Rightarrow>
          (case downgrade_step no_draws r c1 of
             Inl e \<Rightarrow> None
           | Inr c2 \<Rightarrow>
               if restored c c2
               then map_option
                 (Cons (rev_id r, filter (\<lambda>n. n \<notin> set (map fst (cat_types c))) (map fst (cat_types c2))))
                 (leftovers rs c1)
               else None))"

theorem downgrades_undo_upgrades:
  "leftovers versions (fresh_database [''gen_random_bytes'']) =
    Some [(''8e1582729149'', [''user_role'', ''user_status'', ''helper_status'']), (''24a04e22dd61'', [''bus_status'']),
      (''b7f3c1a9d2e4'', []), (''c4d8e1f60a35'', []), (''d5b2f7c94e18'', []), (''e9c3a7b41f26'', []),
      (''f2a91c4d70b3'', []), (''a4e71b28d905'', []), (''b6d904e12f37'', [])]"
  by code_simp

text \<open>
  So a database taken down to the base cannot be brought up again: the first revision meets its own
  types. Without pgcrypto it cannot even be taken down.
\<close>

definition down_and_up :: "string list \<Rightarrow> sql_error option \<times> sql_error option" where
  "down_and_up fns =
     (case downgrade_base no_draws (snd (upgrade_head no_draws (fresh_database fns))) of
        (e, c) \<Rightarrow> (e, fst (upgrade_head no_draws c)))"

theorem base_is_not_a_fresh_start: "down_and_up [''gen_random_bytes''] = (None, Some Duplicate_Object)"
  by code_simp

theorem downgrade_needs_pgcrypto: "down_and_up [] = (Some Undefined_Function, None)"
  by code_simp

text \<open>What keeps the row of an account: until e9c3a7b41f26 every helper it approved, then nothing.\<close>

definition holds_rows_of :: "string \<Rightarrow> catalog \<Rightarrow> (string \<times> string) list" where
  "holds_rows_of t c =
     map (\<lambda>(n, k). (n, fk_column k)) (filter (\<lambda>(_, k). fk_delete k \<in> {No_Action, Restrict_Rows}) (refers_to c t))"

theorem approvers_are_released:
  "map_sum id (holds_rows_of ''users'') (schema_after 5 fns) = Inr [(''helpers'', ''approved_by'')]"
  "map_sum id (holds_rows_of ''users'') (schema_after 6 fns) = Inr []"
  by code_simp+

text \<open>
  \<^verbatim>\<open>alembic revision --autogenerate\<close> drops what the database has and
  \<^verbatim>\<open>import app.models\<close> has not registered: the tables of commerce.
\<close>

definition autogenerated_drops :: "catalog \<Rightarrow> string list" where
  "autogenerated_drops c = filter (\<lambda>t. t \<notin> set (map fst registered_tables)) (map fst (cat_tables c))"

theorem autogenerate_drops_commerce:
  "map_sum id autogenerated_drops (schema_after 9 fns) = Inr [''ticket_products'', ''orders'', ''tickets'', ''redemptions'']"
  using head_schema [of fns] by (cases "schema_after 9 fns") (simp_all add: autogenerated_drops_def)

end
