(* ===== verification/Views.thy ===== *)
theory Views
  imports AuthApi Catalog
begin

text \<open>
  What leaves the server: the response models of \<^verbatim>\<open>app/schemas\<close> that are filled from the
  columns of a row, and the answers of the routes that list rows. A response model takes the columns it
  names and no other, so what it does not name cannot be learned from the answer.
\<close>

section \<open>Response models\<close>

record product_out =
  pv_id :: uuid
  pv_type :: product_type
  pv_name :: string
  pv_price_paisa :: int
  pv_ride_count :: "int option"
  pv_validity_days :: int
  pv_route_scope :: "uuid option"

definition product_out_of :: "ticket_product \<Rightarrow> product_out" where
  "product_out_of p = \<lparr>pv_id = pr_id p, pv_type = pr_type p, pv_name = pr_name p,
     pv_price_paisa = pr_price_paisa p, pv_ride_count = pr_ride_count p,
     pv_validity_days = pr_validity_days p, pv_route_scope = pr_route_scope p\<rparr>"

record admin_product_out = product_out +
  pv_active :: bool

definition admin_product_out_of :: "ticket_product \<Rightarrow> admin_product_out" where
  "admin_product_out_of p = product_out.extend (product_out_of p) \<lparr>pv_active = pr_active p\<rparr>"

record order_out =
  ov_id :: uuid
  ov_product_id :: uuid
  ov_amount_paisa :: int
  ov_currency :: string
  ov_status :: order_status
  ov_tran_id :: string
  ov_paid_at :: "instant option"
  ov_created_at :: instant

definition order_out_of :: "order \<Rightarrow> order_out" where
  "order_out_of x = \<lparr>ov_id = or_id x, ov_product_id = or_product_id x, ov_amount_paisa = or_amount_paisa x,
     ov_currency = or_currency x, ov_status = or_status x, ov_tran_id = or_tran_id x,
     ov_paid_at = or_paid_at x, ov_created_at = or_created_at x\<rparr>"

record ticket_out =
  tv_id :: uuid
  tv_order_id :: uuid
  tv_product_id :: uuid
  tv_rides_total :: "int option"
  tv_rides_remaining :: "int option"
  tv_valid_from :: instant
  tv_valid_to :: instant
  tv_status :: ticket_status

definition ticket_out_of :: "ticket \<Rightarrow> ticket_out" where
  "ticket_out_of t = \<lparr>tv_id = tk_id t, tv_order_id = tk_order_id t, tv_product_id = tk_product_id t,
     tv_rides_total = tk_rides_total t, tv_rides_remaining = tk_rides_remaining t,
     tv_valid_from = tk_valid_from t, tv_valid_to = tk_valid_to t, tv_status = tk_status t\<rparr>"

record bus_out =
  bv_id :: uuid
  bv_reg_no :: string
  bv_nickname :: "string option"
  bv_capacity :: int
  bv_status :: bus_status

definition bus_out_of :: "bus \<Rightarrow> bus_out" where
  "bus_out_of b = \<lparr>bv_id = bs_id b, bv_reg_no = bs_reg_no b, bv_nickname = bs_nickname b,
     bv_capacity = bs_capacity b, bv_status = bs_status b\<rparr>"

record stop_out =
  sv_id :: uuid
  sv_name :: string
  sv_lat :: real
  sv_lng :: real

definition stop_out_of :: "stop \<Rightarrow> stop_out" where
  "stop_out_of s = \<lparr>sv_id = sp_id s, sv_name = sp_name s, sv_lat = sp_lat s, sv_lng = sp_lng s\<rparr>"

record route_out =
  rv_id :: uuid
  rv_name :: string
  rv_direction :: route_direction
  rv_is_active :: bool

definition route_out_of :: "route \<Rightarrow> route_out" where
  "route_out_of r = \<lparr>rv_id = rt_id r, rv_name = rt_name r, rv_direction = rt_direction r,
     rv_is_active = rt_is_active r\<rparr>"

record trip_out =
  iv_id :: uuid
  iv_route_id :: uuid
  iv_bus_id :: uuid
  iv_helper_id :: uuid
  iv_service_date :: int
  iv_status :: trip_status
  iv_actual_start :: "instant option"
  iv_actual_end :: "instant option"

definition trip_out_of :: "trip \<Rightarrow> trip_out" where
  "trip_out_of t = \<lparr>iv_id = tr_id t, iv_route_id = tr_route_id t, iv_bus_id = tr_bus_id t,
     iv_helper_id = tr_helper_id t, iv_service_date = tr_service_date t, iv_status = tr_status t,
     iv_actual_start = tr_actual_start t, iv_actual_end = tr_actual_end t\<rparr>"

record alert_out =
  av_id :: uuid
  av_source :: alert_source
  av_type :: alert_type
  av_severity :: alert_severity
  av_status :: alert_status
  av_message :: "string option"
  av_lat :: "real option"
  av_lng :: "real option"
  av_trip_id :: "uuid option"
  av_bus_id :: "uuid option"
  av_created_at :: instant

definition alert_out_of :: "alert \<Rightarrow> alert_out" where
  "alert_out_of a = \<lparr>av_id = al_id a, av_source = al_source a, av_type = al_type a,
     av_severity = al_severity a, av_status = al_status a, av_message = al_message a, av_lat = al_lat a,
     av_lng = al_lng a, av_trip_id = al_trip_id a, av_bus_id = al_bus_id a, av_created_at = al_created_at a\<rparr>"

record user_out =
  uv_id :: uuid
  uv_email :: string
  uv_name :: string
  uv_role :: user_role
  uv_status :: user_status

definition user_out_of :: "user \<Rightarrow> user_out" where
  "user_out_of u = \<lparr>uv_id = us_id u, uv_email = us_email u, uv_name = us_name u, uv_role = us_role u,
     uv_status = us_status u\<rparr>"

section \<open>Answers\<close>

text \<open>The listings, each row through its response model.\<close>

definition shop_products :: "database \<Rightarrow> product_out list" where
  "shop_products db = map product_out_of (list_products_route db)"

definition admin_products :: "database \<Rightarrow> bool \<Rightarrow> admin_product_out list" where
  "admin_products db include_inactive = map admin_product_out_of (admin_list_products db include_inactive)"

definition my_orders :: "database \<Rightarrow> student \<Rightarrow> order_out list" where
  "my_orders db student = map order_out_of (list_orders db student)"

definition my_tickets :: "database \<Rightarrow> student \<Rightarrow> ticket_out list" where
  "my_tickets db student = map ticket_out_of (list_tickets db student)"

definition bus_picker :: "(string \<Rightarrow> nat) \<Rightarrow> database \<Rightarrow> bool \<Rightarrow> bus_out list" where
  "bus_picker collate db only_active = map bus_out_of (list_buses_route collate db only_active)"

definition route_picker :: "(string \<Rightarrow> nat) \<Rightarrow> database \<Rightarrow> bool \<Rightarrow> route_out list" where
  "route_picker collate db only_active = map route_out_of (list_routes collate db only_active)"

definition stop_picker :: "(string \<Rightarrow> nat) \<Rightarrow> database \<Rightarrow> stop_out list" where
  "stop_picker collate db = map stop_out_of (list_stops collate db)"

definition alert_console :: "database \<Rightarrow> alert_status option \<Rightarrow> nat \<Rightarrow> alert_out list" where
  "alert_console db alert_status limit = map alert_out_of (list_alerts db alert_status limit)"

definition me :: "database \<Rightarrow> user \<Rightarrow> me_out" where
  "me db user = me_response db user"

text \<open>A handler that answers with the row it made or changed: the row through its response model.\<close>

definition answered :: "('r \<Rightarrow> 'o) \<Rightarrow> (handler_error + 'r) \<times> 's \<Rightarrow> (handler_error + 'o) \<times> 's" where
  "answered view res = (map_sum id view (fst res), snd res)"

section \<open>Secrets\<close>

text \<open>
  The same database with other private keys on its tickets, other password hashes on its accounts and
  other records of the gateway on its orders.
\<close>

record secrets =
  new_key :: "ticket \<Rightarrow> string"
  new_hash :: "user \<Rightarrow> string"
  new_payload :: "order \<Rightarrow> doc option"

definition rekeyed :: "secrets \<Rightarrow> ticket \<Rightarrow> ticket" where
  "rekeyed s t = t\<lparr>tk_qr_private_key := new_key s t\<rparr>"

definition rehashed :: "secrets \<Rightarrow> user \<Rightarrow> user" where
  "rehashed s u = u\<lparr>us_password_hash := new_hash s u\<rparr>"

definition repaid :: "secrets \<Rightarrow> order \<Rightarrow> order" where
  "repaid s x = x\<lparr>or_raw_payload := new_payload s x\<rparr>"

definition with_secrets :: "secrets \<Rightarrow> database \<Rightarrow> database" where
  "with_secrets s db = db\<lparr>db_tickets := map (rekeyed s) (db_tickets db),
     db_users := map (rehashed s) (db_users db), db_orders := map (repaid s) (db_orders db)\<rparr>"

lemma sort_key_map: "sort_key f (map g xs) = map g (sort_key (f \<circ> g) xs)"
proof -
  have "insort_key f (g x) (map g ys) = map g (insort_key (f \<circ> g) x ys)" for x ys
    by (induction ys) simp_all
  then show ?thesis by (induction xs) simp_all
qed

lemma with_secrets_fields [simp]:
  "db_tickets (with_secrets s db) = map (rekeyed s) (db_tickets db)"
  "db_users (with_secrets s db) = map (rehashed s) (db_users db)"
  "db_orders (with_secrets s db) = map (repaid s) (db_orders db)"
  "db_students (with_secrets s db) = db_students db" "db_helpers (with_secrets s db) = db_helpers db"
  "db_products (with_secrets s db) = db_products db"
  by (simp_all add: with_secrets_def)

text \<open>What the rows are sorted and looked up by is no secret.\<close>

lemma secret_keys [simp]:
  "tk_id (rekeyed s t) = tk_id t" "tk_created_at (rekeyed s t) = tk_created_at t"
  "tk_student_id (rekeyed s t) = tk_student_id t" "tk_status (rekeyed s t) = tk_status t"
  "tk_valid_to (rekeyed s t) = tk_valid_to t" "tk_valid_from (rekeyed s t) = tk_valid_from t"
  "or_student_id (repaid s x) = or_student_id x" "or_created_at (repaid s x) = or_created_at x"
  "us_id (rehashed s u) = us_id u" "us_created_at (rehashed s u) = us_created_at u"
  by (simp_all add: rekeyed_def repaid_def rehashed_def)

lemma views_hide [simp]:
  "ticket_out_of (rekeyed s t) = ticket_out_of t" "order_out_of (repaid s x) = order_out_of x"
  "user_out_of (rehashed s u) = user_out_of u" "to_out (rehashed s u) h = to_out u h"
  by (simp_all add: rekeyed_def repaid_def rehashed_def ticket_out_of_def order_out_of_def user_out_of_def to_out_def)

lemma looked_up [simp]:
  "row_get us_id (map (rehashed s) us) i = map_option (rehashed s) (row_get us_id us i)"
  "row_get tk_id (map (rekeyed s) ts) i = map_option (rekeyed s) (row_get tk_id ts i)"
  by (simp_all add: row_get_map)

lemma tickets_hide: "my_tickets (with_secrets s db) student = my_tickets db student"
  by (simp add: my_tickets_def list_tickets_def tickets_for_student_def filter_map sort_key_map comp_def)

lemma orders_hide: "my_orders (with_secrets s db) student = my_orders db student"
  by (simp add: my_orders_def list_orders_def orders_for_student_def filter_map sort_key_map comp_def)

lemma map_filter_map: "List.map_filter f (map g xs) = List.map_filter (f \<circ> g) xs"
  by (induction xs) (simp_all add: List.map_filter_simps split: option.splits)

lemma manifest_hides: "active_manifest (with_secrets s db) now limit = active_manifest db now limit"
proof -
  have "manifest_row_of (with_secrets s db) (rekeyed s t) = manifest_row_of db t" for t
    by (auto simp: manifest_row_of_def rekeyed_def rehashed_def split: option.splits)
  then show ?thesis
    by (simp add: active_manifest_def filter_map map_filter_map comp_def)
qed

lemma helpers_hide: "list_helpers (with_secrets s db) status = list_helpers db status"
proof -
  let ?g = "\<lambda>(u, h). (rehashed s u, h)"
  have pairs: "List.map_filter (\<lambda>h. map_option (\<lambda>u. (u, h)) (get_user (with_secrets s db) (hp_user_id h))) hs
    = map ?g (List.map_filter (\<lambda>h. map_option (\<lambda>u. (u, h)) (get_user db (hp_user_id h))) hs)" for hs
    by (induction hs) (simp_all add: List.map_filter_simps split: option.splits)
  show ?thesis
    unfolding list_helpers_def helpers_with_users_def with_secrets_fields(5) pairs
    by (simp add: sort_key_map comp_def case_prod_unfold)
qed

lemma me_hides: "me (with_secrets s db) (rehashed s u) = me db u"
  by (simp add: me_def me_response_def rehashed_def student_by_user_id_def)

text \<open>
  C25. The answers keep the secrets: whatever the private keys of the tickets, the password hashes of
  the accounts and the gateway's records of the orders, a student's tickets and orders, the helpers'
  manifest, the console's list of helpers and an account's own page are the same. A private key reaches
  only the device of the ticket's owner, while the ticket is active: whoever gets another
  \<^verbatim>\<open>qr-material\<close> answer when the keys change owns the ticket asked for.
\<close>

theorem answers_keep_the_secrets:
  "my_tickets (with_secrets s db) student = my_tickets db student \<and>
   my_orders (with_secrets s db) student = my_orders db student \<and>
   active_manifest (with_secrets s db) now limit = active_manifest db now limit \<and>
   list_helpers (with_secrets s db) status = list_helpers db status \<and>
   me (with_secrets s db) (rehashed s u) = me db u \<and>
   (qr_material (with_secrets s db) student ticket_id now \<noteq> qr_material db student ticket_id now \<longrightarrow>
      (\<exists>t \<in> set (db_tickets db). tk_id t = ticket_id \<and> tk_student_id t = st_id student \<and>
         tk_status t = Ticket_active \<and> new_key s t \<noteq> tk_qr_private_key t))"
proof (intro conjI impI)
  assume differ: "qr_material (with_secrets s db) student ticket_id now \<noteq> qr_material db student ticket_id now"
  then obtain t where t: "get_ticket db ticket_id = Some t"
    by (cases "get_ticket db ticket_id") (auto simp: qr_material_def own_active_ticket_def)
  with differ have "tk_student_id t = st_id student" "tk_status t = Ticket_active" "new_key s t \<noteq> tk_qr_private_key t"
    by (auto simp: qr_material_def own_active_ticket_def rekeyed_def split: if_splits)
  with t show "\<exists>t \<in> set (db_tickets db). tk_id t = ticket_id \<and> tk_student_id t = st_id student \<and>
         tk_status t = Ticket_active \<and> new_key s t \<noteq> tk_qr_private_key t"
    by (auto dest: row_get_SomeD)
qed (simp_all add: tickets_hide orders_hide manifest_hides helpers_hide me_hides)

definition demo_secrets :: secrets where
  "demo_secrets = \<lparr>new_key = (\<lambda>_. ''other''), new_hash = (\<lambda>_. ''''), new_payload = (\<lambda>_. None)\<rparr>"

theorem answers_keep_the_secrets_witness:
  "my_tickets (with_secrets demo_secrets demo_db) demo_student = my_tickets demo_db demo_student \<and>
   qr_material (with_secrets demo_secrets demo_db) demo_student 101 demo_now \<noteq> qr_material demo_db demo_student 101 demo_now \<and>
   (\<exists>t \<in> set (db_tickets demo_db). tk_id t = 101 \<and> tk_student_id t = st_id demo_student \<and>
      new_key demo_secrets t \<noteq> tk_qr_private_key t)"
proof -
  have "qr_material (with_secrets demo_secrets demo_db) demo_student 101 demo_now
      \<noteq> qr_material demo_db demo_student 101 demo_now"
    by (simp add: qr_material_def own_active_ticket_def demo_secrets_def rekeyed_def demo_defs demo_key_def)
  with answers_keep_the_secrets [of demo_secrets demo_db demo_student] show ?thesis by blast
qed

text \<open>The console's products are the shop's and whether they are on sale.\<close>

lemma shop_shows_what_is_on_sale:
  "shop_products db = map product_out.truncate (filter pv_active (admin_products db True))"
proof -
  have view: "product_out.truncate (admin_product_out_of p) = product_out_of p" "pv_active (admin_product_out_of p) = pr_active p" for p
    by (simp_all add: admin_product_out_of_def product_out.defs admin_product_out.defs product_out_of_def)
  show ?thesis
    by (simp add: shop_products_def admin_products_def list_products_route_def admin_list_products_def list_products_def
        filter_map filter_sort comp_def view)
qed

end
