(* ===== verification/FirstRun.thy ===== *)
theory FirstRun
  imports DevScripts
begin

text \<open>
  The scripts of a first run: \<^verbatim>\<open>scripts/seed_admin.py\<close>, the first administrator;
  \<^verbatim>\<open>dev_seed_fleet.py\<close>, a bus and an approved helper; and
  \<^verbatim>\<open>dev_qr_fixture.py\<close>, the boarding code on which the helper application tests its own
  verifier. A variable of the environment is \<open>None\<close> where it is not set.
\<close>

section \<open>The first administrator (scripts/seed_admin.py)\<close>

datatype seed_admin_end =
    Set_the_environment
  | Already_exists
  | Seeded
  | Seed_crashed seed_stop

definition seed_admin ::
  "auth_lib \<Rightarrow> uuid \<Rightarrow> nat \<Rightarrow> instant \<Rightarrow> database \<Rightarrow> string option \<Rightarrow> string option \<Rightarrow> string option \<Rightarrow>
   seed_admin_end \<times> database" where
  "seed_admin lib new_id salt now db admin_email admin_password admin_name =
     (let email = (case admin_email of None \<Rightarrow> [] | Some e \<Rightarrow> e);
          password = (case admin_password of None \<Rightarrow> [] | Some p \<Rightarrow> p);
          name = (case admin_name of None \<Rightarrow> ''UniTrack Admin'' | Some n \<Rightarrow> n) in
      if email = [] \<or> password = [] then (Set_the_environment, db)
      else
        (case find_user db (lower email) of
           Inl e \<Rightarrow> (Seed_crashed e, db)
         | Inr (Some _) \<Rightarrow> (Already_exists, db)
         | Inr None \<Rightarrow>
             let u = \<lparr>us_id = new_id, us_created_at = now, us_email = lower email,
                   us_password_hash = lib_hash lib salt password, us_role = Role_admin, us_name = name,
                   us_phone = None, us_photo_url = None, us_status = User_active\<rparr> in
             (case write_user u (db\<lparr>db_users := db_users db @ [u]\<rparr>) of
                Inl e \<Rightarrow> (Seed_crashed e, db) | Inr db' \<Rightarrow> (Seeded, db'))))"

section \<open>A bus and a helper (scripts/dev_seed_fleet.py)\<close>

definition bus_fits :: "bus \<Rightarrow> bool" where
  "bus_fits b \<longleftrightarrow> length (bs_reg_no b) \<le> 32 \<and> (case bs_nickname b of None \<Rightarrow> True | Some n \<Rightarrow> length n \<le> 64)"

text \<open>The first half: the bus found, or a new one, flushed for its id.\<close>

definition fleet_bus :: "uuid \<Rightarrow> string option \<Rightarrow> database \<Rightarrow> seed_stop + bus \<times> database" where
  "fleet_bus new_id bus_reg_no db =
     (let reg_no = (case bus_reg_no of None \<Rightarrow> ''DHK-01'' | Some r \<Rightarrow> r) in
      and_then (find_bus db reg_no) (\<lambda>found. case found of
        Some b \<Rightarrow> Inr (b, db)
      | None \<Rightarrow>
          let b = \<lparr>bs_id = new_id, bs_reg_no = reg_no, bs_nickname = Some reg_no, bs_capacity = 40,
                bs_status = Bus_active\<rparr> in
          if bus_fits b then and_then (flush (db\<lparr>db_buses := db_buses db @ [b]\<rparr>)) (\<lambda>db'. Inr (b, db'))
          else Inl (Stop_Db DataError)))"

text \<open>
  The second half, where helper_email is given: whether a helper was approved. A helper's account without
  its helper row is an AttributeError, on \<open>None\<close>.
\<close>

definition fleet_helper :: "string option \<Rightarrow> database \<Rightarrow> seed_stop + bool \<times> database" where
  "fleet_helper helper_email db =
     (case (case helper_email of None \<Rightarrow> [] | Some e \<Rightarrow> e) of
        [] \<Rightarrow> Inr (False, db)
      | email \<Rightarrow>
          and_then (find_user db (lower email)) (\<lambda>found. case found of
            None \<Rightarrow> Inr (False, db)
          | Some u \<Rightarrow>
              if us_role u \<noteq> Role_helper then Inr (False, db)
              else and_then (helper_of_user db u) (\<lambda>row. case row of
                None \<Rightarrow> Inl (Stop_Py AttributeError)
              | Some h \<Rightarrow> Inr (True,
                  db\<lparr>db_helpers := row_edit hp_id (hp_id h) (\<lambda>h. h\<lparr>hp_status := Helper_approved\<rparr>) (db_helpers db),
                     db_users := row_edit us_id (us_id u) (\<lambda>u. u\<lparr>us_status := User_active\<rparr>) (db_users db)\<rparr>))))"

definition seed_fleet ::
  "uuid \<Rightarrow> database \<Rightarrow> string option \<Rightarrow> string option \<Rightarrow> (seed_stop + uuid \<times> bool) \<times> database" where
  "seed_fleet new_id db bus_reg_no helper_email =
     committed db
       (and_then (fleet_bus new_id bus_reg_no db) (\<lambda>(b, db1).
        and_then (fleet_helper helper_email db1) (\<lambda>(approved, db2). Inr ((bs_id b, approved), db2))))"

section \<open>The code of the fixture (scripts/dev_qr_fixture.py)\<close>

definition FIXED_SLICE :: int where "FIXED_SLICE = 56163406"

definition TICKET_ID :: string where "TICKET_ID = ''8626e7c2-4b60-42a4-be68-ce877496c9c0''"

record qr_fixture =
  qf_ticket_id :: string
  qf_public_key :: string
  qf_slice :: int
  qf_code :: string
  qf_other_public_key :: string

definition qr_fixture ::
  "signer \<Rightarrow> bytes \<times> bytes \<Rightarrow> bytes \<times> bytes \<Rightarrow> string \<Rightarrow> py_error + qr_fixture" where
  "qr_fixture sign raw other_raw nonce =
     (case generate_keypair raw of (private, public) \<Rightarrow>
        (case build_qr sign private \<lparr>qp_ticket_id = TICKET_ID, qp_passenger_count = 1,
             qp_time_slice = FIXED_SLICE, qp_nonce = nonce\<rparr> of
           Inl e \<Rightarrow> Inl e
         | Inr code \<Rightarrow> Inr \<lparr>qf_ticket_id = TICKET_ID, qf_public_key = public, qf_slice = FIXED_SLICE,
             qf_code = code, qf_other_public_key = snd (generate_keypair other_raw)\<rparr>))"

section \<open>What they do\<close>

lemma find_user_none: "find_user db email = Inr None \<longleftrightarrow> (\<forall>u \<in> set (db_users db). us_email u \<noteq> email)"
proof -
  have "one_or_none (xs :: user list) = Inr None \<longleftrightarrow> xs = []" for xs by (cases xs rule: one_or_none.cases) auto
  then show ?thesis by (simp add: find_user_def filter_empty_conv)
qed

lemma find_user_added:
  "find_user db (us_email u) = Inr None \<Longrightarrow> find_user (db\<lparr>db_users := db_users db @ [u]\<rparr>) (us_email u) = Inr (Some u)"
proof -
  assume "find_user db (us_email u) = Inr None"
  then have "filter (\<lambda>v. us_email v = us_email u) (db_users db) = []"
    unfolding find_user_none by (simp add: filter_empty_conv)
  then show ?thesis by (simp add: find_user_def)
qed

text \<open>Run again, with whatever password and name, the first script changes nothing.\<close>

theorem first_admin_is_seeded_once:
  assumes "seed_admin lib new_id salt now db (Some email) password name = (Seeded, db')"
    and "password' \<noteq> None" "password' \<noteq> Some []"
  shows "seed_admin lib' new_id' salt' now' db' (Some email) password' name' = (Already_exists, db')"
proof -
  from assms(1) have none: "find_user db (lower email) = Inr None"
    by (auto simp: seed_admin_def Let_def split: if_splits sum.splits option.splits)
  let ?u = "\<lparr>us_id = new_id, us_created_at = now, us_email = lower email,
    us_password_hash = lib_hash lib salt (case password of None \<Rightarrow> [] | Some p \<Rightarrow> p), us_role = Role_admin,
    us_name = (case name of None \<Rightarrow> ''UniTrack Admin'' | Some n \<Rightarrow> n), us_phone = None, us_photo_url = None,
    us_status = User_active\<rparr>"
  from assms(1) none have u: "db' = db\<lparr>db_users := db_users db @ [?u]\<rparr>" "email \<noteq> []"
    by (auto simp: seed_admin_def Let_def split: if_splits sum.splits dest!: write_user_same)
  with find_user_added [of db ?u] none have "find_user db' (lower email) = Inr (Some ?u)" by simp
  with u(2) assms(2,3) show ?thesis by (auto simp: seed_admin_def Let_def)
qed

text \<open>On an address of its own, it does what the command for passwords does.\<close>

theorem first_admin_is_the_command:
  assumes "find_user db (lower email) = Inr None" "strip email = email" "email \<noteq> []"
    and "MIN_PASSWORD_LEN \<le> length password" "name \<noteq> []"
  shows "snd (seed_admin lib new_id salt now db (Some email) (Some password) (Some name)) =
    snd (set_admin_password lib new_id salt now db email password (Some name))"
  using assms by (auto simp: seed_admin_def set_admin_password_def Let_def MIN_PASSWORD_LEN_def split: sum.splits)

text \<open>An account of another role at the address counts as the administrator that exists.\<close>

theorem another_role_passes_for_the_admin:
  assumes "find_user db (lower email) = Inr (Some u)" "email \<noteq> []" "password \<noteq> []"
  shows "seed_admin lib new_id salt now db (Some email) (Some password) name = (Already_exists, db)"
  using assms by (simp add: seed_admin_def Let_def)

text \<open>A helper approved by the script signs in with the password of the registration, at once.\<close>

lemma fleet_bus_users: "fleet_bus new_id reg db = Inr (b, db1) \<Longrightarrow> db_users db1 = db_users db"
  by (auto simp: fleet_bus_def and_then_def Let_def split: sum.splits option.splits if_splits dest!: flush_same)

lemma fleet_helper_approves:
  assumes "fleet_helper (Some email) db = Inr (True, db')"
  obtains u h where "u \<in> set (db_users db)" "us_email u = lower email" "us_role u = Role_helper"
    "h \<in> set (db_helpers db)" "hp_user_id h = us_id u"
    "db_users db' = row_edit us_id (us_id u) (\<lambda>u. u\<lparr>us_status := User_active\<rparr>) (db_users db)"
    "db_helpers db' = row_edit hp_id (hp_id h) (\<lambda>h. h\<lparr>hp_status := Helper_approved\<rparr>) (db_helpers db)"
proof -
  from assms obtain u h where u: "find_user db (lower email) = Inr (Some u)" "us_role u = Role_helper"
    "helper_of_user db u = Inr (Some h)"
    and db': "db' = db\<lparr>db_helpers := row_edit hp_id (hp_id h) (\<lambda>h. h\<lparr>hp_status := Helper_approved\<rparr>) (db_helpers db),
                     db_users := row_edit us_id (us_id u) (\<lambda>u. u\<lparr>us_status := User_active\<rparr>) (db_users db)\<rparr>"
    by (auto simp: fleet_helper_def and_then_def split: list.splits sum.splits option.splits if_splits)
  have "h \<in> set (filter (\<lambda>h. hp_user_id h = us_id u) (db_helpers db))"
    using u(3) unfolding helper_of_user_def
    by (cases "filter (\<lambda>h. hp_user_id h = us_id u) (db_helpers db)" rule: one_or_none.cases) auto
  with u(2) find_user_some [OF u(1)] db' that show thesis by auto
qed

theorem approved_helper_signs_in:
  assumes "seed_fleet new_id db reg_no (Some email) = (Inr (bus_id, True), db')"
    and "\<And>u. u \<in> set (db_users db) \<Longrightarrow> us_email u = lower email \<Longrightarrow> lib_verify lib (us_password_hash u) password = Some True"
  shows "\<exists>u h. user_by_email db' email = Some u \<and> us_role u = Role_helper \<and> us_status u = User_active \<and>
    h \<in> set (db_helpers db') \<and> hp_user_id h = us_id u \<and> hp_status h = Helper_approved \<and>
    AuthApi.login lib cfg j1 j2 now db' email password = Inr (issue_pair lib cfg j1 j2 now u)"
proof -
  from assms(1) obtain b db1 where b: "fleet_bus new_id reg_no db = Inr (b, db1)"
    "fleet_helper (Some email) db1 = Inr (True, db')" "db_ok db'"
    by (auto simp: seed_fleet_def committed_def and_then_def split: sum.splits prod.splits dest!: flush_same)
  from b(2) obtain u h where u: "u \<in> set (db_users db1)" "us_email u = lower email" "us_role u = Role_helper"
    and h: "h \<in> set (db_helpers db1)" "hp_user_id h = us_id u"
    and users: "db_users db' = row_edit us_id (us_id u) (\<lambda>u. u\<lparr>us_status := User_active\<rparr>) (db_users db1)"
    and helpers: "db_helpers db' = row_edit hp_id (hp_id h) (\<lambda>h. h\<lparr>hp_status := Helper_approved\<rparr>) (db_helpers db1)"
    by (rule fleet_helper_approves)
  let ?u = "u\<lparr>us_status := User_active\<rparr>" and ?h = "h\<lparr>hp_status := Helper_approved\<rparr>"
  have in': "?u \<in> set (db_users db')" "?h \<in> set (db_helpers db')"
    using u(1) h(1) unfolding users helpers row_edit_def by (auto simp: image_iff)
  have found: "user_by_email db' email = Some ?u"
    by (rule user_by_email_unique [OF b(3) in'(1)]) (simp add: u(2))
  have "lib_verify lib (us_password_hash ?u) password = Some True"
    using assms(2) [of u] u fleet_bus_users [OF b(1)] by simp
  with found have "AuthApi.login lib cfg j1 j2 now db' email password = Inr (issue_pair lib cfg j1 j2 now ?u)"
    by (simp add: AuthApi.login_def verify_password_def)
  with found in'(2) u(3) h(2) show ?thesis by (intro exI [of _ ?u] exI [of _ ?h]) simp
qed

text \<open>A run that fails, at the helper too, leaves nothing: the bus goes with it.\<close>

theorem failed_fleet_leaves_nothing: "seed_fleet new_id db reg_no email = (Inl e, db') \<Longrightarrow> db' = db"
  by (auto simp: seed_fleet_def committed_def split: sum.splits)

text \<open>The fixture: a code that its key accepts while the clock is near its slice, and never else.\<close>

theorem fixture_code_verifies:
  assumes "key_pair sign vfy (fst raw) (snd raw)" "field_sep \<notin> set nonce"
  shows "\<exists>f. qr_fixture sign raw other nonce = Inr f \<and> qf_slice f = FIXED_SLICE \<and>
    verify_qr vfy (qf_code f) (qf_public_key f) now =
      (if \<bar>current_slice now - FIXED_SLICE\<bar> \<le> 1
       then Inr \<lparr>qp_ticket_id = TICKET_ID, qp_passenger_count = 1, qp_time_slice = FIXED_SLICE, qp_nonce = nonce\<rparr>
       else Inl (InvalidQr ''code has expired''))"
proof -
  let ?p = "\<lparr>qp_ticket_id = TICKET_ID, qp_passenger_count = 1, qp_time_slice = FIXED_SLICE, qp_nonce = nonce\<rparr>"
  have "\<bar>FIXED_SLICE\<bar> < 10 ^ max_str_digits"
    unfolding FIXED_SLICE_def by (rule small_slice_prints) simp
  then have "payload_ok ?p" using assms(2) by (simp add: payload_ok_def TICKET_ID_def MAX_PASSENGERS_def)
  then obtain code where "build_qr sign (b64_encode (fst raw)) ?p = Inr code"
    "verify_qr vfy code (b64_encode (snd raw)) now =
      (if \<bar>current_slice now - qp_time_slice ?p\<bar> \<le> 1 then Inr ?p else Inl (InvalidQr ''code has expired''))"
    using built_code_verifies [OF assms(1)] by blast
  then show ?thesis by (simp add: qr_fixture_def generate_keypair_def)
qed

end
