(* ===== verification/Session.thy ===== *)
theory Session
  imports Accounts
begin

text \<open>
  The session of a request: \<^verbatim>\<open>app/db/session.py\<close> and the listener of
  \<^verbatim>\<open>core/authz.py\<close>. An endpoint is any sequence of flushes, commits and rollbacks; whatever
  it does to accounts and helpers, the snapshots cached for them are dropped when the session ends.
\<close>

section \<open>A session and its listener\<close>

datatype session_op = Flush database | Commit | Rollback

record session =
  ss_committed :: database
  ss_staged :: database
  ss_touched :: "uuid list"

text \<open>The rows a flush wrote: those new or changed, and those deleted.\<close>

definition written :: "('r \<Rightarrow> uuid) \<Rightarrow> 'r list \<Rightarrow> 'r list \<Rightarrow> 'r list" where
  "written key old new = filter (\<lambda>r. r \<notin> set old) new @ filter (\<lambda>r. key r \<notin> key ` set new) old"

definition flush_touches :: "database \<Rightarrow> database \<Rightarrow> uuid list" where
  "flush_touches old new = touched_principals (written us_id (db_users old) (db_users new))
     (written hp_id (db_helpers old) (db_helpers new))"

fun session_step :: "session_op \<Rightarrow> session \<Rightarrow> session" where
  "session_step (Flush d) s =
     s\<lparr>ss_staged := d, ss_touched := ss_touched s @ flush_touches (ss_staged s) d\<rparr>"
| "session_step Commit s = s\<lparr>ss_committed := ss_staged s\<rparr>"
| "session_step Rollback s = s\<lparr>ss_staged := ss_committed s\<rparr>"

definition new_session :: "database \<Rightarrow> session" where
  "new_session db = \<lparr>ss_committed = db, ss_staged = db, ss_touched = []\<rparr>"

text \<open>
  \<^verbatim>\<open>get_db\<close>: the endpoint runs, to its end or to an exception, then the teardown; what was
  not committed is gone with the session.
\<close>

definition get_db :: "bool \<Rightarrow> (uuid \<Rightarrow> string) \<Rightarrow> session_op list \<Rightarrow> database \<Rightarrow> redis \<Rightarrow> database \<times> redis" where
  "get_db up uuid_text ops db r =
     (let s = fold session_step ops (new_session db) in
      (ss_committed s, flush_principal_invalidations up uuid_text (remdups (ss_touched s)) r))"

section \<open>What the listener misses changes no snapshot\<close>

text \<open>A flush is one the constraints let through, and moves no helper row to another account.\<close>

definition sound_flush :: "database \<Rightarrow> database \<Rightarrow> bool" where
  "sound_flush old new \<longleftrightarrow> db_ok new \<and>
     (\<forall>h \<in> set (db_helpers old). \<forall>h' \<in> set (db_helpers new). hp_id h' = hp_id h \<longrightarrow> hp_user_id h' = hp_user_id h)"

fun sound_ops :: "session_op list \<Rightarrow> session \<Rightarrow> bool" where
  "sound_ops [] s \<longleftrightarrow> True"
| "sound_ops (p # ps) s \<longleftrightarrow>
     (case p of Flush d \<Rightarrow> sound_flush (ss_staged s) d | _ \<Rightarrow> True) \<and> sound_ops ps (session_step p s)"

text \<open>A lookup by a key without repetitions only sees the row that has it.\<close>

lemma find_by_key:
  assumes "distinct (map key xs)"
  shows "find (\<lambda>x. key x = i) xs = Some x \<longleftrightarrow> x \<in> set xs \<and> key x = i"
proof
  assume "x \<in> set xs \<and> key x = i"
  with assms show "find (\<lambda>x. key x = i) xs = Some x"
    by (induction xs) (auto simp: image_iff)
qed (auto simp: find_Some_iff)

lemma unwritten_row:
  assumes "distinct (map key old)" "\<forall>r \<in> set (written key old new). mark r \<noteq> i"
    and "x \<in> set old" "mark x = i" "\<And>y. y \<in> set new \<Longrightarrow> key y = key x \<Longrightarrow> mark y = i"
  shows "x \<in> set new"
proof -
  have "key x \<in> key ` set new" using assms(2-4) by (auto simp: written_def)
  then obtain y where y: "y \<in> set new" "key y = key x" by auto
  with assms(2,5) have "y \<in> set old" by (auto simp: written_def)
  with y assms(1,3) have "y = x" by (auto simp: distinct_map dest: inj_onD)
  with y show ?thesis by simp
qed

lemma same_lookup:
  assumes "distinct (map key old)" "distinct (map mark old)" "distinct (map mark new)"
    and "\<forall>r \<in> set (written key old new). mark r \<noteq> i"
    and "\<And>x y. x \<in> set old \<Longrightarrow> y \<in> set new \<Longrightarrow> key y = key x \<Longrightarrow> mark y = mark x"
  shows "find (\<lambda>r. mark r = i) new = find (\<lambda>r. mark r = i) old"
proof (cases "find (\<lambda>r. mark r = i) old")
  case (Some x)
  then have x: "x \<in> set old" "mark x = i" by (auto simp: find_Some_iff)
  have "x \<in> set new" by (rule unwritten_row [OF assms(1,4) x]) (use assms(5) x in auto)
  with x Some show ?thesis using find_by_key [OF assms(3)] by simp
next
  case None
  have "mark y \<noteq> i" if "y \<in> set new" for y
    using that None assms(4) by (cases "y \<in> set old") (auto simp: find_None_iff written_def)
  then have "find (\<lambda>r. mark r = i) new = None" by (simp add: find_None_iff)
  with None show ?thesis by simp
qed

lemma untouched_principal:
  assumes "db_ok old" "sound_flush old new" "i \<notin> set (flush_touches old new)"
  shows "load_principal new i = load_principal old i"
proof -
  have ids: "distinct (map us_id (db_users d))" "distinct (map hp_id (db_helpers d))" "distinct (map hp_user_id (db_helpers d))"
    if "db_ok d" for d using that by (auto simp: db_ok_def identity_ok_def)
  have new: "db_ok new" using assms(2) by (simp add: sound_flush_def)
  have users: "get_user new i = get_user old i"
    unfolding row_get_def
    by (rule same_lookup [where key = us_id]) (use ids [OF assms(1)] ids [OF new] assms(3) in \<open>auto simp: flush_touches_def touched_principals_def\<close>)
  have "helper_by_user_id new i = helper_by_user_id old i"
    unfolding helper_by_user_id_def
    by (rule same_lookup [where key = hp_id])
      (use ids [OF assms(1)] ids [OF new] assms(2,3) in \<open>auto simp: flush_touches_def touched_principals_def sound_flush_def\<close>)
  with users show ?thesis by (simp add: load_principal_def)
qed

lemma session_leaves_the_rest:
  assumes "sound_ops ops s" "db_ok (ss_staged s)" "db_ok (ss_committed s)"
    and "i \<notin> set (ss_touched (fold session_step ops s))"
    and "load_principal (ss_staged s) i = p" "load_principal (ss_committed s) i = p"
  shows "load_principal (ss_committed (fold session_step ops s)) i = p \<and> i \<notin> set (ss_touched s) \<and>
    db_ok (ss_committed (fold session_step ops s))"
  using assms
proof (induction ops arbitrary: s)
  case (Cons q ops)
  have keep: "set (ss_touched s) \<subseteq> set (ss_touched (fold session_step ps s))" for ps s
  proof (induction ps arbitrary: s)
    case (Cons q ps)
    then show ?case by (cases q) fastforce+
  qed simp
  show ?case
  proof (cases q)
    case (Flush d)
    with Cons.prems(4) keep [of "session_step q s" ops] have "i \<notin> set (flush_touches (ss_staged s) d)" by auto
    with Cons.prems Flush have "load_principal d i = p" "db_ok d"
      using untouched_principal [of "ss_staged s" d i] by (auto simp: sound_flush_def)
    with Cons.prems Flush Cons.IH [of "session_step q s"] show ?thesis by auto
  qed (use Cons.prems Cons.IH [of "session_step q s"] in auto)
qed simp

context uuid_texts
begin

lemma flushed_snapshots:
  "cached_principal uuid_of uuid_text now (flush_principal_invalidations True uuid_text touched r) i =
    (if i \<in> set touched then None else cached_principal uuid_of uuid_text now r i)"
  unfolding flush_principal_invalidations_def
  by (induction touched arbitrary: r) (simp_all add: cached_principal_drop)

lemma session_truthful:
  assumes "coherent (cached_principal uuid_of uuid_text now) load_principal db r" "db_ok db"
    and "sound_ops ops (new_session db)" "get_db True uuid_text ops db r = (db', r')"
  shows "coherent (cached_principal uuid_of uuid_text now) load_principal db' r'"
  unfolding coherent_def
proof (intro allI impI)
  fix i p assume i: "cached_principal uuid_of uuid_text now r' i = Some p"
  let ?s = "fold session_step ops (new_session db)"
  have db': "db' = ss_committed ?s" "r' = flush_principal_invalidations True uuid_text (remdups (ss_touched ?s)) r"
    using assms(4) by (auto simp: get_db_def Let_def)
  with i have "i \<notin> set (ss_touched ?s)" "cached_principal uuid_of uuid_text now r i = Some p"
    by (auto simp: flushed_snapshots split: if_splits)
  moreover from this(2) have "load_principal db i = Some p" by (rule principal_cache.hit [OF assms(1)])
  ultimately show "load_principal db' i = Some p"
    using session_leaves_the_rest [OF assms(3), of i "Some p"] assms(2) db'(1) by (simp add: new_session_def)
qed

end

section \<open>Properties\<close>


text \<open>
  An endpoint that suspends account 1, whose snapshot is cached, and then breaks off after its commit.
\<close>

definition suspended_demo :: database where
  "suspended_demo = put_user_status 1 User_suspended demo_db"

definition demo_endpoint :: "session_op list" where
  "demo_endpoint = [Flush suspended_demo, Commit, Flush demo_db, Rollback]"

definition demo_snapshot :: redis where
  "demo_snapshot = cache_principal unary_text demo_now 1 (the (load_principal demo_db 1)) empty_redis"


end
