(* ===== verification/Spec2Isabelle.thy ===== *)
theory Spec2Isabelle
  imports Commerce Keyspace DevScripts EsIndex Worker Migrations Views FirstRun Session
begin

text \<open>
  A model of the UniTrack backend: the server of a university bus service that sells tickets,
  checks boarding codes offline and online, follows the buses and tells students when they come.
  All paths below are under \<^verbatim>\<open>src/\<close>.

  \<^bold>\<open>The program and its parts.\<close> The API (\<^verbatim>\<open>app/api/routes\<close>) answers
  students, helpers (the crew of a bus) and administrators; the worker (\<^verbatim>\<open>app/worker\<close>)
  runs four jobs beside it; the scripts (\<^verbatim>\<open>scripts\<close>) fill, reset and repair
  what these use. They share three stores and call no code of each other:
  \<^item> Postgres, the truth about accounts, fleet, trips, orders, tickets and boardings;
  \<^item> Redis, what may be forgotten: principals, revoked tokens, the active trip, live positions,
    seats, arrival boards, and the stream of positions;
  \<^item> Elasticsearch, the history of positions, filled from the stream.

  \<^bold>\<open>How code becomes model.\<close> A table is the list of its rows in insertion order
  (\<open>Prelude\<close>), the database a record of tables (\<open>Models.database\<close>); what the
  migrations enforce is \<open>Models.db_ok\<close> and a commit is \<open>Models.commit\<close>, which
  refuses a state that breaks it. Redis is a record of a map from keys to values with their
  expiry, a stream and what was published (\<open>RedisStore.redis\<close>). A handler is a function
  from the state and its request to an answer and the new state; an \<^verbatim>\<open>HTTPException\<close>,
  a caught and an uncaught exception are distinct values (\<open>Models.handler_error\<close>). Instants
  are whole microseconds, money is paisa, both as integers; coordinates, speeds and distances are
  real numbers. Text, JSON, base64 and Python's number parsing are written out
  (\<open>PyText\<close>, \<open>Json\<close>, \<open>Base64\<close>).

  \<^bold>\<open>What is a parameter.\<close> The code of others is an argument with its documented
  contract as a named hypothesis or locale: Ed25519 signing, PyJWT (\<open>Tokens.jwt_library\<close>),
  argon2 (\<open>AuthApi.auth_libraries\<close>), the payment gateway's answers, the text of a UUID, a
  float or an instant, what a search returns, the order of a query without
  \<^verbatim>\<open>ORDER BY\<close>, the clock, which addresses pydantic's \<^verbatim>\<open>EmailStr\<close> takes
  (at the login; elsewhere the request is one it took).

  \<^bold>\<open>Outages and races.\<close> Whether Redis answers is a Boolean argument per call
  (\<open>up1\<close>, \<open>up2\<close>, ...), so the definitions cover every outage. A theorem that needs an answer says
  so by fixing the argument or by a condition on it: the code fails open where its comments say it does
  (revocation, the rotation claim, the reset link), and a cached copy whose deletion Redis missed lives until its
  expiry (\<open>Accounts.snapshots_stay_truthful\<close> bounds the age of a principal, and
  \<open>HelperApi.failed_clear_keeps_trip_on_map\<close> and \<open>DevScripts.restored_admin_waits_for_the_cache\<close> show two that
  outlive the truth). What other requests commit between a handler's reads and its writes is an argument where
  the code waits there with money, rides or tokens at stake: \<open>env\<close> in \<open>Shop\<close> and
  \<open>Reconciler\<close>, \<open>old\<close> and \<open>meanwhile\<close> in \<open>Redemption.redeem_amid\<close> and \<open>sync_item_amid\<close>, the two halves of a
  refresh in \<open>AuthApi\<close>, \<open>env\<close> of a registration. Every other handler is one uninterrupted step.
  A theorem that gives a handler the identity there is about an undisturbed request.

  \<^bold>\<open>Selling and boarding.\<close>
  \<^item> \<open>Boarding\<close>: \<^verbatim>\<open>services/boarding.py\<close>. Codes are built, parsed and verified;
    a built code verifies in its slice and its neighbours.
  \<^item> \<open>Redemption\<close>: \<^verbatim>\<open>services/redemption.py\<close> and \<^verbatim>\<open>routes/boarding.py\<close>.
    A boarding deducts exactly its passengers, a batch of any length keeps the ride accounts, a
    refused item costs only itself.
  \<^item> \<open>FraudSweep\<close>: \<^verbatim>\<open>worker/fraud_sweep.py\<close>. A pass suspends exactly the active
    tickets whose code two devices reported.
  \<^item> \<open>Gateway\<close>, \<open>Settlement\<close>, \<open>Shop\<close>, \<open>Reconciler\<close>:
    \<^verbatim>\<open>core/sslcommerz.py\<close>, \<^verbatim>\<open>services/settlement.py\<close>,
    \<^verbatim>\<open>routes/shop.py\<close>, \<^verbatim>\<open>worker/payment_reconciler.py\<close>. No ticket without
    money, a ticket for every confirmed payment, and what each record decides.
  \<^item> \<open>Catalog\<close>: \<^verbatim>\<open>routes/admin_catalog.py\<close> and \<^verbatim>\<open>routes/fleet.py\<close>.
  \<^item> \<open>Commerce\<close> runs all of these in any order over one database, twice. Its serial machine (\<open>commerce_step\<close>)
    keeps the ride accounts and the link between orders, payments and tickets. Its machine of a crowd
    (\<open>amid_step\<close>) lets any sound commits of others (\<open>others\<close>) land between the reads and the writes of each operation, as
    rely and guarantee: tickets, their keys and boardings are never lost there, while rides and payments can be
    (\<open>Redemption.concurrent_boardings_lose_rides\<close>, \<open>Shop.late_failure_report_unpays\<close>).

  \<^bold>\<open>Accounts.\<close>
  \<^item> \<open>Tokens\<close>, \<open>Authz\<close>: \<^verbatim>\<open>core/security.py\<close>, \<^verbatim>\<open>core/revocation.py\<close>,
    \<^verbatim>\<open>core/authz.py\<close>, \<^verbatim>\<open>api/deps.py\<close>. Guards decide by the row of today.
  \<^item> \<open>AuthApi\<close>, \<open>AdminUsers\<close>: \<^verbatim>\<open>routes/auth.py\<close> and the accounts and alerts of
    \<^verbatim>\<open>routes/admin.py\<close>. Single use of refresh tokens and links, logout, suspension, the
    life cycle of an alert as a refinement.
  \<^item> \<open>Accounts\<close> runs them one after another, with anything of Redis out at any time (\<open>api_step True\<close>, the
    \<open>account_step\<close>) or with a deletion of each moderation getting through (\<open>api_step False\<close>): no run makes an administrator,
    cached principals are less than five minutes behind the database in the first and equal to it in the second.
  \<^item> \<open>Session\<close>: \<^verbatim>\<open>db/session.py\<close> and the listener of \<^verbatim>\<open>core/authz.py\<close>.
    The teardown of a session that reaches Redis keeps cached principals truthful whatever the endpoint did.

  \<^bold>\<open>On the road.\<close>
  \<^item> \<open>RedisStore\<close>, \<open>Trips\<close>, \<open>HelperApi\<close>: \<^verbatim>\<open>core/redis.py\<close>,
    \<^verbatim>\<open>services/trip.py\<close>, \<^verbatim>\<open>services/ops.py\<close>, \<^verbatim>\<open>routes/helper.py\<close>.
    While the cache is coherent the cached trip is the live trip; trips start exactly when bus and crew are free; positions are
    filed under the helper's own trip.
  \<^item> \<open>FleetView\<close>, \<open>LiveTrack\<close>: \<^verbatim>\<open>services/fleet_view.py\<close>,
    \<^verbatim>\<open>services/live_track.py\<close>, \<^verbatim>\<open>routes/ws_track.py\<close>, the live maps of
    \<^verbatim>\<open>routes/tracking.py\<close> and \<^verbatim>\<open>routes/admin.py\<close>. The maps agree up to the age of the
    shared roster, a position lives one minute, the socket's door is the guard of the API.
  \<^item> \<open>Eta\<close>, \<open>EtaEngine\<close>: \<^verbatim>\<open>services/eta.py\<close>, \<^verbatim>\<open>worker/eta_engine.py\<close>
    and the boards of \<^verbatim>\<open>routes/tracking.py\<close>. Progress is the furthest stop of the window,
    boards are ordered and bounded, a board read back is the board written, one trip's failure
    costs no other.
  \<^item> \<open>GpsHistory\<close>: \<^verbatim>\<open>worker/gps_es_indexer.py\<close>, nearby and history of
    \<^verbatim>\<open>routes/tracking.py\<close>. A fix survives stream, index and search; a backlog drains.
  \<^item> \<open>Keyspace\<close> runs everything that writes Redis, the API and the worker, in any order: each
    value stands under a key of its kind, so every reader can read what it finds.

  \<^bold>\<open>Starting up, and beside the server.\<close>
  \<^item> \<open>Startup\<close>: \<^verbatim>\<open>app/main.py\<close>, \<^verbatim>\<open>core/config.py\<close>,
    \<^verbatim>\<open>core/email.py\<close>. What the settings read from the environment, which address a mailed
    link has, who gets which mail and what becomes of a mail that fails, what is warned at the start,
    which origin may call, and the table of routes with the guard of each.
  \<^item> \<open>Views\<close>: the response models of \<^verbatim>\<open>app/schemas\<close> that are filled from a row, the
    listings, and what their answers keep secret.
  \<^item> \<open>EsIndex\<close>: \<^verbatim>\<open>core/elasticsearch.py\<close>. The index of positions is made once,
    by whichever process comes first.
  \<^item> \<open>Worker\<close>: \<^verbatim>\<open>worker/__main__.py\<close>. The four jobs run side by side, turn by turn, in
    any order: none changes what another owns, a failed pass costs only itself, and only the
    indexer can end the process.
  \<^item> \<open>Seed\<close>, \<open>SeedRun\<close>: \<^verbatim>\<open>scripts/seed.py\<close>. The tables a wipe must take are the
    closure of those asked for under the foreign keys, in an order no key forbids; the rows a seed
    writes satisfy the schema; with \<^verbatim>\<open>--keep\<close> nothing that stands is touched.
  \<^item> \<open>Simulator\<close>: \<^verbatim>\<open>scripts/dev_simulate_gps.py\<close>. The simulated bus stays on its line,
    signs in again when its token is refused and ends the trip it began.
  \<^item> \<open>DevScripts\<close>, \<open>FirstRun\<close>: the other scripts: an administrator's password, the first
    administrator, a bus and its helper, routes, the reset of the demonstration, the backfill of positions,
    the fixture of boarding codes.
  \<^item> \<open>Ddl\<close>, \<open>Migrations\<close>: the statements the revisions of \<^verbatim>\<open>alembic/versions\<close> are made
    of, and the revisions. They build the tables the models declare; every database in use reaches the
    head without losing a row; a ticket sold before the boarding codes gets keys that work; what the
    downgrades leave behind. \<open>Ddl.run_split\<close>: a script is decided by its run on empty tables and
    by the rows.

  \<^bold>\<open>Interfaces.\<close> \<open>Prelude.codec\<close> (what is encoded decodes to itself) is
  interpreted on base64, on boarding codes and on the texts of identifiers;
  \<open>Prelude.guarded_machine\<close> (a step keeps an invariant) on the step relations of commerce alone and
  in a crowd, accounts (twice), live map, indexer and the shared Redis; \<open>RedisStore.cache_aside\<close> (a coherent cache answers like the
  table) on the active trip and on principals; \<open>EtaEngine.separate_jobs\<close> (jobs that touch
  only their own keys) on the trips of a pass; \<open>Worker.job_part\<close> (a job reads and
  writes only its part of the process) on the indexer, the books and the boards; \<open>Tokens.jwt_library\<close> and
  \<open>AuthApi.auth_libraries\<close> on the concrete libraries of the witnesses. \<open>Demo\<close> holds the
  small world in which the witnesses run.

  \<^bold>\<open>Bounds.\<close> No definition uses fuel to cut a result short. A loop of the code is over a
  list, except two: the closure of \<^verbatim>\<open>seed.py\<close> (\<open>Seed.expand_loop\<close>), which is a partial
  function proved to return, and the endless loops of the worker and of the simulator, which take the
  schedule of their turns (\<open>Worker\<close>) or the number of ticks before they are stopped
  (\<open>Simulator\<close>) as an argument, so that the theorems hold after every number of them. Batches
  keep the code's own limits (50 orders, 100 reused codes, 100 stream entries), which appear in the
  theorems.

  \<^bold>\<open>Not modelled.\<close> The static wallet page (\<^verbatim>\<open>routes/wallet_page.py\<close>, one page of HTML
  and script), talking SMTP and HTTP (the answer of the other side is an argument), FastAPI's request
  parsing beyond the checks of the schemas, the SQLAlchemy session beyond flush, commit and rollback (a pass of the
  reconciler writes at its commit, though an earlier lookup may already send its writes; attributes expired by a
  rollback are read, though two places of \<^verbatim>\<open>routes/shop.py\<close> would raise there), widths of columns other than the
  nonce's and those the registrations and the scripts write, coordinates that are not finite, the
  engine and its pool, Alembic's offline mode, PNG rendering, sleeps and timers, rounding of binary
  floats, trimming of the stream, what the scripts print, and \<^verbatim>\<open>scripts/smoke_test.py\<close>,
  which is a client that tests a running server.
\<close>

end
